(* ===== verification/Occl_Prelude.thy ===== *)
theory Occl_Prelude
  imports Main "HOL-Library.Word" "HOL-Library.Signed_Division" "HOL-Library.Sublist" "HOL-Library.Multiset"
begin

section \<open>Prelude: shared types, collections and lemmas\<close>

text \<open>
  What every component of the development shares: the types that stand for the program's bytes,
  sizes and pointers, the arithmetic of C++ \<open>int\<close> (division truncates towards zero), loops over an
  index range that may return \<open>false\<close>, the flat memory of one process, and a stable sort by a
  comparator (\<open>std::stable_sort\<close>) with its contract.

  Conventions. A \<open>size_t\<close> is a \<^typ>\<open>nat\<close>; where the program multiplies sizes the product is taken
  modulo \<open>2 ^ 64\<close> (\<open>size_mul\<close>) until a lemma shows that the guard in front of it excludes
  wrap-around. A C++ \<open>int\<close> is a HOL \<^typ>\<open>int\<close>; an increment that could leave the 32-bit range is an
  explicit failure (\<open>int_inc\<close>). A member function that returns \<open>bool\<close> and updates its object is a
  function into \<^typ>\<open>'a option\<close>: \<^term>\<open>None\<close> is \<open>return false\<close>.
\<close>

type_synonym byte = "8 word"

named_theorems ring_simps "unfolding of the ring machine"
named_theorems mem_simps "loads and stores"

subsection \<open>Machine arithmetic\<close>

definition SIZE_MAX :: nat where
  "SIZE_MAX = 18446744073709551615"

definition INT_MAX :: int where
  "INT_MAX = 2147483647"

definition size_mul :: "nat \<Rightarrow> nat \<Rightarrow> nat" where
  "size_mul a b = (a * b) mod 18446744073709551616"

definition int_inc :: "int \<Rightarrow> int option" where
  "int_inc i = (if i < INT_MAX then Some (i + 1) else None)"

lemma size_mul_exact: "a * b \<le> SIZE_MAX \<Longrightarrow> size_mul a b = a * b"
  by (simp add: size_mul_def SIZE_MAX_def)

lemma size_mul_guard: "0 < b \<Longrightarrow> a \<le> SIZE_MAX div b \<Longrightarrow> size_mul a b = a * b"
  by (rule size_mul_exact) (simp add: less_eq_div_iff_mult_less_eq)

text \<open>C++ \<open>%\<close> on non-negative operands is the mathematical remainder.\<close>

lemma smod_of_nat [simp]: "int a smod int b = int (a mod b)"
  by (cases "a = 0") (simp_all add: signed_modulo_int_def zmod_int)

lemma sdiv_of_nat [simp]: "int a sdiv int b = int (a div b)"
  by (cases "a = 0"; cases "b = 0") (simp_all add: signed_divide_int_def zdiv_int)

lemma smod_nonneg: "0 \<le> a \<Longrightarrow> 0 < b \<Longrightarrow> (a::int) smod b = a mod b"
  using smod_of_nat [of "nat a" "nat b"] by (simp add: zmod_int)

lemma sdiv_nonneg: "0 \<le> a \<Longrightarrow> 0 < b \<Longrightarrow> (a::int) sdiv b = a div b"
  using sdiv_of_nat [of "nat a" "nat b"] by (simp add: zdiv_int)

lemma mod_neg_wrap: "- n \<le> x \<Longrightarrow> x < 0 \<Longrightarrow> (x::int) mod n = x + n"
  using mod_add_self2 [of x n] mod_pos_pos_trivial [of "x + n" n] by simp

subsection \<open>Loops that may return false\<close>

text \<open>\<open>for (i : is) if (!body(i)) return false;\<close>\<close>

fun for_opt :: "('i \<Rightarrow> 's \<Rightarrow> 's option) \<Rightarrow> 'i list \<Rightarrow> 's \<Rightarrow> 's option" where
  "for_opt f [] s = Some s"
| "for_opt f (i # is) s = (case f i s of None \<Rightarrow> None | Some s' \<Rightarrow> for_opt f is s')"

lemma for_opt_append:
  "for_opt f (xs @ ys) s = (case for_opt f xs s of None \<Rightarrow> None | Some s' \<Rightarrow> for_opt f ys s')"
  by (induction xs arbitrary: s) (auto split: option.splits)

text \<open>An invariant of the body is an invariant of the loop.\<close>

lemma for_opt_invariant:
  assumes "for_opt f is s = Some s'" and "P s"
    and "\<And>i s s'. i \<in> set is \<Longrightarrow> P s \<Longrightarrow> f i s = Some s' \<Longrightarrow> P s'"
  shows "P s'"
  using assms
proof (induction "is" arbitrary: s)
  case Nil
  then show ?case by simp
next
  case (Cons i "is")
  then obtain s1 where "f i s = Some s1" and rest: "for_opt f is s1 = Some s'"
    by (auto split: option.splits)
  then have "P s1" using Cons.prems(2,3) by (meson list.set_intros(1))
  with rest show ?case using Cons.IH Cons.prems(3) by (meson list.set_intros(2))
qed

subsection \<open>Pointers and the memory of one process\<close>

text \<open>
  A pointer is null, an address of user memory, or a position in the \<open>temp_buffer\<close> that the
  collective state machines own. User memory is a total map from addresses to bytes.
\<close>

datatype ptr = NullPtr | Mem nat | Tmp nat

type_synonym heap = "nat \<Rightarrow> byte"

fun ptr_plus :: "ptr \<Rightarrow> nat \<Rightarrow> ptr" where
  "ptr_plus NullPtr n = NullPtr"
| "ptr_plus (Mem a) n = Mem (a + n)"
| "ptr_plus (Tmp a) n = Tmp (a + n)"

lemma ptr_plus_0 [simp]: "ptr_plus p 0 = p"
  by (cases p) simp_all

lemma ptr_plus_plus [simp]: "ptr_plus (ptr_plus p a) b = ptr_plus p (a + b)"
  by (cases p) simp_all

definition heap_load :: "heap \<Rightarrow> nat \<Rightarrow> nat \<Rightarrow> byte list" where
  "heap_load h a n = map h [a..<a + n]"

definition heap_store :: "nat \<Rightarrow> byte list \<Rightarrow> heap \<Rightarrow> heap" where
  "heap_store a bs h = (\<lambda>x. if a \<le> x \<and> x < a + length bs then bs ! (x - a) else h x)"

definition list_store :: "nat \<Rightarrow> 'a list \<Rightarrow> 'a list \<Rightarrow> 'a list" where
  "list_store a bs xs = take a xs @ bs @ drop (a + length bs) xs"

lemma length_heap_load [simp, mem_simps]: "length (heap_load h a n) = n"
  by (simp add: heap_load_def)

lemma heap_load_0 [simp, mem_simps]: "heap_load h a 0 = []"
  by (simp add: heap_load_def)

lemma nth_heap_load [simp, mem_simps]: "i < n \<Longrightarrow> heap_load h a n ! i = h (a + i)"
  by (simp add: heap_load_def)

lemma heap_store_Nil [simp, mem_simps]: "heap_store a [] h = h"
  by (auto simp: heap_store_def fun_eq_iff)

lemma heap_store_append:
  "heap_store (a + length xs) ys (heap_store a xs h) = heap_store a (xs @ ys) h"
  by (auto simp: heap_store_def nth_append fun_eq_iff)

lemma heap_load_store_same [simp, mem_simps]:
  "heap_load (heap_store a bs h) a (length bs) = bs"
  by (rule nth_equalityI) (auto simp: heap_store_def)

lemma heap_load_store_disjoint:
  "a + length bs \<le> b \<or> b + n \<le> a \<Longrightarrow> heap_load (heap_store a bs h) b n = heap_load h b n"
  by (auto simp: heap_load_def heap_store_def)

lemma length_list_store [simp]:
  "a + length bs \<le> length xs \<Longrightarrow> length (list_store a bs xs) = length xs"
  by (simp add: list_store_def)

lemma list_store_Nil [simp]: "list_store a [] xs = xs"
  by (simp add: list_store_def)

lemma take_drop_list_store:
  "a + length bs \<le> length xs \<Longrightarrow> take (length bs) (drop a (list_store a bs xs)) = bs"
  by (simp add: list_store_def)

lemma take_list_store:
  "a + length bs \<le> length xs \<Longrightarrow> take (a + length bs) (list_store a bs xs) = take a xs @ bs"
  by (simp add: list_store_def)

subsection \<open>Stable sorting by a comparator\<close>

text \<open>
  \<open>std::stable_sort(first, last, less)\<close>: the result is the stable sort of the range, which for a
  strict weak order is unique; it is computed here by insertion. An element goes behind every
  element it is not less than, so equivalent elements keep their order.
\<close>

fun insert_stable :: "('a \<Rightarrow> 'a \<Rightarrow> bool) \<Rightarrow> 'a \<Rightarrow> 'a list \<Rightarrow> 'a list" where
  "insert_stable lt x [] = [x]"
| "insert_stable lt x (y # ys) =
     (if lt y x then y # insert_stable lt x ys else x # y # ys)"

definition stable_sort :: "('a \<Rightarrow> 'a \<Rightarrow> bool) \<Rightarrow> 'a list \<Rightarrow> 'a list" where
  "stable_sort lt xs = foldr (insert_stable lt) xs []"

lemma stable_sort_Nil [simp]: "stable_sort lt [] = []"
  by (simp add: stable_sort_def)

lemma stable_sort_Cons [simp]: "stable_sort lt (x # xs) = insert_stable lt x (stable_sort lt xs)"
  by (simp add: stable_sort_def)

lemma mset_insert_stable [simp]: "mset (insert_stable lt x ys) = add_mset x (mset ys)"
  by (induction ys) auto

lemma mset_stable_sort [simp]: "mset (stable_sort lt xs) = mset xs"
  by (induction xs) auto

lemma set_stable_sort [simp]: "set (stable_sort lt xs) = set xs"
  by (metis mset_stable_sort set_mset_mset)

lemma length_stable_sort [simp]: "length (stable_sort lt xs) = length xs"
  by (metis mset_stable_sort size_mset)

text \<open>The comparators the program passes are strict weak orders: the contract of the algorithm.\<close>

locale strict_weak_order =
  fixes lt :: "'a \<Rightarrow> 'a \<Rightarrow> bool"
  assumes lt_asym: "lt x y \<Longrightarrow> \<not> lt y x"
    and nlt_trans: "\<not> lt x y \<Longrightarrow> \<not> lt y z \<Longrightarrow> \<not> lt x z"
begin

abbreviation equiv :: "'a \<Rightarrow> 'a \<Rightarrow> bool" where
  "equiv x y \<equiv> \<not> lt x y \<and> \<not> lt y x"

abbreviation ordered :: "'a list \<Rightarrow> bool" where
  "ordered \<equiv> sorted_wrt (\<lambda>x y. \<not> lt y x)"

lemma ordered_insert_stable: "ordered ys \<Longrightarrow> ordered (insert_stable lt x ys)"
proof (induction ys)
  case (Cons y ys)
  have "set (insert_stable lt x ys) = insert x (set ys)"
    by (metis mset_insert_stable set_mset_add_mset_insert set_mset_mset)
  moreover have "\<not> lt x y" if "lt y x"
    using that by (rule lt_asym)
  moreover have "\<not> lt w x" if "\<not> lt y x" and "w \<in> set ys" for w
    using that Cons.prems nlt_trans [of w y x] by simp
  ultimately show ?case
    using Cons by auto
qed simp

lemma ordered_stable_sort: "ordered (stable_sort lt xs)"
  by (induction xs) (auto intro: ordered_insert_stable)

text \<open>Stability: among the elements equivalent to any \<open>z\<close> the order of the input is kept.\<close>

lemma filter_insert_stable:
  "filter (equiv z) (insert_stable lt x ys) = (if equiv z x then x # filter (equiv z) ys else filter (equiv z) ys)"
proof (induction ys)
  case (Cons y ys)
  have "\<not> equiv z y" if "lt y x" and "equiv z x"
    using that nlt_trans [of y z x] by blast
  with Cons show ?case by (cases "lt y x"; cases "equiv z x") auto
qed simp

lemma filter_stable_sort: "filter (equiv z) (stable_sort lt xs) = filter (equiv z) xs"
  by (induction xs) (simp_all add: filter_insert_stable)

end

text \<open>
  Comparators that compare through a key on which distinct values are always ordered: then the keys
  of the result depend on the multiset of keys only, so two processes that sort lists with the same
  keys agree on the order.
\<close>

locale keyed_order = strict_weak_order lt
  for lt :: "'a \<Rightarrow> 'a \<Rightarrow> bool" +
  fixes key :: "'a \<Rightarrow> 'k::linorder"
  assumes lt_key: "lt x y \<longleftrightarrow> key x < key y"
begin

lemma sorted_keys: "sorted (map key (stable_sort lt xs))"
  using ordered_stable_sort [of xs] by (simp add: sorted_map lt_key not_less)

lemma keys_agree:
  assumes "mset (map key xs) = mset (map key ys)"
  shows "map key (stable_sort lt xs) = map key (stable_sort lt ys)"
proof -
  have "mset (map key (stable_sort lt xs)) = mset (map key (stable_sort lt ys))"
    using assms by simp
  then show ?thesis
    using sorted_keys by (metis properties_for_sort)
qed

end

lemma distinct_remdups_adj_sorted: "sorted xs \<Longrightarrow> distinct (remdups_adj xs)"
  by (induction xs rule: remdups_adj.induct) auto

lemma distinct_concat_map:
  assumes "distinct is" and "\<And>i. i \<in> set is \<Longrightarrow> distinct (f i)"
    and "\<And>i j x. i \<in> set is \<Longrightarrow> j \<in> set is \<Longrightarrow> x \<in> set (f i) \<Longrightarrow> x \<in> set (f j) \<Longrightarrow> i = j"
  shows "distinct (concat (map f is))"
  using assms
proof (induction "is")
  case (Cons i "is")
  have "set (f i) \<inter> set (concat (map f is)) = {}" using Cons.prems(1) Cons.prems(3) [of i] by auto
  moreover have "distinct (concat (map f is))" using Cons.prems by (intro Cons.IH) auto
  ultimately show ?case using Cons.prems(2) [of i] by simp
qed simp

end
