(* ===== verification/Occl_Types.thy ===== *)
theory Occl_Types
  imports Occl_Prelude
begin

section \<open>Data model\<close>

text \<open>
  The structures of \<open>include/types.h\<close>, \<open>include/channel.h\<close> and the constants of
  \<open>include/occl_config.h\<close>. Each struct is a record with the source's fields (prefixed by the
  struct, since HOL has one name space for selectors), each enum a datatype with the source's
  enumerators. A C++ enum variable can hold a value outside its enumerators (the regression tests
  pass \<open>static_cast<DataType>(99)\<close>), so the enums that callers pass have one more constructor that
  carries such a value. A \<open>shared_ptr<Transport>\<close> is a handle, with \<open>0\<close> for null.
\<close>

subsection \<open>Enumerations\<close>

datatype DataType = FLOAT32 | FLOAT64 | INT32 | INT64 | DataTypeValue nat

datatype ReduceOp = OpSum | OpMax | OpMin | OpAvg | ReduceOpValue nat

datatype CollFunc =
  AllReduce | Broadcast | Reduce | AllGather | ReduceScatter | Send | Recv | CollFuncValue nat

datatype CollEvent = Readable | Writable

text \<open>The underlying integers, on which \<open><\<close> between enum values is defined.\<close>

fun DataType_code :: "DataType \<Rightarrow> nat" where
  "DataType_code FLOAT32 = 0"
| "DataType_code FLOAT64 = 1"
| "DataType_code INT32 = 2"
| "DataType_code INT64 = 3"
| "DataType_code (DataTypeValue n) = 4 + n"

fun ReduceOp_code :: "ReduceOp \<Rightarrow> nat" where
  "ReduceOp_code OpSum = 0"
| "ReduceOp_code OpMax = 1"
| "ReduceOp_code OpMin = 2"
| "ReduceOp_code OpAvg = 3"
| "ReduceOp_code (ReduceOpValue n) = 4 + n"

fun CollFunc_code :: "CollFunc \<Rightarrow> nat" where
  "CollFunc_code AllReduce = 0"
| "CollFunc_code Broadcast = 1"
| "CollFunc_code Reduce = 2"
| "CollFunc_code AllGather = 3"
| "CollFunc_code ReduceScatter = 4"
| "CollFunc_code Send = 5"
| "CollFunc_code Recv = 6"
| "CollFunc_code (CollFuncValue n) = 7 + n"

lemma DataType_code_inject [simp]: "DataType_code a = DataType_code b \<longleftrightarrow> a = b"
  by (cases a; cases b) simp_all

lemma CollFunc_code_inject [simp]: "CollFunc_code a = CollFunc_code b \<longleftrightarrow> a = b"
  by (cases a; cases b) simp_all

text \<open>\<open>Utils::GetDataTypeSize\<close>: 0 for a value that is no enumerator.\<close>

fun GetDataTypeSize :: "DataType \<Rightarrow> nat" where
  "GetDataTypeSize FLOAT32 = 4"
| "GetDataTypeSize FLOAT64 = 8"
| "GetDataTypeSize INT32 = 4"
| "GetDataTypeSize INT64 = 8"
| "GetDataTypeSize (DataTypeValue n) = 0"

lemma GetDataTypeSize_bound [simp]: "GetDataTypeSize d \<le> 8"
  by (cases d) simp_all

lemma GetDataTypeSize_cases: "GetDataTypeSize d = 0 \<or> GetDataTypeSize d = 4 \<or> GetDataTypeSize d = 8"
  by (cases d) simp_all

subsection \<open>Configuration constants\<close>

text \<open>The production build: \<open>kTestScale = 1\<close>.\<close>

definition kTestScale :: nat where "kTestScale = 1"

definition kChunkBytes :: nat where "kChunkBytes = 32 * 1024 div kTestScale"

definition kTreeThresholdChunks :: nat where "kTreeThresholdChunks = 4"

lemma kChunkBytes_value: "kChunkBytes = 32768"
  by (simp add: kChunkBytes_def kTestScale_def)

lemma kChunkBytes_pos [simp]: "0 < kChunkBytes"
  by (simp add: kChunkBytes_value)

lemma type_size_dvd_kChunkBytes: "0 < GetDataTypeSize d \<Longrightarrow> GetDataTypeSize d dvd kChunkBytes"
  by (cases d) (simp_all add: kChunkBytes_value)

subsection \<open>Nodes and user tasks\<close>

record NodeInfo =
  ni_rank :: int
  ni_ip_addr :: "byte list"
  ni_data_port :: "16 word"
  ni_hostname :: "byte list"
  ni_rdma_addr :: "byte list"
  ni_rdma_port :: "16 word"
  ni_p2p_port :: "16 word"
  ni_p2p_rdma_port :: "16 word"

record CollTask =
  ct_func :: CollFunc
  ct_send_buf :: ptr
  ct_recv_buf :: ptr
  ct_count :: nat
  ct_dtype :: DataType
  ct_op :: ReduceOp
  ct_root :: int
  ct_peer :: int

definition CollTask_default :: CollTask where
  "CollTask_default = \<lparr>ct_func = AllReduce, ct_send_buf = NullPtr, ct_recv_buf = NullPtr, ct_count = 0,
     ct_dtype = FLOAT32, ct_op = OpSum, ct_root = 0, ct_peer = -1\<rparr>"

subsection \<open>Plan tasks and their cursor\<close>

type_synonym transport_ref = nat

datatype TopologyKind = RingTopology | TreeTopology | P2pTopology

text \<open>
  \<open>CollOpState\<close>: the algorithm cursor. \<open>algo.ring.step\<close> and \<open>algo.tree.{recv,send}_chunk\<close> are the
  fields \<open>st_ring_step\<close>, \<open>st_recv_chunk\<close>, \<open>st_send_chunk\<close>; the \<open>vector<char>\<close> done flags are
  Boolean lists.
\<close>

record CollOpState =
  st_phase :: int
  st_send_progress :: "nat list"
  st_recv_progress :: "nat list"
  st_send_done :: "bool list"
  st_recv_done :: "bool list"
  st_temp_buffer :: "byte list"
  st_ring_step :: int
  st_recv_chunk :: "nat list"
  st_send_chunk :: "nat list"

definition CollOpState_default :: CollOpState where
  "CollOpState_default = \<lparr>st_phase = 0, st_send_progress = [], st_recv_progress = [],
     st_send_done = [], st_recv_done = [], st_temp_buffer = [], st_ring_step = 0,
     st_recv_chunk = [], st_send_chunk = []\<rparr>"

record PlanTask =
  pt_func :: CollFunc
  pt_send_buf :: ptr
  pt_recv_buf :: ptr
  pt_elem_count :: nat
  pt_chunk_size :: nat
  pt_rank_stride :: nat
  pt_dtype :: DataType
  pt_reduce_op :: ReduceOp
  pt_channel_id :: int
  pt_rank :: int
  pt_world_size :: int
  pt_root :: int
  pt_peer :: int
  pt_topology :: "TopologyKind option"
  pt_send_transports :: "transport_ref list"
  pt_recv_transports :: "transport_ref list"
  pt_state :: CollOpState

definition PlanTask_default :: PlanTask where
  "PlanTask_default = \<lparr>pt_func = AllReduce, pt_send_buf = NullPtr, pt_recv_buf = NullPtr,
     pt_elem_count = 0, pt_chunk_size = 0, pt_rank_stride = 0, pt_dtype = FLOAT32,
     pt_reduce_op = OpSum, pt_channel_id = 0, pt_rank = 0, pt_world_size = 1, pt_root = 0,
     pt_peer = -1, pt_topology = None, pt_send_transports = [], pt_recv_transports = [],
     pt_state = CollOpState_default\<rparr>"

record ChannelPlan =
  cp_channel_id :: int
  cp_tasks :: "PlanTask list"

record CollPlan =
  pl_channels :: "ChannelPlan list"
  pl_slices :: "PlanTask list"

text \<open>\<open>CollPlan(n_channels)\<close>: one empty channel plan per channel, numbered in order.\<close>

definition CollPlan_new :: "int \<Rightarrow> CollPlan" where
  "CollPlan_new n = \<lparr>pl_channels = map (\<lambda>i. \<lparr>cp_channel_id = int i, cp_tasks = []\<rparr>) [0..<nat n],
                     pl_slices = []\<rparr>"

subsection \<open>Channels\<close>

record Ring =
  ring_prev :: int
  ring_next :: int

record Tree =
  tree_parent :: int
  tree_children :: "int list"
  tree_star_peers :: "int list"

record Connector =
  cn_peer :: int
  cn_channel_id :: int
  cn_is_send :: bool
  cn_transport :: transport_ref

record Channel =
  ch_id :: int
  ch_ring :: Ring
  ch_tree :: Tree
  ch_send :: "Connector list"
  ch_recv :: "Connector list"
  ch_send_p2p :: "Connector list"
  ch_recv_p2p :: "Connector list"

definition SendConnector :: "Channel \<Rightarrow> int \<Rightarrow> Connector option" where
  "SendConnector ch peer =
     (if peer < 0 \<or> nat peer \<ge> length (ch_send ch) then None else Some (ch_send ch ! nat peer))"

definition RecvConnector :: "Channel \<Rightarrow> int \<Rightarrow> Connector option" where
  "RecvConnector ch peer =
     (if peer < 0 \<or> nat peer \<ge> length (ch_recv ch) then None else Some (ch_recv ch ! nat peer))"

definition Channel_default :: Channel where
  "Channel_default = \<lparr>ch_id = 0, ch_ring = \<lparr>ring_prev = -1, ring_next = -1\<rparr>,
     ch_tree = \<lparr>tree_parent = -1, tree_children = [], tree_star_peers = []\<rparr>,
     ch_send = [], ch_recv = [], ch_send_p2p = [], ch_recv_p2p = []\<rparr>"

subsection \<open>Transport modes (\<open>include/transport/transport.h\<close>)\<close>

datatype TransportDirection = Bidirectional | DirSend | DirReceive

datatype TransportWaitMode = EventDriven | Polling

text \<open>The largest message of a zero-copy transfer (\<open>include/transport/transport_rdma_zc.h\<close>).\<close>

definition kRdmaZcMaxTransferSize :: nat where "kRdmaZcMaxTransferSize = 1073741824"

definition IsTransferSizeSupported :: "nat \<Rightarrow> bool" where
  "IsTransferSizeSupported sz \<longleftrightarrow> sz \<le> kRdmaZcMaxTransferSize"

end
