(* ===== verification/Occl_Topology.thy ===== *)
theory Occl_Topology
  imports Occl_Types
begin

section \<open>Topology shapes\<close>

text \<open>
  How the ranks of a communicator are wired: the grouping of ranks into machines that
  \<open>Communicator::Init\<close> computes, and \<open>FillChannels\<close>, \<open>FillPeers\<close>, \<open>FillTransports\<close> of the three
  topologies (\<open>src/topology/topology_{ring,tree,p2p}.cpp\<close>). The theorems say that the edges two
  ranks compute independently are each other's mirror image, which is what lets one end connect and
  the other accept.
\<close>

subsection \<open>Grouping ranks into machines\<close>

text \<open>The part of the communicator's state that describes where the rank is placed.\<close>

record Placement =
  pc_local_rank :: int
  pc_local_size :: int
  pc_local_ranks :: "int list"
  pc_is_single_machine :: bool
  pc_machine_index :: int
  pc_machine_count :: int
  pc_machine_leaders :: "int list"

definition Placement_default :: Placement where
  "Placement_default = \<lparr>pc_local_rank = 0, pc_local_size = 1, pc_local_ranks = [], pc_is_single_machine = True,
     pc_machine_index = 0, pc_machine_count = 0, pc_machine_leaders = []\<rparr>"

text \<open>\<open>std::distance(begin, std::find(begin, end, x))\<close>: the length if \<open>x\<close> does not occur.\<close>

fun find_index :: "'a list \<Rightarrow> 'a \<Rightarrow> nat" where
  "find_index [] x = 0"
| "find_index (y # ys) x = (if y = x then 0 else Suc (find_index ys x))"

definition machine_hosts :: "NodeInfo list \<Rightarrow> byte list list" where
  "machine_hosts nodes =
     foldl (\<lambda>hosts node. if ni_hostname node \<in> set hosts then hosts else hosts @ [ni_hostname node]) [] nodes"

definition machine_leaders :: "byte list list \<Rightarrow> NodeInfo list \<Rightarrow> int list" where
  "machine_leaders hosts nodes =
     foldl (\<lambda>ls node. let m = find_index hosts (ni_hostname node) in
              if ls ! m < 0 then ls[m := ni_rank node] else ls)
       (replicate (length hosts) (-1)) nodes"

definition place_rank :: "NodeInfo list \<Rightarrow> int \<Rightarrow> int \<Rightarrow> Placement" where
  "place_rank nodes rank world_size =
     (let my_hostname = ni_hostname (nodes ! nat rank);
          local_ranks = sort (map ni_rank (filter (\<lambda>n. ni_hostname n = my_hostname) nodes));
          hosts = machine_hosts nodes
      in \<lparr>pc_local_rank = int (find_index local_ranks rank),
          pc_local_size = int (length local_ranks),
          pc_local_ranks = local_ranks,
          pc_is_single_machine = (int (length local_ranks) = world_size),
          pc_machine_index = int (find_index hosts my_hostname),
          pc_machine_count = int (length hosts),
          pc_machine_leaders = machine_leaders hosts nodes\<rparr>)"

subsection \<open>Ring\<close>

definition GetPrevRank :: "int \<Rightarrow> int \<Rightarrow> int" where
  "GetPrevRank world_size r = (r - 1 + world_size) smod world_size"

definition GetNextRank :: "int \<Rightarrow> int \<Rightarrow> int" where
  "GetNextRank world_size r = (r + 1) smod world_size"

definition Ring_FillChannels :: "int \<Rightarrow> int \<Rightarrow> Channel list \<Rightarrow> Channel list" where
  "Ring_FillChannels rank world_size channels =
     map (\<lambda>ch. ch\<lparr>ch_ring := \<lparr>ring_prev = GetPrevRank world_size rank, ring_next = GetNextRank world_size rank\<rparr>\<rparr>) channels"

record TopoEdge =
  te_peer :: int
  te_is_send :: bool

definition Ring_FillPeers :: "Channel \<Rightarrow> TopoEdge list" where
  "Ring_FillPeers ch = [\<lparr>te_peer = ring_next (ch_ring ch), te_is_send = True\<rparr>,
                        \<lparr>te_peer = ring_prev (ch_ring ch), te_is_send = False\<rparr>]"

text \<open>\<open>if (conn && conn->transport) out.push_back(conn->transport)\<close>\<close>

definition bound_transports :: "Connector option \<Rightarrow> transport_ref list" where
  "bound_transports conn =
     (case conn of None \<Rightarrow> [] | Some c \<Rightarrow> if cn_transport c \<noteq> 0 then [cn_transport c] else [])"

definition Ring_FillTransports :: "Channel \<Rightarrow> PlanTask \<Rightarrow> PlanTask" where
  "Ring_FillTransports ch task =
     task\<lparr>pt_send_transports := bound_transports (SendConnector ch (ring_next (ch_ring ch))),
          pt_recv_transports := bound_transports (RecvConnector ch (ring_prev (ch_ring ch)))\<rparr>"

subsection \<open>Double binary tree\<close>

datatype TreeRole = RoleStar | RoleTreeDown | RoleTreeUp

definition tree_star_list :: "Placement \<Rightarrow> int list" where
  "tree_star_list pc =
     (if pc_local_rank pc = 0 then map (\<lambda>i. pc_local_ranks pc ! i) [1..<length (pc_local_ranks pc)]
      else [pc_local_ranks pc ! 0])"

text \<open>Parent and children of a machine on one channel, as machine numbers; \<open>machine_count\<close> marks an absent child.\<close>

definition tree_parent_node :: "int \<Rightarrow> int \<Rightarrow> int \<Rightarrow> int" where
  "tree_parent_node machine_count machine_index channel_id =
     (let mirrored = channel_id smod 2 \<noteq> 0;
          node = if mirrored then machine_count - 1 - machine_index else machine_index;
          parent_node = if node = 0 then -1 else (node - 1) sdiv 2
      in if mirrored then (if parent_node < 0 then -1 else machine_count - 1 - parent_node)
         else parent_node)"

definition tree_child_node :: "int \<Rightarrow> int \<Rightarrow> int \<Rightarrow> int \<Rightarrow> int" where
  "tree_child_node k machine_count machine_index channel_id =
     (let mirrored = channel_id smod 2 \<noteq> 0;
          node = if mirrored then machine_count - 1 - machine_index else machine_index;
          child = 2 * node + 1 + k
      in if mirrored then (if child < machine_count then machine_count - 1 - child else machine_count)
         else child)"

definition tree_of_channel :: "Placement \<Rightarrow> int \<Rightarrow> Tree" where
  "tree_of_channel pc channel_id =
     (let M = pc_machine_count pc; leaders = pc_machine_leaders pc;
          parent_node = tree_parent_node M (pc_machine_index pc) channel_id;
          child0 = tree_child_node 0 M (pc_machine_index pc) channel_id;
          child1 = tree_child_node 1 M (pc_machine_index pc) channel_id
      in if pc_local_rank pc = 0
         then \<lparr>tree_parent = (if 0 \<le> parent_node then leaders ! nat parent_node else -1),
               tree_children = (if child0 < M then [leaders ! nat child0] else []) @
                               (if child1 < M then [leaders ! nat child1] else []),
               tree_star_peers = tree_star_list pc\<rparr>
         else \<lparr>tree_parent = -1, tree_children = [], tree_star_peers = tree_star_list pc\<rparr>)"

definition tree_roles :: "Placement \<Rightarrow> Tree \<Rightarrow> TreeRole list" where
  "tree_roles pc t =
     (if pc_local_rank pc = 0
      then replicate (length (tree_star_peers t)) RoleStar @
           replicate (length (tree_children t)) RoleTreeDown @
           (if 0 \<le> tree_parent t then [RoleTreeUp] else [])
      else [RoleStar])"

text \<open>\<open>TopologyTree::FillChannels\<close>: the channels' trees and \<open>channel_roles_\<close>.\<close>

definition Tree_FillChannels :: "Placement \<Rightarrow> Channel list \<Rightarrow> Channel list \<times> TreeRole list list" where
  "Tree_FillChannels pc channels =
     (map (\<lambda>ch. ch\<lparr>ch_tree := tree_of_channel pc (ch_id ch)\<rparr>) channels,
      foldl (\<lambda>roles ch. roles[nat (ch_id ch) := tree_roles pc (tree_of_channel pc (ch_id ch))])
        (replicate (length channels) []) channels)"

definition tree_peer_order :: "Tree \<Rightarrow> int list" where
  "tree_peer_order t =
     tree_star_peers t @ tree_children t @ (if 0 \<le> tree_parent t then [tree_parent t] else [])"

definition Tree_FillPeers :: "Channel \<Rightarrow> TopoEdge list" where
  "Tree_FillPeers ch =
     concat (map (\<lambda>p. [\<lparr>te_peer = p, te_is_send = True\<rparr>, \<lparr>te_peer = p, te_is_send = False\<rparr>])
                 (tree_peer_order (ch_tree ch)))"

definition Tree_FillTransports :: "Channel \<Rightarrow> PlanTask \<Rightarrow> PlanTask" where
  "Tree_FillTransports ch task =
     task\<lparr>pt_send_transports := concat (map (\<lambda>p. bound_transports (SendConnector ch p)) (tree_peer_order (ch_tree ch))),
          pt_recv_transports := concat (map (\<lambda>p. bound_transports (RecvConnector ch p)) (tree_peer_order (ch_tree ch)))\<rparr>"

subsection \<open>Point to point\<close>

definition P2p_FillChannels :: "int \<Rightarrow> Channel list \<Rightarrow> Channel list" where
  "P2p_FillChannels world_size channels =
     map (\<lambda>ch. ch\<lparr>
       ch_send_p2p := map (\<lambda>p. \<lparr>cn_peer = int p, cn_channel_id = ch_id ch, cn_is_send = True, cn_transport = 0\<rparr>)
                        [0..<nat world_size],
       ch_recv_p2p := map (\<lambda>p. \<lparr>cn_peer = int p, cn_channel_id = ch_id ch, cn_is_send = False, cn_transport = 0\<rparr>)
                        [0..<nat world_size]\<rparr>) channels"

definition P2p_FillPeers :: "Channel \<Rightarrow> TopoEdge list" where
  "P2p_FillPeers ch = []"

text \<open>
  \<open>TopologyP2p::FillTransports\<close> indexes the connector vector with the peer; the planner has
  validated the peer before (\<open>ValidateP2p\<close>). An index outside the vector is \<^term>\<open>None\<close>.
\<close>

definition P2p_FillTransports :: "Channel \<Rightarrow> PlanTask \<Rightarrow> PlanTask option" where
  "P2p_FillTransports ch task =
     (let t0 = task\<lparr>pt_send_transports := [], pt_recv_transports := []\<rparr>; p = pt_peer task in
      if pt_elem_count task = 0 then Some t0
      else if pt_func task = Send
        then (if 0 \<le> p \<and> nat p < length (ch_send_p2p ch)
              then Some (t0\<lparr>pt_send_transports := [cn_transport (ch_send_p2p ch ! nat p)]\<rparr>) else None)
        else (if 0 \<le> p \<and> nat p < length (ch_recv_p2p ch)
              then Some (t0\<lparr>pt_recv_transports := [cn_transport (ch_recv_p2p ch ! nat p)]\<rparr>) else None))"

text \<open>Virtual dispatch of \<open>FillTransports\<close>.\<close>

fun FillTransports :: "TopologyKind \<Rightarrow> Channel \<Rightarrow> PlanTask \<Rightarrow> PlanTask option" where
  "FillTransports RingTopology ch task = Some (Ring_FillTransports ch task)"
| "FillTransports TreeTopology ch task = Some (Tree_FillTransports ch task)"
| "FillTransports P2pTopology ch task = P2p_FillTransports ch task"

subsection \<open>Lemmas on positions\<close>

lemma find_index_less: "find_index xs x < length xs \<longleftrightarrow> x \<in> set xs"
  by (induction xs) auto

lemma nth_find_index [simp]: "x \<in> set xs \<Longrightarrow> xs ! find_index xs x = x"
  by (induction xs) auto

lemma find_index_nth: "distinct xs \<Longrightarrow> i < length xs \<Longrightarrow> find_index xs (xs ! i) = i"
  by (metis find_index_less nth_eq_iff_index_eq nth_find_index nth_mem)

lemma map_nth_upt_tl: "map (\<lambda>i. (x # xs) ! i) [Suc 0..<Suc (length xs)] = xs"
  by (rule nth_equalityI) (auto simp del: upt_Suc)

lemma find_index_eq_0: "xs \<noteq> [] \<Longrightarrow> find_index xs x = 0 \<longleftrightarrow> hd xs = x"
  by (cases xs) auto

subsection \<open>The node table after the bootstrap\<close>

definition wf_nodes :: "NodeInfo list \<Rightarrow> bool" where
  "wf_nodes nodes \<longleftrightarrow> (\<forall>i < length nodes. ni_rank (nodes ! i) = int i)"

abbreviation host :: "NodeInfo list \<Rightarrow> nat \<Rightarrow> byte list" where
  "host nodes i \<equiv> ni_hostname (nodes ! i)"

definition on_host :: "NodeInfo list \<Rightarrow> byte list \<Rightarrow> nat list" where
  "on_host nodes h = filter (\<lambda>i. host nodes i = h) [0..<length nodes]"

lemma ranks_on_host:
  assumes "wf_nodes nodes"
  shows "map ni_rank (filter (\<lambda>n. ni_hostname n = h) nodes) = map int (on_host nodes h)"
proof -
  have "filter (\<lambda>n. ni_hostname n = h) nodes = map (nth nodes) (on_host nodes h)"
    unfolding on_host_def
    by (subst map_nth [symmetric], subst filter_map) (simp add: comp_def)
  moreover have "\<forall>i \<in> set (on_host nodes h). ni_rank (nodes ! i) = int i"
    using assms by (auto simp: wf_nodes_def on_host_def)
  ultimately show ?thesis by simp
qed

lemma sorted_on_host: "sorted (on_host nodes h)"
  by (simp add: on_host_def sorted_wrt_filter)

lemma distinct_on_host [simp]: "distinct (on_host nodes h)"
  by (simp add: on_host_def)

lemma set_on_host: "set (on_host nodes h) = {i. i < length nodes \<and> host nodes i = h}"
  by (auto simp: on_host_def)

lemma machine_hosts_snoc:
  "machine_hosts (nodes @ [n]) =
     (if ni_hostname n \<in> set (machine_hosts nodes) then machine_hosts nodes
      else machine_hosts nodes @ [ni_hostname n])"
  by (simp add: machine_hosts_def)

lemma distinct_machine_hosts [simp]: "distinct (machine_hosts nodes)"
  by (induction nodes rule: rev_induct) (simp_all add: machine_hosts_snoc, simp add: machine_hosts_def)

lemma set_machine_hosts: "set (machine_hosts nodes) = ni_hostname ` set nodes"
  by (induction nodes rule: rev_induct) (auto simp: machine_hosts_snoc, simp add: machine_hosts_def)

lemma machine_leaders_nth:
  assumes "distinct hosts" and "m < length hosts" and "\<forall>n \<in> set nodes. ni_hostname n \<in> set hosts \<and> 0 \<le> ni_rank n"
  shows "length (machine_leaders hosts nodes) = length hosts"
    and "machine_leaders hosts nodes ! m =
          (case map ni_rank (filter (\<lambda>n. ni_hostname n = hosts ! m) nodes) of [] \<Rightarrow> -1 | r # _ \<Rightarrow> r)"
  using assms(3)
proof (induction nodes rule: rev_induct)
  case (snoc n nodes)
  let ?k = "find_index hosts (ni_hostname n)"
  have step: "machine_leaders hosts (nodes @ [n]) =
      (if machine_leaders hosts nodes ! ?k < 0 then (machine_leaders hosts nodes)[?k := ni_rank n]
       else machine_leaders hosts nodes)"
    by (simp add: machine_leaders_def Let_def)
  { case 1 then show ?case using snoc.IH(1) by (simp add: step) }
  { case 2
    then have IH: "length (machine_leaders hosts nodes) = length hosts"
      "machine_leaders hosts nodes ! m =
        (case map ni_rank (filter (\<lambda>n. ni_hostname n = hosts ! m) nodes) of [] \<Rightarrow> -1 | r # _ \<Rightarrow> r)"
      using snoc.IH by simp_all
    have pos: "\<forall>x \<in> set (map ni_rank (filter (\<lambda>n. ni_hostname n = hosts ! m) nodes)). 0 \<le> x"
      using 2 by auto
    show ?case
    proof (cases "ni_hostname n = hosts ! m")
      case True
      then have "?k = m" using assms(1,2) by (simp add: find_index_nth)
      with True show ?thesis using pos
        by (cases "map ni_rank (filter (\<lambda>n. ni_hostname n = hosts ! m) nodes)")
           (auto simp: step IH assms(2) split: list.splits)
    next
      case False
      then have "?k \<noteq> m" using 2 by (metis in_set_conv_decomp nth_find_index)
      with False show ?thesis by (simp add: step IH)
    qed }
qed (use assms(2) in \<open>simp_all add: machine_leaders_def\<close>)

subsection \<open>The two trees over machine numbers\<close>

lemma tree_parent_node_cases:
  assumes "0 \<le> c" and "0 \<le> a" and "a < M"
  shows "tree_parent_node M a c =
    (if c mod 2 \<noteq> 0 then (if a = M - 1 then -1 else M - 1 - (M - 2 - a) div 2)
     else if a = 0 then -1 else (a - 1) div 2)"
  using assms by (auto simp: tree_parent_node_def Let_def smod_nonneg sdiv_nonneg)

lemma tree_child_node_cases:
  assumes "0 \<le> c"
  shows "tree_child_node k M b c =
    (if c mod 2 \<noteq> 0 then (if 2 * (M - 1 - b) + 1 + k < M then M - 1 - (2 * (M - 1 - b) + 1 + k) else M)
     else 2 * b + 1 + k)"
  using assms by (simp add: tree_child_node_def Let_def smod_nonneg)

lemma tree_parent_node_range:
  assumes "0 \<le> c" and "0 \<le> a" and "a < M"
  shows "tree_parent_node M a c < M" and "-1 \<le> tree_parent_node M a c"
  using assms by (auto simp: tree_parent_node_cases)

lemma tree_child_node_nonneg:
  "0 \<le> c \<Longrightarrow> 0 \<le> b \<Longrightarrow> b < M \<Longrightarrow> 0 \<le> k \<Longrightarrow> 0 \<le> tree_child_node k M b c"
  by (auto simp: tree_child_node_cases)

text \<open>A machine is the parent of exactly those that are its children.\<close>

lemma tree_parent_child:
  assumes "0 \<le> c" and "0 \<le> a" and "a < M" and "0 \<le> b" and "b < M"
  shows "tree_parent_node M a c = b \<longleftrightarrow> tree_child_node 0 M b c = a \<or> tree_child_node 1 M b c = a"
  using assms by (auto simp: tree_parent_node_cases tree_child_node_cases)

subsection \<open>Placement of a rank\<close>

definition machine_of :: "NodeInfo list \<Rightarrow> nat \<Rightarrow> nat" where
  "machine_of nodes r = find_index (machine_hosts nodes) (host nodes r)"

definition leader_of :: "NodeInfo list \<Rightarrow> nat \<Rightarrow> nat" where
  "leader_of nodes m = hd (on_host nodes (machine_hosts nodes ! m))"

lemma machine_of_less: "r < length nodes \<Longrightarrow> machine_of nodes r < length (machine_hosts nodes)"
  by (simp add: machine_of_def find_index_less set_machine_hosts)

lemma host_machine_of: "r < length nodes \<Longrightarrow> machine_hosts nodes ! machine_of nodes r = host nodes r"
  by (simp add: machine_of_def set_machine_hosts)

lemma on_host_nonempty: "m < length (machine_hosts nodes) \<Longrightarrow> on_host nodes (machine_hosts nodes ! m) \<noteq> []"
proof -
  assume "m < length (machine_hosts nodes)"
  then have "machine_hosts nodes ! m \<in> ni_hostname ` set nodes" by (metis nth_mem set_machine_hosts)
  then have "set (on_host nodes (machine_hosts nodes ! m)) \<noteq> {}" by (auto simp: set_on_host in_set_conv_nth)
  then show ?thesis by auto
qed

lemma leader_of_on_host:
  assumes "m < length (machine_hosts nodes)"
  shows "leader_of nodes m < length nodes" and "host nodes (leader_of nodes m) = machine_hosts nodes ! m"
  using hd_in_set [OF on_host_nonempty [OF assms]] by (simp_all add: leader_of_def set_on_host)

lemma machine_of_leader: "m < length (machine_hosts nodes) \<Longrightarrow> machine_of nodes (leader_of nodes m) = m"
  by (simp add: machine_of_def leader_of_on_host find_index_nth)

lemma placement:
  assumes "wf_nodes nodes" and "r < length nodes" and "pc = place_rank nodes (int r) ws"
  shows "pc_local_ranks pc = map int (on_host nodes (host nodes r))"
    and "pc_local_rank pc = 0 \<longleftrightarrow> leader_of nodes (machine_of nodes r) = r"
    and "pc_machine_index pc = int (machine_of nodes r)"
    and "pc_machine_count pc = int (length (machine_hosts nodes))"
    and "m < length (machine_hosts nodes) \<Longrightarrow> pc_machine_leaders pc ! m = int (leader_of nodes m)"
proof -
  show lr: "pc_local_ranks pc = map int (on_host nodes (host nodes r))"
    using sorted_on_host [of nodes "host nodes r"] assms(1,3)
    by (simp add: place_rank_def Let_def ranks_on_host sorted_sort_id sorted_map)
  have "find_index (map int (on_host nodes (host nodes r))) (int r) = 0 \<longleftrightarrow> hd (on_host nodes (host nodes r)) = r"
    using on_host_nonempty [OF machine_of_less [OF assms(2)]] assms(2)
    by (simp add: host_machine_of find_index_eq_0 hd_map)
  then show "pc_local_rank pc = 0 \<longleftrightarrow> leader_of nodes (machine_of nodes r) = r"
    using lr assms by (simp add: place_rank_def Let_def leader_of_def host_machine_of)
  show "pc_machine_index pc = int (machine_of nodes r)" "pc_machine_count pc = int (length (machine_hosts nodes))"
    using assms(3) by (simp_all add: place_rank_def Let_def machine_of_def)
  assume m: "m < length (machine_hosts nodes)"
  have "\<forall>n \<in> set nodes. ni_hostname n \<in> set (machine_hosts nodes) \<and> 0 \<le> ni_rank n"
    using assms(1) by (auto simp: set_machine_hosts wf_nodes_def in_set_conv_nth)
  from machine_leaders_nth(2) [OF distinct_machine_hosts m this] on_host_nonempty [OF m]
  show "pc_machine_leaders pc ! m = int (leader_of nodes m)"
    using assms(1,3) by (cases "on_host nodes (machine_hosts nodes ! m)")
      (simp_all add: place_rank_def Let_def ranks_on_host leader_of_def)
qed

subsection \<open>Both ends of an edge agree\<close>

definition leads :: "NodeInfo list \<Rightarrow> nat \<Rightarrow> bool" where
  "leads nodes r \<longleftrightarrow> leader_of nodes (machine_of nodes r) = r"

lemma leads_leader_of: "m < length (machine_hosts nodes) \<Longrightarrow> leads nodes (leader_of nodes m)"
  by (simp add: leads_def machine_of_leader)

lemma leader_of_eq:
  "m < length (machine_hosts nodes) \<Longrightarrow> leader_of nodes m = p \<longleftrightarrow>
     p < length nodes \<and> leads nodes p \<and> machine_of nodes p = m"
  using leads_leader_of leader_of_on_host(1) machine_of_leader by (auto simp: leads_def)

lemma tree_star_peers_iff:
  assumes "wf_nodes nodes" and "r < length nodes"
  shows "int p \<in> set (tree_star_list (place_rank nodes (int r) ws)) \<longleftrightarrow>
           p < length nodes \<and> host nodes p = host nodes r \<and> p \<noteq> r \<and> (leads nodes r \<or> leads nodes p)"
proof -
  let ?h = "host nodes r" and ?m = "machine_of nodes r"
  note pl = placement [OF assms refl, where ws = ws]
  have m: "?m < length (machine_hosts nodes)" using assms(2) by (rule machine_of_less)
  obtain x xs where xs: "on_host nodes ?h = x # xs"
    using on_host_nonempty [OF m] assms(2) by (cases "on_host nodes ?h") (auto simp: host_machine_of)
  then have lead: "leader_of nodes ?m = x" using assms(2) by (simp add: leader_of_def host_machine_of)
  have mem: "q \<in> set (x # xs) \<longleftrightarrow> q < length nodes \<and> host nodes q = ?h" for q
    using set_on_host [of nodes ?h] xs by simp
  have "x \<notin> set xs" using distinct_on_host [of nodes ?h] by (simp add: xs)
  have same: "leads nodes q \<longleftrightarrow> q = x" if "q \<in> set (x # xs)" for q
    using that mem [of q] lead by (auto simp: leads_def machine_of_def)
  have r: "r \<in> set (x # xs)" using mem [of r] assms(2) by simp
  show ?thesis
  proof (cases "leads nodes r")
    case True
    have "tree_star_list (place_rank nodes (int r) ws) = map int xs"
      using True pl(1,2) xs map_nth_upt_tl [of "int x" "map int xs"]
      by (simp add: tree_star_list_def leads_def del: upt_Suc)
    then show ?thesis using True same [OF r] mem [of p] \<open>x \<notin> set xs\<close> by auto
  next
    case False
    then have "tree_star_list (place_rank nodes (int r) ws) = [int x]"
      using pl(1,2) xs by (simp add: tree_star_list_def leads_def)
    then show ?thesis using False same [OF r] same [of p] mem [of p] by auto
  qed
qed

lemma tree_parent_iff:
  assumes "wf_nodes nodes" and "r < length nodes" and "0 \<le> c"
  shows "tree_parent (tree_of_channel (place_rank nodes (int r) ws) c) = int p \<longleftrightarrow>
           p < length nodes \<and> leads nodes r \<and> leads nodes p \<and>
           tree_parent_node (int (length (machine_hosts nodes))) (int (machine_of nodes r)) c = int (machine_of nodes p)"
proof (cases "leads nodes r")
  case True
  let ?M = "int (length (machine_hosts nodes))"
  let ?q = "tree_parent_node ?M (int (machine_of nodes r)) c"
  note pl = placement [OF assms(1,2) refl, where ws = ws]
  have range: "?q < ?M" "-1 \<le> ?q"
    using tree_parent_node_range [OF assms(3), of "int (machine_of nodes r)" ?M] machine_of_less [OF assms(2)] by simp_all
  show ?thesis
  proof (cases "0 \<le> ?q")
    case True
    then have "nat ?q < length (machine_hosts nodes)" using range by simp
    from leader_of_eq [OF this, of p] pl(5) [OF this] \<open>leads nodes r\<close> pl(2-4) True
    show ?thesis by (auto simp: tree_of_channel_def Let_def leads_def)
  qed (use True pl(2-4) in \<open>auto simp: tree_of_channel_def Let_def leads_def\<close>)
qed (use placement [OF assms(1,2) refl, where ws = ws] in \<open>simp add: tree_of_channel_def Let_def leads_def\<close>)

lemma tree_children_iff:
  assumes "wf_nodes nodes" and "r < length nodes" and "0 \<le> c"
  shows "int p \<in> set (tree_children (tree_of_channel (place_rank nodes (int r) ws) c)) \<longleftrightarrow>
           p < length nodes \<and> leads nodes r \<and> leads nodes p \<and>
           (\<exists>k \<in> {0, 1}. tree_child_node k (int (length (machine_hosts nodes))) (int (machine_of nodes r)) c =
              int (machine_of nodes p))"
proof (cases "leads nodes r")
  case True
  let ?M = "int (length (machine_hosts nodes))"
  let ?c = "\<lambda>k. tree_child_node k ?M (int (machine_of nodes r)) c"
  note pl = placement [OF assms(1,2) refl, where ws = ws]
  have one: "?c k < ?M \<and> int p = pc_machine_leaders (place_rank nodes (int r) ws) ! nat (?c k) \<longleftrightarrow>
      p < length nodes \<and> leads nodes p \<and> ?c k = int (machine_of nodes p)" if "0 \<le> k" for k
  proof -
    have nn: "0 \<le> ?c k"
      using tree_child_node_nonneg [OF assms(3) _ _ that, of "int (machine_of nodes r)" ?M]
        machine_of_less [OF assms(2)] by simp
    show ?thesis
    proof (cases "?c k < ?M")
      case True
      then have "nat (?c k) < length (machine_hosts nodes)" using nn by simp
      from leader_of_eq [OF this, of p] pl(5) [OF this] True nn show ?thesis by auto
    next
      case False
      then show ?thesis using machine_of_less [of p nodes] by auto
    qed
  qed
  show ?thesis
    using True pl(2-4) one [of 0] one [of 1] by (auto simp: tree_of_channel_def Let_def leads_def)
qed (use placement [OF assms(1,2) refl, where ws = ws] in \<open>simp add: tree_of_channel_def Let_def leads_def\<close>)

lemma tree_parent_child_ranks:
  assumes "wf_nodes nodes" and "r < length nodes" and "p < length nodes" and "0 \<le> c"
  shows "tree_parent (tree_of_channel (place_rank nodes (int r) ws) c) = int p \<longleftrightarrow>
         int r \<in> set (tree_children (tree_of_channel (place_rank nodes (int p) ws) c))"
proof -
  have "int (machine_of nodes r) < int (length (machine_hosts nodes))"
    "int (machine_of nodes p) < int (length (machine_hosts nodes))"
    using machine_of_less assms(2,3) by simp_all
  with tree_parent_child [OF assms(4) _ this(1) _ this(2)] show ?thesis
    by (auto simp: tree_parent_iff [OF assms(1,2,4)] tree_children_iff [OF assms(1,3,4)] assms(2,3))
qed

lemma GetNextRank_eq: "0 \<le> r \<Longrightarrow> r < n \<Longrightarrow> GetNextRank n r = (if r = n - 1 then 0 else r + 1)"
  by (auto simp: GetNextRank_def smod_nonneg)

lemma GetPrevRank_eq: "0 \<le> r \<Longrightarrow> r < n \<Longrightarrow> GetPrevRank n r = (if r = 0 then n - 1 else r - 1)"
  using mod_add_self2 [of "r - 1" n] zmod_minus1 [of n] by (auto simp: GetPrevRank_def smod_nonneg)

lemma GetNextRank_GetPrevRank:
  assumes "0 \<le> r" and "r < n"
  shows "GetPrevRank n (GetNextRank n r) = r" and "GetNextRank n (GetPrevRank n r) = r"
  using assms by (simp_all add: GetNextRank_eq GetPrevRank_eq)

subsection \<open>Properties\<close>

text \<open>The channel a rank holds after both \<open>FillChannels\<close> calls of \<open>Init\<close>, reduced to what \<open>FillPeers\<close> reads.\<close>

definition wired_channel :: "NodeInfo list \<Rightarrow> nat \<Rightarrow> Channel \<Rightarrow> Channel" where
  "wired_channel nodes r ch =
     hd (fst (Tree_FillChannels (place_rank nodes (int r) (int (length nodes)))
               (Ring_FillChannels (int r) (int (length nodes)) [ch])))"

lemma wired_channel_tree:
  "ch_tree (wired_channel nodes r ch) = tree_of_channel (place_rank nodes (int r) (int (length nodes))) (ch_id ch)"
  by (simp add: wired_channel_def Tree_FillChannels_def Ring_FillChannels_def)

lemma wired_channel_ring:
  "ch_ring (wired_channel nodes r ch) =
     \<lparr>ring_prev = GetPrevRank (int (length nodes)) (int r), ring_next = GetNextRank (int (length nodes)) (int r)\<rparr>"
  by (simp add: wired_channel_def Tree_FillChannels_def Ring_FillChannels_def)

lemma Tree_FillPeers_iff:
  "\<lparr>te_peer = p, te_is_send = d\<rparr> \<in> set (Tree_FillPeers ch) \<longleftrightarrow> p \<in> set (tree_peer_order (ch_tree ch))"
  by (auto simp: Tree_FillPeers_def)

lemma tree_edges_dual:
  assumes "wf_nodes nodes" and "r < length nodes" and "p < length nodes" and "0 \<le> ch_id ch"
  shows "\<lparr>te_peer = int p, te_is_send = d\<rparr> \<in> set (Tree_FillPeers (wired_channel nodes r ch)) \<longleftrightarrow>
         \<lparr>te_peer = int r, te_is_send = (\<not> d)\<rparr> \<in> set (Tree_FillPeers (wired_channel nodes p ch))"
proof -
  let ?N = "int (length nodes)"
  have "int p \<in> set (tree_peer_order (tree_of_channel (place_rank nodes (int r) ?N) c)) \<longleftrightarrow>
        int p \<in> set (tree_star_list (place_rank nodes (int r) ?N)) \<or>
        int p \<in> set (tree_children (tree_of_channel (place_rank nodes (int r) ?N) c)) \<or>
        tree_parent (tree_of_channel (place_rank nodes (int r) ?N) c) = int p" for r p c
    by (auto simp: tree_peer_order_def tree_of_channel_def Let_def)
  then show ?thesis
    using assms tree_parent_child_ranks [OF assms(1)]
    by (auto simp: Tree_FillPeers_iff wired_channel_tree tree_star_peers_iff)
qed

lemma ring_edges_dual:
  assumes "r < length nodes" and "p < length nodes"
  shows "\<lparr>te_peer = int p, te_is_send = d\<rparr> \<in> set (Ring_FillPeers (wired_channel nodes r ch)) \<longleftrightarrow>
         \<lparr>te_peer = int r, te_is_send = (\<not> d)\<rparr> \<in> set (Ring_FillPeers (wired_channel nodes p ch))"
  using GetNextRank_GetPrevRank [of "int r" "int (length nodes)"] GetNextRank_GetPrevRank [of "int p" "int (length nodes)"] assms
  by (auto simp: Ring_FillPeers_def wired_channel_ring)

text \<open>
  C23. Edge duality. On every channel, if rank \<open>r\<close> computes that it sends to (receives from) rank \<open>p\<close>,
  in the ring or in the tree, then \<open>p\<close>, which knows only the same node table, computes that it
  receives from (sends to) \<open>r\<close>: the edges that one side connects are the edges the other side accepts.
\<close>

theorem topology_edges_dual:
  assumes "wf_nodes nodes" and "r < length nodes" and "p < length nodes" and "0 \<le> ch_id ch"
  shows "(\<lparr>te_peer = int p, te_is_send = d\<rparr> \<in> set (Tree_FillPeers (wired_channel nodes r ch)) \<longleftrightarrow>
          \<lparr>te_peer = int r, te_is_send = (\<not> d)\<rparr> \<in> set (Tree_FillPeers (wired_channel nodes p ch))) \<and>
         (\<lparr>te_peer = int p, te_is_send = d\<rparr> \<in> set (Ring_FillPeers (wired_channel nodes r ch)) \<longleftrightarrow>
          \<lparr>te_peer = int r, te_is_send = (\<not> d)\<rparr> \<in> set (Ring_FillPeers (wired_channel nodes p ch)))"
  using tree_edges_dual [OF assms] ring_edges_dual [OF assms(2,3)] by blast

text \<open>
  C24. Each of the two trees spans the machines: from any machine, following \<open>parent_node\<close> reaches the
  root (machine 0 on even channels, the last machine on odd ones) in finitely many steps, and the root
  alone has no parent.
\<close>

theorem tree_spans_machines:
  assumes "0 \<le> c" and "0 \<le> a" and "a < M"
  shows "(\<exists>k. ((\<lambda>x. tree_parent_node M x c) ^^ k) a = (if c mod 2 = 0 then 0 else M - 1)) \<and>
         (tree_parent_node M a c < 0 \<longleftrightarrow> a = (if c mod 2 = 0 then 0 else M - 1))"
proof
  let ?root = "if c mod 2 = 0 then 0 else M - 1"
  let ?depth = "\<lambda>x. nat (if c mod 2 = 0 then x else M - 1 - x)"
  show "\<exists>k. ((\<lambda>x. tree_parent_node M x c) ^^ k) a = ?root"
    using assms(2,3)
  proof (induction "?depth a" arbitrary: a rule: less_induct)
    case less
    show ?case
    proof (cases "a = ?root")
      case True
      then show ?thesis by (metis funpow_0)
    next
      case False
      let ?p = "tree_parent_node M a c"
      have "?depth ?p < ?depth a" "0 \<le> ?p" "?p < M"
        using False less.prems assms(1) by (auto simp: tree_parent_node_cases split: if_splits)
      from less.hyps [OF this] obtain k where "((\<lambda>x. tree_parent_node M x c) ^^ k) ?p = ?root" by blast
      then have "((\<lambda>x. tree_parent_node M x c) ^^ Suc k) a = ?root" by (simp only: funpow_Suc_right o_apply)
      then show ?thesis by blast
    qed
  qed
  show "tree_parent_node M a c < 0 \<longleftrightarrow> a = ?root"
    using assms by (auto simp: tree_parent_node_cases)
qed

theorem tree_spans_machines_witness:
  "(\<exists>k. ((\<lambda>x. tree_parent_node 5 x 1) ^^ k) 2 = 4) \<and> (tree_parent_node 5 2 1 < 0 \<longleftrightarrow> (2::int) = 4)"
  using tree_spans_machines [of 1 2 5] by simp

text \<open>
  Load balance of the double binary tree: a machine that has children in the tree of the even
  channels is a leaf in the tree of the odd channels, and the other way round.
\<close>

theorem double_tree_internal_disjoint:
  assumes "0 \<le> a" and "a < M" and "0 \<le> c" and "0 \<le> c'" and "c mod 2 \<noteq> c' mod 2"
    and "tree_child_node 0 M a c < M"
  shows "\<not> tree_child_node 0 M a c' < M \<and> \<not> tree_child_node 1 M a c' < M"
proof -
  have "c mod 2 = 0 \<or> c mod 2 = 1" "c' mod 2 = 0 \<or> c' mod 2 = 1" by presburger+
  then show ?thesis using assms by (auto simp: tree_child_node_cases split: if_splits)
qed

theorem double_tree_internal_disjoint_witness:
  "tree_child_node 0 4 1 0 < 4 \<and> \<not> tree_child_node 0 4 1 3 < 4 \<and> \<not> tree_child_node 1 4 1 3 < 4"
  using double_tree_internal_disjoint [of 1 4 0 3] by (simp add: tree_child_node_cases)

definition demo_nodes :: "NodeInfo list" where
  "demo_nodes = map (\<lambda>i. \<lparr>ni_rank = int i, ni_ip_addr = [], ni_data_port = 0, ni_hostname = [word_of_nat (i div 2)],
     ni_rdma_addr = [], ni_rdma_port = 0, ni_p2p_port = 0, ni_p2p_rdma_port = 0\<rparr>) [0..<6]"

lemma wf_demo_nodes: "wf_nodes demo_nodes" "length demo_nodes = 6"
  by (simp_all add: demo_nodes_def wf_nodes_def del: upt_Suc)

theorem topology_edges_dual_witness:
  "(\<lparr>te_peer = 0, te_is_send = True\<rparr> \<in> set (Tree_FillPeers (wired_channel demo_nodes 4 Channel_default)) \<longleftrightarrow>
    \<lparr>te_peer = 4, te_is_send = False\<rparr> \<in> set (Tree_FillPeers (wired_channel demo_nodes 0 Channel_default))) \<and>
   (\<lparr>te_peer = 0, te_is_send = True\<rparr> \<in> set (Ring_FillPeers (wired_channel demo_nodes 5 Channel_default)) \<longleftrightarrow>
    \<lparr>te_peer = 5, te_is_send = False\<rparr> \<in> set (Ring_FillPeers (wired_channel demo_nodes 0 Channel_default)))"
  using topology_edges_dual [OF wf_demo_nodes(1), of 4 0 Channel_default True]
    topology_edges_dual [OF wf_demo_nodes(1), of 5 0 Channel_default True]
  by (simp add: wf_demo_nodes Channel_default_def)

end
