(* ===== verification/Occl_Planner.thy ===== *)
theory Occl_Planner
  imports Occl_Topology "HOL-Library.Product_Lexorder"
begin

section \<open>Planner: validation, ordering and slicing\<close>

text \<open>
  \<open>src/planner.cpp\<close> without the P2P connection setup (see \<open>Occl_P2p_Plan\<close>): task validation,
  the deterministic order of a group's tasks, and the split of a collective into per-channel slices.
  A C++ exception or undefined access on the way (\<open>channels.at\<close> out of range, division by a zero
  type size) is \<^term>\<open>None\<close>, like \<open>return false\<close>; the lemmas show that validated tasks reach none.
\<close>

subsection \<open>The communicator state the planner reads and writes\<close>

text \<open>Which executor a communicator owns; the argument is the CPU of its first worker.\<close>

datatype ExecutorKind = MultiThread int | Epoll | DynamicMultiThread int

text \<open>
  The members of \<open>Communicator\<close>, its configuration and the roles that its tree topology keeps per channel
  (\<open>TopologyTree::channel_roles_\<close>; \<open>is_leader_\<close> is \<open>pc_local_rank = 0\<close>).
\<close>

record Comm =
  cm_rank :: int
  cm_world_size :: int
  cm_cfg_n_channels :: int
  cm_channels :: "Channel list"
  cm_all_nodes :: "NodeInfo list"
  cm_use_shm :: bool
  cm_rdma_ready :: bool
  cm_dynamic_available :: bool
  cm_group_depth :: int
  cm_pending_tasks :: "CollTask list"
  cm_p2p_listeners :: "transport_ref list"
  cm_unique_port :: "16 word"
  cm_placement :: Placement
  cm_executor :: "ExecutorKind option"
  cm_dynamic_executor :: "ExecutorKind option"
  cm_bootstrap_listen_fd :: int
  cm_tree_roles :: "TreeRole list list"

definition GetNChannels :: "Comm \<Rightarrow> int" where
  "GetNChannels comm = int (length (cm_channels comm))"

definition GetChannel :: "Comm \<Rightarrow> int \<Rightarrow> Channel option" where
  "GetChannel comm channel_id =
     (if 0 \<le> channel_id \<and> nat channel_id < length (cm_channels comm)
      then Some (cm_channels comm ! nat channel_id) else None)"

subsection \<open>Classification\<close>

definition IsP2p :: "CollFunc \<Rightarrow> bool" where
  "IsP2p f \<longleftrightarrow> f = Send \<or> f = Recv"

fun IsCollective :: "CollFunc \<Rightarrow> bool" where
  "IsCollective AllReduce = True"
| "IsCollective Broadcast = True"
| "IsCollective Reduce = True"
| "IsCollective AllGather = True"
| "IsCollective ReduceScatter = True"
| "IsCollective _ = False"

fun IsReduceOp :: "ReduceOp \<Rightarrow> bool" where
  "IsReduceOp OpSum = True"
| "IsReduceOp OpMax = True"
| "IsReduceOp OpMin = True"
| "IsReduceOp OpAvg = True"
| "IsReduceOp (ReduceOpValue _) = False"

definition P2pRoundOf :: "CollFunc \<Rightarrow> int \<Rightarrow> int \<Rightarrow> int \<Rightarrow> int" where
  "P2pRoundOf func rank peer world_size =
     (let forward = if func = Send then (peer - rank + world_size) smod world_size
                    else (rank - peer + world_size) smod world_size
      in world_size - forward)"

definition EffectiveOp :: "CollTask \<Rightarrow> nat" where
  "EffectiveOp t =
     (if ct_func t = AllReduce \<or> ct_func t = Reduce \<or> ct_func t = ReduceScatter
      then ReduceOp_code (ct_op t) else 0)"

definition EffectiveRoot :: "CollTask \<Rightarrow> int" where
  "EffectiveRoot t = (if ct_func t = Broadcast \<or> ct_func t = Reduce then ct_root t else 0)"

subsection \<open>Validation\<close>

definition ValidateCollectiveTask :: "CollTask \<Rightarrow> int \<Rightarrow> int \<Rightarrow> bool" where
  "ValidateCollectiveTask task rank world_size =
     (let type_size = GetDataTypeSize (ct_dtype task);
          func = ct_func task;
          is_reduce = (func = AllReduce \<or> func = Reduce \<or> func = ReduceScatter);
          has_root = (func = Broadcast \<or> func = Reduce);
          needs_send = (func \<noteq> Broadcast);
          needs_recv = (func \<noteq> Reduce \<or> rank = ct_root task)
      in if \<not> IsCollective func \<or> world_size \<le> 0 \<or> rank < 0 \<or> rank \<ge> world_size then False
         else if type_size = 0 \<or> ct_count task > SIZE_MAX div type_size then False
         else if is_reduce \<and> \<not> IsReduceOp (ct_op task) then False
         else if has_root \<and> (ct_root task < 0 \<or> ct_root task \<ge> world_size) then False
         else if (func = AllGather \<or> func = ReduceScatter) \<and> ct_count task \<noteq> 0 \<and>
                 ct_count task > SIZE_MAX div nat world_size div type_size then False
         else if ct_count task = 0 then True
         else \<not> ((needs_send \<and> ct_send_buf task = NullPtr) \<or> (needs_recv \<and> ct_recv_buf task = NullPtr)))"

subsection \<open>Order of a group's tasks\<close>

definition coll_less :: "CollTask \<Rightarrow> CollTask \<Rightarrow> bool" where
  "coll_less a b =
     (if ct_func a \<noteq> ct_func b then CollFunc_code (ct_func a) < CollFunc_code (ct_func b)
      else let a_bytes = size_mul (ct_count a) (GetDataTypeSize (ct_dtype a));
               b_bytes = size_mul (ct_count b) (GetDataTypeSize (ct_dtype b)) in
           if a_bytes \<noteq> b_bytes then a_bytes < b_bytes
           else if ct_dtype a \<noteq> ct_dtype b then DataType_code (ct_dtype a) < DataType_code (ct_dtype b)
           else if EffectiveOp a \<noteq> EffectiveOp b then EffectiveOp a < EffectiveOp b
           else EffectiveRoot a < EffectiveRoot b)"

definition p2p_less :: "int \<Rightarrow> int \<Rightarrow> CollTask \<Rightarrow> CollTask \<Rightarrow> bool" where
  "p2p_less rank world_size a b =
     (let a_round = P2pRoundOf (ct_func a) rank (ct_peer a) world_size;
          b_round = P2pRoundOf (ct_func b) rank (ct_peer b) world_size in
      if a_round \<noteq> b_round then a_round < b_round
      else CollFunc_code (ct_func a) < CollFunc_code (ct_func b))"

text \<open>The classifying loop of \<open>SortTasks\<close>; the result is the pair \<open>(collectives, p2p)\<close>.\<close>

definition classify_task ::
  "int \<Rightarrow> int \<Rightarrow> CollTask \<Rightarrow> CollTask list \<times> CollTask list \<Rightarrow> (CollTask list \<times> CollTask list) option" where
  "classify_task rank world_size task s =
     (case s of (collectives, p2p) \<Rightarrow>
        if IsP2p (ct_func task) then
          (if ct_peer task < 0 \<or> ct_peer task \<ge> world_size \<or> ct_peer task = rank then None
           else Some (collectives, p2p @ [task]))
        else if \<not> ValidateCollectiveTask task rank world_size then None
        else Some (collectives @ [task], p2p))"

definition SortTasks :: "CollTask list \<Rightarrow> int \<Rightarrow> int \<Rightarrow> CollTask list option" where
  "SortTasks tasks rank world_size =
     (if world_size \<le> 0 \<or> rank < 0 \<or> rank \<ge> world_size then None
      else (case for_opt (classify_task rank world_size) tasks ([], []) of
              None \<Rightarrow> None
            | Some (collectives, p2p) \<Rightarrow>
                Some (stable_sort coll_less collectives @ stable_sort (p2p_less rank world_size) p2p)))"

definition IsCollectiveBatch :: "CollTask list \<Rightarrow> bool" where
  "IsCollectiveBatch tasks = list_all (\<lambda>t. \<not> IsP2p (ct_func t)) tasks"

subsection \<open>Slicing a collective over the channels\<close>

text \<open>The values \<open>EmitCollectiveSlices\<close> computes before its loop.\<close>

record SliceShape =
  ss_use_tree :: bool
  ss_type_size :: nat
  ss_max_channels :: nat
  ss_unit_bytes :: nat
  ss_rem_bytes :: nat
  ss_n_used :: nat
  ss_base_units :: nat
  ss_rem_units :: nat

definition slice_shape :: "Comm \<Rightarrow> CollTask \<Rightarrow> SliceShape" where
  "slice_shape comm task =
     (let type_size = GetDataTypeSize (ct_dtype task);
          total_bytes = size_mul (ct_count task) type_size;
          max_channels = nat (max (GetNChannels comm) 1);
          use_tree = (ct_func task = AllReduce \<and> total_bytes div kChunkBytes < kTreeThresholdChunks);
          unit_bytes = (if use_tree \<or> ct_func task = AllReduce
                        then size_mul kChunkBytes (nat (cm_world_size comm)) else kChunkBytes);
          units_total = total_bytes div unit_bytes;
          rem_bytes = total_bytes mod unit_bytes;
          n_used = (if 0 < units_total then min units_total max_channels else 1)
      in \<lparr>ss_use_tree = use_tree, ss_type_size = type_size, ss_max_channels = max_channels,
          ss_unit_bytes = unit_bytes, ss_rem_bytes = rem_bytes, ss_n_used = n_used,
          ss_base_units = units_total div n_used, ss_rem_units = units_total mod n_used\<rparr>)"

definition slice_elems :: "SliceShape \<Rightarrow> nat \<Rightarrow> nat" where
  "slice_elems ss c =
     (let channel_units = ss_base_units ss + (if c < ss_rem_units ss then 1 else 0);
          channel_bytes = size_mul channel_units (ss_unit_bytes ss) + (if c = ss_n_used ss - 1 then ss_rem_bytes ss else 0)
      in channel_bytes div ss_type_size ss)"

text \<open>The slice that iteration \<open>c\<close> builds, with \<open>offset\<close> elements before it.\<close>

definition make_slice :: "Comm \<Rightarrow> CollTask \<Rightarrow> SliceShape \<Rightarrow> nat \<Rightarrow> nat \<Rightarrow> int \<Rightarrow> PlanTask" where
  "make_slice comm task ss c offset channel_id =
     (let elem_count = slice_elems ss c in
      PlanTask_default\<lparr>
        pt_func := ct_func task,
        pt_topology := Some (if ss_use_tree ss then TreeTopology else RingTopology),
        pt_send_buf := ptr_plus (ct_send_buf task) (size_mul offset (ss_type_size ss)),
        pt_recv_buf := ptr_plus (ct_recv_buf task) (size_mul offset (ss_type_size ss)),
        pt_elem_count := elem_count,
        pt_rank_stride := ct_count task,
        pt_root := ct_root task,
        pt_dtype := ct_dtype task,
        pt_reduce_op := ct_op task,
        pt_channel_id := channel_id,
        pt_rank := cm_rank comm,
        pt_world_size := cm_world_size comm,
        pt_chunk_size := (if ss_use_tree ss \<or> ct_func task = AllReduce then kChunkBytes div ss_type_size ss
                          else (elem_count + nat (cm_world_size comm) - 1) div nat (cm_world_size comm))\<rparr>)"

definition push_task :: "CollPlan \<Rightarrow> nat \<Rightarrow> PlanTask \<Rightarrow> CollPlan option" where
  "push_task plan k t =
     (if k < length (pl_channels plan)
      then Some (plan\<lparr>pl_channels := (pl_channels plan)
                  [k := (pl_channels plan ! k)\<lparr>cp_tasks := cp_tasks (pl_channels plan ! k) @ [t]\<rparr>]\<rparr>)
      else None)"

definition emit_slice ::
  "Comm \<Rightarrow> CollTask \<Rightarrow> bool \<Rightarrow> SliceShape \<Rightarrow> nat \<Rightarrow> nat \<times> CollPlan \<Rightarrow> (nat \<times> CollPlan) option" where
  "emit_slice comm task bind ss c s =
     (case s of (offset, plan) \<Rightarrow>
        let channel_id = c mod ss_max_channels ss in
        (case GetChannel comm (int channel_id) of
           None \<Rightarrow> None
         | Some comm_channel \<Rightarrow>
             let plantask = make_slice comm task ss c offset (if bind then ch_id comm_channel else -1) in
             if bind then
               (case FillTransports (if ss_use_tree ss then TreeTopology else RingTopology) comm_channel plantask of
                  None \<Rightarrow> None
                | Some bound \<Rightarrow>
                    (case push_task plan channel_id bound of
                       None \<Rightarrow> None
                     | Some plan' \<Rightarrow> Some (offset + slice_elems ss c, plan')))
             else Some (offset + slice_elems ss c, plan\<lparr>pl_slices := pl_slices plan @ [plantask]\<rparr>)))"

definition EmitCollectiveSlices :: "Comm \<Rightarrow> CollTask \<Rightarrow> CollPlan \<Rightarrow> bool \<Rightarrow> CollPlan option" where
  "EmitCollectiveSlices comm task plan bind =
     (let ss = slice_shape comm task in
      if ss_type_size ss = 0 \<or> ss_unit_bytes ss = 0 then None
      else map_option snd (for_opt (emit_slice comm task bind ss) [0..<ss_n_used ss] (0, plan)))"

definition PlanCollective :: "Comm \<Rightarrow> CollTask \<Rightarrow> CollPlan \<Rightarrow> CollPlan option" where
  "PlanCollective comm task plan = EmitCollectiveSlices comm task plan True"

subsection \<open>The two comparators are keyed strict weak orders\<close>

definition coll_key :: "CollTask \<Rightarrow> nat \<times> nat \<times> nat \<times> nat \<times> int" where
  "coll_key t = (CollFunc_code (ct_func t), size_mul (ct_count t) (GetDataTypeSize (ct_dtype t)),
                 DataType_code (ct_dtype t), EffectiveOp t, EffectiveRoot t)"

definition p2p_key :: "int \<Rightarrow> int \<Rightarrow> CollTask \<Rightarrow> int \<times> nat" where
  "p2p_key rank world_size t =
     (P2pRoundOf (ct_func t) rank (ct_peer t) world_size, CollFunc_code (ct_func t))"

lemma coll_less_key: "coll_less a b \<longleftrightarrow> coll_key a < coll_key b"
  unfolding coll_less_def coll_key_def Let_def CollFunc_code_inject [symmetric] DataType_code_inject [symmetric]
  by (simp del: CollFunc_code_inject DataType_code_inject) linarith

lemma p2p_less_key: "p2p_less rank ws a b \<longleftrightarrow> p2p_key rank ws a < p2p_key rank ws b"
  by (auto simp: p2p_less_def p2p_key_def Let_def)

interpretation coll_order: keyed_order coll_less coll_key
  by unfold_locales (auto simp: coll_less_key)

interpretation p2p_order: keyed_order "p2p_less rank ws" "p2p_key rank ws" for rank ws
  by unfold_locales (auto simp: p2p_less_key)

lemma keys_equiv: "\<not> coll_less z t \<and> \<not> coll_less t z \<longleftrightarrow> coll_key t = coll_key z"
  by (auto simp: coll_less_key)

definition task_ok :: "int \<Rightarrow> int \<Rightarrow> CollTask \<Rightarrow> bool" where
  "task_ok rank world_size t =
     (if IsP2p (ct_func t) then 0 \<le> ct_peer t \<and> ct_peer t < world_size \<and> ct_peer t \<noteq> rank
      else ValidateCollectiveTask t rank world_size)"

lemma classify_loop:
  "for_opt (classify_task rank ws) tasks (cs, ps) =
     (if \<forall>t \<in> set tasks. task_ok rank ws t
      then Some (cs @ filter (\<lambda>t. \<not> IsP2p (ct_func t)) tasks, ps @ filter (\<lambda>t. IsP2p (ct_func t)) tasks)
      else None)"
  by (induction tasks arbitrary: cs ps) (auto simp: classify_task_def task_ok_def)

lemma SortTasks_eq:
  "SortTasks tasks rank ws =
     (if 0 < ws \<and> 0 \<le> rank \<and> rank < ws \<and> (\<forall>t \<in> set tasks. task_ok rank ws t)
      then Some (stable_sort coll_less (filter (\<lambda>t. \<not> IsP2p (ct_func t)) tasks) @
                 stable_sort (p2p_less rank ws) (filter (\<lambda>t. IsP2p (ct_func t)) tasks))
      else None)"
  by (auto simp: SortTasks_def classify_loop)

lemma filter_all_or_none:
  "\<forall>x \<in> set xs. P x \<Longrightarrow> filter P xs = xs" "\<forall>x \<in> set xs. \<not> P x \<Longrightarrow> filter P xs = []"
  by (induction xs) simp_all

lemma SortTasks_collectives:
  assumes "SortTasks tasks rank ws = Some out"
  shows "filter (\<lambda>t. \<not> IsP2p (ct_func t)) out = stable_sort coll_less (filter (\<lambda>t. \<not> IsP2p (ct_func t)) tasks)"
    and "filter (\<lambda>t. IsP2p (ct_func t)) out = stable_sort (p2p_less rank ws) (filter (\<lambda>t. IsP2p (ct_func t)) tasks)"
  using assms by (auto simp: SortTasks_eq filter_all_or_none split: if_splits)

subsection \<open>Rounds of point-to-point tasks\<close>

lemma P2pRoundOf_Send:
  "0 \<le> rank \<Longrightarrow> rank < ws \<Longrightarrow> 0 \<le> peer \<Longrightarrow> peer < ws \<Longrightarrow>
   P2pRoundOf Send rank peer ws = (if rank \<le> peer then ws - (peer - rank) else rank - peer)"
  using mod_neg_wrap [of ws "peer - rank"] by (auto simp: P2pRoundOf_def Let_def smod_nonneg)

lemma P2pRoundOf_Recv:
  "0 \<le> rank \<Longrightarrow> rank < ws \<Longrightarrow> 0 \<le> peer \<Longrightarrow> peer < ws \<Longrightarrow>
   P2pRoundOf Recv rank peer ws = (if peer \<le> rank then ws - (rank - peer) else peer - rank)"
  using mod_neg_wrap [of ws "rank - peer"] by (auto simp: P2pRoundOf_def Let_def smod_nonneg)

subsection \<open>Arithmetic of the slices\<close>

text \<open>A communicator as \<open>Init\<close> leaves it: an \<open>int\<close> world size, and channels numbered in order.\<close>

definition comm_ok :: "Comm \<Rightarrow> bool" where
  "comm_ok comm \<longleftrightarrow> 0 \<le> cm_rank comm \<and> cm_rank comm < cm_world_size comm \<and> cm_world_size comm \<le> INT_MAX \<and>
     cm_channels comm \<noteq> [] \<and> (\<forall>i < length (cm_channels comm). ch_id (cm_channels comm ! i) = int i)"

lemma Validate_facts:
  assumes "ValidateCollectiveTask task rank ws"
  shows "0 < GetDataTypeSize (ct_dtype task)"
    and "ct_count task * GetDataTypeSize (ct_dtype task) \<le> SIZE_MAX"
    and "size_mul (ct_count task) (GetDataTypeSize (ct_dtype task)) = ct_count task * GetDataTypeSize (ct_dtype task)"
    and "0 < ws" and "0 \<le> rank" and "rank < ws" and "IsCollective (ct_func task)"
proof -
  show pos: "0 < GetDataTypeSize (ct_dtype task)" and "0 < ws" and "0 \<le> rank" and "rank < ws"
    and "IsCollective (ct_func task)"
    using assms by (auto simp: ValidateCollectiveTask_def Let_def split: if_splits)
  have "ct_count task \<le> SIZE_MAX div GetDataTypeSize (ct_dtype task)"
    using assms by (auto simp: ValidateCollectiveTask_def Let_def split: if_splits)
  with pos show "ct_count task * GetDataTypeSize (ct_dtype task) \<le> SIZE_MAX"
    by (simp add: less_eq_div_iff_mult_less_eq)
  then show "size_mul (ct_count task) (GetDataTypeSize (ct_dtype task)) = ct_count task * GetDataTypeSize (ct_dtype task)"
    by (rule size_mul_exact)
qed

lemma unit_bytes_exact:
  assumes "cm_world_size comm \<le> INT_MAX"
  shows "size_mul kChunkBytes (nat (cm_world_size comm)) = kChunkBytes * nat (cm_world_size comm)"
proof (rule size_mul_exact)
  have "nat (cm_world_size comm) \<le> 2147483647" using assms by (simp add: INT_MAX_def)
  then have "kChunkBytes * nat (cm_world_size comm) \<le> kChunkBytes * 2147483647" by simp
  also have "\<dots> \<le> SIZE_MAX" by (simp add: kChunkBytes_value SIZE_MAX_def)
  finally show "kChunkBytes * nat (cm_world_size comm) \<le> SIZE_MAX" .
qed

text \<open>The shape's numbers, free of wrap-around.\<close>

lemma slice_shape_sel:
  assumes "tb = size_mul (ct_count task) (GetDataTypeSize (ct_dtype task))" and "ss = slice_shape comm task"
  shows "ss_type_size ss = GetDataTypeSize (ct_dtype task)"
    and "ss_max_channels ss = nat (max (GetNChannels comm) 1)"
    and "ss_unit_bytes ss = (if ct_func task = AllReduce then size_mul kChunkBytes (nat (cm_world_size comm)) else kChunkBytes)"
    and "ss_rem_bytes ss = tb mod ss_unit_bytes ss"
    and "ss_n_used ss = (if 0 < tb div ss_unit_bytes ss then min (tb div ss_unit_bytes ss) (ss_max_channels ss) else 1)"
    and "ss_base_units ss = tb div ss_unit_bytes ss div ss_n_used ss"
    and "ss_rem_units ss = tb div ss_unit_bytes ss mod ss_n_used ss"
  by (simp_all only: assms slice_shape_def Let_def SliceShape.select_convs) simp

lemma shape_facts:
  assumes "ValidateCollectiveTask task (cm_rank comm) (cm_world_size comm)" and "comm_ok comm"
    and "ss = slice_shape comm task" and "tb = ct_count task * GetDataTypeSize (ct_dtype task)"
  shows "ss_type_size ss = GetDataTypeSize (ct_dtype task)" and "0 < ss_type_size ss"
    and "0 < ss_unit_bytes ss" and "ss_type_size ss dvd ss_unit_bytes ss"
    and "ss_rem_bytes ss = tb mod ss_unit_bytes ss"
    and "0 < ss_n_used ss" and "ss_n_used ss \<le> length (cm_channels comm)"
    and "ss_max_channels ss = length (cm_channels comm)"
    and "ss_base_units ss * ss_n_used ss + ss_rem_units ss = tb div ss_unit_bytes ss"
    and "ss_rem_units ss < ss_n_used ss"
    and "tb \<le> SIZE_MAX"
proof -
  note v = Validate_facts [OF assms(1)]
  note sel = slice_shape_sel [OF v(3) [symmetric, folded assms(4)] assms(3)]
  have ws: "0 < nat (cm_world_size comm)" using v(4) by simp
  have ch: "0 < length (cm_channels comm)" using assms(2) by (simp add: comm_ok_def)
  have unit: "size_mul kChunkBytes (nat (cm_world_size comm)) = kChunkBytes * nat (cm_world_size comm)"
    using assms(2) by (intro unit_bytes_exact) (simp add: comm_ok_def)
  show "ss_type_size ss = GetDataTypeSize (ct_dtype task)" "0 < ss_type_size ss" using v(1) by (simp_all add: sel(1))
  show "0 < ss_unit_bytes ss" using ws by (simp add: sel(3) unit)
  show "ss_type_size ss dvd ss_unit_bytes ss" using type_size_dvd_kChunkBytes [OF v(1)] by (simp add: sel(1,3) unit)
  show "ss_rem_bytes ss = tb mod ss_unit_bytes ss" by (rule sel(4))
  show mx: "ss_max_channels ss = length (cm_channels comm)"
    using ch by (simp add: sel(2) GetNChannels_def max_def del: length_greater_0_conv)
  show pos: "0 < ss_n_used ss" and "ss_n_used ss \<le> length (cm_channels comm)"
    using ch by (auto simp: sel(5) mx Suc_le_eq)
  show "ss_base_units ss * ss_n_used ss + ss_rem_units ss = tb div ss_unit_bytes ss"
    "ss_rem_units ss < ss_n_used ss" using pos by (simp_all add: sel(6,7))
  show "tb \<le> SIZE_MAX" using v(2) assms(4) by simp
qed

text \<open>Number of units of slice \<open>c\<close>, and of all slices before it.\<close>

definition slice_units :: "SliceShape \<Rightarrow> nat \<Rightarrow> nat" where
  "slice_units ss c = ss_base_units ss + (if c < ss_rem_units ss then 1 else 0)"

lemma sum_slice_units: "sum (slice_units ss) {..<k} = ss_base_units ss * k + min k (ss_rem_units ss)"
  by (induction k) (auto simp: slice_units_def)

lemma slice_elems_units:
  assumes "ValidateCollectiveTask task (cm_rank comm) (cm_world_size comm)" and "comm_ok comm"
    and "ss = slice_shape comm task" and "c < ss_n_used ss"
  shows "slice_elems ss c = slice_units ss c * (ss_unit_bytes ss div ss_type_size ss) +
           (if c = ss_n_used ss - 1 then ss_rem_bytes ss div ss_type_size ss else 0)"
proof -
  note f = shape_facts [OF assms(1-3) refl]
  let ?u = "ss_unit_bytes ss" and ?t = "ss_type_size ss"
  have "slice_units ss c \<le> sum (slice_units ss) {..<ss_n_used ss}"
    using assms(4) by (intro member_le_sum) simp_all
  also have "\<dots> = ct_count task * GetDataTypeSize (ct_dtype task) div ?u"
    using f(9,10) by (simp add: sum_slice_units)
  finally have "slice_units ss c * ?u \<le> ct_count task * GetDataTypeSize (ct_dtype task)"
    using f(3) by (simp add: less_eq_div_iff_mult_less_eq)
  then have exact: "size_mul (slice_units ss c) ?u = slice_units ss c * ?u"
    using f(11) by (intro size_mul_exact) simp
  obtain q where q: "?u = ?t * q" using f(4) by blast
  have "size_mul (slice_units ss c) ?u div ?t = slice_units ss c * q"
    using f(2) unfolding exact by (simp add: q)
  moreover have "(size_mul (slice_units ss c) ?u + ss_rem_bytes ss) div ?t = slice_units ss c * q + ss_rem_bytes ss div ?t"
    using f(2) div_mult_self1 [of ?t "ss_rem_bytes ss" "slice_units ss c * q"] unfolding exact
    by (simp add: q ac_simps)
  moreover have "slice_elems ss c =
      (size_mul (slice_units ss c) ?u + (if c = ss_n_used ss - 1 then ss_rem_bytes ss else 0)) div ?t"
    by (simp only: slice_elems_def Let_def slice_units_def)
  moreover have "?u div ?t = q" using f(2) by (simp add: q)
  ultimately show ?thesis
    by (cases "c = ss_n_used ss - 1") simp_all
qed

lemma sum_slice_elems:
  assumes "ValidateCollectiveTask task (cm_rank comm) (cm_world_size comm)" and "comm_ok comm"
    and "ss = slice_shape comm task"
  shows "sum (slice_elems ss) {..<ss_n_used ss} = ct_count task"
proof -
  note f = shape_facts [OF assms refl]
  let ?u = "ss_unit_bytes ss" and ?t = "ss_type_size ss" and ?n = "ss_n_used ss"
  obtain q where q: "?u = ?t * q" using f(4) by blast
  have "sum (slice_elems ss) {..<?n} =
      sum (\<lambda>c. slice_units ss c * q + (if c = ?n - 1 then ss_rem_bytes ss div ?t else 0)) {..<?n}"
    using slice_elems_units [OF assms] f(2) by (intro sum.cong) (simp_all add: q)
  also have "\<dots> = sum (slice_units ss) {..<?n} * q + ss_rem_bytes ss div ?t"
    using f(6) by (simp add: sum.distrib sum_distrib_right sum.delta)
  also have "\<dots> = (ct_count task * ?t div ?u) * q + (ct_count task * ?t mod ?u) div ?t"
    using f(1,5,9,10) by (simp add: sum_slice_units)
  also have "\<dots> = ct_count task"
  proof -
    have "ct_count task * ?t div ?u = ct_count task div q"
      using f(2) by (simp add: q div_mult_mult1 mult.commute [of "ct_count task"])
    moreover have "ct_count task * ?t mod ?u = ?t * (ct_count task mod q)"
      by (simp add: q mult.commute [of "ct_count task"] flip: mult_mod_right)
    ultimately show ?thesis using f(2) by simp
  qed
  finally show ?thesis .
qed

definition slice_offset :: "SliceShape \<Rightarrow> nat \<Rightarrow> nat" where
  "slice_offset ss c = sum (slice_elems ss) {..<c}"

lemma slice_offset_le:
  assumes "ValidateCollectiveTask task (cm_rank comm) (cm_world_size comm)" and "comm_ok comm"
    and "ss = slice_shape comm task" and "c \<le> ss_n_used ss"
  shows "slice_offset ss c \<le> ct_count task"
  unfolding slice_offset_def sum_slice_elems [OF assms(1-3), symmetric]
  using assms(4) by (intro sum_mono2) auto

subsection \<open>Closed form of the emission loop\<close>

lemma GetChannel_ok: "k < length (cm_channels comm) \<Longrightarrow> GetChannel comm (int k) = Some (cm_channels comm ! k)"
  by (simp add: GetChannel_def)

lemma emit_dynamic_loop:
  assumes "k \<le> ss_n_used ss" and "ss_n_used ss \<le> length (cm_channels comm)"
    and "ss_max_channels ss = length (cm_channels comm)"
  shows "for_opt (emit_slice comm task False ss) [0..<k] (0, plan) =
    Some (slice_offset ss k,
          plan\<lparr>pl_slices := pl_slices plan @ map (\<lambda>c. make_slice comm task ss c (slice_offset ss c) (-1)) [0..<k]\<rparr>)"
  using assms(1)
proof (induction k)
  case (Suc k)
  then have "k < length (cm_channels comm)" using assms(2) by simp
  with Suc show ?case
    by (simp add: for_opt_append emit_slice_def GetChannel_ok assms(3) slice_offset_def)
qed (simp add: slice_offset_def)

definition bound_slice :: "Comm \<Rightarrow> CollTask \<Rightarrow> SliceShape \<Rightarrow> nat \<Rightarrow> PlanTask" where
  "bound_slice comm task ss c =
     (let t = make_slice comm task ss c (slice_offset ss c) (ch_id (cm_channels comm ! c)) in
      if ss_use_tree ss then Tree_FillTransports (cm_channels comm ! c) t
      else Ring_FillTransports (cm_channels comm ! c) t)"

lemma emit_static_loop:
  assumes "k \<le> ss_n_used ss" and "ss_n_used ss \<le> length (cm_channels comm)"
    and "ss_max_channels ss = length (cm_channels comm)" and "length (pl_channels plan) = length (cm_channels comm)"
  shows "\<exists>plan'. for_opt (emit_slice comm task True ss) [0..<k] (0, plan) = Some (slice_offset ss k, plan') \<and>
     length (pl_channels plan') = length (pl_channels plan) \<and> pl_slices plan' = pl_slices plan \<and>
     (\<forall>c < length (pl_channels plan). pl_channels plan' ! c =
        (pl_channels plan ! c)\<lparr>cp_tasks := cp_tasks (pl_channels plan ! c) @
           (if c < k then [bound_slice comm task ss c] else [])\<rparr>)"
  using assms(1)
proof (induction k)
  case (Suc k)
  then have k: "k < length (cm_channels comm)" using assms(2) by simp
  from Suc obtain plan1 where p1: "for_opt (emit_slice comm task True ss) [0..<k] (0, plan) = Some (slice_offset ss k, plan1)"
    "length (pl_channels plan1) = length (pl_channels plan)" "pl_slices plan1 = pl_slices plan"
    "\<forall>c < length (pl_channels plan). pl_channels plan1 ! c =
        (pl_channels plan ! c)\<lparr>cp_tasks := cp_tasks (pl_channels plan ! c) @
           (if c < k then [bound_slice comm task ss c] else [])\<rparr>" by auto
  have "emit_slice comm task True ss k (slice_offset ss k, plan1) =
      map_option (Pair (slice_offset ss (Suc k))) (push_task plan1 k (bound_slice comm task ss k))"
    using k by (simp add: emit_slice_def GetChannel_ok assms(3) Let_def bound_slice_def slice_offset_def
        split: option.splits)
  then show ?case
    using p1 k assms(4)
    by (auto simp: for_opt_append push_task_def nth_list_update less_Suc_eq)
qed (simp add: slice_offset_def)

lemma EmitCollectiveSlices_dynamic:
  assumes "ValidateCollectiveTask task (cm_rank comm) (cm_world_size comm)" and "comm_ok comm"
    and "ss = slice_shape comm task"
  shows "EmitCollectiveSlices comm task plan False =
    Some (plan\<lparr>pl_slices := pl_slices plan @
      map (\<lambda>c. make_slice comm task ss c (slice_offset ss c) (-1)) [0..<ss_n_used ss]\<rparr>)"
  using shape_facts [OF assms refl] emit_dynamic_loop [of "ss_n_used ss" ss comm task plan]
  by (simp add: EmitCollectiveSlices_def Let_def assms(3))

subsection \<open>Properties\<close>


definition demo_task :: "CollFunc \<Rightarrow> nat \<Rightarrow> CollTask" where
  "demo_task f n = CollTask_default\<lparr>ct_func := f, ct_send_buf := Mem 64, ct_recv_buf := Mem 640000,
     ct_count := n, ct_dtype := INT32, ct_peer := 1\<rparr>"


text \<open>
  C22. Agreement across ranks. If two ranks submit groups whose collectives have the same multiset of
  keys, in whatever order, the planners of both ranks put the collectives in the same key order, so
  the ranks run matching collectives in the same sequence.
\<close>

theorem SortTasks_agree:
  assumes "SortTasks tasks1 rank1 world_size = Some out1" and "SortTasks tasks2 rank2 world_size = Some out2"
    and "mset (map coll_key (filter (\<lambda>t. \<not> IsP2p (ct_func t)) tasks1)) =
         mset (map coll_key (filter (\<lambda>t. \<not> IsP2p (ct_func t)) tasks2))"
  shows "map coll_key (filter (\<lambda>t. \<not> IsP2p (ct_func t)) out1) =
         map coll_key (filter (\<lambda>t. \<not> IsP2p (ct_func t)) out2)"
  using coll_order.keys_agree [OF assms(3)]
  by (simp only: SortTasks_collectives(1) [OF assms(1)] SortTasks_collectives(1) [OF assms(2)])

theorem SortTasks_agree_witness:
  "map coll_key (filter (\<lambda>t. \<not> IsP2p (ct_func t)) (the (SortTasks [demo_task Reduce 2, demo_task AllReduce 5] 0 2))) =
   map coll_key (filter (\<lambda>t. \<not> IsP2p (ct_func t)) (the (SortTasks [demo_task AllReduce 5, demo_task Reduce 2] 1 2)))"
proof -
  let ?a = "[demo_task Reduce 2, demo_task AllReduce 5]" and ?b = "[demo_task AllReduce 5, demo_task Reduce 2]"
  obtain o1 o2 where o: "SortTasks ?a 0 2 = Some o1" "SortTasks ?b 1 2 = Some o2"
    by (simp add: SortTasks_eq demo_task_def CollTask_default_def task_ok_def IsP2p_def ValidateCollectiveTask_def SIZE_MAX_def)
  show ?thesis using SortTasks_agree [OF o]
    by (simp only: o option.sel) (simp add: demo_task_def IsP2p_def add_mset_commute)
qed

text \<open>
  Rounds of point-to-point transfers. For two different ranks the sender and the receiver of a
  transfer put it in the same round, between 1 and \<open>world_size - 1\<close>; and in round \<open>k\<close> rank \<open>r\<close> sends
  only to \<open>r - k\<close> and receives only from \<open>r + k\<close> (modulo the world size), so a round is a rotation:
  nobody has two partners in one direction.
\<close>

theorem P2pRoundOf_rotation:
  assumes "0 \<le> r" and "r < ws" and "0 \<le> p" and "p < ws" and "p \<noteq> r"
  shows "P2pRoundOf Send r p ws = P2pRoundOf Recv p r ws \<and>
         1 \<le> P2pRoundOf Send r p ws \<and> P2pRoundOf Send r p ws \<le> ws - 1 \<and>
         p = (r - P2pRoundOf Send r p ws) mod ws \<and> p = (r + P2pRoundOf Recv r p ws) mod ws"
  using assms mod_neg_wrap [of ws "p - ws"] mod_add_self2 [of p ws]
  by (auto simp: P2pRoundOf_Send P2pRoundOf_Recv)

theorem P2pRoundOf_rotation_witness:
  "P2pRoundOf Send 1 3 5 = P2pRoundOf Recv 3 1 5 \<and> 1 \<le> P2pRoundOf Send 1 3 5 \<and> P2pRoundOf Send 1 3 5 \<le> 4"
  using P2pRoundOf_rotation [of 1 5 3] by simp

definition unit_elems :: "Comm \<Rightarrow> CollTask \<Rightarrow> nat" where
  "unit_elems comm task = ss_unit_bytes (slice_shape comm task) div ss_type_size (slice_shape comm task)"

text \<open>
  C19. A collective that passed validation is sliced without any wrap-around into between one and
  \<open>n_channels\<close> slices that tile the buffers: the element counts add up to the task's count, each
  slice starts where the previous one ends, every slice but the last is a whole number of units
  (\<open>kChunkBytes\<close> bytes, for AllReduce times the world size), and two of these differ by at most one unit.
\<close>

theorem slices_tile_task:
  assumes "ValidateCollectiveTask task (cm_rank comm) (cm_world_size comm)" and "comm_ok comm"
  shows "\<exists>S. EmitCollectiveSlices comm task plan False = Some (plan\<lparr>pl_slices := pl_slices plan @ S\<rparr>) \<and>
     1 \<le> length S \<and> length S \<le> length (cm_channels comm) \<and>
     sum_list (map pt_elem_count S) = ct_count task \<and>
     (\<forall>k < length S.
        pt_recv_buf (S ! k) = ptr_plus (ct_recv_buf task)
          (sum_list (map pt_elem_count (take k S)) * GetDataTypeSize (ct_dtype task)) \<and>
        pt_send_buf (S ! k) = ptr_plus (ct_send_buf task)
          (sum_list (map pt_elem_count (take k S)) * GetDataTypeSize (ct_dtype task))) \<and>
     (\<forall>k < length S - 1. unit_elems comm task dvd pt_elem_count (S ! k)) \<and>
     (\<forall>i < length S - 1. \<forall>j < length S - 1. pt_elem_count (S ! i) \<le> pt_elem_count (S ! j) + unit_elems comm task)"
proof -
  define ss where "ss = slice_shape comm task"
  define S where "S = map (\<lambda>c. make_slice comm task ss c (slice_offset ss c) (-1)) [0..<ss_n_used ss]"
  note f = shape_facts [OF assms ss_def refl]
  have counts: "map pt_elem_count S = map (slice_elems ss) [0..<ss_n_used ss]"
    by (simp add: S_def make_slice_def Let_def comp_def)
  have prefix: "sum_list (map pt_elem_count (take k S)) = slice_offset ss k" if "k \<le> ss_n_used ss" for k
  proof -
    have "map pt_elem_count (take k S) = map (slice_elems ss) [0..<k]"
      using that by (simp only: take_map [symmetric] counts) (simp add: take_map)
    then show ?thesis by (simp add: slice_offset_def interv_sum_list_conv_sum_set_nat atLeast0LessThan)
  qed
  have exact: "size_mul (slice_offset ss k) (ss_type_size ss) = slice_offset ss k * ss_type_size ss" if "k < ss_n_used ss" for k
  proof (rule size_mul_exact)
    have "slice_offset ss k * ss_type_size ss \<le> ct_count task * ss_type_size ss"
      using slice_offset_le [OF assms ss_def, of k] that by simp
    also have "\<dots> \<le> SIZE_MAX" using f(1,11) by simp
    finally show "slice_offset ss k * ss_type_size ss \<le> SIZE_MAX" .
  qed
  have len: "length S = ss_n_used ss" by (simp add: S_def)
  have buf: "pt_recv_buf (S ! k) = ptr_plus (ct_recv_buf task) (slice_offset ss k * ss_type_size ss)"
    "pt_send_buf (S ! k) = ptr_plus (ct_send_buf task) (slice_offset ss k * ss_type_size ss)"
    if "k < ss_n_used ss" for k
    using that exact [OF that] by (simp_all add: S_def make_slice_def Let_def)
  have whole: "pt_elem_count (S ! k) = slice_units ss k * unit_elems comm task" if "k < ss_n_used ss - 1" for k
    using that less_imp_diff_less [of k] order.strict_trans2 [OF that diff_le_self] slice_elems_units [OF assms ss_def, of k]
    by (simp add: S_def make_slice_def Let_def unit_elems_def ss_def [symmetric])
  have near: "slice_units ss i \<le> slice_units ss j + 1" for i j
    by (simp add: slice_units_def)
  show ?thesis
  proof (intro exI [of _ S] conjI allI impI)
    show "EmitCollectiveSlices comm task plan False = Some (plan\<lparr>pl_slices := pl_slices plan @ S\<rparr>)"
      unfolding S_def by (rule EmitCollectiveSlices_dynamic [OF assms ss_def])
    show "sum_list (map pt_elem_count S) = ct_count task"
      using prefix [of "ss_n_used ss"] sum_slice_elems [OF assms ss_def] by (simp add: len slice_offset_def)
    fix i j assume "i < length S - 1" and "j < length S - 1"
    then show "pt_elem_count (S ! i) \<le> pt_elem_count (S ! j) + unit_elems comm task"
      using mult_le_mono1 [OF near [of i j], of "unit_elems comm task"] by (simp add: len whole)
  qed (use f(1,6,7) prefix buf whole in \<open>auto simp: len\<close>)
qed

definition demo_comm :: Comm where
  "demo_comm = \<lparr>cm_rank = 0, cm_world_size = 2, cm_cfg_n_channels = 0,
     cm_channels = map (\<lambda>i. Channel_default\<lparr>ch_id := int i\<rparr>) [0..<4],
     cm_all_nodes = [], cm_use_shm = True, cm_rdma_ready = False, cm_dynamic_available = True,
     cm_group_depth = 0, cm_pending_tasks = [], cm_p2p_listeners = [], cm_unique_port = 0,
     cm_placement = Placement_default, cm_executor = None, cm_dynamic_executor = None, cm_bootstrap_listen_fd = -1,
     cm_tree_roles = []\<rparr>"

lemma demo_comm_ok: "comm_ok demo_comm" "length (cm_channels demo_comm) = 4"
  by (simp_all add: comm_ok_def demo_comm_def INT_MAX_def del: upt_Suc)

lemma demo_validate: "ValidateCollectiveTask (demo_task AllReduce 50000) (cm_rank demo_comm) (cm_world_size demo_comm)"
  by (simp add: demo_task_def CollTask_default_def ValidateCollectiveTask_def SIZE_MAX_def demo_comm_def)

theorem slices_tile_task_witness:
  "\<exists>S. EmitCollectiveSlices demo_comm (demo_task AllReduce 50000) (CollPlan_new 4) False =
         Some ((CollPlan_new 4)\<lparr>pl_slices := pl_slices (CollPlan_new 4) @ S\<rparr>) \<and>
       1 \<le> length S \<and> length S \<le> 4 \<and> sum_list (map pt_elem_count S) = 50000"
  using slices_tile_task [OF demo_validate demo_comm_ok(1), of "CollPlan_new 4"]
  by (fastforce simp: demo_comm_ok(2) demo_task_def)

definition unbind :: "PlanTask \<Rightarrow> PlanTask" where
  "unbind t = t\<lparr>pt_channel_id := -1, pt_send_transports := [], pt_recv_transports := []\<rparr>"

text \<open>
  Static and dynamic planning agree: with \<open>bind = true\<close> slice \<open>c\<close> of the same slice set is
  appended to channel \<open>c\<close>'s queue, one slice per channel at most and all other channels untouched;
  it differs from the unbound slice only in its channel id and its transports.
\<close>

theorem static_plan_matches_slices:
  assumes "ValidateCollectiveTask task (cm_rank comm) (cm_world_size comm)" and "comm_ok comm"
    and "length (pl_channels plan) = length (cm_channels comm)"
  shows "\<exists>S plan'. EmitCollectiveSlices comm task plan False = Some (plan\<lparr>pl_slices := pl_slices plan @ S\<rparr>) \<and>
     PlanCollective comm task plan = Some plan' \<and>
     pl_slices plan' = pl_slices plan \<and> length (pl_channels plan') = length (pl_channels plan) \<and>
     (\<forall>c < length (pl_channels plan).
        if c < length S
        then \<exists>t. pl_channels plan' ! c = (pl_channels plan ! c)\<lparr>cp_tasks := cp_tasks (pl_channels plan ! c) @ [t]\<rparr> \<and>
                 pt_channel_id t = int c \<and> unbind t = S ! c
        else pl_channels plan' ! c = pl_channels plan ! c)"
proof -
  define ss where "ss = slice_shape comm task"
  define S where "S = map (\<lambda>c. make_slice comm task ss c (slice_offset ss c) (-1)) [0..<ss_n_used ss]"
  note f = shape_facts [OF assms(1,2) ss_def refl]
  obtain plan' where p: "for_opt (emit_slice comm task True ss) [0..<ss_n_used ss] (0, plan) = Some (slice_offset ss (ss_n_used ss), plan')"
    "length (pl_channels plan') = length (pl_channels plan)" "pl_slices plan' = pl_slices plan"
    "\<forall>c < length (pl_channels plan). pl_channels plan' ! c =
        (pl_channels plan ! c)\<lparr>cp_tasks := cp_tasks (pl_channels plan ! c) @
           (if c < ss_n_used ss then [bound_slice comm task ss c] else [])\<rparr>"
    using emit_static_loop [OF order.refl f(7,8) assms(3), of task] by blast
  have "PlanCollective comm task plan = Some plan'"
    using f(2,3) p(1) by (simp add: PlanCollective_def EmitCollectiveSlices_def Let_def ss_def [symmetric])
  moreover have "unbind (bound_slice comm task ss c) = S ! c" and "pt_channel_id (bound_slice comm task ss c) = int c"
    if "c < ss_n_used ss" for c
    using that f(7) assms(2)
    by (simp_all add: bound_slice_def S_def make_slice_def Let_def unbind_def Ring_FillTransports_def
        Tree_FillTransports_def PlanTask_default_def comm_ok_def)
  moreover have "length S = ss_n_used ss" by (simp add: S_def)
  ultimately show ?thesis
    using EmitCollectiveSlices_dynamic [OF assms(1,2) ss_def, of plan] p(2-4)
    by (intro exI [of _ S] exI [of _ plan']) (auto simp: S_def [symmetric])
qed

theorem static_plan_matches_slices_witness:
  "\<exists>S plan'. PlanCollective demo_comm (demo_task AllReduce 50000) (CollPlan_new 4) = Some plan' \<and>
     EmitCollectiveSlices demo_comm (demo_task AllReduce 50000) (CollPlan_new 4) False =
       Some ((CollPlan_new 4)\<lparr>pl_slices := pl_slices (CollPlan_new 4) @ S\<rparr>) \<and>
     length (pl_channels plan') = 4"
proof -
  have len: "length (pl_channels (CollPlan_new 4)) = 4" by (simp add: CollPlan_new_def del: upt_Suc)
  then have "length (pl_channels (CollPlan_new 4)) = length (cm_channels demo_comm)" by (simp add: demo_comm_ok(2))
  from static_plan_matches_slices [OF demo_validate demo_comm_ok(1) this] len show ?thesis by auto
qed

definition wire_shape :: "PlanTask \<Rightarrow> CollFunc \<times> nat \<times> nat \<times> nat \<times> DataType \<times> TopologyKind option" where
  "wire_shape t = (pt_func t, pt_elem_count t, pt_chunk_size t, pt_rank_stride t, pt_dtype t, pt_topology t)"

text \<open>
  C20. The slicing does not depend on the rank: two ranks with the same world size and channel count
  that plan a task with the same function, count and type (any buffers, any root) get slice lists of
  the same length with the same element counts, chunk sizes, strides and topologies, so every byte
  count one rank sends is the byte count its peer expects.
\<close>

theorem slices_rank_independent:
  assumes "ValidateCollectiveTask task1 (cm_rank comm1) (cm_world_size comm1)" and "comm_ok comm1"
    and "ValidateCollectiveTask task2 (cm_rank comm2) (cm_world_size comm2)" and "comm_ok comm2"
    and "cm_world_size comm1 = cm_world_size comm2" and "GetNChannels comm1 = GetNChannels comm2"
    and "ct_func task1 = ct_func task2" and "ct_count task1 = ct_count task2" and "ct_dtype task1 = ct_dtype task2"
  shows "map_option (\<lambda>p. map wire_shape (pl_slices p)) (EmitCollectiveSlices comm1 task1 (CollPlan_new n) False) =
         map_option (\<lambda>p. map wire_shape (pl_slices p)) (EmitCollectiveSlices comm2 task2 (CollPlan_new n) False)"
proof -
  have "slice_shape comm1 task1 = slice_shape comm2 task2"
    using assms(5-9) by (simp add: slice_shape_def Let_def)
  then show ?thesis
    using assms(5-9) EmitCollectiveSlices_dynamic [OF assms(1,2) refl] EmitCollectiveSlices_dynamic [OF assms(3,4) refl]
    by (simp add: CollPlan_new_def wire_shape_def make_slice_def Let_def)
qed

theorem slices_rank_independent_witness:
  "map_option (\<lambda>p. map wire_shape (pl_slices p)) (EmitCollectiveSlices demo_comm (demo_task AllReduce 50000) (CollPlan_new 4) False) =
   map_option (\<lambda>p. map wire_shape (pl_slices p)) (EmitCollectiveSlices (demo_comm\<lparr>cm_rank := 1\<rparr>)
     ((demo_task AllReduce 50000)\<lparr>ct_recv_buf := Mem 128\<rparr>) (CollPlan_new 4) False)"
proof -
  have "comm_ok (demo_comm\<lparr>cm_rank := 1\<rparr>)" using demo_comm_ok by (simp add: comm_ok_def demo_comm_def)
  moreover have "ValidateCollectiveTask ((demo_task AllReduce 50000)\<lparr>ct_recv_buf := Mem 128\<rparr>) 1 2"
    by (simp add: demo_task_def CollTask_default_def ValidateCollectiveTask_def SIZE_MAX_def)
  ultimately show ?thesis
    using slices_rank_independent [OF demo_validate demo_comm_ok(1),
        of "(demo_task AllReduce 50000)\<lparr>ct_recv_buf := Mem 128\<rparr>" "demo_comm\<lparr>cm_rank := 1\<rparr>" 4]
    by (simp add: demo_comm_def demo_task_def GetNChannels_def)
qed

end
