(* ===== verification/Occl_Bytes.thy ===== *)
theory Occl_Bytes
  imports Occl_Types
begin

section \<open>Integers as bytes\<close>

text \<open>
  Little-endian byte sequences (the memory layout on the supported x86-64 and aarch64 machines) and
  big-endian ones (network order, what \<open>htonl\<close> followed by a byte copy produces), for naturals and
  words. Both the wire codec of \<open>src/utils.cpp\<close> and the element view of a buffer in the reduction
  kernels rest on these lemmas.
\<close>

primrec nat_to_le :: "nat \<Rightarrow> nat \<Rightarrow> byte list" where
  "nat_to_le 0 x = []"
| "nat_to_le (Suc n) x = word_of_nat x # nat_to_le n (x div 256)"

fun le_to_nat :: "byte list \<Rightarrow> nat" where
  "le_to_nat [] = 0"
| "le_to_nat (b # bs) = unat b + 256 * le_to_nat bs"

lemma length_nat_to_le [simp]: "length (nat_to_le n x) = n"
  by (induction n arbitrary: x) simp_all

lemma unat_byte_less [simp]: "unat (b :: byte) < 256"
  using unsigned_less [of b] by simp

lemma le_to_nat_bound: "le_to_nat bs < 256 ^ length bs"
proof (induction bs)
  case (Cons b bs)
  have "unat b + 256 * le_to_nat bs < 256 + 256 * le_to_nat bs" by simp
  also have "\<dots> \<le> 256 * 256 ^ length bs" using Cons.IH by (simp flip: mult_Suc_right)
  finally show ?case by simp
qed simp

lemma unat_byte_of_nat: "unat (word_of_nat x :: byte) = x mod 256"
  by (simp add: unat_of_nat)

lemma le_to_nat_to_le: "le_to_nat (nat_to_le n x) = x mod 256 ^ n"
proof (induction n arbitrary: x)
  case (Suc n)
  have "x mod 256 ^ Suc n = x mod (256 * 256 ^ n)" by simp
  also have "\<dots> = 256 * (x div 256 mod 256 ^ n) + x mod 256" by (rule mod_mult2_eq)
  finally show ?case using Suc by (simp add: unat_byte_of_nat)
qed simp

lemma nat_to_le_to_nat: "nat_to_le (length bs) (le_to_nat bs) = bs"
proof (induction bs)
  case (Cons b bs)
  have "unat (word_of_nat (unat b + 256 * le_to_nat bs) :: byte) = unat b"
    by (simp only: unat_byte_of_nat) simp
  then have "word_of_nat (unat b + 256 * le_to_nat bs) = b"
    by (simp only: word_unat_eq_iff)
  moreover have "(unat b + 256 * le_to_nat bs) div 256 = le_to_nat bs"
    by simp
  ultimately show ?case using Cons by simp
qed simp

subsection \<open>Words\<close>

definition le32 :: "32 word \<Rightarrow> byte list" where "le32 w = nat_to_le 4 (unat w)"
definition un_le32 :: "byte list \<Rightarrow> 32 word" where "un_le32 bs = word_of_nat (le_to_nat bs)"
definition le64 :: "64 word \<Rightarrow> byte list" where "le64 w = nat_to_le 8 (unat w)"
definition un_le64 :: "byte list \<Rightarrow> 64 word" where "un_le64 bs = word_of_nat (le_to_nat bs)"
definition be32 :: "32 word \<Rightarrow> byte list" where "be32 w = rev (le32 w)"
definition un_be32 :: "byte list \<Rightarrow> 32 word" where "un_be32 bs = un_le32 (rev bs)"

lemma length_le32 [simp]: "length (le32 w) = 4"
  by (simp add: le32_def)

lemma length_le64 [simp]: "length (le64 w) = 8"
  by (simp add: le64_def)

lemma length_be32 [simp]: "length (be32 w) = 4"
  by (simp add: be32_def)

lemma un_le32_le32 [simp]: "un_le32 (le32 w) = w"
proof -
  have "unat w < 2 ^ LENGTH(32)" by (rule unsigned_less)
  then show ?thesis by (simp add: un_le32_def le32_def le_to_nat_to_le)
qed

lemma un_le64_le64 [simp]: "un_le64 (le64 w) = w"
proof -
  have "unat w < 2 ^ LENGTH(64)" by (rule unsigned_less)
  then show ?thesis by (simp add: un_le64_def le64_def le_to_nat_to_le)
qed

lemma un_be32_be32 [simp]: "un_be32 (be32 w) = w"
  by (simp add: un_be32_def be32_def)

lemma le32_un_le32: "length bs = 4 \<Longrightarrow> le32 (un_le32 bs) = bs"
  using le_to_nat_bound [of bs] nat_to_le_to_nat [of bs]
  by (simp add: le32_def un_le32_def unat_of_nat)

lemma le64_un_le64: "length bs = 8 \<Longrightarrow> le64 (un_le64 bs) = bs"
  using le_to_nat_bound [of bs] nat_to_le_to_nat [of bs]
  by (simp add: le64_def un_le64_def unat_of_nat)

subsection \<open>A buffer as a sequence of fixed-size elements\<close>

definition groups :: "nat \<Rightarrow> nat \<Rightarrow> 'a list \<Rightarrow> 'a list list" where
  "groups w n xs = map (\<lambda>i. take w (drop (i * w) xs)) [0..<n]"

lemma length_groups [simp]: "length (groups w n xs) = n"
  by (simp add: groups_def)

lemma nth_groups: "i < n \<Longrightarrow> groups w n xs ! i = take w (drop (i * w) xs)"
  by (simp add: groups_def)

lemma length_nth_groups: "length xs = n * w \<Longrightarrow> i < n \<Longrightarrow> length (groups w n xs ! i) = w"
proof -
  assume "length xs = n * w" and "i < n"
  then have "i * w + w \<le> length xs"
    by (metis Suc_leI add.commute mult_Suc mult_le_mono1)
  then show ?thesis using \<open>i < n\<close> by (simp add: nth_groups)
qed

lemma groups_concat:
  "\<forall>x \<in> set xss. length x = w \<Longrightarrow> groups w (length xss) (concat xss) = xss"
proof (induction xss)
  case (Cons x xss)
  have "groups w (Suc (length xss)) (x @ concat xss) = x # groups w (length xss) (concat xss)"
    using Cons.prems by (simp add: groups_def upt_conv_Cons del: upt_Suc flip: map_Suc_upt)
  with Cons show ?case by simp
qed (simp add: groups_def)

lemma concat_groups: "length xs = n * w \<Longrightarrow> concat (groups w n xs) = xs"
proof (induction n arbitrary: xs)
  case (Suc n)
  have "groups w (Suc n) xs = take w xs # groups w n (drop w xs)"
    by (simp add: groups_def upt_conv_Cons add.commute del: upt_Suc flip: map_Suc_upt)
  with Suc show ?case by simp
qed (simp add: groups_def)

definition elems32 :: "nat \<Rightarrow> byte list \<Rightarrow> 32 word list" where
  "elems32 n bs = map un_le32 (groups 4 n bs)"

definition elems64 :: "nat \<Rightarrow> byte list \<Rightarrow> 64 word list" where
  "elems64 n bs = map un_le64 (groups 8 n bs)"

definition bytes32 :: "32 word list \<Rightarrow> byte list" where
  "bytes32 ws = concat (map le32 ws)"

definition bytes64 :: "64 word list \<Rightarrow> byte list" where
  "bytes64 ws = concat (map le64 ws)"

lemma length_elems [simp]: "length (elems32 n bs) = n" "length (elems64 n bs) = n"
  by (simp_all add: elems32_def elems64_def)

lemma length_bytes32 [simp]: "length (bytes32 ws) = 4 * length ws"
  by (induction ws) (simp_all add: bytes32_def)

lemma length_bytes64 [simp]: "length (bytes64 ws) = 8 * length ws"
  by (induction ws) (simp_all add: bytes64_def)

lemma elems32_bytes32 [simp]: "elems32 (length ws) (bytes32 ws) = ws"
  using groups_concat [of "map le32 ws" 4] by (simp add: elems32_def bytes32_def comp_def)

lemma elems64_bytes64 [simp]: "elems64 (length ws) (bytes64 ws) = ws"
  using groups_concat [of "map le64 ws" 8] by (simp add: elems64_def bytes64_def comp_def)

lemma bytes32_elems32: "length bs = n * 4 \<Longrightarrow> bytes32 (elems32 n bs) = bs"
proof -
  assume *: "length bs = n * 4"
  have "map (\<lambda>g. le32 (un_le32 g)) (groups 4 n bs) = groups 4 n bs"
    using length_nth_groups [OF *] by (metis in_set_conv_nth length_groups le32_un_le32 map_idI)
  with * show ?thesis by (simp add: bytes32_def elems32_def comp_def concat_groups)
qed

lemma bytes64_elems64: "length bs = n * 8 \<Longrightarrow> bytes64 (elems64 n bs) = bs"
proof -
  assume *: "length bs = n * 8"
  have "map (\<lambda>g. le64 (un_le64 g)) (groups 8 n bs) = groups 8 n bs"
    using length_nth_groups [OF *] by (metis in_set_conv_nth length_groups le64_un_le64 map_idI)
  with * show ?thesis by (simp add: bytes64_def elems64_def comp_def concat_groups)
qed

end
