(* ===== verification/Occl_P2p_Plan.thy ===== *)
theory Occl_P2p_Plan
  imports Occl_Planner Occl_Bytes
begin

section \<open>Planner: point-to-point connections and the whole plan\<close>

text \<open>
  The rest of \<open>src/planner.cpp\<close>: \<open>ValidateP2p\<close>, the connection setup of a P2P round (\<open>ConnectP2p\<close>,
  \<open>AcceptP2pOne\<close>, \<open>PrepareRound\<close>), \<open>PlanP2pRound\<close> and \<open>Plan\<close>. Transport objects are used here only
  through their virtual functions: these are the fields of a record over the world \<open>'e\<close>, and a
  handle \<open>0\<close> is the null pointer. The result \<^term>\<open>None\<close> stands for a C++ exception
  (\<open>channels.at\<close>), an access outside a vector, or a call that does not return.
\<close>

datatype TransportKind = KindTCP | KindShm | KindRDMA | KindRDMAZc

datatype PollEvent = NoEvent | ReadyEvent | ErrorEvent

record 'e net_ops =
  no_new :: "TransportKind \<Rightarrow> 'e \<Rightarrow> transport_ref \<times> 'e"
  no_set_direction :: "transport_ref \<Rightarrow> TransportDirection \<Rightarrow> 'e \<Rightarrow> 'e"
  no_connect :: "transport_ref \<Rightarrow> byte list \<Rightarrow> 16 word \<Rightarrow> 'e \<Rightarrow> bool \<times> 'e"
  no_close :: "transport_ref \<Rightarrow> 'e \<Rightarrow> 'e"
  no_send :: "transport_ref \<Rightarrow> byte list \<Rightarrow> 'e \<Rightarrow> bool \<times> 'e"
  no_recv :: "transport_ref \<Rightarrow> nat \<Rightarrow> 'e \<Rightarrow> byte list option \<times> 'e"
  no_accept :: "transport_ref \<Rightarrow> 'e \<Rightarrow> transport_ref \<times> 'e"
  no_poll :: "transport_ref list \<Rightarrow> 'e \<Rightarrow> PollEvent list option \<times> 'e"

text \<open>
  \<open>no_poll\<close> is \<open>poll\<close> with its loop that repeats it on \<open>EINTR\<close>; \<^term>\<open>None\<close> is a negative result.
  \<open>no_close\<close> is \<open>Close\<close>, which the destructor of a dropped transport calls too.
\<close>

definition drop_transport :: "'e net_ops \<Rightarrow> transport_ref \<Rightarrow> 'e \<Rightarrow> 'e" where
  "drop_transport ops tr e = (if tr = 0 then e else no_close ops tr e)"

definition kP2pSendChannel :: int where "kP2pSendChannel = 0"
definition kP2pRecvChannel :: int where "kP2pRecvChannel = 1"

subsection \<open>Strings\<close>

definition chars :: "string \<Rightarrow> byte list" where
  "chars s = map of_char s"

fun decimal :: "nat \<Rightarrow> byte list" where
  "decimal n = (if n < 10 then [word_of_nat (48 + n)] else decimal (n div 10) @ [word_of_nat (48 + n mod 10)])"

text \<open>\<open>RendezvousPath\<close> of \<open>src/communicator.cpp\<close>.\<close>

definition RendezvousPath :: "16 word \<Rightarrow> int \<Rightarrow> byte list" where
  "RendezvousPath port rank =
     chars ''/tmp/originccl'' @ chars ''/'' @ decimal (unat port) @ chars ''-'' @ decimal (nat rank) @ chars ''.sock''"

subsection \<open>Choice of the transport\<close>

definition same_machine :: "Comm \<Rightarrow> int \<Rightarrow> bool" where
  "same_machine comm peer \<longleftrightarrow>
     ni_hostname (cm_all_nodes comm ! nat (cm_rank comm)) = ni_hostname (cm_all_nodes comm ! nat peer)"

definition p2p_use_shm :: "Comm \<Rightarrow> int \<Rightarrow> bool" where
  "p2p_use_shm comm peer \<longleftrightarrow> same_machine comm peer \<and> cm_use_shm comm"

definition p2p_use_rdma :: "Comm \<Rightarrow> int \<Rightarrow> bool" where
  "p2p_use_rdma comm peer \<longleftrightarrow> \<not> p2p_use_shm comm peer \<and> (\<not> same_machine comm peer \<or> cm_rdma_ready comm)"

definition ValidateP2p :: "Comm \<Rightarrow> CollTask \<Rightarrow> bool" where
  "ValidateP2p comm task =
     (let type_size = GetDataTypeSize (ct_dtype task); peer = ct_peer task; is_send = (ct_func task = Send) in
      if peer < 0 \<or> peer \<ge> cm_world_size comm \<or> peer = cm_rank comm then False
      else if ct_count task \<noteq> 0 \<and>
              ((if is_send then ct_send_buf task else ct_recv_buf task) = NullPtr \<or> type_size = 0 \<or>
               ct_count task > SIZE_MAX div type_size) then False
      else if ct_count task \<noteq> 0 then
        \<not> (p2p_use_rdma comm peer \<and> \<not> IsTransferSizeSupported (size_mul (ct_count task) type_size))
      else True)"

definition P2pUsable :: "Comm \<Rightarrow> int \<Rightarrow> bool" where
  "P2pUsable comm peer =
     (let local_node = cm_all_nodes comm ! nat (cm_rank comm); peer_node = cm_all_nodes comm ! nat peer in
      \<not> (p2p_use_rdma comm peer \<and> (ni_p2p_rdma_port local_node = 0 \<or> ni_p2p_rdma_port peer_node = 0)))"

subsection \<open>Connecting\<close>

definition send_p2p_of :: "Comm \<Rightarrow> Connector list option" where
  "send_p2p_of comm = map_option ch_send_p2p (GetChannel comm kP2pSendChannel)"

definition recv_p2p_of :: "Comm \<Rightarrow> Connector list option" where
  "recv_p2p_of comm = map_option ch_recv_p2p (GetChannel comm kP2pRecvChannel)"

definition bind_send_p2p :: "nat \<Rightarrow> transport_ref \<Rightarrow> Comm \<Rightarrow> Comm" where
  "bind_send_p2p peer tr comm =
     (let ch = cm_channels comm ! 0 in
      comm\<lparr>cm_channels := (cm_channels comm)[0 := ch\<lparr>ch_send_p2p :=
        (ch_send_p2p ch)[peer := (ch_send_p2p ch ! peer)\<lparr>cn_transport := tr\<rparr>]\<rparr>]\<rparr>)"

definition bind_recv_p2p :: "nat \<Rightarrow> transport_ref \<Rightarrow> Comm \<Rightarrow> Comm" where
  "bind_recv_p2p peer tr comm =
     (let ch = cm_channels comm ! 1 in
      comm\<lparr>cm_channels := (cm_channels comm)[1 := ch\<lparr>ch_recv_p2p :=
        (ch_recv_p2p ch)[peer := (ch_recv_p2p ch ! peer)\<lparr>cn_transport := tr\<rparr>]\<rparr>]\<rparr>)"

text \<open>Kind, address and port under which \<open>ConnectP2p\<close> reaches a peer.\<close>

definition p2p_target :: "Comm \<Rightarrow> int \<Rightarrow> TransportKind \<times> byte list \<times> 16 word" where
  "p2p_target comm peer =
     (let peer_node = cm_all_nodes comm ! nat peer in
      if p2p_use_shm comm peer
      then (KindShm, chars ''/tmp/originccl/'' @ decimal (unat (cm_unique_port comm)) @ chars ''-'' @
              decimal (nat peer) @ chars ''.sock.p2p'', 0)
      else if p2p_use_rdma comm peer then (KindRDMAZc, ni_rdma_addr peer_node, ni_p2p_rdma_port peer_node)
      else (KindTCP, ni_ip_addr peer_node, ni_p2p_port peer_node))"

definition ConnectP2p :: "'e net_ops \<Rightarrow> int \<Rightarrow> Comm \<times> 'e \<Rightarrow> (bool \<times> Comm \<times> 'e) option" where
  "ConnectP2p ops peer s =
     (case s of (comm, e) \<Rightarrow>
      if \<not> P2pUsable comm peer then Some (False, s)
      else (case send_p2p_of comm of
        None \<Rightarrow> None
      | Some conns \<Rightarrow>
          if peer < 0 \<or> nat peer \<ge> length conns then None
          else if cn_transport (conns ! nat peer) \<noteq> 0 then Some (True, s)
          else (case p2p_target comm peer of
            (kind, addr, port) \<Rightarrow>
              (case no_new ops kind e of
                 (tr, e1) \<Rightarrow>
                   (case no_connect ops tr addr port (no_set_direction ops tr DirSend e1) of
                      (False, e2) \<Rightarrow> Some (False, comm, no_close ops tr e2)
                    | (True, e2) \<Rightarrow>
                        (case no_send ops tr (le32 (word_of_int (cm_rank comm))) e2 of
                           (False, e3) \<Rightarrow> Some (False, comm, no_close ops tr e3)
                         | (True, e3) \<Rightarrow> Some (True, bind_send_p2p (nat peer) tr comm, e3)))))))"

text \<open>One accepted connection: its first message is the rank of the source.\<close>

definition accept_source :: "'e net_ops \<Rightarrow> transport_ref \<Rightarrow> Comm \<times> 'e \<Rightarrow> (bool \<times> Comm \<times> 'e) option" where
  "accept_source ops listener s =
     (case s of (comm, e) \<Rightarrow>
       (case no_accept ops listener e of
          (tr, e1) \<Rightarrow>
            if tr = 0 then Some (False, comm, e1)
            else (case no_recv ops tr 4 e1 of
              (None, e2) \<Rightarrow> Some (False, comm, no_close ops tr e2)
            | (Some bs, e2) \<Rightarrow>
                let source = sint (un_le32 bs); e3 = no_set_direction ops tr DirReceive e2 in
                (case recv_p2p_of comm of
                   None \<Rightarrow> None
                 | Some conns \<Rightarrow>
                     if source < 0 \<or> nat source \<ge> length conns then None
                     else Some (True, bind_recv_p2p (nat source) tr comm,
                       drop_transport ops (cn_transport (conns ! nat source)) e3)))))"

text \<open>The loop over the polled listeners.\<close>

fun accept_ready :: "'e net_ops \<Rightarrow> (transport_ref \<times> PollEvent) list \<Rightarrow> Comm \<times> 'e \<Rightarrow> (bool \<times> Comm \<times> 'e) option" where
  "accept_ready ops [] s = Some (True, s)"
| "accept_ready ops ((l, ev) # ls) s =
     (case ev of
        NoEvent \<Rightarrow> accept_ready ops ls s
      | ErrorEvent \<Rightarrow> Some (False, s)
      | ReadyEvent \<Rightarrow>
          (case accept_source ops l s of
             None \<Rightarrow> None
           | Some (False, s') \<Rightarrow> Some (False, s')
           | Some (True, s') \<Rightarrow> accept_ready ops ls s'))"

definition p2p_recv_bound :: "Comm \<Rightarrow> int \<Rightarrow> bool" where
  "p2p_recv_bound comm peer \<longleftrightarrow> cn_transport (ch_recv_p2p (cm_channels comm ! 1) ! nat peer) \<noteq> 0"

definition p2p_send_bound :: "Comm \<Rightarrow> int \<Rightarrow> bool" where
  "p2p_send_bound comm peer \<longleftrightarrow> cn_transport (ch_send_p2p (cm_channels comm ! 0) ! nat peer) \<noteq> 0"

partial_function (option) accept_until :: "'e net_ops \<Rightarrow> int \<Rightarrow> Comm \<times> 'e \<Rightarrow> (bool \<times> Comm \<times> 'e) option" where
  "accept_until ops peer s =
     (if p2p_recv_bound (fst s) peer then Some (True, s)
      else (case no_poll ops (cm_p2p_listeners (fst s)) (snd s) of
              (None, e) \<Rightarrow> Some (False, fst s, e)
            | (Some evs, e) \<Rightarrow>
                (case accept_ready ops (zip (cm_p2p_listeners (fst s)) evs) (fst s, e) of
                   None \<Rightarrow> None
                 | Some (ok, s') \<Rightarrow> if ok then accept_until ops peer s' else Some (False, s'))))"

definition AcceptP2pOne :: "'e net_ops \<Rightarrow> int \<Rightarrow> Comm \<times> 'e \<Rightarrow> (bool \<times> Comm \<times> 'e) option" where
  "AcceptP2pOne ops peer s =
     (if \<not> P2pUsable (fst s) peer then Some (False, s)
      else (case recv_p2p_of (fst s) of
        None \<Rightarrow> None
      | Some conns \<Rightarrow>
          if peer < 0 \<or> nat peer \<ge> length conns then None
          else if cn_transport (conns ! nat peer) \<noteq> 0 then Some (True, s)
          else accept_until ops peer s))"

subsection \<open>Preparing a round\<close>

text \<open>
  The two threads of \<open>PrepareRound\<close>: each handles its peers in order and stops when the shared flag
  \<open>error\<close> is set. \<open>sched\<close> says which of them goes next (\<^term>\<open>True\<close>: the connecting one); when it is
  exhausted, the connecting thread runs first. A call that is under way when the other thread fails
  is one that the schedule puts before the failure.
\<close>

fun run_threads :: "'e net_ops \<Rightarrow> bool list \<Rightarrow> int list \<Rightarrow> int list \<Rightarrow> Comm \<times> 'e \<Rightarrow> (bool \<times> Comm \<times> 'e) option" where
  "run_threads ops sched [] [] s = Some (True, s)"
| "run_threads ops sched (p # ps) qs s =
     (if qs \<noteq> [] \<and> sched \<noteq> [] \<and> \<not> hd sched then
        (case AcceptP2pOne ops (hd qs) s of
           None \<Rightarrow> None
         | Some (False, s') \<Rightarrow> Some (False, s')
         | Some (True, s') \<Rightarrow> run_threads ops (tl sched) (p # ps) (tl qs) s')
      else
        (case ConnectP2p ops p s of
           None \<Rightarrow> None
         | Some (False, s') \<Rightarrow> Some (False, s')
         | Some (True, s') \<Rightarrow> run_threads ops (tl sched) ps qs s'))"
| "run_threads ops sched [] (q # qs) s =
     (case AcceptP2pOne ops q s of
        None \<Rightarrow> None
      | Some (False, s') \<Rightarrow> Some (False, s')
      | Some (True, s') \<Rightarrow> run_threads ops (tl sched) [] qs s')"

definition round_peers :: "CollTask list \<Rightarrow> int list" where
  "round_peers tasks = remdups_adj (sort (map ct_peer (filter (\<lambda>t. ct_count t \<noteq> 0) tasks)))"

definition unconnected :: "Connector list \<Rightarrow> int list \<Rightarrow> int list" where
  "unconnected conns peers = filter (\<lambda>p. cn_transport (conns ! nat p) = 0) peers"

definition PrepareRound ::
  "'e net_ops \<Rightarrow> bool list \<Rightarrow> CollTask list \<Rightarrow> CollTask list \<Rightarrow> Comm \<times> 'e \<Rightarrow> (bool \<times> Comm \<times> 'e) option" where
  "PrepareRound ops sched sends recvs s =
     (case (send_p2p_of (fst s), recv_p2p_of (fst s)) of
        (Some sc, Some rc) \<Rightarrow>
          let send_peers = unconnected sc (round_peers sends); recv_peers = unconnected rc (round_peers recvs) in
          run_threads ops (if send_peers \<noteq> [] \<and> recv_peers \<noteq> [] then sched else []) send_peers recv_peers s
      | _ \<Rightarrow> None)"

subsection \<open>The plan\<close>

definition p2p_task :: "Comm \<Rightarrow> CollTask \<Rightarrow> int \<Rightarrow> PlanTask" where
  "p2p_task comm task channel_id =
     PlanTask_default\<lparr>pt_func := ct_func task, pt_send_buf := ct_send_buf task, pt_recv_buf := ct_recv_buf task,
       pt_elem_count := ct_count task, pt_dtype := ct_dtype task, pt_peer := ct_peer task, pt_channel_id := channel_id,
       pt_rank := cm_rank comm, pt_world_size := cm_world_size comm, pt_topology := Some P2pTopology\<rparr>"

text \<open>The lambda \<open>append\<close> of \<open>PlanP2pRound\<close>.\<close>

definition append_p2p :: "Comm \<Rightarrow> int \<Rightarrow> CollTask \<Rightarrow> CollPlan \<Rightarrow> CollPlan option" where
  "append_p2p comm channel_id task plan =
     (case GetChannel comm channel_id of
        None \<Rightarrow> None
      | Some ch \<Rightarrow>
          (case P2p_FillTransports ch (p2p_task comm task channel_id) of
             None \<Rightarrow> None
           | Some t \<Rightarrow> push_task plan (nat channel_id) t))"

definition in_round :: "Comm \<Rightarrow> int \<Rightarrow> CollFunc \<Rightarrow> CollTask \<Rightarrow> bool" where
  "in_round comm round func task \<longleftrightarrow>
     ct_func task = func \<and> P2pRoundOf func (cm_rank comm) (ct_peer task) (cm_world_size comm) = round"

text \<open>
  The outer \<^term>\<open>None\<close> is a program that does not go on (an exception of \<open>channels.at\<close>, a poll loop that
  never sees the peer), the inner one is \<open>return false\<close>: the state then keeps what was connected so far.
\<close>

definition PlanP2pRound ::
  "'e net_ops \<Rightarrow> bool list \<Rightarrow> CollTask list \<Rightarrow> int \<Rightarrow> CollPlan \<Rightarrow> Comm \<times> 'e \<Rightarrow> (CollPlan option \<times> Comm \<times> 'e) option" where
  "PlanP2pRound ops sched tasks round plan s =
     (let sends = filter (in_round (fst s) round Send) tasks; recvs = filter (in_round (fst s) round Recv) tasks in
      if sends = [] \<and> recvs = [] then Some (Some plan, s)
      else (case PrepareRound ops sched sends recvs s of
        None \<Rightarrow> None
      | Some (False, s') \<Rightarrow> Some (None, s')
      | Some (True, comm', e') \<Rightarrow>
          map_option (\<lambda>p. (Some p, comm', e'))
            (Option.bind (for_opt (append_p2p comm' kP2pSendChannel) sends plan)
               (for_opt (append_p2p comm' kP2pRecvChannel) recvs))))"

fun plan_rounds ::
  "'e net_ops \<Rightarrow> (int \<Rightarrow> bool list) \<Rightarrow> CollTask list \<Rightarrow> int list \<Rightarrow> CollPlan \<Rightarrow> Comm \<times> 'e \<Rightarrow> (CollPlan option \<times> Comm \<times> 'e) option" where
  "plan_rounds ops sched tasks [] plan s = Some (Some plan, s)"
| "plan_rounds ops sched tasks (r # rs) plan s =
     (case PlanP2pRound ops (sched r) tasks r plan s of
        None \<Rightarrow> None
      | Some (None, s') \<Rightarrow> Some (None, s')
      | Some (Some plan', s') \<Rightarrow> plan_rounds ops sched tasks rs plan' s')"

definition validate_task :: "Comm \<Rightarrow> CollTask \<Rightarrow> bool" where
  "validate_task comm task =
     (if IsP2p (ct_func task) then ValidateP2p comm task
      else ValidateCollectiveTask task (cm_rank comm) (cm_world_size comm))"

text \<open>\<open>Plan\<close>; \<open>sched\<close> gives the thread schedule of each round.\<close>

definition Plan ::
  "'e net_ops \<Rightarrow> (int \<Rightarrow> bool list) \<Rightarrow> CollTask list \<Rightarrow> bool \<Rightarrow> Comm \<times> 'e \<Rightarrow> (CollPlan option \<times> Comm \<times> 'e) option" where
  "Plan ops sched tasks dynamic s =
     (let comm = fst s in
      if \<not> list_all (validate_task comm) tasks then Some (None, s)
      else
        let plan = CollPlan_new (GetNChannels comm) in
        if dynamic then
          map_option (\<lambda>p. (Some p, s)) (for_opt (\<lambda>task p. EmitCollectiveSlices comm task p False) tasks plan)
        else
          Option.bind (for_opt (PlanCollective comm) (filter (\<lambda>t. \<not> IsP2p (ct_func t)) tasks) plan)
            (\<lambda>p. plan_rounds ops sched tasks (map int [1..<nat (cm_world_size comm)]) p s))"

end
