(* ===== verification/Occl_Connect.thy ===== *)
theory Occl_Connect
  imports Occl_P2p_Plan
begin

section \<open>Communicator: the data-plane connections\<close>

text \<open>
  \<open>FindConnector\<close>, \<open>InitChannels\<close>, \<open>ConnectActiveEdges\<close> and \<open>AcceptPassiveEdges\<close> of
  \<open>src/communicator.cpp\<close>. Every rank computes the edges of its channels, connects those to higher ranks
  and accepts those from lower ranks; the first message on a connection is the \<open>ConnHandshake\<close> that
  tells the accepting side which connector it is for. \<open>Init\<close> passes the fields \<open>all_nodes_\<close>,
  \<open>use_shm_\<close> and \<open>rdma_ready_\<close> as arguments: the model reads the fields.
\<close>

definition kConnectRetryCount :: nat where "kConnectRetryCount = 5"

record ConnHandshake =
  hs_rank :: "32 word"
  hs_channel_id :: "32 word"
  hs_is_send :: "32 word"

record ChannelEdge =
  ce_channel_id :: int
  ce_peer :: int
  ce_is_send :: bool

text \<open>The struct as its 12 bytes of memory.\<close>

definition handshake_bytes :: "ConnHandshake \<Rightarrow> byte list" where
  "handshake_bytes h = le32 (hs_rank h) @ le32 (hs_channel_id h) @ le32 (hs_is_send h)"

definition handshake_of :: "byte list \<Rightarrow> ConnHandshake" where
  "handshake_of bs = \<lparr>hs_rank = un_le32 (take 4 bs), hs_channel_id = un_le32 (take 4 (drop 4 bs)),
     hs_is_send = un_le32 (take 4 (drop 8 bs))\<rparr>"

lemma handshake_of_bytes [simp]: "handshake_of (handshake_bytes h) = h"
  by (simp add: handshake_of_def handshake_bytes_def)

subsection \<open>Connectors\<close>

definition FindConnector :: "Comm \<Rightarrow> int \<Rightarrow> int \<Rightarrow> bool \<Rightarrow> Connector option" where
  "FindConnector comm channel_id peer is_send =
     (if channel_id < 0 \<or> channel_id \<ge> int (length (cm_channels comm)) then None
      else let channel = cm_channels comm ! nat channel_id in
        if is_send then SendConnector channel peer else RecvConnector channel peer)"

text \<open>\<open>connector->transport = transport\<close> for the connector that \<open>FindConnector\<close> points to.\<close>

definition set_transport :: "transport_ref \<Rightarrow> nat \<Rightarrow> Connector list \<Rightarrow> Connector list" where
  "set_transport tr i cs = cs[i := (cs ! i)\<lparr>cn_transport := tr\<rparr>]"

definition bind_connector :: "int \<Rightarrow> int \<Rightarrow> bool \<Rightarrow> transport_ref \<Rightarrow> Comm \<Rightarrow> Comm" where
  "bind_connector channel_id peer is_send tr comm =
     (let ch = cm_channels comm ! nat channel_id;
          ch' = (if is_send then ch\<lparr>ch_send := set_transport tr (nat peer) (ch_send ch)\<rparr>
                 else ch\<lparr>ch_recv := set_transport tr (nat peer) (ch_recv ch)\<rparr>)
      in comm\<lparr>cm_channels := (cm_channels comm)[nat channel_id := ch']\<rparr>)"

subsection \<open>The edges of a rank\<close>

text \<open>Ring and tree peers of a channel, sorted, without duplicates and without the rank itself.\<close>

definition channel_edges :: "Comm \<Rightarrow> Channel \<Rightarrow> ChannelEdge list" where
  "channel_edges comm channel =
     (let peers = remdups_adj (sort_key (\<lambda>e. (te_peer e, te_is_send e)) (Ring_FillPeers channel @ Tree_FillPeers channel))
      in map (\<lambda>p. \<lparr>ce_channel_id = ch_id channel, ce_peer = te_peer p, ce_is_send = te_is_send p\<rparr>)
           (filter (\<lambda>p. \<not> (te_peer p < 0 \<or> te_peer p \<ge> cm_world_size comm \<or> te_peer p = cm_rank comm)) peers))"

definition connect_edges :: "Comm \<Rightarrow> ChannelEdge list" where
  "connect_edges comm = filter (\<lambda>e. cm_rank comm < ce_peer e) (concat (map (channel_edges comm) (cm_channels comm)))"

definition accept_edges :: "Comm \<Rightarrow> ChannelEdge list" where
  "accept_edges comm = filter (\<lambda>e. \<not> cm_rank comm < ce_peer e) (concat (map (channel_edges comm) (cm_channels comm)))"

subsection \<open>Connecting\<close>

definition active_target :: "Comm \<Rightarrow> ChannelEdge \<Rightarrow> TransportKind \<times> byte list \<times> 16 word" where
  "active_target comm edge =
     (let peer_info = cm_all_nodes comm ! nat (ce_peer edge) in
      if cm_use_shm comm \<and> ni_hostname peer_info = ni_hostname (cm_all_nodes comm ! nat (cm_rank comm))
      then (KindShm, RendezvousPath (cm_unique_port comm) (ce_peer edge), 0)
      else if cm_rdma_ready comm then (KindRDMA, ni_rdma_addr peer_info, ni_rdma_port peer_info)
      else (KindTCP, ni_ip_addr peer_info, ni_data_port peer_info))"

text \<open>The retry loop; the argument counts the attempts that are left.\<close>

fun connect_attempts :: "'e net_ops \<Rightarrow> transport_ref \<Rightarrow> byte list \<Rightarrow> 16 word \<Rightarrow> nat \<Rightarrow> 'e \<Rightarrow> bool \<times> 'e" where
  "connect_attempts ops tr addr port 0 e = (False, e)"
| "connect_attempts ops tr addr port (Suc n) e =
     (case no_connect ops tr addr port e of
        (True, e1) \<Rightarrow> (True, e1)
      | (False, e1) \<Rightarrow> connect_attempts ops tr addr port n (no_close ops tr e1))"

definition edge_handshake :: "Comm \<Rightarrow> ChannelEdge \<Rightarrow> ConnHandshake" where
  "edge_handshake comm edge =
     \<lparr>hs_rank = word_of_int (cm_rank comm), hs_channel_id = word_of_int (ce_channel_id edge),
      hs_is_send = (if ce_is_send edge then 1 else 0)\<rparr>"

text \<open>One iteration of \<open>ConnectActiveEdges\<close>; \<^term>\<open>None\<close> is an index outside \<open>all_nodes\<close>.\<close>

definition connect_edge :: "'e net_ops \<Rightarrow> ChannelEdge \<Rightarrow> Comm \<times> 'e \<Rightarrow> (bool \<times> Comm \<times> 'e) option" where
  "connect_edge ops edge s =
     (case s of (comm, e) \<Rightarrow>
      if nat (ce_peer edge) \<ge> length (cm_all_nodes comm) \<or> nat (cm_rank comm) \<ge> length (cm_all_nodes comm) then None
      else (case active_target comm edge of
        (kind, addr, port) \<Rightarrow>
          (case no_new ops kind e of
             (tr, e1) \<Rightarrow>
               (case connect_attempts ops tr addr port kConnectRetryCount
                       (no_set_direction ops tr (if ce_is_send edge then DirSend else DirReceive) e1) of
                  (False, e2) \<Rightarrow> Some (False, comm, no_close ops tr e2)
                | (True, e2) \<Rightarrow>
                    (case no_send ops tr (handshake_bytes (edge_handshake comm edge)) e2 of
                       (False, e3) \<Rightarrow> Some (False, comm, no_close ops tr e3)
                     | (True, e3) \<Rightarrow>
                         (case FindConnector comm (ce_channel_id edge) (ce_peer edge) (ce_is_send edge) of
                            None \<Rightarrow> Some (False, comm, no_close ops tr e3)
                          | Some conn \<Rightarrow>
                              Some (True, bind_connector (ce_channel_id edge) (ce_peer edge) (ce_is_send edge) tr comm,
                                drop_transport ops (cn_transport conn) e3)))))))"

subsection \<open>Accepting\<close>

text \<open>The connector an accepted handshake names: the other direction of the peer's edge.\<close>

definition handshake_target :: "ConnHandshake \<Rightarrow> int \<times> int \<times> bool" where
  "handshake_target h = (sint (hs_channel_id h), sint (hs_rank h), hs_is_send h = 0)"

text \<open>One iteration of \<open>AcceptPassiveEdges\<close>: the first listener with an event gives the connection.\<close>

definition accept_edge :: "'e net_ops \<Rightarrow> transport_ref list \<Rightarrow> Comm \<times> 'e \<Rightarrow> bool \<times> Comm \<times> 'e" where
  "accept_edge ops listeners s =
     (case s of (comm, e) \<Rightarrow>
       (case no_poll ops listeners e of
          (None, e1) \<Rightarrow> (False, comm, e1)
        | (Some evs, e1) \<Rightarrow>
            (case find (\<lambda>(l, ev). ev \<noteq> NoEvent) (zip listeners evs) of
               Some (l, ReadyEvent) \<Rightarrow>
                 (case no_accept ops l e1 of
                    (tr, e2) \<Rightarrow>
                      if tr = 0 then (False, comm, e2)
                      else (case no_recv ops tr 12 e2 of
                        (None, e3) \<Rightarrow> (False, comm, no_close ops tr e3)
                      | (Some bs, e3) \<Rightarrow>
                          (case handshake_target (handshake_of bs) of
                             (channel_id, peer, local_is_send) \<Rightarrow>
                               (case FindConnector comm channel_id peer local_is_send of
                                  None \<Rightarrow> (False, comm, no_close ops tr e3)
                                | Some conn \<Rightarrow>
                                    (True, bind_connector channel_id peer local_is_send tr comm,
                                     drop_transport ops (cn_transport conn)
                                       (no_set_direction ops tr (if local_is_send then DirSend else DirReceive) e3))))))
             | _ \<Rightarrow> (False, comm, e1))))"

subsection \<open>Both threads\<close>

text \<open>
  The connecting and the accepting thread share the flag \<open>error_occurred\<close>, which either looks at before
  its next edge and sets when an edge fails. As for a P2P round, \<open>sched\<close> says whose turn it is
  (\<^term>\<open>True\<close>: the connecting thread); the two write disjoint connectors.
\<close>

fun run_init ::
  "'e net_ops \<Rightarrow> transport_ref list \<Rightarrow> bool list \<Rightarrow> ChannelEdge list \<Rightarrow> nat \<Rightarrow> Comm \<times> 'e \<Rightarrow> (bool \<times> Comm \<times> 'e) option" where
  "run_init ops ls sched [] 0 s = Some (True, s)"
| "run_init ops ls sched (x # xs) n s =
     (if n \<noteq> 0 \<and> sched \<noteq> [] \<and> \<not> hd sched then
        (case accept_edge ops ls s of
           (False, s') \<Rightarrow> Some (False, s')
         | (True, s') \<Rightarrow> run_init ops ls (tl sched) (x # xs) (n - 1) s')
      else
        (case connect_edge ops x s of
           None \<Rightarrow> None
         | Some (False, s') \<Rightarrow> Some (False, s')
         | Some (True, s') \<Rightarrow> run_init ops ls (tl sched) xs n s'))"
| "run_init ops ls sched [] (Suc n) s =
     (case accept_edge ops ls s of
        (False, s') \<Rightarrow> Some (False, s')
      | (True, s') \<Rightarrow> run_init ops ls (tl sched) [] n s')"

definition InitChannels ::
  "'e net_ops \<Rightarrow> bool list \<Rightarrow> transport_ref list \<Rightarrow> Comm \<times> 'e \<Rightarrow> (bool \<times> Comm \<times> 'e) option" where
  "InitChannels ops sched listeners s =
     map_option (\<lambda>(ok, comm, e). (ok, comm, fold (no_close ops) listeners e))
       (run_init ops listeners sched (connect_edges (fst s)) (length (accept_edges (fst s))) s)"

end
