(* ===== verification/Occl_Codec.thy ===== *)
theory Occl_Codec
  imports Occl_Bytes
begin

section \<open>Wire codec\<close>

text \<open>
  \<open>Utils::EncodeInt\<close>, \<open>EncodeString\<close>, \<open>EncodeNodeInfo\<close> and their decoders (\<open>src/utils.cpp\<close>). An
  encoder appends to the buffer it is given; a decoder reads at an offset and advances it. The
  decoders check no bounds: a read behind the end of the buffer, or a negative string length (for
  which the \<open>std::string\<close> constructor throws), is \<^term>\<open>None\<close>.

  The locale \<open>codec\<close> is the contract of such a pair; its interpretations on the three pairs of the
  program carry the round trip of the node list that the bootstrap sends.
\<close>

definition EncodeInt :: "byte list \<Rightarrow> int \<Rightarrow> byte list" where
  "EncodeInt buffer v = buffer @ be32 (word_of_int v)"

definition DecodeInt :: "byte list \<Rightarrow> nat \<Rightarrow> (int \<times> nat) option" where
  "DecodeInt buffer offset =
     (if offset + 4 \<le> length buffer
      then Some (sint (un_be32 (take 4 (drop offset buffer))), offset + 4) else None)"

definition EncodeString :: "byte list \<Rightarrow> byte list \<Rightarrow> byte list" where
  "EncodeString buffer str = EncodeInt buffer (int (length str)) @ str"

definition DecodeString :: "byte list \<Rightarrow> nat \<Rightarrow> (byte list \<times> nat) option" where
  "DecodeString buffer offset =
     (case DecodeInt buffer offset of
        None \<Rightarrow> None
      | Some (len, off) \<Rightarrow>
          if len < 0 \<or> off + nat len > length buffer then None
          else Some (take (nat len) (drop off buffer), off + nat len))"

definition EncodeNodeInfo :: "byte list \<Rightarrow> NodeInfo \<Rightarrow> byte list" where
  "EncodeNodeInfo buffer node =
     (let b1 = EncodeInt buffer (ni_rank node);
          b2 = EncodeString b1 (ni_ip_addr node);
          b3 = EncodeInt b2 (uint (ni_data_port node));
          b4 = EncodeString b3 (ni_hostname node);
          b5 = EncodeString b4 (ni_rdma_addr node);
          b6 = EncodeInt b5 (uint (ni_rdma_port node));
          b7 = EncodeInt b6 (uint (ni_p2p_port node))
      in EncodeInt b7 (uint (ni_p2p_rdma_port node)))"

definition DecodeNodeInfo :: "byte list \<Rightarrow> nat \<Rightarrow> (NodeInfo \<times> nat) option" where
  "DecodeNodeInfo buffer o0 =
     Option.bind (DecodeInt buffer o0) (\<lambda>(rank, o1).
     Option.bind (DecodeString buffer o1) (\<lambda>(ip_addr, o2).
     Option.bind (DecodeInt buffer o2) (\<lambda>(data_port, o3).
     Option.bind (DecodeString buffer o3) (\<lambda>(hostname, o4).
     Option.bind (DecodeString buffer o4) (\<lambda>(rdma_addr, o5).
     Option.bind (DecodeInt buffer o5) (\<lambda>(rdma_port, o6).
     Option.bind (DecodeInt buffer o6) (\<lambda>(p2p_port, o7).
     Option.bind (DecodeInt buffer o7) (\<lambda>(p2p_rdma_port, o8).
       Some (\<lparr>ni_rank = rank, ni_ip_addr = ip_addr, ni_data_port = word_of_int data_port,
              ni_hostname = hostname, ni_rdma_addr = rdma_addr, ni_rdma_port = word_of_int rdma_port,
              ni_p2p_port = word_of_int p2p_port, ni_p2p_rdma_port = word_of_int p2p_rdma_port\<rparr>, o8)))))))))"

text \<open>The values the wire format can represent.\<close>

definition int32_range :: "int \<Rightarrow> bool" where
  "int32_range v \<longleftrightarrow> - 2147483648 \<le> v \<and> v < 2147483648"

definition string_fits :: "byte list \<Rightarrow> bool" where
  "string_fits s \<longleftrightarrow> length s < 2147483648"

definition node_fits :: "NodeInfo \<Rightarrow> bool" where
  "node_fits n \<longleftrightarrow> int32_range (ni_rank n) \<and> string_fits (ni_ip_addr n) \<and>
     string_fits (ni_hostname n) \<and> string_fits (ni_rdma_addr n)"

subsection \<open>The contract of an encoder and its decoder\<close>

locale codec =
  fixes enc :: "byte list \<Rightarrow> 'a \<Rightarrow> byte list"
    and dec :: "byte list \<Rightarrow> nat \<Rightarrow> ('a \<times> nat) option"
    and ok :: "'a \<Rightarrow> bool"
  assumes enc_appends: "enc buf x = buf @ enc [] x"
    and dec_enc: "ok x \<Longrightarrow> drop off bs = enc [] x @ post \<Longrightarrow> off \<le> length bs \<Longrightarrow>
                  dec bs off = Some (x, off + length (enc [] x))"
begin

lemma dec_next:
  assumes "ok x" and "drop off bs = enc [] x @ post" and "off \<le> length bs"
  shows "dec bs off = Some (x, off + length (enc [] x))"
    and "drop (off + length (enc [] x)) bs = post"
    and "off + length (enc [] x) \<le> length bs"
proof -
  show "dec bs off = Some (x, off + length (enc [] x))" using assms by (rule dec_enc)
  show "drop (off + length (enc [] x)) bs = post"
    using arg_cong [OF assms(2), of "drop (length (enc [] x))"] by (simp add: add.commute)
  show "off + length (enc [] x) \<le> length bs"
    using arg_cong [OF assms(2), of length] assms(3) by simp
qed

lemma dec_after:
  "ok x \<Longrightarrow> dec (enc buf x @ post) (length buf) = Some (x, length (enc buf x))"
  using dec_enc [of x "length buf" "enc buf x @ post" post] enc_appends [of buf x] by simp

text \<open>Decoding a sequence of items that were encoded one after the other.\<close>

lemma enc_list: "foldl enc buf xs = buf @ concat (map (enc []) xs)"
proof (induction xs arbitrary: buf)
  case (Cons x xs)
  then show ?case using enc_appends [of buf x] by simp
qed simp

end

text \<open>\<open>for (i = 0; i < n; ++i) nodes[i] = Decode(buffer, offset);\<close>\<close>

fun decode_list :: "(byte list \<Rightarrow> nat \<Rightarrow> ('a \<times> nat) option) \<Rightarrow> byte list \<Rightarrow> nat \<Rightarrow> nat \<Rightarrow> ('a list \<times> nat) option" where
  "decode_list dec bs off 0 = Some ([], off)"
| "decode_list dec bs off (Suc n) =
     (case dec bs off of
        None \<Rightarrow> None
      | Some (x, off') \<Rightarrow>
          (case decode_list dec bs off' n of None \<Rightarrow> None | Some (xs, off'') \<Rightarrow> Some (x # xs, off'')))"

context codec
begin

lemma decode_list_enc:
  assumes "\<forall>x \<in> set xs. ok x" and "drop off bs = concat (map (enc []) xs) @ post" and "off \<le> length bs"
  shows "decode_list dec bs off (length xs) = Some (xs, off + length (concat (map (enc []) xs)))"
  using assms
proof (induction xs arbitrary: off)
  case (Cons x xs)
  have *: "ok x" "drop off bs = enc [] x @ (concat (map (enc []) xs) @ post)"
    using Cons.prems by simp_all
  note next_item = dec_next [OF * Cons.prems(3)]
  show ?case
    using Cons.IH [OF _ next_item(2,3)] Cons.prems(1) by (simp add: next_item(1))
qed simp

end

subsection \<open>The three pairs\<close>

lemma sint_word_of_int: "int32_range v \<Longrightarrow> sint (word_of_int v :: 32 word) = v"
  by (simp add: int32_range_def sint_sbintrunc' signed_take_bit_int_eq_self)

lemma length_EncodeInt: "length (EncodeInt [] v) = 4"
  by (simp add: EncodeInt_def)

interpretation int_codec: codec EncodeInt DecodeInt int32_range
proof unfold_locales
  fix x off and bs post :: "byte list"
  assume ok: "int32_range x" and d: "drop off bs = EncodeInt [] x @ post" and "off \<le> length bs"
  have "length (drop off bs) = 4 + length post" by (simp add: d length_EncodeInt)
  then have "off + 4 \<le> length bs" by simp
  moreover have "take 4 (drop off bs) = be32 (word_of_int x)"
    using d by (simp add: EncodeInt_def)
  ultimately show "DecodeInt bs off = Some (x, off + length (EncodeInt [] x))"
    using sint_word_of_int [OF ok] by (simp add: DecodeInt_def EncodeInt_def)
qed (simp add: EncodeInt_def)

interpretation string_codec: codec EncodeString DecodeString string_fits
proof unfold_locales
  fix x off and bs post :: "byte list"
  assume ok: "string_fits x" and d: "drop off bs = EncodeString [] x @ post" and le: "off \<le> length bs"
  have *: "int32_range (int (length x))" "drop off bs = EncodeInt [] (int (length x)) @ (x @ post)"
    using ok d by (simp_all add: string_fits_def int32_range_def EncodeString_def)
  note len = int_codec.dec_next [OF * le]
  have "off + length (EncodeInt [] (int (length x))) + length x \<le> length bs"
    using arg_cong [OF len(2), of length] len(3) by simp
  then show "DecodeString bs off = Some (x, off + length (EncodeString [] x))"
    using len(2) by (simp add: DecodeString_def len(1) EncodeString_def)
qed (simp add: EncodeString_def EncodeInt_def)

lemma EncodeNodeInfo_Nil:
  "EncodeNodeInfo [] n = EncodeInt [] (ni_rank n) @ EncodeString [] (ni_ip_addr n) @
     EncodeInt [] (uint (ni_data_port n)) @ EncodeString [] (ni_hostname n) @
     EncodeString [] (ni_rdma_addr n) @ EncodeInt [] (uint (ni_rdma_port n)) @
     EncodeInt [] (uint (ni_p2p_port n)) @ EncodeInt [] (uint (ni_p2p_rdma_port n))"
  by (simp add: EncodeNodeInfo_def Let_def EncodeString_def EncodeInt_def)

lemma port_range: "int32_range (uint (p :: 16 word))"
proof -
  have "uint p < 2 ^ LENGTH(16)" by (rule unsigned_less)
  then have "uint p < 65536" and "0 \<le> uint p" by simp_all
  then show ?thesis unfolding int32_range_def by (intro conjI; linarith)
qed

interpretation node_codec: codec EncodeNodeInfo DecodeNodeInfo node_fits
proof unfold_locales
  fix n off and bs post :: "byte list"
  assume ok: "node_fits n" and d: "drop off bs = EncodeNodeInfo [] n @ post" and le: "off \<le> length bs"
  note ok' = ok [unfolded node_fits_def]
  note d1 = d [unfolded EncodeNodeInfo_Nil append_assoc]
  note s1 = int_codec.dec_next [OF conjunct1 [OF ok'] d1 le]
  note s2 = string_codec.dec_next [OF conjunct1 [OF conjunct2 [OF ok']] s1(2,3)]
  note s3 = int_codec.dec_next [OF port_range s2(2,3)]
  note s4 = string_codec.dec_next [OF conjunct1 [OF conjunct2 [OF conjunct2 [OF ok']]] s3(2,3)]
  note s5 = string_codec.dec_next [OF conjunct2 [OF conjunct2 [OF conjunct2 [OF ok']]] s4(2,3)]
  note s6 = int_codec.dec_next [OF port_range s5(2,3)]
  note s7 = int_codec.dec_next [OF port_range s6(2,3)]
  note s8 = int_codec.dec_next [OF port_range s7(2,3)]
  show "DecodeNodeInfo bs off = Some (n, off + length (EncodeNodeInfo [] n))"
    by (simp add: DecodeNodeInfo_def s1(1) s2(1) s3(1) s4(1) s5(1) s6(1) s7(1) s8(1) EncodeNodeInfo_Nil)
qed (simp add: EncodeNodeInfo_def Let_def EncodeString_def EncodeInt_def)

end
