(* ===== verification/Occl_Bootstrap.thy ===== *)
theory Occl_Bootstrap
  imports Occl_Codec
begin

section \<open>Framed messages over sockets and the bootstrap\<close>

text \<open>
  \<open>Utils::SendAll\<close>, \<open>Utils::RecvAll\<close>, \<open>Utils::CreateConnectSocket\<close> (\<open>src/utils.cpp\<close>) and
  \<open>Bootstrap\<close> (\<open>src/bootstrap.cpp\<close>): rank 0 collects one \<open>NodeInfo\<close> per worker and sends the whole
  table back. The system calls are the fields of a record over an environment \<open>'e\<close>; the locale
  \<open>stream_sockets\<close> states what a connected, blocking stream socket promises, in terms of the bytes
  still to be read from a descriptor (\<open>inq\<close>) and the bytes written to it (\<open>outq\<close>).
\<close>

record 'e os_net =
  os_send :: "int \<Rightarrow> byte list \<Rightarrow> 'e \<Rightarrow> int \<times> 'e"
  os_recv :: "int \<Rightarrow> nat \<Rightarrow> 'e \<Rightarrow> int \<times> byte list \<times> 'e"
  os_accept :: "int \<Rightarrow> 'e \<Rightarrow> int \<times> 'e"
  os_socket :: "'e \<Rightarrow> int \<times> 'e"
  os_pton :: "byte list \<Rightarrow> bool"
  os_connect :: "int \<Rightarrow> byte list \<Rightarrow> 16 word \<Rightarrow> 'e \<Rightarrow> bool \<times> 'e"
  os_close :: "int \<Rightarrow> 'e \<Rightarrow> 'e"

subsection \<open>Framing\<close>

text \<open>The send loop of \<open>SendAll\<close> and the receive loop of \<open>RecvAll\<close>, from \<open>off\<close> bytes on.\<close>

function send_loop :: "'e os_net \<Rightarrow> int \<Rightarrow> byte list \<Rightarrow> nat \<Rightarrow> 'e \<Rightarrow> bool \<times> 'e" where
  "send_loop os fd data off e =
     (if off < length data then
        (case os_send os fd (drop off data) e of
           (n, e') \<Rightarrow> if n \<le> 0 then (False, e') else send_loop os fd data (off + nat n) e')
      else (True, e))"
  by pat_completeness auto
termination
  by (relation "measure (\<lambda>(os, fd, data, off, e). length data - off)") auto

function recv_loop :: "'e os_net \<Rightarrow> int \<Rightarrow> nat \<Rightarrow> byte list \<Rightarrow> 'e \<Rightarrow> byte list option \<times> 'e" where
  "recv_loop os fd sz got e =
     (if length got < sz then
        (case os_recv os fd (sz - length got) e of
           (n, bs, e') \<Rightarrow>
             if n \<le> 0 \<or> length bs \<noteq> nat n then (None, e') else recv_loop os fd sz (got @ bs) e')
      else (Some got, e))"
  by pat_completeness auto
termination
  by (relation "measure (\<lambda>(os, fd, sz, got, e). sz - length got)") auto

declare send_loop.simps [simp del] recv_loop.simps [simp del]

definition SendAll :: "'e os_net \<Rightarrow> int \<Rightarrow> byte list \<Rightarrow> 'e \<Rightarrow> bool \<times> 'e" where
  "SendAll os fd data e =
     (case os_send os fd (be32 (word_of_nat (length data))) e of
        (sent, e1) \<Rightarrow> if sent \<noteq> 4 then (False, e1) else send_loop os fd data 0 e1)"

definition RecvAll :: "'e os_net \<Rightarrow> int \<Rightarrow> 'e \<Rightarrow> byte list option \<times> 'e" where
  "RecvAll os fd e =
     (case os_recv os fd 4 e of
        (recvd, pre, e1) \<Rightarrow>
          if recvd \<noteq> 4 \<or> length pre \<noteq> 4 then (None, e1)
          else let sz = unat (un_be32 pre) in
               if sz = 0 then (Some [], e1) else recv_loop os fd sz [] e1)"

text \<open>\<open>CreateConnectSocket\<close>: up to \<open>retry_count\<close> attempts on one socket.\<close>

fun connect_retry :: "'e os_net \<Rightarrow> int \<Rightarrow> byte list \<Rightarrow> 16 word \<Rightarrow> nat \<Rightarrow> 'e \<Rightarrow> bool \<times> 'e" where
  "connect_retry os fd addr port 0 e = (False, e)"
| "connect_retry os fd addr port (Suc k) e =
     (case os_connect os fd addr port e of
        (True, e') \<Rightarrow> (True, e')
      | (False, e') \<Rightarrow> connect_retry os fd addr port k e')"

definition CreateConnectSocket :: "'e os_net \<Rightarrow> byte list \<Rightarrow> 16 word \<Rightarrow> nat \<Rightarrow> 'e \<Rightarrow> int \<times> 'e" where
  "CreateConnectSocket os addr port retry_count e =
     (case os_socket os e of
        (fd, e1) \<Rightarrow>
          if fd < 0 then (-1, e1)
          else if \<not> os_pton os addr then (-1, os_close os fd e1)
          else (case connect_retry os fd addr port retry_count e1 of
                  (True, e2) \<Rightarrow> (fd, e2)
                | (False, e2) \<Rightarrow> (-1, os_close os fd e2)))"

subsection \<open>Bootstrap\<close>

definition CloseAllSockets :: "'e os_net \<Rightarrow> int list \<Rightarrow> 'e \<Rightarrow> 'e" where
  "CloseAllSockets os socks e = fold (os_close os) socks e"

text \<open>\<open>AcceptConnections\<close>; \<open>acc\<close> holds the descriptors accepted so far.\<close>

fun accept_loop :: "'e os_net \<Rightarrow> int \<Rightarrow> nat \<Rightarrow> int list \<Rightarrow> 'e \<Rightarrow> int list option \<times> 'e" where
  "accept_loop os listen_fd 0 acc e = (Some acc, e)"
| "accept_loop os listen_fd (Suc k) acc e =
     (case os_accept os listen_fd e of
        (fd, e') \<Rightarrow> if fd < 0 then (None, CloseAllSockets os acc e')
                     else accept_loop os listen_fd k (acc @ [fd]) e')"

definition AcceptConnections :: "'e os_net \<Rightarrow> int \<Rightarrow> int \<Rightarrow> 'e \<Rightarrow> int list option \<times> 'e" where
  "AcceptConnections os listen_fd n e = accept_loop os listen_fd (nat n) [] e"

definition RecvNodeInfo :: "'e os_net \<Rightarrow> int \<Rightarrow> 'e \<Rightarrow> NodeInfo option \<times> 'e" where
  "RecvNodeInfo os fd e =
     (case RecvAll os fd e of
        (None, e') \<Rightarrow> (None, e')
      | (Some buffer, e') \<Rightarrow> (map_option fst (DecodeNodeInfo buffer 0), e'))"

definition SendNodeInfo :: "'e os_net \<Rightarrow> int \<Rightarrow> NodeInfo \<Rightarrow> 'e \<Rightarrow> bool \<times> 'e" where
  "SendNodeInfo os fd node e = SendAll os fd (EncodeNodeInfo [] node) e"

definition EncodeNodes :: "NodeInfo list \<Rightarrow> byte list" where
  "EncodeNodes nodes = foldl EncodeNodeInfo (EncodeInt [] (int (length nodes))) nodes"

fun send_each :: "'e os_net \<Rightarrow> int list \<Rightarrow> byte list \<Rightarrow> 'e \<Rightarrow> bool \<times> 'e" where
  "send_each os [] buffer e = (True, e)"
| "send_each os (fd # fds) buffer e =
     (case SendAll os fd buffer e of
        (False, e') \<Rightarrow> (False, e')
      | (True, e') \<Rightarrow> send_each os fds buffer e')"

definition BroadcastAllNodes :: "'e os_net \<Rightarrow> int list \<Rightarrow> NodeInfo list \<Rightarrow> 'e \<Rightarrow> bool \<times> 'e" where
  "BroadcastAllNodes os socks nodes e = send_each os socks (EncodeNodes nodes) e"

definition RecvAllNodes :: "'e os_net \<Rightarrow> int \<Rightarrow> 'e \<Rightarrow> NodeInfo list option \<times> 'e" where
  "RecvAllNodes os fd e =
     (case RecvAll os fd e of
        (None, e') \<Rightarrow> (None, e')
      | (Some buffer, e') \<Rightarrow>
          (case DecodeInt buffer 0 of
             None \<Rightarrow> (None, e')
           | Some (num_nodes, off) \<Rightarrow>
               if num_nodes < 0 then (None, e')
               else (map_option fst (decode_list DecodeNodeInfo buffer off (nat num_nodes)), e')))"

definition NodeInfo_default :: NodeInfo where
  "NodeInfo_default = \<lparr>ni_rank = 0, ni_ip_addr = [], ni_data_port = 0, ni_hostname = [],
     ni_rdma_addr = [], ni_rdma_port = 0, ni_p2p_port = 0, ni_p2p_rdma_port = 0\<rparr>"

text \<open>
  The receive loop of \<open>RunMaster\<close>. \<open>all_nodes[node_info.rank] = node_info\<close> is unchecked in the
  program; an index outside the vector is \<^term>\<open>None\<close> here.
\<close>

fun collect_nodes :: "'e os_net \<Rightarrow> int list \<Rightarrow> NodeInfo list \<Rightarrow> 'e \<Rightarrow> NodeInfo list option \<times> 'e" where
  "collect_nodes os [] all_nodes e = (Some all_nodes, e)"
| "collect_nodes os (fd # fds) all_nodes e =
     (case RecvNodeInfo os fd e of
        (None, e') \<Rightarrow> (None, e')
      | (Some node, e') \<Rightarrow>
          if 0 \<le> ni_rank node \<and> nat (ni_rank node) < length all_nodes
          then collect_nodes os fds (all_nodes[nat (ni_rank node) := node]) e'
          else (None, e'))"

definition RunMaster :: "'e os_net \<Rightarrow> int \<Rightarrow> NodeInfo \<Rightarrow> int \<Rightarrow> 'e \<Rightarrow> NodeInfo list option \<times> 'e" where
  "RunMaster os world_size local_node listen_fd e =
     (if world_size \<le> 0 then (None, e)
      else if listen_fd < 0 then (None, e)
      else (case AcceptConnections os listen_fd (world_size - 1) e of
        (None, e1) \<Rightarrow> (None, e1)
      | (Some socks, e1) \<Rightarrow>
          (case collect_nodes os socks ((replicate (nat world_size) NodeInfo_default)[0 := local_node]) e1 of
             (None, e2) \<Rightarrow> (None, CloseAllSockets os socks e2)
           | (Some all_nodes, e2) \<Rightarrow>
               (case BroadcastAllNodes os socks all_nodes e2 of
                  (False, e3) \<Rightarrow> (None, CloseAllSockets os socks e3)
                | (True, e3) \<Rightarrow> (Some all_nodes, CloseAllSockets os socks e3)))))"

definition RunWorker ::
  "'e os_net \<Rightarrow> byte list \<Rightarrow> 16 word \<Rightarrow> NodeInfo \<Rightarrow> 'e \<Rightarrow> NodeInfo list option \<times> 'e" where
  "RunWorker os master_addr master_port local_node e =
     (case CreateConnectSocket os master_addr master_port 30 e of
        (fd, e1) \<Rightarrow>
          if fd < 0 then (None, e1)
          else (case SendNodeInfo os fd local_node e1 of
                  (False, e2) \<Rightarrow> (None, os_close os fd e2)
                | (True, e2) \<Rightarrow>
                    (case RecvAllNodes os fd e2 of
                       (None, e3) \<Rightarrow> (None, os_close os fd e3)
                     | (Some nodes, e3) \<Rightarrow> (Some nodes, os_close os fd e3))))"

subsection \<open>What a connected stream socket promises\<close>

text \<open>A message on the wire: its length in network order, then its bytes.\<close>

abbreviation frame :: "byte list \<Rightarrow> byte list" where
  "frame data \<equiv> be32 (word_of_nat (length data)) @ data"

locale stream_sockets =
  fixes os :: "'e os_net"
    and outq :: "'e \<Rightarrow> int \<Rightarrow> byte list"
    and inq :: "'e \<Rightarrow> int \<Rightarrow> byte list"
  assumes send_law: "data \<noteq> [] \<Longrightarrow> os_send os fd data e = (n, e') \<Longrightarrow>
      0 < n \<and> nat n \<le> length data \<and> inq e' = inq e \<and>
      outq e' = (outq e)(fd := outq e fd @ take (nat n) data)"
    and send_small: "length data \<le> 4 \<Longrightarrow> fst (os_send os fd data e) = int (length data)"
    and recv_law: "0 < k \<Longrightarrow> k \<le> length (inq e fd) \<Longrightarrow> os_recv os fd k e = (n, bs, e') \<Longrightarrow>
      0 < n \<and> nat n \<le> k \<and> bs = take (nat n) (inq e fd) \<and>
      inq e' = (inq e)(fd := drop (nat n) (inq e fd)) \<and> outq e' = outq e"
    and recv_small: "k \<le> 4 \<Longrightarrow> k \<le> length (inq e fd) \<Longrightarrow> fst (os_recv os fd k e) = int k"
    and close_law: "inq (os_close os fd e) = inq e" "outq (os_close os fd e) = outq e"
begin

lemma send_loop_sends:
  assumes "off \<le> length data"
  shows "\<exists>e'. send_loop os fd data off e = (True, e') \<and> inq e' = inq e \<and>
              outq e' = (outq e)(fd := outq e fd @ drop off data)"
  using assms
proof (induction "length data - off" arbitrary: off e rule: less_induct)
  case less
  show ?case
  proof (cases "off < length data")
    case True
    obtain n e1 where step: "os_send os fd (drop off data) e = (n, e1)" by fastforce
    from True have "drop off data \<noteq> []" by simp
    from send_law [OF this step] have law: "0 < n" "nat n \<le> length data - off" "inq e1 = inq e"
        "outq e1 = (outq e)(fd := outq e fd @ take (nat n) (drop off data))" by simp_all
    have split: "take (nat n) (drop off data) @ drop (off + nat n) data = drop off data"
      by (metis add.commute append_take_drop_id drop_drop)
    from True law have closer: "length data - (off + nat n) < length data - off" and "off + nat n \<le> length data" by linarith+
    from less.hyps [OF this, of e1] obtain e' where
      "send_loop os fd data (off + nat n) e1 = (True, e')" "inq e' = inq e1"
      "outq e' = (outq e1)(fd := outq e1 fd @ drop (off + nat n) data)" by blast
    with True step law split show ?thesis
      by (subst send_loop.simps) simp
  next
    case False
    then show ?thesis by (subst send_loop.simps) simp
  qed
qed

lemma recv_loop_receives:
  assumes "inq e fd = bs @ rest" and "sz = length got + length bs"
  shows "\<exists>e'. recv_loop os fd sz got e = (Some (got @ bs), e') \<and> outq e' = outq e \<and>
              inq e' = (inq e)(fd := rest)"
  using assms
proof (induction "length bs" arbitrary: got bs e rule: less_induct)
  case less
  show ?case
  proof (cases "bs = []")
    case False
    obtain n xs e1 where step: "os_recv os fd (length bs) e = (n, xs, e1)" by (cases "os_recv os fd (length bs) e") auto
    from False less.prems recv_law [OF _ _ step] have law: "0 < n" "nat n \<le> length bs"
        "xs = take (nat n) bs" "inq e1 = (inq e)(fd := drop (nat n) bs @ rest)" "outq e1 = outq e" by auto
    from law False have shorter: "length (drop (nat n) bs) < length bs" by simp
    from law less.prems less.hyps [OF shorter, of e1 "got @ xs"] obtain e' where
      "recv_loop os fd sz (got @ xs) e1 = (Some ((got @ xs) @ drop (nat n) bs), e')"
      "outq e' = outq e1" "inq e' = (inq e1)(fd := rest)" by auto
    with law False step less.prems show ?thesis
      by (subst recv_loop.simps) (simp add: min_def)
  next
    case True
    with less.prems show ?thesis by (subst recv_loop.simps) (simp add: fun_upd_idem)
  qed
qed

lemma SendAll_sends:
  "\<exists>e'. SendAll os fd data e = (True, e') \<and> inq e' = inq e \<and>
        outq e' = (outq e)(fd := outq e fd @ frame data)"
proof -
  let ?h = "be32 (word_of_nat (length data))"
  obtain n e1 where step: "os_send os fd ?h e = (n, e1)" by fastforce
  have "?h \<noteq> []" by (metis length_be32 list.size(3) zero_neq_numeral)
  from send_law [OF this step] send_small [of ?h fd e] step
  have "n = 4" "inq e1 = inq e" "outq e1 = (outq e)(fd := outq e fd @ ?h)" by simp_all
  with step send_loop_sends [of 0 data fd e1] show ?thesis
    by (auto simp: SendAll_def)
qed

lemma RecvAll_receives:
  assumes "inq e fd = frame data @ rest" and "length data < 4294967296"
  shows "\<exists>e'. RecvAll os fd e = (Some data, e') \<and> outq e' = outq e \<and> inq e' = (inq e)(fd := rest)"
proof -
  obtain n pre e1 where step: "os_recv os fd 4 e = (n, pre, e1)" by (cases "os_recv os fd 4 e") auto
  from assms(1) recv_law [OF _ _ step] recv_small [of 4 e fd] step
  have law: "n = 4" "pre = be32 (word_of_nat (length data))" "inq e1 = (inq e)(fd := data @ rest)"
    "outq e1 = outq e" by simp_all
  have "unat (un_be32 pre) = length data"
    using assms(2) by (simp add: law(2) unat_of_nat)
  with step law recv_loop_receives [of e1 fd data rest "length data" "[]"] show ?thesis
    by (auto simp: RecvAll_def Let_def)
qed

lemma RecvNodeInfo_receives:
  assumes "inq e fd = frame (EncodeNodeInfo [] n) @ rest" and "node_fits n"
    and "length (EncodeNodeInfo [] n) < 4294967296"
  shows "\<exists>e'. RecvNodeInfo os fd e = (Some n, e') \<and> outq e' = outq e \<and> inq e' = (inq e)(fd := rest)"
  using RecvAll_receives [OF assms(1,3)] node_codec.dec_after [OF assms(2), of "[]" "[]"]
  by (auto simp: RecvNodeInfo_def)

lemma collect_nodes_collects:
  assumes "list_all2 (\<lambda>fd n. inq e fd = frame (EncodeNodeInfo [] n) @ rest fd) fds nodes"
    and "distinct fds"
    and "\<forall>n \<in> set nodes. node_fits n \<and> length (EncodeNodeInfo [] n) < 4294967296 \<and>
           0 \<le> ni_rank n \<and> nat (ni_rank n) < length acc"
  shows "\<exists>e'. collect_nodes os fds acc e = (Some (foldl (\<lambda>a n. a[nat (ni_rank n) := n]) acc nodes), e') \<and>
              outq e' = outq e"
  using assms
proof (induction fds arbitrary: nodes acc e)
  case (Cons fd fds)
  from Cons.prems(1) obtain n ns where nodes: "nodes = n # ns"
    and hd: "inq e fd = frame (EncodeNodeInfo [] n) @ rest fd"
    and tl: "list_all2 (\<lambda>fd n. inq e fd = frame (EncodeNodeInfo [] n) @ rest fd) fds ns"
    by (auto simp: list_all2_Cons1)
  from Cons.prems(3) nodes RecvNodeInfo_receives [OF hd] obtain e1 where
    r: "RecvNodeInfo os fd e = (Some n, e1)" "outq e1 = outq e" "inq e1 = (inq e)(fd := rest fd)" by auto
  have "list_all2 (\<lambda>fd n. inq e1 fd = frame (EncodeNodeInfo [] n) @ rest fd) fds ns"
    using tl Cons.prems(2) by (auto simp: r(3) list_all2_conv_all_nth in_set_conv_nth)
  from Cons.IH [OF this, of "acc[nat (ni_rank n) := n]"] Cons.prems(2,3) r nodes
  show ?case by auto
qed simp

lemma send_each_sends:
  "distinct fds \<Longrightarrow> \<exists>e'. send_each os fds buffer e = (True, e') \<and>
     (\<forall>fd. outq e' fd = outq e fd @ (if fd \<in> set fds then frame buffer else []))"
proof (induction fds arbitrary: e)
  case (Cons fd fds)
  obtain e1 where "SendAll os fd buffer e = (True, e1)"
    "outq e1 = (outq e)(fd := outq e fd @ frame buffer)" using SendAll_sends [of fd buffer e] by auto
  with Cons.IH [of e1] Cons.prems show ?case by auto
qed simp

lemma CloseAllSockets_keeps [simp]: "outq (CloseAllSockets os fds e) = outq e"
  by (induction fds arbitrary: e) (simp_all add: CloseAllSockets_def close_law)

lemma RunMaster_collects:
  assumes "0 < world_size" and "0 \<le> listen_fd"
    and "AcceptConnections os listen_fd (world_size - 1) e = (Some fds, e1)" and "distinct fds"
    and "list_all2 (\<lambda>fd n. inq e1 fd = frame (EncodeNodeInfo [] n) @ rest fd) fds nodes"
    and "\<forall>n \<in> set nodes. node_fits n \<and> length (EncodeNodeInfo [] n) < 4294967296 \<and>
           0 \<le> ni_rank n \<and> ni_rank n < world_size"
  shows "\<exists>e'. RunMaster os world_size loc listen_fd e =
           (Some (foldl (\<lambda>a n. a[nat (ni_rank n) := n]) ((replicate (nat world_size) NodeInfo_default)[0 := loc]) nodes), e') \<and>
         (\<forall>fd \<in> set fds. outq e' fd = outq e1 fd @ frame (EncodeNodes
            (foldl (\<lambda>a n. a[nat (ni_rank n) := n]) ((replicate (nat world_size) NodeInfo_default)[0 := loc]) nodes)))"
proof -
  let ?acc = "(replicate (nat world_size) NodeInfo_default)[0 := loc]"
  let ?all = "foldl (\<lambda>a n. a[nat (ni_rank n) := n]) ?acc nodes"
  obtain e2 where c: "collect_nodes os fds ?acc e1 = (Some ?all, e2)" "outq e2 = outq e1"
    using collect_nodes_collects [OF assms(5,4), of ?acc] assms(1,6) by fastforce
  obtain e3 where "BroadcastAllNodes os fds ?all e2 = (True, e3)"
    "\<forall>fd. outq e3 fd = outq e2 fd @ (if fd \<in> set fds then frame (EncodeNodes ?all) else [])"
    using send_each_sends [OF assms(4), of "EncodeNodes ?all" e2] by (auto simp: BroadcastAllNodes_def)
  with c assms(1-3) show ?thesis by (simp add: RunMaster_def)
qed

lemma RecvAllNodes_receives:
  assumes "inq e fd = frame (EncodeNodes nodes) @ rest" and "\<forall>n \<in> set nodes. node_fits n"
    and "length nodes < 2147483648" and "length (EncodeNodes nodes) < 4294967296"
  shows "\<exists>e'. RecvAllNodes os fd e = (Some nodes, e') \<and> outq e' = outq e \<and> inq e' = (inq e)(fd := rest)"
proof -
  let ?b = "EncodeNodes nodes"
  have "int32_range (int (length nodes))" using assms(3) by (simp add: int32_range_def)
  moreover have "drop 0 ?b = EncodeInt [] (int (length nodes)) @ concat (map (EncodeNodeInfo []) nodes)"
    by (simp add: EncodeNodes_def node_codec.enc_list)
  ultimately have cnt: "DecodeInt ?b 0 = Some (int (length nodes), 4)"
    and tail: "drop 4 ?b = concat (map (EncodeNodeInfo []) nodes) @ []" and "4 \<le> length ?b"
    using int_codec.dec_next [of "int (length nodes)" 0 ?b] by (simp_all add: length_EncodeInt)
  from node_codec.decode_list_enc [OF assms(2) tail] this(3) cnt RecvAll_receives [OF assms(1,4)]
  show ?thesis by (auto simp: RecvAllNodes_def)
qed

lemma RunWorker_receives:
  assumes "CreateConnectSocket os addr port 30 e = (fd, e1)" and "0 \<le> fd"
    and "inq e1 fd = frame (EncodeNodes nodes) @ rest" and "\<forall>n \<in> set nodes. node_fits n"
    and "length nodes < 2147483648" and "length (EncodeNodes nodes) < 4294967296"
  shows "\<exists>e'. RunWorker os addr port loc e = (Some nodes, e') \<and>
              outq e' fd = outq e1 fd @ frame (EncodeNodeInfo [] loc)"
proof -
  obtain e2 where s: "SendNodeInfo os fd loc e1 = (True, e2)" "inq e2 = inq e1"
    "outq e2 = (outq e1)(fd := outq e1 fd @ frame (EncodeNodeInfo [] loc))"
    using SendAll_sends [of fd "EncodeNodeInfo [] loc" e1] by (auto simp: SendNodeInfo_def)
  with RecvAllNodes_receives [of e2 fd nodes rest] assms obtain e3 where
    "RecvAllNodes os fd e2 = (Some nodes, e3)" "outq e3 = outq e2" by auto
  with s assms(1,2) show ?thesis by (simp add: RunWorker_def close_law)
qed

end

text \<open>The table that rank 0 builds: every worker's entry is at that worker's rank.\<close>

lemma foldl_store_nth:
  assumes "distinct (map f ns)" and "\<forall>n \<in> set ns. f n < length acc"
  shows "length (foldl (\<lambda>a n. a[f n := n]) acc ns) = length acc"
    and "n \<in> set ns \<Longrightarrow> foldl (\<lambda>a n. a[f n := n]) acc ns ! f n = n"
    and "i \<notin> f ` set ns \<Longrightarrow> foldl (\<lambda>a n. a[f n := n]) acc ns ! i = acc ! i"
proof -
  show "length (foldl (\<lambda>a n. a[f n := n]) acc ns) = length acc"
    by (induction ns arbitrary: acc) simp_all
  show keep: "i \<notin> f ` set ns \<Longrightarrow> foldl (\<lambda>a n. a[f n := n]) acc ns ! i = acc ! i" for i acc ns
    by (induction ns arbitrary: acc) simp_all
  show "n \<in> set ns \<Longrightarrow> foldl (\<lambda>a n. a[f n := n]) acc ns ! f n = n"
    using assms
  proof (induction ns arbitrary: acc)
    case (Cons m ns)
    then show ?case by (cases "n = m") (auto simp: keep)
  qed simp
qed

subsection \<open>A concrete socket layer\<close>

text \<open>
  Byte queues per descriptor; \<open>send\<close> and \<open>recv\<close> move at most seven bytes at a time, so that both
  loops really iterate. It satisfies the contract, so the theorems below are not vacuous.
\<close>

record queue_env =
  qe_in :: "int \<Rightarrow> byte list"
  qe_out :: "int \<Rightarrow> byte list"
  qe_pending :: "int list"

definition queue_net :: "queue_env os_net" where
  "queue_net = \<lparr>
     os_send = (\<lambda>fd data e. let n = min 7 (length data) in
       (int n, e\<lparr>qe_out := (qe_out e)(fd := qe_out e fd @ take n data)\<rparr>)),
     os_recv = (\<lambda>fd k e. let n = min 7 (min k (length (qe_in e fd))) in
       (int n, take n (qe_in e fd), e\<lparr>qe_in := (qe_in e)(fd := drop n (qe_in e fd))\<rparr>)),
     os_accept = (\<lambda>_ e. case qe_pending e of [] \<Rightarrow> (-1, e) | fd # fds \<Rightarrow> (fd, e\<lparr>qe_pending := fds\<rparr>)),
     os_socket = (\<lambda>e. (3, e)),
     os_pton = (\<lambda>addr. True),
     os_connect = (\<lambda>fd addr port e. (True, e)),
     os_close = (\<lambda>fd e. e)\<rparr>"

interpretation queue_sockets: stream_sockets queue_net qe_out qe_in
  by unfold_locales (auto simp: queue_net_def Let_def)

subsection \<open>Properties\<close>

text \<open>
  C25. Bootstrap, master side. Let the master accept \<open>world_size - 1\<close> connections on which the workers
  send their node records, with ranks inside the world, pairwise different and different from 0.
  Then \<open>RunMaster\<close> succeeds; its table has one entry per rank, rank 0's is the local node and each
  worker's record sits at that worker's rank; and every worker is sent exactly one frame holding the
  encoding of this same table, whatever the order in which the connections were accepted and however
  the socket layer splits the transfers.
\<close>

theorem RunMaster_builds_table:
  assumes net: "stream_sockets os outq inq"
    and "0 < world_size" and "0 \<le> listen_fd"
    and "AcceptConnections os listen_fd (world_size - 1) e = (Some fds, e1)" and "distinct fds"
    and "list_all2 (\<lambda>fd n. inq e1 fd = frame (EncodeNodeInfo [] n) @ rest fd) fds nodes"
    and ok: "\<forall>n \<in> set nodes. node_fits n \<and> length (EncodeNodeInfo [] n) < 4294967296 \<and>
           0 < ni_rank n \<and> ni_rank n < world_size"
    and ranks: "distinct (map ni_rank nodes)"
  shows "\<exists>all_nodes e'. RunMaster os world_size local_node listen_fd e = (Some all_nodes, e') \<and>
           length all_nodes = nat world_size \<and> all_nodes ! 0 = local_node \<and>
           (\<forall>n \<in> set nodes. all_nodes ! nat (ni_rank n) = n) \<and>
           (\<forall>fd \<in> set fds. outq e' fd = outq e1 fd @ frame (EncodeNodes all_nodes))"
proof -
  let ?acc = "(replicate (nat world_size) NodeInfo_default)[0 := local_node]"
  let ?f = "\<lambda>n. nat (ni_rank n)"
  have "distinct (map ?f nodes)"
    using ranks ok by (auto simp: distinct_map inj_on_def)
  moreover have "\<forall>n \<in> set nodes. ?f n < length ?acc" and "0 \<notin> ?f ` set nodes"
    using ok by auto
  ultimately have table: "length (foldl (\<lambda>a n. a[?f n := n]) ?acc nodes) = length ?acc"
    "\<forall>n \<in> set nodes. foldl (\<lambda>a n. a[?f n := n]) ?acc nodes ! ?f n = n"
    "foldl (\<lambda>a n. a[?f n := n]) ?acc nodes ! 0 = ?acc ! 0"
    using foldl_store_nth [of ?f nodes ?acc] by blast+
  have "\<forall>n \<in> set nodes. node_fits n \<and> length (EncodeNodeInfo [] n) < 4294967296 \<and>
           0 \<le> ni_rank n \<and> ni_rank n < world_size" using ok by auto
  from stream_sockets.RunMaster_collects [OF net assms(2-6) this, of local_node] table assms(2)
  show ?thesis by fastforce
qed

definition demo_node :: "int \<Rightarrow> NodeInfo" where
  "demo_node r = NodeInfo_default\<lparr>ni_rank := r, ni_ip_addr := [49, 48], ni_data_port := 4000, ni_hostname := [104]\<rparr>"

text \<open>Two workers, accepted in the order rank 2, rank 1.\<close>

definition demo_master_env :: queue_env where
  "demo_master_env = \<lparr>qe_in = (\<lambda>fd. if fd = 5 then frame (EncodeNodeInfo [] (demo_node 2))
                               else frame (EncodeNodeInfo [] (demo_node 1))),
     qe_out = (\<lambda>_. []), qe_pending = [5, 6]\<rparr>"

lemma demo_node_fits: "0 < r \<Longrightarrow> r < 3 \<Longrightarrow> node_fits (demo_node r)"
  by (simp add: demo_node_def node_fits_def NodeInfo_default_def int32_range_def string_fits_def)

lemma length_demo_node: "length (EncodeNodeInfo [] (demo_node r)) = 35"
  by (simp add: EncodeNodeInfo_Nil EncodeString_def length_EncodeInt demo_node_def NodeInfo_default_def)

theorem RunMaster_builds_table_witness:
  "\<exists>all_nodes e'. RunMaster queue_net 3 (demo_node 0) 4 demo_master_env = (Some all_nodes, e') \<and>
     length all_nodes = 3 \<and> all_nodes ! 0 = demo_node 0 \<and>
     all_nodes ! 2 = demo_node 2 \<and> all_nodes ! 1 = demo_node 1 \<and>
     qe_out e' 5 = frame (EncodeNodes all_nodes) \<and> qe_out e' 6 = frame (EncodeNodes all_nodes)"
proof -
  have acc: "AcceptConnections queue_net 4 (3 - 1) demo_master_env =
      (Some [5, 6], demo_master_env\<lparr>qe_pending := []\<rparr>)"
    by (simp add: AcceptConnections_def queue_net_def demo_master_env_def numeral_2_eq_2)
  have rank: "ni_rank (demo_node r) = r" for r by (simp add: demo_node_def)
  have "list_all2 (\<lambda>fd n. qe_in (demo_master_env\<lparr>qe_pending := []\<rparr>) fd = frame (EncodeNodeInfo [] n) @ [])
      [5, 6] [demo_node 2, demo_node 1]"
    by (simp add: demo_master_env_def)
  from RunMaster_builds_table [OF queue_sockets.stream_sockets_axioms _ _ acc _ this, of "demo_node 0"]
  show ?thesis
    by (simp add: rank length_demo_node demo_node_fits demo_master_env_def)
qed

text \<open>
  Bootstrap, worker side. Once \<open>CreateConnectSocket\<close> has connected, a worker that is sent the
  frame of a node table sends its own record as one frame and returns exactly that table: with
  the master's theorem, every rank ends the bootstrap with the same node table.
\<close>

theorem RunWorker_learns_table:
  assumes "stream_sockets os outq inq"
    and "CreateConnectSocket os addr port 30 e = (fd, e1)" and "0 \<le> fd"
    and "inq e1 fd = frame (EncodeNodes nodes) @ rest" and "\<forall>n \<in> set nodes. node_fits n"
    and "length nodes < 2147483648" and "length (EncodeNodes nodes) < 4294967296"
  shows "\<exists>e'. RunWorker os addr port local_node e = (Some nodes, e') \<and>
              outq e' fd = outq e1 fd @ frame (EncodeNodeInfo [] local_node)"
  by (rule stream_sockets.RunWorker_receives [OF assms])

definition demo_worker_env :: queue_env where
  "demo_worker_env = \<lparr>qe_in = (\<lambda>_. frame (EncodeNodes [demo_node 1, demo_node 2])),
     qe_out = (\<lambda>_. []), qe_pending = []\<rparr>"

theorem RunWorker_learns_table_witness:
  "\<exists>e'. RunWorker queue_net [49] 4000 (demo_node 1) demo_worker_env = (Some [demo_node 1, demo_node 2], e') \<and>
        qe_out e' 3 = frame (EncodeNodeInfo [] (demo_node 1))"
proof -
  have con: "CreateConnectSocket queue_net [49] 4000 30 demo_worker_env = (3, demo_worker_env)"
    by (simp add: CreateConnectSocket_def queue_net_def numeral_eq_Suc)
  have "length (EncodeNodes [demo_node 1, demo_node 2]) < 4294967296"
    using node_codec.enc_list [of "EncodeInt [] 2" "[demo_node 1, demo_node 2]"]
    by (simp add: EncodeNodes_def length_demo_node length_EncodeInt)
  with RunWorker_learns_table [OF queue_sockets.stream_sockets_axioms con, of "[demo_node 1, demo_node 2]" "[]" "demo_node 1"]
  show ?thesis by (simp add: demo_worker_env_def demo_node_fits)
qed

text \<open>
  C26. A node record that fits the wire format is decoded to itself from any position of any buffer,
  and the decoder's offset ends exactly behind the encoding, so records can be read one after the other.
\<close>

theorem NodeInfo_roundtrip:
  "node_fits n \<Longrightarrow> DecodeNodeInfo (EncodeNodeInfo buffer n @ post) (length buffer) =
     Some (n, length (EncodeNodeInfo buffer n))"
  by (rule node_codec.dec_after)

theorem NodeInfo_roundtrip_witness:
  "DecodeNodeInfo (EncodeNodeInfo [1, 2] (demo_node 2) @ [3]) 2 =
     Some (demo_node 2, length (EncodeNodeInfo [1, 2] (demo_node 2)))"
  using NodeInfo_roundtrip [of "demo_node 2" "[1, 2]" "[3]"] demo_node_fits [of 2] by (simp add: numeral_2_eq_2)

end
