(* ===== verification/Occl_Communicator.thy ===== *)
theory Occl_Communicator
  imports Occl_Connect Occl_Bootstrap
begin

section \<open>Communicator: the user's operations\<close>

text \<open>
  \<open>src/communicator.cpp\<close>: \<open>Init\<close>, \<open>GetUniqueId\<close>, \<open>Finalize\<close>, groups, \<open>Submit\<close>, \<open>Flush\<close> and the seven public
  operations. Files, environment variables, listeners and CPUs are reached through \<open>host_ops\<close>, transports
  through \<open>net_ops\<close>, bootstrap sockets through \<open>os_net\<close>, the executors through \<open>exec_ops\<close>.
\<close>

record 'e exec_ops =
  eo_run :: "ExecutorKind \<Rightarrow> CollPlan \<Rightarrow> 'e \<Rightarrow> bool \<times> 'e"
  eo_shutdown :: "ExecutorKind \<Rightarrow> 'e \<Rightarrow> 'e"

record 'e host_ops =
  ho_getenv :: "string \<Rightarrow> string option"
  ho_create_listen :: "'e \<Rightarrow> int \<times> 16 word \<times> 'e"
  ho_local_ip :: "'e \<Rightarrow> byte list"
  ho_hostname :: "'e \<Rightarrow> byte list"
  ho_listen :: "transport_ref \<Rightarrow> byte list \<Rightarrow> 'e \<Rightarrow> 16 word option \<times> 'e"
  ho_probe :: "'e \<Rightarrow> byte list option \<times> 'e"
  ho_mkdir :: "byte list \<Rightarrow> 'e \<Rightarrow> bool \<times> 'e"
  ho_cores :: "'e \<Rightarrow> int"
  ho_pin :: "int \<Rightarrow> 'e \<Rightarrow> 'e"

text \<open>
  \<open>ho_listen tr addr\<close> is \<open>tr->Listen(addr, 0)\<close>, with the port that \<open>GetListenPort\<close> then returns;
  \<open>ho_hostname\<close> is \<open>config.get_hostname()\<close>.
\<close>

record CommConfig =
  cc_rank :: int
  cc_world_size :: int
  cc_unique_ip :: "byte list"
  cc_unique_port :: "16 word"
  cc_n_channels :: int

definition kDefaultChannelCount :: int where "kDefaultChannelCount = 4"

definition kRendezvousDir :: "byte list" where "kRendezvousDir = chars ''/tmp/originccl''"

definition enabled :: "'e host_ops \<Rightarrow> string \<Rightarrow> bool" where
  "enabled ho var \<longleftrightarrow> ho_getenv ho var \<noteq> Some ''1''"

definition MakeExecutor :: "'e host_ops \<Rightarrow> int \<Rightarrow> int \<Rightarrow> int \<Rightarrow> 'e \<Rightarrow> ExecutorKind" where
  "MakeExecutor ho local_size local_rank n_channels e =
     (if ho_cores ho e \<ge> local_size then MultiThread (local_rank * n_channels) else Epoll)"

subsection \<open>Groups and submission\<close>

definition GroupStart :: "Comm \<Rightarrow> Comm" where
  "GroupStart comm = comm\<lparr>cm_group_depth := cm_group_depth comm + 1\<rparr>"

text \<open>\<open>executor->Run(plan)\<close>; running a null executor is undefined and \<^term>\<open>None\<close> here.\<close>

definition run_executor ::
  "'e exec_ops \<Rightarrow> ExecutorKind option \<Rightarrow> CollPlan \<Rightarrow> Comm \<times> 'e \<Rightarrow> (bool \<times> Comm \<times> 'e) option" where
  "run_executor ex kind plan s =
     (case kind of
        None \<Rightarrow> None
      | Some k \<Rightarrow> (case eo_run ex k plan (snd s) of (ok, e) \<Rightarrow> Some (ok, fst s, e)))"

definition Flush ::
  "'e net_ops \<Rightarrow> 'e exec_ops \<Rightarrow> (int \<Rightarrow> bool list) \<Rightarrow> Comm \<times> 'e \<Rightarrow> (bool \<times> Comm \<times> 'e) option" where
  "Flush ops ex sched s =
     (let comm = fst s; s1 = (comm\<lparr>cm_pending_tasks := []\<rparr>, snd s) in
      case SortTasks (cm_pending_tasks comm) (cm_rank comm) (cm_world_size comm) of
        None \<Rightarrow> Some (False, s1)
      | Some tasks \<Rightarrow>
          let want_dynamic = (cm_dynamic_available comm \<and> IsCollectiveBatch tasks) in
          (case Plan ops sched tasks want_dynamic s1 of
             None \<Rightarrow> None
           | Some (None, s2) \<Rightarrow> Some (False, s2)
           | Some (Some plan, s2) \<Rightarrow>
               if \<not> want_dynamic then run_executor ex (cm_executor (fst s2)) plan s2
               else if length (pl_slices plan) > nat (cm_cfg_n_channels comm mod 2 ^ 64)
               then run_executor ex (cm_dynamic_executor (fst s2)) plan s2
               else (case Plan ops sched tasks False s2 of
                  None \<Rightarrow> None
                | Some (None, s3) \<Rightarrow> Some (False, s3)
                | Some (Some plan', s3) \<Rightarrow> run_executor ex (cm_executor (fst s3)) plan' s3)))"

definition GroupEnd ::
  "'e net_ops \<Rightarrow> 'e exec_ops \<Rightarrow> (int \<Rightarrow> bool list) \<Rightarrow> Comm \<times> 'e \<Rightarrow> (bool \<times> Comm \<times> 'e) option" where
  "GroupEnd ops ex sched s =
     (let comm = fst s; comm' = comm\<lparr>cm_group_depth := cm_group_depth comm - 1\<rparr> in
      if cm_group_depth comm \<le> 0 then Some (False, s)
      else if cm_group_depth comm' > 0 then Some (True, comm', snd s)
      else Flush ops ex sched (comm', snd s))"

definition Submit ::
  "'e net_ops \<Rightarrow> 'e exec_ops \<Rightarrow> (int \<Rightarrow> bool list) \<Rightarrow> CollTask \<Rightarrow> Comm \<times> 'e \<Rightarrow> (bool \<times> Comm \<times> 'e) option" where
  "Submit ops ex sched task s =
     (let comm = fst s; comm' = comm\<lparr>cm_pending_tasks := cm_pending_tasks comm @ [task]\<rparr> in
      if \<not> IsP2p (ct_func task) \<and> \<not> ValidateCollectiveTask task (cm_rank comm) (cm_world_size comm) then Some (False, s)
      else if cm_group_depth comm = 0 then Flush ops ex sched (comm', snd s)
      else Some (True, comm', snd s))"

text \<open>The public operations build a task and submit it.\<close>

definition AllReduce_task :: "ptr \<Rightarrow> ptr \<Rightarrow> nat \<Rightarrow> DataType \<Rightarrow> ReduceOp \<Rightarrow> CollTask" where
  "AllReduce_task send_buf recv_buf cnt dtype op =
     CollTask_default\<lparr>ct_func := AllReduce, ct_send_buf := send_buf, ct_recv_buf := recv_buf, ct_count := cnt,
       ct_dtype := dtype, ct_op := op\<rparr>"

definition Broadcast_task :: "ptr \<Rightarrow> nat \<Rightarrow> DataType \<Rightarrow> int \<Rightarrow> CollTask" where
  "Broadcast_task buffer cnt dtype root =
     CollTask_default\<lparr>ct_func := Broadcast, ct_send_buf := buffer, ct_recv_buf := buffer, ct_count := cnt,
       ct_dtype := dtype, ct_op := OpSum, ct_root := root\<rparr>"

definition AllGather_task :: "ptr \<Rightarrow> ptr \<Rightarrow> nat \<Rightarrow> DataType \<Rightarrow> CollTask" where
  "AllGather_task send_buf recv_buf cnt dtype =
     CollTask_default\<lparr>ct_func := AllGather, ct_send_buf := send_buf, ct_recv_buf := recv_buf, ct_count := cnt,
       ct_dtype := dtype\<rparr>"

definition Reduce_task :: "ptr \<Rightarrow> ptr \<Rightarrow> nat \<Rightarrow> DataType \<Rightarrow> ReduceOp \<Rightarrow> int \<Rightarrow> CollTask" where
  "Reduce_task send_buf recv_buf cnt dtype op root =
     CollTask_default\<lparr>ct_func := Reduce, ct_send_buf := send_buf, ct_recv_buf := recv_buf, ct_count := cnt,
       ct_dtype := dtype, ct_op := op, ct_root := root\<rparr>"

definition ReduceScatter_task :: "ptr \<Rightarrow> ptr \<Rightarrow> nat \<Rightarrow> DataType \<Rightarrow> ReduceOp \<Rightarrow> CollTask" where
  "ReduceScatter_task send_buf recv_buf cnt dtype op =
     CollTask_default\<lparr>ct_func := ReduceScatter, ct_send_buf := send_buf, ct_recv_buf := recv_buf, ct_count := cnt,
       ct_dtype := dtype, ct_op := op\<rparr>"

definition Send_task :: "ptr \<Rightarrow> nat \<Rightarrow> DataType \<Rightarrow> int \<Rightarrow> CollTask" where
  "Send_task buffer cnt dtype peer =
     CollTask_default\<lparr>ct_func := Send, ct_send_buf := buffer, ct_recv_buf := NullPtr, ct_count := cnt,
       ct_dtype := dtype, ct_peer := peer\<rparr>"

definition Recv_task :: "ptr \<Rightarrow> nat \<Rightarrow> DataType \<Rightarrow> int \<Rightarrow> CollTask" where
  "Recv_task buffer cnt dtype peer =
     CollTask_default\<lparr>ct_func := Recv, ct_send_buf := NullPtr, ct_recv_buf := buffer, ct_count := cnt,
       ct_dtype := dtype, ct_peer := peer\<rparr>"

subsection \<open>Finalize\<close>

text \<open>\<open>if (conn.transport) { conn.transport->Close(); conn.transport.reset(); }\<close> over a list of connectors.\<close>

definition close_connectors :: "'e net_ops \<Rightarrow> Connector list \<Rightarrow> 'e \<Rightarrow> 'e" where
  "close_connectors ops cs e = fold (\<lambda>c. drop_transport ops (cn_transport c)) cs e"

definition close_channel :: "'e net_ops \<Rightarrow> Channel \<Rightarrow> 'e \<Rightarrow> 'e" where
  "close_channel ops ch e =
     close_connectors ops (ch_recv_p2p ch) (close_connectors ops (ch_send_p2p ch)
       (close_connectors ops (ch_recv ch) (close_connectors ops (ch_send ch) e)))"

text \<open>Executors and the bootstrap listener, which go first.\<close>

definition shut_down :: "'e os_net \<Rightarrow> 'e exec_ops \<Rightarrow> Comm \<Rightarrow> 'e \<Rightarrow> 'e" where
  "shut_down os ex comm e =
     (let e1 = (case cm_dynamic_executor comm of None \<Rightarrow> e | Some k \<Rightarrow> eo_shutdown ex k e);
          e2 = (case cm_executor comm of None \<Rightarrow> e1 | Some k \<Rightarrow> eo_shutdown ex k e1)
      in if cm_bootstrap_listen_fd comm \<ge> 0 then os_close os (cm_bootstrap_listen_fd comm) e2 else e2)"

definition Finalize :: "'e net_ops \<Rightarrow> 'e os_net \<Rightarrow> 'e exec_ops \<Rightarrow> Comm \<times> 'e \<Rightarrow> Comm \<times> 'e" where
  "Finalize ops os ex s =
     (let comm = fst s;
          e1 = fold (close_channel ops) (cm_channels comm) (shut_down os ex comm (snd s));
          e2 = fold (no_close ops) (cm_p2p_listeners comm) e1
      in (comm\<lparr>cm_dynamic_executor := None,
               cm_dynamic_available := (cm_dynamic_executor comm = None \<and> cm_dynamic_available comm),
               cm_bootstrap_listen_fd := (if cm_bootstrap_listen_fd comm \<ge> 0 then -1 else cm_bootstrap_listen_fd comm),
               cm_channels := [], cm_pending_tasks := [], cm_group_depth := 0, cm_p2p_listeners := [],
               cm_all_nodes := []\<rparr>, e2))"

definition GetUniqueId :: "'e host_ops \<Rightarrow> Comm \<times> 'e \<Rightarrow> (byte list \<times> 16 word) option \<times> Comm \<times> 'e" where
  "GetUniqueId ho s =
     (if cm_bootstrap_listen_fd (fst s) \<ge> 0 then (None, s)
      else (case ho_create_listen ho (snd s) of
        (fd, port, e) \<Rightarrow>
          let comm = (fst s)\<lparr>cm_bootstrap_listen_fd := fd\<rparr> in
          if fd < 0 then (None, comm, e) else (Some (take 63 (ho_local_ip ho e), port), comm, e)))"

subsection \<open>Init\<close>

definition vec_resize :: "nat \<Rightarrow> 'a \<Rightarrow> 'a list \<Rightarrow> 'a list" where
  "vec_resize n d xs = take n xs @ replicate (n - length xs) d"

definition Connector_default :: Connector where
  "Connector_default = \<lparr>cn_peer = -1, cn_channel_id = -1, cn_is_send = False, cn_transport = 0\<rparr>"

definition init_connectors :: "int \<Rightarrow> bool \<Rightarrow> nat \<Rightarrow> Connector list \<Rightarrow> Connector list" where
  "init_connectors channel_id is_send ws cs =
     map (\<lambda>p. (vec_resize ws Connector_default cs ! p)\<lparr>cn_peer := int p, cn_channel_id := channel_id, cn_is_send := is_send\<rparr>)
       [0..<ws]"

definition init_channels :: "nat \<Rightarrow> nat \<Rightarrow> Channel list \<Rightarrow> Channel list" where
  "init_channels n ws chs =
     map (\<lambda>i. let ch = vec_resize n Channel_default chs ! i in
        ch\<lparr>ch_id := int i, ch_send := init_connectors (int i) True ws (ch_send ch),
           ch_recv := init_connectors (int i) False ws (ch_recv ch)\<rparr>) [0..<n]"

text \<open>A new transport of the given kind that listens: the handle and the port, if it does.\<close>

definition open_listener ::
  "'e net_ops \<Rightarrow> 'e host_ops \<Rightarrow> TransportKind \<Rightarrow> byte list \<Rightarrow> 'e \<Rightarrow> (transport_ref \<times> 16 word) option \<times> 'e" where
  "open_listener ops ho kind addr e =
     (case no_new ops kind e of (tr, e1) \<Rightarrow>
        (case ho_listen ho tr addr e1 of
           (None, e2) \<Rightarrow> (None, no_close ops tr e2)
         | (Some port, e2) \<Rightarrow> (Some (tr, port), e2)))"

text \<open>The RDMA listener (0 if there is none) and the node record that announces it.\<close>

definition open_rdma :: "'e net_ops \<Rightarrow> 'e host_ops \<Rightarrow> NodeInfo \<Rightarrow> 'e \<Rightarrow> transport_ref \<times> NodeInfo \<times> 'e" where
  "open_rdma ops ho node e =
     (if \<not> enabled ho ''OCCL_DISABLE_RDMA'' then (0, node, e)
      else (case no_new ops KindRDMA e of (tr, e1) \<Rightarrow>
        (case ho_probe ho e1 of
           (None, e2) \<Rightarrow> (0, node, no_close ops tr e2)
         | (Some addr, e2) \<Rightarrow>
             (case ho_listen ho tr addr e2 of
                (None, e3) \<Rightarrow> (0, node, no_close ops tr e3)
              | (Some port, e3) \<Rightarrow> (tr, node\<lparr>ni_rdma_addr := addr, ni_rdma_port := port\<rparr>, e3)))))"

text \<open>The shared-memory rendezvous listener (0 if shared memory is off); \<^term>\<open>None\<close> is \<open>return false\<close>.\<close>

definition open_rendezvous :: "'e net_ops \<Rightarrow> 'e host_ops \<Rightarrow> Comm \<Rightarrow> 'e \<Rightarrow> transport_ref option \<times> 'e" where
  "open_rendezvous ops ho comm e =
     (if \<not> cm_use_shm comm then (Some 0, e)
      else (case ho_mkdir ho kRendezvousDir e of
        (False, e1) \<Rightarrow> (None, e1)
      | (True, e1) \<Rightarrow>
          (case open_listener ops ho KindShm (RendezvousPath (cm_unique_port comm) (cm_rank comm)) e1 of
             (None, e2) \<Rightarrow> (None, e2)
           | (Some (tr, _), e2) \<Rightarrow> (Some tr, e2))))"

text \<open>The P2P listeners go into \<open>p2p_listeners_\<close>; only the RDMA one may be missing.\<close>

definition add_p2p_listener :: "transport_ref \<Rightarrow> Comm \<Rightarrow> Comm" where
  "add_p2p_listener tr comm = comm\<lparr>cm_p2p_listeners := cm_p2p_listeners comm @ [tr]\<rparr>"

definition open_p2p_rdma ::
  "'e net_ops \<Rightarrow> 'e host_ops \<Rightarrow> transport_ref \<Rightarrow> Comm \<Rightarrow> NodeInfo \<Rightarrow> 'e \<Rightarrow> Comm \<times> NodeInfo \<times> 'e" where
  "open_p2p_rdma ops ho rdma_listener comm node e =
     (if rdma_listener = 0 then (comm, node, e)
      else (case open_listener ops ho KindRDMAZc (ni_rdma_addr node) e of
        (None, e1) \<Rightarrow> (comm, node, e1)
      | (Some (tr, port), e1) \<Rightarrow> (add_p2p_listener tr comm, node\<lparr>ni_p2p_rdma_port := port\<rparr>, e1)))"

definition open_p2p_listeners ::
  "'e net_ops \<Rightarrow> 'e host_ops \<Rightarrow> transport_ref \<Rightarrow> Comm \<Rightarrow> NodeInfo \<Rightarrow> 'e \<Rightarrow> bool \<times> Comm \<times> NodeInfo \<times> 'e" where
  "open_p2p_listeners ops ho rdma_listener comm node e =
     (case open_listener ops ho KindTCP [] e of
        (None, e1) \<Rightarrow> (False, comm, node, e1)
      | (Some (tr, port), e1) \<Rightarrow>
          let comm1 = add_p2p_listener tr comm; node1 = node\<lparr>ni_p2p_port := port\<rparr> in
          if \<not> cm_use_shm comm then (True, open_p2p_rdma ops ho rdma_listener comm1 node1 e1)
          else (case open_listener ops ho KindShm
                       (RendezvousPath (cm_unique_port comm) (cm_rank comm) @ chars ''.p2p'') e1 of
            (None, e2) \<Rightarrow> (False, comm1, node1, e2)
          | (Some (tr2, _), e2) \<Rightarrow>
              (True, open_p2p_rdma ops ho rdma_listener (add_p2p_listener tr2 comm1) node1 e2)))"

definition Bootstrap_Run :: "'e os_net \<Rightarrow> CommConfig \<Rightarrow> NodeInfo \<Rightarrow> int \<Rightarrow> 'e \<Rightarrow> NodeInfo list option \<times> 'e" where
  "Bootstrap_Run os cfg local_node listen_fd e =
     (if cc_rank cfg = 0 then RunMaster os (cc_world_size cfg) local_node listen_fd e
      else RunWorker os (cc_unique_ip cfg) (cc_unique_port cfg) local_node e)"

text \<open>
  After the bootstrap: the network of the data plane, the listeners that stay open for it, and the
  placement of the rank.
\<close>

definition rdma_ready_of :: "transport_ref \<Rightarrow> NodeInfo list \<Rightarrow> bool" where
  "rdma_ready_of rdma_listener nodes \<longleftrightarrow> rdma_listener \<noteq> 0 \<and> list_all (\<lambda>n. ni_rdma_port n \<noteq> 0) nodes"

definition data_listeners :: "bool \<Rightarrow> bool \<Rightarrow> transport_ref \<Rightarrow> transport_ref \<Rightarrow> transport_ref \<Rightarrow> transport_ref list" where
  "data_listeners use_shm rdma_ready shm_listener rdma_listener tcp_listener =
     (if use_shm then [shm_listener] else []) @ [if rdma_ready then rdma_listener else tcp_listener]"

definition wire_comm :: "'e host_ops \<Rightarrow> NodeInfo list \<Rightarrow> bool \<Rightarrow> Comm \<Rightarrow> 'e \<Rightarrow> Comm" where
  "wire_comm ho nodes rdma_ready comm e =
     (let pc = place_rank nodes (cm_rank comm) (cm_world_size comm);
          n_channels = int (length (cm_channels comm));
          (chs, roles) = Tree_FillChannels pc (Ring_FillChannels (cm_rank comm) (cm_world_size comm) (cm_channels comm));
          dynamic = enabled ho ''OCCL_DISABLE_DYNAMIC''
      in comm\<lparr>cm_all_nodes := nodes, cm_rdma_ready := rdma_ready, cm_placement := pc, cm_channels := chs, cm_tree_roles := roles,
           cm_executor := Some (MakeExecutor ho (pc_local_size pc) (pc_local_rank pc) n_channels e),
           cm_dynamic_executor := (if dynamic then Some (DynamicMultiThread (pc_local_rank pc * n_channels)) else cm_dynamic_executor comm),
           cm_dynamic_available := (dynamic \<or> cm_dynamic_available comm)\<rparr>)"

definition init_network ::
  "'e net_ops \<Rightarrow> 'e os_net \<Rightarrow> 'e host_ops \<Rightarrow> bool list \<Rightarrow> CommConfig \<Rightarrow> transport_ref \<Rightarrow> transport_ref \<Rightarrow> transport_ref \<Rightarrow>
   NodeInfo \<Rightarrow> Comm \<Rightarrow> 'e \<Rightarrow> (bool \<times> Comm \<times> 'e) option" where
  "init_network ops os ho sched cfg tcp_listener rdma_listener shm_listener node comm e =
     (let drop_all = (\<lambda>e. drop_transport ops tcp_listener (drop_transport ops rdma_listener (drop_transport ops shm_listener e))) in
      case open_p2p_listeners ops ho rdma_listener comm node e of
        (False, comm1, _, e1) \<Rightarrow> Some (False, comm1, drop_all e1)
      | (True, comm1, node1, e1) \<Rightarrow>
          (case Bootstrap_Run os cfg node1 (cm_bootstrap_listen_fd comm1) e1 of
             (None, e2) \<Rightarrow> Some (False, comm1, drop_all e2)
           | (Some nodes, e2) \<Rightarrow>
               if nat (cm_rank comm1) \<ge> length nodes \<or> cm_rank comm1 < 0 then None
               else
                 let rdma_ready = rdma_ready_of rdma_listener nodes;
                     e3 = (if rdma_ready then no_close ops tcp_listener e2 else drop_transport ops rdma_listener e2);
                     comm2 = wire_comm ho nodes rdma_ready comm1 e3;
                     e4 = ho_pin ho (pc_local_rank (cm_placement comm2)) e3
                 in InitChannels ops sched
                      (data_listeners (cm_use_shm comm2) rdma_ready shm_listener rdma_listener tcp_listener) (comm2, e4)))"

definition Init ::
  "'e net_ops \<Rightarrow> 'e os_net \<Rightarrow> 'e host_ops \<Rightarrow> bool list \<Rightarrow> CommConfig \<Rightarrow> Comm \<times> 'e \<Rightarrow> (bool \<times> Comm \<times> 'e) option" where
  "Init ops os ho sched cfg s =
     (if cc_world_size cfg < 0 then None
      else
        let n_channels = (if cc_n_channels cfg > 0 then cc_n_channels cfg else kDefaultChannelCount);
            ws = cc_world_size cfg;
            comm = (fst s)\<lparr>cm_rank := cc_rank cfg, cm_world_size := ws, cm_cfg_n_channels := cc_n_channels cfg,
              cm_unique_port := cc_unique_port cfg,
              cm_channels := P2p_FillChannels ws (init_channels (nat n_channels) (nat ws) (cm_channels (fst s))),
              cm_use_shm := enabled ho ''OCCL_DISABLE_SHM''\<rparr>;
            e = snd s
        in if ws \<le> 1 then
             let pc = (cm_placement comm)\<lparr>pc_local_rank := 0, pc_local_size := 1, pc_local_ranks := [0], pc_is_single_machine := True\<rparr>;
                 e1 = ho_pin ho 0 e
             in Some (True, comm\<lparr>cm_placement := pc, cm_executor := Some (MakeExecutor ho 1 0 n_channels e1)\<rparr>, e1)
           else (case open_listener ops ho KindTCP [] e of
             (None, e1) \<Rightarrow> Some (False, comm, e1)
           | (Some (tcp_listener, data_port), e1) \<Rightarrow>
               let node = NodeInfo_default\<lparr>ni_rank := cc_rank cfg, ni_ip_addr := ho_local_ip ho e1, ni_data_port := data_port,
                     ni_hostname := ho_hostname ho e1\<rparr> in
               (case open_rdma ops ho node e1 of
                  (rdma_listener, node1, e2) \<Rightarrow>
                    (case open_rendezvous ops ho comm e2 of
                       (None, e3) \<Rightarrow> Some (False, comm, drop_transport ops tcp_listener (drop_transport ops rdma_listener e3))
                     | (Some shm_listener, e3) \<Rightarrow>
                         init_network ops os ho sched cfg tcp_listener rdma_listener shm_listener node1 comm e3))))"

end
