(* ===== verification/Occl_Connect_Correct.thy ===== *)
theory Occl_Connect_Correct
  imports Occl_Connect "HOL-Library.Multiset"
begin

section \<open>Correctness of the data-plane setup\<close>

text \<open>
  Which connectors \<open>InitChannels\<close> fills, and that the handshakes the ranks send match, edge for edge, the
  connections the other ranks wait for.
\<close>

subsection \<open>Connectors under binding\<close>

definition connector_bound :: "Comm \<Rightarrow> int \<times> int \<times> bool \<Rightarrow> bool" where
  "connector_bound comm k =
     (case k of (c, p, s) \<Rightarrow> (case FindConnector comm c p s of None \<Rightarrow> False | Some conn \<Rightarrow> cn_transport conn \<noteq> 0))"

definition connectors :: "Channel \<Rightarrow> bool \<Rightarrow> Connector list" where
  "connectors ch s = (if s then ch_send ch else ch_recv ch)"

lemma FindConnector_eq:
  "FindConnector comm c p s =
     (if 0 \<le> c \<and> nat c < length (cm_channels comm) \<and> 0 \<le> p \<and> nat p < length (connectors (cm_channels comm ! nat c) s)
      then Some (connectors (cm_channels comm ! nat c) s ! nat p) else None)"
  by (auto simp: FindConnector_def SendConnector_def RecvConnector_def connectors_def Let_def)

lemma bind_connector_channel:
  "i < length (cm_channels comm) \<Longrightarrow> connectors (cm_channels (bind_connector c p s tr comm) ! i) s' =
     (if i = nat c \<and> s' = s then set_transport tr (nat p) (connectors (cm_channels comm ! i) s')
      else connectors (cm_channels comm ! i) s')"
  "length (cm_channels (bind_connector c p s tr comm)) = length (cm_channels comm)"
  by (cases "i = nat c"; auto simp: bind_connector_def connectors_def Let_def) (simp add: bind_connector_def Let_def)

lemma FindConnector_bind:
  assumes "FindConnector comm c p s = Some conn"
  shows "FindConnector (bind_connector c p s tr comm) c' p' s' =
    (if (c', p', s') = (c, p, s) then Some (conn\<lparr>cn_transport := tr\<rparr>) else FindConnector comm c' p' s')"
proof -
  have c: "0 \<le> c" "nat c < length (cm_channels comm)" "0 \<le> p" "nat p < length (connectors (cm_channels comm ! nat c) s)"
    "conn = connectors (cm_channels comm ! nat c) s ! nat p"
    using assms by (auto simp: FindConnector_eq split: if_splits)
  show ?thesis
  proof (cases "c' = c \<and> s' = s")
    case True
    then show ?thesis using c by (auto simp: FindConnector_eq bind_connector_channel set_transport_def nth_list_update)
  next
    case False
    then show ?thesis using c(1) by (auto simp: FindConnector_eq bind_connector_channel eq_nat_nat_iff)
  qed
qed

lemma connector_bound_bind:
  assumes "FindConnector comm c p s = Some conn" and "tr \<noteq> 0"
  shows "connector_bound (bind_connector c p s tr comm) k \<longleftrightarrow> k = (c, p, s) \<or> connector_bound comm k"
  using assms(2) by (cases k) (auto simp: connector_bound_def FindConnector_bind [OF assms(1)])

definition edge_key :: "ChannelEdge \<Rightarrow> int \<times> int \<times> bool" where
  "edge_key x = (ce_channel_id x, ce_peer x, ce_is_send x)"

lemma ex_edge_key:
  "(\<exists>x. P x \<and> (c, p, d) = edge_key x) \<longleftrightarrow> P \<lparr>ce_channel_id = c, ce_peer = p, ce_is_send = d\<rparr>"
proof -
  have "x = \<lparr>ce_channel_id = c, ce_peer = p, ce_is_send = d\<rparr>" if "(c, p, d) = edge_key x" for x
    using that by (simp add: edge_key_def)
  moreover have "(c, p, d) = edge_key \<lparr>ce_channel_id = c, ce_peer = p, ce_is_send = d\<rparr>" by (simp add: edge_key_def)
  ultimately show ?thesis by blast
qed

subsection \<open>A network that logs the handshakes\<close>

text \<open>
  \<open>handshakes\<close> lists what the successful 12-byte receives returned; no other operation changes it. Nothing
  is assumed about which connections succeed.
\<close>

locale logged_net =
  fixes ops :: "'e net_ops" and handshakes :: "'e \<Rightarrow> ConnHandshake list"
  assumes log_new: "handshakes (snd (no_new ops kind e)) = handshakes e"
    and log_direction: "handshakes (no_set_direction ops tr d e) = handshakes e"
    and log_connect: "handshakes (snd (no_connect ops tr addr port e)) = handshakes e"
    and log_close: "handshakes (no_close ops tr e) = handshakes e"
    and log_send: "handshakes (snd (no_send ops tr bs e)) = handshakes e"
    and log_accept: "handshakes (snd (no_accept ops l e)) = handshakes e"
    and log_poll: "handshakes (snd (no_poll ops ls e)) = handshakes e"
    and log_recv: "no_recv ops tr 12 e = (Some bs, e') \<Longrightarrow> handshakes e' = handshakes e @ [handshake_of bs]"
begin

lemma log_drop: "handshakes (drop_transport ops tr e) = handshakes e"
  by (simp add: drop_transport_def log_close)

lemma log_attempts: "handshakes (snd (connect_attempts ops tr addr port n e)) = handshakes e"
proof (induction n arbitrary: e)
  case (Suc n)
  have "handshakes e1 = handshakes e" if "no_connect ops tr addr port e = (b, e1)" for b e1
    using log_connect [of tr addr port e] that by simp
  with Suc.IH show ?case by (auto simp: log_close split: prod.splits bool.splits)
qed simp

lemma connect_edge_spec:
  assumes "connect_edge ops x (comm, e) = Some (True, comm', e')" and new_nonnull: "\<And>kind e. fst (no_new ops kind e) \<noteq> 0"
  obtains conn tr where "FindConnector comm (ce_channel_id x) (ce_peer x) (ce_is_send x) = Some conn" and "tr \<noteq> 0"
    and "comm' = bind_connector (ce_channel_id x) (ce_peer x) (ce_is_send x) tr comm" and "handshakes e' = handshakes e"
proof -
  obtain kind addr port where tg: "active_target comm x = (kind, addr, port)" by (cases "active_target comm x") auto
  obtain tr e1 where new: "no_new ops kind e = (tr, e1)" by (cases "no_new ops kind e")
  let ?e = "no_set_direction ops tr (if ce_is_send x then DirSend else DirReceive) e1"
  obtain ok e2 where att: "connect_attempts ops tr addr port kConnectRetryCount ?e = (ok, e2)"
    by (cases "connect_attempts ops tr addr port kConnectRetryCount ?e")
  obtain ok' e3 where snd: "no_send ops tr (handshake_bytes (edge_handshake comm x)) e2 = (ok', e3)"
    by (cases "no_send ops tr (handshake_bytes (edge_handshake comm x)) e2")
  from assms(1) tg new att snd obtain conn where
    "FindConnector comm (ce_channel_id x) (ce_peer x) (ce_is_send x) = Some conn"
    "comm' = bind_connector (ce_channel_id x) (ce_peer x) (ce_is_send x) tr comm" "e' = drop_transport ops (cn_transport conn) e3"
    by (auto simp: connect_edge_def split: if_splits bool.splits option.splits)
  moreover have "tr \<noteq> 0" using new_nonnull [of kind e] new by simp
  moreover have "handshakes e3 = handshakes e"
    using log_send [of tr "handshake_bytes (edge_handshake comm x)" e2] log_new [of kind e] snd new
      log_attempts [of tr addr port kConnectRetryCount ?e] att by (simp add: log_direction)
  ultimately show thesis using that by (simp add: log_drop)
qed

lemma accept_edge_spec:
  assumes "accept_edge ops ls (comm, e) = (True, comm', e')"
  obtains h c p s conn tr where "handshake_target h = (c, p, s)" and "FindConnector comm c p s = Some conn" and "tr \<noteq> 0"
    and "comm' = bind_connector c p s tr comm" and "handshakes e' = handshakes e @ [h]"
proof -
  obtain r e1 where poll: "no_poll ops ls e = (r, e1)" by (cases "no_poll ops ls e")
  from assms poll obtain evs l where r: "r = Some evs" "find (\<lambda>(l, ev). ev \<noteq> NoEvent) (zip ls evs) = Some (l, ReadyEvent)"
    by (auto simp: accept_edge_def split: option.splits prod.splits PollEvent.splits)
  obtain tr e2 where acc: "no_accept ops l e1 = (tr, e2)" by (cases "no_accept ops l e1")
  obtain m e3 where rcv: "no_recv ops tr 12 e2 = (m, e3)" by (cases "no_recv ops tr 12 e2")
  from assms poll r acc rcv obtain bs where m: "m = Some bs" and tr: "tr \<noteq> 0"
    by (auto simp: accept_edge_def split: option.splits if_splits)
  obtain c p s where tg: "handshake_target (handshake_of bs) = (c, p, s)" by (cases "handshake_target (handshake_of bs)")
  from assms poll r acc rcv m tr tg obtain conn where "FindConnector comm c p s = Some conn"
    "comm' = bind_connector c p s tr comm"
    "e' = drop_transport ops (cn_transport conn) (no_set_direction ops tr (if s then DirSend else DirReceive) e3)"
    by (auto simp: accept_edge_def split: option.splits)
  moreover have "handshakes e3 = handshakes e @ [handshake_of bs]"
    using log_recv [OF rcv [unfolded m]] log_accept [of l e1] acc log_poll [of ls e] poll by simp
  ultimately show thesis using that [OF tg _ tr] by (simp add: log_drop log_direction)
qed

text \<open>A successful run binds every edge it connected and every connector a handshake named.\<close>

lemma run_init_bound:
  assumes "run_init ops ls sched xs n (comm, e) = Some (True, comm', e')" and new: "\<And>kind e. fst (no_new ops kind e) \<noteq> 0"
  shows "\<exists>hs. handshakes e' = handshakes e @ hs \<and> length hs = n \<and>
    (\<forall>k. connector_bound comm' k \<longleftrightarrow> connector_bound comm k \<or>
       k \<in> edge_key ` set xs \<or> k \<in> handshake_target ` set hs)"
  using assms(1)
proof (induction "length xs + n" arbitrary: sched xs n comm e rule: less_induct)
  case less
  have acc: ?case if "n = Suc n'" and run: "accept_edge ops ls (comm, e) = (True, s')"
    and rest: "run_init ops ls sc xs n' s' = Some (True, comm', e')" for n' s' sc
  proof -
    obtain c1 e1 where s': "s' = (c1, e1)" by (cases s')
    obtain h c p s conn tr where h: "handshake_target h = (c, p, s)" "FindConnector comm c p s = Some conn" "tr \<noteq> 0"
      "c1 = bind_connector c p s tr comm" "handshakes e1 = handshakes e @ [h]"
      using accept_edge_spec [OF run [unfolded s']] by metis
    from less.hyps [OF _ rest [unfolded s']] that(1) obtain hs where "handshakes e' = handshakes e1 @ hs" "length hs = n'"
      "\<forall>k. connector_bound comm' k \<longleftrightarrow> connector_bound c1 k \<or> k \<in> edge_key ` set xs \<or> k \<in> handshake_target ` set hs"
      by auto
    with h that(1) show ?thesis by (intro exI [of _ "h # hs"]) (auto simp: connector_bound_bind [OF h(2,3)])
  qed
  show ?case
  proof (cases xs)
    case Nil
    show ?thesis
    proof (cases n)
      case 0
      then show ?thesis using less.prems Nil by simp
    next
      case (Suc n')
      then show ?thesis using less.prems Nil acc by (auto split: prod.splits bool.splits)
    qed
  next
    case (Cons x xs')
    show ?thesis
    proof (cases "n \<noteq> 0 \<and> sched \<noteq> [] \<and> \<not> hd sched")
      case True
      then obtain n' where "n = Suc n'" by (cases n) auto
      then show ?thesis using less.prems Cons True acc by (auto split: prod.splits bool.splits)
    next
      case False
      then obtain c1 e1 where run: "connect_edge ops x (comm, e) = Some (True, c1, e1)"
        and rest: "run_init ops ls (tl sched) xs' n (c1, e1) = Some (True, comm', e')"
        using less.prems Cons by (auto split: option.splits prod.splits bool.splits if_splits)
      obtain conn tr where c: "FindConnector comm (ce_channel_id x) (ce_peer x) (ce_is_send x) = Some conn" "tr \<noteq> 0"
        "c1 = bind_connector (ce_channel_id x) (ce_peer x) (ce_is_send x) tr comm" "handshakes e1 = handshakes e"
        using connect_edge_spec [OF run new] by metis
      from less.hyps [OF _ rest] Cons obtain hs where "handshakes e' = handshakes e1 @ hs" "length hs = n"
        "\<forall>k. connector_bound comm' k \<longleftrightarrow> connector_bound c1 k \<or> k \<in> edge_key ` set xs' \<or> k \<in> handshake_target ` set hs"
        by auto
      with c Cons show ?thesis
        by (intro exI [of _ hs]) (auto simp: connector_bound_bind [OF c(1,2)] edge_key_def)
    qed
  qed
qed

end

text \<open>Every network can be watched: the log is a second component of the world.\<close>

definition logging :: "'e net_ops \<Rightarrow> ('e \<times> ConnHandshake list) net_ops" where
  "logging ops = \<lparr>no_new = (\<lambda>k (e, l). case no_new ops k e of (tr, e') \<Rightarrow> (tr, e', l)),
     no_set_direction = (\<lambda>tr d (e, l). (no_set_direction ops tr d e, l)),
     no_connect = (\<lambda>tr addr port (e, l). case no_connect ops tr addr port e of (b, e') \<Rightarrow> (b, e', l)),
     no_close = (\<lambda>tr (e, l). (no_close ops tr e, l)),
     no_send = (\<lambda>tr bs (e, l). case no_send ops tr bs e of (b, e') \<Rightarrow> (b, e', l)),
     no_recv = (\<lambda>tr n (e, l). case no_recv ops tr n e of
        (None, e') \<Rightarrow> (None, e', l) | (Some bs, e') \<Rightarrow> (Some bs, e', l @ [handshake_of bs])),
     no_accept = (\<lambda>tr (e, l). case no_accept ops tr e of (t, e') \<Rightarrow> (t, e', l)),
     no_poll = (\<lambda>ls (e, l). case no_poll ops ls e of (r, e') \<Rightarrow> (r, e', l))\<rparr>"

interpretation logged: logged_net "logging ops" snd for ops
  by unfold_locales (auto simp: logging_def split: prod.splits option.splits)

lemma logging_new: "fst (no_new (logging ops) k e) = fst (no_new ops k (fst e))"
  by (simp add: logging_def split: prod.splits)

subsection \<open>The edges of all ranks\<close>

text \<open>The communicator of rank \<open>r\<close> after both \<open>FillChannels\<close>, as far as \<open>FillPeers\<close> reads it.\<close>

definition base_channel :: "nat \<Rightarrow> Channel" where
  "base_channel i = Channel_default\<lparr>ch_id := int i\<rparr>"

definition wired :: "NodeInfo list \<Rightarrow> nat \<Rightarrow> nat \<Rightarrow> Comm \<Rightarrow> bool" where
  "wired nodes n r comm \<longleftrightarrow> cm_rank comm = int r \<and> cm_world_size comm = int (length nodes) \<and>
     length (cm_channels comm) = n \<and>
     (\<forall>i<n. ch_id (cm_channels comm ! i) = int i \<and>
        ch_ring (cm_channels comm ! i) = ch_ring (wired_channel nodes r (base_channel i)) \<and>
        ch_tree (cm_channels comm ! i) = ch_tree (wired_channel nodes r (base_channel i)))"

definition peer_edge :: "NodeInfo list \<Rightarrow> nat \<Rightarrow> nat \<Rightarrow> nat \<Rightarrow> bool \<Rightarrow> bool" where
  "peer_edge nodes i r p d \<longleftrightarrow> \<lparr>te_peer = int p, te_is_send = d\<rparr> \<in>
     set (Ring_FillPeers (wired_channel nodes r (base_channel i)) @ Tree_FillPeers (wired_channel nodes r (base_channel i)))"

lemma peer_edge_dual:
  assumes "wf_nodes nodes" and "r < length nodes" and "p < length nodes"
  shows "peer_edge nodes i r p d \<longleftrightarrow> peer_edge nodes i p r (\<not> d)"
  using tree_edges_dual [OF assms, of "base_channel i" d] ring_edges_dual [OF assms(2,3), of d "base_channel i"]
  by (simp add: peer_edge_def base_channel_def)

lemma wired_peers:
  assumes "wired nodes n r comm" and "i < n"
  shows "Ring_FillPeers (cm_channels comm ! i) = Ring_FillPeers (wired_channel nodes r (base_channel i))"
    and "Tree_FillPeers (cm_channels comm ! i) = Tree_FillPeers (wired_channel nodes r (base_channel i))"
  using assms by (simp_all add: wired_def Ring_FillPeers_def Tree_FillPeers_def)

lemma TopoEdge_eta: "\<lparr>te_peer = te_peer e, te_is_send = te_is_send e\<rparr> = e"
  by simp

lemma channel_edges_iff:
  assumes "wired nodes n r comm" and "i < n"
  shows "x \<in> set (channel_edges comm (cm_channels comm ! i)) \<longleftrightarrow>
    (\<exists>p d. p < length nodes \<and> p \<noteq> r \<and> peer_edge nodes i r p d \<and> x = \<lparr>ce_channel_id = int i, ce_peer = int p, ce_is_send = d\<rparr>)"
    (is "_ \<longleftrightarrow> ?rhs")
proof -
  let ?P = "set (Ring_FillPeers (wired_channel nodes r (base_channel i))) \<union> set (Tree_FillPeers (wired_channel nodes r (base_channel i)))"
  have c: "cm_rank comm = int r" "cm_world_size comm = int (length nodes)" "ch_id (cm_channels comm ! i) = int i"
    using assms by (auto simp: wired_def)
  have "set (channel_edges comm (cm_channels comm ! i)) =
      (\<lambda>e. \<lparr>ce_channel_id = int i, ce_peer = te_peer e, ce_is_send = te_is_send e\<rparr>) `
        {e \<in> ?P. 0 \<le> te_peer e \<and> te_peer e < int (length nodes) \<and> te_peer e \<noteq> int r}"
    by (auto simp: channel_edges_def Let_def c wired_peers [OF assms] not_less not_le)
  then have "x \<in> set (channel_edges comm (cm_channels comm ! i)) \<longleftrightarrow>
     (\<exists>e \<in> ?P. 0 \<le> te_peer e \<and> te_peer e < int (length nodes) \<and> te_peer e \<noteq> int r \<and>
        x = \<lparr>ce_channel_id = int i, ce_peer = te_peer e, ce_is_send = te_is_send e\<rparr>)" (is "_ \<longleftrightarrow> ?lhs")
    by blast
  also have "?lhs \<longleftrightarrow> ?rhs"
  proof
    assume "?rhs"
    then obtain p d where "p < length nodes" "p \<noteq> r" "peer_edge nodes i r p d"
      "x = \<lparr>ce_channel_id = int i, ce_peer = int p, ce_is_send = d\<rparr>" by blast
    then show "?lhs" by (intro bexI [of _ "\<lparr>te_peer = int p, te_is_send = d\<rparr>"]) (simp_all add: peer_edge_def)
  next
    assume "?lhs"
    then obtain e where e: "e \<in> ?P" "0 \<le> te_peer e" "te_peer e < int (length nodes)" "te_peer e \<noteq> int r"
      "x = \<lparr>ce_channel_id = int i, ce_peer = te_peer e, ce_is_send = te_is_send e\<rparr>" by blast
    then show "?rhs"
      by (intro exI [of _ "nat (te_peer e)"] exI [of _ "te_is_send e"]) (auto simp: peer_edge_def TopoEdge_eta)
  qed
  finally show ?thesis .
qed

lemma distinct_channel_edges: "distinct (channel_edges comm ch)"
proof -
  let ?key = "\<lambda>e :: TopoEdge. (te_peer e, te_is_send e)" and ?xs = "Ring_FillPeers ch @ Tree_FillPeers ch"
  have inj: "inj ?key" by (rule injI) (auto intro: TopoEdge.equality)
  have "distinct (remdups_adj (map ?key (sort_key ?key ?xs)))"
    by (rule distinct_remdups_adj_sorted) simp
  then have "distinct (remdups_adj (sort_key ?key ?xs))"
    by (simp add: remdups_adj_map_injective [OF inj] distinct_map)
  then show ?thesis by (auto simp: channel_edges_def Let_def distinct_map intro!: inj_onI)
qed

lemma all_edges_as_index:
  "concat (map (channel_edges comm) (cm_channels comm)) =
     concat (map (\<lambda>i. channel_edges comm (cm_channels comm ! i)) [0..<length (cm_channels comm)])"
proof -
  have "map (\<lambda>i. channel_edges comm (cm_channels comm ! i)) [0..<length (cm_channels comm)] =
      map (channel_edges comm) (map ((!) (cm_channels comm)) [0..<length (cm_channels comm)])"
    by simp
  then show ?thesis by (simp only: map_nth)
qed

lemma distinct_all_edges:
  assumes "wired nodes n r comm"
  shows "distinct (concat (map (channel_edges comm) (cm_channels comm)))"
proof -
  have n: "length (cm_channels comm) = n" using assms by (simp add: wired_def)
  show ?thesis
    unfolding all_edges_as_index
    by (rule distinct_concat_map) (auto simp: n distinct_channel_edges channel_edges_iff [OF assms])
qed

lemma all_edges_iff:
  assumes "wired nodes n r comm"
  shows "x \<in> set (concat (map (channel_edges comm) (cm_channels comm))) \<longleftrightarrow>
    (\<exists>i p d. i < n \<and> p < length nodes \<and> p \<noteq> r \<and> peer_edge nodes i r p d \<and>
       x = \<lparr>ce_channel_id = int i, ce_peer = int p, ce_is_send = d\<rparr>)"
proof -
  have "length (cm_channels comm) = n" using assms by (simp add: wired_def)
  then show ?thesis unfolding all_edges_as_index by (auto simp: channel_edges_iff [OF assms])
qed

text \<open>The handshakes that all ranks send to rank \<open>b\<close>, if every connection is made.\<close>

definition handshakes_to :: "(nat \<Rightarrow> Comm) \<Rightarrow> nat \<Rightarrow> nat \<Rightarrow> ConnHandshake list" where
  "handshakes_to comms N b =
     concat (map (\<lambda>a. map (edge_handshake (comms a)) (filter (\<lambda>x. ce_peer x = int b) (connect_edges (comms a)))) [0..<N])"

lemma sint_word_of_nat32: "k < 2 ^ 31 \<Longrightarrow> sint (word_of_nat k :: 32 word) = int k"
  by (simp add: signed_of_nat signed_take_bit_int_eq_self)

lemma handshake_targets:
  assumes "\<And>r. r < length nodes \<Longrightarrow> wired nodes n r (comms r)" and "length nodes < 2 ^ 31" and "n < 2 ^ 31"
  shows "map handshake_target (handshakes_to comms (length nodes) b) =
    concat (map (\<lambda>a. map (\<lambda>x. (ce_channel_id x, int a, \<not> ce_is_send x))
      (filter (\<lambda>x. ce_peer x = int b) (connect_edges (comms a)))) [0..<length nodes])"
proof -
  have "handshake_target (edge_handshake (comms a) x) = (ce_channel_id x, int a, \<not> ce_is_send x)"
    if a: "a < length nodes" and x: "x \<in> set (connect_edges (comms a))" for a x
  proof -
    have "cm_rank (comms a) = int a" using assms(1) [OF a] by (simp add: wired_def)
    moreover from x obtain i where "i < n" "ce_channel_id x = int i"
      using all_edges_iff [OF assms(1) [OF a], of x] by (auto simp: connect_edges_def)
    ultimately show ?thesis
      using a assms(2,3) by (simp add: handshake_target_def edge_handshake_def sint_word_of_nat32)
  qed
  then show ?thesis by (auto simp: handshakes_to_def map_concat comp_def intro!: arg_cong [of _ _ concat])
qed

lemma connect_edges_iff:
  assumes "wired nodes n r comm"
  shows "x \<in> set (connect_edges comm) \<longleftrightarrow> (\<exists>i p d. i < n \<and> r < p \<and> p < length nodes \<and> peer_edge nodes i r p d \<and>
    x = \<lparr>ce_channel_id = int i, ce_peer = int p, ce_is_send = d\<rparr>)"
proof -
  have "cm_rank comm = int r" using assms by (simp add: wired_def)
  then show ?thesis using all_edges_iff [OF assms, of x] by (auto simp: connect_edges_def)
qed

lemma accept_edges_iff:
  assumes "wired nodes n r comm" and "r < length nodes"
  shows "x \<in> set (accept_edges comm) \<longleftrightarrow> (\<exists>i p d. i < n \<and> p < r \<and> peer_edge nodes i r p d \<and>
    x = \<lparr>ce_channel_id = int i, ce_peer = int p, ce_is_send = d\<rparr>)"
proof -
  have "cm_rank comm = int r" using assms by (simp add: wired_def)
  moreover have "\<not> r < p \<longleftrightarrow> p < r" if "p \<noteq> r" for p using that by auto
  ultimately show ?thesis using all_edges_iff [OF assms(1), of x] assms(2) by (auto simp: accept_edges_def)
qed

lemma handshakes_match:
  assumes "wf_nodes nodes" and "b < length nodes" and wired: "\<And>r. r < length nodes \<Longrightarrow> wired nodes n r (comms r)"
    and "length nodes < 2 ^ 31" and "n < 2 ^ 31"
  shows "mset (map handshake_target (handshakes_to comms (length nodes) b)) = mset (map edge_key (accept_edges (comms b)))"
proof -
  let ?f = "\<lambda>a. map (\<lambda>x. (ce_channel_id x, int a, \<not> ce_is_send x)) (filter (\<lambda>x. ce_peer x = int b) (connect_edges (comms a)))"
  have mem: "k \<in> set (?f a) \<longleftrightarrow> a < b \<and> (\<exists>i d. i < n \<and> peer_edge nodes i b a d \<and> k = (int i, int a, d))" if "a < length nodes" for a k
  proof
    assume "k \<in> set (?f a)"
    then show "a < b \<and> (\<exists>i d. i < n \<and> peer_edge nodes i b a d \<and> k = (int i, int a, d))"
      using that peer_edge_dual [OF assms(1) that assms(2)] by (auto simp: connect_edges_iff [OF wired])
  next
    assume "a < b \<and> (\<exists>i d. i < n \<and> peer_edge nodes i b a d \<and> k = (int i, int a, d))"
    then obtain i d where i: "a < b" "i < n" "peer_edge nodes i b a d" "k = (int i, int a, d)" by blast
    let ?x = "\<lparr>ce_channel_id = int i, ce_peer = int b, ce_is_send = (\<not> d)\<rparr>"
    have "?x \<in> set (connect_edges (comms a))"
      using i that assms(2) peer_edge_dual [OF assms(1) that assms(2), of i "\<not> d"] by (simp add: connect_edges_iff [OF wired])
    with i(4) show "k \<in> set (?f a)" by (force simp: image_iff)
  qed
  have "distinct (concat (map ?f [0..<length nodes]))"
  proof (rule distinct_concat_map)
    fix a assume "a \<in> set [0..<length nodes]"
    then have "distinct (connect_edges (comms a))"
      using distinct_all_edges [OF wired] by (simp add: connect_edges_def)
    then show "distinct (?f a)" by (auto simp: distinct_map intro!: inj_onI)
  qed (auto simp: mem)
  moreover have "distinct (map edge_key (accept_edges (comms b)))"
    using distinct_all_edges [OF wired [OF assms(2)]]
    by (auto simp: accept_edges_def distinct_map edge_key_def intro!: inj_onI)
  moreover have "set (concat (map ?f [0..<length nodes])) = set (map edge_key (accept_edges (comms b)))"
  proof (rule set_eqI)
    fix k
    have "k \<in> set (concat (map ?f [0..<length nodes])) \<longleftrightarrow> (\<exists>a<length nodes. k \<in> set (?f a))"
      by (simp only: set_concat set_map set_upt) auto
    also have "\<dots> \<longleftrightarrow> (\<exists>a<length nodes. a < b \<and> (\<exists>i d. i < n \<and> peer_edge nodes i b a d \<and> k = (int i, int a, d)))"
      by (intro ex_cong1 conj_cong refl mem)
    also have "\<dots> \<longleftrightarrow> (\<exists>a i d. a < b \<and> i < n \<and> peer_edge nodes i b a d \<and> k = (int i, int a, d))"
      using assms(2) by auto
    also have "\<dots> \<longleftrightarrow> (\<exists>x. x \<in> set (accept_edges (comms b)) \<and> k = edge_key x)"
      by (cases k) (auto simp: ex_edge_key accept_edges_iff [OF wired [OF assms(2)] assms(2)])
    finally show "k \<in> set (concat (map ?f [0..<length nodes])) \<longleftrightarrow> k \<in> set (map edge_key (accept_edges (comms b)))"
      by (simp only: set_map image_iff Bex_def)
  qed
  ultimately have "mset (concat (map ?f [0..<length nodes])) = mset (map edge_key (accept_edges (comms b)))"
    by (simp only: set_eq_iff_mset_eq_distinct)
  moreover have "map handshake_target (handshakes_to comms (length nodes) b) = concat (map ?f [0..<length nodes])"
    by (rule handshake_targets) (fact assms(3-5))+
  ultimately show ?thesis by (simp only:)
qed

text \<open>What a successful \<open>InitChannels\<close> logs and binds, from any log.\<close>

lemma InitChannels_binds:
  assumes "wf_nodes nodes" and "b < length nodes" and wired: "\<And>r. r < length nodes \<Longrightarrow> wired nodes n r (comms r)"
    and "length nodes < 2 ^ 31" and "n < 2 ^ 31" and new: "\<And>kind e. fst (no_new ops kind e) \<noteq> 0"
    and fresh: "\<And>k. \<not> connector_bound (comms b) k"
    and run: "InitChannels (logging ops) sched ls (comms b, e, l) = Some (True, comm', e', l')"
  obtains hs where "l' = l @ hs" and "length hs = length (handshakes_to comms (length nodes) b)"
    and "mset hs = mset (handshakes_to comms (length nodes) b) \<Longrightarrow>
      (connector_bound comm' (c, p, d) \<longleftrightarrow> (\<exists>i q. c = int i \<and> p = int q \<and> i < n \<and> q < length nodes \<and> q \<noteq> b \<and>
        peer_edge nodes i b q d))"
proof -
  note w = wired [OF assms(2)] and match = handshakes_match [OF assms(1-5)]
  have new': "fst (no_new (logging ops) kind e) \<noteq> 0" for kind e by (simp add: logging_new new)
  from run obtain e1 where
    "run_init (logging ops) ls sched (connect_edges (comms b)) (length (accept_edges (comms b))) (comms b, e, l) = Some (True, comm', e1)"
    and e1: "fold (no_close (logging ops)) ls e1 = (e', l')"
    by (auto simp: InitChannels_def)
  from logged.run_init_bound [OF this(1) new'] obtain hs where hs: "snd e1 = l @ hs" "length hs = length (accept_edges (comms b))"
    and bound: "\<forall>k. connector_bound comm' k \<longleftrightarrow>
      k \<in> edge_key ` set (connect_edges (comms b)) \<or> k \<in> handshake_target ` set hs"
    by (simp only: fresh snd_conv) blast
  have "snd (fold (no_close (logging ops)) xs s) = snd s" for xs s
    by (induction xs arbitrary: s) (auto simp: logged.log_close)
  with e1 hs(1) have "l' = l @ hs" by (metis snd_conv)
  moreover have "length hs = length (handshakes_to comms (length nodes) b)"
    using hs(2) arg_cong [OF match, of size] by simp
  moreover have "connector_bound comm' (c, p, d) \<longleftrightarrow> (\<exists>i q. c = int i \<and> p = int q \<and> i < n \<and> q < length nodes \<and> q \<noteq> b \<and>
      peer_edge nodes i b q d)" if received: "mset hs = mset (handshakes_to comms (length nodes) b)"
  proof -
    have "handshake_target ` set hs = edge_key ` set (accept_edges (comms b))"
      using received match by (metis mset_eq_setD set_map)
    moreover have "set (connect_edges (comms b)) \<union> set (accept_edges (comms b)) =
        set (concat (map (channel_edges (comms b)) (cm_channels (comms b))))"
      by (auto simp: connect_edges_def accept_edges_def)
    ultimately have "connector_bound comm' (c, p, d) \<longleftrightarrow>
        (c, p, d) \<in> edge_key ` set (concat (map (channel_edges (comms b)) (cm_channels (comms b))))"
      using bound by (metis image_Un Un_iff)
    also have "\<dots> \<longleftrightarrow> (\<exists>x. x \<in> set (concat (map (channel_edges (comms b)) (cm_channels (comms b)))) \<and> (c, p, d) = edge_key x)"
      by blast
    also have "\<dots> \<longleftrightarrow> (\<exists>i q. c = int i \<and> p = int q \<and> i < n \<and> q < length nodes \<and> q \<noteq> b \<and> peer_edge nodes i b q d)"
      unfolding ex_edge_key all_edges_iff [OF w] by auto
    finally show ?thesis .
  qed
  ultimately show thesis by (rule that)
qed

subsection \<open>Properties\<close>

text \<open>
  C8. The connections the ranks set up match. Every rank computes its edges alone, from the common node table;
  the handshakes that the lower ranks send to rank \<open>b\<close> name, one for one, the connectors that \<open>b\<close> waits to
  fill: its accept loop runs exactly as often as peers connect to it, and every accepted connection finds
  its connector.
\<close>

theorem handshakes_match_accepts:
  assumes "wf_nodes nodes" and "b < length nodes" and wired: "\<And>r. r < length nodes \<Longrightarrow> wired nodes n r (comms r)"
    and "length nodes < 2 ^ 31" and "n < 2 ^ 31"
  shows "mset (map handshake_target (handshakes_to comms (length nodes) b)) = mset (map edge_key (accept_edges (comms b)))"
  by (rule handshakes_match [OF assms])


text \<open>
  Two ranks on one machine with one channel. Rank 0 connects both directions, rank 1 accepts them: its
  network hands out the messages of a list, one per accepted connection.
\<close>

definition pair_nodes :: "NodeInfo list" where
  "pair_nodes = take 2 demo_nodes"

definition pair_comm :: "nat \<Rightarrow> Comm" where
  "pair_comm r =
     \<lparr>cm_rank = int r, cm_world_size = 2, cm_cfg_n_channels = 1,
      cm_channels = [(wired_channel pair_nodes r (base_channel 0))\<lparr>
        ch_send := map (\<lambda>p. \<lparr>cn_peer = int p, cn_channel_id = 0, cn_is_send = True, cn_transport = 0\<rparr>) [0, 1],
        ch_recv := map (\<lambda>p. \<lparr>cn_peer = int p, cn_channel_id = 0, cn_is_send = False, cn_transport = 0\<rparr>) [0, 1]\<rparr>],
      cm_all_nodes = pair_nodes, cm_use_shm = True, cm_rdma_ready = False, cm_dynamic_available = False,
      cm_group_depth = 0, cm_pending_tasks = [], cm_p2p_listeners = [], cm_unique_port = 0,
      cm_placement = place_rank pair_nodes (int r) 2, cm_executor = Some Epoll, cm_dynamic_executor = None,
      cm_bootstrap_listen_fd = -1, cm_tree_roles = []\<rparr>"

definition mailbox_net :: "byte list list net_ops" where
  "mailbox_net = \<lparr>no_new = (\<lambda>_ e. (9, e)), no_set_direction = (\<lambda>_ _ e. e), no_connect = (\<lambda>_ _ _ e. (True, e)),
     no_close = (\<lambda>_ e. e), no_send = (\<lambda>_ _ e. (True, e)),
     no_recv = (\<lambda>_ _ e. case e of [] \<Rightarrow> (None, []) | m # ms \<Rightarrow> (Some m, ms)),
     no_accept = (\<lambda>_ e. (length e, e)), no_poll = (\<lambda>ls e. (Some (map (\<lambda>_. ReadyEvent) ls), e))\<rparr>"

lemma pair_nodes_wf: "wf_nodes pair_nodes" "length pair_nodes = 2"
  by (auto simp: pair_nodes_def demo_nodes_def wf_nodes_def less_Suc_eq numeral_eq_Suc)

lemma pair_wired: "wired pair_nodes 1 r (pair_comm r)"
  by (simp add: wired_def pair_comm_def pair_nodes_wf wired_channel_tree wired_channel_ring base_channel_def)
    (simp add: wired_channel_def Tree_FillChannels_def Ring_FillChannels_def)

lemma pair_fresh: "\<not> connector_bound (pair_comm r) k"
  by (cases k) (auto simp: connector_bound_def FindConnector_eq connectors_def pair_comm_def nth_Cons' split: if_splits)

lemma pair_edges:
  "connect_edges (pair_comm 0) = [\<lparr>ce_channel_id = 0, ce_peer = 1, ce_is_send = False\<rparr>, \<lparr>ce_channel_id = 0, ce_peer = 1, ce_is_send = True\<rparr>]"
  "connect_edges (pair_comm 1) = []"
  "accept_edges (pair_comm 1) = [\<lparr>ce_channel_id = 0, ce_peer = 0, ce_is_send = False\<rparr>, \<lparr>ce_channel_id = 0, ce_peer = 0, ce_is_send = True\<rparr>]"
  by code_simp+

definition pair_msgs :: "byte list list" where
  "pair_msgs = map (\<lambda>x. handshake_bytes (edge_handshake (pair_comm 0) x)) (rev (connect_edges (pair_comm 0)))"

lemma pair_sent: "handshakes_to pair_comm 2 1 = map (edge_handshake (pair_comm 0)) (connect_edges (pair_comm 0))"
  by (simp add: handshakes_to_def pair_edges pair_edges [unfolded One_nat_def] numeral_2_eq_2)

lemmas pair_simps = pair_nodes_wf pair_edges pair_edges [unfolded One_nat_def] pair_sent pair_sent [unfolded One_nat_def]

lemma pair_run:
  "\<exists>comm'. InitChannels (logging mailbox_net) [] [3] (pair_comm 1, pair_msgs, []) =
     Some (True, comm', [], map handshake_of pair_msgs)"
proof -
  have "map_option (\<lambda>(ok, comm', e', hs). (ok, e', hs)) (InitChannels (logging mailbox_net) [] [3] (pair_comm 1, pair_msgs, [])) =
      Some (True, [], map handshake_of pair_msgs)"
    by code_simp
  then show ?thesis by auto
qed

theorem handshakes_match_accepts_witness:
  "mset (map handshake_target (handshakes_to pair_comm 2 1)) = mset (map edge_key (accept_edges (pair_comm 1))) \<and>
   length (handshakes_to pair_comm 2 1) = 2"
  using handshakes_match_accepts [OF pair_nodes_wf(1) _ pair_wired, of 1]
  by (simp add: pair_simps)


end
