(* ===== verification/Occl_P2p_Correct.thy ===== *)
theory Occl_P2p_Correct
  imports Occl_P2p_Plan
begin

section \<open>Point-to-point planning: theorems\<close>

text \<open>
  A plan that \<open>Planner::Plan\<close> returns contains every P2P task of the group exactly once, in the order
  of the rounds, and every task that moves data is bound to a live transport of its peer, whatever
  the two connection threads' schedule was.
\<close>

subsection \<open>What connection setup changes\<close>

definition p2p_wf :: "Comm \<Rightarrow> bool" where
  "p2p_wf comm \<longleftrightarrow> 2 \<le> length (cm_channels comm) \<and>
     length (ch_send_p2p (cm_channels comm ! 0)) = nat (cm_world_size comm) \<and>
     length (ch_recv_p2p (cm_channels comm ! 1)) = nat (cm_world_size comm)"

text \<open>Only connectors change; well-formedness and existing connections are kept.\<close>

definition p2p_ext :: "Comm \<Rightarrow> Comm \<Rightarrow> bool" where
  "p2p_ext comm comm' \<longleftrightarrow> comm'\<lparr>cm_channels := []\<rparr> = comm\<lparr>cm_channels := []\<rparr> \<and>
     length (cm_channels comm') = length (cm_channels comm) \<and> (p2p_wf comm \<longrightarrow> p2p_wf comm') \<and>
     (\<forall>p. p2p_send_bound comm p \<longrightarrow> p2p_send_bound comm' p) \<and> (\<forall>p. p2p_recv_bound comm p \<longrightarrow> p2p_recv_bound comm' p)"

lemma p2p_ext_refl [simp]: "p2p_ext comm comm"
  by (simp add: p2p_ext_def)

lemma p2p_ext_trans: "p2p_ext a b \<Longrightarrow> p2p_ext b c \<Longrightarrow> p2p_ext a c"
  unfolding p2p_ext_def by auto

lemma p2p_ext_fields:
  assumes "p2p_ext a b"
  shows "cm_rank b = cm_rank a" "cm_world_size b = cm_world_size a" "cm_all_nodes b = cm_all_nodes a"
    "GetNChannels b = GetNChannels a"
proof -
  have "cm_rank (b\<lparr>cm_channels := []\<rparr>) = cm_rank (a\<lparr>cm_channels := []\<rparr>)"
    "cm_world_size (b\<lparr>cm_channels := []\<rparr>) = cm_world_size (a\<lparr>cm_channels := []\<rparr>)"
    "cm_all_nodes (b\<lparr>cm_channels := []\<rparr>) = cm_all_nodes (a\<lparr>cm_channels := []\<rparr>)"
    using assms by (simp_all add: p2p_ext_def)
  then show "cm_rank b = cm_rank a" "cm_world_size b = cm_world_size a" "cm_all_nodes b = cm_all_nodes a" by simp_all
  show "GetNChannels b = GetNChannels a" using assms by (simp add: p2p_ext_def GetNChannels_def)
qed

lemma p2p_wf_channels:
  assumes "p2p_wf comm"
  obtains a b cs where "cm_channels comm = a # b # cs" and "length (ch_send_p2p a) = nat (cm_world_size comm)"
    and "length (ch_recv_p2p b) = nat (cm_world_size comm)"
  using assms by (cases "cm_channels comm"; cases "tl (cm_channels comm)") (auto simp: p2p_wf_def)

lemma bind_send_p2p_ext:
  assumes "p2p_wf comm" and "tr \<noteq> 0" and "k < nat (cm_world_size comm)"
  shows "p2p_ext comm (bind_send_p2p k tr comm)" and "p2p_send_bound (bind_send_p2p k tr comm) (int k)"
proof -
  obtain a b cs where "cm_channels comm = a # b # cs" "length (ch_send_p2p a) = nat (cm_world_size comm)"
    "length (ch_recv_p2p b) = nat (cm_world_size comm)" using p2p_wf_channels [OF assms(1)] .
  then show "p2p_ext comm (bind_send_p2p k tr comm)" "p2p_send_bound (bind_send_p2p k tr comm) (int k)"
    using assms(2,3)
    by (auto simp: p2p_ext_def p2p_wf_def bind_send_p2p_def p2p_send_bound_def p2p_recv_bound_def Let_def nth_list_update)
qed

lemma bind_recv_p2p_ext:
  assumes "p2p_wf comm" and "tr \<noteq> 0" and "k < nat (cm_world_size comm)"
  shows "p2p_ext comm (bind_recv_p2p k tr comm)" and "p2p_recv_bound (bind_recv_p2p k tr comm) (int k)"
proof -
  obtain a b cs where "cm_channels comm = a # b # cs" "length (ch_send_p2p a) = nat (cm_world_size comm)"
    "length (ch_recv_p2p b) = nat (cm_world_size comm)" using p2p_wf_channels [OF assms(1)] .
  then show "p2p_ext comm (bind_recv_p2p k tr comm)" "p2p_recv_bound (bind_recv_p2p k tr comm) (int k)"
    using assms(2,3)
    by (auto simp: p2p_ext_def p2p_wf_def bind_recv_p2p_def p2p_send_bound_def p2p_recv_bound_def Let_def nth_list_update)
qed

lemma p2p_conns:
  assumes "p2p_wf comm"
  shows "send_p2p_of comm = Some (ch_send_p2p (cm_channels comm ! 0))"
    and "recv_p2p_of comm = Some (ch_recv_p2p (cm_channels comm ! 1))"
  using assms by (auto elim!: p2p_wf_channels
      simp: send_p2p_of_def recv_p2p_of_def GetChannel_def kP2pSendChannel_def kP2pRecvChannel_def)

subsection \<open>The calls\<close>

lemma ConnectP2p_ext:
  assumes "p2p_wf comm" and new: "\<And>k e. fst (no_new ops k e) \<noteq> 0"
    and "ConnectP2p ops p (comm, e) = Some (ok, comm', e')"
  shows "p2p_ext comm comm'" and "ok \<Longrightarrow> p2p_send_bound comm' p"
proof -
  have "p2p_ext comm comm' \<and> (ok \<longrightarrow> p2p_send_bound comm' p)"
  proof (cases "P2pUsable comm p \<and> \<not> (p < 0 \<or> nat p \<ge> nat (cm_world_size comm)) \<and>
      cn_transport (ch_send_p2p (cm_channels comm ! 0) ! nat p) = 0")
    case False
    then show ?thesis
      using assms(1,3) by (auto simp: ConnectP2p_def p2p_conns p2p_wf_def p2p_send_bound_def split: if_splits)
  next
    case True
    then have "nat p < nat (cm_world_size comm)" "int (nat p) = p" by linarith+
    note b = bind_send_p2p_ext [OF assms(1) _ this(1), unfolded this(2)]
    show ?thesis
      using assms(1,3) True new b
      by (auto simp: ConnectP2p_def p2p_conns p2p_wf_def split: prod.splits bool.splits if_splits) (metis fst_conv)+
  qed
  then show "p2p_ext comm comm'" "ok \<Longrightarrow> p2p_send_bound comm' p" by blast+
qed

lemma accept_source_ext:
  assumes "p2p_wf comm" and "accept_source ops l (comm, e) = Some (ok, comm', e')"
  shows "p2p_ext comm comm'"
proof -
  obtain tr e1 where ac: "no_accept ops l e = (tr, e1)" by fastforce
  show ?thesis
  proof (cases "tr = 0")
    case True
    then show ?thesis using assms(2) ac by (auto simp: accept_source_def)
  next
    case False
    obtain m e2 where rv: "no_recv ops tr 4 e1 = (m, e2)" by fastforce
    show ?thesis
    proof (cases m)
      case None
      then show ?thesis using assms(2) ac False rv by (auto simp: accept_source_def)
    next
      case (Some bs)
      let ?src = "sint (un_le32 bs)"
      have "0 \<le> ?src" "nat ?src < nat (cm_world_size comm)" "comm' = bind_recv_p2p (nat ?src) tr comm"
        using assms ac False rv Some by (auto simp: accept_source_def p2p_conns p2p_wf_def Let_def split: if_splits)
      then show ?thesis using bind_recv_p2p_ext(1) [OF assms(1) False] by simp
    qed
  qed
qed

lemma accept_ready_ext:
  "accept_ready ops ls (comm, e) = Some (ok, comm', e') \<Longrightarrow> p2p_wf comm \<Longrightarrow> p2p_ext comm comm'"
proof (induction ops ls "(comm, e)" arbitrary: comm e rule: accept_ready.induct)
  case (1 ops)
  then show ?case by simp
next
  case (2 ops l ev ls)
  show ?case
  proof (cases ev)
    case ReadyEvent
    then obtain b c1 e1 where src: "accept_source ops l (comm, e) = Some (b, c1, e1)"
      using 2(3) by (cases "accept_source ops l (comm, e)") auto
    note x = accept_source_ext [OF 2(4) src]
    then have wf: "p2p_wf c1" using 2(4) by (simp add: p2p_ext_def)
    show ?thesis
    proof (cases b)
      case True
      then have "accept_ready ops ls (c1, e1) = Some (ok, comm', e')" using 2(3) ReadyEvent src by simp
      then have "p2p_ext c1 comm'" using 2(2) [OF ReadyEvent src refl _ _ wf] True by blast
      with x show ?thesis by (rule p2p_ext_trans)
    next
      case False
      then show ?thesis using 2(3) ReadyEvent src x by simp
    qed
  qed (use 2 in auto)
qed

lemma accept_until_ext:
  assumes "accept_until ops peer s = Some y" and "p2p_wf (fst s)"
  shows "p2p_ext (fst s) (fst (snd y)) \<and> (fst y \<longrightarrow> p2p_recv_bound (fst (snd y)) peer)"
  using assms
proof (induction rule: accept_until.raw_induct [rotated, consumes 1])
  case (1 f ops peer s y)
  obtain comm e where s: "s = (comm, e)" by fastforce
  show ?case
  proof (cases "p2p_recv_bound comm peer")
    case True
    then show ?thesis using 1(2) s by auto
  next
    case nb: False
    obtain evs e1 where po: "no_poll ops (cm_p2p_listeners comm) e = (evs, e1)" by fastforce
    show ?thesis
    proof (cases evs)
      case None
      then show ?thesis using 1(2) s nb po by auto
    next
      case (Some vs)
      then obtain b c1 e2 where ar: "accept_ready ops (zip (cm_p2p_listeners comm) vs) (comm, e1) = Some (b, c1, e2)"
        using 1(2) s nb po by (cases "accept_ready ops (zip (cm_p2p_listeners comm) vs) (comm, e1)") auto
      note x = accept_ready_ext [OF ar] 
      have wf: "p2p_wf comm" using 1(3) s by simp
      then have x: "p2p_ext comm c1" and wf1: "p2p_wf c1" using x by (auto simp: p2p_ext_def)
      show ?thesis
      proof (cases b)
        case True
        then have "f ops peer (c1, e2) = Some y" using 1(2) s nb po Some ar by simp
        from 1(1) [OF this] wf1 x s show ?thesis by (auto intro: p2p_ext_trans)
      next
        case False
        then show ?thesis using 1(2) s nb po Some ar x by auto
      qed
    qed
  qed
qed

lemma AcceptP2pOne_ext:
  assumes "p2p_wf comm" and "AcceptP2pOne ops p (comm, e) = Some (ok, comm', e')"
  shows "p2p_ext comm comm'" and "ok \<Longrightarrow> p2p_recv_bound comm' p"
  using assms accept_until_ext [of ops p "(comm, e)" "(ok, comm', e')"]
  by (auto simp: AcceptP2pOne_def p2p_conns p2p_recv_bound_def split: if_splits)

lemma run_threads_ext:
  assumes "run_threads ops sched ps qs (comm, e) = Some (ok, comm', e')" and "p2p_wf comm"
    and new: "\<And>k e. fst (no_new ops k e) \<noteq> 0"
  shows "p2p_ext comm comm' \<and> (ok \<longrightarrow> (\<forall>p \<in> set ps. p2p_send_bound comm' p) \<and> (\<forall>q \<in> set qs. p2p_recv_bound comm' q))"
  using assms
proof (induction ops sched ps qs "(comm, e)" arbitrary: comm e rule: run_threads.induct)
  case (1 ops sched)
  then show ?case by simp
next
  case (2 ops sched p ps qs)
  show ?case
  proof (cases "qs \<noteq> [] \<and> sched \<noteq> [] \<and> \<not> hd sched")
    case True
    then obtain b c1 e1 where a: "AcceptP2pOne ops (hd qs) (comm, e) = Some (b, c1, e1)"
      using 2(3) by (cases "AcceptP2pOne ops (hd qs) (comm, e)") auto
    note x = AcceptP2pOne_ext [OF 2(4) a]
    have wf: "p2p_wf c1" using x(1) 2(4) by (simp add: p2p_ext_def)
    show ?thesis
    proof (cases b)
      case b: True
      then have r: "run_threads ops (tl sched) (p # ps) (tl qs) (c1, e1) = Some (ok, comm', e')" using 2(3) True a by simp
      have IH: "p2p_ext c1 comm' \<and> (ok \<longrightarrow> (\<forall>p \<in> set (p # ps). p2p_send_bound comm' p) \<and> (\<forall>q \<in> set (tl qs). p2p_recv_bound comm' q))"
        using 2(1) [OF True a refl _ r wf 2(5)] b by blast
      have "qs = hd qs # tl qs" using True by simp
      moreover have "p2p_recv_bound comm' (hd qs)" using IH x(2) b by (auto simp: p2p_ext_def)
      ultimately show ?thesis using IH x(1) by (metis p2p_ext_trans set_ConsD)
    next
      case False
      then show ?thesis using 2(3) True a x(1) by simp
    qed
  next
    case False
    then obtain b c1 e1 where a: "ConnectP2p ops p (comm, e) = Some (b, c1, e1)"
      using 2(3) by (cases "ConnectP2p ops p (comm, e)") auto
    note x = ConnectP2p_ext [OF 2(4) 2(5) a]
    have wf: "p2p_wf c1" using x(1) 2(4) by (simp add: p2p_ext_def)
    show ?thesis
    proof (cases b)
      case b: True
      then have r: "run_threads ops (tl sched) ps qs (c1, e1) = Some (ok, comm', e')" using 2(3) False a by simp
      have IH: "p2p_ext c1 comm' \<and> (ok \<longrightarrow> (\<forall>p \<in> set ps. p2p_send_bound comm' p) \<and> (\<forall>q \<in> set qs. p2p_recv_bound comm' q))"
        using 2(2) [OF False a refl _ r wf 2(5)] b by blast
      moreover have "p2p_send_bound comm' p" using IH x(2) b by (auto simp: p2p_ext_def)
      ultimately show ?thesis using x(1) by (auto intro: p2p_ext_trans)
    next
      case b: False
      then show ?thesis using 2(3) False a x(1) by auto
    qed
  qed
next
  case (3 ops sched q qs)
  then obtain b c1 e1 where a: "AcceptP2pOne ops q (comm, e) = Some (b, c1, e1)"
    by (cases "AcceptP2pOne ops q (comm, e)") auto
  note x = AcceptP2pOne_ext [OF 3(3) a]
  have wf: "p2p_wf c1" using x(1) 3(3) by (simp add: p2p_ext_def)
  show ?case
  proof (cases b)
    case b: True
    then have r: "run_threads ops (tl sched) [] qs (c1, e1) = Some (ok, comm', e')" using 3(2) a by simp
    have IH: "p2p_ext c1 comm' \<and> (ok \<longrightarrow> (\<forall>p \<in> set []. p2p_send_bound comm' p) \<and> (\<forall>q \<in> set qs. p2p_recv_bound comm' q))"
      using 3(1) [OF a refl _ r wf 3(4)] b by blast
    moreover have "p2p_recv_bound comm' q" using IH x(2) b by (auto simp: p2p_ext_def)
    ultimately show ?thesis using x(1) by (auto intro: p2p_ext_trans)
  next
    case b: False
    then show ?thesis using 3(2) a x(1) by auto
  qed
qed

lemma set_round_peers: "set (round_peers tasks) = ct_peer ` {t \<in> set tasks. ct_count t \<noteq> 0}"
  by (auto simp: round_peers_def)

lemma PrepareRound_ext:
  assumes "PrepareRound ops sched sends recvs (comm, e) = Some (ok, comm', e')" and "p2p_wf comm"
    and new: "\<And>k e. fst (no_new ops k e) \<noteq> 0"
  shows "p2p_ext comm comm'"
    and "ok \<Longrightarrow> t \<in> set sends \<Longrightarrow> ct_count t \<noteq> 0 \<Longrightarrow> p2p_send_bound comm' (ct_peer t)"
    and "ok \<Longrightarrow> t \<in> set recvs \<Longrightarrow> ct_count t \<noteq> 0 \<Longrightarrow> p2p_recv_bound comm' (ct_peer t)"
proof -
  let ?ps = "unconnected (ch_send_p2p (cm_channels comm ! 0)) (round_peers sends)"
  let ?qs = "unconnected (ch_recv_p2p (cm_channels comm ! 1)) (round_peers recvs)"
  from assms(1) p2p_conns [OF assms(2)] obtain sc where "run_threads ops sc ?ps ?qs (comm, e) = Some (ok, comm', e')"
    by (simp add: PrepareRound_def Let_def)
  note r = run_threads_ext [OF this assms(2) new]
  then show ext: "p2p_ext comm comm'" by blast
  show "p2p_send_bound comm' (ct_peer t)" if "ok" "t \<in> set sends" "ct_count t \<noteq> 0"
  proof (cases "p2p_send_bound comm (ct_peer t)")
    case False
    then have "ct_peer t \<in> set ?ps" using that by (auto simp: unconnected_def set_round_peers p2p_send_bound_def)
    then show ?thesis using r that(1) by blast
  qed (use ext in \<open>simp add: p2p_ext_def\<close>)
  show "p2p_recv_bound comm' (ct_peer t)" if "ok" "t \<in> set recvs" "ct_count t \<noteq> 0"
  proof (cases "p2p_recv_bound comm (ct_peer t)")
    case False
    then have "ct_peer t \<in> set ?qs" using that by (auto simp: unconnected_def set_round_peers p2p_recv_bound_def)
    then show ?thesis using r that(1) by blast
  qed (use ext in \<open>simp add: p2p_ext_def\<close>)
qed

subsection \<open>The tasks of a plan\<close>

definition plan_add :: "nat \<Rightarrow> PlanTask list \<Rightarrow> CollPlan \<Rightarrow> CollPlan" where
  "plan_add k S plan = plan\<lparr>pl_channels := (pl_channels plan)
     [k := (pl_channels plan ! k)\<lparr>cp_tasks := cp_tasks (pl_channels plan ! k) @ S\<rparr>]\<rparr>"

lemma plan_add_Nil [simp]: "plan_add k [] plan = plan"
  by (simp add: plan_add_def)

lemma plan_add_add [simp]: "plan_add k T (plan_add k S plan) = plan_add k (S @ T) plan"
  by (cases "k < length (pl_channels plan)") (simp_all add: plan_add_def list_update_beyond)

lemma plan_add_swap: "plan_add 0 T (plan_add (Suc 0) S plan) = plan_add (Suc 0) S (plan_add 0 T plan)"
  by (simp add: plan_add_def list_update_swap)

text \<open>The plan task that stands for a user's P2P task, bound to one live transport if it moves data.\<close>

definition p2p_planned :: "Comm \<Rightarrow> int \<Rightarrow> CollTask \<Rightarrow> PlanTask \<Rightarrow> bool" where
  "p2p_planned comm k task t \<longleftrightarrow>
     t\<lparr>pt_send_transports := [], pt_recv_transports := []\<rparr> = p2p_task comm task k \<and>
     (ct_count task \<noteq> 0 \<longrightarrow> (\<exists>tr. tr \<noteq> 0 \<and>
        pt_send_transports t = (if ct_func task = Send then [tr] else []) \<and>
        pt_recv_transports t = (if ct_func task = Send then [] else [tr])))"

lemma append_p2p_planned:
  assumes "append_p2p comm k task plan = Some plan'" and "p2p_wf comm"
    and "(k = kP2pSendChannel \<and> ct_func task = Send \<and> (ct_count task \<noteq> 0 \<longrightarrow> p2p_send_bound comm (ct_peer task))) \<or>
         (k = kP2pRecvChannel \<and> ct_func task = Recv \<and> (ct_count task \<noteq> 0 \<longrightarrow> p2p_recv_bound comm (ct_peer task)))"
  shows "\<exists>t. p2p_planned comm k task t \<and> plan' = plan_add (nat k) [t] plan"
proof -
  obtain a b cs where chs: "cm_channels comm = a # b # cs" using p2p_wf_channels [OF assms(2)] .
  from assms(1) obtain ch t where "GetChannel comm k = Some ch" and fill: "P2p_FillTransports ch (p2p_task comm task k) = Some t"
    and "push_task plan (nat k) t = Some plan'" by (auto simp: append_p2p_def split: option.splits)
  then have plan': "plan' = plan_add (nat k) [t] plan" and ch: "ch = cm_channels comm ! nat k"
    by (auto simp: push_task_def plan_add_def GetChannel_def split: if_splits)
  have "p2p_planned comm k task t"
    using assms(3) fill ch chs
    by (auto simp: P2p_FillTransports_def p2p_planned_def p2p_task_def Let_def PlanTask_default_def kP2pSendChannel_def
        kP2pRecvChannel_def p2p_send_bound_def p2p_recv_bound_def split: if_splits)
  with plan' show ?thesis by blast
qed

lemma append_loop_planned:
  assumes "for_opt (append_p2p comm k) ts plan = Some plan'" and "p2p_wf comm"
    and "\<And>task. task \<in> set ts \<Longrightarrow>
      (k = kP2pSendChannel \<and> ct_func task = Send \<and> (ct_count task \<noteq> 0 \<longrightarrow> p2p_send_bound comm (ct_peer task))) \<or>
      (k = kP2pRecvChannel \<and> ct_func task = Recv \<and> (ct_count task \<noteq> 0 \<longrightarrow> p2p_recv_bound comm (ct_peer task)))"
  shows "\<exists>S. list_all2 (p2p_planned comm k) ts S \<and> plan' = plan_add (nat k) S plan"
  using assms(1,3)
proof (induction ts arbitrary: plan)
  case Nil
  then show ?case by simp
next
  case (Cons task ts)
  then obtain p1 where a: "append_p2p comm k task plan = Some p1" and r: "for_opt (append_p2p comm k) ts p1 = Some plan'"
    by (auto split: option.splits)
  obtain t where t: "p2p_planned comm k task t" "p1 = plan_add (nat k) [t] plan"
    using append_p2p_planned [OF a assms(2) Cons.prems(2)] by auto
  obtain S where "list_all2 (p2p_planned comm k) ts S" "plan' = plan_add (nat k) S p1"
    using Cons.IH [OF r] Cons.prems(2) by auto
  with t show ?case by (intro exI [of _ "t # S"]) simp
qed

lemma p2p_planned_ext: "p2p_ext comm comm' \<Longrightarrow> p2p_planned comm' k = p2p_planned comm k"
  by (intro ext) (simp add: p2p_planned_def p2p_task_def p2p_ext_fields)

lemma in_round_ext: "p2p_ext comm comm' \<Longrightarrow> in_round comm' = in_round comm"
  by (intro ext) (simp add: in_round_def p2p_ext_fields)

lemma PlanP2pRound_planned:
  assumes "PlanP2pRound ops sched tasks round plan (comm, e) = Some (Some plan', comm', e')" and "p2p_wf comm"
    and new: "\<And>k e. fst (no_new ops k e) \<noteq> 0"
  shows "p2p_ext comm comm' \<and> (\<exists>S R. list_all2 (p2p_planned comm 0) (filter (in_round comm round Send) tasks) S \<and>
    list_all2 (p2p_planned comm 1) (filter (in_round comm round Recv) tasks) R \<and> plan' = plan_add 1 R (plan_add 0 S plan))"
proof (cases "filter (in_round comm round Send) tasks = [] \<and> filter (in_round comm round Recv) tasks = []")
  case True
  then show ?thesis using assms(1) by (auto simp: PlanP2pRound_def Let_def)
next
  case False
  let ?S = "filter (in_round comm round Send) tasks" and ?R = "filter (in_round comm round Recv) tasks"
  from assms(1) False obtain p1 where prep: "PrepareRound ops sched ?S ?R (comm, e) = Some (True, comm', e')"
    and s: "for_opt (append_p2p comm' kP2pSendChannel) ?S plan = Some p1"
    and r: "for_opt (append_p2p comm' kP2pRecvChannel) ?R p1 = Some plan'"
    by (auto simp: PlanP2pRound_def Let_def bind_eq_Some_conv split: option.splits prod.splits bool.splits if_splits)
  note x = PrepareRound_ext [OF prep assms(2) new]
  have wf: "p2p_wf comm'" using x(1) assms(2) by (simp add: p2p_ext_def)
  have "\<exists>S. list_all2 (p2p_planned comm' kP2pSendChannel) ?S S \<and> p1 = plan_add (nat kP2pSendChannel) S plan"
    by (rule append_loop_planned [OF s wf]) (use x(2) in \<open>auto simp: in_round_def\<close>)
  moreover have "\<exists>R. list_all2 (p2p_planned comm' kP2pRecvChannel) ?R R \<and> plan' = plan_add (nat kP2pRecvChannel) R p1"
    by (rule append_loop_planned [OF r wf]) (use x(3) in \<open>auto simp: in_round_def\<close>)
  ultimately show ?thesis using x(1) by (auto simp: p2p_planned_ext kP2pSendChannel_def kP2pRecvChannel_def)
qed

text \<open>The tasks of all rounds, in the order in which they are planned.\<close>

definition round_tasks :: "Comm \<Rightarrow> CollFunc \<Rightarrow> CollTask list \<Rightarrow> int list \<Rightarrow> CollTask list" where
  "round_tasks comm func tasks rounds = concat (map (\<lambda>r. filter (in_round comm r func) tasks) rounds)"

lemma rounds_planned:
  assumes "plan_rounds ops sched tasks rounds plan (comm, e) = Some (Some plan', comm', e')"
    and "p2p_wf comm" and new: "\<And>k e. fst (no_new ops k e) \<noteq> 0"
  shows "p2p_ext comm comm' \<and> (\<exists>S R. list_all2 (p2p_planned comm 0) (round_tasks comm Send tasks rounds) S \<and>
    list_all2 (p2p_planned comm 1) (round_tasks comm Recv tasks rounds) R \<and> plan' = plan_add 1 R (plan_add 0 S plan))"
  using assms(1,2)
proof (induction rounds arbitrary: plan comm e)
  case Nil
  then show ?case by (simp add: round_tasks_def)
next
  case (Cons r rs)
  then obtain p1 c1 e1 where a: "PlanP2pRound ops (sched r) tasks r plan (comm, e) = Some (Some p1, c1, e1)"
    and rest: "plan_rounds ops sched tasks rs p1 (c1, e1) = Some (Some plan', comm', e')"
    by (auto split: option.splits)
  note x = PlanP2pRound_planned [OF a Cons.prems(2) new]
  then have wf: "p2p_wf c1" and x1: "p2p_ext comm c1" using Cons.prems(2) by (auto simp: p2p_ext_def)
  from x obtain S R where sr: "list_all2 (p2p_planned comm 0) (filter (in_round comm r Send) tasks) S"
    "list_all2 (p2p_planned comm 1) (filter (in_round comm r Recv) tasks) R" "p1 = plan_add 1 R (plan_add 0 S plan)" by blast
  from Cons.IH [OF rest wf] obtain S' R' where sr': "p2p_ext c1 comm'"
    "list_all2 (p2p_planned comm 0) (round_tasks comm Send tasks rs) S'"
    "list_all2 (p2p_planned comm 1) (round_tasks comm Recv tasks rs) R'" "plan' = plan_add 1 R' (plan_add 0 S' p1)"
    by (auto simp: p2p_planned_ext [OF x1] in_round_ext [OF x1] round_tasks_def)
  have "plan' = plan_add 1 (R @ R') (plan_add 0 (S @ S') plan)"
    using sr(3) sr'(4) by (simp add: plan_add_swap)
  with sr sr' p2p_ext_trans [OF x1 sr'(1)] show ?case
    by (intro conjI exI [of _ "S @ S'"] exI [of _ "R @ R'"]) (simp_all add: round_tasks_def list_all2_appendI)
qed

lemma mset_rounds:
  assumes "distinct rs"
  shows "mset (concat (map (\<lambda>r. filter (\<lambda>x. P x \<and> f x = r) xs) rs)) = mset (filter (\<lambda>x. P x \<and> f x \<in> set rs) xs)"
  using assms
proof (induction rs)
  case (Cons r rs)
  have "filter_mset (\<lambda>x. P x \<and> f x = r) M + filter_mset (\<lambda>x. P x \<and> f x \<in> set rs) M =
      filter_mset (\<lambda>x. P x \<and> f x \<in> set (r # rs)) M" for M
    using Cons.prems by (induction M) auto
  with Cons show ?case by (simp add: mset_filter)
qed simp

lemma p2p_round_range:
  assumes "ValidateP2p comm t" and "IsP2p (ct_func t)" and "0 \<le> cm_rank comm" and "cm_rank comm < cm_world_size comm"
  shows "P2pRoundOf (ct_func t) (cm_rank comm) (ct_peer t) (cm_world_size comm) \<in> set (map int [1..<nat (cm_world_size comm)])"
proof -
  have p: "0 \<le> ct_peer t" "ct_peer t < cm_world_size comm" "ct_peer t \<noteq> cm_rank comm"
    using assms(1) by (auto simp: ValidateP2p_def Let_def split: if_splits)
  let ?r = "P2pRoundOf (ct_func t) (cm_rank comm) (ct_peer t) (cm_world_size comm)"
  have "1 \<le> ?r \<and> ?r < cm_world_size comm"
    using assms(2-4) p by (auto simp: IsP2p_def P2pRoundOf_Send P2pRoundOf_Recv)
  then have "int (nat ?r) = ?r" "nat ?r \<in> set [1..<nat (cm_world_size comm)]" by auto
  then show ?thesis by (metis image_eqI set_map)
qed

lemma round_tasks_mset:
  assumes "list_all (validate_task comm) tasks" and "func = Send \<or> func = Recv"
    and "0 \<le> cm_rank comm" and "cm_rank comm < cm_world_size comm"
  shows "mset (round_tasks comm func tasks (map int [1..<nat (cm_world_size comm)])) = mset (filter (\<lambda>t. ct_func t = func) tasks)"
proof -
  let ?f = "\<lambda>t. P2pRoundOf func (cm_rank comm) (ct_peer t) (cm_world_size comm)"
  let ?rs = "map int [1..<nat (cm_world_size comm)]"
  have "round_tasks comm func tasks ?rs = concat (map (\<lambda>r. filter (\<lambda>t. ct_func t = func \<and> ?f t = r) tasks) ?rs)"
    by (simp add: round_tasks_def in_round_def [abs_def])
  moreover have "distinct ?rs" by (simp add: distinct_map)
  moreover have "filter (\<lambda>t. ct_func t = func \<and> ?f t \<in> set ?rs) tasks = filter (\<lambda>t. ct_func t = func) tasks"
  proof (rule filter_cong [OF refl])
    fix t assume "t \<in> set tasks"
    then have "validate_task comm t" using assms(1) by (simp add: list_all_iff)
    then show "(ct_func t = func \<and> ?f t \<in> set ?rs) = (ct_func t = func)"
      using p2p_round_range [of comm t] assms(2-4) by (auto simp: validate_task_def IsP2p_def)
  qed
  ultimately show ?thesis using mset_rounds [of ?rs "\<lambda>t. ct_func t = func" ?f tasks] by simp
qed

subsection \<open>Property\<close>

text \<open>
  C16. A static plan is complete for point-to-point: its channels 0 and 1 hold, after the collective slices,
  one plan task per \<open>Send\<close> and per \<open>Recv\<close> of the group, ordered by round and in submission order within a
  round, and each task that moves data is bound to exactly one non-null transport. This holds for every
  schedule of the connect and accept threads.
\<close>

theorem Plan_p2p_complete:
  assumes wf: "p2p_wf comm" and rank: "0 \<le> cm_rank comm" "cm_rank comm < cm_world_size comm"
    and new: "\<And>k e. fst (no_new ops k e) \<noteq> 0"
    and run: "Plan ops sched tasks False (comm, e) = Some (Some plan, comm', e')"
  defines "rounds \<equiv> map int [1..<nat (cm_world_size comm)]"
  shows "\<exists>P S R. for_opt (PlanCollective comm) (filter (\<lambda>t. \<not> IsP2p (ct_func t)) tasks) (CollPlan_new (GetNChannels comm)) = Some P \<and>
    plan = plan_add 1 R (plan_add 0 S P) \<and>
    list_all2 (p2p_planned comm 0) (round_tasks comm Send tasks rounds) S \<and>
    list_all2 (p2p_planned comm 1) (round_tasks comm Recv tasks rounds) R \<and>
    mset (round_tasks comm Send tasks rounds) = mset (filter (\<lambda>t. ct_func t = Send) tasks) \<and>
    mset (round_tasks comm Recv tasks rounds) = mset (filter (\<lambda>t. ct_func t = Recv) tasks)"
proof -
  from run obtain P where P: "for_opt (PlanCollective comm) (filter (\<lambda>t. \<not> IsP2p (ct_func t)) tasks) (CollPlan_new (GetNChannels comm)) = Some P"
    and loop: "plan_rounds ops sched tasks rounds P (comm, e) = Some (Some plan, comm', e')"
    and valid: "list_all (validate_task comm) tasks"
    by (auto simp: Plan_def Let_def bind_eq_Some_conv rounds_def split: if_splits)
  from rounds_planned [OF loop wf new] obtain S R where
    "list_all2 (p2p_planned comm 0) (round_tasks comm Send tasks rounds) S"
    "list_all2 (p2p_planned comm 1) (round_tasks comm Recv tasks rounds) R" "plan = plan_add 1 R (plan_add 0 S P)" by blast
  with P round_tasks_mset [OF valid _ rank] show ?thesis by (auto simp: rounds_def)
qed

text \<open>Rank 0 of 2 sends one element to rank 1; the world hands out handles and accepts everything.\<close>

definition demo_net :: "nat net_ops" where
  "demo_net = \<lparr>no_new = (\<lambda>_ n. (n + 1, n + 1)), no_set_direction = (\<lambda>_ _ n. n), no_connect = (\<lambda>_ _ _ n. (True, n)),
     no_close = (\<lambda>_ n. n), no_send = (\<lambda>_ _ n. (True, n)), no_recv = (\<lambda>_ _ n. (Some (le32 1), n)),
     no_accept = (\<lambda>_ n. (n + 1, n + 1)), no_poll = (\<lambda>ls n. (Some (map (\<lambda>_. ReadyEvent) ls), n))\<rparr>"

definition demo_p2p_comm :: Comm where
  "demo_p2p_comm = (let node = \<lparr>ni_rank = 0, ni_ip_addr = [], ni_data_port = 1, ni_hostname = [], ni_rdma_addr = [],
       ni_rdma_port = 0, ni_p2p_port = 1, ni_p2p_rdma_port = 0\<rparr> in
     \<lparr>cm_rank = 0, cm_world_size = 2, cm_cfg_n_channels = 2,
       cm_channels = P2p_FillChannels 2 [Channel_default, Channel_default\<lparr>ch_id := 1\<rparr>],
       cm_all_nodes = [node, node], cm_use_shm = True, cm_rdma_ready = False, cm_dynamic_available = False,
       cm_group_depth = 0, cm_pending_tasks = [], cm_p2p_listeners = [7], cm_unique_port = 0,
       cm_placement = Placement_default, cm_executor = Some Epoll, cm_dynamic_executor = None, cm_bootstrap_listen_fd = -1, cm_tree_roles = []\<rparr>)"

definition demo_p2p_task :: CollTask where
  "demo_p2p_task = CollTask_default\<lparr>ct_func := Send, ct_send_buf := Mem 0, ct_count := 1, ct_dtype := INT32, ct_peer := 1\<rparr>"

theorem Plan_p2p_complete_witness:
  "\<exists>plan comm' e'. Plan demo_net (\<lambda>_. []) [demo_p2p_task] False (demo_p2p_comm, 10) = Some (Some plan, comm', e') \<and>
     (\<exists>P S R. plan = plan_add 1 R (plan_add 0 S P) \<and>
        list_all2 (p2p_planned demo_p2p_comm 0) (round_tasks demo_p2p_comm Send [demo_p2p_task] [1]) S)"
proof -
  have "\<exists>plan s. Plan demo_net (\<lambda>_. []) [demo_p2p_task] False (demo_p2p_comm, 10) = Some (Some plan, s)"
    by (simp add: Plan_def PlanP2pRound_def PrepareRound_def ConnectP2p_def append_p2p_def validate_task_def ValidateP2p_def
        P2p_FillTransports_def P2p_FillChannels_def push_task_def CollPlan_new_def GetNChannels_def GetChannel_def in_round_def
        P2pRoundOf_Send p2p_use_rdma_def p2p_use_shm_def same_machine_def P2pUsable_def p2p_target_def round_peers_def
        unconnected_def send_p2p_of_def recv_p2p_of_def bind_send_p2p_def p2p_task_def kP2pSendChannel_def kP2pRecvChannel_def
        IsP2p_def SIZE_MAX_def PlanTask_default_def Channel_default_def CollTask_default_def
        demo_net_def demo_p2p_comm_def demo_p2p_task_def Let_def upt_rec numeral_2_eq_2)
  then obtain plan comm' e' where run: "Plan demo_net (\<lambda>_. []) [demo_p2p_task] False (demo_p2p_comm, 10) = Some (Some plan, comm', e')"
    by auto
  have wf: "p2p_wf demo_p2p_comm" by code_simp
  have new: "\<And>k e. fst (no_new demo_net k e) \<noteq> 0" by (simp add: demo_net_def)
  have rank: "0 \<le> cm_rank demo_p2p_comm" "cm_rank demo_p2p_comm < cm_world_size demo_p2p_comm"
    and rounds: "map int [1..<nat (cm_world_size demo_p2p_comm)] = [1]"
    by (simp_all add: demo_p2p_comm_def Let_def upt_rec)
  show ?thesis
    using Plan_p2p_complete [OF _ _ _ _ run] run wf new rank rounds by auto
qed

end
