(* ===== verification/Occl_Communicator_Correct.thy ===== *)
theory Occl_Communicator_Correct
  imports Occl_Communicator Occl_Connect_Correct Occl_P2p_Correct
begin

section \<open>Correctness of the communicator\<close>

text \<open>
  Groups defer exactly the accepted tasks to one \<open>Flush\<close>; the group state stays consistent under every public
  operation; \<open>Finalize\<close> closes what the communicator holds; a successful \<open>Init\<close> leaves the rank wired.
\<close>

subsection \<open>Planning changes the channels only\<close>

definition only_channels :: "Comm \<Rightarrow> Comm \<Rightarrow> bool" where
  "only_channels comm comm' \<longleftrightarrow> comm'\<lparr>cm_channels := cm_channels comm\<rparr> = comm"

lemma only_channels_refl [simp]: "only_channels comm comm"
  by (simp add: only_channels_def)

lemma only_channels_trans: "only_channels a b \<Longrightarrow> only_channels b c \<Longrightarrow> only_channels a c"
  by (cases a; cases b; cases c) (auto simp: only_channels_def)

lemma only_channels_fields:
  assumes "only_channels comm comm'"
  shows "cm_group_depth comm' = cm_group_depth comm" "cm_pending_tasks comm' = cm_pending_tasks comm"
    "cm_rank comm' = cm_rank comm" "cm_world_size comm' = cm_world_size comm" "cm_all_nodes comm' = cm_all_nodes comm"
    "cm_executor comm' = cm_executor comm" "cm_dynamic_executor comm' = cm_dynamic_executor comm"
  using assms by (cases comm; cases comm'; simp add: only_channels_def)+

lemma only_channels_bind [simp]:
  "only_channels comm (bind_send_p2p i tr comm)" "only_channels comm (bind_recv_p2p i tr comm)"
  "only_channels comm (bind_connector c p d tr comm)"
  by (simp_all add: only_channels_def bind_send_p2p_def bind_recv_p2p_def bind_connector_def Let_def)

lemma ConnectP2p_only:
  "ConnectP2p ops peer (comm, e) = Some (ok, comm', e') \<Longrightarrow> only_channels comm comm'"
  by (auto simp: ConnectP2p_def split: if_splits option.splits prod.splits bool.splits)

lemma accept_source_only:
  "accept_source ops l (comm, e) = Some (ok, comm', e') \<Longrightarrow> only_channels comm comm'"
  by (auto simp: accept_source_def Let_def split: if_splits option.splits prod.splits)

lemma accept_ready_only:
  "accept_ready ops ls (comm, e) = Some (ok, comm', e') \<Longrightarrow> only_channels comm comm'"
proof (induction ls arbitrary: comm e)
  case (Cons x ls)
  show ?case
    using Cons.prems Cons.IH accept_source_only [of ops "fst x" comm e] only_channels_trans
    by (cases x) (fastforce split: PollEvent.splits option.splits bool.splits prod.splits)
qed simp

lemma accept_until_only:
  assumes "accept_until ops peer s = Some y"
  shows "only_channels (fst s) (fst (snd y))"
  using assms
proof (induction rule: accept_until.raw_induct [rotated, consumes 1])
  case (1 f ops peer s y)
  obtain comm e where s: "s = (comm, e)" by fastforce
  show ?case
  proof (cases "p2p_recv_bound comm peer")
    case True
    then show ?thesis using 1(2) s by auto
  next
    case nb: False
    obtain evs e1 where po: "no_poll ops (cm_p2p_listeners comm) e = (evs, e1)" by fastforce
    show ?thesis
    proof (cases evs)
      case None
      then show ?thesis using 1(2) s nb po by auto
    next
      case (Some vs)
      then obtain b c1 e2 where ar: "accept_ready ops (zip (cm_p2p_listeners comm) vs) (comm, e1) = Some (b, c1, e2)"
        using 1(2) s nb po by (cases "accept_ready ops (zip (cm_p2p_listeners comm) vs) (comm, e1)") auto
      show ?thesis
        using 1(1) [of ops peer "(c1, e2)" y] 1(2) s nb po Some ar accept_ready_only [OF ar] only_channels_trans
        by (cases b) auto
    qed
  qed
qed

lemma AcceptP2pOne_only:
  "AcceptP2pOne ops peer s = Some (ok, s') \<Longrightarrow> only_channels (fst s) (fst s')"
  using accept_until_only [of ops peer s "(ok, s')"] by (auto simp: AcceptP2pOne_def split: if_splits option.splits)

lemma run_threads_only:
  "run_threads ops sched ps qs s = Some (ok, s') \<Longrightarrow> only_channels (fst s) (fst s')"
proof (induction ops sched ps qs s arbitrary: ok s' rule: run_threads.induct)
  case (2 ops sched p ps qs s)
  show ?case
  proof (cases "qs \<noteq> [] \<and> sched \<noteq> [] \<and> \<not> hd sched")
    case True
    with "2.prems" obtain b s1 where a: "AcceptP2pOne ops (hd qs) s = Some (b, s1)" by (auto split: option.splits)
    show ?thesis
      using "2.prems" "2.IH"(1) [OF True a] True a AcceptP2pOne_only [OF a] only_channels_trans by (cases b) auto
  next
    case False
    with "2.prems" obtain b s1 where a: "ConnectP2p ops p s = Some (b, s1)" by (auto split: option.splits)
    moreover have "only_channels (fst s) (fst s1)" using ConnectP2p_only a by (metis prod.collapse)
    ultimately show ?thesis
      using "2.prems" "2.IH"(2) [OF False a] False only_channels_trans by (cases b) auto
  qed
next
  case (3 ops sched q qs s)
  then obtain b s1 where a: "AcceptP2pOne ops q s = Some (b, s1)" by (auto split: option.splits)
  show ?case using "3.prems" "3.IH" [OF a] a AcceptP2pOne_only [OF a] only_channels_trans by (cases b) auto
qed simp

lemma PlanP2pRound_only:
  "PlanP2pRound ops sched tasks r plan s = Some (p, s') \<Longrightarrow> only_channels (fst s) (fst s')"
  by (auto simp: PlanP2pRound_def PrepareRound_def Let_def split: if_splits option.splits bool.splits prod.splits
      dest!: run_threads_only)

lemma plan_rounds_only:
  "plan_rounds ops sched tasks rs plan s = Some (p, s') \<Longrightarrow> only_channels (fst s) (fst s')"
proof (induction rs arbitrary: plan s)
  case (Cons r rs)
  then obtain q s1 where a: "PlanP2pRound ops (sched r) tasks r plan s = Some (q, s1)" by (auto split: option.splits)
  show ?case
    using Cons.prems Cons.IH [of _ s1] a PlanP2pRound_only [OF a] only_channels_trans by (cases q) auto
qed simp

lemma Plan_only: "Plan ops sched tasks dyn s = Some (p, s') \<Longrightarrow> only_channels (fst s) (fst s')"
  by (auto simp: Plan_def Let_def bind_eq_Some_conv split: if_splits dest: plan_rounds_only)

lemma run_executor_only: "run_executor ex k plan s = Some (ok, s') \<Longrightarrow> fst s' = fst s"
  by (auto simp: run_executor_def split: option.splits prod.splits)

lemma Flush_only:
  assumes "Flush ops ex sched s = Some (ok, s')"
  shows "only_channels ((fst s)\<lparr>cm_pending_tasks := []\<rparr>) (fst s')"
proof (cases "SortTasks (cm_pending_tasks (fst s)) (cm_rank (fst s)) (cm_world_size (fst s))")
  case None
  then show ?thesis using assms by (auto simp: Flush_def Let_def)
next
  case (Some tasks)
  let ?s1 = "((fst s)\<lparr>cm_pending_tasks := []\<rparr>, snd s)"
  let ?dyn = "cm_dynamic_available (fst s) \<and> IsCollectiveBatch tasks"
  from assms Some obtain p s2 where plan: "Plan ops sched tasks ?dyn ?s1 = Some (p, s2)"
    by (auto simp: Flush_def Let_def split: option.splits)
  note one = Plan_only [OF plan]
  show ?thesis
  proof (cases "p = None \<or> \<not> ?dyn \<or> (\<exists>q. p = Some q \<and> length (pl_slices q) > nat (cm_cfg_n_channels (fst s) mod 2 ^ 64))")
    case True
    then have "fst s' = fst s2"
      using assms Some plan by (cases p) (auto simp: Flush_def Let_def split: if_splits dest!: run_executor_only)
    with one show ?thesis by simp
  next
    case False
    then obtain q s3 where again: "Plan ops sched tasks False s2 = Some (q, s3)"
      using assms Some plan by (cases p) (auto simp: Flush_def Let_def split: option.splits)
    have "fst s' = fst s3"
      using False assms Some plan again
      by (cases p; cases q) (auto simp: Flush_def Let_def dest!: run_executor_only)
    with one Plan_only [OF again] show ?thesis using only_channels_trans by simp
  qed
qed

subsection \<open>Sequences of calls\<close>

datatype api_call = CallGroupStart | CallGroupEnd | CallSubmit CollTask

fun api_step ::
  "'e net_ops \<Rightarrow> 'e exec_ops \<Rightarrow> (int \<Rightarrow> bool list) \<Rightarrow> api_call \<Rightarrow> Comm \<times> 'e \<Rightarrow> (bool \<times> Comm \<times> 'e) option" where
  "api_step ops ex sched CallGroupStart s = Some (True, GroupStart (fst s), snd s)"
| "api_step ops ex sched CallGroupEnd s = GroupEnd ops ex sched s"
| "api_step ops ex sched (CallSubmit task) s = Submit ops ex sched task s"

fun run_calls ::
  "'e net_ops \<Rightarrow> 'e exec_ops \<Rightarrow> (int \<Rightarrow> bool list) \<Rightarrow> api_call list \<Rightarrow> Comm \<times> 'e \<Rightarrow> (bool list \<times> Comm \<times> 'e) option" where
  "run_calls ops ex sched [] s = Some ([], s)"
| "run_calls ops ex sched (c # cs) s =
     (case api_step ops ex sched c s of
        None \<Rightarrow> None
      | Some (ok, s1) \<Rightarrow> map_option (\<lambda>(oks, s2). (ok # oks, s2)) (run_calls ops ex sched cs s1))"

lemma run_calls_append:
  "run_calls ops ex sched (as @ bs) s =
     (case run_calls ops ex sched as s of
        None \<Rightarrow> None
      | Some (oks, s1) \<Rightarrow> map_option (\<lambda>(oks', s2). (oks @ oks', s2)) (run_calls ops ex sched bs s1))"
  by (induction as arbitrary: s)
    (auto simp: option.map_comp comp_def split_def option.map_ident split: option.splits)

text \<open>The group state: the depth is not negative, and outside of a group nothing is pending.\<close>

definition group_inv :: "Comm \<Rightarrow> bool" where
  "group_inv comm \<longleftrightarrow> 0 \<le> cm_group_depth comm \<and> (cm_group_depth comm = 0 \<longrightarrow> cm_pending_tasks comm = [])"

lemma Flush_group_inv:
  assumes "Flush ops ex sched s = Some (ok, s')" and "0 \<le> cm_group_depth (fst s)"
  shows "group_inv (fst s')"
  using only_channels_fields(1,2) [OF Flush_only [OF assms(1)]] assms(2) by (simp add: group_inv_def)

lemma api_step_inv:
  "api_step ops ex sched c s = Some (ok, s') \<Longrightarrow> group_inv (fst s) \<Longrightarrow> group_inv (fst s')"
  by (cases c) (auto simp: GroupStart_def GroupEnd_def Submit_def Let_def group_inv_def [of "fst s"] split: if_splits
      dest!: Flush_group_inv simp: group_inv_def)

text \<open>What a submission is answered within a group, and the tasks it leaves.\<close>

definition accepts :: "Comm \<Rightarrow> CollTask \<Rightarrow> bool" where
  "accepts comm task \<longleftrightarrow> IsP2p (ct_func task) \<or> ValidateCollectiveTask task (cm_rank comm) (cm_world_size comm)"

fun call_ok :: "Comm \<Rightarrow> api_call \<Rightarrow> bool" where
  "call_ok comm (CallSubmit task) = accepts comm task"
| "call_ok comm _ = True"

fun accepted :: "Comm \<Rightarrow> api_call list \<Rightarrow> CollTask list" where
  "accepted comm [] = []"
| "accepted comm (CallSubmit task # cs) = (if accepts comm task then task # accepted comm cs else accepted comm cs)"
| "accepted comm (c # cs) = accepted comm cs"

text \<open>Properly nested groups, \<open>d\<close> of them open.\<close>

fun balanced :: "nat \<Rightarrow> api_call list \<Rightarrow> bool" where
  "balanced d [] = (d = 0)"
| "balanced d (CallGroupStart # cs) = balanced (Suc d) cs"
| "balanced d (CallGroupEnd # cs) = (d \<noteq> 0 \<and> balanced (d - 1) cs)"
| "balanced d (CallSubmit task # cs) = balanced d cs"

lemma group_update_swap:
  "c\<lparr>cm_pending_tasks := ps, cm_group_depth := d\<rparr> = c\<lparr>cm_group_depth := d, cm_pending_tasks := ps\<rparr>" for c :: Comm
  by simp

lemma run_calls_in_group:
  "balanced d cs \<Longrightarrow>
   run_calls ops ex sched cs (comm\<lparr>cm_group_depth := 1 + int d, cm_pending_tasks := ps\<rparr>, e) =
     Some (map (call_ok comm) cs, comm\<lparr>cm_group_depth := 1, cm_pending_tasks := ps @ accepted comm cs\<rparr>, e)"
proof (induction d cs arbitrary: ps rule: balanced.induct)
  case (2 d cs)
  have "1 + int (Suc d) = 1 + int d + 1" by simp
  then show ?case using 2 by (simp add: GroupStart_def group_update_swap)
next
  case (3 d cs)
  then have "1 + int (d - 1) = 1 + int d - 1" by simp
  then show ?case using 3 by (simp add: GroupEnd_def Let_def group_update_swap)
next
  case (4 d task cs)
  then show ?case by (auto simp: Submit_def Let_def accepts_def)
qed simp

subsection \<open>Finalize\<close>

definition open_transports :: "Comm \<Rightarrow> transport_ref list" where
  "open_transports comm = filter (\<lambda>tr. tr \<noteq> 0)
     (concat (map (\<lambda>ch. map cn_transport (ch_send ch @ ch_recv ch @ ch_send_p2p ch @ ch_recv_p2p ch)) (cm_channels comm)))"

lemma close_connectors_fold:
  "close_connectors ops cs e = fold (no_close ops) (filter (\<lambda>tr. tr \<noteq> 0) (map cn_transport cs)) e"
  by (induction cs arbitrary: e) (simp_all add: close_connectors_def drop_transport_def)

lemma close_channels_fold:
  "fold (close_channel ops) chs e =
     fold (no_close ops) (filter (\<lambda>tr. tr \<noteq> 0)
       (concat (map (\<lambda>ch. map cn_transport (ch_send ch @ ch_recv ch @ ch_send_p2p ch @ ch_recv_p2p ch)) chs))) e"
  by (induction chs arbitrary: e) (simp_all add: close_channel_def close_connectors_fold)

subsection \<open>Init\<close>

lemma init_channels_nth:
  assumes "i < n"
  shows "ch_id (init_channels n ws [] ! i) = int i" "ch_ring (init_channels n ws [] ! i) = ch_ring Channel_default"
    "ch_tree (init_channels n ws [] ! i) = ch_tree Channel_default"
    "conn \<in> set (ch_send (init_channels n ws [] ! i)) \<union> set (ch_recv (init_channels n ws [] ! i)) \<Longrightarrow> cn_transport conn = 0"
  using assms by (auto simp: init_channels_def Let_def vec_resize_def init_connectors_def Connector_default_def Channel_default_def)

text \<open>The channels after the three \<open>FillChannels\<close>.\<close>

lemma filled_channel:
  assumes "i < length chs"
  shows "fst (Tree_FillChannels pc (Ring_FillChannels r ws (P2p_FillChannels ws' chs))) ! i =
    (let ch = P2p_FillChannels ws' chs ! i in
     ch\<lparr>ch_ring := \<lparr>ring_prev = GetPrevRank ws r, ring_next = GetNextRank ws r\<rparr>, ch_tree := tree_of_channel pc (ch_id ch)\<rparr>)"
  using assms by (simp add: Tree_FillChannels_def Ring_FillChannels_def P2p_FillChannels_def Let_def)

lemma P2p_FillChannels_nth:
  assumes "i < length chs"
  shows "ch_id (P2p_FillChannels ws chs ! i) = ch_id (chs ! i)" "ch_send (P2p_FillChannels ws chs ! i) = ch_send (chs ! i)"
    "ch_recv (P2p_FillChannels ws chs ! i) = ch_recv (chs ! i)"
  using assms by (simp_all add: P2p_FillChannels_def)

lemma length_filled [simp]:
  "length (fst (Tree_FillChannels pc chs)) = length chs" "length (Ring_FillChannels r ws chs) = length chs"
  "length (P2p_FillChannels ws chs) = length chs" "length (init_channels n w cs) = n"
  by (simp_all add: Tree_FillChannels_def Ring_FillChannels_def P2p_FillChannels_def init_channels_def)

text \<open>The communicator that \<open>Init\<close> hands to \<open>InitChannels\<close> is wired for its rank and holds no transport yet.\<close>

definition fresh_for :: "CommConfig \<Rightarrow> Comm \<Rightarrow> bool" where
  "fresh_for cfg comm \<longleftrightarrow> cm_rank comm = cc_rank cfg \<and> cm_world_size comm = cc_world_size cfg \<and>
     cm_channels comm = P2p_FillChannels (cc_world_size cfg)
       (init_channels (nat (if cc_n_channels cfg > 0 then cc_n_channels cfg else kDefaultChannelCount))
         (nat (cc_world_size cfg)) [])"

lemma wire_comm_wired:
  assumes "fresh_for cfg comm" and "cc_rank cfg = int r" and "cc_world_size cfg = int (length nodes)"
    and "n = nat (if cc_n_channels cfg > 0 then cc_n_channels cfg else kDefaultChannelCount)"
  shows "wired nodes n r (wire_comm ho nodes rdma comm e)" and "\<not> connector_bound (wire_comm ho nodes rdma comm e) k"
    and "cm_all_nodes (wire_comm ho nodes rdma comm e) = nodes"
proof -
  let ?pc = "place_rank nodes (int r) (int (length nodes))"
  let ?cs = "P2p_FillChannels (int (length nodes)) (init_channels n (length nodes) [])"
  let ?chs = "fst (Tree_FillChannels ?pc (Ring_FillChannels (int r) (int (length nodes)) ?cs))"
  have chs: "cm_channels (wire_comm ho nodes rdma comm e) = ?chs"
    and rest: "cm_rank (wire_comm ho nodes rdma comm e) = int r" "cm_world_size (wire_comm ho nodes rdma comm e) = int (length nodes)"
    "cm_all_nodes (wire_comm ho nodes rdma comm e) = nodes"
    using assms by (simp_all add: wire_comm_def fresh_for_def Let_def split: prod.split)
  have nth: "?chs ! i = (let ch = ?cs ! i in
     ch\<lparr>ch_ring := \<lparr>ring_prev = GetPrevRank (int (length nodes)) (int r), ring_next = GetNextRank (int (length nodes)) (int r)\<rparr>,
        ch_tree := tree_of_channel ?pc (ch_id ch)\<rparr>)" if "i < n" for i
    by (rule filled_channel) (simp add: that)
  show "cm_all_nodes (wire_comm ho nodes rdma comm e) = nodes" by (fact rest(3))
  show "wired nodes n r (wire_comm ho nodes rdma comm e)"
    unfolding wired_def chs
    by (auto simp: rest nth Let_def P2p_FillChannels_nth init_channels_nth wired_channel_ring wired_channel_tree base_channel_def)
  show "\<not> connector_bound (wire_comm ho nodes rdma comm e) k"
  proof (cases k)
    case (fields c p d)
    have "cn_transport conn = 0" if "i < n" "conn \<in> set (connectors (?chs ! i) d)" for i conn
      using that init_channels_nth(4) [OF that(1), of conn "length nodes"]
      by (auto simp: nth Let_def P2p_FillChannels_nth connectors_def split: if_splits)
    moreover have "length ?chs = n" by simp
    ultimately show ?thesis unfolding fields by (auto simp: connector_bound_def FindConnector_eq chs)
  qed
qed

lemma connect_edge_only: "connect_edge ops x (comm, e) = Some (ok, comm', e') \<Longrightarrow> only_channels comm comm'"
  by (auto simp: connect_edge_def split: if_splits option.splits prod.splits bool.splits)

lemma accept_edge_only: "accept_edge ops ls (comm, e) = (ok, comm', e') \<Longrightarrow> only_channels comm comm'"
  by (auto simp: accept_edge_def split: if_splits option.splits prod.splits PollEvent.splits)

lemma run_init_only:
  "run_init ops ls sched xs n s = Some (ok, s') \<Longrightarrow> only_channels (fst s) (fst s')"
proof (induction ops ls sched xs n s arbitrary: ok s' rule: run_init.induct)
  case (2 ops ls sched x xs n s)
  show ?case
  proof (cases "n \<noteq> 0 \<and> sched \<noteq> [] \<and> \<not> hd sched")
    case True
    obtain b s1 where a: "accept_edge ops ls s = (b, s1)" by (cases "accept_edge ops ls s")
    then have "only_channels (fst s) (fst s1)" using accept_edge_only by (metis prod.collapse)
    then show ?thesis using "2.prems" "2.IH"(1) [OF True a [symmetric]] True a only_channels_trans by (cases b) auto
  next
    case False
    with "2.prems" obtain b s1 where a: "connect_edge ops x s = Some (b, s1)" by (auto split: option.splits)
    then have "only_channels (fst s) (fst s1)" using connect_edge_only by (metis prod.collapse)
    then show ?thesis using "2.prems" "2.IH"(2) [OF False a refl] False a
      by (cases b; cases s') (auto intro: only_channels_trans)
  qed
next
  case (3 ops ls sched n s)
  obtain b s1 where a: "accept_edge ops ls s = (b, s1)" by (cases "accept_edge ops ls s")
  then have "only_channels (fst s) (fst s1)" using accept_edge_only by (metis prod.collapse)
  then show ?case using "3.prems" "3.IH" [OF a [symmetric]] a only_channels_trans by (cases b) auto
qed simp

lemma InitChannels_only: "InitChannels ops sched ls s = Some (ok, s') \<Longrightarrow> only_channels (fst s) (fst s')"
  by (auto simp: InitChannels_def dest: run_init_only)

lemma open_p2p_fresh:
  "open_p2p_listeners ops ho l comm node e = (ok, comm', r) \<Longrightarrow> fresh_for cfg comm \<Longrightarrow> fresh_for cfg comm'"
  by (auto simp: open_p2p_listeners_def open_p2p_rdma_def add_p2p_listener_def fresh_for_def Let_def
      split: option.splits prod.splits if_splits)

lemma Init_reaches_InitChannels:
  assumes "Init ops os ho sched cfg (comm, e) = Some (True, comm', e')" and "1 < cc_world_size cfg" and "cm_channels comm = []"
  obtains comm1 nodes rdma e1 ls e2 where "fresh_for cfg comm1"
    and "InitChannels ops sched ls (wire_comm ho nodes rdma comm1 e1, e2) = Some (True, comm', e')"
proof -
  let ?n = "if cc_n_channels cfg > 0 then cc_n_channels cfg else kDefaultChannelCount"
  let ?comm = "comm\<lparr>cm_rank := cc_rank cfg, cm_world_size := cc_world_size cfg, cm_cfg_n_channels := cc_n_channels cfg,
     cm_unique_port := cc_unique_port cfg,
     cm_channels := P2p_FillChannels (cc_world_size cfg) (init_channels (nat ?n) (nat (cc_world_size cfg)) []),
     cm_use_shm := enabled ho ''OCCL_DISABLE_SHM''\<rparr>"
  from assms obtain tcp rdma_l shm_l node e3 where
    "init_network ops os ho sched cfg tcp rdma_l shm_l node ?comm e3 = Some (True, comm', e')"
    by (auto simp: Init_def Let_def split: option.splits prod.splits if_splits)
  moreover obtain ok comm1 node1 e4 where p2p: "open_p2p_listeners ops ho rdma_l ?comm node e3 = (ok, comm1, node1, e4)"
    by (metis prod_cases4)
  moreover have "fresh_for cfg comm1" by (rule open_p2p_fresh [OF p2p]) (simp add: fresh_for_def)
  ultimately show thesis
    using that by (auto simp: init_network_def Let_def split: bool.splits option.splits prod.splits if_splits)
qed

lemma wired_handshakes_to:
  assumes "\<And>r. r < N \<Longrightarrow> wired nodes n r (comms r)" and "wired nodes n b comm" and "N = length nodes" and "b < N"
  shows "handshakes_to (comms(b := comm)) N b = handshakes_to comms N b"
proof -
  have "filter (\<lambda>x. ce_peer x = int b) (connect_edges c) = []" if "wired nodes n b c" for c
    using connect_edges_iff [OF that] by (auto simp: filter_empty_conv)
  then show ?thesis using assms by (auto simp: handshakes_to_def intro!: arg_cong [of _ _ concat])
qed

subsection \<open>Properties\<close>


text \<open>
  C13. Groups defer and batch. Between \<open>GroupStart\<close> and the matching \<open>GroupEnd\<close>, with any properly nested groups inside,
  no call touches the network or an executor: each submission is answered by its validation alone, and the
  outermost \<open>GroupEnd\<close> is one \<open>Flush\<close> of exactly the accepted tasks, in submission order.
\<close>

theorem group_defers_to_one_flush:
  assumes "cm_group_depth comm = 0" and "balanced 0 cs"
  shows "run_calls ops ex sched (CallGroupStart # cs @ [CallGroupEnd]) (comm, e) =
    map_option (\<lambda>(ok, s'). (True # map (call_ok comm) cs @ [ok], s'))
      (Flush ops ex sched (comm\<lparr>cm_pending_tasks := cm_pending_tasks comm @ accepted comm cs\<rparr>, e))"
proof -
  have start: "GroupStart comm = comm\<lparr>cm_group_depth := 1 + int 0, cm_pending_tasks := cm_pending_tasks comm\<rparr>"
    using assms(1) by (simp add: GroupStart_def)
  have depth: "comm\<lparr>cm_group_depth := 0, cm_pending_tasks := ps\<rparr> = comm\<lparr>cm_pending_tasks := ps\<rparr>" for ps
    using assms(1) by simp
  have mid: "run_calls ops ex sched cs (GroupStart comm, e) =
      Some (map (call_ok comm) cs, comm\<lparr>cm_group_depth := 1, cm_pending_tasks := cm_pending_tasks comm @ accepted comm cs\<rparr>, e)"
    unfolding start by (rule run_calls_in_group [OF assms(2)])
  show ?thesis
    by (simp add: run_calls_append mid GroupEnd_def Let_def group_update_swap depth assms(1)
        option.map_comp comp_def split_def split: option.split)
qed

text \<open>A communicator of one rank whose executor accepts every plan.\<close>

definition solo_comm :: Comm where
  "solo_comm = demo_p2p_comm\<lparr>cm_world_size := 1, cm_channels := P2p_FillChannels 1 [Channel_default]\<rparr>"

definition demo_exec :: "nat exec_ops" where
  "demo_exec = \<lparr>eo_run = (\<lambda>_ plan n. (True, n + length (pl_channels plan))), eo_shutdown = (\<lambda>_ n. n)\<rparr>"

definition demo_calls :: "api_call list" where
  "demo_calls = [CallSubmit (AllReduce_task (Mem 0) (Mem 8) 2 INT32 OpSum), CallGroupStart,
     CallSubmit (Broadcast_task NullPtr 1 INT32 0), CallGroupEnd]"

lemma demo_calls_eval:
  "balanced 0 demo_calls" "cm_group_depth solo_comm = 0" "group_inv solo_comm"
  "accepted solo_comm demo_calls = [AllReduce_task (Mem 0) (Mem 8) 2 INT32 OpSum]"
  "map (call_ok solo_comm) demo_calls = [True, True, False, True]"
  by (simp_all add: demo_calls_def solo_comm_def demo_p2p_comm_def Let_def group_inv_def accepts_def AllReduce_task_def
      Broadcast_task_def CollTask_default_def IsP2p_def ValidateCollectiveTask_def SIZE_MAX_def)

lemmas flush_eval = Flush_def SortTasks_def classify_task_def stable_sort_def Plan_def validate_task_def
  PlanCollective_def EmitCollectiveSlices_def emit_slice_def make_slice_def slice_shape_def slice_elems_def
  push_task_def CollPlan_new_def GetNChannels_def GetChannel_def Tree_FillTransports_def tree_peer_order_def
  run_executor_def solo_comm_def demo_p2p_comm_def demo_exec_def Let_def AllReduce_task_def CollTask_default_def
  IsP2p_def ValidateCollectiveTask_def SIZE_MAX_def IsCollectiveBatch_def P2p_FillChannels_def Channel_default_def
  kChunkBytes_value kTreeThresholdChunks_def size_mul_def

lemma demo_flush:
  "\<exists>s. Flush demo_net demo_exec (\<lambda>_. [])
      (solo_comm\<lparr>cm_pending_tasks := [AllReduce_task (Mem 0) (Mem 8) 2 INT32 OpSum]\<rparr>, 10) = Some (True, s)"
  by (simp add: flush_eval)

theorem group_defers_to_one_flush_witness:
  "\<exists>s. run_calls demo_net demo_exec (\<lambda>_. []) (CallGroupStart # demo_calls @ [CallGroupEnd]) (solo_comm, 10) =
     Some ([True, True, True, False, True, True], s)"
proof -
  have "cm_pending_tasks solo_comm = []" by (simp add: solo_comm_def demo_p2p_comm_def Let_def)
  then show ?thesis
    using group_defers_to_one_flush [OF demo_calls_eval(2,1), of demo_net demo_exec "\<lambda>_. []" 10] demo_flush
    by (auto simp: demo_calls_eval(4,5))
qed


text \<open>
  C15. \<open>Finalize\<close> closes every transport that a connector holds and every P2P listener, each exactly once and nothing else,
  after shutting the executors down, and leaves a communicator without channels, tasks or listeners; doing it
  again closes nothing.
\<close>

theorem Finalize_closes_all:
  "snd (Finalize ops os ex (comm, e)) =
     fold (no_close ops) (open_transports comm @ cm_p2p_listeners comm) (shut_down os ex comm e) \<and>
   open_transports (fst (Finalize ops os ex (comm, e))) = [] \<and> cm_p2p_listeners (fst (Finalize ops os ex (comm, e))) = [] \<and>
   group_inv (fst (Finalize ops os ex (comm, e))) \<and>
   snd (Finalize ops os ex (Finalize ops os ex (comm, e))) =
     (case cm_executor comm of None \<Rightarrow> id | Some k \<Rightarrow> eo_shutdown ex k) (snd (Finalize ops os ex (comm, e)))"
  by (simp add: Finalize_def shut_down_def Let_def close_channels_fold open_transports_def group_inv_def split: option.split)

text \<open>
  \<open>Init\<close> connects the data plane. Suppose \<open>Init\<close> of a fresh communicator succeeds with more than one rank, the
  bootstrap gave it the common node table, and the connections it accepted are those that the other ranks make
  to it (the last handshakes it received are theirs, in any order). Then a connector of its channels holds a
  transport exactly when it belongs to a ring or tree edge of that channel.
\<close>

theorem Init_connects_all_edges:
  assumes run: "Init (logging ops) os ho sched cfg (comm, e) = Some (True, comm', e', log)"
    and "1 < cc_world_size cfg" and "cm_channels comm = []" and new: "\<And>kind e. fst (no_new ops kind e) \<noteq> 0"
    and table: "cm_all_nodes comm' = nodes" "wf_nodes nodes" "cc_world_size cfg = int (length nodes)" "length nodes < 2 ^ 31"
    and rank: "cc_rank cfg = int b" "b < length nodes"
    and n: "n = nat (if cc_n_channels cfg > 0 then cc_n_channels cfg else kDefaultChannelCount)" "n < 2 ^ 31"
    and others: "\<And>r. r < length nodes \<Longrightarrow> wired nodes n r (comms r)"
    and received: "mset (drop (length log - length (handshakes_to comms (length nodes) b)) log) =
      mset (handshakes_to comms (length nodes) b)"
  shows "connector_bound comm' (c, p, d) \<longleftrightarrow> (\<exists>i q. c = int i \<and> p = int q \<and> i < n \<and> q < length nodes \<and> q \<noteq> b \<and>
    peer_edge nodes i b q d)"
proof -
  obtain comm1 nodes1 rdma e1 ls e2 where fresh: "fresh_for cfg comm1"
    and init: "InitChannels (logging ops) sched ls (wire_comm ho nodes1 rdma comm1 e1, e2) = Some (True, comm', e', log)"
    by (rule Init_reaches_InitChannels [OF run assms(2,3)])
  let ?w = "wire_comm ho nodes1 rdma comm1 e1"
  have "nodes1 = nodes"
    using only_channels_fields(5) [OF InitChannels_only [OF init]] table(1)
    by (simp add: wire_comm_def Let_def split: prod.splits)
  note w = wire_comm_wired [OF fresh rank(1) table(3) n(1), where ho = ho and rdma = rdma and e = e1, folded \<open>nodes1 = nodes\<close>]
  let ?cs = "comms(b := ?w)"
  have cs: "\<And>r. r < length nodes \<Longrightarrow> wired nodes n r (?cs r)" using others w(1) \<open>nodes1 = nodes\<close> by simp
  have same: "handshakes_to ?cs (length nodes) b = handshakes_to comms (length nodes) b"
    by (rule wired_handshakes_to [OF others _ refl rank(2)]) (use w(1) \<open>nodes1 = nodes\<close> in auto)
  obtain e20 l where e2: "e2 = (e20, l)" by (cases e2)
  have unbound: "\<And>k. \<not> connector_bound (?cs b) k" using w(2) by simp
  have init': "InitChannels (logging ops) sched ls (?cs b, e20, l) = Some (True, comm', e', log)"
    using init by (simp add: e2)
  show ?thesis
  proof (rule InitChannels_binds [OF table(2) rank(2) cs table(4) n(2) new unbound init', where c = c and p = p and d = d])
    fix hs assume "log = l @ hs" "length hs = length (handshakes_to ?cs (length nodes) b)"
      and bound: "mset hs = mset (handshakes_to ?cs (length nodes) b) \<Longrightarrow> ?thesis"
    then show ?thesis using received by (intro bound) (simp add: same)
  qed
qed

text \<open>
  Rank 1 of \<open>pair_nodes\<close> starts with everything but TCP disabled. Its mailbox holds the bootstrap's frame and then
  the two handshakes of rank 0.
\<close>

definition mailbox_os :: "(byte list list \<times> ConnHandshake list) os_net" where
  "mailbox_os = \<lparr>os_send = (\<lambda>_ data e. (int (length data), e)),
     os_recv = (\<lambda>_ k (ms, l). case ms of [] \<Rightarrow> (0, [], ms, l) | m # ms' \<Rightarrow> (int (length m), m, ms', l)),
     os_accept = (\<lambda>_ e. (-1, e)), os_socket = (\<lambda>e. (7, e)), os_pton = (\<lambda>_. True),
     os_connect = (\<lambda>_ _ _ e. (True, e)), os_close = (\<lambda>_ e. e)\<rparr>"

definition mailbox_host :: "'e host_ops" where
  "mailbox_host = \<lparr>ho_getenv = (\<lambda>_. Some ''1''), ho_create_listen = (\<lambda>e. (-1, 0, e)), ho_local_ip = (\<lambda>_. []),
     ho_hostname = (\<lambda>_. []), ho_listen = (\<lambda>_ _ e. (Some 80, e)), ho_probe = (\<lambda>e. (None, e)),
     ho_mkdir = (\<lambda>_ e. (True, e)), ho_cores = (\<lambda>_. 4), ho_pin = (\<lambda>_ e. e)\<rparr>"

definition pair_cfg :: CommConfig where
  "pair_cfg = \<lparr>cc_rank = 1, cc_world_size = 2, cc_unique_ip = [], cc_unique_port = 0, cc_n_channels = 1\<rparr>"

definition pair_mail :: "byte list list" where
  "pair_mail = [be32 (word_of_nat (length (EncodeNodes pair_nodes))), EncodeNodes pair_nodes] @ pair_msgs"

lemma pair_init:
  "map_option (\<lambda>(ok, comm', e', l). (ok, cm_all_nodes comm', e', l))
     (Init (logging mailbox_net) mailbox_os mailbox_host [] pair_cfg ((solo_comm\<lparr>cm_channels := []\<rparr>), pair_mail, [])) =
   Some (True, pair_nodes, [], map handshake_of pair_msgs)"
  by code_simp

theorem Init_connects_all_edges_witness:
  "\<exists>comm' e' log. Init (logging mailbox_net) mailbox_os mailbox_host [] pair_cfg (solo_comm\<lparr>cm_channels := []\<rparr>, pair_mail, []) =
     Some (True, comm', e', log) \<and> connector_bound comm' (0, 0, True) \<and> \<not> connector_bound comm' (0, 1, True)"
proof -
  obtain comm' where run: "Init (logging mailbox_net) mailbox_os mailbox_host [] pair_cfg (solo_comm\<lparr>cm_channels := []\<rparr>, pair_mail, []) =
      Some (True, comm', [], map handshake_of pair_msgs)" and table: "cm_all_nodes comm' = pair_nodes"
    using pair_init by auto
  have new: "\<And>kind e. fst (no_new mailbox_net kind e) \<noteq> 0" by (simp add: mailbox_net_def)
  have sent: "handshakes_to pair_comm (length pair_nodes) 1 = rev (map handshake_of pair_msgs)"
    by (simp add: pair_msgs_def pair_simps)
  have "connector_bound comm' (c, p, d) \<longleftrightarrow> (\<exists>i q. c = int i \<and> p = int q \<and> i < 1 \<and> q < length pair_nodes \<and> q \<noteq> 1 \<and>
      peer_edge pair_nodes i 1 q d)" for c p d
    by (rule Init_connects_all_edges [OF run _ _ new table pair_nodes_wf(1) _ _ _ _ _ _ pair_wired])
      (simp_all only: sent length_rev length_map mset_rev, simp_all add: pair_cfg_def pair_nodes_wf)
  moreover have "peer_edge pair_nodes 0 1 0 True" by code_simp
  ultimately show ?thesis using run by (auto simp: pair_nodes_wf)
qed

end
