(* ===== verification/Occl_Reduce.thy ===== *)
theory Occl_Reduce
  imports Occl_Bytes
begin

section \<open>Reduction kernels\<close>

text \<open>
  \<open>Utils::ReduceData\<close>, \<open>Utils::PerformReduce\<close> and \<open>Utils::ApplyAverage\<close> of \<open>src/utils.cpp\<close>.
  \<open>ReduceData\<close> is a template over the element type; here it is polymorphic in the element
  operations. The \<open>int32_t\<close> and \<open>int64_t\<close> instances are words with wrap-around addition (signed
  overflow is undefined in C++; the wrapped value is what the generated code computes) and the
  signed order. The \<open>float\<close> and \<open>double\<close> instances work on the IEEE bit patterns through the
  operations of a floating point unit, which is a parameter: no theorem needs any law of it.
\<close>

subsection \<open>Element operations\<close>

record 'a elem_ops =
  eo_add :: "'a \<Rightarrow> 'a \<Rightarrow> 'a"
  eo_less :: "'a \<Rightarrow> 'a \<Rightarrow> bool"

record float_unit =
  f32_add :: "32 word \<Rightarrow> 32 word \<Rightarrow> 32 word"
  f32_less :: "32 word \<Rightarrow> 32 word \<Rightarrow> bool"
  f32_div_int :: "32 word \<Rightarrow> int \<Rightarrow> 32 word"
  f64_add :: "64 word \<Rightarrow> 64 word \<Rightarrow> 64 word"
  f64_less :: "64 word \<Rightarrow> 64 word \<Rightarrow> bool"
  f64_div_int :: "64 word \<Rightarrow> int \<Rightarrow> 64 word"

definition int_ops :: "'n::len word elem_ops" where
  "int_ops = \<lparr>eo_add = (+), eo_less = (\<lambda>a b. sint a < sint b)\<rparr>"

definition float32_ops :: "float_unit \<Rightarrow> 32 word elem_ops" where
  "float32_ops fp = \<lparr>eo_add = f32_add fp, eo_less = f32_less fp\<rparr>"

definition float64_ops :: "float_unit \<Rightarrow> 64 word elem_ops" where
  "float64_ops fp = \<lparr>eo_add = f64_add fp, eo_less = f64_less fp\<rparr>"

text \<open>One iteration of \<open>ReduceData\<close>: the new \<open>recv_buf[i]\<close> from \<open>send_buf[i]\<close> and the old one.\<close>

fun reduce_elem :: "'a elem_ops \<Rightarrow> ReduceOp \<Rightarrow> 'a \<Rightarrow> 'a \<Rightarrow> 'a" where
  "reduce_elem eo OpSum s r = eo_add eo r s"
| "reduce_elem eo OpMax s r = (if eo_less eo r s then s else r)"
| "reduce_elem eo OpMin s r = (if eo_less eo s r then s else r)"
| "reduce_elem eo OpAvg s r = eo_add eo r s"
| "reduce_elem eo (ReduceOpValue n) s r = r"

definition ReduceData :: "'a elem_ops \<Rightarrow> 'a list \<Rightarrow> 'a list \<Rightarrow> nat \<Rightarrow> ReduceOp \<Rightarrow> 'a list" where
  "ReduceData eo send_buf recv_buf cnt op =
     map (\<lambda>i. reduce_elem eo op (send_buf ! i) (recv_buf ! i)) [0..<cnt]"

text \<open>
  \<open>PerformReduce(send_buf, recv_buf, cnt, dtype, op)\<close> on the byte contents of the two buffers:
  the new contents of the first \<open>cnt\<close> elements of \<open>recv_buf\<close>.
\<close>

fun PerformReduce ::
  "float_unit \<Rightarrow> byte list \<Rightarrow> byte list \<Rightarrow> nat \<Rightarrow> DataType \<Rightarrow> ReduceOp \<Rightarrow> byte list" where
  "PerformReduce fp src dst cnt FLOAT32 op =
     bytes32 (ReduceData (float32_ops fp) (elems32 cnt src) (elems32 cnt dst) cnt op)"
| "PerformReduce fp src dst cnt FLOAT64 op =
     bytes64 (ReduceData (float64_ops fp) (elems64 cnt src) (elems64 cnt dst) cnt op)"
| "PerformReduce fp src dst cnt INT32 op =
     bytes32 (ReduceData int_ops (elems32 cnt src) (elems32 cnt dst) cnt op)"
| "PerformReduce fp src dst cnt INT64 op =
     bytes64 (ReduceData int_ops (elems64 cnt src) (elems64 cnt dst) cnt op)"
| "PerformReduce fp src dst cnt (DataTypeValue n) op = dst"

definition int_div_elem :: "int \<Rightarrow> 'n::len word \<Rightarrow> 'n word" where
  "int_div_elem ws w = word_of_int (sint w sdiv ws)"

fun ApplyAverage :: "float_unit \<Rightarrow> byte list \<Rightarrow> nat \<Rightarrow> DataType \<Rightarrow> int \<Rightarrow> byte list" where
  "ApplyAverage fp buf cnt FLOAT32 ws =
     (if ws \<le> 0 then buf else bytes32 (map (\<lambda>w. f32_div_int fp w ws) (elems32 cnt buf)))"
| "ApplyAverage fp buf cnt FLOAT64 ws =
     (if ws \<le> 0 then buf else bytes64 (map (\<lambda>w. f64_div_int fp w ws) (elems64 cnt buf)))"
| "ApplyAverage fp buf cnt INT32 ws =
     (if ws \<le> 0 then buf else bytes32 (map (int_div_elem ws) (elems32 cnt buf)))"
| "ApplyAverage fp buf cnt INT64 ws =
     (if ws \<le> 0 then buf else bytes64 (map (int_div_elem ws) (elems64 cnt buf)))"
| "ApplyAverage fp buf cnt (DataTypeValue n) ws = buf"

subsection \<open>Sizes\<close>

lemma length_ReduceData [simp]: "length (ReduceData eo s r n op) = n"
  by (simp add: ReduceData_def)

lemma nth_ReduceData [simp]:
  "i < n \<Longrightarrow> ReduceData eo s r n op ! i = reduce_elem eo op (s ! i) (r ! i)"
  by (simp add: ReduceData_def)

lemma length_PerformReduce [simp]:
  "length dst = cnt * GetDataTypeSize d \<Longrightarrow>
   length (PerformReduce fp src dst cnt d op) = cnt * GetDataTypeSize d"
  by (cases d) simp_all

lemma length_ApplyAverage [simp]:
  "length buf = cnt * GetDataTypeSize d \<Longrightarrow>
   length (ApplyAverage fp buf cnt d ws) = cnt * GetDataTypeSize d"
  by (cases d) simp_all

lemma PerformReduce_0 [simp]: "PerformReduce fp src [] 0 d op = []"
  by (cases d) (simp_all add: ReduceData_def bytes32_def bytes64_def)

lemma ApplyAverage_0 [simp]: "ApplyAverage fp [] 0 d ws = []"
  by (cases d) (simp_all add: bytes32_def bytes64_def elems32_def elems64_def groups_def)

subsection \<open>Reducing a sequence of buffers\<close>

text \<open>
  The collectives fold \<open>PerformReduce\<close> over the ranks' contributions in an order that the topology
  fixes: \<open>reduce_chain\<close> starts from one contribution and reduces the accumulator into each next
  one, the way a partial sum travels along the ring.
\<close>

fun reduce_chain ::
  "float_unit \<Rightarrow> nat \<Rightarrow> DataType \<Rightarrow> ReduceOp \<Rightarrow> byte list \<Rightarrow> byte list list \<Rightarrow> byte list" where
  "reduce_chain fp n d op acc [] = acc"
| "reduce_chain fp n d op acc (x # xs) = reduce_chain fp n d op (PerformReduce fp acc x n d op) xs"

lemma reduce_chain_append:
  "reduce_chain fp n d op acc (xs @ ys) = reduce_chain fp n d op (reduce_chain fp n d op acc xs) ys"
  by (induction xs arbitrary: acc) simp_all

lemma length_reduce_chain:
  "length acc = n * GetDataTypeSize d \<Longrightarrow> \<forall>x \<in> set xs. length x = n * GetDataTypeSize d \<Longrightarrow>
   length (reduce_chain fp n d op acc xs) = n * GetDataTypeSize d"
  by (induction xs arbitrary: acc) simp_all

text \<open>For the integer types the chain is the mathematical reduction, element by element.\<close>

lemma elems32_PerformReduce_INT32:
  "elems32 n (PerformReduce fp src dst n INT32 op) =
     map (\<lambda>i. reduce_elem int_ops op (elems32 n src ! i) (elems32 n dst ! i)) [0..<n]"
  using elems32_bytes32 [of "ReduceData int_ops (elems32 n src) (elems32 n dst) n op"]
  by (simp add: ReduceData_def del: elems32_bytes32)

lemma elems64_PerformReduce_INT64:
  "elems64 n (PerformReduce fp src dst n INT64 op) =
     map (\<lambda>i. reduce_elem int_ops op (elems64 n src ! i) (elems64 n dst ! i)) [0..<n]"
  using elems64_bytes64 [of "ReduceData int_ops (elems64 n src) (elems64 n dst) n op"]
  by (simp add: ReduceData_def del: elems64_bytes64)

lemma reduce_chain_INT32_elem:
  "i < n \<Longrightarrow> elems32 n (reduce_chain fp n INT32 op acc xs) ! i =
     foldl (reduce_elem int_ops op) (elems32 n acc ! i) (map (\<lambda>x. elems32 n x ! i) xs)"
  by (induction xs arbitrary: acc) (simp_all add: elems32_PerformReduce_INT32 del: PerformReduce.simps)

lemma reduce_chain_INT64_elem:
  "i < n \<Longrightarrow> elems64 n (reduce_chain fp n INT64 op acc xs) ! i =
     foldl (reduce_elem int_ops op) (elems64 n acc ! i) (map (\<lambda>x. elems64 n x ! i) xs)"
  by (induction xs arbitrary: acc) (simp_all add: elems64_PerformReduce_INT64 del: PerformReduce.simps)

lemma foldl_reduce_sum:
  "op = OpSum \<or> op = OpAvg \<Longrightarrow> foldl (reduce_elem int_ops op) a ws = a + sum_list ws"
  by (induction ws arbitrary: a) (auto simp: int_ops_def ac_simps)

lemma sint_foldl_reduce_max:
  "sint (foldl (reduce_elem int_ops OpMax) a ws) = Max (sint ` set (a # ws))"
proof (induction ws arbitrary: a)
  case (Cons w ws)
  have "sint (reduce_elem int_ops OpMax a w) = max (sint a) (sint w)"
    by (simp add: int_ops_def max_def)
  then show ?case
    using Cons [of "reduce_elem int_ops OpMax a w"]
    by (simp add: image_insert max.assoc flip: Max_insert)
       (cases "ws = []"; simp add: max.assoc)
qed simp

lemma sint_foldl_reduce_min:
  "sint (foldl (reduce_elem int_ops OpMin) a ws) = Min (sint ` set (a # ws))"
proof (induction ws arbitrary: a)
  case (Cons w ws)
  have "sint (reduce_elem int_ops OpMin a w) = min (sint a) (sint w)"
    by (simp add: int_ops_def min_def)
  then show ?case
    using Cons [of "reduce_elem int_ops OpMin a w"]
    by (cases "ws = []") (simp_all add: min.assoc)
qed simp

end
