(* ===== verification/Occl_Machine.thy ===== *)
theory Occl_Machine
  imports Occl_Reduce
begin

section \<open>Collective state machines: configuration and I/O\<close>

text \<open>
  A \<open>PlanTask\<close> under execution together with the memory it works on and the world behind its
  transports. \<open>Topology::CollectiveInit\<close> and \<open>CollectiveStep\<close> are functions on this configuration.
  The transports are reached through the virtual functions \<open>TrySend\<close> and \<open>TryRecv\<close>
  (\<open>include/transport/transport.h\<close>); here they are a record of functions over an environment, one
  instance of which is each transport of the program.
\<close>

record 'e runtime =
  rt_try_send :: "transport_ref \<Rightarrow> byte list \<Rightarrow> nat \<Rightarrow> 'e \<Rightarrow> (nat \<times> bool \<times> 'e) option"
  rt_try_recv :: "transport_ref \<Rightarrow> nat \<Rightarrow> nat \<Rightarrow> 'e \<Rightarrow> (byte list \<times> bool \<times> 'e) option"
  rt_fp :: float_unit

text \<open>
  \<open>rt_try_send t data progress e\<close> is \<open>t->TrySend(data, size, &progress, &done)\<close>: the new progress,
  the flag and the new environment. \<open>rt_try_recv t size progress e\<close> is
  \<open>t->TryRecv(data, size, &progress, &done)\<close>: the bytes that it wrote at \<open>data + progress\<close>, whose
  number it added to the progress. \<^term>\<open>None\<close> is \<open>return false\<close>.
\<close>

record 'e tcfg =
  tc_task :: PlanTask
  tc_heap :: heap
  tc_net :: 'e

abbreviation tc_state :: "'e tcfg \<Rightarrow> CollOpState" where
  "tc_state c \<equiv> pt_state (tc_task c)"

definition upd_state :: "(CollOpState \<Rightarrow> CollOpState) \<Rightarrow> 'e tcfg \<Rightarrow> 'e tcfg" where
  "upd_state f c = c\<lparr>tc_task := (tc_task c)\<lparr>pt_state := f (pt_state (tc_task c))\<rparr>\<rparr>"

subsection \<open>Memory through pointers\<close>

text \<open>
  A pointer of the machine is into user memory or into \<open>temp_buffer\<close>. Dereferencing null is
  undefined in C++; the Init functions check for it.
\<close>

fun mem_load :: "'e tcfg \<Rightarrow> ptr \<Rightarrow> nat \<Rightarrow> byte list" where
  "mem_load c NullPtr n = []"
| "mem_load c (Mem a) n = heap_load (tc_heap c) a n"
| "mem_load c (Tmp a) n = take n (drop a (st_temp_buffer (tc_state c)))"

fun mem_store :: "ptr \<Rightarrow> byte list \<Rightarrow> 'e tcfg \<Rightarrow> 'e tcfg" where
  "mem_store NullPtr bs c = c"
| "mem_store (Mem a) bs c = c\<lparr>tc_heap := heap_store a bs (tc_heap c)\<rparr>"
| "mem_store (Tmp a) bs c = upd_state (\<lambda>s. s\<lparr>st_temp_buffer := list_store a bs (st_temp_buffer s)\<rparr>) c"

lemma mem_store_flags [simp]:
  "st_send_progress (tc_state (mem_store p bs c)) = st_send_progress (tc_state c)"
  "st_recv_progress (tc_state (mem_store p bs c)) = st_recv_progress (tc_state c)"
  "st_send_done (tc_state (mem_store p bs c)) = st_send_done (tc_state c)"
  "st_recv_done (tc_state (mem_store p bs c)) = st_recv_done (tc_state c)"
  "st_phase (tc_state (mem_store p bs c)) = st_phase (tc_state c)"
  "st_ring_step (tc_state (mem_store p bs c)) = st_ring_step (tc_state c)"
  by (cases p; simp add: upd_state_def)+

definition memcpy :: "ptr \<Rightarrow> ptr \<Rightarrow> nat \<Rightarrow> 'e tcfg \<Rightarrow> 'e tcfg" where
  "memcpy dst src n c = mem_store dst (mem_load c src n) c"

text \<open>\<open>Utils::PerformReduce(src, dst, n, dtype, op)\<close> and \<open>Utils::ApplyAverage(p, n, dtype, ws)\<close> in memory.\<close>

definition reduce_mem :: "'e runtime \<Rightarrow> ptr \<Rightarrow> ptr \<Rightarrow> nat \<Rightarrow> DataType \<Rightarrow> ReduceOp \<Rightarrow> 'e tcfg \<Rightarrow> 'e tcfg" where
  "reduce_mem rt src dst n d op c =
     mem_store dst (PerformReduce (rt_fp rt) (mem_load c src (n * GetDataTypeSize d))
                      (mem_load c dst (n * GetDataTypeSize d)) n d op) c"

definition average_mem :: "'e runtime \<Rightarrow> ptr \<Rightarrow> nat \<Rightarrow> DataType \<Rightarrow> int \<Rightarrow> 'e tcfg \<Rightarrow> 'e tcfg" where
  "average_mem rt p n d ws c =
     mem_store p (ApplyAverage (rt_fp rt) (mem_load c p (n * GetDataTypeSize d)) n d ws) c"

subsection \<open>Driving the transports\<close>

definition SideDone :: "bool list \<Rightarrow> bool" where
  "SideDone flags = list_all (\<lambda>d. d) flags"

definition MarkAllDone :: "'e tcfg \<Rightarrow> 'e tcfg" where
  "MarkAllDone c = upd_state (\<lambda>s. s\<lparr>
     st_send_done := replicate (length (pt_send_transports (tc_task c))) True,
     st_recv_done := replicate (length (pt_recv_transports (tc_task c))) True\<rparr>) c"

text \<open>One iteration of the send loop and of the receive loop of \<open>PushBuffer\<close>.\<close>

definition push_send :: "'e runtime \<Rightarrow> ptr \<Rightarrow> nat \<Rightarrow> nat \<Rightarrow> 'e tcfg \<Rightarrow> 'e tcfg option" where
  "push_send rt send_data send_bytes i c =
     (if st_send_done (tc_state c) ! i then Some c
      else (case rt_try_send rt (pt_send_transports (tc_task c) ! i) (mem_load c send_data send_bytes)
                   (st_send_progress (tc_state c) ! i) (tc_net c) of
              None \<Rightarrow> None
            | Some (progress, fin, e) \<Rightarrow>
                Some (upd_state (\<lambda>s. s\<lparr>st_send_progress := (st_send_progress s)[i := progress],
                                      st_send_done := (st_send_done s)[i := fin]\<rparr>) (c\<lparr>tc_net := e\<rparr>))))"

definition push_recv :: "'e runtime \<Rightarrow> ptr \<Rightarrow> nat \<Rightarrow> nat \<Rightarrow> 'e tcfg \<Rightarrow> 'e tcfg option" where
  "push_recv rt recv_data recv_bytes i c =
     (if st_recv_done (tc_state c) ! i then Some c
      else (case rt_try_recv rt (pt_recv_transports (tc_task c) ! i) recv_bytes
                   (st_recv_progress (tc_state c) ! i) (tc_net c) of
              None \<Rightarrow> None
            | Some (bs, fin, e) \<Rightarrow>
                let p = st_recv_progress (tc_state c) ! i in
                Some (upd_state (\<lambda>s. s\<lparr>st_recv_progress := (st_recv_progress s)[i := p + length bs],
                                      st_recv_done := (st_recv_done s)[i := fin]\<rparr>)
                        (mem_store (ptr_plus recv_data p) bs (c\<lparr>tc_net := e\<rparr>)))))"

definition PushBuffer ::
  "'e runtime \<Rightarrow> CollEvent \<Rightarrow> ptr \<Rightarrow> ptr \<Rightarrow> nat \<Rightarrow> nat \<Rightarrow> 'e tcfg \<Rightarrow> 'e tcfg option" where
  "PushBuffer rt event send_data recv_data send_bytes recv_bytes c =
     (case event of
        Writable \<Rightarrow> for_opt (push_send rt send_data send_bytes) [0..<length (pt_send_transports (tc_task c))] c
      | Readable \<Rightarrow> for_opt (push_recv rt recv_data recv_bytes) [0..<length (pt_recv_transports (tc_task c))] c)"

end
