(* ===== verification/Occl_Ring.thy ===== *)
theory Occl_Ring
  imports Occl_Machine
begin

section \<open>The ring state machine\<close>

text \<open>
  \<open>src/topology/topology_ring.cpp\<close>: AllReduce, Broadcast, AllGather, Reduce and ReduceScatter as
  resumable state machines over the two ring transports. Each \<open>Complete...\<close> loop is a recursive
  function over its loop body; its termination proof is that of the loop.

  \<open>size_t\<close> offsets are natural numbers: they are bounded by the size of the user's buffers, which the
  planner's validation keeps below \<open>2 ^ 64\<close> (\<open>Occl_Planner\<close>). The C++ \<open>int\<close> cursor \<open>step\<close> is
  incremented by \<^const>\<open>int_inc\<close>, which fails on overflow.
\<close>

definition kPhaseUnstarted :: int where "kPhaseUnstarted = 0"
definition kPhaseReduceScatter :: int where "kPhaseReduceScatter = 1"
definition kPhaseAllGather :: int where "kPhaseAllGather = 2"
definition kPhaseDone :: int where "kPhaseDone = 3"
definition kPhaseSend :: int where "kPhaseSend = 4"
definition kPhaseRecv :: int where "kPhaseRecv = 5"
definition kPhaseExchange :: int where "kPhaseExchange = 6"

lemmas phase_defs = kPhaseUnstarted_def kPhaseReduceScatter_def kPhaseAllGather_def kPhaseDone_def
  kPhaseSend_def kPhaseRecv_def kPhaseExchange_def

subsection \<open>Geometry of AllReduce\<close>

definition ChunkElemCount :: "nat \<Rightarrow> nat \<Rightarrow> int \<Rightarrow> nat" where
  "ChunkElemCount cnt chunk_size chunk_index =
     (let start = nat chunk_index * chunk_size in
      if start \<ge> cnt then 0 else min chunk_size (cnt - start))"

definition AllreduceUnit :: "PlanTask \<Rightarrow> int" where
  "AllreduceUnit t = st_ring_step (pt_state t) sdiv (pt_world_size t - 1)"

definition AllreduceStepInUnit :: "PlanTask \<Rightarrow> int" where
  "AllreduceStepInUnit t = st_ring_step (pt_state t) smod (pt_world_size t - 1)"

definition AllreduceSendChunk :: "PlanTask \<Rightarrow> int" where
  "AllreduceSendChunk t =
     (let step = AllreduceStepInUnit t; ws = pt_world_size t;
          chunk = if st_phase (pt_state t) = kPhaseReduceScatter
                  then (pt_rank t - step + ws) smod ws
                  else (pt_rank t - step + 1 + ws) smod ws
      in AllreduceUnit t * ws + chunk)"

definition AllreduceRecvChunk :: "PlanTask \<Rightarrow> int" where
  "AllreduceRecvChunk t =
     (let step = AllreduceStepInUnit t; ws = pt_world_size t;
          chunk = if st_phase (pt_state t) = kPhaseReduceScatter
                  then (pt_rank t - step + ws - 1) smod ws
                  else (pt_rank t - step + ws) smod ws
      in AllreduceUnit t * ws + chunk)"

definition AllreduceUnits :: "PlanTask \<Rightarrow> nat" where
  "AllreduceUnits t =
     (let per_unit = pt_chunk_size t * nat (pt_world_size t) in
      if per_unit = 0 then 0 else (pt_elem_count t + per_unit - 1) div per_unit)"

definition AllreduceSendBytes :: "PlanTask \<Rightarrow> nat" where
  "AllreduceSendBytes t =
     ChunkElemCount (pt_elem_count t) (pt_chunk_size t) (AllreduceSendChunk t) * GetDataTypeSize (pt_dtype t)"

definition AllreduceRecvBytes :: "PlanTask \<Rightarrow> nat" where
  "AllreduceRecvBytes t =
     ChunkElemCount (pt_elem_count t) (pt_chunk_size t) (AllreduceRecvChunk t) * GetDataTypeSize (pt_dtype t)"

definition AllreduceRecvPtr :: "PlanTask \<Rightarrow> ptr" where
  "AllreduceRecvPtr t =
     (if st_phase (pt_state t) = kPhaseReduceScatter then Tmp 0
      else ptr_plus (pt_recv_buf t) (nat (AllreduceRecvChunk t) * pt_chunk_size t * GetDataTypeSize (pt_dtype t)))"

definition AllreduceSendPtr :: "PlanTask \<Rightarrow> ptr" where
  "AllreduceSendPtr t =
     ptr_plus (pt_recv_buf t) (nat (AllreduceSendChunk t) * pt_chunk_size t * GetDataTypeSize (pt_dtype t))"

subsection \<open>Geometry of the other collectives\<close>

definition BlockBytes :: "PlanTask \<Rightarrow> nat" where
  "BlockBytes t = pt_elem_count t * GetDataTypeSize (pt_dtype t)"

definition OutputBlock :: "PlanTask \<Rightarrow> int \<Rightarrow> ptr" where
  "OutputBlock t block = ptr_plus (pt_recv_buf t) (nat block * pt_rank_stride t * GetDataTypeSize (pt_dtype t))"

definition InputBlock :: "PlanTask \<Rightarrow> int \<Rightarrow> ptr" where
  "InputBlock t block = ptr_plus (pt_send_buf t) (nat block * pt_rank_stride t * GetDataTypeSize (pt_dtype t))"

definition RootPosition :: "PlanTask \<Rightarrow> int" where
  "RootPosition t = (pt_rank t - pt_root t + pt_world_size t) smod pt_world_size t"

definition sum_for_avg :: "ReduceOp \<Rightarrow> ReduceOp" where
  "sum_for_avg op = (if op = OpAvg then OpSum else op)"

definition ReduceBlock :: "'e runtime \<Rightarrow> ptr \<Rightarrow> ptr \<Rightarrow> 'e tcfg \<Rightarrow> 'e tcfg" where
  "ReduceBlock rt input output c =
     reduce_mem rt input output (pt_elem_count (tc_task c)) (pt_dtype (tc_task c))
       (sum_for_avg (pt_reduce_op (tc_task c))) c"

definition ReduceScatterInputChunk :: "PlanTask \<Rightarrow> int" where
  "ReduceScatterInputChunk t =
     (pt_rank t - st_ring_step (pt_state t) - 2 + 2 * pt_world_size t) smod pt_world_size t"

definition AllGatherSendPtr :: "PlanTask \<Rightarrow> ptr" where
  "AllGatherSendPtr t =
     OutputBlock t ((pt_rank t - st_ring_step (pt_state t) + pt_world_size t) smod pt_world_size t)"

definition AllGatherRecvPtr :: "PlanTask \<Rightarrow> ptr" where
  "AllGatherRecvPtr t =
     OutputBlock t ((pt_rank t - st_ring_step (pt_state t) - 1 + pt_world_size t) smod pt_world_size t)"

definition ReduceScatterSendPtr :: "PlanTask \<Rightarrow> ptr" where
  "ReduceScatterSendPtr t = (if st_ring_step (pt_state t) smod 2 = 0 then pt_recv_buf t else Tmp 0)"

definition ReduceScatterRecvPtr :: "PlanTask \<Rightarrow> ptr" where
  "ReduceScatterRecvPtr t = (if st_ring_step (pt_state t) smod 2 = 0 then Tmp 0 else pt_recv_buf t)"

subsection \<open>Phases\<close>

text \<open>The resets at the start of \<open>BeginPhase\<close>.\<close>

definition start_phase :: "int \<Rightarrow> nat \<Rightarrow> nat \<Rightarrow> 'e tcfg \<Rightarrow> 'e tcfg" where
  "start_phase phase send_bytes recv_bytes c =
     (let send_skip = (phase = kPhaseRecv \<or> phase = kPhaseDone) \<or> send_bytes = 0;
          recv_skip = (phase = kPhaseSend \<or> phase = kPhaseDone) \<or> recv_bytes = 0;
          ns = length (pt_send_transports (tc_task c)); nr = length (pt_recv_transports (tc_task c))
      in upd_state (\<lambda>s. s\<lparr>st_phase := phase,
           st_send_progress := replicate ns 0, st_recv_progress := replicate nr 0,
           st_send_done := replicate ns send_skip, st_recv_done := replicate nr recv_skip\<rparr>) c)"

definition BeginPhase ::
  "'e runtime \<Rightarrow> int \<Rightarrow> ptr \<Rightarrow> ptr \<Rightarrow> nat \<Rightarrow> nat \<Rightarrow> 'e tcfg \<Rightarrow> 'e tcfg option" where
  "BeginPhase rt phase send_data recv_data send_bytes recv_bytes c =
     Option.bind (PushBuffer rt Writable send_data recv_data send_bytes recv_bytes
                    (start_phase phase send_bytes recv_bytes c))
       (PushBuffer rt Readable send_data recv_data send_bytes recv_bytes)"

definition loop_on :: "'e tcfg \<Rightarrow> bool" where
  "loop_on c \<longleftrightarrow> SideDone (st_send_done (tc_state c)) \<and> SideDone (st_recv_done (tc_state c)) \<and>
     st_phase (tc_state c) \<noteq> kPhaseDone"

definition inc_step :: "'e tcfg \<Rightarrow> 'e tcfg option" where
  "inc_step c = (case int_inc (st_ring_step (tc_state c)) of
                   None \<Rightarrow> None
                 | Some k \<Rightarrow> Some (upd_state (\<lambda>s. s\<lparr>st_ring_step := k\<rparr>) c))"

text \<open>I/O touches neither the phase nor the ring cursor nor the task's parameters.\<close>

definition same_frame :: "'e tcfg \<Rightarrow> 'e tcfg \<Rightarrow> bool" where
  "same_frame c c' \<longleftrightarrow> st_phase (tc_state c') = st_phase (tc_state c) \<and>
     st_ring_step (tc_state c') = st_ring_step (tc_state c) \<and>
     (tc_task c')\<lparr>pt_state := CollOpState_default\<rparr> = (tc_task c)\<lparr>pt_state := CollOpState_default\<rparr>"

lemma same_frame_refl [simp]: "same_frame c c"
  by (simp add: same_frame_def)

lemma same_frame_trans: "same_frame a b \<Longrightarrow> same_frame b c \<Longrightarrow> same_frame a c"
  by (simp add: same_frame_def)

lemma same_frame_mem_store [simp]: "same_frame c (mem_store p bs c)"
  by (cases p) (simp_all add: same_frame_def upd_state_def)

lemma same_frame_push_send: "push_send rt p n i c = Some c' \<Longrightarrow> same_frame c c'"
  by (auto simp: push_send_def same_frame_def upd_state_def split: if_splits option.splits)

lemma same_frame_push_recv: "push_recv rt p n i c = Some c' \<Longrightarrow> same_frame c c'"
  by (cases "ptr_plus p (st_recv_progress (tc_state c) ! i)")
     (auto simp: push_recv_def same_frame_def upd_state_def Let_def split: if_splits option.splits)

lemma same_frame_PushBuffer: "PushBuffer rt ev p q m n c = Some c' \<Longrightarrow> same_frame c c'"
  unfolding PushBuffer_def
  by (cases ev; simp; erule for_opt_invariant [where P = "same_frame c"])
     (auto intro: same_frame_trans same_frame_push_send same_frame_push_recv)

lemma BeginPhase_frame:
  assumes "BeginPhase rt ph p q m n c = Some c'"
  shows "st_phase (tc_state c') = ph" and "st_ring_step (tc_state c') = st_ring_step (tc_state c)"
    and "(tc_task c')\<lparr>pt_state := CollOpState_default\<rparr> = (tc_task c)\<lparr>pt_state := CollOpState_default\<rparr>"
proof -
  obtain c2 where "PushBuffer rt Writable p q m n (start_phase ph m n c) = Some c2"
    "PushBuffer rt Readable p q m n c2 = Some c'"
    using assms by (auto simp: BeginPhase_def bind_eq_Some_conv)
  with same_frame_PushBuffer same_frame_trans have "same_frame (start_phase ph m n c) c'" by blast
  then show "st_phase (tc_state c') = ph" "st_ring_step (tc_state c') = st_ring_step (tc_state c)"
    "(tc_task c')\<lparr>pt_state := CollOpState_default\<rparr> = (tc_task c)\<lparr>pt_state := CollOpState_default\<rparr>"
    by (simp_all add: same_frame_def start_phase_def Let_def upd_state_def)
qed

lemma inc_step_frame:
  "inc_step c = Some c' \<Longrightarrow> st_ring_step (tc_state c) < INT_MAX \<and>
     c' = upd_state (\<lambda>s. s\<lparr>st_ring_step := st_ring_step (tc_state c) + 1\<rparr>) c"
  by (auto simp: inc_step_def int_inc_def split: if_splits)

subsection \<open>Broadcast\<close>

definition broadcast_body :: "'e runtime \<Rightarrow> 'e tcfg \<Rightarrow> 'e tcfg option" where
  "broadcast_body rt c =
     (let t = tc_task c;
          next_phase = (if st_phase (pt_state t) = kPhaseRecv \<and> (pt_rank t + 1) smod pt_world_size t \<noteq> pt_root t
                        then kPhaseSend else kPhaseDone)
      in BeginPhase rt next_phase (pt_recv_buf t) (pt_recv_buf t) (BlockBytes t) (BlockBytes t) c)"

function CompleteBroadcast :: "'e runtime \<Rightarrow> 'e tcfg \<Rightarrow> 'e tcfg option" where
  "CompleteBroadcast rt c =
     (if loop_on c then (case broadcast_body rt c of None \<Rightarrow> None | Some c' \<Rightarrow> CompleteBroadcast rt c')
      else Some c)"
  by pat_completeness auto
termination
  by (relation "measure (\<lambda>(rt, c). if st_phase (tc_state c) = kPhaseDone then 0
        else if st_phase (tc_state c) = kPhaseRecv then 2 else (1::nat))")
     (auto simp: broadcast_body_def Let_def loop_on_def phase_defs dest!: BeginPhase_frame(1) split: if_splits)

subsection \<open>AllGather\<close>

definition allgather_body :: "'e runtime \<Rightarrow> 'e tcfg \<Rightarrow> 'e tcfg option" where
  "allgather_body rt c =
     (case inc_step c of
        None \<Rightarrow> None
      | Some c1 \<Rightarrow>
          let t = tc_task c1;
              next_phase = (if st_ring_step (pt_state t) < pt_world_size t - 1 then kPhaseExchange else kPhaseDone)
          in BeginPhase rt next_phase (AllGatherSendPtr t) (AllGatherRecvPtr t) (BlockBytes t) (BlockBytes t) c1)"

function CompleteAllGather :: "'e runtime \<Rightarrow> 'e tcfg \<Rightarrow> 'e tcfg option" where
  "CompleteAllGather rt c =
     (if loop_on c then (case allgather_body rt c of None \<Rightarrow> None | Some c' \<Rightarrow> CompleteAllGather rt c')
      else Some c)"
  by pat_completeness auto
termination
  by (relation "measure (\<lambda>(rt, c). nat (INT_MAX - st_ring_step (tc_state c)))")
     (auto simp: allgather_body_def Let_def upd_state_def dest!: BeginPhase_frame(2) inc_step_frame split: option.splits)

subsection \<open>Reduce\<close>

text \<open>The part of the loop body before \<open>BeginPhase\<close>: the new configuration and the next phase.\<close>

definition reduce_advance :: "'e runtime \<Rightarrow> 'e tcfg \<Rightarrow> 'e tcfg \<times> int" where
  "reduce_advance rt c =
     (let t = tc_task c in
      if st_phase (pt_state t) = kPhaseRecv then
        let c1 = ReduceBlock rt (Tmp (BlockBytes t)) (Tmp 0) c in
        if pt_rank t = pt_root t then
          let c2 = memcpy (pt_recv_buf t) (Tmp 0) (BlockBytes t) c1 in
          (if pt_reduce_op t = OpAvg
           then average_mem rt (pt_recv_buf t) (pt_elem_count t) (pt_dtype t) (pt_world_size t) c2 else c2, kPhaseDone)
        else (c1, kPhaseSend)
      else (c, kPhaseDone))"

definition reduce_body :: "'e runtime \<Rightarrow> 'e tcfg \<Rightarrow> 'e tcfg option" where
  "reduce_body rt c =
     (let t = tc_task c; (c1, next_phase) = reduce_advance rt c in
      BeginPhase rt next_phase (Tmp 0) (Tmp (BlockBytes t)) (BlockBytes t) (BlockBytes t) c1)"

lemma reduce_advance_phase:
  "snd (reduce_advance rt c) = kPhaseDone \<or> (st_phase (tc_state c) = kPhaseRecv \<and> snd (reduce_advance rt c) = kPhaseSend)"
  by (simp add: reduce_advance_def Let_def)

function CompleteReduce :: "'e runtime \<Rightarrow> 'e tcfg \<Rightarrow> 'e tcfg option" where
  "CompleteReduce rt c =
     (if loop_on c then (case reduce_body rt c of None \<Rightarrow> None | Some c' \<Rightarrow> CompleteReduce rt c')
      else Some c)"
  by pat_completeness auto
termination
proof (relation "measure (\<lambda>(rt, c). if st_phase (tc_state c) = kPhaseDone then 0
        else if st_phase (tc_state c) = kPhaseRecv then 2 else (1::nat))", goal_cases)
  case (2 rt c c')
  then have "st_phase (tc_state c') = snd (reduce_advance rt c)"
    by (auto simp: reduce_body_def Let_def dest!: BeginPhase_frame(1) split: prod.splits)
  with 2 reduce_advance_phase [of rt c] show ?case by (auto simp: loop_on_def phase_defs)
qed simp

subsection \<open>ReduceScatter\<close>

definition reducescatter_advance :: "'e runtime \<Rightarrow> 'e tcfg \<Rightarrow> ('e tcfg \<times> int) option" where
  "reducescatter_advance rt c =
     (let t = tc_task c; incoming = ReduceScatterRecvPtr t;
          c1 = ReduceBlock rt (InputBlock t (ReduceScatterInputChunk t)) incoming c in
      (case inc_step c1 of
         None \<Rightarrow> None
       | Some c2 \<Rightarrow>
           if st_ring_step (tc_state c2) < pt_world_size t - 1 then Some (c2, kPhaseExchange)
           else let c3 = (if incoming \<noteq> pt_recv_buf t then memcpy (pt_recv_buf t) incoming (BlockBytes t) c2 else c2);
                    c4 = (if pt_reduce_op t = OpAvg
                          then average_mem rt (pt_recv_buf t) (pt_elem_count t) (pt_dtype t) (pt_world_size t) c3 else c3)
                in Some (c4, kPhaseDone)))"

definition reducescatter_body :: "'e runtime \<Rightarrow> 'e tcfg \<Rightarrow> 'e tcfg option" where
  "reducescatter_body rt c =
     (case reducescatter_advance rt c of
        None \<Rightarrow> None
      | Some (c1, next_phase) \<Rightarrow>
          let t = tc_task c1 in
          BeginPhase rt next_phase (ReduceScatterSendPtr t) (ReduceScatterRecvPtr t) (BlockBytes t) (BlockBytes t) c1)"

lemma mem_step_frame [simp]:
  "same_frame c (memcpy p q n c)" "same_frame c (reduce_mem rt p q n d op c)" "same_frame c (average_mem rt p n d ws c)"
  "same_frame c (ReduceBlock rt p q c)"
  by (simp_all add: memcpy_def reduce_mem_def average_mem_def ReduceBlock_def)

lemma frame_step: "same_frame c c' \<Longrightarrow> st_ring_step (tc_state c') = st_ring_step (tc_state c)"
  by (simp add: same_frame_def)

lemmas mem_step_ring_step [simp] = mem_step_frame [THEN frame_step]

lemma reducescatter_advance_step:
  "reducescatter_advance rt c = Some (c', ph) \<Longrightarrow>
     st_ring_step (tc_state c) < INT_MAX \<and> st_ring_step (tc_state c') = st_ring_step (tc_state c) + 1"
  by (auto simp: reducescatter_advance_def Let_def upd_state_def dest!: inc_step_frame
      split: option.splits if_splits)

function CompleteReduceScatter :: "'e runtime \<Rightarrow> 'e tcfg \<Rightarrow> 'e tcfg option" where
  "CompleteReduceScatter rt c =
     (if loop_on c then (case reducescatter_body rt c of None \<Rightarrow> None | Some c' \<Rightarrow> CompleteReduceScatter rt c')
      else Some c)"
  by pat_completeness auto
termination
  by (relation "measure (\<lambda>(rt, c). nat (INT_MAX - st_ring_step (tc_state c)))")
     (auto simp: reducescatter_body_def Let_def dest!: BeginPhase_frame(2) reducescatter_advance_step split: option.splits)

subsection \<open>AllReduce\<close>

text \<open>The reduction of the chunk that has arrived (only in the reduce-scatter phase).\<close>

definition allreduce_reduce :: "'e runtime \<Rightarrow> 'e tcfg \<Rightarrow> 'e tcfg" where
  "allreduce_reduce rt c =
     (let t = tc_task c; type_size = GetDataTypeSize (pt_dtype t); chunk = pt_chunk_size t in
      if st_phase (pt_state t) = kPhaseReduceScatter then
        let recv_chunk = AllreduceRecvChunk t;
            recv_count = ChunkElemCount (pt_elem_count t) chunk recv_chunk;
            recv_ptr = ptr_plus (pt_recv_buf t) (nat recv_chunk * chunk * type_size);
            c1 = reduce_mem rt (Tmp 0) recv_ptr recv_count (pt_dtype t) (sum_for_avg (pt_reduce_op t)) c
        in if pt_reduce_op t = OpAvg \<and> AllreduceStepInUnit t = pt_world_size t - 2
           then average_mem rt recv_ptr recv_count (pt_dtype t) (pt_world_size t) c1 else c1
      else c)"

definition allreduce_total_ops :: "PlanTask \<Rightarrow> nat" where
  "allreduce_total_ops t = AllreduceUnits t * nat (pt_world_size t - 1)"

text \<open>
  The cursor update; the second component says whether the loop goes on to \<open>BeginPhase\<close> or returns.
\<close>

definition allreduce_cursor :: "'e tcfg \<Rightarrow> 'e tcfg \<times> bool" where
  "allreduce_cursor c =
     (let s = tc_state c; total_ops = allreduce_total_ops (tc_task c) in
      if st_phase s = kPhaseReduceScatter \<and> nat (st_ring_step s) \<ge> total_ops
      then (upd_state (\<lambda>s. s\<lparr>st_phase := kPhaseAllGather, st_ring_step := 0\<rparr>) c, True)
      else if st_phase s = kPhaseAllGather \<and> nat (st_ring_step s) \<ge> total_ops
      then (upd_state (\<lambda>s. s\<lparr>st_phase := kPhaseDone\<rparr>) c, False)
      else (c, True))"

definition allreduce_begin :: "'e runtime \<Rightarrow> int \<Rightarrow> 'e tcfg \<Rightarrow> 'e tcfg option" where
  "allreduce_begin rt ph c =
     (let t = tc_task c in
      BeginPhase rt ph (AllreduceSendPtr t) (AllreduceRecvPtr t) (AllreduceSendBytes t) (AllreduceRecvBytes t) c)"

text \<open>
  One iteration. The early \<open>return true\<close> leaves the phase at \<open>kPhaseDone\<close>, on which the loop condition
  fails, so it is the same as going back to the loop head.
\<close>

definition allreduce_body :: "'e runtime \<Rightarrow> 'e tcfg \<Rightarrow> 'e tcfg option" where
  "allreduce_body rt c =
     (case inc_step (allreduce_reduce rt c) of
        None \<Rightarrow> None
      | Some c1 \<Rightarrow>
          (case allreduce_cursor c1 of
             (c2, True) \<Rightarrow> allreduce_begin rt (st_phase (tc_state c2)) c2
           | (c2, False) \<Rightarrow> Some c2))"

lemma same_frame_allreduce_reduce [simp]: "same_frame c (allreduce_reduce rt c)"
  by (auto simp: allreduce_reduce_def Let_def intro: same_frame_trans mem_step_frame)

lemma allreduce_body_measure:
  assumes "allreduce_body rt c = Some c'" and "st_phase (tc_state c) \<noteq> kPhaseDone"
  shows "(st_phase (tc_state c) = kPhaseReduceScatter \<and> st_phase (tc_state c') \<noteq> kPhaseReduceScatter) \<or>
         ((st_phase (tc_state c') = kPhaseReduceScatter \<longrightarrow> st_phase (tc_state c) = kPhaseReduceScatter) \<and>
          st_ring_step (tc_state c') = st_ring_step (tc_state c) + 1 \<and> st_ring_step (tc_state c) < INT_MAX)"
proof -
  have f: "st_phase (tc_state (allreduce_reduce rt c)) = st_phase (tc_state c)"
    "st_ring_step (tc_state (allreduce_reduce rt c)) = st_ring_step (tc_state c)"
    using same_frame_allreduce_reduce [of c rt] by (simp_all add: same_frame_def)
  from assms(1) obtain c1 where "inc_step (allreduce_reduce rt c) = Some c1"
    and rest: "(case allreduce_cursor c1 of (c2, True) \<Rightarrow> allreduce_begin rt (st_phase (tc_state c2)) c2
           | (c2, False) \<Rightarrow> Some c2) = Some c'"
    by (auto simp: allreduce_body_def split: option.splits)
  with f have c1: "st_phase (tc_state c1) = st_phase (tc_state c)" "st_ring_step (tc_state c1) = st_ring_step (tc_state c) + 1"
    "st_ring_step (tc_state c) < INT_MAX"
    by (auto dest!: inc_step_frame simp: upd_state_def)
  show ?thesis
    using rest c1 BeginPhase_frame(1,2)
    by (auto simp: allreduce_cursor_def allreduce_begin_def Let_def upd_state_def phase_defs
        dest: BeginPhase_frame(1,2) split: if_splits)
qed

function CompleteAllreduce :: "'e runtime \<Rightarrow> 'e tcfg \<Rightarrow> 'e tcfg option" where
  "CompleteAllreduce rt c =
     (if loop_on c then (case allreduce_body rt c of None \<Rightarrow> None | Some c' \<Rightarrow> CompleteAllreduce rt c')
      else Some c)"
  by pat_completeness auto
termination
proof (relation "(\<lambda>(rt, c). if st_phase (tc_state c) = kPhaseReduceScatter then 1 else (0::nat)) <*mlex*>
    measure (\<lambda>(rt, c). nat (INT_MAX - st_ring_step (tc_state c)))", goal_cases)
  case (2 rt c c')
  then show ?case using allreduce_body_measure [of rt c c'] by (auto simp: mlex_prod_def loop_on_def)
qed (simp add: wf_mlex)

declare CompleteBroadcast.simps [simp del] CompleteAllGather.simps [simp del] CompleteReduce.simps [simp del]
  CompleteReduceScatter.simps [simp del] CompleteAllreduce.simps [simp del]

subsection \<open>Entry points\<close>

definition reset_state :: "'e tcfg \<Rightarrow> 'e tcfg" where
  "reset_state c = upd_state (\<lambda>s. CollOpState_default) c"

definition set_phase :: "int \<Rightarrow> 'e tcfg \<Rightarrow> 'e tcfg" where
  "set_phase ph c = upd_state (\<lambda>s. s\<lparr>st_phase := ph\<rparr>) c"

definition resize_temp :: "nat \<Rightarrow> 'e tcfg \<Rightarrow> 'e tcfg" where
  "resize_temp n c = upd_state (\<lambda>s. s\<lparr>st_temp_buffer := take n (st_temp_buffer s) @
     replicate (n - length (st_temp_buffer s)) 0\<rparr>) c"

definition no_transports :: "PlanTask \<Rightarrow> bool" where
  "no_transports t \<longleftrightarrow> pt_send_transports t = [] \<or> pt_recv_transports t = []"

definition AllreduceInit :: "'e runtime \<Rightarrow> 'e tcfg \<Rightarrow> 'e tcfg option" where
  "AllreduceInit rt c0 =
     (let c = reset_state c0; t = tc_task c; type_size = GetDataTypeSize (pt_dtype t) in
      if pt_world_size t \<le> 0 then None
      else if pt_elem_count t = 0 then Some (MarkAllDone (set_phase kPhaseDone c))
      else if pt_send_buf t = NullPtr \<or> pt_recv_buf t = NullPtr then None
      else
        let c1 = (if pt_send_buf t \<noteq> pt_recv_buf t
                  then memcpy (pt_recv_buf t) (pt_send_buf t) (pt_elem_count t * type_size) c else c) in
        if pt_world_size t = 1 then
          Some (set_phase kPhaseDone
            (if pt_reduce_op t = OpAvg
             then average_mem rt (pt_recv_buf t) (pt_elem_count t) (pt_dtype t) (pt_world_size t) c1 else c1))
        else if no_transports t then None
        else Option.bind
          (allreduce_begin rt kPhaseReduceScatter
            (upd_state (\<lambda>s. s\<lparr>st_phase := kPhaseReduceScatter, st_ring_step := 0\<rparr>)
              (resize_temp (pt_chunk_size t * type_size) c1)))
          (CompleteAllreduce rt))"

definition AllreduceStep :: "'e runtime \<Rightarrow> CollEvent \<Rightarrow> 'e tcfg \<Rightarrow> 'e tcfg option" where
  "AllreduceStep rt event c =
     Option.bind (if st_phase (tc_state c) = kPhaseUnstarted then AllreduceInit rt c else Some c) (\<lambda>c1.
     if st_phase (tc_state c1) = kPhaseDone then Some c1
     else let t = tc_task c1 in
       Option.bind (PushBuffer rt event (AllreduceSendPtr t) (AllreduceRecvPtr t)
                      (AllreduceSendBytes t) (AllreduceRecvBytes t) c1)
         (CompleteAllreduce rt))"

definition BroadcastInit :: "'e runtime \<Rightarrow> 'e tcfg \<Rightarrow> 'e tcfg option" where
  "BroadcastInit rt c0 =
     (let c = reset_state c0; t = tc_task c in
      if pt_world_size t \<le> 0 \<or> pt_root t < 0 \<or> pt_root t \<ge> pt_world_size t then None
      else if pt_elem_count t = 0 then Some (MarkAllDone (set_phase kPhaseDone c))
      else if pt_recv_buf t = NullPtr then None
      else if pt_world_size t = 1 then Some (MarkAllDone (set_phase kPhaseDone c))
      else if no_transports t then None
      else Option.bind
        (BeginPhase rt (if pt_rank t = pt_root t then kPhaseSend else kPhaseRecv)
           (pt_recv_buf t) (pt_recv_buf t) (BlockBytes t) (BlockBytes t) c)
        (CompleteBroadcast rt))"

definition BroadcastStep :: "'e runtime \<Rightarrow> CollEvent \<Rightarrow> 'e tcfg \<Rightarrow> 'e tcfg option" where
  "BroadcastStep rt event c =
     Option.bind (if st_phase (tc_state c) = kPhaseUnstarted then BroadcastInit rt c else Some c) (\<lambda>c1.
     if st_phase (tc_state c1) = kPhaseDone then Some c1
     else let t = tc_task c1 in
       Option.bind (PushBuffer rt event (pt_recv_buf t) (pt_recv_buf t) (BlockBytes t) (BlockBytes t) c1)
         (CompleteBroadcast rt))"

definition AllGatherInit :: "'e runtime \<Rightarrow> 'e tcfg \<Rightarrow> 'e tcfg option" where
  "AllGatherInit rt c0 =
     (let c = reset_state c0; t = tc_task c in
      if pt_world_size t \<le> 0 then None
      else if pt_elem_count t = 0 then Some (MarkAllDone (set_phase kPhaseDone c))
      else if pt_send_buf t = NullPtr \<or> pt_recv_buf t = NullPtr then None
      else
        let c1 = memcpy (OutputBlock t (pt_rank t)) (pt_send_buf t) (BlockBytes t) c in
        if pt_world_size t = 1 then Some (MarkAllDone (set_phase kPhaseDone c1))
        else if no_transports t then None
        else Option.bind
          (BeginPhase rt kPhaseExchange (AllGatherSendPtr t) (AllGatherRecvPtr t) (BlockBytes t) (BlockBytes t) c1)
          (CompleteAllGather rt))"

definition AllGatherStep :: "'e runtime \<Rightarrow> CollEvent \<Rightarrow> 'e tcfg \<Rightarrow> 'e tcfg option" where
  "AllGatherStep rt event c =
     Option.bind (if st_phase (tc_state c) = kPhaseUnstarted then AllGatherInit rt c else Some c) (\<lambda>c1.
     if st_phase (tc_state c1) = kPhaseDone then Some c1
     else let t = tc_task c1 in
       Option.bind (PushBuffer rt event (AllGatherSendPtr t) (AllGatherRecvPtr t) (BlockBytes t) (BlockBytes t) c1)
         (CompleteAllGather rt))"

definition ReduceInit :: "'e runtime \<Rightarrow> 'e tcfg \<Rightarrow> 'e tcfg option" where
  "ReduceInit rt c0 =
     (let c = reset_state c0; t = tc_task c in
      if pt_world_size t \<le> 0 \<or> pt_root t < 0 \<or> pt_root t \<ge> pt_world_size t then None
      else if pt_elem_count t = 0 then Some (MarkAllDone (set_phase kPhaseDone c))
      else if pt_send_buf t = NullPtr \<or> (pt_rank t = pt_root t \<and> pt_recv_buf t = NullPtr) then None
      else if pt_world_size t = 1 then
        Some (MarkAllDone (set_phase kPhaseDone (memcpy (pt_recv_buf t) (pt_send_buf t) (BlockBytes t) c)))
      else if no_transports t then None
      else Option.bind
        (BeginPhase rt (if RootPosition t = 1 then kPhaseSend else kPhaseRecv)
           (Tmp 0) (Tmp (BlockBytes t)) (BlockBytes t) (BlockBytes t)
           (memcpy (Tmp 0) (pt_send_buf t) (BlockBytes t) (resize_temp (2 * BlockBytes t) c)))
        (CompleteReduce rt))"

definition ReduceStep :: "'e runtime \<Rightarrow> CollEvent \<Rightarrow> 'e tcfg \<Rightarrow> 'e tcfg option" where
  "ReduceStep rt event c =
     Option.bind (if st_phase (tc_state c) = kPhaseUnstarted then ReduceInit rt c else Some c) (\<lambda>c1.
     if st_phase (tc_state c1) = kPhaseDone then Some c1
     else let t = tc_task c1 in
       Option.bind (PushBuffer rt event (Tmp 0) (Tmp (BlockBytes t)) (BlockBytes t) (BlockBytes t) c1)
         (CompleteReduce rt))"

definition ReduceScatterInit :: "'e runtime \<Rightarrow> 'e tcfg \<Rightarrow> 'e tcfg option" where
  "ReduceScatterInit rt c0 =
     (let c = reset_state c0; t = tc_task c in
      if pt_world_size t \<le> 0 then None
      else if pt_elem_count t = 0 then Some (MarkAllDone (set_phase kPhaseDone c))
      else if pt_send_buf t = NullPtr \<or> pt_recv_buf t = NullPtr then None
      else if pt_world_size t = 1 then
        Some (MarkAllDone (set_phase kPhaseDone (memcpy (pt_recv_buf t) (pt_send_buf t) (BlockBytes t) c)))
      else if no_transports t then None
      else
        let c1 = memcpy (pt_recv_buf t) (InputBlock t ((pt_rank t - 1 + pt_world_size t) smod pt_world_size t))
                   (BlockBytes t) (resize_temp (BlockBytes t) c)
        in Option.bind
          (BeginPhase rt kPhaseExchange (ReduceScatterSendPtr t) (ReduceScatterRecvPtr t) (BlockBytes t) (BlockBytes t) c1)
          (CompleteReduceScatter rt))"

definition ReduceScatterStep :: "'e runtime \<Rightarrow> CollEvent \<Rightarrow> 'e tcfg \<Rightarrow> 'e tcfg option" where
  "ReduceScatterStep rt event c =
     Option.bind (if st_phase (tc_state c) = kPhaseUnstarted then ReduceScatterInit rt c else Some c) (\<lambda>c1.
     if st_phase (tc_state c1) = kPhaseDone then Some c1
     else let t = tc_task c1 in
       Option.bind (PushBuffer rt event (ReduceScatterSendPtr t) (ReduceScatterRecvPtr t) (BlockBytes t) (BlockBytes t) c1)
         (CompleteReduceScatter rt))"

definition Ring_CollectiveInit :: "'e runtime \<Rightarrow> 'e tcfg \<Rightarrow> 'e tcfg option" where
  "Ring_CollectiveInit rt c =
     (case pt_func (tc_task c) of
        AllReduce \<Rightarrow> AllreduceInit rt c
      | Broadcast \<Rightarrow> BroadcastInit rt c
      | AllGather \<Rightarrow> AllGatherInit rt c
      | Reduce \<Rightarrow> ReduceInit rt c
      | ReduceScatter \<Rightarrow> ReduceScatterInit rt c
      | _ \<Rightarrow> None)"

definition Ring_CollectiveStep :: "'e runtime \<Rightarrow> CollEvent \<Rightarrow> 'e tcfg \<Rightarrow> 'e tcfg option" where
  "Ring_CollectiveStep rt event c =
     (case pt_func (tc_task c) of
        AllReduce \<Rightarrow> AllreduceStep rt event c
      | Broadcast \<Rightarrow> BroadcastStep rt event c
      | AllGather \<Rightarrow> AllGatherStep rt event c
      | Reduce \<Rightarrow> ReduceStep rt event c
      | ReduceScatter \<Rightarrow> ReduceScatterStep rt event c
      | _ \<Rightarrow> None)"

definition Ring_CollectiveDone :: "PlanTask \<Rightarrow> bool" where
  "Ring_CollectiveDone t \<longleftrightarrow> st_phase (pt_state t) = kPhaseDone"

end
