(* ===== verification/Occl_Exchange.thy ===== *)
theory Occl_Exchange
  imports Occl_Ring
begin

section \<open>Exchanging a sequence of messages over two byte streams\<close>

text \<open>
  What a ring collective relies on, and the part of its correctness proof that all ring collectives
  share. The locale \<open>transport\<close> is the contract of \<open>TrySend\<close> and \<open>TryRecv\<close> that the state machines
  use: a call moves some (possibly no) bytes from the given position of the message and reports
  completion exactly when the whole message has been moved. Every call is recorded in a trace.

  The locale \<open>exchange\<close> describes a rank as a sequence of operations; operation \<open>j\<close> sends the bytes
  \<open>out j\<close> and receives the bytes \<open>inc j\<close>. Its lemmas show that as long as the bytes received are a
  prefix of the expected input stream, the machine sits in one of these operations with exactly the
  corresponding output sent, no matter how the transports split the transfers or in which order
  send and receive events arrive.
\<close>

subsection \<open>Traces\<close>

datatype io = Sent transport_ref "byte list" | Rcvd transport_ref "byte list"

fun sent_bytes :: "transport_ref \<Rightarrow> io list \<Rightarrow> byte list" where
  "sent_bytes t [] = []"
| "sent_bytes t (Sent u bs # es) = (if u = t then bs else []) @ sent_bytes t es"
| "sent_bytes t (Rcvd u bs # es) = sent_bytes t es"

fun rcvd_bytes :: "transport_ref \<Rightarrow> io list \<Rightarrow> byte list" where
  "rcvd_bytes t [] = []"
| "rcvd_bytes t (Rcvd u bs # es) = (if u = t then bs else []) @ rcvd_bytes t es"
| "rcvd_bytes t (Sent u bs # es) = rcvd_bytes t es"

lemma sent_bytes_append [simp]: "sent_bytes t (xs @ ys) = sent_bytes t xs @ sent_bytes t ys"
  by (induction xs rule: sent_bytes.induct) auto

lemma rcvd_bytes_append [simp]: "rcvd_bytes t (xs @ ys) = rcvd_bytes t xs @ rcvd_bytes t ys"
  by (induction xs rule: rcvd_bytes.induct) auto

lemma rcvd_bytes_prefix: "prefix xs ys \<Longrightarrow> prefix (rcvd_bytes t xs) (rcvd_bytes t ys)"
  by (auto simp: prefix_def)

subsection \<open>The contract of a transport\<close>

locale transport =
  fixes rt :: "'e runtime" and trace :: "'e \<Rightarrow> io list"
  assumes send_recorded: "rt_try_send rt t data p e = Some (p', d, e') \<Longrightarrow> \<exists>bs. trace e' = trace e @ [Sent t bs]"
    and send_law: "rt_try_send rt t data p e = Some (p', d, e') \<Longrightarrow> p \<le> length data \<Longrightarrow>
      p \<le> p' \<and> p' \<le> length data \<and> d = (p' = length data) \<and>
      trace e' = trace e @ [Sent t (take (p' - p) (drop p data))]"
    and recv_recorded: "rt_try_recv rt t n p e = Some (bs, d, e') \<Longrightarrow> trace e' = trace e @ [Rcvd t bs]"
    and recv_law: "rt_try_recv rt t n p e = Some (bs, d, e') \<Longrightarrow> p \<le> n \<Longrightarrow>
      p + length bs \<le> n \<and> d = (p + length bs = n)"
begin

abbreviation tr :: "'e tcfg \<Rightarrow> io list" where
  "tr c \<equiv> trace (tc_net c)"

lemma tr_simps [simp]:
  "tr (upd_state f c) = tr c" "tr (mem_store p bs c) = tr c" "tr (start_phase ph m n c) = tr c"
  "tr (memcpy p q k c) = tr c" "tr (reduce_mem rt p q k d op c) = tr c" "tr (average_mem rt p k d ws c) = tr c"
  "tr (ReduceBlock rt p q c) = tr c"
proof -
  show store: "tr (mem_store p bs c) = tr c" for p bs c by (cases p) (simp_all add: upd_state_def)
  show "tr (upd_state f c) = tr c" "tr (start_phase ph m n c) = tr c"
    by (simp_all add: upd_state_def start_phase_def Let_def)
  show "tr (memcpy p q k c) = tr c" "tr (reduce_mem rt p q k d op c) = tr c" "tr (average_mem rt p k d ws c) = tr c"
    "tr (ReduceBlock rt p q c) = tr c"
    by (simp_all add: memcpy_def reduce_mem_def average_mem_def ReduceBlock_def store)
qed

lemma push_send_mono: "push_send rt p n i c = Some c' \<Longrightarrow> prefix (tr c) (tr c')"
  by (auto simp: push_send_def upd_state_def prefix_def dest!: send_recorded split: if_splits option.splits)

lemma push_recv_mono: "push_recv rt p n i c = Some c' \<Longrightarrow> prefix (tr c) (tr c')"
  by (auto simp: push_recv_def Let_def prefix_def dest!: recv_recorded split: if_splits option.splits)

lemma PushBuffer_mono: "PushBuffer rt ev p q m n c = Some c' \<Longrightarrow> prefix (tr c) (tr c')"
  unfolding PushBuffer_def
  by (cases ev; simp; erule for_opt_invariant [where P = "\<lambda>x. prefix (tr c) (tr x)"])
     (auto intro: prefix_order.trans push_send_mono push_recv_mono)

lemma BeginPhase_mono: "BeginPhase rt ph p q m n c = Some c' \<Longrightarrow> prefix (tr c) (tr c')"
  unfolding BeginPhase_def bind_eq_Some_conv
  by (elim exE conjE) (drule PushBuffer_mono, drule PushBuffer_mono, auto intro: prefix_order.trans)

end

subsection \<open>A rank as a sequence of operations\<close>

text \<open>What an operation reads besides the progress and done flags: memory and the rest of the task.\<close>

definition core :: "'e tcfg \<Rightarrow> heap \<times> PlanTask" where
  "core c = (tc_heap c, (tc_task c)\<lparr>pt_state := (tc_state c)\<lparr>st_send_progress := [], st_recv_progress := [],
     st_send_done := [], st_recv_done := []\<rparr>\<rparr>)"

locale exchange = transport rt trace
  for rt :: "'e runtime" and trace :: "'e \<Rightarrow> io list" +
  fixes stid rtid :: transport_ref
    and J :: nat
    and out inc :: "nat \<Rightarrow> byte list"
    and holds :: "nat \<Rightarrow> nat \<Rightarrow> heap \<times> PlanTask \<Rightarrow> bool"
    and sp_of rp_of :: "PlanTask \<Rightarrow> ptr"
    and sb_of rb_of :: "PlanTask \<Rightarrow> nat"
  assumes holds_transports: "holds j q (core (c :: 'e tcfg)) \<Longrightarrow>
      pt_send_transports (tc_task c) = [stid] \<and> pt_recv_transports (tc_task c) = [rtid]"
    and holds_load: "holds j q (core (c :: 'e tcfg)) \<Longrightarrow> j < J \<Longrightarrow> out j \<noteq> [] \<Longrightarrow>
      mem_load c (sp_of (tc_task c)) (sb_of (tc_task c)) = out j"
    and holds_recv: "holds j q (core (c :: 'e tcfg)) \<Longrightarrow> j < J \<Longrightarrow> inc j \<noteq> [] \<Longrightarrow> rb_of (tc_task c) = length (inc j)"
    and holds_store: "holds j q (core (c :: 'e tcfg)) \<Longrightarrow> j < J \<Longrightarrow> q + length bs \<le> length (inc j) \<Longrightarrow>
      bs = take (length bs) (drop q (inc j)) \<Longrightarrow>
      holds j (q + length bs) (core (mem_store (ptr_plus (rp_of (tc_task c)) q) bs c))"
    and ptrs_core: "core (c :: 'e tcfg) = core (c' :: 'e tcfg) \<Longrightarrow> sp_of (tc_task c) = sp_of (tc_task c') \<and> rp_of (tc_task c) = rp_of (tc_task c') \<and>
      sb_of (tc_task c) = sb_of (tc_task c') \<and> rb_of (tc_task c) = rb_of (tc_task c')"
begin

definition outs :: "nat \<Rightarrow> byte list" where "outs j = concat (map out [0..<j])"
definition ins :: "nat \<Rightarrow> byte list" where "ins j = concat (map inc [0..<j])"

lemma outs_Suc: "outs (Suc j) = outs j @ out j" by (simp add: outs_def)
lemma ins_Suc: "ins (Suc j) = ins j @ inc j" by (simp add: ins_def)

lemma outs_split: "j \<le> k \<Longrightarrow> \<exists>rest. outs k = outs j @ rest"
  by (induction k rule: dec_induct) (auto simp: outs_Suc)

lemma ins_split: "j \<le> k \<Longrightarrow> \<exists>rest. ins k = ins j @ rest"
  by (induction k rule: dec_induct) (auto simp: ins_Suc)

definition at :: "nat \<Rightarrow> 'e tcfg \<Rightarrow> bool" where
  "at j c \<longleftrightarrow> j < J \<and> (\<exists>sp rp. st_send_progress (tc_state c) = [sp] \<and> st_recv_progress (tc_state c) = [rp] \<and>
     sp \<le> length (out j) \<and> rp \<le> length (inc j) \<and>
     st_send_done (tc_state c) = [sp = length (out j)] \<and> st_recv_done (tc_state c) = [rp = length (inc j)] \<and>
     holds j rp (core c) \<and>
     sent_bytes stid (tr c) = outs j @ take sp (out j) \<and> rcvd_bytes rtid (tr c) = ins j @ take rp (inc j))"

text \<open>A trace is good if what was received so far is what the previous rank is meant to send.\<close>

definition good :: "io list \<Rightarrow> bool" where
  "good t \<longleftrightarrow> prefix (rcvd_bytes rtid t) (ins J)"

definition sends_ok :: "io list \<Rightarrow> bool" where
  "sends_ok t \<longleftrightarrow> (\<forall>t'. prefix t' t \<longrightarrow> good t' \<longrightarrow> prefix (sent_bytes stid t') (outs J))"

definition inv :: "('e tcfg \<Rightarrow> bool) \<Rightarrow> 'e tcfg \<Rightarrow> bool" where
  "inv P c \<longleftrightarrow> sends_ok (tr c) \<and> (good (tr c) \<longrightarrow> P c)"

lemma good_prefix: "prefix t t' \<Longrightarrow> good t' \<Longrightarrow> good t"
  unfolding good_def using rcvd_bytes_prefix prefix_order.trans by blast

lemma sends_ok_prefix: "prefix t t' \<Longrightarrow> sends_ok t' \<Longrightarrow> sends_ok t"
  unfolding sends_ok_def using prefix_order.trans by blast

lemma sends_ok_snoc:
  "sends_ok t \<Longrightarrow> (good (t @ [ev]) \<Longrightarrow> prefix (sent_bytes stid (t @ [ev])) (outs J)) \<Longrightarrow> sends_ok (t @ [ev])"
  unfolding sends_ok_def by (metis prefix_snoc)

lemma bad_stays: "sends_ok t \<Longrightarrow> \<not> good t \<Longrightarrow> prefix t t' \<Longrightarrow> sends_ok t' \<and> \<not> good t'"
  unfolding sends_ok_def by (metis good_prefix prefix_same_cases)

lemma inv_bind:
  assumes "inv P c" and "prefix (tr c) (tr c')" and "sends_ok (tr c) \<Longrightarrow> good (tr c) \<Longrightarrow> P c \<Longrightarrow> inv Q c'"
  shows "inv Q c'"
  using assms bad_stays unfolding inv_def by blast

lemma inv_mono: "inv P c \<Longrightarrow> (P c \<Longrightarrow> Q c) \<Longrightarrow> inv Q c"
  by (simp add: inv_def)

lemma at_sent: "at j c \<Longrightarrow> prefix (sent_bytes stid (tr c)) (outs J)"
proof -
  assume "at j c"
  then obtain sp where "j < J" and s: "sent_bytes stid (tr c) = outs j @ take sp (out j)" by (auto simp: at_def)
  then obtain rest where "outs J = outs j @ out j @ rest"
    using outs_split [of "Suc j" J] by (auto simp: outs_Suc)
  with s show ?thesis by (simp add: take_is_prefix)
qed

lemma push_send_at:
  assumes "at j c" and "push_send rt (sp_of (tc_task c)) (sb_of (tc_task c)) 0 c = Some c'"
  shows "at j c' \<and> core c' = core c \<and> (c' = c \<or> (\<exists>bs. tr c' = tr c @ [Sent stid bs]))"
proof -
  from assms(1) obtain sp rp where a: "j < J" "st_send_progress (tc_state c) = [sp]" "st_recv_progress (tc_state c) = [rp]"
    "sp \<le> length (out j)" "rp \<le> length (inc j)" "st_send_done (tc_state c) = [sp = length (out j)]"
    "st_recv_done (tc_state c) = [rp = length (inc j)]" "holds j rp (core c)"
    "sent_bytes stid (tr c) = outs j @ take sp (out j)" "rcvd_bytes rtid (tr c) = ins j @ take rp (inc j)"
    by (auto simp: at_def)
  show ?thesis
  proof (cases "sp = length (out j)")
    case True
    then show ?thesis using assms a(6) by (simp add: push_send_def)
  next
    case False
    then have "out j \<noteq> []" using a(4) by auto
    then have load: "mem_load c (sp_of (tc_task c)) (sb_of (tc_task c)) = out j" using holds_load a(1,8) by blast
    have tid: "pt_send_transports (tc_task c) = [stid]" using holds_transports a(8) by blast
    from False assms(2) obtain p' d e' where
      io: "rt_try_send rt stid (out j) sp (tc_net c) = Some (p', d, e')" and
      c': "c' = upd_state (\<lambda>s. s\<lparr>st_send_progress := [p'], st_send_done := [d]\<rparr>) (c\<lparr>tc_net := e'\<rparr>)"
      by (auto simp: push_send_def a load tid upd_state_def split: option.splits)
    from send_law [OF io a(4)] have law: "sp \<le> p'" "p' \<le> length (out j)" "d = (p' = length (out j))"
      "trace e' = tr c @ [Sent stid (take (p' - sp) (drop sp (out j)))]" by auto
    have core: "core c' = core c" by (simp add: c' core_def upd_state_def)
    have "take sp (out j) @ take (p' - sp) (drop sp (out j)) = take p' (out j)"
      using law(1) by (metis le_add_diff_inverse take_add)
    then have "at j c'"
      unfolding at_def using a law core by (simp add: c' upd_state_def)
    then show ?thesis using core law(4) by (simp add: c' upd_state_def)
  qed
qed

lemma next_bytes:
  assumes "j < J" and "rp + length bs \<le> length (inc j)" and "prefix ((ins j @ take rp (inc j)) @ bs) (ins J)"
  shows "bs = take (length bs) (drop rp (inc j))"
proof -
  obtain rest where "ins J = ins j @ inc j @ rest"
    using ins_split [of "Suc j" J] assms(1) by (auto simp: ins_Suc)
  then have "prefix (take rp (inc j) @ bs) (inc j @ rest)" using assms(3) by simp
  then have "take (length (take rp (inc j) @ bs)) (inc j @ rest) = take rp (inc j) @ bs"
    by (metis append_eq_conv_conj prefix_def)
  moreover have "length (take rp (inc j) @ bs) = rp + length bs" using assms(2) by simp
  ultimately have "take (rp + length bs) (inc j) = take rp (inc j) @ bs" using assms(2) by simp
  then show ?thesis by (simp add: take_add)
qed

lemma push_recv_at:
  assumes "at j c" and "push_recv rt (rp_of (tc_task c)) (rb_of (tc_task c)) 0 c = Some c'"
  shows "c' = c \<or> (\<exists>bs. tr c' = tr c @ [Rcvd rtid bs])" and "good (tr c') \<Longrightarrow> at j c'"
proof -
  from assms(1) obtain sp rp where a: "j < J" "st_send_progress (tc_state c) = [sp]" "st_recv_progress (tc_state c) = [rp]"
    "sp \<le> length (out j)" "rp \<le> length (inc j)" "st_send_done (tc_state c) = [sp = length (out j)]"
    "st_recv_done (tc_state c) = [rp = length (inc j)]" "holds j rp (core c)"
    "sent_bytes stid (tr c) = outs j @ take sp (out j)" "rcvd_bytes rtid (tr c) = ins j @ take rp (inc j)"
    by (auto simp: at_def)
  have "(c' = c \<or> (\<exists>bs. tr c' = tr c @ [Rcvd rtid bs])) \<and> (good (tr c') \<longrightarrow> at j c')"
  proof (cases "rp = length (inc j)")
    case True
    then show ?thesis using assms a(7) by (simp add: push_recv_def)
  next
    case False
    then have "inc j \<noteq> []" using a(5) by auto
    then have size: "rb_of (tc_task c) = length (inc j)" using holds_recv a(1,8) by blast
    have tid: "pt_recv_transports (tc_task c) = [rtid]" using holds_transports a(8) by blast
    let ?m = "\<lambda>bs e. mem_store (ptr_plus (rp_of (tc_task c)) rp) bs (c\<lparr>tc_net := e\<rparr>)"
    from False assms(2) obtain bs d e' where
      io: "rt_try_recv rt rtid (length (inc j)) rp (tc_net c) = Some (bs, d, e')" and
      c': "c' = upd_state (\<lambda>s. s\<lparr>st_recv_progress := (st_recv_progress s)[0 := rp + length bs],
                                 st_recv_done := (st_recv_done s)[0 := d]\<rparr>) (?m bs e')"
      by (auto simp: push_recv_def a size tid Let_def split: option.splits)
    from recv_law [OF io a(5)] recv_recorded [OF io] have law: "rp + length bs \<le> length (inc j)"
      "d = (rp + length bs = length (inc j))" "trace e' = tr c @ [Rcvd rtid bs]" by auto
    have trc': "tr c' = tr c @ [Rcvd rtid bs]" by (simp add: c' law(3))
    have "at j c'" if "good (tr c')"
    proof -
      have bs: "bs = take (length bs) (drop rp (inc j))"
        using that law(1) a(1) by (intro next_bytes) (simp_all add: good_def trc' a(10))
      have "core (c\<lparr>tc_net := e'\<rparr>) = core c" by (simp add: core_def)
      then have "holds j (rp + length bs) (core (?m bs e'))"
        using holds_store [of j rp "c\<lparr>tc_net := e'\<rparr>" bs] a(1,8) law(1) bs by simp
      moreover have "core c' = core (?m bs e')" by (simp add: c' core_def upd_state_def)
      moreover have "take rp (inc j) @ bs = take (rp + length bs) (inc j)"
        using bs law(1) by (simp add: take_add)
      ultimately show ?thesis
        unfolding at_def using a law(1,2) trc'
        by (intro conjI exI [of _ sp] exI [of _ "rp + length bs"]) (simp_all add: c' upd_state_def)
    qed
    then show ?thesis using trc' by blast
  qed
  then show "c' = c \<or> (\<exists>bs. tr c' = tr c @ [Rcvd rtid bs])" and "good (tr c') \<Longrightarrow> at j c'" by blast+
qed

lemma at_transports: "at j c \<Longrightarrow> length (pt_send_transports (tc_task c)) = 1 \<and> length (pt_recv_transports (tc_task c)) = 1"
  using holds_transports by (fastforce simp: at_def)

lemma PushBuffer_at:
  assumes "at j c" and "sends_ok (tr c)"
    and "PushBuffer rt ev (sp_of (tc_task c)) (rp_of (tc_task c)) (sb_of (tc_task c)) (rb_of (tc_task c)) c = Some c'"
  shows "inv (at j) c'" and "ev = Writable \<Longrightarrow> core c' = core c"
proof -
  have "inv (at j) c' \<and> (ev = Writable \<longrightarrow> core c' = core c)"
  proof (cases ev)
    case Writable
    then have "push_send rt (sp_of (tc_task c)) (sb_of (tc_task c)) 0 c = Some c'"
      using assms(3) at_transports [OF assms(1)] by (simp add: PushBuffer_def split: option.splits)
    note p = push_send_at [OF assms(1) this]
    then have "sends_ok (tr c')"
      using assms(2) at_sent [of j c'] sends_ok_snoc [OF assms(2)] by (metis (no_types))
    then show ?thesis using p by (simp add: inv_def)
  next
    case Readable
    then have "push_recv rt (rp_of (tc_task c)) (rb_of (tc_task c)) 0 c = Some c'"
      using assms(3) at_transports [OF assms(1)] by (simp add: PushBuffer_def split: option.splits)
    note p = push_recv_at [OF assms(1) this]
    have "sends_ok (tr c')" using p(1)
    proof
      assume "\<exists>bs. tr c' = tr c @ [Rcvd rtid bs]"
      then obtain bs where t: "tr c' = tr c @ [Rcvd rtid bs]" by blast
      show ?thesis unfolding t
        by (rule sends_ok_snoc [OF assms(2)]) (use at_sent [OF assms(1)] in simp)
    qed (use assms(2) in simp)
    then show ?thesis using p(2) Readable by (simp add: inv_def)
  qed
  then show "inv (at j) c'" and "ev = Writable \<Longrightarrow> core c' = core c" by blast+
qed

text \<open>Starting operation \<open>j\<close> with \<open>BeginPhase\<close>.\<close>

lemma BeginPhase_at:
  assumes c1: "c1 = start_phase ph m n c" and "holds j 0 (core c1)" and "j < J"
    and args: "p = sp_of (tc_task c1)" "q = rp_of (tc_task c1)" "m = sb_of (tc_task c1)" "n = rb_of (tc_task c1)"
    and skips: "(ph = kPhaseRecv \<or> ph = kPhaseDone \<or> m = 0) \<longleftrightarrow> out j = []"
      "(ph = kPhaseSend \<or> ph = kPhaseDone \<or> n = 0) \<longleftrightarrow> inc j = []"
    and streams: "sent_bytes stid (tr c) = outs j" "rcvd_bytes rtid (tr c) = ins j" "sends_ok (tr c)"
    and run: "BeginPhase rt ph p q m n c = Some c'"
  shows "inv (at j) c'"
proof -
  have tr1: "tr c1 = tr c" by (simp add: c1)
  have t1: "pt_send_transports (tc_task c) = [stid] \<and> pt_recv_transports (tc_task c) = [rtid]"
    using holds_transports [OF assms(2)] by (simp add: c1 start_phase_def Let_def upd_state_def)
  have "at j c1"
    unfolding at_def using assms(2,3) skips streams t1 tr1
    by (simp add: c1 start_phase_def Let_def upd_state_def)
  from run obtain c2 where w: "PushBuffer rt Writable p q m n c1 = Some c2"
    and r: "PushBuffer rt Readable p q m n c2 = Some c'"
    by (auto simp: BeginPhase_def c1 bind_eq_Some_conv)
  note pw = PushBuffer_at [OF \<open>at j c1\<close> _ w [unfolded args], unfolded tr1, OF streams(3)]
  from pw(1) show ?thesis
  proof (rule inv_bind)
    show "prefix (tr c2) (tr c')" by (rule PushBuffer_mono [OF r])
    assume "at j c2" and "sends_ok (tr c2)"
    then show "inv (at j) c'"
      using PushBuffer_at(1) [of j c2 Readable c'] ptrs_core [OF pw(2) [OF refl]] r args by simp
  qed
qed

lemma at_complete:
  assumes "at j c" and "loop_on c"
  shows "sent_bytes stid (tr c) = outs (Suc j)" and "rcvd_bytes rtid (tr c) = ins (Suc j)"
    and "holds j (length (inc j)) (core c)" and "j < J"
  using assms by (auto simp: at_def loop_on_def SideDone_def outs_Suc ins_Suc)

text \<open>If all bytes of both streams have been moved, an operation cannot be the current one of a finished call.\<close>

lemma at_all_moved:
  assumes "at j c" and "sent_bytes stid (tr c) = outs J" and "rcvd_bytes rtid (tr c) = ins J"
    and "st_phase (tc_state c) \<noteq> kPhaseDone"
  shows "loop_on c"
proof -
  from assms(1) obtain sp rp where a: "j < J" "sp \<le> length (out j)" "rp \<le> length (inc j)"
    "st_send_done (tc_state c) = [sp = length (out j)]" "st_recv_done (tc_state c) = [rp = length (inc j)]"
    "sent_bytes stid (tr c) = outs j @ take sp (out j)" "rcvd_bytes rtid (tr c) = ins j @ take rp (inc j)"
    by (auto simp: at_def)
  obtain x where "outs J = outs j @ out j @ x" using outs_split [of "Suc j" J] a(1) by (auto simp: outs_Suc)
  then have "take sp (out j) = out j @ x" using assms(2) a(6) by simp
  then have "length (take sp (out j)) = length (out j @ x)" by (rule arg_cong)
  then have s: "sp = length (out j)" using a(2) by simp
  obtain y where "ins J = ins j @ inc j @ y" using ins_split [of "Suc j" J] a(1) by (auto simp: ins_Suc)
  then have "take rp (inc j) = inc j @ y" using assms(3) a(7) by simp
  then have "length (take rp (inc j)) = length (inc j @ y)" by (rule arg_cong)
  then have "rp = length (inc j)" using a(3) by simp
  with s a(4,5) assms(4) show ?thesis by (simp add: loop_on_def SideDone_def)
qed

end

subsection \<open>The loop over the operations and the calls of an executor\<close>

locale exchange_loop = exchange rt trace stid rtid J out inc holds sp_of rp_of sb_of rb_of
  for rt :: "'e runtime" and trace and stid rtid and J and out inc and holds and sp_of rp_of and sb_of rb_of +
  fixes body complete :: "'e tcfg \<Rightarrow> 'e tcfg option"
    and final :: "heap \<times> PlanTask \<Rightarrow> bool"
  assumes body_at: "at j c \<Longrightarrow> sends_ok (tr c) \<Longrightarrow> loop_on c \<Longrightarrow> body c = Some c' \<Longrightarrow>
      inv (\<lambda>c. (\<exists>j. at j c) \<or> (final (core c) \<and> st_phase (tc_state c) = kPhaseDone \<and>
        sent_bytes stid (tr c) = outs J \<and> rcvd_bytes rtid (tr c) = ins J)) c'"
    and body_mono: "body c = Some c' \<Longrightarrow> prefix (tr c) (tr c')"
    and holds_phase: "holds j q (core (c :: 'e tcfg)) \<Longrightarrow> st_phase (tc_state c) \<noteq> kPhaseDone"
    and complete_rule: "complete c = Some c' \<Longrightarrow> P c \<Longrightarrow>
      (\<And>x y. P x \<Longrightarrow> loop_on x \<Longrightarrow> body x = Some y \<Longrightarrow> P y) \<Longrightarrow> P c' \<and> \<not> loop_on c'"
begin

definition live :: "'e tcfg \<Rightarrow> bool" where
  "live c \<longleftrightarrow> (\<exists>j. at j c) \<or> (final (core c) \<and> st_phase (tc_state c) = kPhaseDone \<and>
     sent_bytes stid (tr c) = outs J \<and> rcvd_bytes rtid (tr c) = ins J)"

lemma at_phase: "at j c \<Longrightarrow> st_phase (tc_state c) \<noteq> kPhaseDone"
  using holds_phase by (auto simp: at_def)

lemma complete_mono: "complete c = Some c' \<Longrightarrow> prefix (tr c) (tr c')"
  using complete_rule [of c c' "\<lambda>x. prefix (tr c) (tr x)"] body_mono prefix_order.trans by blast

lemma complete_inv:
  assumes "inv live c" and "complete c = Some c'"
  shows "inv live c' \<and> \<not> loop_on c'"
proof (rule complete_rule [where P = "inv live", OF assms(2,1)])
  fix x y assume "inv live x" and "loop_on x" and y: "body x = Some y"
  from \<open>inv live x\<close> show "inv live y"
  proof (rule inv_bind)
    show "prefix (tr x) (tr y)" using y by (rule body_mono)
    assume "sends_ok (tr x)" and "live x"
    with \<open>loop_on x\<close> obtain j where "at j x" by (auto simp: live_def loop_on_def)
    from body_at [OF this \<open>sends_ok (tr x)\<close> \<open>loop_on x\<close> y] show "inv live y"
      by (rule inv_mono) (simp add: live_def)
  qed
qed

text \<open>The common shape of \<open>AllreduceStep\<close> and its siblings after the unstarted case.\<close>

definition step :: "CollEvent \<Rightarrow> 'e tcfg \<Rightarrow> 'e tcfg option" where
  "step ev c = (if st_phase (tc_state c) = kPhaseDone then Some c
     else Option.bind (PushBuffer rt ev (sp_of (tc_task c)) (rp_of (tc_task c)) (sb_of (tc_task c)) (rb_of (tc_task c)) c) complete)"

lemma step_inv:
  assumes "inv live c" and "\<not> loop_on c" and "step ev c = Some c'"
  shows "inv live c' \<and> \<not> loop_on c'"
proof (cases "st_phase (tc_state c) = kPhaseDone")
  case True
  then show ?thesis using assms by (simp add: step_def)
next
  case False
  then obtain c1 where p: "PushBuffer rt ev (sp_of (tc_task c)) (rp_of (tc_task c)) (sb_of (tc_task c)) (rb_of (tc_task c)) c = Some c1"
    and k: "complete c1 = Some c'" using assms(3) by (auto simp: step_def bind_eq_Some_conv)
  have "inv live c1"
  proof (rule inv_bind [OF assms(1) PushBuffer_mono [OF p]])
    assume "sends_ok (tr c)" and "live c"
    then obtain j where "at j c" using False by (auto simp: live_def)
    from PushBuffer_at(1) [OF this \<open>sends_ok (tr c)\<close> p] show "inv live c1"
      by (rule inv_mono) (auto simp: live_def)
  qed
  then show ?thesis using k by (rule complete_inv)
qed

text \<open>A task after its initialisation and any number of steps.\<close>

lemma steps_inv:
  assumes "inv live c" and "\<not> loop_on c" and "for_opt step evs c = Some c'"
  shows "inv live c' \<and> \<not> loop_on c'"
proof (rule for_opt_invariant [where P = "\<lambda>x. inv live x \<and> \<not> loop_on x", OF assms(3)])
  show "inv live y \<and> \<not> loop_on y" if "inv live x \<and> \<not> loop_on x" and "step ev x = Some y" for ev x y
    using that step_inv by blast
qed (use assms(1,2) in simp)

text \<open>A rank that has sent all it can is finished, or waits in some operation for input.\<close>

lemma waiting:
  assumes "inv live c" and "\<not> loop_on c" and "good (tr c)" and "SideDone (st_send_done (tc_state c))"
  shows "(st_phase (tc_state c) = kPhaseDone \<and> sent_bytes stid (tr c) = outs J) \<or>
    (\<exists>j < J. sent_bytes stid (tr c) = outs (Suc j) \<and>
       length (ins j) \<le> length (rcvd_bytes rtid (tr c)) \<and> length (rcvd_bytes rtid (tr c)) < length (ins (Suc j)))"
proof -
  have "live c" using assms(1,3) by (simp add: inv_def)
  then show ?thesis unfolding live_def
  proof
    assume "\<exists>j. at j c"
    then obtain j where at: "at j c" by blast
    then obtain sp rp where a: "j < J" "sp \<le> length (out j)" "rp \<le> length (inc j)"
      "st_send_done (tc_state c) = [sp = length (out j)]" "st_recv_done (tc_state c) = [rp = length (inc j)]"
      "sent_bytes stid (tr c) = outs j @ take sp (out j)" "rcvd_bytes rtid (tr c) = ins j @ take rp (inc j)"
      by (auto simp: at_def)
    have "sp = length (out j)" using assms(4) a(4) by (simp add: SideDone_def)
    moreover have "rp < length (inc j)"
      using a(3,5) assms(2,4) at_phase [OF at] by (simp add: loop_on_def SideDone_def)
    ultimately show ?thesis using a by (intro disjI2 exI [of _ j]) (simp add: outs_Suc ins_Suc)
  qed simp
qed

lemma finished:
  assumes "inv live c" and "\<not> loop_on c" and "good (tr c)"
  shows "st_phase (tc_state c) = kPhaseDone \<Longrightarrow> final (core c)"
    and "sent_bytes stid (tr c) = outs J \<Longrightarrow> rcvd_bytes rtid (tr c) = ins J \<Longrightarrow> st_phase (tc_state c) = kPhaseDone"
proof -
  have "live c" using assms(1,3) by (simp add: inv_def)
  then show "st_phase (tc_state c) = kPhaseDone \<Longrightarrow> final (core c)"
    using at_phase by (auto simp: live_def)
  show "sent_bytes stid (tr c) = outs J \<Longrightarrow> rcvd_bytes rtid (tr c) = ins J \<Longrightarrow> st_phase (tc_state c) = kPhaseDone"
    using \<open>live c\<close> at_all_moved assms(2) by (auto simp: live_def)
qed

end

subsection \<open>A ring of streams\<close>

text \<open>
  Ranks \<open>0..N-1\<close> exchange bytes over reliable FIFO links from each rank to the next. \<open>glob\<close> is one
  linearisation of all their transport calls: at every moment what a rank has received is a
  prefix of what its predecessor has sent. If every rank sends what it should as long as it has
  received what it should, and the streams match along the links, then every rank receives what
  it should.
\<close>

definition events_of :: "nat \<Rightarrow> (nat \<times> io) list \<Rightarrow> io list" where
  "events_of r glob = map snd (filter (\<lambda>x. fst x = r) glob)"

definition fifo_ring :: "nat \<Rightarrow> (nat \<Rightarrow> transport_ref) \<Rightarrow> (nat \<Rightarrow> transport_ref) \<Rightarrow> (nat \<times> io) list \<Rightarrow> bool" where
  "fifo_ring N stid rtid glob \<longleftrightarrow> (\<forall>g' r. prefix g' glob \<longrightarrow> r < N \<longrightarrow>
     prefix (rcvd_bytes (rtid r) (events_of r g'))
            (sent_bytes (stid ((r + N - 1) mod N)) (events_of ((r + N - 1) mod N) g')))"

lemma events_of_snoc: "events_of r (g @ [x]) = events_of r g @ (if fst x = r then [snd x] else [])"
  by (simp add: events_of_def)

lemma ring_all_good:
  assumes "0 < N" and "fifo_ring N stid rtid glob"
    and ok: "\<And>r t. r < N \<Longrightarrow> prefix t (events_of r glob) \<Longrightarrow> prefix (rcvd_bytes (rtid r) t) (IN r) \<Longrightarrow>
             prefix (sent_bytes (stid r) t) (OUT r)"
    and link: "\<And>r. r < N \<Longrightarrow> IN r = OUT ((r + N - 1) mod N)"
    and "prefix g glob" and "r < N"
  shows "prefix (rcvd_bytes (rtid r) (events_of r g)) (IN r)"
  using assms(5,6)
proof (induction g arbitrary: r rule: rev_induct)
  case Nil
  then show ?case by (simp add: events_of_def)
next
  case (snoc x g)
  let ?p = "(r + N - 1) mod N"
  have p: "?p < N" using assms(1) by simp
  have pre: "prefix g glob" using snoc.prems(1) by (meson append_prefixD)
  have ev: "prefix (events_of ?p g) (events_of ?p glob)"
    using pre by (auto simp: prefix_def events_of_def)
  have before: "prefix (sent_bytes (stid ?p) (events_of ?p g)) (OUT ?p)"
    using ok [OF p ev snoc.IH [OF pre p]] .
  show ?case
  proof (cases x)
    case (Pair k io)
    show ?thesis
    proof (cases "k = r")
      case False
      then show ?thesis using snoc.IH [OF pre snoc.prems(2)] Pair by (simp add: events_of_snoc)
    next
      case True
      have fifo: "prefix (rcvd_bytes (rtid r) (events_of r (g @ [x]))) (sent_bytes (stid ?p) (events_of ?p (g @ [x])))"
        using assms(2) snoc.prems unfolding fifo_ring_def by blast
      have "sent_bytes (stid ?p) (events_of ?p (g @ [x])) = sent_bytes (stid ?p) (events_of ?p g) \<or>
            rcvd_bytes (rtid r) (events_of r (g @ [x])) = rcvd_bytes (rtid r) (events_of r g)"
        using True Pair by (cases io) (auto simp: events_of_snoc)
      then show ?thesis
      proof
        assume "sent_bytes (stid ?p) (events_of ?p (g @ [x])) = sent_bytes (stid ?p) (events_of ?p g)"
        then show ?thesis using fifo before link [OF snoc.prems(2)] prefix_order.trans by metis
      next
        assume "rcvd_bytes (rtid r) (events_of r (g @ [x])) = rcvd_bytes (rtid r) (events_of r g)"
        then show ?thesis using snoc.IH [OF pre snoc.prems(2)] by simp
      qed
    qed
  qed
qed

end
