(* ===== verification/Occl_Allreduce.thy ===== *)
theory Occl_Allreduce
  imports Occl_Exchange
begin

section \<open>Ring AllReduce computes the reduction\<close>

text \<open>
  The specification of one AllReduce task on a ring of \<open>N\<close> ranks and the proof that the state machine
  of \<open>Occl_Ring\<close> implements it. The vector of \<open>E\<close> elements is cut into chunks of \<open>K\<close> elements;
  chunk \<open>g\<close> travels around the ring starting at rank \<open>g mod N\<close>, and \<open>part P g d\<close> is its partial
  reduction after \<open>d\<close> hops, computed by the program's own kernels in the order in which the ring
  visits the ranks. \<open>part P g (N - 1)\<close> is the result. As no algebraic law of the element operations is
  used, the statement holds for floating point data bit by bit.
\<close>

record ar_params =
  ap_fp :: float_unit
  ap_N :: nat
  ap_K :: nat
  ap_E :: nat
  ap_dtype :: DataType
  ap_op :: ReduceOp
  ap_X :: "nat \<Rightarrow> byte list"

subsection \<open>Geometry\<close>

abbreviation ts :: "ar_params \<Rightarrow> nat" where "ts P \<equiv> GetDataTypeSize (ap_dtype P)"

text \<open>Width of a full chunk in bytes.\<close>

definition cw :: "ar_params \<Rightarrow> nat" where "cw P = ap_K P * ts P"

definition ar_units :: "ar_params \<Rightarrow> nat" where
  "ar_units P = (ap_E P + ap_K P * ap_N P - 1) div (ap_K P * ap_N P)"

definition ar_ops :: "ar_params \<Rightarrow> nat" where
  "ar_ops P = ar_units P * (ap_N P - 1)"

definition ar_ok :: "ar_params \<Rightarrow> bool" where
  "ar_ok P \<longleftrightarrow> 2 \<le> ap_N P \<and> 0 < ap_K P \<and> 0 < ap_E P \<and> 0 < ts P \<and>
     int (ar_units P * ap_N P) \<le> INT_MAX \<and> (\<forall>r < ap_N P. length (ap_X P r) = ap_E P * ts P)"

definition csize :: "ar_params \<Rightarrow> nat \<Rightarrow> nat" where
  "csize P g = (if g * ap_K P \<ge> ap_E P then 0 else min (ap_K P) (ap_E P - g * ap_K P))"

definition chunk_of :: "ar_params \<Rightarrow> nat \<Rightarrow> nat \<Rightarrow> byte list" where
  "chunk_of P r g = take (csize P g * ts P) (drop (g * cw P) (ap_X P r))"

fun part :: "ar_params \<Rightarrow> nat \<Rightarrow> nat \<Rightarrow> byte list" where
  "part P g 0 = chunk_of P (g mod ap_N P) g"
| "part P g (Suc d) =
     (let y = PerformReduce (ap_fp P) (part P g d) (chunk_of P ((g + Suc d) mod ap_N P) g) (csize P g)
                (ap_dtype P) (sum_for_avg (ap_op P))
      in if ap_op P = OpAvg \<and> Suc d = ap_N P - 1
         then ApplyAverage (ap_fp P) y (csize P g) (ap_dtype P) (int (ap_N P)) else y)"

text \<open>Hops from chunk \<open>g\<close>'s first rank to rank \<open>r\<close>.\<close>

definition hops :: "ar_params \<Rightarrow> nat \<Rightarrow> nat \<Rightarrow> nat" where
  "hops P r g = (r + ap_N P - g mod ap_N P) mod ap_N P"

definition op_unit :: "ar_params \<Rightarrow> nat \<Rightarrow> nat" where "op_unit P i = i div (ap_N P - 1)"
definition op_step :: "ar_params \<Rightarrow> nat \<Rightarrow> nat" where "op_step P i = i mod (ap_N P - 1)"

definition rs_send :: "ar_params \<Rightarrow> nat \<Rightarrow> nat \<Rightarrow> nat" where
  "rs_send P r i = op_unit P i * ap_N P + (r + ap_N P - op_step P i) mod ap_N P"
definition rs_recv :: "ar_params \<Rightarrow> nat \<Rightarrow> nat \<Rightarrow> nat" where
  "rs_recv P r i = op_unit P i * ap_N P + (r + ap_N P - op_step P i - 1) mod ap_N P"
definition ag_send :: "ar_params \<Rightarrow> nat \<Rightarrow> nat \<Rightarrow> nat" where
  "ag_send P r i = op_unit P i * ap_N P + (r + ap_N P + 1 - op_step P i) mod ap_N P"
definition ag_recv :: "ar_params \<Rightarrow> nat \<Rightarrow> nat \<Rightarrow> nat" where
  "ag_recv P r i = op_unit P i * ap_N P + (r + ap_N P - op_step P i) mod ap_N P"

text \<open>Contents of chunk \<open>g\<close> of rank \<open>r\<close> when \<open>i\<close> operations of the phase are complete.\<close>

definition val_rs :: "ar_params \<Rightarrow> nat \<Rightarrow> nat \<Rightarrow> nat \<Rightarrow> byte list" where
  "val_rs P r i g =
     (if hops P r g \<noteq> 0 \<and> g div ap_N P * (ap_N P - 1) + hops P r g - 1 < i then part P g (hops P r g)
      else chunk_of P r g)"

definition val_ag :: "ar_params \<Rightarrow> nat \<Rightarrow> nat \<Rightarrow> nat \<Rightarrow> byte list" where
  "val_ag P r i g =
     (if hops P r g = ap_N P - 1 \<or> g div ap_N P * (ap_N P - 1) + hops P r g < i then part P g (ap_N P - 1)
      else part P g (hops P r g))"

definition ar_out :: "ar_params \<Rightarrow> nat \<Rightarrow> nat \<Rightarrow> byte list" where
  "ar_out P r j = (if j < ar_ops P then part P (rs_send P r j) (op_step P j)
                   else part P (ag_send P r (j - ar_ops P)) (ap_N P - 1))"

definition ar_inc :: "ar_params \<Rightarrow> nat \<Rightarrow> nat \<Rightarrow> byte list" where
  "ar_inc P r j = (if j < ar_ops P then part P (rs_recv P r j) (op_step P j)
                   else part P (ag_recv P r (j - ar_ops P)) (ap_N P - 1))"

subsection \<open>Memory as a sequence of chunks\<close>

text \<open>User memory \<open>h0\<close> with the vector at address \<open>b\<close> holding the chunks \<open>val 0, val 1, ...\<close>\<close>

definition image_of :: "ar_params \<Rightarrow> nat \<Rightarrow> (nat \<Rightarrow> byte list) \<Rightarrow> heap \<Rightarrow> heap" where
  "image_of P b val h0 = (\<lambda>a. if b \<le> a \<and> a < b + ap_E P * ts P
     then val ((a - b) div cw P) ! ((a - b) mod cw P) else h0 a)"

lemma csize_le: "csize P g \<le> ap_K P"
  by (simp add: csize_def)

lemma csize_end: "0 < csize P g \<Longrightarrow> g * ap_K P + csize P g \<le> ap_E P"
  by (auto simp: csize_def split: if_splits)

lemma chunk_pos:
  assumes "i < csize P g * ts P"
  shows "(g * cw P + i) div cw P = g" and "(g * cw P + i) mod cw P = i" and "g * cw P + i < ap_E P * ts P"
proof -
  have i: "i < cw P" unfolding cw_def using assms mult_le_mono1 [OF csize_le] by (rule order.strict_trans2)
  then show "(g * cw P + i) div cw P = g" "(g * cw P + i) mod cw P = i" by simp_all
  have "0 < csize P g" using assms by (cases "csize P g") simp_all
  then have "(g * ap_K P + csize P g) * ts P \<le> ap_E P * ts P" using csize_end by (intro mult_le_mono1)
  then show "g * cw P + i < ap_E P * ts P" using assms by (simp add: cw_def algebra_simps)
qed

lemma load_image:
  assumes "length (val g) = csize P g * ts P"
  shows "heap_load (image_of P b val h0) (b + g * cw P) (csize P g * ts P) = val g"
proof (rule nth_equalityI)
  fix i assume "i < length (heap_load (image_of P b val h0) (b + g * cw P) (csize P g * ts P))"
  then have "i < csize P g * ts P" by simp
  from chunk_pos [OF this] this show "heap_load (image_of P b val h0) (b + g * cw P) (csize P g * ts P) ! i = val g ! i"
    by (simp add: image_of_def add.assoc)
qed (simp add: assms)

lemma chunk_end:
  assumes "0 < cw P" and "k < ap_E P * ts P"
  shows "k mod cw P < csize P (k div cw P) * ts P"
proof -
  let ?g = "k div cw P"
  have "?g * cw P \<le> k" by simp
  then have "?g * cw P < ap_E P * ts P" using assms(2) by (rule order.strict_trans1)
  then have "(?g * ap_K P) * ts P < ap_E P * ts P" by (simp only: mult.assoc cw_def)
  then have lt: "?g * ap_K P < ap_E P" by (rule mult_less_cancel2 [THEN iffD1, THEN conjunct2])
  have "k mod cw P < cw P" using assms(1) by simp
  moreover have "k mod cw P < (ap_E P - ?g * ap_K P) * ts P"
  proof -
    have "k mod cw P = k - ?g * cw P" by (simp add: minus_div_mult_eq_mod)
    also have "\<dots> < ap_E P * ts P - ?g * cw P" using assms(2) \<open>?g * cw P \<le> k\<close> by linarith
    finally show ?thesis by (simp add: diff_mult_distrib mult.assoc cw_def)
  qed
  ultimately show ?thesis using lt by (simp add: csize_def min_def cw_def)
qed

lemma store_image:
  assumes "0 < cw P" and "length (val g) = csize P g * ts P" and "q + length bs \<le> csize P g * ts P"
  shows "heap_store (b + g * cw P + q) bs (image_of P b val h0) =
         image_of P b (val(g := list_store q bs (val g))) h0"
proof
  fix a
  show "heap_store (b + g * cw P + q) bs (image_of P b val h0) a = image_of P b (val(g := list_store q bs (val g))) h0 a"
  proof (cases "b \<le> a \<and> a < b + ap_E P * ts P")
    case out: False
    have "\<not> (b + g * cw P + q \<le> a \<and> a < b + g * cw P + q + length bs)"
    proof
      assume in_store: "b + g * cw P + q \<le> a \<and> a < b + g * cw P + q + length bs"
      then have "a - b - g * cw P < csize P g * ts P" using assms(3) by linarith
      from chunk_pos(3) [OF this] in_store out show False by linarith
    qed
    then show ?thesis using out unfolding heap_store_def image_of_def by (simp only: if_False simp_thms)
  next
    case True
    define k where "k = a - b"
    have a: "a = b + k" using True by (simp add: k_def)
    have kE: "k < ap_E P * ts P" using True a by simp
    have pos: "k = (k div cw P) * cw P + k mod cw P" by simp
    show ?thesis
    proof (cases "k div cw P = g")
      case same: True
      have "k mod cw P < csize P g * ts P" using chunk_end [OF assms(1) kE] same by simp
      moreover have "k = g * cw P + k mod cw P" using pos by (simp only: same)
      moreover have "b + g * cw P + q \<le> a \<and> a < b + g * cw P + q + length bs \<longleftrightarrow>
          q \<le> k mod cw P \<and> k mod cw P < q + length bs"
        unfolding a using calculation(2) by linarith
      moreover have "a - (b + g * cw P + q) = k mod cw P - q"
        unfolding a using calculation(2) by linarith
      ultimately show ?thesis
        using True assms(2,3) unfolding heap_store_def image_of_def k_def [symmetric]
        by (auto simp: same list_store_def nth_append)
    next
      case False
      have "\<not> (g * cw P + q \<le> k \<and> k < g * cw P + q + length bs)"
      proof
        assume "g * cw P + q \<le> k \<and> k < g * cw P + q + length bs"
        then have "k - g * cw P < csize P g * ts P" "k = g * cw P + (k - g * cw P)" using assms(3) by linarith+
        then show False using chunk_pos(1) [of "k - g * cw P" P g] False by simp
      qed
      then show ?thesis using True False by (auto simp: heap_store_def image_of_def a add.assoc)
    qed
  qed
qed

lemma image_of_cong:
  assumes "0 < cw P" and "\<And>g. 0 < csize P g \<Longrightarrow> val g = val' g"
  shows "image_of P b val h0 = image_of P b val' h0"
proof
  fix a
  show "image_of P b val h0 a = image_of P b val' h0 a"
  proof (cases "b \<le> a \<and> a < b + ap_E P * ts P")
    case True
    then have "a - b < ap_E P * ts P" by linarith
    from chunk_end [OF assms(1) this] have "0 < csize P ((a - b) div cw P)"
      by (cases "csize P ((a - b) div cw P)") simp_all
    then show ?thesis using assms(2) by (simp add: image_of_def)
  next
    case False
    then show ?thesis by (simp only: image_of_def if_False)
  qed
qed

lemma image_vector:
  assumes "0 < cw P" and "length (ap_X P r) = ap_E P * ts P"
  shows "heap_store b (ap_X P r) h0 = image_of P b (chunk_of P r) h0"
proof
  fix a
  show "heap_store b (ap_X P r) h0 a = image_of P b (chunk_of P r) h0 a"
  proof (cases "b \<le> a \<and> a < b + ap_E P * ts P")
    case True
    define k where "k = a - b"
    have k: "k < ap_E P * ts P" using True by (simp add: k_def) linarith
    have "k div cw P * cw P \<le> length (ap_X P r)" using k assms(2) div_times_less_eq_dividend [of k "cw P"] by linarith
    then have "chunk_of P r (k div cw P) ! (k mod cw P) = ap_X P r ! k"
      using chunk_end [OF assms(1) k] by (simp add: chunk_of_def)
    then show ?thesis using True assms(2) by (simp add: heap_store_def image_of_def k_def)
  next
    case False
    then show ?thesis using assms(2) by (simp only: image_of_def heap_store_def if_False)
  qed
qed

subsection \<open>Arithmetic\<close>

lemma mod_sub_sub:
  assumes "r < N" and "s < N"
  shows "(r + N - (r + N - s) mod N) mod N = (s::nat)"
proof (cases "s \<le> r")
  case True
  then have "(r + N - s) mod N = r - s" using assms by (metis Nat.add_diff_assoc2 less_imp_diff_less mod_add_self2 mod_less)
  then show ?thesis using assms True by simp
next
  case False
  then have "(r + N - s) mod N = r + N - s" using assms by simp
  then show ?thesis using assms False by simp
qed

locale ar_rank =
  fixes P :: ar_params and r :: nat
  assumes ok: "ar_ok P" and r: "r < ap_N P"
begin

lemma N_pos: "0 < ap_N P" "0 < ap_N P - 1" "2 \<le> ap_N P"
  using ok by (auto simp: ar_ok_def)

lemma op_step_less: "op_step P i < ap_N P - 1"
  using N_pos by (simp add: op_step_def)

lemma op_decomp: "op_unit P i * (ap_N P - 1) + op_step P i = i"
  unfolding op_unit_def op_step_def by (rule div_mult_mod_eq)

lemma chunk_mod:
  "rs_send P r i mod ap_N P = (r + ap_N P - op_step P i) mod ap_N P"
  "rs_recv P r i mod ap_N P = (r + ap_N P - (op_step P i + 1)) mod ap_N P"
  "ag_send P r i mod ap_N P = (r + ap_N P + 1 - op_step P i) mod ap_N P"
  "ag_recv P r i mod ap_N P = (r + ap_N P - op_step P i) mod ap_N P"
  by (simp_all add: rs_send_def rs_recv_def ag_send_def ag_recv_def)

lemma chunk_div:
  "rs_send P r i div ap_N P = op_unit P i" "rs_recv P r i div ap_N P = op_unit P i"
  "ag_send P r i div ap_N P = op_unit P i" "ag_recv P r i div ap_N P = op_unit P i"
  using N_pos by (simp_all add: rs_send_def rs_recv_def ag_send_def ag_recv_def)

lemma hops_rs_send: "hops P r (rs_send P r i) = op_step P i"
  unfolding hops_def chunk_mod by (rule mod_sub_sub) (use r op_step_less [of i] in simp_all)

lemma hops_rs_recv: "hops P r (rs_recv P r i) = op_step P i + 1"
  unfolding hops_def chunk_mod by (rule mod_sub_sub) (use r op_step_less [of i] in simp_all)

lemma hops_ag_recv: "hops P r (ag_recv P r i) = op_step P i"
  unfolding hops_def chunk_mod by (rule mod_sub_sub) (use r op_step_less [of i] in simp_all)

lemma hops_ag_send: "hops P r (ag_send P r i) = (if op_step P i = 0 then ap_N P - 1 else op_step P i - 1)"
proof (cases "op_step P i = 0")
  case True
  have "(r + ap_N P + 1) mod ap_N P = (r + ap_N P - (ap_N P - 1)) mod ap_N P"
    using r N_pos by (simp add: mod_add_self2 [of "Suc r", symmetric])
  then show ?thesis
    using True r N_pos mod_sub_sub [of r "ap_N P" "ap_N P - 1"] by (simp add: hops_def chunk_mod)
next
  case False
  then have "r + ap_N P + 1 - op_step P i = r + ap_N P - (op_step P i - 1)" by simp
  then show ?thesis
    unfolding hops_def chunk_mod using False r op_step_less [of i] mod_sub_sub [of r "ap_N P" "op_step P i - 1"] by simp
qed

lemma unit_index_inj:
  assumes "u * (ap_N P - 1) + d = u' * (ap_N P - 1) + d'" and "d < ap_N P - 1" and "d' < ap_N P - 1"
  shows "u = u' \<and> d = d'"
proof -
  have "(u * (ap_N P - 1) + d) div (ap_N P - 1) = u" "(u' * (ap_N P - 1) + d') div (ap_N P - 1) = u'"
    using assms(2,3) by simp_all
  with assms(1) show ?thesis by simp
qed

lemma hops_less: "hops P r g < ap_N P"
  using N_pos by (simp add: hops_def)

text \<open>A chunk is determined by its unit and its distance from this rank.\<close>

lemma chunk_eqI:
  assumes "g div ap_N P = g' div ap_N P" and "hops P r g = hops P r g'"
  shows "g = g'"
proof -
  have inv: "(r + ap_N P - hops P r x) mod ap_N P = x mod ap_N P" for x
    unfolding hops_def using r N_pos by (intro mod_sub_sub) simp_all
  have "g mod ap_N P = g' mod ap_N P" using inv [of g] inv [of g'] assms(2) by simp
  with assms(1) show ?thesis by (metis div_mult_mod_eq)
qed

lemma start_rank: "hops P r g = 0 \<Longrightarrow> g mod ap_N P = r"
proof -
  assume "hops P r g = 0"
  moreover have "(r + ap_N P - hops P r g) mod ap_N P = g mod ap_N P"
    unfolding hops_def using r N_pos by (intro mod_sub_sub) simp_all
  ultimately show ?thesis using r by simp
qed

lemma hops_rank: "(g + hops P r g) mod ap_N P = r"
proof -
  have "g mod ap_N P \<le> r + ap_N P"
    using order.strict_implies_order [OF mod_less_divisor [OF N_pos(1), of g]] by (rule trans_le_add2)
  have "(g + hops P r g) mod ap_N P = (g mod ap_N P + (r + ap_N P - g mod ap_N P)) mod ap_N P"
    unfolding hops_def by (simp add: mod_add_left_eq mod_add_right_eq)
  also have "g mod ap_N P + (r + ap_N P - g mod ap_N P) = r + ap_N P"
    using \<open>g mod ap_N P \<le> r + ap_N P\<close> by simp
  finally show ?thesis using r by simp
qed

subsection \<open>What an operation sends and what it changes\<close>

lemma val_rs_0: "val_rs P r 0 = chunk_of P r"
  by (simp add: val_rs_def fun_eq_iff)

lemma val_rs_send: "val_rs P r i (rs_send P r i) = part P (rs_send P r i) (op_step P i)"
proof (cases "op_step P i = 0")
  case True
  then have "rs_send P r i mod ap_N P = r" using start_rank hops_rs_send by metis
  then show ?thesis using True by (simp add: val_rs_def hops_rs_send)
next
  case False
  then show ?thesis using op_decomp [of i] by (simp add: val_rs_def hops_rs_send chunk_div)
qed

lemma val_rs_recv: "val_rs P r i (rs_recv P r i) = chunk_of P r (rs_recv P r i)"
  using op_decomp [of i] by (simp add: val_rs_def hops_rs_recv chunk_div)

lemma val_rs_Suc:
  "val_rs P r (Suc i) = (val_rs P r i)(rs_recv P r i := part P (rs_recv P r i) (op_step P i + 1))"
proof
  fix g
  show "val_rs P r (Suc i) g = ((val_rs P r i)(rs_recv P r i := part P (rs_recv P r i) (op_step P i + 1))) g"
  proof (cases "g = rs_recv P r i")
    case True
    then show ?thesis using op_decomp [of i] by (simp add: val_rs_def hops_rs_recv chunk_div)
  next
    case False
    have "g div ap_N P * (ap_N P - 1) + hops P r g - 1 \<noteq> i" if "hops P r g \<noteq> 0"
    proof
      assume "g div ap_N P * (ap_N P - 1) + hops P r g - 1 = i"
      then have "g div ap_N P * (ap_N P - 1) + (hops P r g - 1) = op_unit P i * (ap_N P - 1) + op_step P i"
        using that op_decomp [of i] by simp
      then have "g div ap_N P = op_unit P i \<and> hops P r g - 1 = op_step P i"
        using hops_less [of g] that op_step_less [of i] by (intro unit_index_inj) simp_all
      then have "g div ap_N P = op_unit P i" "hops P r g = op_step P i + 1" using that by linarith+
      then show False using False chunk_eqI [of g "rs_recv P r i"] by (simp add: chunk_div hops_rs_recv)
    qed
    then show ?thesis using False by (auto simp: val_rs_def less_Suc_eq)
  qed
qed

lemma val_ag_send: "val_ag P r i (ag_send P r i) = part P (ag_send P r i) (ap_N P - 1)"
  using op_decomp [of i] by (auto simp: val_ag_def hops_ag_send chunk_div)

lemma ag_send_neq_recv: "ag_send P r i \<noteq> ag_recv P r i"
proof
  assume "ag_send P r i = ag_recv P r i"
  then have "hops P r (ag_send P r i) = hops P r (ag_recv P r i)" by simp
  then show False using op_step_less [of i] N_pos by (auto simp: hops_ag_send hops_ag_recv split: if_splits)
qed

lemma val_ag_Suc:
  "val_ag P r (Suc i) = (val_ag P r i)(ag_recv P r i := part P (ag_recv P r i) (ap_N P - 1))"
proof
  fix g
  show "val_ag P r (Suc i) g = ((val_ag P r i)(ag_recv P r i := part P (ag_recv P r i) (ap_N P - 1))) g"
  proof (cases "g = ag_recv P r i")
    case True
    then show ?thesis using op_decomp [of i] by (simp add: val_ag_def hops_ag_recv chunk_div)
  next
    case False
    have "g div ap_N P * (ap_N P - 1) + hops P r g \<noteq> i" if "hops P r g \<noteq> ap_N P - 1"
    proof
      assume "g div ap_N P * (ap_N P - 1) + hops P r g = i"
      then have "g div ap_N P = op_unit P i \<and> hops P r g = op_step P i"
        using hops_less [of g] that op_step_less [of i] op_decomp [of i] by (intro unit_index_inj) simp_all
      then show False using False chunk_eqI [of g "ag_recv P r i"] by (simp add: chunk_div hops_ag_recv)
    qed
    then show ?thesis using False by (auto simp: val_ag_def less_Suc_eq)
  qed
qed

text \<open>After all reduce-scatter operations the values are those the all-gather starts from.\<close>

lemma unit_bound: "g < ar_units P * ap_N P \<Longrightarrow> d < ap_N P - 1 \<Longrightarrow> g div ap_N P * (ap_N P - 1) + d < ar_ops P"
proof -
  assume "g < ar_units P * ap_N P" and d: "d < ap_N P - 1"
  then have "g div ap_N P < ar_units P" using N_pos by (simp add: less_mult_imp_div_less)
  then have "Suc (g div ap_N P) * (ap_N P - 1) \<le> ar_units P * (ap_N P - 1)" by (intro mult_le_mono1) simp
  then show ?thesis using d by (simp add: ar_ops_def)
qed

lemma val_rs_all: "g < ar_units P * ap_N P \<Longrightarrow> val_rs P r (ar_ops P) g = val_ag P r 0 g"
proof (cases "hops P r g = 0")
  case True
  then show ?thesis using start_rank [OF True] N_pos by (simp add: val_rs_def val_ag_def)
next
  case False
  assume "g < ar_units P * ap_N P"
  from unit_bound [OF this, of "hops P r g - 1"] False hops_less [of g] show ?thesis
    by (auto simp: val_rs_def val_ag_def)
qed

lemma val_ag_all: "g < ar_units P * ap_N P \<Longrightarrow> val_ag P r (ar_ops P) g = part P g (ap_N P - 1)"
proof (cases "hops P r g = ap_N P - 1")
  case False
  assume "g < ar_units P * ap_N P"
  from unit_bound [OF this, of "hops P r g"] False hops_less [of g] show ?thesis by (simp add: val_ag_def)
qed (simp add: val_ag_def)

subsection \<open>Sizes\<close>

lemma ts_pos: "0 < ts P" "0 < ap_K P" "0 < cw P" "0 < ap_E P"
  using ok by (auto simp: ar_ok_def cw_def)

lemma length_chunk_of: "k < ap_N P \<Longrightarrow> length (chunk_of P k g) = csize P g * ts P"
proof (cases "csize P g = 0")
  case False
  assume "k < ap_N P"
  then have "length (ap_X P k) = ap_E P * ts P" using ok by (simp add: ar_ok_def)
  moreover have "(g * ap_K P + csize P g) * ts P \<le> ap_E P * ts P"
    using False csize_end by (intro mult_le_mono1) simp
  ultimately show ?thesis by (simp add: chunk_of_def cw_def algebra_simps)
qed (simp add: chunk_of_def)

lemma length_part [simp]: "length (part P g d) = csize P g * ts P"
proof (induction d)
  case 0
  then show ?case using N_pos by (simp add: length_chunk_of)
next
  case (Suc d)
  then show ?case using N_pos by (simp add: Let_def length_chunk_of)
qed

lemma length_val [simp]:
  "length (val_rs P r i g) = csize P g * ts P" "length (val_ag P r i g) = csize P g * ts P"
  using r by (simp_all add: val_rs_def val_ag_def length_chunk_of)

lemma csize_units: "0 < csize P g \<Longrightarrow> g < ar_units P * ap_N P"
proof -
  assume "0 < csize P g"
  then have g: "g * ap_K P < ap_E P" by (auto simp: csize_def split: if_splits)
  have m: "0 < ap_K P * ap_N P" using ts_pos N_pos by simp
  have "ap_E P \<le> ar_units P * (ap_K P * ap_N P)"
  proof -
    have "ap_E P + ap_K P * ap_N P - 1 < (ar_units P + 1) * (ap_K P * ap_N P)"
      unfolding ar_units_def using dividend_less_div_times [OF m] by simp
    then show ?thesis using m by simp
  qed
  moreover have "ar_units P * (ap_K P * ap_N P) = (ar_units P * ap_N P) * ap_K P" by (simp add: ac_simps)
  ultimately have "g * ap_K P < (ar_units P * ap_N P) * ap_K P" using g by linarith
  then show ?thesis by simp
qed

end

subsection \<open>The task and the state of an operation\<close>

definition ar_static :: "ar_params \<Rightarrow> nat \<Rightarrow> nat \<Rightarrow> transport_ref \<Rightarrow> transport_ref \<Rightarrow> PlanTask \<Rightarrow> bool" where
  "ar_static P r b stid rtid t \<longleftrightarrow> pt_rank t = int r \<and> pt_world_size t = int (ap_N P) \<and>
     pt_chunk_size t = ap_K P \<and> pt_elem_count t = ap_E P \<and> pt_dtype t = ap_dtype P \<and> pt_reduce_op t = ap_op P \<and>
     pt_recv_buf t = Mem b \<and> pt_send_transports t = [stid] \<and> pt_recv_transports t = [rtid]"

definition ar_state :: "ar_params \<Rightarrow> nat \<Rightarrow> nat \<Rightarrow> heap \<Rightarrow> nat \<Rightarrow> nat \<Rightarrow> heap \<Rightarrow> CollOpState \<Rightarrow> bool" where
  "ar_state P r b h0 j q h s \<longleftrightarrow>
     (if j < ar_ops P
      then st_phase s = kPhaseReduceScatter \<and> st_ring_step s = int j \<and> length (st_temp_buffer s) = cw P \<and>
           take q (st_temp_buffer s) = take q (ar_inc P r j) \<and> h = image_of P b (val_rs P r j) h0
      else let i = j - ar_ops P; g = ag_recv P r i in
           st_phase s = kPhaseAllGather \<and> st_ring_step s = int i \<and>
           h = image_of P b ((val_ag P r i)(g := take q (ar_inc P r j) @ drop q (val_ag P r i g))) h0)"

definition ar_holds ::
  "ar_params \<Rightarrow> nat \<Rightarrow> nat \<Rightarrow> heap \<Rightarrow> transport_ref \<Rightarrow> transport_ref \<Rightarrow> nat \<Rightarrow> nat \<Rightarrow> heap \<times> PlanTask \<Rightarrow> bool" where
  "ar_holds P r b h0 stid rtid j q ht \<longleftrightarrow>
     ar_static P r b stid rtid (snd ht) \<and> ar_state P r b h0 j q (fst ht) (pt_state (snd ht))"

definition ar_final :: "ar_params \<Rightarrow> nat \<Rightarrow> heap \<Rightarrow> heap \<times> PlanTask \<Rightarrow> bool" where
  "ar_final P b h0 ht \<longleftrightarrow> fst ht = image_of P b (\<lambda>g. part P g (ap_N P - 1)) h0"

lemma ar_holds_core:
  "ar_holds P r b h0 stid rtid j q (core c) \<longleftrightarrow>
     ar_static P r b stid rtid (tc_task c) \<and> ar_state P r b h0 j q (tc_heap c) (tc_state c)"
  by (simp add: ar_holds_def core_def ar_static_def ar_state_def Let_def)

context ar_rank
begin

lemma cursor_nat:
  assumes "ar_static P r b stid rtid t" and "st_ring_step (pt_state t) = int i"
  shows "AllreduceUnit t = int (op_unit P i)" and "AllreduceStepInUnit t = int (op_step P i)"
proof -
  have "pt_world_size t - 1 = int (ap_N P - 1)" using assms(1) N_pos by (simp add: ar_static_def of_nat_diff)
  then show "AllreduceUnit t = int (op_unit P i)" "AllreduceStepInUnit t = int (op_step P i)"
    using assms(2) by (simp_all only: AllreduceUnit_def AllreduceStepInUnit_def sdiv_of_nat smod_of_nat op_unit_def op_step_def)
qed

lemma chunk_int:
  assumes "ar_static P r b stid rtid t" and "st_ring_step (pt_state t) = int i"
  shows "st_phase (pt_state t) = kPhaseReduceScatter \<Longrightarrow> AllreduceSendChunk t = int (rs_send P r i)"
    and "st_phase (pt_state t) = kPhaseReduceScatter \<Longrightarrow> AllreduceRecvChunk t = int (rs_recv P r i)"
    and "st_phase (pt_state t) = kPhaseAllGather \<Longrightarrow> AllreduceSendChunk t = int (ag_send P r i)"
    and "st_phase (pt_state t) = kPhaseAllGather \<Longrightarrow> AllreduceRecvChunk t = int (ag_recv P r i)"
proof -
  have s: "op_step P i < ap_N P - 1" by (rule op_step_less)
  have e: "int r - int (op_step P i) + int (ap_N P) = int (r + ap_N P - op_step P i)"
    "int r - int (op_step P i) + int (ap_N P) - 1 = int (r + ap_N P - op_step P i - 1)"
    "int r - int (op_step P i) + 1 + int (ap_N P) = int (r + ap_N P + 1 - op_step P i)"
    using s by linarith+
  have t: "pt_rank t = int r" "pt_world_size t = int (ap_N P)" using assms(1) by (simp_all add: ar_static_def)
  note c = cursor_nat [OF assms]
  show "st_phase (pt_state t) = kPhaseReduceScatter \<Longrightarrow> AllreduceSendChunk t = int (rs_send P r i)"
    by (simp add: AllreduceSendChunk_def Let_def c t rs_send_def e)
  show "st_phase (pt_state t) = kPhaseReduceScatter \<Longrightarrow> AllreduceRecvChunk t = int (rs_recv P r i)"
    by (simp only: AllreduceRecvChunk_def Let_def c t e(2) smod_of_nat rs_recv_def of_nat_add of_nat_mult simp_thms if_True)
  show "st_phase (pt_state t) = kPhaseAllGather \<Longrightarrow> AllreduceSendChunk t = int (ag_send P r i)"
    by (simp add: AllreduceSendChunk_def Let_def c t ag_send_def e phase_defs)
  show "st_phase (pt_state t) = kPhaseAllGather \<Longrightarrow> AllreduceRecvChunk t = int (ag_recv P r i)"
    by (simp add: AllreduceRecvChunk_def Let_def c t ag_recv_def e phase_defs)
qed

lemma ChunkElemCount_csize: "ChunkElemCount (ap_E P) (ap_K P) (int g) = csize P g"
  by (simp add: ChunkElemCount_def csize_def Let_def)

lemma total_ops_eq: "ar_static P r b stid rtid t \<Longrightarrow> allreduce_total_ops t = ar_ops P"
  using N_pos ts_pos
  by (simp add: allreduce_total_ops_def AllreduceUnits_def Let_def ar_static_def ar_ops_def ar_units_def nat_diff_distrib)

text \<open>The arguments the code passes for operation \<open>j\<close>.\<close>

lemma args_rs:
  assumes "ar_static P r b stid rtid t" and "ar_state P r b h0 j q h (pt_state t)" and "j < ar_ops P"
  shows "AllreduceSendPtr t = Mem (b + rs_send P r j * cw P)" and "AllreduceRecvPtr t = Tmp 0"
    and "AllreduceSendBytes t = csize P (rs_send P r j) * ts P" and "AllreduceRecvBytes t = csize P (rs_recv P r j) * ts P"
    and "AllreduceRecvChunk t = int (rs_recv P r j)"
proof -
  have ph: "st_phase (pt_state t) = kPhaseReduceScatter" and st: "st_ring_step (pt_state t) = int j"
    using assms(2,3) by (simp_all add: ar_state_def)
  note ch = chunk_int(1,2) [OF assms(1) st ph]
  have t: "pt_recv_buf t = Mem b" "pt_chunk_size t = ap_K P" "pt_elem_count t = ap_E P" "pt_dtype t = ap_dtype P"
    using assms(1) by (simp_all add: ar_static_def)
  show "AllreduceSendPtr t = Mem (b + rs_send P r j * cw P)"
    by (simp add: AllreduceSendPtr_def ch t cw_def mult.assoc)
  show "AllreduceRecvPtr t = Tmp 0" by (simp add: AllreduceRecvPtr_def ph)
  show "AllreduceSendBytes t = csize P (rs_send P r j) * ts P" "AllreduceRecvBytes t = csize P (rs_recv P r j) * ts P"
    by (simp_all add: AllreduceSendBytes_def AllreduceRecvBytes_def ch t ChunkElemCount_csize)
  show "AllreduceRecvChunk t = int (rs_recv P r j)" by (rule ch(2))
qed

lemma args_ag:
  assumes "ar_static P r b stid rtid t" and "ar_state P r b h0 j q h (pt_state t)" and "\<not> j < ar_ops P"
    and "i = j - ar_ops P"
  shows "AllreduceSendPtr t = Mem (b + ag_send P r i * cw P)" and "AllreduceRecvPtr t = Mem (b + ag_recv P r i * cw P)"
    and "AllreduceSendBytes t = csize P (ag_send P r i) * ts P" and "AllreduceRecvBytes t = csize P (ag_recv P r i) * ts P"
proof -
  have ph: "st_phase (pt_state t) = kPhaseAllGather" and st: "st_ring_step (pt_state t) = int i"
    using assms(2-4) by (simp_all add: ar_state_def Let_def)
  note ch = chunk_int(3,4) [OF assms(1) st ph]
  have t: "pt_recv_buf t = Mem b" "pt_chunk_size t = ap_K P" "pt_elem_count t = ap_E P" "pt_dtype t = ap_dtype P"
    using assms(1) by (simp_all add: ar_static_def)
  show "AllreduceSendPtr t = Mem (b + ag_send P r i * cw P)"
    by (simp add: AllreduceSendPtr_def ch t cw_def mult.assoc)
  show "AllreduceRecvPtr t = Mem (b + ag_recv P r i * cw P)"
    using ph by (simp add: AllreduceRecvPtr_def ch t cw_def mult.assoc phase_defs)
  show "AllreduceSendBytes t = csize P (ag_send P r i) * ts P" "AllreduceRecvBytes t = csize P (ag_recv P r i) * ts P"
    by (simp_all add: AllreduceSendBytes_def AllreduceRecvBytes_def ch t ChunkElemCount_csize)
qed

end

subsection \<open>The machine follows the operations\<close>

locale allreduce_rank = ar_rank P r + transport rt trace
  for P r and rt :: "'e runtime" and trace +
  fixes stid rtid :: transport_ref and b :: nat and h0 :: heap
  assumes fp: "rt_fp rt = ap_fp P"
begin

lemma length_io:
  "j < ar_ops P \<Longrightarrow> length (ar_out P r j) = csize P (rs_send P r j) * ts P"
  "j < ar_ops P \<Longrightarrow> length (ar_inc P r j) = csize P (rs_recv P r j) * ts P"
  "\<not> j < ar_ops P \<Longrightarrow> length (ar_out P r j) = csize P (ag_send P r (j - ar_ops P)) * ts P"
  "\<not> j < ar_ops P \<Longrightarrow> length (ar_inc P r j) = csize P (ag_recv P r (j - ar_ops P)) * ts P"
  by (simp_all add: ar_out_def ar_inc_def)

lemma args_len:
  assumes "ar_static P r b stid rtid t" and "ar_state P r b h0 j q h (pt_state t)"
  shows "AllreduceSendBytes t = length (ar_out P r j)" and "AllreduceRecvBytes t = length (ar_inc P r j)"
  using args_rs(3,4) [OF assms] args_ag(3,4) [OF assms _ refl] by (cases "j < ar_ops P"; simp add: length_io)+

lemma csize_cw: "csize P g * ts P \<le> cw P"
  unfolding cw_def by (rule mult_le_mono1 [OF csize_le])

lemma ar_load:
  assumes "ar_static P r b stid rtid (tc_task c)" and "ar_state P r b h0 j q (tc_heap c) (tc_state c)"
  shows "mem_load c (AllreduceSendPtr (tc_task c)) (AllreduceSendBytes (tc_task c)) = ar_out P r j"
proof (cases "j < ar_ops P")
  case True
  have "tc_heap c = image_of P b (val_rs P r j) h0" using assms(2) True by (simp add: ar_state_def)
  then show ?thesis
    using load_image [of "val_rs P r j" "rs_send P r j" P b h0] True
    by (simp add: args_rs [OF assms True] val_rs_send ar_out_def)
next
  case False
  define i where "i = j - ar_ops P"
  let ?v = "(val_ag P r i)(ag_recv P r i := take q (ar_inc P r j) @ drop q (val_ag P r i (ag_recv P r i)))"
  have "tc_heap c = image_of P b ?v h0" using assms(2) False by (simp add: ar_state_def Let_def i_def)
  moreover have "?v (ag_send P r i) = ar_out P r j"
    using ag_send_neq_recv [of i] False by (simp add: val_ag_send ar_out_def i_def)
  ultimately show ?thesis
    using load_image [of ?v "ag_send P r i" P b h0] length_io(3) [OF False]
    by (simp add: args_ag [OF assms False i_def] i_def)
qed

lemma ar_store:
  assumes "ar_static P r b stid rtid (tc_task c)" and "ar_state P r b h0 j q (tc_heap c) (tc_state c)"
    and le: "q + length bs \<le> length (ar_inc P r j)" and bs: "bs = take (length bs) (drop q (ar_inc P r j))"
  defines "c' \<equiv> mem_store (ptr_plus (AllreduceRecvPtr (tc_task c)) q) bs c"
  shows "ar_static P r b stid rtid (tc_task c')" and "ar_state P r b h0 j (q + length bs) (tc_heap c') (tc_state c')"
proof -
  show "ar_static P r b stid rtid (tc_task c')"
    using assms(1) by (cases "ptr_plus (AllreduceRecvPtr (tc_task c)) q") (simp_all add: c'_def ar_static_def upd_state_def)
  have more: "take (q + length bs) (ar_inc P r j) = take q (ar_inc P r j) @ bs" using bs by (simp add: take_add)
  show "ar_state P r b h0 j (q + length bs) (tc_heap c') (tc_state c')"
  proof (cases "j < ar_ops P")
    case True
    have tmp: "length (st_temp_buffer (tc_state c)) = cw P" "take q (st_temp_buffer (tc_state c)) = take q (ar_inc P r j)"
      using assms(2) True by (simp_all add: ar_state_def)
    have fits: "q + length bs \<le> length (st_temp_buffer (tc_state c))"
      using le tmp(1) csize_cw [of "rs_recv P r j"] by (simp add: length_io(2) [OF True])
    then show ?thesis
      using assms(2) True tmp more take_list_store [OF fits]
      by (simp add: c'_def args_rs(2) [OF assms(1,2) True] ar_state_def upd_state_def)
  next
    case False
    define i where "i = j - ar_ops P"
    let ?g = "ag_recv P r i"
    let ?old = "take q (ar_inc P r j) @ drop q (val_ag P r i ?g)"
    have len: "length (ar_inc P r j) = csize P ?g * ts P" using length_io(4) [OF False] by (simp add: i_def)
    have heap: "tc_heap c = image_of P b ((val_ag P r i)(?g := ?old)) h0"
      using assms(2) False by (simp add: ar_state_def Let_def i_def)
    have "list_store q bs ?old = take (q + length bs) (ar_inc P r j) @ drop (q + length bs) (val_ag P r i ?g)"
      using le len more by (simp add: list_store_def add.commute)
    moreover have "heap_store (b + ?g * cw P + q) bs (tc_heap c) =
        image_of P b (((val_ag P r i)(?g := ?old))(?g := list_store q bs ?old)) h0"
      unfolding heap using le len
      by (subst store_image) (simp_all add: ts_pos)
    ultimately show ?thesis
      using assms(2) False
      by (simp add: c'_def args_ag(2) [OF assms(1,2) False i_def] ar_state_def Let_def i_def [symmetric])
  qed
qed

lemma ptrs_same:
  assumes "core c = core c'"
  shows "AllreduceSendPtr (tc_task c) = AllreduceSendPtr (tc_task c')" and "AllreduceRecvPtr (tc_task c) = AllreduceRecvPtr (tc_task c')"
    and "AllreduceSendBytes (tc_task c) = AllreduceSendBytes (tc_task c')" and "AllreduceRecvBytes (tc_task c) = AllreduceRecvBytes (tc_task c')"
proof -
  have f: "f (snd (core c)) = f (snd (core c'))" for f :: "PlanTask \<Rightarrow> 'x" using assms by simp
  note same = f [of pt_recv_buf] f [of pt_chunk_size] f [of pt_elem_count] f [of pt_dtype] f [of pt_rank]
    f [of pt_world_size] f [of "\<lambda>t. st_phase (pt_state t)"] f [of "\<lambda>t. st_ring_step (pt_state t)"]
  note same' = same [simplified core_def, simplified]
  show "AllreduceSendPtr (tc_task c) = AllreduceSendPtr (tc_task c')" "AllreduceRecvPtr (tc_task c) = AllreduceRecvPtr (tc_task c')"
    "AllreduceSendBytes (tc_task c) = AllreduceSendBytes (tc_task c')" "AllreduceRecvBytes (tc_task c) = AllreduceRecvBytes (tc_task c')"
    by (simp_all only: AllreduceSendPtr_def AllreduceRecvPtr_def AllreduceSendBytes_def AllreduceRecvBytes_def
        AllreduceSendChunk_def AllreduceRecvChunk_def AllreduceUnit_def AllreduceStepInUnit_def same')
qed

end

sublocale allreduce_rank \<subseteq> ex: exchange rt trace stid rtid "2 * ar_ops P" "ar_out P r" "ar_inc P r"
  "ar_holds P r b h0 stid rtid" AllreduceSendPtr AllreduceRecvPtr AllreduceSendBytes AllreduceRecvBytes
proof (unfold_locales, goal_cases)
  case (1 j q c) then show ?case by (simp add: ar_holds_core ar_static_def)
next
  case (2 j q c) then show ?case using ar_load [of c j q] by (simp add: ar_holds_core)
next
  case (3 j q c) then show ?case using args_len(2) [of "tc_task c" j q "tc_heap c"] by (simp add: ar_holds_core)
next
  case (4 j q c bs) then show ?case using ar_store [of c j q bs] by (simp add: ar_holds_core)
next
  case (5 c c') then show ?case using ptrs_same by blast
qed

lemma list_store_all: "length bs = length xs \<Longrightarrow> list_store 0 bs xs = bs"
  by (simp add: list_store_def)

context allreduce_rank
begin

lemma overwrite_chunk:
  "length y = csize P g * ts P \<Longrightarrow> length (v g) = csize P g * ts P \<Longrightarrow>
   heap_store (b + g * cw P) y (image_of P b v h0) = image_of P b (v(g := y)) h0"
  using store_image [of P v g 0 y b h0] ts_pos by (simp add: list_store_all)

text \<open>Receiving in the reduce-scatter phase ends with the reduction of the chunk.\<close>

lemma reduce_chunk:
  assumes "ar_static P r b stid rtid (tc_task c)" and "ar_state P r b h0 j (length (ar_inc P r j)) (tc_heap c) (tc_state c)"
    and j: "j < ar_ops P"
  shows "tc_heap (allreduce_reduce rt c) = image_of P b (val_rs P r (Suc j)) h0"
    and "tc_task (allreduce_reduce rt c) = tc_task c"
proof -
  let ?g = "rs_recv P r j" and ?s = "op_step P j" and ?t = "tc_task c"
  let ?y = "PerformReduce (ap_fp P) (part P ?g ?s) (chunk_of P r ?g) (csize P ?g) (ap_dtype P) (sum_for_avg (ap_op P))"
  have st: "st_phase (tc_state c) = kPhaseReduceScatter" "st_ring_step (tc_state c) = int j"
    "tc_heap c = image_of P b (val_rs P r j) h0" "length (st_temp_buffer (tc_state c)) = cw P"
    "take (length (ar_inc P r j)) (st_temp_buffer (tc_state c)) = ar_inc P r j"
    using assms(2) j by (simp_all add: ar_state_def)
  have t: "pt_recv_buf ?t = Mem b" "pt_chunk_size ?t = ap_K P" "pt_elem_count ?t = ap_E P" "pt_dtype ?t = ap_dtype P"
    "pt_reduce_op ?t = ap_op P" "pt_world_size ?t = int (ap_N P)" using assms(1) by (simp_all add: ar_static_def)
  have inc: "ar_inc P r j = part P ?g ?s" using j by (simp add: ar_inc_def)
  have src: "mem_load c (Tmp 0) (csize P ?g * ts P) = part P ?g ?s" using st(5) by (simp add: inc)
  have dst: "mem_load c (Mem (b + ?g * cw P)) (csize P ?g * ts P) = chunk_of P r ?g"
    using load_image [where val = "val_rs P r j" and g = ?g and P = P and b = b and ?h0.0 = h0, OF length_val(1)]
    by (simp add: st(3) val_rs_recv)
  have rank: "(?g + Suc ?s) mod ap_N P = r" using hops_rank [of ?g] by (simp add: hops_rs_recv)
  have last: "AllreduceStepInUnit ?t = pt_world_size ?t - 2 \<longleftrightarrow> Suc ?s = ap_N P - 1"
    using cursor_nat(2) [OF assms(1) st(2)] N_pos by (simp add: t) linarith
  have len: "length ?y = csize P ?g * ts P" using r by (simp add: length_chunk_of)
  let ?v = "(val_rs P r j)(?g := ?y)"
  have h1: "tc_heap (reduce_mem rt (Tmp 0) (Mem (b + ?g * cw P)) (csize P ?g) (ap_dtype P) (sum_for_avg (ap_op P)) c) = image_of P b ?v h0"
    "tc_task (reduce_mem rt (Tmp 0) (Mem (b + ?g * cw P)) (csize P ?g) (ap_dtype P) (sum_for_avg (ap_op P)) c) = ?t"
    using overwrite_chunk [OF len, of "val_rs P r j"] src dst by (simp_all add: reduce_mem_def fp st(3))
  have h2: "heap_load (image_of P b ?v h0) (b + ?g * cw P) (csize P ?g * ts P) = ?y"
    using load_image [of ?v ?g P b h0] len by simp
  have h3: "heap_store (b + ?g * cw P) z (image_of P b ?v h0) = image_of P b ((val_rs P r j)(?g := z)) h0"
    if "length z = csize P ?g * ts P" for z using overwrite_chunk [OF that, of ?v] len by simp
  have w: "x * ap_K P * ts P = x * cw P" for x by (simp add: cw_def)
  note unfolded = allreduce_reduce_def Let_def st(1) args_rs(5) [OF assms(1,2) j] t(1-5) w ChunkElemCount_csize last
  show "tc_task (allreduce_reduce rt c) = tc_task c"
    by (simp add: unfolded reduce_mem_def average_mem_def)
  have part: "part P ?g (?s + 1) = (if ap_op P = OpAvg \<and> Suc ?s = ap_N P - 1
      then ApplyAverage (ap_fp P) ?y (csize P ?g) (ap_dtype P) (int (ap_N P)) else ?y)"
    using rank by (simp add: Let_def)
  show "tc_heap (allreduce_reduce rt c) = image_of P b (val_rs P r (Suc j)) h0"
  proof (cases "ap_op P = OpAvg \<and> Suc ?s = ap_N P - 1")
    case True
    note avg = conjunct1 [OF True]
    show ?thesis unfolding val_rs_Suc part
      using True h3 len h1 [unfolded avg] h2 [unfolded avg] by (simp add: unfolded average_mem_def fp t(6) last [unfolded t(6)])
  next
    case False
    then have "allreduce_reduce rt c =
        reduce_mem rt (Tmp 0) (Mem (b + ?g * cw P)) (csize P ?g) (ap_dtype P) (sum_for_avg (ap_op P)) c"
      by (auto simp: unfolded)
    then show ?thesis unfolding val_rs_Suc part if_not_P [OF False] by (simp only: h1(1))
  qed
qed

lemma ar_ops_bound: "int (ar_ops P) \<le> INT_MAX"
proof -
  have "ar_ops P \<le> ar_units P * ap_N P" by (simp add: ar_ops_def)
  then have "int (ar_ops P) \<le> int (ar_units P * ap_N P)" by (simp only: of_nat_le_iff)
  then show ?thesis using ok unfolding ar_ok_def by linarith
qed

text \<open>One iteration of the loop, up to \<open>BeginPhase\<close>: the next operation's state, or the end.\<close>

lemma advance:
  assumes "ar_static P r b stid rtid (tc_task c)" and "ar_state P r b h0 j (length (ar_inc P r j)) (tc_heap c) (tc_state c)"
    and j: "j < 2 * ar_ops P"
  shows "\<exists>c1 c2 go. inc_step (allreduce_reduce rt c) = Some c1 \<and> allreduce_cursor c1 = (c2, go) \<and> tr c2 = tr c \<and>
    ar_static P r b stid rtid (tc_task c2) \<and> go = (Suc j < 2 * ar_ops P) \<and>
    (go \<longrightarrow> ar_state P r b h0 (Suc j) 0 (tc_heap c2) (tc_state c2)) \<and>
    (\<not> go \<longrightarrow> ar_final P b h0 (core c2) \<and> st_phase (tc_state c2) = kPhaseDone)"
proof -
  let ?k = "if j < ar_ops P then j else j - ar_ops P"
  let ?c = "allreduce_reduce rt c"
  have step: "st_ring_step (tc_state c) = int ?k" using assms(2) by (simp add: ar_state_def Let_def split: if_splits)
  have "int ?k < INT_MAX" using ar_ops_bound j by (auto split: if_splits)
  moreover have task: "tc_task ?c = tc_task c"
    using reduce_chunk(2) [OF assms(1,2)] assms(2)
    by (cases "j < ar_ops P") (simp_all add: allreduce_reduce_def ar_state_def Let_def phase_defs)
  ultimately have inc: "inc_step ?c = Some (upd_state (\<lambda>s. s\<lparr>st_ring_step := int ?k + 1\<rparr>) ?c)"
    using step by (simp add: inc_step_def int_inc_def)
  let ?c1 = "upd_state (\<lambda>s. s\<lparr>st_ring_step := int ?k + 1\<rparr>) ?c"
  have ops: "allreduce_total_ops (tc_task ?c1) = ar_ops P"
    using assms(1) task by (intro total_ops_eq) (simp add: upd_state_def ar_static_def)
  have trc: "tr ?c = tr c" by (auto simp: allreduce_reduce_def Let_def)
  show ?thesis
  proof (cases "j < ar_ops P")
    case True
    note red = reduce_chunk [OF assms(1,2) True]
    have st: "st_phase (tc_state c) = kPhaseReduceScatter" "length (st_temp_buffer (tc_state c)) = cw P"
      using assms(2) True by (simp_all add: ar_state_def)
    show ?thesis
    proof (cases "Suc j = ar_ops P")
      case last: True
      have "image_of P b (val_rs P r (Suc j)) h0 = image_of P b (val_ag P r 0) h0"
        unfolding last by (rule image_of_cong [OF ts_pos(3)]) (simp add: val_rs_all csize_units)
      then show ?thesis
        using inc ops True last st red trc assms(1)
        by (auto simp: allreduce_cursor_def Let_def upd_state_def ar_state_def ar_static_def nat_add_distrib)
    next
      case False
      then have "Suc j < ar_ops P" using True by simp
      then show ?thesis
        using inc ops True st red trc assms(1)
        by (auto simp: allreduce_cursor_def Let_def upd_state_def ar_state_def ar_static_def nat_add_distrib phase_defs)
    qed
  next
    case False
    define i where "i = j - ar_ops P"
    have i: "i < ar_ops P" "j = ar_ops P + i" "?k = i" using False j by (simp_all add: i_def)
    have st: "st_phase (tc_state c) = kPhaseAllGather" "?c = c"
      using assms(2) False by (simp_all add: ar_state_def Let_def allreduce_reduce_def phase_defs)
    have "drop (length (ar_inc P r j)) (val_ag P r i (ag_recv P r i)) = []"
      using length_io(4) [OF False] by (simp add: i_def)
    moreover have "ar_inc P r j = part P (ag_recv P r i) (ap_N P - 1)" using False by (simp add: ar_inc_def i_def)
    ultimately have heap: "tc_heap c = image_of P b (val_ag P r (Suc i)) h0"
      using assms(2) False by (simp add: ar_state_def Let_def i_def val_ag_Suc)
    show ?thesis
    proof (cases "Suc i = ar_ops P")
      case last: True
      have "image_of P b (val_ag P r (Suc i)) h0 = image_of P b (\<lambda>g. part P g (ap_N P - 1)) h0"
        unfolding last by (rule image_of_cong [OF ts_pos(3)]) (simp add: val_ag_all csize_units)
      then show ?thesis
        using inc ops last st heap trc assms(1) i
        by (auto simp: allreduce_cursor_def Let_def upd_state_def ar_final_def core_def ar_static_def nat_add_distrib phase_defs)
    next
      case False
      then have "Suc i < ar_ops P" using i by simp
      then show ?thesis
        using inc ops st heap trc assms(1) i
        by (auto simp: allreduce_cursor_def Let_def upd_state_def ar_state_def ar_static_def nat_add_distrib phase_defs)
    qed
  qed
qed

lemma begin_at:
  assumes "ar_static P r b stid rtid (tc_task c)" and "ar_state P r b h0 j 0 (tc_heap c) (tc_state c)" and "j < 2 * ar_ops P"
    and "sent_bytes stid (tr c) = ex.outs j" and "rcvd_bytes rtid (tr c) = ex.ins j" and "ex.sends_ok (tr c)"
    and "allreduce_begin rt (st_phase (tc_state c)) c = Some c'"
  shows "ex.inv (ex.at j) c'"
proof -
  let ?t = "tc_task c" and ?ph = "st_phase (tc_state c)"
  let ?c1 = "start_phase ?ph (AllreduceSendBytes ?t) (AllreduceRecvBytes ?t) c"
  have ph: "?ph = kPhaseReduceScatter \<or> ?ph = kPhaseAllGather"
    using assms(2) by (simp add: ar_state_def Let_def split: if_splits)
  have core: "core ?c1 = core c" by (simp add: core_def start_phase_def Let_def upd_state_def)
  have empty: "AllreduceSendBytes ?t = 0 \<longleftrightarrow> ar_out P r j = []" "AllreduceRecvBytes ?t = 0 \<longleftrightarrow> ar_inc P r j = []"
    using args_len [OF assms(1,2)] by simp_all
  show ?thesis
  proof (rule ex.BeginPhase_at [OF refl])
    show "ar_holds P r b h0 stid rtid j 0 (core ?c1)" unfolding core using assms(1,2) by (simp add: ar_holds_core)
    show "BeginPhase rt ?ph (AllreduceSendPtr ?t) (AllreduceRecvPtr ?t) (AllreduceSendBytes ?t) (AllreduceRecvBytes ?t) c = Some c'"
      using assms(7) by (simp add: allreduce_begin_def Let_def)
  qed (use assms(3-6) ph empty ptrs_same [OF core] in \<open>auto simp: phase_defs\<close>)
qed

lemma body_step:
  assumes "ex.at j c" and "ex.sends_ok (tr c)" and "loop_on c" and "allreduce_body rt c = Some c'"
  shows "ex.inv (\<lambda>c. (\<exists>j. ex.at j c) \<or> (ar_final P b h0 (core c) \<and> st_phase (tc_state c) = kPhaseDone \<and>
    sent_bytes stid (tr c) = ex.outs (2 * ar_ops P) \<and> rcvd_bytes rtid (tr c) = ex.ins (2 * ar_ops P))) c'"
proof -
  note comp = ex.at_complete [OF assms(1,3)]
  from comp(3) have st: "ar_static P r b stid rtid (tc_task c)"
    "ar_state P r b h0 j (length (ar_inc P r j)) (tc_heap c) (tc_state c)" by (simp_all add: ar_holds_core)
  obtain c1 c2 go where a: "inc_step (allreduce_reduce rt c) = Some c1" "allreduce_cursor c1 = (c2, go)" "tr c2 = tr c"
    "ar_static P r b stid rtid (tc_task c2)" "go = (Suc j < 2 * ar_ops P)"
    "go \<longrightarrow> ar_state P r b h0 (Suc j) 0 (tc_heap c2) (tc_state c2)"
    "\<not> go \<longrightarrow> ar_final P b h0 (core c2) \<and> st_phase (tc_state c2) = kPhaseDone"
    using advance [OF st comp(4)] by blast
  show ?thesis
  proof (cases go)
    case True
    then have "allreduce_begin rt (st_phase (tc_state c2)) c2 = Some c'"
      using assms(4) a(1,2) by (simp add: allreduce_body_def)
    from begin_at [OF a(4) _ _ _ _ _ this, of "Suc j"] True a comp(1,2) assms(2) have "ex.inv (ex.at (Suc j)) c'" by simp
    then show ?thesis by (rule ex.inv_mono) blast
  next
    case False
    then have "c' = c2" using assms(4) a(1,2) by (simp add: allreduce_body_def)
    moreover have "Suc j = 2 * ar_ops P" using False a(5) comp(4) by simp
    ultimately show ?thesis using False a(3,7) assms(2) comp(1,2) by (simp add: ex.inv_def)
  qed
qed

lemma body_grows: "allreduce_body rt c = Some c' \<Longrightarrow> prefix (tr c) (tr c')"
proof -
  assume "allreduce_body rt c = Some c'"
  moreover have "tr (allreduce_reduce rt c) = tr c" by (auto simp: allreduce_reduce_def Let_def)
  ultimately show ?thesis
    by (auto simp: allreduce_body_def allreduce_cursor_def allreduce_begin_def Let_def dest!: inc_step_frame
        split: option.splits if_splits) (metis BeginPhase_mono tr_simps(1))+
qed

lemma holds_not_done: "ar_holds P r b h0 stid rtid j q (core (c :: 'e tcfg)) \<Longrightarrow> st_phase (tc_state c) \<noteq> kPhaseDone"
  by (auto simp: ar_holds_core ar_state_def Let_def phase_defs split: if_splits)

lemma complete_loop:
  assumes "CompleteAllreduce rt c = Some c'" and "Q c" and "\<And>x y. Q x \<Longrightarrow> loop_on x \<Longrightarrow> allreduce_body rt x = Some y \<Longrightarrow> Q y"
  shows "Q c' \<and> \<not> loop_on c'"
  using assms
proof (induction rt c rule: CompleteAllreduce.induct)
  case (1 rt c)
  show ?case
  proof (cases "loop_on c")
    case True
    with 1(2) obtain y where "allreduce_body rt c = Some y" "CompleteAllreduce rt y = Some c'"
      by (auto simp: CompleteAllreduce.simps [of rt c] split: option.splits)
    with 1(1) [OF True] 1(3,4) True show ?thesis by blast
  next
    case False
    with 1(2,3) show ?thesis by (simp add: CompleteAllreduce.simps [of rt c])
  qed
qed

end

sublocale allreduce_rank \<subseteq> lp: exchange_loop rt trace stid rtid "2 * ar_ops P" "ar_out P r" "ar_inc P r"
  "ar_holds P r b h0 stid rtid" AllreduceSendPtr AllreduceRecvPtr AllreduceSendBytes AllreduceRecvBytes
  "allreduce_body rt" "CompleteAllreduce rt" "ar_final P b h0"
proof (unfold_locales, goal_cases)
  case (1 j c c') then show ?case by (rule body_step)
next
  case (2 c c') then show ?case by (rule body_grows)
next
  case (3 j q c) then show ?case by (rule holds_not_done)
next
  case (4 c c' Q) then show ?case by (rule complete_loop)
qed

subsection \<open>Initialisation\<close>

text \<open>
  A rank's task as the planner emits it, before \<open>CollectiveInit\<close>: the input vector is at \<open>send_buf\<close>,
  which is \<open>recv_buf\<close> itself or does not overlap it.
\<close>

definition ar_start :: "ar_params \<Rightarrow> nat \<Rightarrow> nat \<Rightarrow> nat \<Rightarrow> transport_ref \<Rightarrow> transport_ref \<Rightarrow> 'e tcfg \<Rightarrow> bool" where
  "ar_start P r a b stid rtid c \<longleftrightarrow> ar_static P r b stid rtid (tc_task c) \<and> pt_func (tc_task c) = AllReduce \<and>
     pt_send_buf (tc_task c) = Mem a \<and> heap_load (tc_heap c) a (ap_E P * ts P) = ap_X P r \<and>
     (a = b \<or> a + ap_E P * ts P \<le> b \<or> b + ap_E P * ts P \<le> a)"

lemma heap_store_load: "heap_store a (heap_load h a n) h = h"
  by (auto simp: heap_store_def fun_eq_iff)

context allreduce_rank
begin

lemma init_copy:
  assumes "ar_start P r a b stid rtid c" and "h0 = tc_heap c"
  defines "c1 \<equiv> (if Mem a \<noteq> Mem b then memcpy (Mem b) (Mem a) (ap_E P * ts P) (reset_state c) else reset_state c)"
  shows "tc_heap c1 = image_of P b (val_rs P r 0) h0" and "tc_task c1 = (tc_task c)\<lparr>pt_state := CollOpState_default\<rparr>"
    and "tr c1 = tr c"
proof -
  have X: "heap_load (tc_heap c) a (ap_E P * ts P) = ap_X P r" and len: "length (ap_X P r) = ap_E P * ts P"
    using assms(1) ok r by (simp_all add: ar_start_def ar_ok_def)
  show "tc_heap c1 = image_of P b (val_rs P r 0) h0"
  proof (cases "a = b")
    case True
    then have "h0 = heap_store b (ap_X P r) h0" using X assms(2) heap_store_load [of b h0 "ap_E P * ts P"] by simp
    then show ?thesis
      using True image_vector [OF ts_pos(3) len, of b h0] assms(2)
      by (simp add: c1_def reset_state_def upd_state_def val_rs_0)
  next
    case False
    then show ?thesis
      using X image_vector [OF ts_pos(3) len, of b h0] assms(2)
      by (simp add: c1_def memcpy_def reset_state_def upd_state_def val_rs_0)
  qed
  show "tc_task c1 = (tc_task c)\<lparr>pt_state := CollOpState_default\<rparr>" "tr c1 = tr c"
    by (simp_all add: c1_def memcpy_def reset_state_def upd_state_def)
qed

lemma init_inv:
  assumes "ar_start P r a b stid rtid c" and "h0 = tc_heap c" and "tr c = []" and "AllreduceInit rt c = Some c'"
  shows "ex.inv lp.live c' \<and> \<not> loop_on c'"
proof -
  define c1 where "c1 = (if Mem a \<noteq> Mem b then memcpy (Mem b) (Mem a) (ap_E P * ts P) (reset_state c) else reset_state c)"
  note cp = init_copy [OF assms(1,2), folded c1_def]
  define c2 where "c2 = upd_state (\<lambda>s. s\<lparr>st_phase := kPhaseReduceScatter, st_ring_step := 0\<rparr>) (resize_temp (ap_K P * ts P) c1)"
  have t: "pt_world_size (tc_task c) = int (ap_N P)" "pt_elem_count (tc_task c) = ap_E P" "pt_chunk_size (tc_task c) = ap_K P"
    "pt_send_buf (tc_task c) = Mem a" "pt_recv_buf (tc_task c) = Mem b" "pt_dtype (tc_task c) = ap_dtype P"
    "pt_send_transports (tc_task c) = [stid]" "pt_recv_transports (tc_task c) = [rtid]"
    using assms(1) by (simp_all add: ar_start_def ar_static_def)
  have "AllreduceInit rt c = Option.bind (allreduce_begin rt kPhaseReduceScatter c2) (CompleteAllreduce rt)"
    using N_pos ts_pos
    by (simp add: AllreduceInit_def Let_def reset_state_def upd_state_def t no_transports_def c1_def c2_def del: ptr.inject)
  with assms(4) obtain c3 where b3: "allreduce_begin rt kPhaseReduceScatter c2 = Some c3" and k: "CompleteAllreduce rt c3 = Some c'"
    by (auto simp: bind_eq_Some_conv)
  have ops: "0 < ar_ops P" using csize_units [of 0] ts_pos N_pos by (simp add: ar_ops_def csize_def)
  have "ar_static P r b stid rtid (tc_task c2)"
    using assms(1) cp(2) by (simp add: c2_def resize_temp_def upd_state_def ar_start_def ar_static_def)
  moreover have "ar_state P r b h0 0 0 (tc_heap c2) (tc_state c2)"
    using cp(1,2) ops by (simp add: c2_def resize_temp_def upd_state_def ar_state_def CollOpState_default_def cw_def)
  moreover have "tr c2 = []" using cp(3) assms(3) by (simp add: c2_def resize_temp_def)
  moreover have "st_phase (tc_state c2) = kPhaseReduceScatter" by (simp add: c2_def upd_state_def)
  ultimately have "ex.inv (ex.at 0) c3"
    using begin_at [of c2 0 c3] b3 ops by (simp add: ex.outs_def ex.ins_def ex.sends_ok_def)
  then have "ex.inv lp.live c3" by (rule ex.inv_mono) (auto simp: lp.live_def)
  then show ?thesis using k by (rule lp.complete_inv)
qed

lemma step_eq:
  "st_phase (tc_state c) \<noteq> kPhaseUnstarted \<Longrightarrow> AllreduceStep rt ev c = lp.step ev c"
  by (simp add: AllreduceStep_def lp.step_def Let_def)

end

subsection \<open>A whole task under an executor\<close>

text \<open>
  An executor calls \<open>CollectiveInit\<close> once and then \<open>CollectiveStep\<close> with whatever events occur.
\<close>

definition ring_run :: "'e runtime \<Rightarrow> CollEvent list \<Rightarrow> 'e tcfg \<Rightarrow> 'e tcfg option" where
  "ring_run rt evs c = Option.bind (Ring_CollectiveInit rt c) (for_opt (Ring_CollectiveStep rt) evs)"

definition started :: "'e tcfg \<Rightarrow> bool" where
  "started c \<longleftrightarrow> st_phase (tc_state c) \<noteq> kPhaseUnstarted \<and> pt_func (tc_task c) = AllReduce"

lemma same_task_func:
  "(tc_task c')\<lparr>pt_state := CollOpState_default\<rparr> = (tc_task c)\<lparr>pt_state := CollOpState_default\<rparr> \<Longrightarrow>
   pt_func (tc_task c') = pt_func (tc_task c)"
  by (metis PlanTask.select_convs(1) PlanTask.surjective PlanTask.update_convs(17))

lemma started_frame: "same_frame c c' \<Longrightarrow> started c \<Longrightarrow> started c'"
  using same_task_func [of c' c] by (simp add: same_frame_def started_def)

lemma started_begin: "BeginPhase rt ph p q m n c = Some c' \<Longrightarrow> ph \<noteq> kPhaseUnstarted \<Longrightarrow>
  pt_func (tc_task c) = AllReduce \<Longrightarrow> started c'"
  using BeginPhase_frame [of rt ph p q m n c c'] same_task_func [of c' c] by (simp add: started_def)

lemma started_ar_begin:
  assumes "allreduce_begin rt ph c = Some c'" and "ph \<noteq> kPhaseUnstarted" and "pt_func (tc_task c) = AllReduce"
  shows "started c'"
  using assms(1) unfolding allreduce_begin_def Let_def by (rule started_begin) (fact assms)+

lemma started_cursor:
  assumes "started c" and "inc_step c = Some c1" and "allreduce_cursor c1 = (c2, go)"
  shows "started c2"
  using assms by (auto simp: started_def allreduce_cursor_def Let_def upd_state_def phase_defs
      dest!: inc_step_frame split: if_splits)

lemma started_body:
  assumes "started c" and "allreduce_body rt c = Some c'"
  shows "started c'"
proof -
  obtain c1 where i: "inc_step (allreduce_reduce rt c) = Some c1"
    using assms(2) by (auto simp: allreduce_body_def split: option.splits)
  obtain c2 go where k: "allreduce_cursor c1 = (c2, go)" by fastforce
  have "started (allreduce_reduce rt c)" using assms(1) started_frame same_frame_allreduce_reduce by blast
  then have "started c2" using i k by (rule started_cursor)
  moreover have "c' = c2 \<or> allreduce_begin rt (st_phase (tc_state c2)) c2 = Some c'"
    using assms(2) i k by (cases go) (simp_all add: allreduce_body_def)
  ultimately show ?thesis
    using started_ar_begin [of rt "st_phase (tc_state c2)" c2 c'] by (auto simp: started_def)
qed

lemma started_complete: "CompleteAllreduce rt c = Some c' \<Longrightarrow> started c \<Longrightarrow> started c'"
proof (induction rt c rule: CompleteAllreduce.induct)
  case (1 rt c)
  then show ?case
    using started_body by (auto simp: CompleteAllreduce.simps [of rt c] split: if_splits option.splits)
qed

lemma started_step: "started c \<Longrightarrow> AllreduceStep rt ev c = Some c' \<Longrightarrow> started c'"
proof -
  assume st: "started c" and run: "AllreduceStep rt ev c = Some c'"
  show "started c'"
  proof (cases "st_phase (tc_state c) = kPhaseDone")
    case True
    then show ?thesis using st run by (auto simp: AllreduceStep_def started_def phase_defs)
  next
    case False
    then obtain c1 where "PushBuffer rt ev (AllreduceSendPtr (tc_task c)) (AllreduceRecvPtr (tc_task c))
        (AllreduceSendBytes (tc_task c)) (AllreduceRecvBytes (tc_task c)) c = Some c1" "CompleteAllreduce rt c1 = Some c'"
      using st run by (auto simp: AllreduceStep_def started_def Let_def bind_eq_Some_conv)
    then show ?thesis using st started_frame same_frame_PushBuffer started_complete by blast
  qed
qed

context allreduce_rank
begin

lemma init_started:
  assumes "ar_start P r a b stid rtid c" and "AllreduceInit rt c = Some c'"
  shows "started c'"
proof -
  let ?start = "\<lambda>c1. upd_state (\<lambda>s. s\<lparr>st_phase := kPhaseReduceScatter, st_ring_step := 0\<rparr>)
              (resize_temp (ap_K P * ts P) c1)"
  define c1 where "c1 = (if Mem a \<noteq> Mem b then memcpy (Mem b) (Mem a) (ap_E P * ts P) (reset_state c) else reset_state c)"
  have "AllreduceInit rt c = Option.bind (allreduce_begin rt kPhaseReduceScatter (?start c1)) (CompleteAllreduce rt)"
    using assms(1) N_pos ts_pos
    by (simp add: AllreduceInit_def Let_def reset_state_def upd_state_def ar_start_def ar_static_def no_transports_def
        c1_def del: ptr.inject)
  with assms(2) have "Option.bind (allreduce_begin rt kPhaseReduceScatter (?start c1)) (CompleteAllreduce rt) = Some c'" by simp
  then obtain c2 where c2: "allreduce_begin rt kPhaseReduceScatter (?start c1) = Some c2" "CompleteAllreduce rt c2 = Some c'"
    unfolding bind_eq_Some_conv by blast
  have "pt_func (tc_task (?start c1)) = AllReduce"
    using assms(1) by (simp add: c1_def resize_temp_def upd_state_def reset_state_def memcpy_def ar_start_def)
  then have "started c2" using started_ar_begin [OF c2(1)] by (simp add: phase_defs)
  then show ?thesis using c2(2) started_complete by blast
qed

lemma run_inv:
  assumes "ar_start P r a b stid rtid c" and "h0 = tc_heap c" and "tr c = []" and "ring_run rt evs c = Some c'"
  shows "ex.inv lp.live c' \<and> \<not> loop_on c'"
proof -
  have "pt_func (tc_task c) = AllReduce" using assms(1) by (simp add: ar_start_def)
  then obtain c1 where c1: "AllreduceInit rt c = Some c1" and loop: "for_opt (Ring_CollectiveStep rt) evs c1 = Some c'"
    using assms(4) by (auto simp: ring_run_def Ring_CollectiveInit_def bind_eq_Some_conv)
  have "(ex.inv lp.live c' \<and> \<not> loop_on c') \<and> started c'"
  proof (rule for_opt_invariant [where P = "\<lambda>c. (ex.inv lp.live c \<and> \<not> loop_on c) \<and> started c", OF loop])
    show "(ex.inv lp.live c1 \<and> \<not> loop_on c1) \<and> started c1"
      using init_inv [OF assms(1-3) c1] init_started [OF assms(1) c1] by blast
    fix ev x y assume x: "(ex.inv lp.live x \<and> \<not> loop_on x) \<and> started x" and "Ring_CollectiveStep rt ev x = Some y"
    then have run: "AllreduceStep rt ev x = Some y" by (simp add: Ring_CollectiveStep_def started_def)
    then have "lp.step ev x = Some y" using step_eq [of x ev] x by (simp add: started_def)
    then have "ex.inv lp.live y \<and> \<not> loop_on y" using lp.step_inv x by blast
    moreover have "started y" using started_step run x by blast
    ultimately show "(ex.inv lp.live y \<and> \<not> loop_on y) \<and> started y" by blast
  qed
  then show ?thesis by blast
qed

end

end
