(* ===== verification/Occl_Script.thy ===== *)
theory Occl_Script
  imports Occl_Allreduce
begin

section \<open>A transport driven by a script\<close>

text \<open>
  An executable instance of the transport contract: the bytes that will arrive are given, and a
  script says how many bytes each call may move. It plays every splitting of the transfers that a
  socket or a shared ring can produce, and is used to run the state machines on concrete input.
\<close>

record script_env =
  se_incoming :: "byte list"
  se_limits :: "nat list"
  se_trace :: "io list"

definition next_limit :: "script_env \<Rightarrow> nat" where
  "next_limit e = (case se_limits e of [] \<Rightarrow> 0 | n # _ \<Rightarrow> n)"

definition script_send :: "transport_ref \<Rightarrow> byte list \<Rightarrow> nat \<Rightarrow> script_env \<Rightarrow> (nat \<times> bool \<times> script_env) option" where
  "script_send t data p e =
     (let p' = (if p \<le> length data then min (p + next_limit e) (length data) else p)
      in Some (p', p' = length data, e\<lparr>se_limits := tl (se_limits e), se_trace := se_trace e @ [Sent t (take (p' - p) (drop p data))]\<rparr>))"

definition script_recv :: "transport_ref \<Rightarrow> nat \<Rightarrow> nat \<Rightarrow> script_env \<Rightarrow> (byte list \<times> bool \<times> script_env) option" where
  "script_recv t n p e =
     (let bs = take (min (next_limit e) (n - p)) (se_incoming e)
      in Some (bs, p + length bs = n, e\<lparr>se_incoming := drop (length bs) (se_incoming e),
           se_limits := tl (se_limits e), se_trace := se_trace e @ [Rcvd t bs]\<rparr>))"

text \<open>A floating point unit that the integer examples never use.\<close>

definition null_fp :: float_unit where
  "null_fp = \<lparr>f32_add = (+), f32_less = (<), f32_div_int = (\<lambda>x _. x), f64_add = (+), f64_less = (<), f64_div_int = (\<lambda>x _. x)\<rparr>"

definition script_rt :: "script_env runtime" where
  "script_rt = \<lparr>rt_try_send = script_send, rt_try_recv = script_recv, rt_fp = null_fp\<rparr>"

interpretation script: transport script_rt se_trace
  by unfold_locales (auto simp: script_rt_def script_send_def script_recv_def Let_def)

subsection \<open>Two ranks add one integer\<close>

text \<open>
  Rank 0 holds 1 and rank 1 holds 2. Rank 0 sends its chunk at once, finds nothing to read, and gets
  the sum at a later \<open>Readable\<close> event.
\<close>

definition demo_params :: ar_params where
  "demo_params = \<lparr>ap_fp = null_fp, ap_N = 2, ap_K = 1, ap_E = 1, ap_dtype = INT32, ap_op = OpSum,
     ap_X = (\<lambda>r. [if r = 0 then 1 else 2, 0, 0, 0])\<rparr>"

definition demo_start :: "nat \<Rightarrow> script_env tcfg" where
  "demo_start r = \<lparr>tc_task = PlanTask_default\<lparr>pt_send_buf := Mem 0, pt_recv_buf := Mem 8, pt_elem_count := 1,
       pt_chunk_size := 1, pt_dtype := INT32, pt_rank := int r, pt_world_size := 2,
       pt_send_transports := [1], pt_recv_transports := [2]\<rparr>,
     tc_heap = (\<lambda>a. if a = 0 then (if r = 0 then 1 else 2) else 0),
     tc_net = \<lparr>se_incoming = (if r = 0 then [3, 0, 0, 0] else [1, 0, 0, 0]),
               se_limits = (if r = 0 then [4, 0, 4] else [4, 4]), se_trace = []\<rparr>\<rparr>"

definition demo_events :: "nat \<Rightarrow> CollEvent list" where
  "demo_events r = (if r = 0 then [Readable] else [])"

definition demo_end :: "nat \<Rightarrow> script_env tcfg" where
  "demo_end r = the (ring_run script_rt (demo_events r) (demo_start r))"

definition demo_glob :: "(nat \<times> io) list" where
  "demo_glob = [(0, Sent 1 [1, 0, 0, 0]), (1, Rcvd 2 [1, 0, 0, 0]), (0, Rcvd 2 []),
     (1, Sent 1 [3, 0, 0, 0]), (0, Rcvd 2 [3, 0, 0, 0])]"

lemma demo_runs:
  "map_option (\<lambda>c. (se_trace (tc_net c), Ring_CollectiveDone (tc_task c), st_send_done (tc_state c)))
     (ring_run script_rt (demo_events 0) (demo_start 0)) =
   Some ([Sent 1 [1, 0, 0, 0], Rcvd 2 [], Rcvd 2 [3, 0, 0, 0]], True, [True])"
  "map_option (\<lambda>c. (se_trace (tc_net c), Ring_CollectiveDone (tc_task c), st_send_done (tc_state c)))
     (ring_run script_rt (demo_events 1) (demo_start 1)) =
   Some ([Rcvd 2 [1, 0, 0, 0], Sent 1 [3, 0, 0, 0]], True, [True])"
  by code_simp+

end
