(* ===== verification/Occl_Ring_Correct.thy ===== *)
theory Occl_Ring_Correct
  imports Occl_Script
begin

section \<open>Ring AllReduce: the theorems\<close>

text \<open>
  The statements about all ranks of a ring: results, absence of deadlock, and what the result is
  mathematically for the integer types. The run of \<open>Occl_Script\<close> shows that the hypotheses can be met.
\<close>

subsection \<open>Streams along the ring\<close>

text \<open>What rank \<open>r\<close> sends and receives over a whole AllReduce.\<close>

definition ar_stream_out :: "ar_params \<Rightarrow> nat \<Rightarrow> byte list" where
  "ar_stream_out P r = concat (map (ar_out P r) [0..<2 * ar_ops P])"

definition ar_stream_in :: "ar_params \<Rightarrow> nat \<Rightarrow> byte list" where
  "ar_stream_in P r = concat (map (ar_inc P r) [0..<2 * ar_ops P])"

lemma upt_split: "i \<le> j \<Longrightarrow> [0..<j] = [0..<i] @ [i..<j]"
  using upt_add_eq_append [of 0 i "j - i"] by simp

lemma link_mod:
  assumes "r < N" and "s < N - (1::nat)"
  shows "((r + N - 1) mod N + N - s) mod N = (r + N - s - 1) mod N"
    and "((r + N - 1) mod N + N + 1 - s) mod N = (r + N - s) mod N"
proof -
  have "((r + N - 1) mod N + (N - s)) mod N = (r + N - 1 + (N - s)) mod N" by (simp only: mod_add_left_eq)
  also have "r + N - 1 + (N - s) = (r + N - s - 1) + N" using assms by simp
  finally have "((r + N - 1) mod N + (N - s)) mod N = (r + N - s - 1) mod N" by (simp only: mod_add_self2)
  moreover have "(r + N - 1) mod N + N - s = (r + N - 1) mod N + (N - s)" using assms(2) by simp
  ultimately show "((r + N - 1) mod N + N - s) mod N = (r + N - s - 1) mod N" by simp
  have "((r + N - 1) mod N + (N + 1 - s)) mod N = (r + N - 1 + (N + 1 - s)) mod N" by (simp only: mod_add_left_eq)
  also have "r + N - 1 + (N + 1 - s) = (r + N - s) + N" using assms by simp
  finally have "((r + N - 1) mod N + (N + 1 - s)) mod N = (r + N - s) mod N" by (simp only: mod_add_self2)
  moreover have "(r + N - 1) mod N + N + 1 - s = (r + N - 1) mod N + (N + 1 - s)" using assms(2) by simp
  ultimately show "((r + N - 1) mod N + N + 1 - s) mod N = (r + N - s) mod N" by simp
qed

lemma ring_link:
  assumes "ar_ok P" and "r < ap_N P"
  shows "ar_inc P r j = ar_out P ((r + ap_N P - 1) mod ap_N P) j"
proof -
  have "0 < ap_N P - 1" using assms(1) by (simp add: ar_ok_def)
  then have s: "op_step P i < ap_N P - 1" for i by (simp add: op_step_def)
  show ?thesis
    by (simp add: ar_inc_def ar_out_def rs_send_def rs_recv_def ag_send_def ag_recv_def
        link_mod [OF assms(2) s, simplified])
qed

lemma stream_link: "ar_ok P \<Longrightarrow> r < ap_N P \<Longrightarrow> ar_stream_in P r = ar_stream_out P ((r + ap_N P - 1) mod ap_N P)"
proof -
  assume "ar_ok P" and "r < ap_N P"
  then have "ar_inc P r = ar_out P ((r + ap_N P - 1) mod ap_N P)" by (intro ext) (rule ring_link)
  then show ?thesis by (simp add: ar_stream_in_def ar_stream_out_def)
qed

text \<open>What the invariant of a single rank says about its streams and its memory.\<close>

context allreduce_rank
begin

lemma streams: "ex.outs (2 * ar_ops P) = ar_stream_out P r" "ex.ins (2 * ar_ops P) = ar_stream_in P r"
  by (simp_all add: ex.outs_def ex.ins_def ar_stream_out_def ar_stream_in_def)

lemma run_sends:
  assumes "ar_start P r a b stid rtid c" and "h0 = tc_heap c" and "tr c = []" and "ring_run rt evs c = Some c'"
    and "prefix t (tr c')" and "prefix (rcvd_bytes rtid t) (ar_stream_in P r)"
  shows "prefix (sent_bytes stid t) (ar_stream_out P r)"
  using run_inv [OF assms(1-4)] assms(5,6) by (simp add: ex.inv_def ex.sends_ok_def ex.good_def streams)

lemma run_result:
  assumes "ar_start P r a b stid rtid c" and "h0 = tc_heap c" and "tr c = []" and "ring_run rt evs c = Some c'"
    and "prefix (rcvd_bytes rtid (tr c')) (ar_stream_in P r)" and "st_phase (tc_state c') = kPhaseDone"
  shows "tc_heap c' = image_of P b (\<lambda>g. part P g (ap_N P - 1)) h0"
  using lp.finished(1) [of c'] run_inv [OF assms(1-4)] assms(5,6)
  by (simp add: ex.good_def streams ar_final_def core_def)

lemma run_waiting:
  assumes "ar_start P r a b stid rtid c" and "h0 = tc_heap c" and "tr c = []" and "ring_run rt evs c = Some c'"
    and "prefix (rcvd_bytes rtid (tr c')) (ar_stream_in P r)" and "SideDone (st_send_done (tc_state c'))"
  shows "(st_phase (tc_state c') = kPhaseDone \<and> sent_bytes stid (tr c') = ar_stream_out P r) \<or>
    (\<exists>j < 2 * ar_ops P. sent_bytes stid (tr c') = concat (map (ar_out P r) [0..<Suc j]) \<and>
       length (concat (map (ar_inc P r) [0..<j])) \<le> length (rcvd_bytes rtid (tr c')) \<and>
       length (rcvd_bytes rtid (tr c')) < length (concat (map (ar_inc P r) [0..<Suc j])))"
  using lp.waiting [of c'] run_inv [OF assms(1-4)] assms(5,6)
  unfolding ex.good_def streams by (simp only: ex.outs_def ex.ins_def ar_stream_out_def simp_thms)

end

subsection \<open>A ring of ranks running one AllReduce task\<close>

text \<open>
  \<open>c r\<close> is rank \<open>r\<close>'s configuration before \<open>CollectiveInit\<close> and \<open>c' r\<close> the one after the calls that the
  executor of rank \<open>r\<close> has made so far; \<open>glob\<close> interleaves all transport calls of all ranks, over
  reliable FIFO links from each rank to the next.
\<close>

definition ring_execution ::
  "ar_params \<Rightarrow> (nat \<Rightarrow> 'e runtime) \<Rightarrow> (nat \<Rightarrow> 'e \<Rightarrow> io list) \<Rightarrow> (nat \<Rightarrow> nat) \<Rightarrow> (nat \<Rightarrow> nat) \<Rightarrow>
   (nat \<Rightarrow> transport_ref) \<Rightarrow> (nat \<Rightarrow> transport_ref) \<Rightarrow> (nat \<Rightarrow> CollEvent list) \<Rightarrow>
   (nat \<Rightarrow> 'e tcfg) \<Rightarrow> (nat \<Rightarrow> 'e tcfg) \<Rightarrow> (nat \<times> io) list \<Rightarrow> bool" where
  "ring_execution P rt trace a b stid rtid evs c c' glob \<longleftrightarrow>
     ar_ok P \<and>
     (\<forall>r < ap_N P. transport (rt r) (trace r) \<and> rt_fp (rt r) = ap_fp P \<and>
        ar_start P r (a r) (b r) (stid r) (rtid r) (c r) \<and> trace r (tc_net (c r)) = [] \<and>
        ring_run (rt r) (evs r) (c r) = Some (c' r) \<and>
        events_of r glob = trace r (tc_net (c' r))) \<and>
     fifo_ring (ap_N P) stid rtid glob"

lemma execution_rank:
  assumes "ring_execution P rt trace a b stid rtid evs c c' glob" and "r < ap_N P"
  shows "allreduce_rank P r (rt r) (trace r)"
  using assms by (simp add: ring_execution_def allreduce_rank_def allreduce_rank_axioms_def ar_rank_def)

lemma execution_facts:
  assumes "ring_execution P rt trace a b stid rtid evs c c' glob" and "r < ap_N P"
  shows "ar_start P r (a r) (b r) (stid r) (rtid r) (c r)" and "trace r (tc_net (c r)) = []"
    and "ring_run (rt r) (evs r) (c r) = Some (c' r)" and "events_of r glob = trace r (tc_net (c' r))"
    and "ar_ok P" and "fifo_ring (ap_N P) stid rtid glob" and "2 \<le> ap_N P"
  using assms by (simp_all add: ring_execution_def ar_ok_def)

lemma execution_good:
  assumes ex: "ring_execution P rt trace a b stid rtid evs c c' glob" and "r < ap_N P"
  shows "prefix (rcvd_bytes (rtid r) (trace r (tc_net (c' r)))) (ar_stream_in P r)"
proof -
  note f = execution_facts [OF ex]
  have "prefix (rcvd_bytes (rtid r) (events_of r glob)) (ar_stream_in P r)"
  proof (rule ring_all_good [where N = "ap_N P" and OUT = "ar_stream_out P" and IN = "ar_stream_in P" and stid = stid and glob = glob])
    show "prefix (sent_bytes (stid k) t) (ar_stream_out P k)"
      if "k < ap_N P" "prefix t (events_of k glob)" "prefix (rcvd_bytes (rtid k) t) (ar_stream_in P k)" for k t
      using allreduce_rank.run_sends [OF execution_rank [OF ex that(1)] f(1) [OF that(1)] refl f(2,3) [OF that(1)]] that
      by (simp add: f(4))
  qed (use f assms(2) stream_link in auto)
  then show ?thesis using f(4) assms(2) by simp
qed

subsection \<open>The reduction of integers\<close>

lemma rotate_image: "0 < N \<Longrightarrow> (\<lambda>e. (g + e) mod N) ` {..<N} = {..<(N::nat)}"
proof (intro equalityI subsetI)
  fix y assume "0 < N" and y: "y \<in> {..<N}"
  let ?x = "(y + (N - g mod N)) mod N"
  have "(g + ?x) mod N = (g mod N + (y + (N - g mod N))) mod N" by (simp add: mod_add_left_eq mod_add_right_eq)
  also have "g mod N + (y + (N - g mod N)) = y + N"
    using mod_less_divisor [OF \<open>0 < N\<close>, of g] by linarith
  finally have "(g + ?x) mod N = y" using y by simp
  then show "y \<in> (\<lambda>e. (g + e) mod N) ` {..<N}" using \<open>0 < N\<close> by (intro image_eqI [of _ _ ?x]) simp_all
qed auto

lemma sum_rotate: "0 < N \<Longrightarrow> (\<Sum>e<N. f ((g + e) mod N)) = (\<Sum>q<(N::nat). f q)"
proof -
  assume "0 < N"
  note img = rotate_image [OF this, of g]
  have "inj_on (\<lambda>e. (g + e) mod N) {..<N}" by (rule finite_surj_inj) (simp_all add: img)
  then show ?thesis using sum.reindex [of "\<lambda>e. (g + e) mod N" "{..<N}" f] by (simp add: img comp_def)
qed

context ar_rank
begin

text \<open>Element \<open>i\<close> of rank \<open>q\<close>'s chunk \<open>g\<close>, for 32-bit integers.\<close>

definition elt :: "nat \<Rightarrow> nat \<Rightarrow> nat \<Rightarrow> 32 word" where
  "elt g i q = elems32 (csize P g) (chunk_of P q g) ! i"

lemma part_fold:
  assumes "ap_dtype P = INT32" and "i < csize P g" and "d < ap_N P - 1 \<or> ap_op P \<noteq> OpAvg"
  shows "elems32 (csize P g) (part P g d) ! i =
    foldl (reduce_elem int_ops (sum_for_avg (ap_op P))) (elt g i (g mod ap_N P))
      (map (\<lambda>e. elt g i ((g + e) mod ap_N P)) [1..<Suc d])"
  using assms(3)
proof (induction d)
  case (Suc d)
  then have IH: "elems32 (csize P g) (part P g d) ! i =
    foldl (reduce_elem int_ops (sum_for_avg (ap_op P))) (elt g i (g mod ap_N P))
      (map (\<lambda>e. elt g i ((g + e) mod ap_N P)) [1..<Suc d])" by auto
  have "\<not> (ap_op P = OpAvg \<and> Suc d = ap_N P - 1)" using Suc.prems by auto
  then have "part P g (Suc d) = PerformReduce (ap_fp P) (part P g d) (chunk_of P ((g + Suc d) mod ap_N P) g) (csize P g)
                (ap_dtype P) (sum_for_avg (ap_op P))" by (auto simp: Let_def)
  then show ?case
    using assms(1,2) IH
    by (simp add: elems32_PerformReduce_INT32 elt_def del: part.simps PerformReduce.simps)
qed (simp add: elt_def)

lemma ranks_list: "elt g i (g mod ap_N P) # map (\<lambda>e. elt g i ((g + e) mod ap_N P)) [1..<ap_N P] =
    map (\<lambda>e. elt g i ((g + e) mod ap_N P)) [0..<ap_N P]"
  using N_pos by (simp add: upt_conv_Cons [of 0])

lemma sum_ranks:
  "elt g i (g mod ap_N P) + sum_list (map (\<lambda>e. elt g i ((g + e) mod ap_N P)) [1..<ap_N P]) = (\<Sum>q<ap_N P. elt g i q)"
proof -
  have "elt g i (g mod ap_N P) + sum_list (map (\<lambda>e. elt g i ((g + e) mod ap_N P)) [1..<ap_N P]) =
      sum_list (map (\<lambda>e. elt g i ((g + e) mod ap_N P)) [0..<ap_N P])"
    by (subst ranks_list [symmetric]) simp
  also have "\<dots> = (\<Sum>e<ap_N P. elt g i ((g + e) mod ap_N P))"
    by (simp add: interv_sum_list_conv_sum_set_nat atLeast0LessThan)
  also have "\<dots> = (\<Sum>q<ap_N P. elt g i q)" using N_pos by (intro sum_rotate)
  finally show ?thesis .
qed

lemma set_ranks:
  "set (elt g i (g mod ap_N P) # map (\<lambda>e. elt g i ((g + e) mod ap_N P)) [1..<ap_N P]) = elt g i ` {..<ap_N P}"
proof -
  have "(\<lambda>e. elt g i ((g + e) mod ap_N P)) ` {..<ap_N P} = elt g i ` ((\<lambda>e. (g + e) mod ap_N P) ` {..<ap_N P})"
    by (simp add: image_comp comp_def)
  then show ?thesis using N_pos by (simp only: ranks_list set_map set_upt atLeast0LessThan rotate_image)
qed

lemma part_elem:
  assumes "ap_dtype P = INT32" and "i < csize P g"
  shows "ap_op P = OpSum \<Longrightarrow> elems32 (csize P g) (part P g (ap_N P - 1)) ! i = (\<Sum>q<ap_N P. elt g i q)"
    and "ap_op P = OpMax \<Longrightarrow> sint (elems32 (csize P g) (part P g (ap_N P - 1)) ! i) = Max ((\<lambda>q. sint (elt g i q)) ` {..<ap_N P})"
    and "ap_op P = OpMin \<Longrightarrow> sint (elems32 (csize P g) (part P g (ap_N P - 1)) ! i) = Min ((\<lambda>q. sint (elt g i q)) ` {..<ap_N P})"
    and "ap_op P = OpAvg \<Longrightarrow> elems32 (csize P g) (part P g (ap_N P - 1)) ! i =
           int_div_elem (int (ap_N P)) (\<Sum>q<ap_N P. elt g i q)"
proof -
  have N: "Suc (ap_N P - 1) = ap_N P" using N_pos by simp
  note fold = part_fold [OF assms, of "ap_N P - 1", unfolded N]
  show "ap_op P = OpSum \<Longrightarrow> elems32 (csize P g) (part P g (ap_N P - 1)) ! i = (\<Sum>q<ap_N P. elt g i q)"
    using fold sum_ranks [of g i] by (simp add: foldl_reduce_sum sum_for_avg_def)
  show "ap_op P = OpMax \<Longrightarrow> sint (elems32 (csize P g) (part P g (ap_N P - 1)) ! i) = Max ((\<lambda>q. sint (elt g i q)) ` {..<ap_N P})"
    using fold set_ranks [of g i] by (simp add: sint_foldl_reduce_max sum_for_avg_def image_comp comp_def del: image_insert)
  show "ap_op P = OpMin \<Longrightarrow> sint (elems32 (csize P g) (part P g (ap_N P - 1)) ! i) = Min ((\<lambda>q. sint (elt g i q)) ` {..<ap_N P})"
    using fold set_ranks [of g i] by (simp add: sint_foldl_reduce_min sum_for_avg_def image_comp comp_def del: image_insert)
  assume avg: "ap_op P = OpAvg"
  obtain d where d: "ap_N P - 1 = Suc d" using N_pos by (cases "ap_N P - 1") auto
  let ?n = "csize P g"
  let ?y = "PerformReduce (ap_fp P) (part P g d) (chunk_of P ((g + Suc d) mod ap_N P) g) ?n INT32 OpSum"
  have part: "part P g (ap_N P - 1) = ApplyAverage (ap_fp P) ?y ?n INT32 (int (ap_N P))"
    unfolding d using avg d assms(1) by (simp add: Let_def sum_for_avg_def)
  have "ap_N P = Suc (Suc d)" using d N by simp
  then have ranks: "[1..<ap_N P] = [1..<Suc d] @ [Suc d]" by simp
  have "elems32 ?n (part P g d) ! i + elt g i ((g + Suc d) mod ap_N P) = (\<Sum>q<ap_N P. elt g i q)"
    using part_fold [OF assms, of d] d sum_ranks [of g i]
    by (simp add: avg sum_for_avg_def foldl_reduce_sum ranks add.assoc del: upt_Suc One_nat_def)
  then have "elems32 ?n ?y ! i = (\<Sum>q<ap_N P. elt g i q)"
    using assms(2) by (simp add: elems32_PerformReduce_INT32 int_ops_def elt_def add.commute del: PerformReduce.simps)
  then show "elems32 ?n (part P g (ap_N P - 1)) ! i = int_div_elem (int (ap_N P)) (\<Sum>q<ap_N P. elt g i q)"
    unfolding part using N_pos assms(2) elems32_bytes32 [of "map (int_div_elem (int (ap_N P))) (elems32 ?n ?y)"]
    by (simp del: PerformReduce.simps elems32_bytes32)
qed

end

text \<open>The 32-bit integer with index \<open>k\<close> of a buffer.\<close>

definition int32_at :: "byte list \<Rightarrow> nat \<Rightarrow> 32 word" where
  "int32_at bs k = un_le32 (take 4 (drop (4 * k) bs))"

lemma heap_load_sub: "k + m \<le> n \<Longrightarrow> take m (drop k (heap_load h a n)) = heap_load h (a + k) m"
  by (rule nth_equalityI) (simp_all add: add.assoc)

lemma elems32_nth: "i < n \<Longrightarrow> elems32 n bs ! i = int32_at bs i"
  by (simp add: elems32_def nth_groups int32_at_def mult.commute)

context ar_rank
begin

lemma element_chunk:
  assumes "k < ap_E P" and "ap_dtype P = INT32"
  shows "k mod ap_K P < csize P (k div ap_K P)"
    and "elt (k div ap_K P) (k mod ap_K P) q = int32_at (ap_X P q) k"
    and "int32_at (heap_load (image_of P b (\<lambda>g. part P g (ap_N P - 1)) h0) b (4 * ap_E P)) k =
         elems32 (csize P (k div ap_K P)) (part P (k div ap_K P) (ap_N P - 1)) ! (k mod ap_K P)"
proof -
  let ?g = "k div ap_K P" and ?i = "k mod ap_K P"
  have t: "ts P = 4" using assms(2) by simp
  have k: "k = ?g * ap_K P + ?i" by simp
  then have lt: "?g * ap_K P < ap_E P" and i: "?i < ap_K P" "?i < ap_E P - ?g * ap_K P"
    using assms(1) ts_pos(2) by (linarith, simp, linarith)
  then show less: "?i < csize P ?g" by (simp add: csize_def)
  have "4 * (k div ap_K P * ap_K P + k mod ap_K P) = 4 * k" by (simp only: div_mult_mod_eq)
  then have pos: "?g * cw P + 4 * ?i = 4 * k"
    by (simp only: cw_def t distrib_left mult.assoc mult.commute [of "ap_K P" 4] mult.left_commute [of "k div ap_K P" 4])
  have room: "4 * ?i + 4 \<le> csize P ?g * 4" using less by simp
  have "take 4 (drop (4 * ?i) (chunk_of P q ?g)) = take 4 (drop (4 * k) (ap_X P q))"
    using room pos by (simp add: chunk_of_def t drop_take take_take add.commute)
  then show "elt ?g ?i q = int32_at (ap_X P q) k"
    using less by (simp add: elt_def elems32_nth int32_at_def)
  let ?h = "image_of P b (\<lambda>g. part P g (ap_N P - 1)) h0"
  have "heap_load ?h (b + ?g * cw P) (csize P ?g * 4) = part P ?g (ap_N P - 1)"
    using load_image [of "\<lambda>g. part P g (ap_N P - 1)" ?g P b h0] by (simp add: t)
  then have "take 4 (drop (4 * ?i) (part P ?g (ap_N P - 1))) = heap_load ?h (b + 4 * k) 4"
    using heap_load_sub [OF room, of ?h "b + ?g * cw P"] pos by (simp add: add.assoc)
  moreover have "take 4 (drop (4 * k) (heap_load ?h b (4 * ap_E P))) = heap_load ?h (b + 4 * k) 4"
    using assms(1) by (intro heap_load_sub) simp
  ultimately show "int32_at (heap_load ?h b (4 * ap_E P)) k = elems32 (csize P ?g) (part P ?g (ap_N P - 1)) ! ?i"
    using less by (simp add: elems32_nth int32_at_def)
qed

end

subsection \<open>The run of two ranks\<close>

lemma less_two: "r < 2 \<longleftrightarrow> r = 0 \<or> r = (1::nat)"
  by auto

lemma demo_ends:
  assumes "r < 2"
  shows "ring_run script_rt (demo_events r) (demo_start r) = Some (demo_end r)"
    and "se_trace (tc_net (demo_end r)) = events_of r demo_glob"
    and "Ring_CollectiveDone (tc_task (demo_end r))" and "SideDone (st_send_done (tc_state (demo_end r)))"
  using assms demo_runs
  by (auto simp: less_two demo_end_def demo_glob_def events_of_def SideDone_def map_option_case split: option.splits)

lemma demo_fifo: "fifo_ring 2 (\<lambda>_. 1) (\<lambda>_. 2) demo_glob"
proof -
  have "\<forall>g' \<in> set (prefixes demo_glob). \<forall>r \<in> set [0, 1].
     prefix (rcvd_bytes 2 (events_of r g')) (sent_bytes 1 (events_of ((r + 2 - 1) mod 2) g'))"
    unfolding demo_glob_def by code_simp
  then show ?thesis by (auto simp: fifo_ring_def less_two)
qed

lemma demo_execution:
  "ring_execution demo_params (\<lambda>_. script_rt) (\<lambda>_. se_trace) (\<lambda>_. 0) (\<lambda>_. 8) (\<lambda>_. 1) (\<lambda>_. 2) demo_events demo_start demo_end demo_glob"
proof -
  have "ar_start demo_params r 0 8 1 2 (demo_start r)" if "r < 2" for r
    using that by (auto simp: ar_start_def ar_static_def demo_params_def demo_start_def PlanTask_default_def less_two
        heap_load_def upt_rec numeral_eq_Suc)
  moreover have "ar_ok demo_params" by (simp add: ar_ok_def demo_params_def ar_units_def INT_MAX_def)
  moreover have "rt_fp script_rt = ap_fp demo_params" by (simp add: script_rt_def demo_params_def)
  ultimately show ?thesis
    unfolding ring_execution_def using demo_ends demo_fifo script.transport_axioms
    by (simp add: demo_params_def demo_start_def)
qed

interpretation demo_rank0: allreduce_rank demo_params 0 script_rt se_trace 1 2 8 "tc_heap (demo_start 0)"
  using execution_rank [OF demo_execution, of 0] by (simp add: demo_params_def)

subsection \<open>Properties\<close>

text \<open>
  C1. Functional correctness of ring AllReduce. Take any execution of the task on all ranks: any
  number of \<open>CollectiveStep\<close> calls with any events on each rank, any splitting of the transfers by the
  transports, any interleaving over FIFO links. A rank that reports \<open>CollectiveDone\<close> holds in every
  chunk of \<open>recv_buf\<close> the complete reduction in ring order of all ranks' inputs (averaged for AVG),
  bit for bit also for floating point types, and no memory outside \<open>recv_buf\<close> has changed.
\<close>

theorem ring_allreduce_correct:
  assumes ex: "ring_execution P rt trace a b stid rtid evs c c' glob" and r: "r < ap_N P"
    and fin: "Ring_CollectiveDone (tc_task (c' r))"
  shows "(\<forall>g. heap_load (tc_heap (c' r)) (b r + g * cw P) (csize P g * ts P) = part P g (ap_N P - 1)) \<and>
         (\<forall>x. x < b r \<or> b r + ap_E P * ts P \<le> x \<longrightarrow> tc_heap (c' r) x = tc_heap (c r) x)"
proof -
  note rank = execution_rank [OF ex r] and f = execution_facts [OF ex r]
  have heap: "tc_heap (c' r) = image_of P (b r) (\<lambda>g. part P g (ap_N P - 1)) (tc_heap (c r))"
    using allreduce_rank.run_result [OF rank f(1) refl f(2,3) execution_good [OF ex r]] fin
    by (simp add: Ring_CollectiveDone_def)
  have "length (part P g (ap_N P - 1)) = csize P g * ts P" for g
    using rank by (intro ar_rank.length_part [of P r]) (simp add: allreduce_rank_def)
  then have "heap_load (tc_heap (c' r)) (b r + g * cw P) (csize P g * ts P) = part P g (ap_N P - 1)" for g
    unfolding heap by (rule load_image)
  moreover have "tc_heap (c' r) x = tc_heap (c r) x" if "x < b r \<or> b r + ap_E P * ts P \<le> x" for x
    unfolding heap image_of_def using that by (intro if_not_P) linarith
  ultimately show ?thesis by blast
qed

theorem ring_allreduce_correct_witness:
  "heap_load (tc_heap (demo_end 0)) 8 4 = [3, 0, 0, 0] \<and> tc_heap (demo_end 0) 0 = 1"
proof -
  have "part demo_params 0 1 = [3, 0, 0, 0]" by code_simp
  moreover have "tc_heap (demo_start 0) 0 = 1" by (simp add: demo_start_def)
  moreover have "csize demo_params 0 = 1" by (simp add: csize_def demo_params_def)
  ultimately show ?thesis
    using ring_allreduce_correct [OF demo_execution, of 0] demo_ends(3) [of 0]
    by (auto simp: demo_params_def dest: spec [of _ 0])
qed

text \<open>
  C2. Ring AllReduce on 32-bit integers, element by element: on a finished rank element \<open>k\<close> of
  \<open>recv_buf\<close> is the sum of the ranks' elements \<open>k\<close> (modulo \<open>2 ^ 32\<close>), their signed maximum or minimum,
  or the truncated quotient of the sum by the number of ranks, as the operation says.
\<close>

theorem ring_allreduce_int32:
  assumes ex: "ring_execution P rt trace a b stid rtid evs c c' glob" and r: "r < ap_N P"
    and fin: "Ring_CollectiveDone (tc_task (c' r))" and ty: "ap_dtype P = INT32" and k: "k < ap_E P"
  shows "let y = int32_at (heap_load (tc_heap (c' r)) (b r) (4 * ap_E P)) k;
             x = (\<lambda>q. int32_at (heap_load (tc_heap (c q)) (a q) (4 * ap_E P)) k)
         in (ap_op P = OpSum \<longrightarrow> y = (\<Sum>q<ap_N P. x q)) \<and>
            (ap_op P = OpMax \<longrightarrow> sint y = Max ((\<lambda>q. sint (x q)) ` {..<ap_N P})) \<and>
            (ap_op P = OpMin \<longrightarrow> sint y = Min ((\<lambda>q. sint (x q)) ` {..<ap_N P})) \<and>
            (ap_op P = OpAvg \<longrightarrow> y = int_div_elem (int (ap_N P)) (\<Sum>q<ap_N P. x q))"
proof -
  note rank = execution_rank [OF ex r] and f = execution_facts [OF ex r]
  have ar: "ar_rank P r" using rank by (simp add: allreduce_rank_def)
  have heap: "tc_heap (c' r) = image_of P (b r) (\<lambda>g. part P g (ap_N P - 1)) (tc_heap (c r))"
    using allreduce_rank.run_result [OF rank f(1) refl f(2,3) execution_good [OF ex r]] fin
    by (simp add: Ring_CollectiveDone_def)
  let ?g = "k div ap_K P" and ?i = "k mod ap_K P"
  note e = ar_rank.element_chunk [OF ar k ty]
  have x: "int32_at (heap_load (tc_heap (c q)) (a q) (4 * ap_E P)) k = ar_rank.elt P ?g ?i q" if "q < ap_N P" for q
    using execution_facts(1) [OF ex that] e(2) [of q] ty by (simp add: ar_start_def mult.commute)
  have sum: "(\<Sum>q<ap_N P. int32_at (heap_load (tc_heap (c q)) (a q) (4 * ap_E P)) k) = (\<Sum>q<ap_N P. ar_rank.elt P ?g ?i q)"
    using x by (intro sum.cong) simp_all
  have img: "(\<lambda>q. sint (int32_at (heap_load (tc_heap (c q)) (a q) (4 * ap_E P)) k)) ` {..<ap_N P} =
      (\<lambda>q. sint (ar_rank.elt P ?g ?i q)) ` {..<ap_N P}"
    using x by (intro image_cong) simp_all
  show ?thesis
    unfolding heap Let_def e(3) sum img using ar_rank.part_elem [OF ar ty e(1)] by blast
qed

theorem ring_allreduce_int32_witness:
  "int32_at (heap_load (tc_heap (demo_end 1)) 8 4) 0 = 3"
proof -
  have "int32_at (heap_load (tc_heap (demo_start 0)) 0 4) 0 = 1" "int32_at (heap_load (tc_heap (demo_start 1)) 0 4) 0 = 2"
    by code_simp+
  then show ?thesis
    using ring_allreduce_int32 [OF demo_execution, of 1 0] demo_ends(3) [of 1]
    by (simp add: demo_params_def Let_def lessThan_nat_numeral lessThan_Suc numeral_2_eq_2)
qed

text \<open>
  C3. Ring AllReduce cannot deadlock: if every rank has pushed out what its current operation sends
  and nothing is left in flight on any link, then every rank is done. So as long as some rank is not
  done, some rank can still send, or some rank has bytes to read.
\<close>

theorem ring_allreduce_no_deadlock:
  assumes ex: "ring_execution P rt trace a b stid rtid evs c c' glob"
    and sent: "\<forall>r < ap_N P. SideDone (st_send_done (tc_state (c' r)))"
    and drained: "\<forall>r < ap_N P. rcvd_bytes (rtid r) (trace r (tc_net (c' r))) =
        sent_bytes (stid ((r + ap_N P - 1) mod ap_N P))
          (trace ((r + ap_N P - 1) mod ap_N P) (tc_net (c' ((r + ap_N P - 1) mod ap_N P))))"
  shows "\<forall>r < ap_N P. Ring_CollectiveDone (tc_task (c' r))"
proof (rule ccontr)
  assume not_all: "\<not> ?thesis"
  let ?J = "2 * ar_ops P" and ?snt = "\<lambda>r. sent_bytes (stid r) (trace r (tc_net (c' r)))"
  let ?rcv = "\<lambda>r. rcvd_bytes (rtid r) (trace r (tc_net (c' r)))"
  let ?at = "\<lambda>r j. j < ?J \<and> ?snt r = concat (map (ar_out P r) [0..<Suc j]) \<and>
      length (?rcv r) < length (concat (map (ar_inc P r) [0..<Suc j]))"
  have cases: "(Ring_CollectiveDone (tc_task (c' r)) \<and> ?snt r = ar_stream_out P r) \<or> (\<exists>j. ?at r j)" if "r < ap_N P" for r
    using allreduce_rank.run_waiting [OF execution_rank [OF ex that] execution_facts(1) [OF ex that] refl
        execution_facts(2,3) [OF ex that] execution_good [OF ex that]] sent that
    unfolding Ring_CollectiveDone_def by blast
  define stuck where "stuck = (\<lambda>j. \<exists>r < ap_N P. ?at r j)"
  from not_all obtain q where q: "q < ap_N P" "\<not> Ring_CollectiveDone (tc_task (c' q))" by blast
  with cases [OF q(1)] have "\<exists>j. stuck j" unfolding stuck_def by blast
  then have "stuck (LEAST j. stuck j)" by (rule LeastI_ex)
  then obtain r where r: "r < ap_N P" and at: "?at r (LEAST j. stuck j)" by (auto simp: stuck_def)
  define j where "j = (LEAST j. stuck j)"
  let ?p = "(r + ap_N P - 1) mod ap_N P"
  have p: "?p < ap_N P" using r by simp
  have link: "ar_inc P r = ar_out P ?p" using execution_facts(5) [OF ex r] r by (intro ext) (rule ring_link)
  have "length (concat (map (ar_out P ?p) [0..<Suc j])) \<le> length (?snt ?p)"
    using cases [OF p]
  proof (elim disjE exE)
    assume "Ring_CollectiveDone (tc_task (c' ?p)) \<and> ?snt ?p = ar_stream_out P ?p"
    moreover have "[0..<?J] = [0..<Suc j] @ [Suc j..<?J]" using at upt_split [of "Suc j" ?J] by (simp add: j_def del: upt_Suc)
    ultimately show ?thesis by (simp add: ar_stream_out_def del: upt_Suc)
  next
    fix i assume i: "?at ?p i"
    then have "stuck i" using p by (auto simp: stuck_def)
    then have "j \<le> i" unfolding j_def by (rule Least_le)
    then have "[0..<Suc i] = [0..<Suc j] @ [Suc j..<Suc i]" by (intro upt_split) simp
    then show ?thesis using i by (simp del: upt_Suc)
  qed
  moreover have "?rcv r = ?snt ?p" using drained r by blast
  ultimately show False using at link by (simp add: j_def del: upt_Suc)
qed

theorem ring_allreduce_no_deadlock_witness:
  "Ring_CollectiveDone (tc_task (demo_end 0)) \<and> Ring_CollectiveDone (tc_task (demo_end 1))"
proof -
  have "\<forall>r < 2. rcvd_bytes 2 (events_of r demo_glob) = sent_bytes 1 (events_of ((r + 2 - 1) mod 2) demo_glob)"
    by (simp add: less_two demo_glob_def events_of_def)
  then show ?thesis
    using ring_allreduce_no_deadlock [OF demo_execution] demo_ends(2,4)
    by (auto simp: demo_params_def less_two)
qed

end
