(* ===== verification/Occl_Shm.thy ===== *)
theory Occl_Shm
  imports Occl_Exchange
begin

section \<open>The shared-memory transport: data plane\<close>

text \<open>
  \<open>src/transport/transport_shm.cpp\<close>: a single-producer single-consumer byte ring in a mapped file, with
  free-running 64-bit cursors \<open>head\<close> and \<open>tail\<close> and two eventfds. The producer owns \<open>head\<close>, the ring
  bytes it has not published and its copy \<open>cached_tail\<close>; the consumer owns \<open>tail\<close> and \<open>cached_head\<close>.

  An endpoint runs concurrently with its peer. The only reads of the peer's cursor are the two acquire
  loads, so a call is modelled together with what the peer does before each of them: \<open>sc_peer\<close> is
  that schedule. Whatever the peer does, it does not write the cursor that this side owns.
\<close>

definition kShmRingCapacity :: nat where
  "kShmRingCapacity = 2097152"

lemma capacity_pos: "0 < kShmRingCapacity"
  by (simp add: kShmRingCapacity_def)

record ShmRing =
  sr_head :: "64 word"
  sr_tail :: "64 word"
  sr_data :: heap
  sr_data_ready :: nat
  sr_space_ready :: nat

record ShmEnd =
  sh_direction :: TransportDirection
  sh_connected :: bool
  sh_wait_mode :: TransportWaitMode
  sh_cached_tail :: "64 word"
  sh_cached_head :: "64 word"

record shm_cfg =
  sc_end :: ShmEnd
  sc_ring :: ShmRing
  sc_peer :: "(ShmRing \<Rightarrow> ShmRing) list"

definition IsProducer :: "ShmEnd \<Rightarrow> bool" where
  "IsProducer e \<longleftrightarrow> sh_direction e = DirSend"

subsection \<open>Event counters\<close>

definition Drain_space :: "shm_cfg \<Rightarrow> shm_cfg" where
  "Drain_space c = c\<lparr>sc_ring := (sc_ring c)\<lparr>sr_space_ready := 0\<rparr>\<rparr>"

definition Drain_data :: "shm_cfg \<Rightarrow> shm_cfg" where
  "Drain_data c = c\<lparr>sc_ring := (sc_ring c)\<lparr>sr_data_ready := 0\<rparr>\<rparr>"

definition Notify_data :: "shm_cfg \<Rightarrow> shm_cfg" where
  "Notify_data c = c\<lparr>sc_ring := (sc_ring c)\<lparr>sr_data_ready := sr_data_ready (sc_ring c) + 1\<rparr>\<rparr>"

definition Notify_space :: "shm_cfg \<Rightarrow> shm_cfg" where
  "Notify_space c = c\<lparr>sc_ring := (sc_ring c)\<lparr>sr_space_ready := sr_space_ready (sc_ring c) + 1\<rparr>\<rparr>"

subsection \<open>The producer\<close>

text \<open>The acquire load of \<open>tail\<close> into \<open>cached_tail\<close>, after the consumer's next moves.\<close>

definition consumer_acts :: "(ShmRing \<Rightarrow> ShmRing) \<Rightarrow> ShmRing \<Rightarrow> ShmRing" where
  "consumer_acts f r = (f r)\<lparr>sr_head := sr_head r, sr_data := sr_data r\<rparr>"

definition load_tail :: "shm_cfg \<Rightarrow> shm_cfg" where
  "load_tail c =
     (let c1 = (case sc_peer c of [] \<Rightarrow> c
                | f # fs \<Rightarrow> c\<lparr>sc_ring := consumer_acts f (sc_ring c), sc_peer := fs\<rparr>)
      in c1\<lparr>sc_end := (sc_end c1)\<lparr>sh_cached_tail := sr_tail (sc_ring c1)\<rparr>\<rparr>)"

definition room_for :: "64 word \<Rightarrow> shm_cfg \<Rightarrow> 64 word" where
  "room_for head c = word_of_nat kShmRingCapacity - (head - sh_cached_tail (sc_end c))"

definition ring_offset :: "64 word \<Rightarrow> nat" where
  "ring_offset cursor = unat cursor mod kShmRingCapacity"

definition ring_write :: "64 word \<Rightarrow> byte list \<Rightarrow> ShmRing \<Rightarrow> ShmRing" where
  "ring_write head bs r = r\<lparr>sr_data := heap_store (ring_offset head) bs (sr_data r)\<rparr>"

definition Produce :: "byte list \<Rightarrow> nat \<Rightarrow> shm_cfg \<Rightarrow> nat \<times> shm_cfg" where
  "Produce data progress c =
     (let head = sr_head (sc_ring c);
          c1 = (if room_for head c = 0 then load_tail c else c);
          room = room_for head c1 in
      if room = 0 then (0, c1)
      else
        let offset = ring_offset head;
            chunk = min (unat room) (min (length data - progress) (kShmRingCapacity - offset));
            r = ring_write head (take chunk (drop progress data)) (sc_ring c1)
        in (chunk, c1\<lparr>sc_ring := r\<lparr>sr_head := head + word_of_nat chunk\<rparr>\<rparr>))"

definition SpaceAvailable :: "shm_cfg \<Rightarrow> 64 word \<times> shm_cfg" where
  "SpaceAvailable c =
     (let head = sr_head (sc_ring c);
          c1 = (if room_for head c = 0 then load_tail c else c)
      in (room_for head c1, c1))"

text \<open>What a load leaves alone.\<close>

lemma load_tail_frame [simp]:
  "sr_head (sc_ring (load_tail c)) = sr_head (sc_ring c)" "sr_data (sc_ring (load_tail c)) = sr_data (sc_ring c)"
  "sh_wait_mode (sc_end (load_tail c)) = sh_wait_mode (sc_end c)"
  "sh_direction (sc_end (load_tail c)) = sh_direction (sc_end c)"
  "sh_connected (sc_end (load_tail c)) = sh_connected (sc_end c)"
  "sh_cached_head (sc_end (load_tail c)) = sh_cached_head (sc_end c)"
  by (simp_all add: load_tail_def consumer_acts_def Let_def split: list.splits)

lemma room_for_drain [simp]: "room_for h (Drain_space c) = room_for h c"
  by (simp add: room_for_def Drain_space_def)

lemma drain_head [simp]: "sr_head (sc_ring (Drain_space c)) = sr_head (sc_ring c)"
  by (simp add: Drain_space_def)

lemma Produce_chunk_le: "Produce data p c = (n, c') \<Longrightarrow> n \<le> length data - p"
  by (auto simp: Produce_def Let_def split: if_splits)

lemma offset_less: "ring_offset x < kShmRingCapacity"
  by (simp add: ring_offset_def capacity_pos)

lemma offset_not_full: "\<not> kShmRingCapacity \<le> ring_offset x"
  using offset_less [of x] by simp

text \<open>A zero chunk means that the ring was full and is still full after reloading \<open>tail\<close>.\<close>

lemma Produce_zero:
  assumes "Produce data p c = (0, c')" and "p < length data"
  shows "room_for (sr_head (sc_ring c)) c = 0" and "c' = load_tail c"
    and "room_for (sr_head (sc_ring c)) c' = 0"
proof -
  have "room_for (sr_head (sc_ring c)) c = 0 \<and> c' = load_tail c \<and> room_for (sr_head (sc_ring c)) c' = 0"
    using assms unfolding Produce_def Let_def
    by (auto simp: min_def unat_eq_0 offset_not_full split: if_splits)
  then show "room_for (sr_head (sc_ring c)) c = 0" "c' = load_tail c" "room_for (sr_head (sc_ring c)) c' = 0"
    by blast+
qed

text \<open>The loop of \<open>TrySend\<close>: progress, bytes moved by this call, configuration.\<close>

function trysend_loop :: "byte list \<Rightarrow> nat \<Rightarrow> nat \<Rightarrow> shm_cfg \<Rightarrow> nat \<times> nat \<times> shm_cfg" where
  "trysend_loop data progress moved c =
     (if progress < length data then
        (case Produce data progress c of
           (chunk, c1) \<Rightarrow>
             if chunk > 0 then trysend_loop data (progress + chunk) (moved + chunk) c1
             else if sh_wait_mode (sc_end c1) = EventDriven then
               (case SpaceAvailable (Drain_space c1) of
                  (room, c2) \<Rightarrow> if room = 0 then (progress, moved, c2) else trysend_loop data progress moved c2)
             else (progress, moved, c1))
      else (progress, moved, c))"
  by pat_completeness auto
termination
proof (relation "(\<lambda>(data, p, m, c). length data - p) <*mlex*>
    measure (\<lambda>(data, p, m, c). if room_for (sr_head (sc_ring c)) c = 0 then 1 else 0)", goal_cases)
  case (2 data p m c chunk c1)
  then have "length data - (p + chunk) < length data - p" by simp
  then show ?case by (simp add: mlex_prod_def)
next
  case (3 data p m c chunk c1 room c2)
  then have z: "Produce data p c = (0, c1)" by simp
  note pz = Produce_zero [OF z 3(1)]
  have "room_for (sr_head (sc_ring c)) c2 \<noteq> 0 \<and> sr_head (sc_ring c2) = sr_head (sc_ring c)"
    using 3 pz(2) by (auto simp: SpaceAvailable_def Let_def split: if_splits)
  then show ?case using pz(1) by (simp add: mlex_prod_def)
qed (simp add: wf_mlex)

declare trysend_loop.simps [simp del]

definition Shm_TrySend :: "byte list \<Rightarrow> nat \<Rightarrow> shm_cfg \<Rightarrow> (nat \<times> bool \<times> shm_cfg) option" where
  "Shm_TrySend data progress c =
     (if \<not> sh_connected (sc_end c) \<or> \<not> IsProducer (sc_end c) then None
      else (case trysend_loop data progress 0 c of
              (p, moved, c1) \<Rightarrow>
                Some (p, p = length data,
                      if moved > 0 \<and> sh_wait_mode (sc_end c1) = EventDriven then Notify_data c1 else c1)))"

subsection \<open>The consumer\<close>

text \<open>The acquire load of \<open>head\<close> into \<open>cached_head\<close>, after the producer's next moves.\<close>

definition producer_acts :: "(ShmRing \<Rightarrow> ShmRing) \<Rightarrow> ShmRing \<Rightarrow> ShmRing" where
  "producer_acts f r = (f r)\<lparr>sr_tail := sr_tail r\<rparr>"

definition load_head :: "shm_cfg \<Rightarrow> shm_cfg" where
  "load_head c =
     (let c1 = (case sc_peer c of [] \<Rightarrow> c
                | f # fs \<Rightarrow> c\<lparr>sc_ring := producer_acts f (sc_ring c), sc_peer := fs\<rparr>)
      in c1\<lparr>sc_end := (sc_end c1)\<lparr>sh_cached_head := sr_head (sc_ring c1)\<rparr>\<rparr>)"

definition avail_from :: "64 word \<Rightarrow> shm_cfg \<Rightarrow> 64 word" where
  "avail_from tail c = sh_cached_head (sc_end c) - tail"

text \<open>\<open>Consume\<close> returns the bytes that it stores at \<open>data + progress\<close>.\<close>

definition Consume :: "nat \<Rightarrow> nat \<Rightarrow> shm_cfg \<Rightarrow> byte list \<times> shm_cfg" where
  "Consume sz progress c =
     (let tail = sr_tail (sc_ring c);
          c1 = (if avail_from tail c = 0 then load_head c else c);
          available = avail_from tail c1 in
      if available = 0 then ([], c1)
      else
        let offset = ring_offset tail;
            chunk = min (unat available) (min (sz - progress) (kShmRingCapacity - offset));
            bs = heap_load (sr_data (sc_ring c1)) offset chunk
        in (bs, c1\<lparr>sc_ring := (sc_ring c1)\<lparr>sr_tail := tail + word_of_nat chunk\<rparr>\<rparr>))"

definition DataAvailable :: "shm_cfg \<Rightarrow> 64 word \<times> shm_cfg" where
  "DataAvailable c =
     (let tail = sr_tail (sc_ring c);
          c1 = (if avail_from tail c = 0 then load_head c else c)
      in (avail_from tail c1, c1))"

lemma load_head_frame [simp]:
  "sr_tail (sc_ring (load_head c)) = sr_tail (sc_ring c)"
  "sh_wait_mode (sc_end (load_head c)) = sh_wait_mode (sc_end c)"
  "sh_direction (sc_end (load_head c)) = sh_direction (sc_end c)"
  "sh_connected (sc_end (load_head c)) = sh_connected (sc_end c)"
  "sh_cached_tail (sc_end (load_head c)) = sh_cached_tail (sc_end c)"
  by (simp_all add: load_head_def producer_acts_def Let_def split: list.splits)

lemma avail_from_drain [simp]: "avail_from t (Drain_data c) = avail_from t c"
  by (simp add: avail_from_def Drain_data_def)

lemma drain_tail [simp]: "sr_tail (sc_ring (Drain_data c)) = sr_tail (sc_ring c)"
  by (simp add: Drain_data_def)

lemma Consume_length_le: "Consume sz p c = (bs, c') \<Longrightarrow> length bs \<le> sz - p"
  by (auto simp: Consume_def Let_def split: if_splits)

lemma Consume_zero:
  assumes "Consume sz p c = ([], c')" and "p < sz"
  shows "avail_from (sr_tail (sc_ring c)) c = 0" and "c' = load_head c"
    and "avail_from (sr_tail (sc_ring c)) c' = 0"
proof -
  have "heap_load h a k = [] \<longleftrightarrow> k = 0" for h a k by (metis length_0_conv length_heap_load)
  then have "avail_from (sr_tail (sc_ring c)) c = 0 \<and> c' = load_head c \<and> avail_from (sr_tail (sc_ring c)) c' = 0"
    using assms unfolding Consume_def Let_def
    by (auto simp: min_def unat_eq_0 offset_not_full split: if_splits)
  then show "avail_from (sr_tail (sc_ring c)) c = 0" "c' = load_head c" "avail_from (sr_tail (sc_ring c)) c' = 0"
    by blast+
qed

text \<open>The loop of \<open>TryRecv\<close>; \<open>got\<close> collects what this call has stored, from \<open>p0\<close> on.\<close>

function tryrecv_loop :: "nat \<Rightarrow> nat \<Rightarrow> byte list \<Rightarrow> shm_cfg \<Rightarrow> byte list \<times> shm_cfg" where
  "tryrecv_loop sz p0 got c =
     (if p0 + length got < sz then
        (case Consume sz (p0 + length got) c of
           (bs, c1) \<Rightarrow>
             if bs \<noteq> [] then tryrecv_loop sz p0 (got @ bs) c1
             else if sh_wait_mode (sc_end c1) = EventDriven then
               (case DataAvailable (Drain_data c1) of
                  (available, c2) \<Rightarrow> if available = 0 then (got, c2) else tryrecv_loop sz p0 got c2)
             else (got, c1))
      else (got, c))"
  by pat_completeness auto
termination
proof (relation "(\<lambda>(sz, p0, got, c). sz - (p0 + length got)) <*mlex*>
    measure (\<lambda>(sz, p0, got, c). if avail_from (sr_tail (sc_ring c)) c = 0 then 1 else 0)", goal_cases)
  case (2 sz p0 got c bs c1)
  then have "sz - (p0 + length (got @ bs)) < sz - (p0 + length got)" by (cases bs) simp_all
  then show ?case by (simp add: mlex_prod_def)
next
  case (3 sz p0 got c bs c1 available c2)
  then have z: "Consume sz (p0 + length got) c = ([], c1)" by simp
  note pz = Consume_zero [OF z 3(1)]
  have "avail_from (sr_tail (sc_ring c)) c2 \<noteq> 0 \<and> sr_tail (sc_ring c2) = sr_tail (sc_ring c)"
    using 3 pz(2) by (auto simp: DataAvailable_def Let_def split: if_splits)
  then show ?case using pz(1) by (simp add: mlex_prod_def)
qed (simp add: wf_mlex)

declare tryrecv_loop.simps [simp del]

definition Shm_TryRecv :: "nat \<Rightarrow> nat \<Rightarrow> shm_cfg \<Rightarrow> (byte list \<times> bool \<times> shm_cfg) option" where
  "Shm_TryRecv sz progress c =
     (if \<not> sh_connected (sc_end c) \<or> IsProducer (sc_end c) then None
      else (case tryrecv_loop sz progress [] c of
              (got, c1) \<Rightarrow>
                Some (got, progress + length got = sz,
                      if got \<noteq> [] \<and> sh_wait_mode (sc_end c1) = EventDriven then Notify_space c1 else c1)))"

end
