(* ===== verification/Occl_Shm_Fifo.thy ===== *)
theory Occl_Shm_Fifo
  imports Occl_Shm
begin

section \<open>The shared ring is a FIFO\<close>

text \<open>
  The concurrent behaviour of one shared ring. A state of \<open>shm_sys\<close> holds the shared memory, both
  cached cursors, what each side has copied but not yet published, and two history variables: all
  bytes published by the producer and all bytes released by the consumer. The steps are the memory
  accesses of \<open>Produce\<close>, \<open>Consume\<close>, \<open>SpaceAvailable\<close> and \<open>DataAvailable\<close>, interleaved arbitrarily.
  The cursors are 64-bit words and wrap around; the histories may be longer than \<open>2 ^ 64\<close>.
\<close>

record shm_sys =
  ss_ring :: ShmRing
  ss_ctail :: "64 word"
  ss_chead :: "64 word"
  ss_wpend :: "byte list"
  ss_rpend :: "byte list"
  ss_produced :: "byte list"
  ss_consumed :: "byte list"

definition shm_init :: shm_sys where
  "shm_init = \<lparr>ss_ring = \<lparr>sr_head = 0, sr_tail = 0, sr_data = (\<lambda>_. 0), sr_data_ready = 0, sr_space_ready = 1\<rparr>,
     ss_ctail = 0, ss_chead = 0, ss_wpend = [], ss_rpend = [], ss_produced = [], ss_consumed = []\<rparr>"

text \<open>Steps of the producer.\<close>

inductive prod_step :: "shm_sys \<Rightarrow> shm_sys \<Rightarrow> bool" where
  load_tail: "prod_step s (s\<lparr>ss_ctail := sr_tail (ss_ring s)\<rparr>)"
| copy_in: "ss_wpend s = [] \<Longrightarrow>
    length bs \<le> unat (word_of_nat kShmRingCapacity - (sr_head (ss_ring s) - ss_ctail s)) \<Longrightarrow>
    ring_offset (sr_head (ss_ring s)) + length bs \<le> kShmRingCapacity \<Longrightarrow>
    prod_step s (s\<lparr>ss_ring := ring_write (sr_head (ss_ring s)) bs (ss_ring s), ss_wpend := bs\<rparr>)"
| publish: "prod_step s (s\<lparr>ss_ring := (ss_ring s)\<lparr>sr_head := sr_head (ss_ring s) + word_of_nat (length (ss_wpend s))\<rparr>,
    ss_produced := ss_produced s @ ss_wpend s, ss_wpend := []\<rparr>)"
| event: "prod_step s (s\<lparr>ss_ring := (ss_ring s)\<lparr>sr_data_ready := a, sr_space_ready := b\<rparr>\<rparr>)"

text \<open>Steps of the consumer.\<close>

inductive cons_step :: "shm_sys \<Rightarrow> shm_sys \<Rightarrow> bool" where
  load_head: "cons_step s (s\<lparr>ss_chead := sr_head (ss_ring s)\<rparr>)"
| copy_out: "ss_rpend s = [] \<Longrightarrow> n \<le> unat (ss_chead s - sr_tail (ss_ring s)) \<Longrightarrow>
    ring_offset (sr_tail (ss_ring s)) + n \<le> kShmRingCapacity \<Longrightarrow>
    cons_step s (s\<lparr>ss_rpend := heap_load (sr_data (ss_ring s)) (ring_offset (sr_tail (ss_ring s))) n\<rparr>)"
| release: "cons_step s (s\<lparr>ss_ring := (ss_ring s)\<lparr>sr_tail := sr_tail (ss_ring s) + word_of_nat (length (ss_rpend s))\<rparr>,
    ss_consumed := ss_consumed s @ ss_rpend s, ss_rpend := []\<rparr>)"
| event: "cons_step s (s\<lparr>ss_ring := (ss_ring s)\<lparr>sr_data_ready := a, sr_space_ready := b\<rparr>\<rparr>)"

definition shm_step :: "shm_sys \<Rightarrow> shm_sys \<Rightarrow> bool" where
  "shm_step s s' \<longleftrightarrow> prod_step s s' \<or> cons_step s s'"

subsection \<open>Cursor arithmetic\<close>

lemma offset_of_nat: "ring_offset (word_of_nat n) = n mod kShmRingCapacity"
  by (simp add: ring_offset_def kShmRingCapacity_def unat_of_nat mod_mod_cancel)

lemma unat_of_nat_small: "n < 2 ^ 64 \<Longrightarrow> unat (word_of_nat n :: 64 word) = n"
  by (simp add: unat_of_nat)

lemma cursor_distance:
  assumes "a \<le> b" and "b \<le> a + kShmRingCapacity"
  shows "unat (word_of_nat b - word_of_nat a :: 64 word) = b - a"
proof -
  have "(word_of_nat b - word_of_nat a :: 64 word) = word_of_nat (b - a)" using assms(1) by simp
  moreover have "b - a < 2 ^ 64" using assms(2) by (simp add: kShmRingCapacity_def)
  ultimately show ?thesis by (simp add: unat_of_nat)
qed

lemma cursor_room:
  assumes "a \<le> b" and "b \<le> a + kShmRingCapacity"
  shows "unat (word_of_nat kShmRingCapacity - (word_of_nat b - word_of_nat a) :: 64 word) = a + kShmRingCapacity - b"
proof -
  have "(word_of_nat b - word_of_nat a :: 64 word) = word_of_nat (b - a)" using assms(1) by simp
  moreover have "b - a \<le> kShmRingCapacity" using assms(2) by simp
  ultimately have eq: "(word_of_nat kShmRingCapacity - (word_of_nat b - word_of_nat a) :: 64 word) =
      word_of_nat (kShmRingCapacity - (b - a))" by simp
  have "unat (word_of_nat (kShmRingCapacity - (b - a)) :: 64 word) = kShmRingCapacity - (b - a)"
    by (rule unat_of_nat_small) (simp add: kShmRingCapacity_def)
  then show ?thesis unfolding eq using assms by linarith
qed

subsection \<open>Invariant\<close>

text \<open>The stored bytes from position \<open>a\<close> to \<open>b\<close> of the stream \<open>xs\<close>.\<close>

definition ring_holds :: "heap \<Rightarrow> byte list \<Rightarrow> nat \<Rightarrow> nat \<Rightarrow> bool" where
  "ring_holds d xs a b \<longleftrightarrow> (\<forall>k. a \<le> k \<and> k < b \<longrightarrow> d (k mod kShmRingCapacity) = xs ! k)"

definition shm_inv :: "nat \<Rightarrow> nat \<Rightarrow> shm_sys \<Rightarrow> bool" where
  "shm_inv CT CH s \<longleftrightarrow>
     (let xs = ss_produced s @ ss_wpend s; H = length (ss_produced s); T = length (ss_consumed s) in
      sr_head (ss_ring s) = word_of_nat H \<and> sr_tail (ss_ring s) = word_of_nat T \<and>
      ss_ctail s = word_of_nat CT \<and> ss_chead s = word_of_nat CH \<and>
      CT \<le> T \<and> T + length (ss_rpend s) \<le> CH \<and> CH \<le> H \<and> length xs \<le> CT + kShmRingCapacity \<and>
      ss_consumed s @ ss_rpend s = take (T + length (ss_rpend s)) (ss_produced s) \<and>
      ring_holds (sr_data (ss_ring s)) xs T (length xs))"

lemma shm_inv_init: "shm_inv 0 0 shm_init"
  by (simp add: shm_inv_def shm_init_def ring_holds_def)

lemma mod_store:
  assumes "a mod kShmRingCapacity + length bs \<le> kShmRingCapacity" and "k < a" and "a + length bs \<le> k + kShmRingCapacity"
  shows "heap_store (a mod kShmRingCapacity) bs d (k mod kShmRingCapacity) = d (k mod kShmRingCapacity)"
proof (rule ccontr)
  assume "heap_store (a mod kShmRingCapacity) bs d (k mod kShmRingCapacity) \<noteq> d (k mod kShmRingCapacity)"
  then have r: "a mod kShmRingCapacity \<le> k mod kShmRingCapacity" "k mod kShmRingCapacity < a mod kShmRingCapacity + length bs"
    by (auto simp: heap_store_def split: if_splits)
  let ?j = "k mod kShmRingCapacity - a mod kShmRingCapacity"
  have "(a + ?j) mod kShmRingCapacity = (a mod kShmRingCapacity + ?j) mod kShmRingCapacity" by (simp add: mod_add_left_eq)
  also have "\<dots> = k mod kShmRingCapacity" using r capacity_pos by simp
  finally have same: "(a + ?j) mod kShmRingCapacity = k mod kShmRingCapacity" .
  have "k < a + ?j" "a + ?j < k + kShmRingCapacity" using assms r by linarith+
  then have "0 < a + ?j - k" "a + ?j - k < kShmRingCapacity" by linarith+
  moreover have "kShmRingCapacity dvd a + ?j - k" using same \<open>k < a + ?j\<close> by (simp add: mod_eq_dvd_iff_nat)
  ultimately show False by (meson nat_dvd_not_less)
qed

lemma mod_store_in:
  assumes "a mod kShmRingCapacity + length bs \<le> kShmRingCapacity" and "i < length bs"
  shows "heap_store (a mod kShmRingCapacity) bs d ((a + i) mod kShmRingCapacity) = bs ! i"
proof -
  have "(a + i) mod kShmRingCapacity = (a mod kShmRingCapacity + i) mod kShmRingCapacity" by (simp add: mod_add_left_eq)
  also have "\<dots> = a mod kShmRingCapacity + i" using assms by simp
  finally show ?thesis using assms(2) by (simp add: heap_store_def)
qed

lemma ring_holds_write:
  assumes "ring_holds d xs T (length xs)" and "length xs mod kShmRingCapacity + length bs \<le> kShmRingCapacity"
    and "length xs + length bs \<le> T + kShmRingCapacity"
  shows "ring_holds (heap_store (length xs mod kShmRingCapacity) bs d) (xs @ bs) T (length (xs @ bs))"
  unfolding ring_holds_def
proof (intro allI impI)
  fix k assume k: "T \<le> k \<and> k < length (xs @ bs)"
  show "heap_store (length xs mod kShmRingCapacity) bs d (k mod kShmRingCapacity) = (xs @ bs) ! k"
  proof (cases "k < length xs")
    case True
    then show ?thesis using assms k mod_store [OF assms(2) True] by (simp add: ring_holds_def nth_append)
  next
    case False
    then have "k - length xs < length bs" using k by (simp add: less_diff_conv2)
    from mod_store_in [OF assms(2) this, of d] False show ?thesis by (simp add: nth_append)
  qed
qed

lemma ring_holds_read:
  assumes "ring_holds d xs a b" and "a + n \<le> b" and "b \<le> length xs" and "a mod kShmRingCapacity + n \<le> kShmRingCapacity"
  shows "heap_load d (a mod kShmRingCapacity) n = take n (drop a xs)"
proof (rule nth_equalityI)
  fix i assume "i < length (heap_load d (a mod kShmRingCapacity) n)"
  then have i: "i < n" by simp
  have "(a + i) mod kShmRingCapacity = (a mod kShmRingCapacity + i) mod kShmRingCapacity" by (simp add: mod_add_left_eq)
  also have "\<dots> = a mod kShmRingCapacity + i" using i assms(4) by simp
  finally have pos: "(a + i) mod kShmRingCapacity = a mod kShmRingCapacity + i" .
  have "d ((a + i) mod kShmRingCapacity) = xs ! (a + i)" using i assms(1,2) by (simp add: ring_holds_def)
  then show "heap_load d (a mod kShmRingCapacity) n ! i = take n (drop a xs) ! i"
    unfolding pos using i assms(2,3) by simp
qed (use assms in simp)

text \<open>Every step keeps the invariant.\<close>

lemma prod_step_inv:
  assumes "prod_step s s'" and "shm_inv CT CH s"
  shows "\<exists>CT'. shm_inv CT' CH s'"
  using assms
proof (cases rule: prod_step.cases)
  case load_tail
  then show ?thesis using assms(2) by (intro exI [of _ "length (ss_consumed s)"]) (auto simp: shm_inv_def Let_def)
next
  case (copy_in bs)
  let ?H = "length (ss_produced s)"
  have inv: "CT \<le> length (ss_consumed s)" "?H \<le> CT + kShmRingCapacity" "length (ss_consumed s) \<le> ?H"
    "sr_head (ss_ring s) = word_of_nat ?H" "ss_ctail s = word_of_nat CT"
    "ring_holds (sr_data (ss_ring s)) (ss_produced s) (length (ss_consumed s)) ?H"
    using assms(2) copy_in(2) by (auto simp: shm_inv_def Let_def)
  then have room: "?H + length bs \<le> CT + kShmRingCapacity"
    using copy_in(3) cursor_room [of CT ?H] by simp
  have off: "?H mod kShmRingCapacity + length bs \<le> kShmRingCapacity"
    using copy_in(4) inv(4) by (simp add: offset_of_nat)
  have "?H + length bs \<le> length (ss_consumed s) + kShmRingCapacity" using room inv(1) by simp
  from ring_holds_write [OF inv(6) off this] show ?thesis
    using assms(2) copy_in room inv(4) by (intro exI [of _ CT]) (simp add: shm_inv_def Let_def ring_write_def offset_of_nat)
next
  case publish
  then show ?thesis using assms(2) by (intro exI [of _ CT]) (auto simp: shm_inv_def Let_def)
next
  case (event a b)
  then show ?thesis using assms(2) by (intro exI [of _ CT]) (simp add: shm_inv_def Let_def)
qed

lemma cons_step_inv:
  assumes "cons_step s s'" and "shm_inv CT CH s"
  shows "\<exists>CH'. shm_inv CT CH' s'"
  using assms
proof (cases rule: cons_step.cases)
  case load_head
  then show ?thesis using assms(2) by (intro exI [of _ "length (ss_produced s)"]) (auto simp: shm_inv_def Let_def)
next
  case (copy_out n)
  let ?T = "length (ss_consumed s)" and ?xs = "ss_produced s @ ss_wpend s"
  have inv: "?T \<le> CH" "CH \<le> length (ss_produced s)" "CH \<le> ?T + kShmRingCapacity"
    "sr_tail (ss_ring s) = word_of_nat ?T" "ss_chead s = word_of_nat CH" "ss_consumed s = take ?T (ss_produced s)"
    "ring_holds (sr_data (ss_ring s)) ?xs ?T (length ?xs)"
    using assms(2) copy_out(2) by (auto simp: shm_inv_def Let_def)
  then have n: "?T + n \<le> CH" using copy_out(3) cursor_distance [of ?T CH] by simp
  have off: "?T mod kShmRingCapacity + n \<le> kShmRingCapacity" using copy_out(4) inv(4) by (simp add: offset_of_nat)
  have "heap_load (sr_data (ss_ring s)) (?T mod kShmRingCapacity) n = take n (drop ?T ?xs)"
    using inv n off by (intro ring_holds_read [OF inv(7)]) simp_all
  then have "heap_load (sr_data (ss_ring s)) (?T mod kShmRingCapacity) n = take n (drop ?T (ss_produced s))"
    using n inv(2) by simp
  moreover have "ss_consumed s @ take n (drop ?T (ss_produced s)) = take (?T + n) (ss_produced s)"
    by (subst inv(6)) (simp add: take_add)
  ultimately show ?thesis
    using assms(2) copy_out n inv by (intro exI [of _ CH]) (simp add: shm_inv_def Let_def offset_of_nat)
next
  case release
  have "ring_holds d xs (T + k) b" if "ring_holds d xs T b" for d xs T k b using that by (simp add: ring_holds_def)
  then show ?thesis using assms(2) release by (intro exI [of _ CH]) (auto simp: shm_inv_def Let_def)
next
  case (event a b)
  then show ?thesis using assms(2) by (intro exI [of _ CH]) (simp add: shm_inv_def Let_def)
qed

definition shm_ok :: "shm_sys \<Rightarrow> bool" where
  "shm_ok s \<longleftrightarrow> (\<exists>CT CH. shm_inv CT CH s)"

lemma shm_step_ok: "shm_step s s' \<Longrightarrow> shm_ok s \<Longrightarrow> shm_ok s'"
  unfolding shm_ok_def shm_step_def using prod_step_inv cons_step_inv by meson

lemma shm_steps_ok: "shm_step\<^sup>*\<^sup>* s s' \<Longrightarrow> shm_ok s \<Longrightarrow> shm_ok s'"
  by (induction rule: rtranclp_induct) (auto intro: shm_step_ok)

lemma shm_reachable_ok: "shm_step\<^sup>*\<^sup>* shm_init s \<Longrightarrow> shm_ok s"
  using shm_steps_ok shm_inv_init shm_ok_def by blast

lemma cons_step_frame:
  "cons_step s s' \<Longrightarrow> ss_ctail s' = ss_ctail s \<and> ss_wpend s' = ss_wpend s \<and> ss_produced s' = ss_produced s"
  by (auto elim!: cons_step.cases)

lemma prod_step_frame:
  "prod_step s s' \<Longrightarrow> ss_chead s' = ss_chead s \<and> ss_rpend s' = ss_rpend s \<and> ss_consumed s' = ss_consumed s"
  by (auto elim!: prod_step.cases)

lemma cons_steps_frame:
  "cons_step\<^sup>*\<^sup>* s s' \<Longrightarrow> ss_ctail s' = ss_ctail s \<and> ss_wpend s' = ss_wpend s \<and> ss_produced s' = ss_produced s"
  by (induction rule: rtranclp_induct) (auto dest: cons_step_frame)

lemma prod_steps_frame:
  "prod_step\<^sup>*\<^sup>* s s' \<Longrightarrow> ss_chead s' = ss_chead s \<and> ss_rpend s' = ss_rpend s \<and> ss_consumed s' = ss_consumed s"
  by (induction rule: rtranclp_induct) (auto dest: prod_step_frame)

lemma two_steps: "R a b \<Longrightarrow> R b c \<Longrightarrow> R\<^sup>*\<^sup>* a c"
  by (rule rtranclp.rtrancl_into_rtrancl [OF r_into_rtranclp])

lemma shm_steps_mono:
  "prod_step\<^sup>*\<^sup>* s s' \<Longrightarrow> shm_step\<^sup>*\<^sup>* s s'" "cons_step\<^sup>*\<^sup>* s s' \<Longrightarrow> shm_step\<^sup>*\<^sup>* s s'"
  by (auto intro: rtranclp_mono [THEN predicate2D, rotated] simp: shm_step_def)

subsection \<open>Calls as sequences of steps\<close>

text \<open>
  A configuration of the producer and one of the consumer as views of a system state. Between the
  accesses of one side the other side makes complete moves: a scheduled move of the consumer is a
  sequence of consumer steps, and one of the producer a sequence of producer steps.
\<close>

definition prod_view :: "shm_cfg \<Rightarrow> shm_sys \<Rightarrow> bool" where
  "prod_view c s \<longleftrightarrow> ss_ring s = sc_ring c \<and> ss_ctail s = sh_cached_tail (sc_end c) \<and> ss_wpend s = [] \<and> ss_rpend s = []"

definition cons_view :: "shm_cfg \<Rightarrow> shm_sys \<Rightarrow> bool" where
  "cons_view c s \<longleftrightarrow> ss_ring s = sc_ring c \<and> ss_chead s = sh_cached_head (sc_end c) \<and> ss_wpend s = [] \<and> ss_rpend s = []"

definition consumer_move :: "(ShmRing \<Rightarrow> ShmRing) \<Rightarrow> bool" where
  "consumer_move f \<longleftrightarrow> (\<forall>s. ss_rpend s = [] \<longrightarrow>
     (\<exists>s'. cons_step\<^sup>*\<^sup>* s s' \<and> ss_ring s' = consumer_acts f (ss_ring s) \<and> ss_rpend s' = []))"

definition producer_move :: "(ShmRing \<Rightarrow> ShmRing) \<Rightarrow> bool" where
  "producer_move f \<longleftrightarrow> (\<forall>s. ss_wpend s = [] \<longrightarrow>
     (\<exists>s'. prod_step\<^sup>*\<^sup>* s s' \<and> ss_ring s' = producer_acts f (ss_ring s) \<and> ss_wpend s' = []))"

text \<open>A run of the system that a part of a producer call stands for, publishing \<open>bs\<close>.\<close>

definition prod_run :: "shm_cfg \<Rightarrow> shm_sys \<Rightarrow> byte list \<Rightarrow> shm_cfg \<Rightarrow> shm_sys \<Rightarrow> bool" where
  "prod_run c s bs c' s' \<longleftrightarrow> shm_step\<^sup>*\<^sup>* s s' \<and> prod_view c' s' \<and> ss_produced s' = ss_produced s @ bs \<and>
     set (sc_peer c') \<subseteq> set (sc_peer c)"

lemma prod_run_trans:
  "prod_run c s bs c1 s1 \<Longrightarrow> prod_run c1 s1 bs' c2 s2 \<Longrightarrow> prod_run c s (bs @ bs') c2 s2"
  unfolding prod_run_def by (auto intro: rtranclp_trans)

lemma prod_run_refl: "prod_view c s \<Longrightarrow> prod_run c s [] c s"
  by (simp add: prod_run_def)

lemma load_tail_run:
  assumes "prod_view c s" and "\<forall>f \<in> set (sc_peer c). consumer_move f"
  shows "\<exists>s'. prod_run c s [] (load_tail c) s'"
proof -
  let ?c1 = "case sc_peer c of [] \<Rightarrow> c | f # fs \<Rightarrow> c\<lparr>sc_ring := consumer_acts f (sc_ring c), sc_peer := fs\<rparr>"
  obtain s1 where s1: "cons_step\<^sup>*\<^sup>* s s1" "ss_ring s1 = sc_ring ?c1" "ss_rpend s1 = []"
  proof (cases "sc_peer c")
    case Nil
    then show ?thesis using that [of s] assms(1) by (simp add: prod_view_def)
  next
    case (Cons f fs)
    then have "consumer_move f" using assms(2) by simp
    then show ?thesis using that assms(1) Cons by (auto simp: consumer_move_def prod_view_def)
  qed
  let ?s2 = "s1\<lparr>ss_ctail := sr_tail (ss_ring s1)\<rparr>"
  have "prod_step s1 ?s2" by (rule prod_step.load_tail)
  then have "shm_step\<^sup>*\<^sup>* s ?s2" using shm_steps_mono(2) [OF s1(1)] by (auto simp: shm_step_def intro: rtranclp.rtrancl_into_rtrancl)
  moreover have "prod_view (load_tail c) ?s2" "set (sc_peer (load_tail c)) \<subseteq> set (sc_peer c)"
    using s1 assms(1) cons_steps_frame [OF s1(1)]
    by (auto simp: prod_view_def load_tail_def Let_def split: list.splits)
  ultimately show ?thesis using cons_steps_frame [OF s1(1)] by (auto simp: prod_run_def)
qed

lemma event_run:
  assumes "prod_view c s"
  shows "prod_run c s [] (c\<lparr>sc_ring := (sc_ring c)\<lparr>sr_data_ready := a, sr_space_ready := b\<rparr>\<rparr>)
     (s\<lparr>ss_ring := (ss_ring s)\<lparr>sr_data_ready := a, sr_space_ready := b\<rparr>\<rparr>)"
proof -
  have "shm_step s (s\<lparr>ss_ring := (ss_ring s)\<lparr>sr_data_ready := a, sr_space_ready := b\<rparr>\<rparr>)"
    unfolding shm_step_def by (intro disjI1 prod_step.event)
  from r_into_rtranclp [where r = shm_step, OF this] show ?thesis
    using assms by (simp add: prod_run_def prod_view_def)
qed

lemma signal_run:
  assumes "prod_view c s"
  shows "\<exists>s'. prod_run c s [] (Drain_space c) s'" and "\<exists>s'. prod_run c s [] (Notify_data c) s'"
proof -
  show "\<exists>s'. prod_run c s [] (Drain_space c) s'"
    using event_run [OF assms, where a = "sr_data_ready (sc_ring c)" and b = 0] by (auto simp: Drain_space_def)
  show "\<exists>s'. prod_run c s [] (Notify_data c) s'"
    using event_run [OF assms, where a = "sr_data_ready (sc_ring c) + 1" and b = "sr_space_ready (sc_ring c)"]
    by (auto simp: Notify_data_def)
qed

lemma Produce_run:
  assumes view: "prod_view c s" and peers: "\<forall>f \<in> set (sc_peer c). consumer_move f"
    and run: "Produce data p c = (n, c')"
  shows "\<exists>s'. prod_run c s (take n (drop p data)) c' s'"
proof -
  let ?h = "sr_head (sc_ring c)"
  let ?c1 = "if room_for ?h c = 0 then load_tail c else c"
  obtain s1 where s1: "prod_run c s [] ?c1 s1"
    using load_tail_run [OF view peers] prod_run_refl [OF view] by (cases "room_for ?h c = 0") auto
  have h1: "sr_head (ss_ring s1) = ?h" and v1: "prod_view ?c1 s1" using s1 by (auto simp: prod_run_def prod_view_def)
  show ?thesis
  proof (cases "room_for ?h ?c1 = 0")
    case True
    then show ?thesis using run s1 by (auto simp: Produce_def Let_def)
  next
    case False
    let ?bs = "take n (drop p data)"
    let ?s2 = "s1\<lparr>ss_ring := ring_write ?h ?bs (ss_ring s1), ss_wpend := ?bs\<rparr>"
    let ?s3 = "?s2\<lparr>ss_ring := (ss_ring ?s2)\<lparr>sr_head := sr_head (ss_ring ?s2) + word_of_nat (length (ss_wpend ?s2))\<rparr>,
      ss_produced := ss_produced ?s2 @ ss_wpend ?s2, ss_wpend := []\<rparr>"
    have n: "n = min (unat (room_for ?h ?c1)) (min (length data - p) (kShmRingCapacity - ring_offset ?h))"
      and c': "c' = ?c1\<lparr>sc_ring := (ring_write ?h ?bs (sc_ring ?c1))\<lparr>sr_head := ?h + word_of_nat n\<rparr>\<rparr>"
      using run False by (auto simp: Produce_def Let_def)
    have len: "length ?bs = n" using Produce_chunk_le [OF run] by simp
    have "n \<le> kShmRingCapacity - ring_offset ?h" unfolding n by (intro min.coboundedI2 order_refl)
    then have fits: "ring_offset ?h + length ?bs \<le> kShmRingCapacity" using len offset_less [of ?h] by linarith
    have room: "length ?bs \<le> unat (word_of_nat kShmRingCapacity - (?h - ss_ctail s1))"
      using n len v1 by (simp add: prod_view_def room_for_def)
    have "prod_step s1 ?s2" using prod_step.copy_in [of s1 ?bs] v1 room fits h1 by (simp add: prod_view_def)
    moreover have "prod_step ?s2 ?s3" by (rule prod_step.publish)
    ultimately have "shm_step\<^sup>*\<^sup>* s1 ?s3" by (rule shm_steps_mono(1) [OF two_steps])
    moreover have "prod_view c' ?s3" using v1 h1 len by (simp add: prod_view_def c' ring_write_def)
    moreover have "sc_peer c' = sc_peer ?c1" by (simp add: c')
    ultimately have "prod_run ?c1 s1 ?bs c' ?s3" by (simp add: prod_run_def)
    from prod_run_trans [OF s1 this] show ?thesis by auto
  qed
qed

lemma SpaceAvailable_run:
  assumes view: "prod_view c s" and peers: "\<forall>f \<in> set (sc_peer c). consumer_move f" and run: "SpaceAvailable c = (room, c')"
  shows "\<exists>s'. prod_run c s [] c' s'"
  using load_tail_run [OF view peers] prod_run_refl [OF view] run
  by (auto simp: SpaceAvailable_def Let_def split: if_splits)

lemma prod_run_peers: "prod_run c s bs c' s' \<Longrightarrow> \<forall>f \<in> set (sc_peer c). P f \<Longrightarrow> \<forall>f \<in> set (sc_peer c'). P f"
  by (auto simp: prod_run_def)

lemma prod_run_view: "prod_run c s bs c' s' \<Longrightarrow> prod_view c' s'"
  by (simp add: prod_run_def)

text \<open>The loop of \<open>TrySend\<close> publishes exactly the bytes it reports; it stops early only on a full ring.\<close>

lemma trysend_loop_run:
  assumes "prod_view c s" and "\<forall>f \<in> set (sc_peer c). consumer_move f" and "p \<le> length data"
    and "trysend_loop data p m c = (p', m', c')"
  shows "p \<le> p' \<and> p' \<le> length data \<and> m' = m + (p' - p) \<and>
    (p' < length data \<longrightarrow> room_for (sr_head (sc_ring c')) c' = 0) \<and>
    (\<exists>s'. prod_run c s (take (p' - p) (drop p data)) c' s')"
  using assms
proof (induction data p m c arbitrary: s rule: trysend_loop.induct)
  case (1 data p m c)
  show ?case
  proof (cases "p < length data")
    case False
    then show ?thesis using 1(3,5,6) prod_run_refl by (auto simp: trysend_loop.simps)
  next
    case True
    obtain n c1 where pr: "Produce data p c = (n, c1)" by fastforce
    obtain s1 where s1: "prod_run c s (take n (drop p data)) c1 s1" using Produce_run [OF 1(3,4) pr] by blast
    note peers1 = prod_run_peers [OF s1 1(4)]
    have n: "n \<le> length data - p" by (rule Produce_chunk_le [OF pr])
    show ?thesis
    proof (cases "n = 0")
      case False
      then have rec: "trysend_loop data (p + n) (m + n) c1 = (p', m', c')"
        using 1(6) True pr by (simp add: trysend_loop.simps [of data p])
      have "p + n \<le> length data" using n True by simp
      from 1(1) [OF True pr [symmetric] _ prod_run_view [OF s1] peers1 this rec] False
      have IH: "p + n \<le> p' \<and> p' \<le> length data \<and> m' = m + n + (p' - (p + n)) \<and>
        (p' < length data \<longrightarrow> room_for (sr_head (sc_ring c')) c' = 0) \<and>
        (\<exists>s'. prod_run c1 s1 (take (p' - (p + n)) (drop (p + n) data)) c' s')" by simp
      then obtain s' where "prod_run c1 s1 (take (p' - (p + n)) (drop (p + n) data)) c' s'" by blast
      from prod_run_trans [OF s1 this] have "prod_run c s (take (n + (p' - (p + n))) (drop p data)) c' s'"
        by (simp add: take_add add.commute)
      then show ?thesis using IH by (auto simp: Nat.add_diff_assoc)
    next
      case zero: True
      note pz = Produce_zero [OF pr [unfolded zero] True]
      have s1': "prod_run c s [] c1 s1" using s1 zero by simp
      show ?thesis
      proof (cases "sh_wait_mode (sc_end c1) = EventDriven")
        case False
        then have "(p', m', c') = (p, m, c1)" using 1(6) True pr zero by (simp add: trysend_loop.simps)
        then show ?thesis using s1' pz True by auto
      next
        case ev: True
        obtain room c2 where sa: "SpaceAvailable (Drain_space c1) = (room, c2)" by fastforce
        obtain d1 where d1: "prod_run c1 s1 [] (Drain_space c1) d1" using signal_run(1) [OF prod_run_view [OF s1']] by blast
        obtain s2 where "prod_run (Drain_space c1) d1 [] c2 s2"
          using SpaceAvailable_run [OF prod_run_view [OF d1] prod_run_peers [OF d1 peers1] sa] by blast
        with prod_run_trans [OF s1' d1] have s2: "prod_run c s [] c2 s2" using prod_run_trans by fastforce
        show ?thesis
        proof (cases "room = 0")
          case True
          then have eq: "(p', m', c') = (p, m, c2)" using 1(6) \<open>p < length data\<close> pr zero ev sa by (simp add: trysend_loop.simps)
          have "room_for (sr_head (sc_ring c2)) c2 = 0"
            using sa True pz by (auto simp: SpaceAvailable_def Let_def split: if_splits)
          then show ?thesis using eq s2 1(5) by auto
        next
          case False
          then have rec: "trysend_loop data p m c2 = (p', m', c')"
            using 1(6) True pr zero ev sa by (simp add: trysend_loop.simps [of data p m c])
          from 1(2) [OF True pr [symmetric] _ ev sa [symmetric] False prod_run_view [OF s2] prod_run_peers [OF s2 1(4)] 1(5) rec] zero
          have IH: "p \<le> p' \<and> p' \<le> length data \<and> m' = m + (p' - p) \<and>
            (p' < length data \<longrightarrow> room_for (sr_head (sc_ring c')) c' = 0) \<and>
            (\<exists>s'. prod_run c2 s2 (take (p' - p) (drop p data)) c' s')" by simp
          then show ?thesis using prod_run_trans [OF s2] by auto
        qed
      qed
    qed
  qed
qed

text \<open>The same for the consumer: a part of a call that releases \<open>bs\<close>.\<close>

definition cons_run :: "shm_cfg \<Rightarrow> shm_sys \<Rightarrow> byte list \<Rightarrow> shm_cfg \<Rightarrow> shm_sys \<Rightarrow> bool" where
  "cons_run c s bs c' s' \<longleftrightarrow> shm_step\<^sup>*\<^sup>* s s' \<and> cons_view c' s' \<and> ss_consumed s' = ss_consumed s @ bs \<and>
     set (sc_peer c') \<subseteq> set (sc_peer c)"

lemma cons_run_trans:
  "cons_run c s bs c1 s1 \<Longrightarrow> cons_run c1 s1 bs' c2 s2 \<Longrightarrow> cons_run c s (bs @ bs') c2 s2"
  unfolding cons_run_def by (auto intro: rtranclp_trans)

lemma cons_run_refl: "cons_view c s \<Longrightarrow> cons_run c s [] c s"
  by (simp add: cons_run_def)

lemma cons_run_peers: "cons_run c s bs c' s' \<Longrightarrow> \<forall>f \<in> set (sc_peer c). P f \<Longrightarrow> \<forall>f \<in> set (sc_peer c'). P f"
  by (auto simp: cons_run_def)

lemma cons_run_view: "cons_run c s bs c' s' \<Longrightarrow> cons_view c' s'"
  by (simp add: cons_run_def)

lemma load_head_run:
  assumes "cons_view c s" and "\<forall>f \<in> set (sc_peer c). producer_move f"
  shows "\<exists>s'. cons_run c s [] (load_head c) s'"
proof -
  let ?c1 = "case sc_peer c of [] \<Rightarrow> c | f # fs \<Rightarrow> c\<lparr>sc_ring := producer_acts f (sc_ring c), sc_peer := fs\<rparr>"
  obtain s1 where s1: "prod_step\<^sup>*\<^sup>* s s1" "ss_ring s1 = sc_ring ?c1" "ss_wpend s1 = []"
  proof (cases "sc_peer c")
    case Nil
    then show ?thesis using that [of s] assms(1) by (simp add: cons_view_def)
  next
    case (Cons f fs)
    then have "producer_move f" using assms(2) by simp
    then show ?thesis using that assms(1) Cons by (auto simp: producer_move_def cons_view_def)
  qed
  let ?s2 = "s1\<lparr>ss_chead := sr_head (ss_ring s1)\<rparr>"
  have "cons_step s1 ?s2" by (rule cons_step.load_head)
  then have "shm_step\<^sup>*\<^sup>* s ?s2" using shm_steps_mono(1) [OF s1(1)] by (auto simp: shm_step_def intro: rtranclp.rtrancl_into_rtrancl)
  moreover have "cons_view (load_head c) ?s2" "set (sc_peer (load_head c)) \<subseteq> set (sc_peer c)"
    using s1 assms(1) prod_steps_frame [OF s1(1)]
    by (auto simp: cons_view_def load_head_def Let_def split: list.splits)
  ultimately show ?thesis using prod_steps_frame [OF s1(1)] by (auto simp: cons_run_def)
qed

lemma cons_event_run:
  assumes "cons_view c s"
  shows "cons_run c s [] (c\<lparr>sc_ring := (sc_ring c)\<lparr>sr_data_ready := a, sr_space_ready := b\<rparr>\<rparr>)
     (s\<lparr>ss_ring := (ss_ring s)\<lparr>sr_data_ready := a, sr_space_ready := b\<rparr>\<rparr>)"
proof -
  have "shm_step s (s\<lparr>ss_ring := (ss_ring s)\<lparr>sr_data_ready := a, sr_space_ready := b\<rparr>\<rparr>)"
    unfolding shm_step_def by (intro disjI2 cons_step.event)
  from r_into_rtranclp [where r = shm_step, OF this] show ?thesis
    using assms by (simp add: cons_run_def cons_view_def)
qed

lemma cons_signal_run:
  assumes "cons_view c s"
  shows "\<exists>s'. cons_run c s [] (Drain_data c) s'" and "\<exists>s'. cons_run c s [] (Notify_space c) s'"
proof -
  show "\<exists>s'. cons_run c s [] (Drain_data c) s'"
    using cons_event_run [OF assms, where a = 0 and b = "sr_space_ready (sc_ring c)"] by (auto simp: Drain_data_def)
  show "\<exists>s'. cons_run c s [] (Notify_space c) s'"
    using cons_event_run [OF assms, where a = "sr_data_ready (sc_ring c)" and b = "sr_space_ready (sc_ring c) + 1"]
    by (auto simp: Notify_space_def)
qed

lemma Consume_run:
  assumes view: "cons_view c s" and peers: "\<forall>f \<in> set (sc_peer c). producer_move f"
    and run: "Consume sz p c = (bs, c')"
  shows "\<exists>s'. cons_run c s bs c' s'"
proof -
  let ?t = "sr_tail (sc_ring c)"
  let ?c1 = "if avail_from ?t c = 0 then load_head c else c"
  obtain s1 where s1: "cons_run c s [] ?c1 s1"
    using load_head_run [OF view peers] cons_run_refl [OF view] by (cases "avail_from ?t c = 0") auto
  have t1: "sr_tail (ss_ring s1) = ?t" and v1: "cons_view ?c1 s1" using s1 by (auto simp: cons_run_def cons_view_def)
  show ?thesis
  proof (cases "avail_from ?t ?c1 = 0")
    case True
    then show ?thesis using run s1 by (auto simp: Consume_def Let_def)
  next
    case False
    define n where "n = min (unat (avail_from ?t ?c1)) (min (sz - p) (kShmRingCapacity - ring_offset ?t))"
    let ?s2 = "s1\<lparr>ss_rpend := bs\<rparr>"
    let ?s3 = "?s2\<lparr>ss_ring := (ss_ring ?s2)\<lparr>sr_tail := sr_tail (ss_ring ?s2) + word_of_nat (length (ss_rpend ?s2))\<rparr>,
      ss_consumed := ss_consumed ?s2 @ ss_rpend ?s2, ss_rpend := []\<rparr>"
    have bs: "bs = heap_load (sr_data (sc_ring ?c1)) (ring_offset ?t) n"
      and c': "c' = ?c1\<lparr>sc_ring := (sc_ring ?c1)\<lparr>sr_tail := ?t + word_of_nat n\<rparr>\<rparr>"
      using run False by (auto simp: Consume_def Let_def n_def)
    have "n \<le> kShmRingCapacity - ring_offset ?t" by (simp add: n_def)
    then have fits: "ring_offset ?t + n \<le> kShmRingCapacity" using offset_less [of ?t] by linarith
    have avail: "n \<le> unat (ss_chead s1 - ?t)" using v1 by (simp add: n_def cons_view_def avail_from_def)
    have "cons_step s1 ?s2" using cons_step.copy_out [of s1 n] v1 avail fits t1 by (simp add: cons_view_def bs)
    moreover have "cons_step ?s2 ?s3" by (rule cons_step.release)
    ultimately have "shm_step\<^sup>*\<^sup>* s1 ?s3" by (rule shm_steps_mono(2) [OF two_steps])
    moreover have "cons_view c' ?s3" using v1 t1 by (simp add: cons_view_def c' bs)
    moreover have "sc_peer c' = sc_peer ?c1" by (simp add: c')
    ultimately have "cons_run ?c1 s1 bs c' ?s3" by (simp add: cons_run_def)
    from cons_run_trans [OF s1 this] show ?thesis by auto
  qed
qed

lemma DataAvailable_run:
  assumes view: "cons_view c s" and peers: "\<forall>f \<in> set (sc_peer c). producer_move f" and run: "DataAvailable c = (n, c')"
  shows "\<exists>s'. cons_run c s [] c' s'"
  using load_head_run [OF view peers] cons_run_refl [OF view] run
  by (auto simp: DataAvailable_def Let_def split: if_splits)

lemma tryrecv_loop_run:
  assumes "cons_view c s" and "\<forall>f \<in> set (sc_peer c). producer_move f" and "p0 + length got \<le> sz"
    and "tryrecv_loop sz p0 got c = (got', c')"
  shows "\<exists>bs. got' = got @ bs \<and> p0 + length got' \<le> sz \<and>
    (p0 + length got' < sz \<longrightarrow> avail_from (sr_tail (sc_ring c')) c' = 0) \<and> (\<exists>s'. cons_run c s bs c' s')"
  using assms
proof (induction sz p0 got c arbitrary: s rule: tryrecv_loop.induct)
  case (1 sz p0 got c)
  let ?p = "p0 + length got"
  show ?case
  proof (cases "?p < sz")
    case False
    then show ?thesis using 1(3,5,6) cons_run_refl by (auto simp: tryrecv_loop.simps)
  next
    case True
    obtain xs c1 where pr: "Consume sz ?p c = (xs, c1)" by fastforce
    obtain s1 where s1: "cons_run c s xs c1 s1" using Consume_run [OF 1(3,4) pr] by blast
    note peers1 = cons_run_peers [OF s1 1(4)]
    show ?thesis
    proof (cases "xs = []")
      case False
      then have rec: "tryrecv_loop sz p0 (got @ xs) c1 = (got', c')"
        using 1(6) True pr by (simp add: tryrecv_loop.simps [of sz p0 got])
      have "p0 + length (got @ xs) \<le> sz" using Consume_length_le [OF pr] True by simp
      from 1(1) [OF True pr [symmetric] False cons_run_view [OF s1] peers1 this rec]
      obtain bs s' where b: "got' = (got @ xs) @ bs" "p0 + length got' \<le> sz"
        "p0 + length got' < sz \<longrightarrow> avail_from (sr_tail (sc_ring c')) c' = 0" "cons_run c1 s1 bs c' s'" by blast
      from cons_run_trans [OF s1 b(4)] b(1-3) show ?thesis by (intro exI [of _ "xs @ bs"]) auto
    next
      case zero: True
      note pz = Consume_zero [OF pr [unfolded zero] True]
      have s1': "cons_run c s [] c1 s1" using s1 zero by simp
      show ?thesis
      proof (cases "sh_wait_mode (sc_end c1) = EventDriven")
        case False
        then have "(got', c') = (got, c1)" using 1(6) True pr zero by (simp add: tryrecv_loop.simps)
        then show ?thesis using s1' pz True by auto
      next
        case ev: True
        obtain room c2 where sa: "DataAvailable (Drain_data c1) = (room, c2)" by fastforce
        obtain d1 where d1: "cons_run c1 s1 [] (Drain_data c1) d1" using cons_signal_run(1) [OF cons_run_view [OF s1']] by blast
        obtain s2 where "cons_run (Drain_data c1) d1 [] c2 s2"
          using DataAvailable_run [OF cons_run_view [OF d1] cons_run_peers [OF d1 peers1] sa] by blast
        with cons_run_trans [OF s1' d1] have s2: "cons_run c s [] c2 s2" using cons_run_trans by fastforce
        show ?thesis
        proof (cases "room = 0")
          case True
          then have eq: "(got', c') = (got, c2)" using 1(6) \<open>?p < sz\<close> pr zero ev sa by (simp add: tryrecv_loop.simps)
          have "avail_from (sr_tail (sc_ring c2)) c2 = 0"
            using sa True pz by (auto simp: DataAvailable_def Let_def split: if_splits)
          then have "got' = got @ [] \<and> p0 + length got' \<le> sz \<and>
              (p0 + length got' < sz \<longrightarrow> avail_from (sr_tail (sc_ring c')) c' = 0) \<and> (\<exists>s'. cons_run c s [] c' s')"
            using eq s2 1(5) by (simp only: prod.inject append_Nil2 simp_thms) blast
          then show ?thesis by blast
        next
          case False
          then have rec: "tryrecv_loop sz p0 got c2 = (got', c')"
            using 1(6) True pr zero ev sa by (simp add: tryrecv_loop.simps [of sz p0 got c])
          have "\<not> xs \<noteq> []" using zero by simp
          from 1(2) [OF True pr [symmetric] this ev sa [symmetric] False cons_run_view [OF s2] cons_run_peers [OF s2 1(4)] 1(5) rec]
          obtain bs s' where b: "got' = got @ bs" "p0 + length got' \<le> sz"
            "p0 + length got' < sz \<longrightarrow> avail_from (sr_tail (sc_ring c')) c' = 0" "cons_run c2 s2 bs c' s'" by blast
          from cons_run_trans [OF s2 b(4)] b(1-3) show ?thesis by (intro exI [of _ bs]) auto
        qed
      qed
    qed
  qed
qed

end
