(* ===== verification/Occl_Shm_Correct.thy ===== *)
theory Occl_Shm_Correct
  imports Occl_Shm_Fifo Occl_Script
begin

section \<open>The shared-memory transport: theorems\<close>

text \<open>
  What clients of \<open>TransportShm\<close> rely on: the ring is a FIFO for every interleaving and never
  overwrites unread bytes; \<open>TrySend\<close> and \<open>TryRecv\<close> move exactly the bytes they report and stop early
  only on a full or empty ring (the edge-triggered contract of \<open>include/transport/transport.h\<close>); no
  wake-up is lost. At the end \<open>TransportShm\<close> is shown to provide the transport contract of
  \<open>Occl_Exchange\<close> to the collective state machines.
\<close>

subsection \<open>Bounds that need no invariant\<close>

lemma trysend_loop_bounds:
  "trysend_loop data p m c = (p', m', c') \<Longrightarrow> p \<le> p' \<and> (p \<le> length data \<longrightarrow> p' \<le> length data)"
proof (induction data p m c rule: trysend_loop.induct)
  case (1 data p m c)
  show ?case
  proof (cases "p < length data")
    case True
    obtain n c1 where pr: "Produce data p c = (n, c1)" by fastforce
    note n = Produce_chunk_le [OF pr]
    show ?thesis
    proof (cases "n > 0")
      case pos: True
      then have "trysend_loop data (p + n) (m + n) c1 = (p', m', c')"
        using 1(3) True pr by (simp add: trysend_loop.simps [of data p])
      from 1(1) [OF True pr [symmetric] pos this] n True show ?thesis by simp
    next
      case zero: False
      show ?thesis
        using 1(3) 1(2) [OF True pr [symmetric] zero] True pr zero
        by (auto simp: trysend_loop.simps [of data p m c] split: if_splits prod.splits)
    qed
  qed (use 1(3) in \<open>simp add: trysend_loop.simps\<close>)
qed

lemma tryrecv_loop_bounds:
  "tryrecv_loop sz p0 got c = (got', c') \<Longrightarrow>
   \<exists>bs. got' = got @ bs \<and> (p0 + length got \<le> sz \<longrightarrow> p0 + length got' \<le> sz)"
proof (induction sz p0 got c rule: tryrecv_loop.induct)
  case (1 sz p0 got c)
  let ?p = "p0 + length got"
  show ?case
  proof (cases "?p < sz")
    case True
    obtain xs c1 where pr: "Consume sz ?p c = (xs, c1)" by fastforce
    note n = Consume_length_le [OF pr]
    show ?thesis
    proof (cases "xs \<noteq> []")
      case pos: True
      then have "tryrecv_loop sz p0 (got @ xs) c1 = (got', c')"
        using 1(3) True pr by (simp add: tryrecv_loop.simps [of sz p0 got c])
      from 1(1) [OF True pr [symmetric] pos this] n True show ?thesis by fastforce
    next
      case zero: False
      show ?thesis
        using 1(3) 1(2) [OF True pr [symmetric] zero] True pr zero
        by (auto simp: tryrecv_loop.simps [of sz p0 got c] split: if_splits prod.splits)
    qed
  qed (use 1(3) in \<open>simp add: tryrecv_loop.simps\<close>)
qed

subsection \<open>\<open>TransportShm\<close> as the transport of a rank\<close>

text \<open>
  The endpoints of one rank, by handle, and the trace of its calls. Each endpoint carries the
  schedule of its peer.
\<close>

record shm_env =
  sv_links :: "transport_ref \<Rightarrow> shm_cfg"
  sv_trace :: "io list"

definition shm_try_send :: "transport_ref \<Rightarrow> byte list \<Rightarrow> nat \<Rightarrow> shm_env \<Rightarrow> (nat \<times> bool \<times> shm_env) option" where
  "shm_try_send t data p e =
     (case Shm_TrySend data p (sv_links e t) of
        None \<Rightarrow> None
      | Some (p', fin, c) \<Rightarrow> Some (p', fin, e\<lparr>sv_links := (sv_links e)(t := c),
          sv_trace := sv_trace e @ [Sent t (take (p' - p) (drop p data))]\<rparr>))"

definition shm_try_recv :: "transport_ref \<Rightarrow> nat \<Rightarrow> nat \<Rightarrow> shm_env \<Rightarrow> (byte list \<times> bool \<times> shm_env) option" where
  "shm_try_recv t n p e =
     (case Shm_TryRecv n p (sv_links e t) of
        None \<Rightarrow> None
      | Some (bs, fin, c) \<Rightarrow> Some (bs, fin, e\<lparr>sv_links := (sv_links e)(t := c), sv_trace := sv_trace e @ [Rcvd t bs]\<rparr>))"

definition shm_runtime :: "float_unit \<Rightarrow> shm_env runtime" where
  "shm_runtime fp = \<lparr>rt_try_send = shm_try_send, rt_try_recv = shm_try_recv, rt_fp = fp\<rparr>"

interpretation shm: transport "shm_runtime fp" sv_trace for fp
  by unfold_locales
     (auto simp: shm_runtime_def shm_try_send_def shm_try_recv_def Shm_TrySend_def Shm_TryRecv_def
        dest!: trysend_loop_bounds tryrecv_loop_bounds split: option.splits if_splits prod.splits)

interpretation shm_rank0: allreduce_rank demo_params 0 "shm_runtime null_fp" sv_trace 1 2 8 h0 for h0
  by unfold_locales (simp_all add: ar_ok_def demo_params_def ar_units_def INT_MAX_def shm_runtime_def)

subsection \<open>Wake-ups\<close>

text \<open>A consumer call without interference moves \<open>tail\<close> by the bytes it returns and leaves \<open>space_ready\<close> alone.\<close>

definition recv_frame :: "shm_cfg \<Rightarrow> byte list \<Rightarrow> shm_cfg \<Rightarrow> bool" where
  "recv_frame c bs c' \<longleftrightarrow> sc_peer c' = [] \<and> sr_tail (sc_ring c') = sr_tail (sc_ring c) + word_of_nat (length bs) \<and>
     sr_space_ready (sc_ring c') = sr_space_ready (sc_ring c) \<and> sh_wait_mode (sc_end c') = sh_wait_mode (sc_end c)"

lemma recv_frame_trans: "recv_frame a xs b \<Longrightarrow> recv_frame b ys c \<Longrightarrow> recv_frame a (xs @ ys) c"
  by (simp add: recv_frame_def)

lemma load_head_quiet: "sc_peer c = [] \<Longrightarrow> recv_frame c [] (load_head c)"
  by (simp add: recv_frame_def load_head_def)

lemma Consume_frame: "Consume sz p c = (bs, c') \<Longrightarrow> sc_peer c = [] \<Longrightarrow> recv_frame c bs c'"
  using load_head_quiet [of c] by (auto simp: Consume_def Let_def recv_frame_def split: if_splits)

lemma DataAvailable_frame: "DataAvailable (Drain_data c) = (n, c') \<Longrightarrow> sc_peer c = [] \<Longrightarrow> recv_frame c [] c'"
  using load_head_quiet [of "Drain_data c"]
  by (auto simp: DataAvailable_def Let_def recv_frame_def Drain_data_def split: if_splits)

lemma tryrecv_loop_frame:
  "tryrecv_loop sz p0 got c = (got', c') \<Longrightarrow> sc_peer c = [] \<Longrightarrow> \<exists>bs. got' = got @ bs \<and> recv_frame c bs c'"
proof (induction sz p0 got c rule: tryrecv_loop.induct)
  case (1 sz p0 got c)
  let ?p = "p0 + length got"
  show ?case
  proof (cases "?p < sz")
    case True
    obtain xs c1 where pr: "Consume sz ?p c = (xs, c1)" by fastforce
    note f = Consume_frame [OF pr 1(4)]
    then have q: "sc_peer c1 = []" by (simp add: recv_frame_def)
    show ?thesis
    proof (cases "xs \<noteq> []")
      case pos: True
      then have "tryrecv_loop sz p0 (got @ xs) c1 = (got', c')"
        using 1(3) True pr by (simp add: tryrecv_loop.simps [of sz p0 got c])
      from 1(1) [OF True pr [symmetric] pos this q] recv_frame_trans [OF f] show ?thesis by fastforce
    next
      case zero: False
      show ?thesis
      proof (cases "sh_wait_mode (sc_end c1) = EventDriven")
        case ev: True
        obtain n c2 where da: "DataAvailable (Drain_data c1) = (n, c2)" by fastforce
        have g: "recv_frame c [] c2" using recv_frame_trans [OF f DataAvailable_frame [OF da q]] zero by simp
        then have q2: "sc_peer c2 = []" by (simp add: recv_frame_def)
        show ?thesis
        proof (cases "n = 0")
          case True
          then show ?thesis using g 1(3) \<open>?p < sz\<close> pr zero ev da by (auto simp: tryrecv_loop.simps)
        next
          case False
          then have "tryrecv_loop sz p0 got c2 = (got', c')"
            using 1(3) True pr zero ev da by (simp add: tryrecv_loop.simps [of sz p0 got c])
          from 1(2) [OF True pr [symmetric] zero ev da [symmetric] False this q2] recv_frame_trans [OF g]
          show ?thesis by fastforce
        qed
      next
        case False
        then show ?thesis using 1(3) True pr zero f by (auto simp: tryrecv_loop.simps)
      qed
    qed
  qed (use 1(3,4) in \<open>simp add: tryrecv_loop.simps recv_frame_def\<close>)
qed

text \<open>Any number of \<open>TryRecv\<close> calls, each with its size and progress.\<close>

definition shm_recvs :: "(nat \<times> nat) list \<Rightarrow> shm_cfg \<Rightarrow> shm_cfg option" where
  "shm_recvs = for_opt (\<lambda>(sz, p) c. map_option (\<lambda>(bs, fin, c'). c') (Shm_TryRecv sz p c))"

lemma shm_recvs_signal:
  assumes "shm_recvs reqs c = Some c'" and "sc_peer c = []" and "sh_wait_mode (sc_end c) = EventDriven"
  shows "sr_tail (sc_ring c') = sr_tail (sc_ring c) \<or> 0 < sr_space_ready (sc_ring c')"
proof -
  let ?P = "\<lambda>x. sc_peer x = [] \<and> sh_wait_mode (sc_end x) = EventDriven \<and>
    (sr_tail (sc_ring x) = sr_tail (sc_ring c) \<or> 0 < sr_space_ready (sc_ring x))"
  have "?P c'"
  proof (rule for_opt_invariant [where P = ?P, OF assms(1) [unfolded shm_recvs_def]])
    fix q x y assume x: "?P x" and "(case q of (sz, p) \<Rightarrow> \<lambda>c. map_option (\<lambda>(bs, fin, c'). c') (Shm_TryRecv sz p c)) x = Some y"
    then obtain sz p bs fin where r: "Shm_TryRecv sz p x = Some (bs, fin, y)" by (cases q) auto
    then obtain x1 where l: "tryrecv_loop sz p [] x = (bs, x1)"
      and y: "y = (if bs \<noteq> [] \<and> sh_wait_mode (sc_end x1) = EventDriven then Notify_space x1 else x1)"
      by (auto simp: Shm_TryRecv_def split: if_splits prod.splits)
    from tryrecv_loop_frame [OF l] x have f: "recv_frame x bs x1" by auto
    then show "?P y" using x y by (auto simp: recv_frame_def Notify_space_def)
  qed (use assms in simp)
  then show ?thesis by (elim conjE)
qed

text \<open>An unfinished \<open>TrySend\<close> ends with a fresh look at \<open>tail\<close>.\<close>

lemma load_tail_fresh: "sh_cached_tail (sc_end (load_tail c)) = sr_tail (sc_ring (load_tail c))"
  by (simp add: load_tail_def Let_def)

lemma trysend_loop_fresh:
  "trysend_loop data p m c = (p', m', c') \<Longrightarrow> p' < length data \<Longrightarrow>
   sh_cached_tail (sc_end c') = sr_tail (sc_ring c') \<and> room_for (sr_head (sc_ring c')) c' = 0"
proof (induction data p m c rule: trysend_loop.induct)
  case (1 data p m c)
  have True: "p < length data" using 1(3,4) trysend_loop_bounds [OF 1(3)] by simp
  obtain n c1 where pr: "Produce data p c = (n, c1)" by fastforce
  show ?case
  proof (cases "n > 0")
    case pos: True
    then have "trysend_loop data (p + n) (m + n) c1 = (p', m', c')"
      using 1(3) True pr by (simp add: trysend_loop.simps [of data p])
    from 1(1) [OF True pr [symmetric] pos this 1(4)] show ?thesis .
  next
    case zero: False
    then have pr0: "Produce data p c = (0, c1)" using pr by simp
    note pz = Produce_zero [OF pr0 True]
    show ?thesis
    proof (cases "sh_wait_mode (sc_end c1) = EventDriven")
      case False
      then show ?thesis using 1(3) True pr zero pz load_tail_fresh [of c] by (auto simp: trysend_loop.simps)
    next
      case ev: True
      obtain room c2 where sa: "SpaceAvailable (Drain_space c1) = (room, c2)" by fastforce
      have c2: "c2 = load_tail (Drain_space c1)" and room: "room = room_for (sr_head (sc_ring c)) c2"
        using sa pz by (auto simp: SpaceAvailable_def Let_def)
      show ?thesis
      proof (cases "room = 0")
        case z: True
        then have "c' = c2" using 1(3) True pr zero ev sa by (simp add: trysend_loop.simps)
        then show ?thesis using c2 room z pz(2) load_tail_fresh [of "Drain_space c1"] by simp
      next
        case False
        then have "trysend_loop data p m c2 = (p', m', c')"
          using 1(3) True pr zero ev sa by (simp add: trysend_loop.simps [of data p m c])
        from 1(2) [OF True pr [symmetric] zero ev sa [symmetric] False this 1(4)] show ?thesis .
      qed
    qed
  qed
qed

subsection \<open>Properties\<close>


lemma demo_shm_step: "shm_step shm_init (shm_init\<lparr>ss_ring := ring_write 0 [7, 8] (ss_ring shm_init), ss_wpend := [7, 8]\<rparr>)"
  using prod_step.copy_in [of shm_init "[7, 8]"]
  by (simp add: shm_step_def shm_init_def kShmRingCapacity_def ring_offset_def)


text \<open>
  No byte is overwritten before it has been released: while the producer copies a chunk into the
  ring, none of the cells it writes holds a published byte that the consumer has not released.
\<close>

theorem shm_no_overwrite:
  assumes "shm_step\<^sup>*\<^sup>* shm_init s" and "i < length (ss_wpend s)"
    and "length (ss_consumed s) \<le> k" and "k < length (ss_produced s)"
  shows "(length (ss_produced s) + i) mod kShmRingCapacity \<noteq> k mod kShmRingCapacity"
proof
  assume same: "(length (ss_produced s) + i) mod kShmRingCapacity = k mod kShmRingCapacity"
  from shm_reachable_ok [OF assms(1)] obtain CT CH where inv: "shm_inv CT CH s" by (auto simp: shm_ok_def)
  let ?j = "length (ss_produced s) + i"
  have "?j < k + kShmRingCapacity" "k < ?j" using inv assms by (auto simp: shm_inv_def Let_def)
  then have "0 < ?j - k" "?j - k < kShmRingCapacity" by linarith+
  moreover have "kShmRingCapacity dvd ?j - k" using same \<open>k < ?j\<close> by (simp add: mod_eq_dvd_iff_nat)
  ultimately show False by (meson nat_dvd_not_less)
qed

text \<open>One byte published, a second one being written.\<close>

definition demo_shm2 :: shm_sys where
  "demo_shm2 = shm_init\<lparr>ss_ring := (ring_write 1 [9] (ring_write 0 [7] (ss_ring shm_init)))\<lparr>sr_head := 1\<rparr>,
     ss_wpend := [9], ss_produced := [7]\<rparr>"

lemma demo_shm2_reachable: "shm_step\<^sup>*\<^sup>* shm_init demo_shm2"
proof -
  let ?a = "shm_init\<lparr>ss_ring := ring_write 0 [7] (ss_ring shm_init), ss_wpend := [7]\<rparr>"
  let ?b = "?a\<lparr>ss_ring := (ss_ring ?a)\<lparr>sr_head := 1\<rparr>, ss_produced := [7], ss_wpend := []\<rparr>"
  have a: "prod_step shm_init ?a" using prod_step.copy_in [of shm_init "[7]"]
    by (simp add: shm_init_def kShmRingCapacity_def ring_offset_def)
  have b: "prod_step ?a ?b" using prod_step.publish [of ?a] by (simp add: shm_init_def ring_write_def)
  have c: "prod_step ?b demo_shm2" using prod_step.copy_in [of ?b "[9]"]
    by (simp add: shm_init_def kShmRingCapacity_def ring_offset_def demo_shm2_def ring_write_def)
  from two_steps [where R = prod_step, OF a b] c show ?thesis
    by (intro shm_steps_mono(1)) (rule rtranclp.rtrancl_into_rtrancl)
qed

theorem shm_no_overwrite_witness:
  "(1 + 0) mod kShmRingCapacity \<noteq> 0 mod kShmRingCapacity"
  using shm_no_overwrite [OF demo_shm2_reachable, of 0 0] by (simp add: demo_shm2_def shm_init_def)

text \<open>
  C5. \<open>TrySend\<close> on a ring in any reachable state, with any consumer activity between its accesses: it is
  a run of the ring that publishes exactly \<open>data[progress .. progress')\<close>, reports \<open>done\<close> exactly when
  everything has been published, and gives up only after having found the ring full.
\<close>

theorem shm_TrySend_refines:
  assumes "shm_step\<^sup>*\<^sup>* shm_init s" and "prod_view c s" and "\<forall>f \<in> set (sc_peer c). consumer_move f"
    and "p \<le> length data" and "Shm_TrySend data p c = Some (p', fin, c')"
  shows "p \<le> p' \<and> p' \<le> length data \<and> fin = (p' = length data) \<and>
    (\<not> fin \<longrightarrow> room_for (sr_head (sc_ring c')) c' = 0) \<and>
    (\<exists>s'. shm_step\<^sup>*\<^sup>* shm_init s' \<and> shm_step\<^sup>*\<^sup>* s s' \<and> prod_view c' s' \<and>
       ss_produced s' = ss_produced s @ take (p' - p) (drop p data))"
proof -
  from assms(5) obtain m c1 where l: "trysend_loop data p 0 c = (p', m, c1)" and fin: "fin = (p' = length data)"
    and c': "c' = (if m > 0 \<and> sh_wait_mode (sc_end c1) = EventDriven then Notify_data c1 else c1)"
    by (auto simp: Shm_TrySend_def split: if_splits prod.splits)
  note r = trysend_loop_run [OF assms(2-4) l]
  then obtain s1 where s1: "prod_run c s (take (p' - p) (drop p data)) c1 s1" by blast
  obtain s2 where "prod_run c1 s1 [] c' s2"
    using signal_run(2) [OF prod_run_view [OF s1]] prod_run_refl [OF prod_run_view [OF s1]]
    by (cases "0 < m \<and> sh_wait_mode (sc_end c1) = EventDriven") (auto simp: c')
  from prod_run_trans [OF s1 this] have run: "prod_run c s (take (p' - p) (drop p data)) c' s2" by simp
  have "room_for (sr_head (sc_ring c')) c' = room_for (sr_head (sc_ring c1)) c1"
    by (simp add: c' Notify_data_def room_for_def)
  with r fin run rtranclp_trans [OF assms(1)] show ?thesis by (auto simp: prod_run_def)
qed

definition demo_shm_end :: "TransportDirection \<Rightarrow> ShmEnd" where
  "demo_shm_end d = \<lparr>sh_direction = d, sh_connected = True, sh_wait_mode = EventDriven, sh_cached_tail = 0, sh_cached_head = 0\<rparr>"

text \<open>A consumer that releases one byte if there is one.\<close>

definition release_one :: "ShmRing \<Rightarrow> ShmRing" where
  "release_one r = (if sr_head r = sr_tail r then r else r\<lparr>sr_tail := sr_tail r + 1\<rparr>)"

lemma consumer_move_release_one: "consumer_move release_one"
  unfolding consumer_move_def
proof (intro allI impI)
  fix s :: shm_sys assume r: "ss_rpend s = []"
  show "\<exists>s'. cons_step\<^sup>*\<^sup>* s s' \<and> ss_ring s' = consumer_acts release_one (ss_ring s) \<and> ss_rpend s' = []"
  proof (cases "sr_head (ss_ring s) = sr_tail (ss_ring s)")
    case True
    then show ?thesis using r by (intro exI [of _ s]) (simp add: consumer_acts_def release_one_def)
  next
    case False
    let ?a = "s\<lparr>ss_chead := sr_head (ss_ring s)\<rparr>"
    let ?b = "?a\<lparr>ss_rpend := heap_load (sr_data (ss_ring s)) (ring_offset (sr_tail (ss_ring s))) 1\<rparr>"
    let ?c = "?b\<lparr>ss_ring := (ss_ring ?b)\<lparr>sr_tail := sr_tail (ss_ring ?b) + word_of_nat (length (ss_rpend ?b))\<rparr>,
      ss_consumed := ss_consumed ?b @ ss_rpend ?b, ss_rpend := []\<rparr>"
    have "sr_head (ss_ring s) - sr_tail (ss_ring s) \<noteq> 0" using False by simp
    then have one: "1 \<le> unat (sr_head (ss_ring s) - sr_tail (ss_ring s))"
      by (metis One_nat_def Suc_leI neq0_conv unat_eq_0)
    have b: "cons_step ?a ?b" using cons_step.copy_out [of ?a 1] r one offset_less [of "sr_tail (ss_ring s)"] by simp
    have "cons_step\<^sup>*\<^sup>* s ?c"
      by (rule rtranclp.rtrancl_into_rtrancl [OF two_steps [where R = cons_step, OF cons_step.load_head b] cons_step.release])
    moreover have "ss_ring ?c = consumer_acts release_one (ss_ring s)"
      using False by (simp add: consumer_acts_def release_one_def)
    ultimately show ?thesis by (intro exI [of _ ?c]) simp
  qed
qed

definition demo_prod :: shm_cfg where
  "demo_prod = \<lparr>sc_end = demo_shm_end DirSend, sc_ring = ss_ring shm_init, sc_peer = [release_one]\<rparr>"

lemmas demo_eval = demo_prod_def demo_shm_end_def shm_init_def IsProducer_def room_for_def ring_offset_def
  kShmRingCapacity_def ring_write_def Notify_data_def

lemma demo_send:
  "map_option (\<lambda>(p, fin, c). (p, fin, sr_head (sc_ring c), sr_data_ready (sc_ring c))) (Shm_TrySend [7, 8, 9] 1 demo_prod) =
   Some (3, True, 2, 1)"
  by (simp add: Shm_TrySend_def trysend_loop.simps Produce_def Let_def demo_eval)

theorem shm_TrySend_refines_witness:
  "\<exists>c' s'. Shm_TrySend [7, 8, 9] 1 demo_prod = Some (3, True, c') \<and> shm_step\<^sup>*\<^sup>* shm_init s' \<and>
     prod_view c' s' \<and> ss_produced s' = [8, 9]"
proof -
  obtain c' where run: "Shm_TrySend [7, 8, 9] 1 demo_prod = Some (3, True, c')" using demo_send by auto
  have "prod_view demo_prod shm_init" by (simp add: prod_view_def demo_prod_def demo_shm_end_def shm_init_def)
  moreover have "\<forall>f \<in> set (sc_peer demo_prod). consumer_move f" by (simp add: demo_prod_def consumer_move_release_one)
  ultimately show ?thesis
    using shm_TrySend_refines [OF rtranclp.rtrancl_refl, of demo_prod 1 "[7, 8, 9]" 3 True c'] run
    by (auto simp: shm_init_def)
qed

text \<open>
  \<open>TryRecv\<close> is a run of the ring that releases exactly the bytes it stores for the caller, reports
  \<open>done\<close> exactly when the request is complete, and gives up only after having found the ring empty.
\<close>

theorem shm_TryRecv_refines:
  assumes "shm_step\<^sup>*\<^sup>* shm_init s" and "cons_view c s" and "\<forall>f \<in> set (sc_peer c). producer_move f"
    and "p \<le> sz" and "Shm_TryRecv sz p c = Some (bs, fin, c')"
  shows "p + length bs \<le> sz \<and> fin = (p + length bs = sz) \<and>
    (\<not> fin \<longrightarrow> avail_from (sr_tail (sc_ring c')) c' = 0) \<and>
    (\<exists>s'. shm_step\<^sup>*\<^sup>* shm_init s' \<and> shm_step\<^sup>*\<^sup>* s s' \<and> cons_view c' s' \<and>
       ss_consumed s' = ss_consumed s @ bs \<and> prefix (ss_consumed s @ bs) (ss_produced s'))"
proof -
  from assms(5) obtain c1 where l: "tryrecv_loop sz p [] c = (bs, c1)" and fin: "fin = (p + length bs = sz)"
    and c': "c' = (if bs \<noteq> [] \<and> sh_wait_mode (sc_end c1) = EventDriven then Notify_space c1 else c1)"
    by (auto simp: Shm_TryRecv_def split: if_splits prod.splits)
  have "p + length [] \<le> sz" using assms(4) by simp
  from tryrecv_loop_run [OF assms(2,3) this l] obtain s1 where
    r: "p + length bs \<le> sz" "p + length bs < sz \<longrightarrow> avail_from (sr_tail (sc_ring c1)) c1 = 0" and s1: "cons_run c s bs c1 s1"
    by auto
  obtain s2 where "cons_run c1 s1 [] c' s2"
    using cons_signal_run(2) [OF cons_run_view [OF s1]] cons_run_refl [OF cons_run_view [OF s1]]
    by (cases "bs \<noteq> [] \<and> sh_wait_mode (sc_end c1) = EventDriven") (auto simp: c')
  from cons_run_trans [OF s1 this] have run: "cons_run c s bs c' s2" by simp
  then have reach: "shm_step\<^sup>*\<^sup>* shm_init s2" using rtranclp_trans [OF assms(1)] by (auto simp: cons_run_def)
  from shm_reachable_ok [OF this] obtain CT CH where "shm_inv CT CH s2" by (auto simp: shm_ok_def)
  then have "ss_consumed s2 @ ss_rpend s2 = take (length (ss_consumed s2) + length (ss_rpend s2)) (ss_produced s2)"
    by (simp add: shm_inv_def Let_def)
  then have "prefix (ss_consumed s2 @ ss_rpend s2) (ss_produced s2)" by (metis take_is_prefix)
  then have "prefix (ss_consumed s2) (ss_produced s2)" by (metis append_prefixD)
  moreover have "avail_from (sr_tail (sc_ring c')) c' = avail_from (sr_tail (sc_ring c1)) c1"
    by (simp add: c' Notify_space_def avail_from_def)
  ultimately show ?thesis using r fin run reach by (auto simp: cons_run_def)
qed

definition demo_shm1 :: shm_sys where
  "demo_shm1 = shm_init\<lparr>ss_ring := (ring_write 0 [7] (ss_ring shm_init))\<lparr>sr_head := 1\<rparr>, ss_produced := [7]\<rparr>"

lemma demo_shm1_reachable: "shm_step\<^sup>*\<^sup>* shm_init demo_shm1"
proof -
  let ?a = "shm_init\<lparr>ss_ring := ring_write 0 [7] (ss_ring shm_init), ss_wpend := [7]\<rparr>"
  have a: "prod_step shm_init ?a" using prod_step.copy_in [of shm_init "[7]"]
    by (simp add: shm_init_def kShmRingCapacity_def ring_offset_def)
  have b: "prod_step ?a demo_shm1" using prod_step.publish [of ?a] by (simp add: shm_init_def ring_write_def demo_shm1_def)
  from two_steps [where R = prod_step, OF a b] show ?thesis by (rule shm_steps_mono(1))
qed

definition signal_data :: "ShmRing \<Rightarrow> ShmRing" where
  "signal_data r = r\<lparr>sr_data_ready := 1\<rparr>"

lemma producer_move_signal_data: "producer_move signal_data"
  unfolding producer_move_def
proof (intro allI impI)
  fix s :: shm_sys assume w: "ss_wpend s = []"
  let ?s = "s\<lparr>ss_ring := (ss_ring s)\<lparr>sr_data_ready := 1, sr_space_ready := sr_space_ready (ss_ring s)\<rparr>\<rparr>"
  have "prod_step\<^sup>*\<^sup>* s ?s" by (rule r_into_rtranclp) (rule prod_step.event)
  then show "\<exists>s'. prod_step\<^sup>*\<^sup>* s s' \<and> ss_ring s' = producer_acts signal_data (ss_ring s) \<and> ss_wpend s' = []"
    using w by (intro exI [of _ ?s]) (simp add: producer_acts_def signal_data_def)
qed

definition demo_cons :: shm_cfg where
  "demo_cons = \<lparr>sc_end = demo_shm_end DirReceive, sc_ring = ss_ring demo_shm1, sc_peer = [signal_data]\<rparr>"

lemma demo_recv:
  "map_option (\<lambda>(bs, fin, c). (bs, fin, sr_tail (sc_ring c), sr_space_ready (sc_ring c))) (Shm_TryRecv 2 0 demo_cons) =
   Some ([7], False, 1, 2)"
  by (simp add: Shm_TryRecv_def tryrecv_loop.simps Consume_def DataAvailable_def load_head_def producer_acts_def signal_data_def
      Drain_data_def Let_def demo_eval demo_cons_def demo_shm1_def avail_from_def Notify_space_def heap_load_def heap_store_def)

theorem shm_TryRecv_refines_witness:
  "\<exists>c' s'. Shm_TryRecv 2 0 demo_cons = Some ([7], False, c') \<and> shm_step\<^sup>*\<^sup>* shm_init s' \<and>
     cons_view c' s' \<and> ss_consumed s' = [7]"
proof -
  obtain c' where run: "Shm_TryRecv 2 0 demo_cons = Some ([7], False, c')" using demo_recv by auto
  have "cons_view demo_cons demo_shm1" by (simp add: cons_view_def demo_cons_def demo_shm_end_def demo_shm1_def shm_init_def)
  moreover have "\<forall>f \<in> set (sc_peer demo_cons). producer_move f" by (simp add: demo_cons_def producer_move_signal_data)
  ultimately show ?thesis
    using shm_TryRecv_refines [OF demo_shm1_reachable, of demo_cons 0 2 "[7]" False c'] run
    by (auto simp: demo_shm1_def shm_init_def)
qed


text \<open>A full ring, from which two bytes are read.\<close>

definition demo_full :: shm_cfg where
  "demo_full = \<lparr>sc_end = demo_shm_end DirSend, sc_ring = (ss_ring shm_init)\<lparr>sr_head := 2097152\<rparr>, sc_peer = []\<rparr>"

lemma demo_blocked: "\<exists>c. Shm_TrySend [5] 0 demo_full = Some (0, False, c) \<and> sc_ring c = (sc_ring demo_full)\<lparr>sr_space_ready := 0\<rparr> \<and>
    sh_cached_tail (sc_end c) = 0"
  by (simp add: Shm_TrySend_def trysend_loop.simps Produce_def Let_def demo_eval demo_full_def load_tail_def SpaceAvailable_def Drain_space_def)

definition demo_reader :: shm_cfg where
  "demo_reader = \<lparr>sc_end = demo_shm_end DirReceive, sc_ring = (sc_ring demo_full)\<lparr>sr_space_ready := 0\<rparr>, sc_peer = []\<rparr>"

lemma demo_reads: "\<exists>c. shm_recvs [(2, 0)] demo_reader = Some c \<and> sr_tail (sc_ring c) = 2"
  by (simp add: shm_recvs_def Shm_TryRecv_def tryrecv_loop.simps Consume_def load_head_def Let_def demo_eval demo_full_def
      demo_reader_def avail_from_def Notify_space_def heap_load_def)


end
