(* ===== verification/Occl_Shm_Setup.thy ===== *)
theory Occl_Shm_Setup
  imports Occl_Shm_Correct
begin

section \<open>The shared-memory transport: rendezvous and descriptors\<close>

text \<open>
  The life cycle of \<open>TransportShm\<close>: the connector creates the ring and the two eventfds and passes
  their descriptors over a Unix socket to the acceptor, which takes the opposite direction. The
  system calls are the fields of a record over an environment \<open>'e\<close>; \<open>sys_sendmsg\<close>, \<open>sys_recvmsg\<close>,
  \<open>sys_send\<close>, \<open>sys_recv\<close> stand for the call together with its loop that repeats it on \<open>EINTR\<close>. The
  locale \<open>descriptors\<close> states what the calls do to the set of open descriptors.
\<close>

record 'e os_shm =
  sys_unlink :: "byte list \<Rightarrow> 'e \<Rightarrow> 'e"
  sys_socket :: "'e \<Rightarrow> int \<times> 'e"
  sys_bind :: "int \<Rightarrow> byte list \<Rightarrow> 'e \<Rightarrow> int \<times> 'e"
  sys_listen :: "int \<Rightarrow> int \<Rightarrow> 'e \<Rightarrow> int \<times> 'e"
  sys_accept4 :: "int \<Rightarrow> 'e \<Rightarrow> int \<times> 'e"
  sys_connect :: "int \<Rightarrow> byte list \<Rightarrow> 'e \<Rightarrow> int \<times> 'e"
  sys_memfd_create :: "'e \<Rightarrow> int \<times> 'e"
  sys_ftruncate :: "int \<Rightarrow> nat \<Rightarrow> 'e \<Rightarrow> int \<times> 'e"
  sys_mmap :: "int \<Rightarrow> bool \<Rightarrow> 'e \<Rightarrow> bool \<times> 'e"
  sys_munmap :: "'e \<Rightarrow> 'e"
  sys_eventfd :: "nat \<Rightarrow> 'e \<Rightarrow> int \<times> 'e"
  sys_close :: "int \<Rightarrow> 'e \<Rightarrow> 'e"
  sys_sendmsg :: "int \<Rightarrow> byte list \<Rightarrow> int list \<Rightarrow> 'e \<Rightarrow> int \<times> 'e"
  sys_recvmsg :: "int \<Rightarrow> 'e \<Rightarrow> int \<times> byte list \<times> int list list \<times> 'e"
  sys_send :: "int \<Rightarrow> byte list \<Rightarrow> 'e \<Rightarrow> int \<times> 'e"
  sys_recv :: "int \<Rightarrow> nat \<Rightarrow> 'e \<Rightarrow> int \<times> byte list \<times> 'e"

text \<open>
  \<open>sys_mmap\<close> takes the descriptor and whether the cursors are to be initialised. \<open>sys_recvmsg\<close> returns
  the length, the payload and the descriptor lists of the \<open>SCM_RIGHTS\<close> control messages.
\<close>

record RingResources =
  rr_ring :: int
  rr_data_ready :: int
  rr_space_ready :: int

definition RingResources_default :: RingResources where
  "RingResources_default = \<lparr>rr_ring = -1, rr_data_ready = -1, rr_space_ready = -1\<rparr>"

record TransportShm =
  ts_end :: ShmEnd
  ts_listen_fd :: int
  ts_listen_path :: "byte list"
  ts_control_fd :: int
  ts_resources :: RingResources
  ts_mapped :: bool

definition TransportShm_default :: TransportShm where
  "TransportShm_default = \<lparr>ts_end = \<lparr>sh_direction = Bidirectional, sh_connected = False, sh_wait_mode = EventDriven,
       sh_cached_tail = 0, sh_cached_head = 0\<rparr>,
     ts_listen_fd = -1, ts_listen_path = [], ts_control_fd = -1, ts_resources = RingResources_default, ts_mapped = False\<rparr>"

definition kShmResourceMagic :: "32 word" where "kShmResourceMagic = 0x53484d31"
definition kShmRendezvousBacklog :: int where "kShmRendezvousBacklog = 128"
definition kShmRingMapSize :: nat where "kShmRingMapSize = 128 + kShmRingCapacity"

fun direction_code :: "TransportDirection \<Rightarrow> 32 word" where
  "direction_code Bidirectional = 0"
| "direction_code DirSend = 1"
| "direction_code DirReceive = 2"

subsection \<open>Closing\<close>

text \<open>\<open>if (fd >= 0) { close(fd); fd = -1; }\<close>\<close>

definition close_if :: "'e os_shm \<Rightarrow> int \<Rightarrow> 'e \<Rightarrow> 'e" where
  "close_if os fd e = (if fd \<ge> 0 then sys_close os fd e else e)"

definition RingResources_Close :: "'e os_shm \<Rightarrow> RingResources \<Rightarrow> 'e \<Rightarrow> RingResources \<times> 'e" where
  "RingResources_Close os r e =
     (RingResources_default, close_if os (rr_space_ready r) (close_if os (rr_data_ready r) (close_if os (rr_ring r) e)))"

definition CloseControl :: "'e os_shm \<Rightarrow> TransportShm \<Rightarrow> 'e \<Rightarrow> TransportShm \<times> 'e" where
  "CloseControl os t e = (t\<lparr>ts_control_fd := -1\<rparr>, close_if os (ts_control_fd t) e)"

definition Shm_Close :: "'e os_shm \<Rightarrow> TransportShm \<Rightarrow> 'e \<Rightarrow> TransportShm \<times> 'e" where
  "Shm_Close os t e =
     (let (t1, e1) = CloseControl os t e;
          e2 = (if ts_mapped t1 then sys_munmap os e1 else e1);
          (r, e3) = RingResources_Close os (ts_resources t1) e2;
          e4 = close_if os (ts_listen_fd t1) e3;
          e5 = (if ts_listen_path t1 \<noteq> [] then sys_unlink os (ts_listen_path t1) e4 else e4)
      in (t1\<lparr>ts_mapped := False, ts_resources := r, ts_listen_fd := -1, ts_listen_path := [],
             ts_end := (ts_end t1)\<lparr>sh_connected := False\<rparr>\<rparr>, e5))"

subsection \<open>Listening\<close>

text \<open>\<open>RendezvousAddress::Set\<close> succeeds on a non-empty path that fits \<open>sun_path\<close>.\<close>

definition RendezvousAddress_Set :: "byte list \<Rightarrow> bool" where
  "RendezvousAddress_Set path \<longleftrightarrow> \<not> (path = [] \<or> length path \<ge> 108)"

definition Shm_Listen :: "'e os_shm \<Rightarrow> byte list \<Rightarrow> TransportShm \<Rightarrow> 'e \<Rightarrow> bool \<times> TransportShm \<times> 'e" where
  "Shm_Listen os addr t e =
     (if \<not> RendezvousAddress_Set addr then (False, t, e)
      else (case sys_socket os (sys_unlink os addr e) of
        (fd, e1) \<Rightarrow>
          if fd < 0 then (False, t, e1)
          else (case sys_bind os fd addr e1 of
            (rc, e2) \<Rightarrow>
              if rc \<noteq> 0 then (False, t, sys_close os fd e2)
              else (case sys_listen os fd kShmRendezvousBacklog e2 of
                (rc, e3) \<Rightarrow>
                  if rc \<noteq> 0 then (False, t, sys_unlink os addr (sys_close os fd e3))
                  else (True, t\<lparr>ts_listen_fd := fd, ts_listen_path := addr\<rparr>, e3)))))"

subsection \<open>Passing the descriptors\<close>

definition SendResources :: "'e os_shm \<Rightarrow> TransportShm \<Rightarrow> int \<Rightarrow> 'e \<Rightarrow> bool \<times> 'e" where
  "SendResources os t fd e =
     (case sys_sendmsg os fd (le32 kShmResourceMagic @ le32 (direction_code (sh_direction (ts_end t))))
             [rr_ring (ts_resources t), rr_data_ready (ts_resources t), rr_space_ready (ts_resources t)] e of
        (sent, e') \<Rightarrow> (sent = 8, e'))"

text \<open>The last control message with exactly three descriptors counts.\<close>

definition transferred_fds :: "int list list \<Rightarrow> int list option" where
  "transferred_fds cmsgs = (case filter (\<lambda>fds. length fds = 3) cmsgs of [] \<Rightarrow> None | x # xs \<Rightarrow> Some (last (x # xs)))"

fun fds_resources :: "int list \<Rightarrow> RingResources" where
  "fds_resources [a, b, c] = \<lparr>rr_ring = a, rr_data_ready = b, rr_space_ready = c\<rparr>"
| "fds_resources _ = RingResources_default"

definition RecvResources :: "'e os_shm \<Rightarrow> int \<Rightarrow> 'e \<Rightarrow> (RingResources \<times> TransportDirection) option \<times> 'e" where
  "RecvResources os fd e =
     (case sys_recvmsg os fd e of
        (received, msg, cmsgs, e1) \<Rightarrow>
          let fds = transferred_fds cmsgs;
              res = (case fds of None \<Rightarrow> RingResources_default | Some xs \<Rightarrow> fds_resources xs);
              magic = un_le32 (take 4 msg); direction = un_le32 (take 4 (drop 4 msg))
          in if fds \<noteq> None \<and> received = 8 \<and> magic = kShmResourceMagic \<and>
                (direction = direction_code DirSend \<or> direction = direction_code DirReceive)
             then (Some (res, if direction = direction_code DirSend then DirSend else DirReceive), e1)
             else (None, snd (RingResources_Close os res e1)))"

subsection \<open>Mapping and creating the ring\<close>

definition MapRing :: "'e os_shm \<Rightarrow> int \<Rightarrow> bool \<Rightarrow> TransportShm \<Rightarrow> 'e \<Rightarrow> bool \<times> TransportShm \<times> 'e" where
  "MapRing os fd initialize t e =
     (let t1 = t\<lparr>ts_resources := (ts_resources t)\<lparr>rr_ring := fd\<rparr>\<rparr> in
      (case sys_mmap os fd initialize e of
         (ok, e1) \<Rightarrow> (ok, t1\<lparr>ts_mapped := ok\<rparr>, e1)))"

definition CreateRing :: "'e os_shm \<Rightarrow> TransportShm \<Rightarrow> 'e \<Rightarrow> bool \<times> TransportShm \<times> 'e" where
  "CreateRing os t e =
     (case sys_memfd_create os e of
        (fd, e1) \<Rightarrow>
          let t1 = t\<lparr>ts_resources := (ts_resources t)\<lparr>rr_ring := fd\<rparr>\<rparr> in
          if fd < 0 then (False, t1, e1)
          else (case sys_ftruncate os fd kShmRingMapSize e1 of
            (rc, e2) \<Rightarrow>
              if rc \<noteq> 0 then (False, t1, e2)
              else (case MapRing os fd True t1 e2 of
                (False, t2, e3) \<Rightarrow> (False, t2, e3)
              | (True, t2, e3) \<Rightarrow>
                  (case sys_eventfd os 0 e3 of
                     (d, e4) \<Rightarrow> (case sys_eventfd os 1 e4 of
                       (sp, e5) \<Rightarrow>
                         (\<not> (d < 0 \<or> sp < 0),
                          t2\<lparr>ts_resources := (ts_resources t2)\<lparr>rr_data_ready := d, rr_space_ready := sp\<rparr>\<rparr>, e5))))))"

definition Adopt :: "'e os_shm \<Rightarrow> RingResources \<Rightarrow> TransportDirection \<Rightarrow> TransportShm \<Rightarrow> 'e \<Rightarrow> bool \<times> TransportShm \<times> 'e" where
  "Adopt os incoming direction t e =
     (let t1 = t\<lparr>ts_resources := incoming, ts_end := (ts_end t)\<lparr>sh_direction := direction\<rparr>\<rparr> in
      (case MapRing os (rr_ring incoming) False t1 e of
         (False, t2, e1) \<Rightarrow> (False, t2, e1)
       | (True, t2, e1) \<Rightarrow> (True, t2\<lparr>ts_end := (ts_end t2)\<lparr>sh_connected := True\<rparr>\<rparr>, e1)))"

subsection \<open>Accept and Connect\<close>

definition Shm_Accept :: "'e os_shm \<Rightarrow> TransportShm \<Rightarrow> 'e \<Rightarrow> TransportShm option \<times> 'e" where
  "Shm_Accept os t e =
     (if ts_listen_fd t < 0 then (None, e)
      else (case sys_accept4 os (ts_listen_fd t) e of
        (control, e1) \<Rightarrow>
          if control < 0 then (None, e1)
          else (case RecvResources os control e1 of
            (None, e2) \<Rightarrow> (None, sys_close os control e2)
          | (Some (incoming, peer_direction), e2) \<Rightarrow>
              let t1 = TransportShm_default\<lparr>ts_control_fd := control\<rparr>;
                  local = (if peer_direction = DirSend then DirReceive else DirSend)
              in (case Adopt os incoming local t1 e2 of
                    (False, t2, e3) \<Rightarrow> (None, snd (Shm_Close os t2 e3))
                  | (True, t2, e3) \<Rightarrow> (Some t2, e3)))))"

definition Shm_Connect :: "'e os_shm \<Rightarrow> byte list \<Rightarrow> TransportShm \<Rightarrow> 'e \<Rightarrow> bool \<times> TransportShm \<times> 'e" where
  "Shm_Connect os path t e =
     (if sh_direction (ts_end t) \<noteq> DirSend \<and> sh_direction (ts_end t) \<noteq> DirReceive then (False, t, e)
      else if \<not> RendezvousAddress_Set path then (False, t, e)
      else (case CreateRing os t e of
        (False, t1, e1) \<Rightarrow> (False, Shm_Close os t1 e1)
      | (True, t1, e1) \<Rightarrow>
          (case sys_socket os e1 of
             (fd, e2) \<Rightarrow>
               if fd < 0 then (False, Shm_Close os t1 e2)
               else (case sys_connect os fd path e2 of
                 (rc, e3) \<Rightarrow>
                   if rc \<noteq> 0 then (False, Shm_Close os t1 (sys_close os fd e3))
                   else (case SendResources os t1 fd e3 of
                     (False, e4) \<Rightarrow> (False, Shm_Close os t1 (sys_close os fd e4))
                   | (True, e4) \<Rightarrow>
                       (True, t1\<lparr>ts_control_fd := fd, ts_end := (ts_end t1)\<lparr>sh_connected := True\<rparr>\<rparr>, e4))))))"

subsection \<open>Blocking transfers\<close>

text \<open>\<open>SendControl\<close> and \<open>RecvControl\<close>: move all bytes over the control socket.\<close>

function SendControl :: "'e os_shm \<Rightarrow> int \<Rightarrow> byte list \<Rightarrow> nat \<Rightarrow> 'e \<Rightarrow> bool \<times> 'e" where
  "SendControl os fd data sent e =
     (if sent < length data then
        (case sys_send os fd (drop sent data) e of
           (rc, e1) \<Rightarrow> if rc > 0 then SendControl os fd data (sent + nat rc) e1 else (False, e1))
      else (True, e))"
  by pat_completeness auto
termination
  by (relation "measure (\<lambda>(os, fd, data, sent, e). length data - sent)") auto

function RecvControl :: "'e os_shm \<Rightarrow> int \<Rightarrow> nat \<Rightarrow> byte list \<Rightarrow> 'e \<Rightarrow> byte list option \<times> 'e" where
  "RecvControl os fd sz got e =
     (if length got < sz then
        (case sys_recv os fd (sz - length got) e of
           (rc, bs, e1) \<Rightarrow> if rc > 0 \<and> length bs = nat rc then RecvControl os fd sz (got @ bs) e1 else (None, e1))
      else (Some got, e))"
  by pat_completeness auto
termination
  by (relation "measure (\<lambda>(os, fd, sz, got, e). sz - length got)") auto

declare SendControl.simps [simp del] RecvControl.simps [simp del]

text \<open>
  \<open>WaitReadable\<close> blocks until the eventfd counter is positive; the peer acts meanwhile. When the peer
  does nothing more, the call does not return: \<^term>\<open>None\<close>.
\<close>

fun wait_event :: "(ShmRing \<Rightarrow> nat) \<Rightarrow> ((ShmRing \<Rightarrow> ShmRing) \<Rightarrow> ShmRing \<Rightarrow> ShmRing) \<Rightarrow> (ShmRing \<Rightarrow> ShmRing) list \<Rightarrow>
    ShmRing \<Rightarrow> (ShmRing \<times> (ShmRing \<Rightarrow> ShmRing) list) option" where
  "wait_event counter acts peers r =
     (if 0 < counter r then Some (r, peers)
      else (case peers of [] \<Rightarrow> None | f # fs \<Rightarrow> wait_event counter acts fs (acts f r)))"

definition WaitReadable_space :: "shm_cfg \<Rightarrow> shm_cfg option" where
  "WaitReadable_space c = map_option (\<lambda>(r, ps). c\<lparr>sc_ring := r, sc_peer := ps\<rparr>)
     (wait_event sr_space_ready consumer_acts (sc_peer c) (sc_ring c))"

definition WaitReadable_data :: "shm_cfg \<Rightarrow> shm_cfg option" where
  "WaitReadable_data c = map_option (\<lambda>(r, ps). c\<lparr>sc_ring := r, sc_peer := ps\<rparr>)
     (wait_event sr_data_ready producer_acts (sc_peer c) (sc_ring c))"

text \<open>The loops of \<open>Send\<close> and \<open>Recv\<close> on the ring; \<^term>\<open>None\<close> when they return false or do not return.\<close>

partial_function (option) ring_send :: "byte list \<Rightarrow> nat \<Rightarrow> shm_cfg \<Rightarrow> shm_cfg option" where
  "ring_send data progress c =
     (case Shm_TrySend data progress c of
        None \<Rightarrow> None
      | Some (p, fin, c1) \<Rightarrow>
          if fin then Some c1
          else (case WaitReadable_space c1 of None \<Rightarrow> None | Some c2 \<Rightarrow> ring_send data p c2))"

partial_function (option) ring_recv :: "nat \<Rightarrow> byte list \<Rightarrow> shm_cfg \<Rightarrow> (byte list \<times> shm_cfg) option" where
  "ring_recv sz got c =
     (case Shm_TryRecv sz (length got) c of
        None \<Rightarrow> None
      | Some (bs, fin, c1) \<Rightarrow>
          if fin then Some (got @ bs, c1)
          else (case WaitReadable_data c1 of None \<Rightarrow> None | Some c2 \<Rightarrow> ring_recv sz (got @ bs) c2))"

text \<open>
  \<open>Send\<close> and \<open>Recv\<close>: the first message after the rendezvous goes over the control socket and is
  acknowledged by one byte; then the control socket is closed and the ring takes over. The ring
  side of the object is \<open>c\<close>.
\<close>

definition Shm_Send ::
  "'e os_shm \<Rightarrow> byte list \<Rightarrow> TransportShm \<Rightarrow> shm_cfg \<Rightarrow> 'e \<Rightarrow> (TransportShm \<times> shm_cfg) option \<times> 'e" where
  "Shm_Send os data t c e =
     (if ts_control_fd t \<ge> 0 then
        (case SendControl os (ts_control_fd t) data 0 e of
           (False, e1) \<Rightarrow> (None, e1)
         | (True, e1) \<Rightarrow>
             (case RecvControl os (ts_control_fd t) 1 [] e1 of
                (None, e2) \<Rightarrow> (None, e2)
              | (Some _, e2) \<Rightarrow> (case CloseControl os t e2 of (t1, e3) \<Rightarrow> (Some (t1, c), e3))))
      else if \<not> sh_connected (sc_end c) \<or> \<not> IsProducer (sc_end c) then (None, e)
      else (map_option (Pair t) (ring_send data 0 c), e))"

definition Shm_Recv ::
  "'e os_shm \<Rightarrow> nat \<Rightarrow> TransportShm \<Rightarrow> shm_cfg \<Rightarrow> 'e \<Rightarrow> (byte list \<times> TransportShm \<times> shm_cfg) option \<times> 'e" where
  "Shm_Recv os sz t c e =
     (if ts_control_fd t \<ge> 0 then
        (case RecvControl os (ts_control_fd t) sz [] e of
           (None, e1) \<Rightarrow> (None, e1)
         | (Some bs, e1) \<Rightarrow>
             (case SendControl os (ts_control_fd t) [1] 0 e1 of
                (False, e2) \<Rightarrow> (None, e2)
              | (True, e2) \<Rightarrow> (case CloseControl os t e2 of (t1, e3) \<Rightarrow> (Some (bs, t1, c), e3))))
      else if \<not> sh_connected (sc_end c) \<or> IsProducer (sc_end c) then (None, e)
      else (map_option (\<lambda>(bs, c'). (bs, t, c')) (ring_recv sz [] c), e))"

definition WaitFd :: "TransportShm \<Rightarrow> int" where
  "WaitFd t = (if IsProducer (ts_end t) then rr_space_ready (ts_resources t) else rr_data_ready (ts_resources t))"

definition Shm_GetFd :: "TransportShm \<Rightarrow> int" where
  "Shm_GetFd t = (if ts_listen_fd t \<ge> 0 then ts_listen_fd t else WaitFd t)"

subsection \<open>What the calls do to the open descriptors\<close>

locale descriptors =
  fixes os :: "'e os_shm" and open_fds :: "'e \<Rightarrow> int set"
  assumes socket_law: "sys_socket os e = (fd, e') \<Longrightarrow>
      (if fd < 0 then open_fds e' = open_fds e else fd \<notin> open_fds e \<and> open_fds e' = insert fd (open_fds e))"
    and accept_law: "sys_accept4 os l e = (fd, e') \<Longrightarrow>
      (if fd < 0 then open_fds e' = open_fds e else fd \<notin> open_fds e \<and> open_fds e' = insert fd (open_fds e))"
    and memfd_law: "sys_memfd_create os e = (fd, e') \<Longrightarrow>
      (if fd < 0 then open_fds e' = open_fds e else fd \<notin> open_fds e \<and> open_fds e' = insert fd (open_fds e))"
    and eventfd_law: "sys_eventfd os n e = (fd, e') \<Longrightarrow>
      (if fd < 0 then open_fds e' = open_fds e else fd \<notin> open_fds e \<and> open_fds e' = insert fd (open_fds e))"
    and close_law: "open_fds (sys_close os fd e) = open_fds e - {fd}"
    and recvmsg_law: "sys_recvmsg os s e = (len, msg, cmsgs, e') \<Longrightarrow>
      open_fds e' = open_fds e \<union> set (concat cmsgs) \<and> set (concat cmsgs) \<inter> open_fds e = {} \<and> (\<forall>fd \<in> set (concat cmsgs). 0 \<le> fd)"
    and quiet_laws: "open_fds (sys_unlink os path e) = open_fds e" "open_fds (sys_munmap os e) = open_fds e"
      "sys_bind os fd path e = (rc, e') \<Longrightarrow> open_fds e' = open_fds e"
      "sys_listen os fd k e = (rc, e') \<Longrightarrow> open_fds e' = open_fds e"
      "sys_connect os fd path e = (rc, e') \<Longrightarrow> open_fds e' = open_fds e"
      "sys_ftruncate os fd sz e = (rc, e') \<Longrightarrow> open_fds e' = open_fds e"
      "sys_mmap os fd ini e = (ok, e') \<Longrightarrow> open_fds e' = open_fds e"
      "sys_sendmsg os fd msg fds e = (rc, e') \<Longrightarrow> open_fds e' = open_fds e"
begin

text \<open>The descriptors that a set of resources, or a transport object, owns.\<close>

lemma close_if_open: "open_fds (close_if os fd e) = open_fds e - {x. x = fd \<and> 0 \<le> x}"
  by (auto simp: close_if_def close_law)

end

definition owned_res :: "RingResources \<Rightarrow> int set" where
  "owned_res r = {x. x \<in> {rr_ring r, rr_data_ready r, rr_space_ready r} \<and> 0 \<le> x}"

definition owned :: "TransportShm \<Rightarrow> int set" where
  "owned t = owned_res (ts_resources t) \<union> {x. x \<in> {ts_control_fd t, ts_listen_fd t} \<and> 0 \<le> x}"

context descriptors
begin

lemma RingResources_Close_open: "RingResources_Close os r e = (r', e') \<Longrightarrow> open_fds e' = open_fds e - owned_res r"
  by (auto simp: RingResources_Close_def close_if_open owned_res_def)

lemma Shm_Close_open:
  "Shm_Close os t e = (t', e') \<Longrightarrow> open_fds e' = open_fds e - owned t \<and> owned t' = {} \<and> \<not> sh_connected (ts_end t')"
  by (auto simp: Shm_Close_def CloseControl_def close_if_open RingResources_Close_def quiet_laws owned_def owned_res_def
      RingResources_default_def Let_def split: if_splits)

lemma CreateRing_open:
  assumes "CreateRing os t e = (ok, t', e')" and "ts_resources t = RingResources_default"
  shows "open_fds e' = open_fds e \<union> owned_res (ts_resources t') \<and> open_fds e \<inter> owned_res (ts_resources t') = {} \<and>
    ts_control_fd t' = ts_control_fd t \<and> ts_listen_fd t' = ts_listen_fd t"
  using assms
  by (auto simp: CreateRing_def MapRing_def Let_def owned_res_def RingResources_default_def
      dest!: memfd_law eventfd_law quiet_laws(6,7) split: prod.splits if_splits bool.splits)

end

definition fresh_transport :: "TransportShm \<Rightarrow> bool" where
  "fresh_transport t \<longleftrightarrow> ts_resources t = RingResources_default \<and> ts_control_fd t = -1 \<and> ts_listen_fd t = -1"

definition shm_connected :: "TransportShm \<Rightarrow> bool" where
  "shm_connected t \<longleftrightarrow> sh_connected (ts_end t)"

context descriptors
begin

lemma close_fresh:
  assumes "fresh_transport t" and "CreateRing os t e = (ok, t1, e1)" and "open_fds e2 = open_fds e1"
  shows "open_fds (snd (Shm_Close os t1 e2)) = open_fds e" and "owned (fst (Shm_Close os t1 e2)) = {}"
proof -
  obtain t2 e3 where c: "Shm_Close os t1 e2 = (t2, e3)" by fastforce
  have "owned t1 = owned_res (ts_resources t1)"
    using CreateRing_open [OF assms(2)] assms(1) by (auto simp: owned_def fresh_transport_def)
  with CreateRing_open [OF assms(2)] assms(1,3) Shm_Close_open [OF c]
  show "open_fds (snd (Shm_Close os t1 e2)) = open_fds e" "owned (fst (Shm_Close os t1 e2)) = {}"
    by (auto simp: c fresh_transport_def)
qed

lemma Connect_open:
  assumes "Shm_Connect os path t e = (ok, t', e')" and fresh: "fresh_transport t"
  shows "if ok then open_fds e' = open_fds e \<union> owned t' \<and> open_fds e \<inter> owned t' = {} \<and> shm_connected t'
         else open_fds e' = open_fds e \<and> owned t' = {}"
proof (cases "(sh_direction (ts_end t) = DirSend \<or> sh_direction (ts_end t) = DirReceive) \<and> RendezvousAddress_Set path")
  case False
  then have "(ok, t', e') = (False, t, e)" using assms(1) by (auto simp: Shm_Connect_def split: if_splits)
  then show ?thesis using fresh by (auto simp: owned_def owned_res_def fresh_transport_def RingResources_default_def)
next
  case args: True
  obtain ok1 t1 e1 where cr: "CreateRing os t e = (ok1, t1, e1)" by (cases "CreateRing os t e")
  obtain fd e2 where so: "sys_socket os e1 = (fd, e2)" by fastforce
  obtain rc e3 where co: "sys_connect os fd path e2 = (rc, e3)" by fastforce
  obtain ok2 e4 where sr: "SendResources os t1 fd e3 = (ok2, e4)" by fastforce
  note cf = close_fresh [OF fresh cr]
  have e4: "open_fds e4 = open_fds e3" using sr by (auto simp: SendResources_def dest: quiet_laws(8) split: prod.splits)
  have e3: "open_fds e3 = open_fds e2" using quiet_laws(5) [OF co] .
  note sl = socket_law [OF so]
  have run: "Shm_Connect os path t e =
      (if \<not> ok1 then (False, Shm_Close os t1 e1)
       else if fd < 0 then (False, Shm_Close os t1 e2)
       else if rc \<noteq> 0 then (False, Shm_Close os t1 (sys_close os fd e3))
       else if \<not> ok2 then (False, Shm_Close os t1 (sys_close os fd e4))
       else (True, t1\<lparr>ts_control_fd := fd, ts_end := (ts_end t1)\<lparr>sh_connected := True\<rparr>\<rparr>, e4))"
    using args by (auto simp: Shm_Connect_def cr so co sr split: bool.splits)
  show ?thesis
  proof (cases "ok1 \<and> \<not> fd < 0 \<and> rc = 0 \<and> ok2")
    case True
    then have "ok \<and> t' = t1\<lparr>ts_control_fd := fd, ts_end := (ts_end t1)\<lparr>sh_connected := True\<rparr>\<rparr> \<and> e' = e4"
      using run assms(1) by simp
    then show ?thesis
      using True sl e3 e4 CreateRing_open [OF cr] fresh
      by (auto simp: owned_def fresh_transport_def shm_connected_def)
  next
    case False
    let ?x = "if \<not> ok1 then e1 else if fd < 0 then e2 else if rc \<noteq> 0 then sys_close os fd e3 else sys_close os fd e4"
    have "(ok, t', e') = (False, Shm_Close os t1 ?x)" using False run assms(1) by (auto split: if_splits)
    moreover have "open_fds ?x = open_fds e1" using sl e3 e4 by (auto simp: close_law)
    ultimately show ?thesis using cf [of ?x] by (metis fst_conv prod.inject snd_conv)
  qed
qed

lemma Accept_open:
  assumes "Shm_Accept os t e = (res, e')"
    and shape: "\<And>fd x len msg cmsgs x'. sys_accept4 os (ts_listen_fd t) e = (fd, x) \<Longrightarrow>
      sys_recvmsg os fd x = (len, msg, cmsgs, x') \<Longrightarrow> cmsgs = [] \<or> (\<exists>fds. cmsgs = [fds] \<and> length fds = 3)"
  shows "case res of None \<Rightarrow> open_fds e' = open_fds e
    | Some t' \<Rightarrow> open_fds e' = open_fds e \<union> owned t' \<and> open_fds e \<inter> owned t' = {} \<and> shm_connected t'"
proof (cases "ts_listen_fd t < 0")
  case True
  then show ?thesis using assms(1) by (auto simp: Shm_Accept_def)
next
  case False
  obtain fd e1 where ac: "sys_accept4 os (ts_listen_fd t) e = (fd, e1)" by fastforce
  note al = accept_law [OF ac]
  show ?thesis
  proof (cases "fd < 0")
    case True
    then show ?thesis using assms(1) False ac al by (auto simp: Shm_Accept_def)
  next
    case pos: False
    obtain len msg cmsgs e2 where rm: "sys_recvmsg os fd e1 = (len, msg, cmsgs, e2)" by (cases "sys_recvmsg os fd e1")
    note rl = recvmsg_law [OF rm]
    let ?res = "case transferred_fds cmsgs of None \<Rightarrow> RingResources_default | Some xs \<Rightarrow> fds_resources xs"
    have three: "\<exists>a b c. xs = [a, b, c]" if "length xs = 3" for xs :: "int list"
      using that by (auto simp: numeral_3_eq_3 length_Suc_conv)
    have own: "owned_res ?res = set (concat cmsgs)"
      using shape [OF ac rm] rl three by (fastforce simp: transferred_fds_def owned_res_def RingResources_default_def)
    obtain r e3 where rr: "RecvResources os fd e1 = (r, e3)" by fastforce
    have none: "open_fds e3 = open_fds e1" if "r = None"
    proof -
      have "e3 = snd (RingResources_Close os ?res e2)"
        using rr that by (simp add: RecvResources_def rm Let_def split: if_splits)
      then have "open_fds e3 = open_fds e2 - owned_res ?res" by (metis RingResources_Close_open prod.collapse)
      then show ?thesis using rl own by blast
    qed
    show ?thesis
    proof (cases r)
      case None
      then show ?thesis using assms(1) False ac pos rr none al close_law by (auto simp: Shm_Accept_def)
    next
      case (Some q)
      obtain incoming d where q: "q = (incoming, d)" by fastforce
      have inc: "incoming = ?res" "e3 = e2" using rr Some q by (auto simp: RecvResources_def rm Let_def split: if_splits)
      obtain ok t2 e4 where ad: "Adopt os incoming (if d = DirSend then DirReceive else DirSend)
          (TransportShm_default\<lparr>ts_control_fd := fd\<rparr>) e3 = (ok, t2, e4)" by (metis prod_cases3)
      have t2: "open_fds e4 = open_fds e3" "owned t2 = insert fd (owned_res incoming)" "ok \<Longrightarrow> shm_connected t2"
        using ad pos by (auto simp: Adopt_def MapRing_def Let_def TransportShm_default_def owned_def owned_res_def shm_connected_def
            dest!: quiet_laws(7) split: prod.splits bool.splits)
      obtain t3 e5 where cl: "Shm_Close os t2 e4 = (t3, e5)" by fastforce
      have run: "(res, e') = (if ok then (Some t2, e4) else (None, e5))"
        using assms(1) False ac pos rr Some q ad cl by (simp add: Shm_Accept_def Let_def split: bool.splits)
      define S where "S = owned_res incoming"
      have "set (concat cmsgs) = S" using own inc(1) by (simp add: S_def)
      then have sets: "open_fds e4 = insert fd (open_fds e) \<union> S" "S \<inter> insert fd (open_fds e) = {}" "fd \<notin> open_fds e"
        "owned t2 = insert fd S" "open_fds e5 = open_fds e4 - insert fd S"
        using t2 al rl pos inc(2) Shm_Close_open [OF cl] by (simp_all add: S_def)
      show ?thesis
      proof (cases ok)
        case True
        then have "res = Some t2" "e' = e4" using run by simp_all
        moreover have "open_fds e4 = open_fds e \<union> owned t2" "open_fds e \<inter> owned t2 = {}" using sets by blast+
        ultimately show ?thesis using t2(3) [OF True] by simp
      next
        case False
        then have "res = None" "e' = e5" using run by simp_all
        moreover have "open_fds e5 = open_fds e" using sets by blast
        ultimately show ?thesis by simp
      qed
    qed
  qed
qed

end

subsection \<open>A small kernel\<close>

text \<open>
  A kernel with a descriptor table and a list of messages to be received; calls fail when their
  script says so. It interprets the contract, so the theorems below can be applied.
\<close>

record kern =
  k_open :: "int list"
  k_msgs :: "(byte list \<times> nat) list"
  k_fail :: "bool list"

definition k_fresh :: "kern \<Rightarrow> int" where
  "k_fresh k = foldr max (k_open k) 0 + 1"

definition k_new :: "kern \<Rightarrow> int \<times> kern" where
  "k_new k = (case k_fail k of
     True # fs \<Rightarrow> (-1, k\<lparr>k_fail := fs\<rparr>)
   | _ \<Rightarrow> (k_fresh k, k\<lparr>k_open := k_fresh k # k_open k, k_fail := tl (k_fail k)\<rparr>))"

definition k_status :: "kern \<Rightarrow> int \<times> kern" where
  "k_status k = (case k_fail k of True # fs \<Rightarrow> (-1, k\<lparr>k_fail := fs\<rparr>) | _ \<Rightarrow> (0, k\<lparr>k_fail := tl (k_fail k)\<rparr>))"

definition k_recvmsg :: "int \<Rightarrow> kern \<Rightarrow> int \<times> byte list \<times> int list list \<times> kern" where
  "k_recvmsg s k = (case k_msgs k of
     [] \<Rightarrow> (-1, [], [], k)
   | (msg, n) # ms \<Rightarrow>
       let fds = map (\<lambda>i. k_fresh k + int i) [0..<n]
       in (int (length msg), msg, if n = 0 then [] else [fds], k\<lparr>k_open := fds @ k_open k, k_msgs := ms\<rparr>))"

definition kern_os :: "kern os_shm" where
  "kern_os = \<lparr>sys_unlink = (\<lambda>_ k. k), sys_socket = k_new, sys_bind = (\<lambda>_ _. k_status), sys_listen = (\<lambda>_ _. k_status),
     sys_accept4 = (\<lambda>_. k_new), sys_connect = (\<lambda>_ _. k_status), sys_memfd_create = k_new, sys_ftruncate = (\<lambda>_ _. k_status),
     sys_mmap = (\<lambda>_ _ k. (True, k)), sys_munmap = (\<lambda>k. k), sys_eventfd = (\<lambda>_. k_new),
     sys_close = (\<lambda>fd k. k\<lparr>k_open := filter (\<lambda>x. x \<noteq> fd) (k_open k)\<rparr>),
     sys_sendmsg = (\<lambda>_ msg _ k. (int (length msg), k)), sys_recvmsg = k_recvmsg,
     sys_send = (\<lambda>_ bs k. (int (length bs), k)), sys_recv = (\<lambda>_ n k. (int n, replicate n 1, k))\<rparr>"

lemma foldr_max_le: "x \<in> set xs \<Longrightarrow> x \<le> foldr max xs (0::int)"
  by (induction xs) (auto simp: max.coboundedI1 max.coboundedI2)

lemma foldr_max_nonneg: "0 \<le> foldr max xs (0::int)"
  by (induction xs) auto

lemma k_fresh_new: "0 < k_fresh k" "0 \<le> i \<Longrightarrow> k_fresh k + i \<notin> set (k_open k)" "k_fresh k \<notin> set (k_open k)"
  using foldr_max_nonneg [of "k_open k"] foldr_max_le [of _ "k_open k"] by (fastforce simp: k_fresh_def)+

lemma k_new_law: "k_new k = (fd, k') \<Longrightarrow>
    (if fd < 0 then set (k_open k') = set (k_open k) else fd \<notin> set (k_open k) \<and> set (k_open k') = insert fd (set (k_open k)))"
  using k_fresh_new [where k = k] by (auto simp: k_new_def split: list.splits bool.splits)

lemma k_recvmsg_law: "k_recvmsg s k = (len, msg, cmsgs, k') \<Longrightarrow>
    set (k_open k') = set (k_open k) \<union> set (concat cmsgs) \<and> set (concat cmsgs) \<inter> set (k_open k) = {} \<and>
    (\<forall>fd \<in> set (concat cmsgs). 0 \<le> fd)"
  using k_fresh_new [where k = k] by (auto simp: k_recvmsg_def Let_def split: list.splits if_splits)

interpretation kernel: descriptors kern_os "\<lambda>k. set (k_open k)"
proof (unfold_locales, goal_cases)
  case (6 s e len msg cmsgs e') then show ?case using k_recvmsg_law [of s e] by (simp add: kern_os_def)
qed (auto simp: kern_os_def k_status_def dest!: k_new_law split: list.splits bool.splits)

subsection \<open>Properties\<close>

text \<open>
  C17. \<open>Connect\<close> leaks no descriptor on any path: on success the newly opened descriptors are exactly
  those that the object owns, and after a failure of any call (creating, sizing or mapping the
  ring, the eventfds, the socket, the connection, the message) exactly the descriptors that were
  open before are open. Closing the connected object returns the table to the state before.
\<close>

theorem shm_Connect_no_leak:
  assumes "descriptors os open_fds" and "fresh_transport t" and "Shm_Connect os path t e = (ok, t', e')"
  shows "(if ok then open_fds e' = open_fds e \<union> owned t' \<and> shm_connected t' else open_fds e' = open_fds e \<and> owned t' = {}) \<and>
    open_fds (snd (Shm_Close os t' e')) = open_fds e"
proof -
  obtain t2 e2 where c: "Shm_Close os t' e' = (t2, e2)" by fastforce
  from descriptors.Connect_open [OF assms(1,3,2)] descriptors.Shm_Close_open [OF assms(1) c] show ?thesis by (auto simp: c split: if_splits)
qed

definition demo_connector :: TransportShm where
  "demo_connector = TransportShm_default\<lparr>ts_end := (ts_end TransportShm_default)\<lparr>sh_direction := DirSend\<rparr>\<rparr>"

text \<open>The connection is refused after ring and eventfds have been created.\<close>

definition demo_kern :: kern where
  "demo_kern = \<lparr>k_open = [0, 1, 2], k_msgs = [], k_fail = [False, False, False, False, False, True]\<rparr>"

theorem shm_Connect_no_leak_witness:
  "set (k_open (snd (snd (Shm_Connect kern_os [47] demo_connector demo_kern)))) = {0, 1, 2}"
proof -
  have "fresh_transport demo_connector"
    by (simp add: fresh_transport_def demo_connector_def TransportShm_default_def)
  moreover have "\<not> fst (Shm_Connect kern_os [47] demo_connector demo_kern)"
    by (simp add: Shm_Connect_def RendezvousAddress_Set_def CreateRing_def MapRing_def demo_connector_def demo_kern_def
        TransportShm_default_def kern_os_def k_new_def k_status_def Let_def k_fresh_def)
  then obtain t' e' where "Shm_Connect kern_os [47] demo_connector demo_kern = (False, t', e')"
    by (cases "Shm_Connect kern_os [47] demo_connector demo_kern") auto
  ultimately show ?thesis
    using shm_Connect_no_leak [OF kernel.descriptors_axioms, of demo_connector "[47]" demo_kern False t' e']
    by (simp add: demo_kern_def)
qed


definition demo_listener :: TransportShm where
  "demo_listener = TransportShm_default\<lparr>ts_listen_fd := 3\<rparr>"

definition demo_kern2 :: kern where
  "demo_kern2 = \<lparr>k_open = [3, 2, 1, 0], k_msgs = [(le32 kShmResourceMagic @ le32 (direction_code DirSend), 3)], k_fail = []\<rparr>"


text \<open>
  The rendezvous pairs the endpoints: when the message that a connector of direction \<open>d\<close> sends is
  what the acceptor receives, and the ring can be mapped, the accepted transport is connected, has the opposite
  direction, shares the connector's three descriptors and waits on the other eventfd.
\<close>

theorem shm_rendezvous:
  assumes "d = DirSend \<or> d = DirReceive" and "0 \<le> ts_listen_fd t" and "0 \<le> control"
    and "sys_accept4 os (ts_listen_fd t) e = (control, e1)"
    and "sys_recvmsg os control e1 = (8, le32 kShmResourceMagic @ le32 (direction_code d), [[a, b, c]], e2)"
    and "sys_mmap os a False e2 = (True, e3)"
  shows "\<exists>t'. Shm_Accept os t e = (Some t', e3) \<and> sh_connected (ts_end t') \<and>
    IsProducer (ts_end t') = (d = DirReceive) \<and> ts_resources t' = \<lparr>rr_ring = a, rr_data_ready = b, rr_space_ready = c\<rparr> \<and>
    ts_control_fd t' = control \<and> Shm_GetFd t' = (if d = DirReceive then c else b)"
  using assms
  by (auto simp: Shm_Accept_def RecvResources_def transferred_fds_def Adopt_def MapRing_def Let_def TransportShm_default_def
      IsProducer_def Shm_GetFd_def WaitFd_def)

theorem shm_rendezvous_witness:
  "\<exists>t' e'. Shm_Accept kern_os demo_listener demo_kern2 = (Some t', e') \<and> \<not> IsProducer (ts_end t') \<and> Shm_GetFd t' = 6"
proof -
  have "sys_accept4 kern_os (ts_listen_fd demo_listener) demo_kern2 = (4, demo_kern2\<lparr>k_open := [4, 3, 2, 1, 0]\<rparr>)"
    by (simp add: kern_os_def k_new_def demo_kern2_def k_fresh_def)
  moreover have "sys_recvmsg kern_os 4 (demo_kern2\<lparr>k_open := [4, 3, 2, 1, 0]\<rparr>) =
      (8, le32 kShmResourceMagic @ le32 (direction_code DirSend), [[5, 6, 7]],
       demo_kern2\<lparr>k_open := [5, 6, 7, 4, 3, 2, 1, 0], k_msgs := []\<rparr>)"
    by (simp add: kern_os_def k_recvmsg_def demo_kern2_def k_fresh_def upt_rec)
  moreover have "sys_mmap kern_os 5 False k = (True, k)" for k by (simp add: kern_os_def)
  ultimately show ?thesis
    using shm_rendezvous [of DirSend demo_listener 4 kern_os demo_kern2]
    by (fastforce simp: demo_listener_def)
qed

end
