(* ===== verification/Occl_Tcp.thy ===== *)
theory Occl_Tcp
  imports Occl_Script Occl_Bootstrap
begin

section \<open>The TCP transport\<close>

text \<open>
  \<open>src/transport/transport_tcp.cpp\<close> and the socket helpers of \<open>src/utils.cpp\<close> it uses. The system calls extend
  the record \<open>os_net\<close> of the bootstrap. A non-blocking \<open>send\<close> or \<open>recv\<close> transfers bytes (none means that the
  peer has closed), would block (\<open>EAGAIN\<close>, \<open>EWOULDBLOCK\<close>), is interrupted (\<open>EINTR\<close>) or fails. Socket options that
  only tune the connection (\<open>SetTcpNoDelay\<close>, \<open>SetReuseAddr\<close>) have no counterpart.
\<close>

datatype 'a io_result = Transferred 'a | WouldBlock | Interrupted | IoFailed

record 'e tcp_os = "'e os_net" +
  to_bind :: "int \<Rightarrow> 16 word \<Rightarrow> 'e \<Rightarrow> bool \<times> 'e"
  to_listen :: "int \<Rightarrow> int \<Rightarrow> 'e \<Rightarrow> bool \<times> 'e"
  to_getsockname :: "int \<Rightarrow> 'e \<Rightarrow> 16 word option"
  to_nonblock :: "int \<Rightarrow> 'e \<Rightarrow> bool \<times> 'e"
  to_send :: "int \<Rightarrow> byte list \<Rightarrow> 'e \<Rightarrow> nat io_result \<times> 'e"
  to_recv :: "int \<Rightarrow> nat \<Rightarrow> 'e \<Rightarrow> byte list io_result \<times> 'e"

record TransportTCP =
  tt_sockfd :: int
  tt_listen_fd :: int
  tt_listen_port :: "16 word"
  tt_connected :: bool
  tt_direction :: TransportDirection

definition TransportTCP_default :: TransportTCP where
  "TransportTCP_default = \<lparr>tt_sockfd = -1, tt_listen_fd = -1, tt_listen_port = 0, tt_connected = False, tt_direction = Bidirectional\<rparr>"

subsection \<open>Setting up\<close>

text \<open>\<open>-1\<close> as a port is \<open>0xffff\<close>.\<close>

definition GetSocketPort :: "'e tcp_os \<Rightarrow> int \<Rightarrow> 'e \<Rightarrow> 16 word" where
  "GetSocketPort os fd e = (case to_getsockname os fd e of Some port \<Rightarrow> port | None \<Rightarrow> -1)"

definition CreateListenSocket :: "'e tcp_os \<Rightarrow> 16 word \<Rightarrow> 'e \<Rightarrow> int \<times> 16 word \<times> 'e" where
  "CreateListenSocket os port e =
     (case os_socket os e of
        (fd, e1) \<Rightarrow>
          if fd < 0 then (-1, 0, e1)
          else (case to_bind os fd port e1 of
            (False, e2) \<Rightarrow> (-1, 0, os_close os fd e2)
          | (True, e2) \<Rightarrow>
              (case to_listen os fd 128 e2 of
                 (False, e3) \<Rightarrow> (-1, 0, os_close os fd e3)
               | (True, e3) \<Rightarrow> (fd, GetSocketPort os fd e3, e3))))"

definition AcceptConnection :: "'e tcp_os \<Rightarrow> int \<Rightarrow> 'e \<Rightarrow> int \<times> 'e" where
  "AcceptConnection os listen_fd e = (case os_accept os listen_fd e of (fd, e1) \<Rightarrow> (if fd < 0 then -1 else fd, e1))"

definition Tcp_Listen :: "'e tcp_os \<Rightarrow> 16 word \<Rightarrow> TransportTCP \<Rightarrow> 'e \<Rightarrow> bool \<times> TransportTCP \<times> 'e" where
  "Tcp_Listen os port t e =
     (case CreateListenSocket os port e of
        (fd, p, e1) \<Rightarrow> if fd < 0 then (False, t\<lparr>tt_listen_fd := fd\<rparr>, e1)
                       else (True, t\<lparr>tt_listen_fd := fd, tt_listen_port := p\<rparr>, e1))"

definition SetNonBlocking :: "'e tcp_os \<Rightarrow> TransportTCP \<Rightarrow> 'e \<Rightarrow> bool \<times> 'e" where
  "SetNonBlocking os t e = (if tt_sockfd t < 0 then (False, e) else to_nonblock os (tt_sockfd t) e)"

definition SetSocket :: "'e tcp_os \<Rightarrow> int \<Rightarrow> TransportTCP \<Rightarrow> 'e \<Rightarrow> TransportTCP \<times> 'e" where
  "SetSocket os fd t e =
     (let t1 = t\<lparr>tt_sockfd := fd, tt_connected := True\<rparr> in (t1, snd (SetNonBlocking os t1 e)))"

definition Tcp_Accept :: "'e tcp_os \<Rightarrow> TransportTCP \<Rightarrow> 'e \<Rightarrow> TransportTCP option \<times> 'e" where
  "Tcp_Accept os t e =
     (if tt_listen_fd t < 0 then (None, e)
      else (case AcceptConnection os (tt_listen_fd t) e of
        (fd, e1) \<Rightarrow> if fd < 0 then (None, e1)
                    else (case SetSocket os fd TransportTCP_default e1 of (t', e2) \<Rightarrow> (Some t', e2))))"

definition Tcp_Connect :: "'e tcp_os \<Rightarrow> byte list \<Rightarrow> 16 word \<Rightarrow> TransportTCP \<Rightarrow> 'e \<Rightarrow> bool \<times> TransportTCP \<times> 'e" where
  "Tcp_Connect os addr port t e =
     (case CreateConnectSocket (os_net.truncate os) addr port 1 e of
        (fd, e1) \<Rightarrow>
          let t1 = t\<lparr>tt_sockfd := fd\<rparr> in
          if fd < 0 then (False, t1, e1)
          else let t2 = t1\<lparr>tt_connected := True\<rparr> in (case SetNonBlocking os t2 e1 of (ok, e2) \<Rightarrow> (ok, t2, e2)))"

definition Tcp_Close :: "'e tcp_os \<Rightarrow> TransportTCP \<Rightarrow> 'e \<Rightarrow> TransportTCP \<times> 'e" where
  "Tcp_Close os t e =
     (let e1 = (if tt_sockfd t \<ge> 0 then os_close os (tt_sockfd t) e else e);
          e2 = (if tt_listen_fd t \<ge> 0 then os_close os (tt_listen_fd t) e1 else e1)
      in (t\<lparr>tt_sockfd := (if tt_sockfd t \<ge> 0 then -1 else tt_sockfd t),
            tt_listen_fd := (if tt_listen_fd t \<ge> 0 then -1 else tt_listen_fd t), tt_connected := False\<rparr>, e2))"

definition Tcp_GetFd :: "TransportTCP \<Rightarrow> int" where
  "Tcp_GetFd t = (if tt_sockfd t \<ge> 0 then tt_sockfd t else tt_listen_fd t)"

text \<open>The events as the pair (\<open>EPOLLIN\<close>, \<open>EPOLLOUT\<close>).\<close>

definition Tcp_GetPollEvents :: "TransportTCP \<Rightarrow> bool \<times> bool" where
  "Tcp_GetPollEvents t =
     (if tt_sockfd t < 0 then (True, False)
      else (case tt_direction t of DirSend \<Rightarrow> (False, True) | DirReceive \<Rightarrow> (True, False) | Bidirectional \<Rightarrow> (True, True)))"

subsection \<open>Non-blocking transfers\<close>

text \<open>The loops of \<open>TrySend\<close> and \<open>TryRecv\<close>; the receive loop collects the bytes it stored.\<close>

function tcp_send_loop :: "'e tcp_os \<Rightarrow> int \<Rightarrow> byte list \<Rightarrow> nat \<Rightarrow> 'e \<Rightarrow> (nat \<times> 'e) option" where
  "tcp_send_loop os fd data p e =
     (if p < length data then
        (case to_send os fd (drop p data) e of
           (Transferred n, e') \<Rightarrow> if n = 0 then None else tcp_send_loop os fd data (p + n) e'
         | (WouldBlock, e') \<Rightarrow> Some (p, e')
         | (Interrupted, e') \<Rightarrow> Some (p, e')
         | (IoFailed, e') \<Rightarrow> None)
      else Some (p, e))"
  by pat_completeness auto
termination
  by (relation "measure (\<lambda>(os, fd, data, p, e). length data - p)") auto

function tcp_recv_loop :: "'e tcp_os \<Rightarrow> int \<Rightarrow> nat \<Rightarrow> byte list \<Rightarrow> 'e \<Rightarrow> (byte list \<times> 'e) option" where
  "tcp_recv_loop os fd sz got e =
     (if length got < sz then
        (case to_recv os fd (sz - length got) e of
           (Transferred bs, e') \<Rightarrow> if bs = [] then None else tcp_recv_loop os fd sz (got @ bs) e'
         | (WouldBlock, e') \<Rightarrow> Some (got, e')
         | (Interrupted, e') \<Rightarrow> Some (got, e')
         | (IoFailed, e') \<Rightarrow> None)
      else Some (got, e))"
  by pat_completeness auto
termination
  by (relation "measure (\<lambda>(os, fd, sz, got, e). sz - length got)") (auto simp: diff_less_mono2)

declare tcp_send_loop.simps [simp del] tcp_recv_loop.simps [simp del]

definition Tcp_TrySend :: "'e tcp_os \<Rightarrow> TransportTCP \<Rightarrow> byte list \<Rightarrow> nat \<Rightarrow> 'e \<Rightarrow> (nat \<times> bool \<times> 'e) option" where
  "Tcp_TrySend os t data progress e =
     (if \<not> tt_connected t \<or> tt_sockfd t < 0 then None
      else map_option (\<lambda>(p, e'). (p, p = length data, e')) (tcp_send_loop os (tt_sockfd t) data progress e))"

definition Tcp_TryRecv :: "'e tcp_os \<Rightarrow> TransportTCP \<Rightarrow> nat \<Rightarrow> nat \<Rightarrow> 'e \<Rightarrow> (byte list \<times> bool \<times> 'e) option" where
  "Tcp_TryRecv os t sz progress e =
     (if \<not> tt_connected t \<or> tt_sockfd t < 0 then None
      else map_option (\<lambda>(bs, e'). (bs, progress + length bs = sz, e'))
             (tcp_recv_loop os (tt_sockfd t) (sz - progress) [] e))"

subsection \<open>Blocking transfers\<close>

text \<open>\<open>SendRaw\<close> and \<open>RecvRaw\<close> repeat the call until all is moved; \<^term>\<open>None\<close> is a loop that does not end.\<close>

partial_function (option) SendRaw :: "'e tcp_os \<Rightarrow> int \<Rightarrow> byte list \<Rightarrow> nat \<Rightarrow> 'e \<Rightarrow> (bool \<times> 'e) option" where
  "SendRaw os fd data moved e =
     (if moved < length data then
        (case to_send os fd (drop moved data) e of
           (Transferred n, e') \<Rightarrow> if n = 0 then Some (False, e') else SendRaw os fd data (moved + n) e'
         | (WouldBlock, e') \<Rightarrow> SendRaw os fd data moved e'
         | (Interrupted, e') \<Rightarrow> SendRaw os fd data moved e'
         | (IoFailed, e') \<Rightarrow> Some (False, e'))
      else Some (True, e))"

partial_function (option) RecvRaw :: "'e tcp_os \<Rightarrow> int \<Rightarrow> nat \<Rightarrow> byte list \<Rightarrow> 'e \<Rightarrow> (byte list option \<times> 'e) option" where
  "RecvRaw os fd sz got e =
     (if length got < sz then
        (case to_recv os fd (sz - length got) e of
           (Transferred bs, e') \<Rightarrow> if bs = [] then Some (None, e') else RecvRaw os fd sz (got @ bs) e'
         | (WouldBlock, e') \<Rightarrow> RecvRaw os fd sz got e'
         | (Interrupted, e') \<Rightarrow> RecvRaw os fd sz got e'
         | (IoFailed, e') \<Rightarrow> Some (None, e'))
      else Some (Some got, e))"

declare SendRaw.simps [code] RecvRaw.simps [code]

definition Tcp_Send :: "'e tcp_os \<Rightarrow> TransportTCP \<Rightarrow> byte list \<Rightarrow> 'e \<Rightarrow> (bool \<times> 'e) option" where
  "Tcp_Send os t data e =
     (if \<not> tt_connected t \<or> tt_sockfd t < 0 then Some (False, e) else SendRaw os (tt_sockfd t) data 0 e)"

definition Tcp_Recv :: "'e tcp_os \<Rightarrow> TransportTCP \<Rightarrow> nat \<Rightarrow> 'e \<Rightarrow> (byte list option \<times> 'e) option" where
  "Tcp_Recv os t sz e =
     (if \<not> tt_connected t \<or> tt_sockfd t < 0 then Some (None, e) else RecvRaw os (tt_sockfd t) sz [] e)"

end
