(* ===== verification/Occl_Tcp_Correct.thy ===== *)
theory Occl_Tcp_Correct
  imports Occl_Tcp
begin

section \<open>Correctness of the TCP transport\<close>

text \<open>
  The locale \<open>stream_kernel\<close> says what the kernel does with a connected socket: what it accepted and delivered
  so far is a log per descriptor, a call that would block leaves the descriptor unready. Under it the
  non-blocking calls move exactly the bytes they report and stop only at an unready descriptor or an interrupted
  call; the blocking calls end and move everything. A kernel with bounded buffers is its instance.
\<close>

locale stream_kernel =
  fixes os :: "'e tcp_os"
    and tx rx :: "'e \<Rightarrow> int \<Rightarrow> byte list"
    and writable readable :: "'e \<Rightarrow> int \<Rightarrow> bool"
  assumes send_some: "to_send os fd data e = (Transferred n, e') \<Longrightarrow>
      n \<le> length data \<and> tx e' = (tx e)(fd := tx e fd @ take n data) \<and> rx e' = rx e"
    and send_none: "to_send os fd data e = (r, e') \<Longrightarrow> (\<And>n. r \<noteq> Transferred n) \<Longrightarrow> tx e' = tx e \<and> rx e' = rx e"
    and send_blocks: "to_send os fd data e = (WouldBlock, e') \<Longrightarrow> \<not> writable e' fd"
    and recv_some: "to_recv os fd k e = (Transferred bs, e') \<Longrightarrow>
      length bs \<le> k \<and> rx e' = (rx e)(fd := rx e fd @ bs) \<and> tx e' = tx e"
    and recv_none: "to_recv os fd k e = (q, e') \<Longrightarrow> (\<And>bs. q \<noteq> Transferred bs) \<Longrightarrow> tx e' = tx e \<and> rx e' = rx e"
    and recv_blocks: "to_recv os fd k e = (WouldBlock, e') \<Longrightarrow> \<not> readable e' fd"
begin

lemma send_loop_moves:
  "tcp_send_loop os fd data p e = Some (p', e') \<Longrightarrow> p \<le> length data \<Longrightarrow>
     p \<le> p' \<and> p' \<le> length data \<and> rx e' = rx e \<and> tx e' = (tx e)(fd := tx e fd @ take (p' - p) (drop p data))"
proof (induction "length data - p" arbitrary: p e rule: less_induct)
  case less
  show ?case
  proof (cases "p < length data")
    case True
    obtain r e1 where step: "to_send os fd (drop p data) e = (r, e1)" by fastforce
    show ?thesis
    proof (cases r)
      case (Transferred n)
      with step True less.prems(1) have n: "0 < n" and rest: "tcp_send_loop os fd data (p + n) e1 = Some (p', e')"
        by (auto simp: tcp_send_loop.simps [of os fd data p] split: if_splits)
      note law = send_some [OF step [unfolded Transferred]]
      from law True n have less1: "length data - (p + n) < length data - p" and le: "p + n \<le> length data" by auto
      note IH = less.hyps [OF less1 rest le]
      then have "take n (drop p data) @ take (p' - (p + n)) (drop (p + n) data) = take (p' - p) (drop p data)"
        using take_add [of n "p' - (p + n)" "drop p data"] by (simp add: add.commute)
      with IH law show ?thesis by (metis (no_types, lifting) add_leD1 append_assoc fun_upd_same fun_upd_upd)
    qed (use step True less.prems send_none [OF step] in \<open>auto simp: tcp_send_loop.simps [of os fd data p]\<close>)
  qed (use less.prems in \<open>simp add: tcp_send_loop.simps\<close>)
qed

lemma recv_loop_moves:
  "tcp_recv_loop os fd k got e = Some (got', e') \<Longrightarrow> length got \<le> k \<Longrightarrow>
     length got' \<le> k \<and> tx e' = tx e \<and> (\<exists>bs. got' = got @ bs \<and> rx e' = (rx e)(fd := rx e fd @ bs))"
proof (induction "k - length got" arbitrary: got e rule: less_induct)
  case less
  show ?case
  proof (cases "length got < k")
    case True
    obtain r e1 where step: "to_recv os fd (k - length got) e = (r, e1)" by fastforce
    show ?thesis
    proof (cases r)
      case (Transferred bs)
      with step True less.prems(1) have bs: "bs \<noteq> []" and rest: "tcp_recv_loop os fd k (got @ bs) e1 = Some (got', e')"
        by (auto simp: tcp_recv_loop.simps [of os fd k got] split: if_splits)
      note law = recv_some [OF step [unfolded Transferred]]
      from law True bs have less1: "k - length (got @ bs) < k - length got" and le: "length (got @ bs) \<le> k"
        by (auto simp: diff_less_mono2)
      from less.hyps [OF less1 rest le] law show ?thesis by auto
    qed (use step True less.prems recv_none [OF step] in \<open>auto simp: tcp_recv_loop.simps [of os fd k got]\<close>)
  qed (use less.prems in \<open>simp add: tcp_recv_loop.simps\<close>)
qed

text \<open>What a loop that stopped early says about the descriptor.\<close>

lemma send_loop_stops:
  "tcp_send_loop os fd data p e = Some (p', e') \<Longrightarrow> p' < length data \<Longrightarrow>
     \<not> writable e' fd \<or> (\<exists>e1. to_send os fd (drop p' data) e1 = (Interrupted, e'))"
proof (induction "length data - p" arbitrary: p e rule: less_induct)
  case less
  show ?case
  proof (cases "p < length data")
    case True
    obtain r e1 where step: "to_send os fd (drop p data) e = (r, e1)" by fastforce
    show ?thesis
    proof (cases r)
      case (Transferred n)
      with step True less.prems(1) have "0 < n" and rest: "tcp_send_loop os fd data (p + n) e1 = Some (p', e')"
        by (auto simp: tcp_send_loop.simps [of os fd data p] split: if_splits)
      with True less.hyps [OF _ rest less.prems(2)] show ?thesis by simp
    qed (use step True less.prems send_blocks in \<open>auto simp: tcp_send_loop.simps [of os fd data p]\<close>)
  qed (use less.prems in \<open>simp add: tcp_send_loop.simps\<close>)
qed

lemma recv_loop_stops:
  "tcp_recv_loop os fd k got e = Some (got', e') \<Longrightarrow> length got' < k \<Longrightarrow>
     \<not> readable e' fd \<or> (\<exists>e1. to_recv os fd (k - length got') e1 = (Interrupted, e'))"
proof (induction "k - length got" arbitrary: got e rule: less_induct)
  case less
  show ?case
  proof (cases "length got < k")
    case True
    obtain r e1 where step: "to_recv os fd (k - length got) e = (r, e1)" by fastforce
    show ?thesis
    proof (cases r)
      case (Transferred bs)
      with step True less.prems(1) have "bs \<noteq> []" and rest: "tcp_recv_loop os fd k (got @ bs) e1 = Some (got', e')"
        by (auto simp: tcp_recv_loop.simps [of os fd k got] split: if_splits)
      with True less.hyps [OF _ rest less.prems(2)] show ?thesis by (simp add: diff_less_mono2)
    qed (use step True less.prems recv_blocks in \<open>auto simp: tcp_recv_loop.simps [of os fd k got]\<close>)
  qed (use less.prems in \<open>simp add: tcp_recv_loop.simps\<close>)
qed

end

text \<open>A kernel on which a call can be told to try again only finitely often before it moves bytes or fails.\<close>

locale responsive_kernel = stream_kernel +
  fixes waits :: "'a \<Rightarrow> nat"
  assumes send_waits: "to_send os fd data e = (WouldBlock, e') \<or> to_send os fd data e = (Interrupted, e') \<Longrightarrow> waits e' < waits e"
    and recv_waits: "to_recv os fd k e = (WouldBlock, e') \<or> to_recv os fd k e = (Interrupted, e') \<Longrightarrow> waits e' < waits e"
begin

lemma SendRaw_returns:
  "p \<le> length data \<Longrightarrow> \<exists>ok e'. SendRaw os fd data p e = Some (ok, e') \<and> rx e' = rx e \<and>
     (ok \<longrightarrow> tx e' = (tx e)(fd := tx e fd @ drop p data))"
proof (induction "(length data - p, waits e)" arbitrary: p e rule: wf_induct_rule [OF wf_lex_prod [OF wf_less wf_less]])
  case (1 p e)
  show ?case
  proof (cases "p < length data")
    case True
    obtain r e1 where step: "to_send os fd (drop p data) e = (r, e1)" by fastforce
    have again: ?thesis if "r = WouldBlock \<or> r = Interrupted"
    proof -
      from that step have "waits e1 < waits e" by (auto intro: send_waits)
      with "1.hyps" [of p e1] "1.prems" have "\<exists>ok e'. SendRaw os fd data p e1 = Some (ok, e') \<and> rx e' = rx e1 \<and>
        (ok \<longrightarrow> tx e' = (tx e1)(fd := tx e1 fd @ drop p data))" by simp
      with that step True send_none [OF step] show ?thesis by (auto simp: SendRaw.simps [of os fd data p e])
    qed
    show ?thesis
    proof (cases r)
      case (Transferred n)
      note law = send_some [OF step [unfolded Transferred]]
      show ?thesis
      proof (cases "n = 0")
        case False
        with law True have "length data - (p + n) < length data - p" "p + n \<le> length data" by auto
        with "1.hyps" [of "p + n" e1] have "\<exists>ok e'. SendRaw os fd data (p + n) e1 = Some (ok, e') \<and> rx e' = rx e1 \<and>
          (ok \<longrightarrow> tx e' = (tx e1)(fd := tx e1 fd @ drop (p + n) data))" by simp
        moreover have "take n (drop p data) @ drop (p + n) data = drop p data"
          by (metis add.commute append_take_drop_id drop_drop)
        ultimately show ?thesis using False True step Transferred law by (auto simp: SendRaw.simps [of os fd data p e])
      qed (use True step Transferred law in \<open>auto simp: SendRaw.simps [of os fd data p e]\<close>)
    qed (use True step send_none [OF step] again in \<open>auto simp: SendRaw.simps [of os fd data p e]\<close>)
  qed (use "1.prems" in \<open>simp add: SendRaw.simps ex_bool_eq\<close>)
qed

lemma RecvRaw_returns:
  "length got \<le> k \<Longrightarrow> \<exists>res e'. RecvRaw os fd k got e = Some (res, e') \<and> tx e' = tx e \<and>
     (\<forall>got'. res = Some got' \<longrightarrow> length got' = k \<and> (\<exists>bs. got' = got @ bs \<and> rx e' = (rx e)(fd := rx e fd @ bs)))"
proof (induction "(k - length got, waits e)" arbitrary: got e rule: wf_induct_rule [OF wf_lex_prod [OF wf_less wf_less]])
  case (1 got e)
  show ?case
  proof (cases "length got < k")
    case True
    obtain r e1 where step: "to_recv os fd (k - length got) e = (r, e1)" by fastforce
    have again: ?thesis if "r = WouldBlock \<or> r = Interrupted"
    proof -
      from that step have "waits e1 < waits e" by (auto intro: recv_waits)
      with "1.hyps" [of got e1] "1.prems" have "\<exists>res e'. RecvRaw os fd k got e1 = Some (res, e') \<and> tx e' = tx e1 \<and>
        (\<forall>got'. res = Some got' \<longrightarrow> length got' = k \<and> (\<exists>bs. got' = got @ bs \<and> rx e' = (rx e1)(fd := rx e1 fd @ bs)))"
        by simp
      with that step True recv_none [OF step] show ?thesis by (auto simp: RecvRaw.simps [of os fd k got e])
    qed
    show ?thesis
    proof (cases r)
      case (Transferred bs)
      note law = recv_some [OF step [unfolded Transferred]]
      show ?thesis
      proof (cases "bs = []")
        case False
        with law True have "k - length (got @ bs) < k - length got" "length (got @ bs) \<le> k"
          by (auto intro: diff_less_mono2)
        with "1.hyps" [of "got @ bs" e1] have "\<exists>res e'. RecvRaw os fd k (got @ bs) e1 = Some (res, e') \<and> tx e' = tx e1 \<and>
          (\<forall>got'. res = Some got' \<longrightarrow> length got' = k \<and> (\<exists>cs. got' = (got @ bs) @ cs \<and> rx e' = (rx e1)(fd := rx e1 fd @ cs)))"
          by simp
        with False True step Transferred law show ?thesis by (auto simp: RecvRaw.simps [of os fd k got e])
      qed (use True step Transferred law in \<open>auto simp: RecvRaw.simps [of os fd k got e]\<close>)
    qed (use True step recv_none [OF step] again in \<open>auto simp: RecvRaw.simps [of os fd k got e]\<close>)
  qed (use "1.prems" in \<open>simp add: RecvRaw.simps\<close>)
qed

end

subsection \<open>A kernel with bounded buffers\<close>

text \<open>
  Each entry of the schedule is what happens before a call: a signal (\<^term>\<open>None\<close>), or the peer takes
  \<open>n\<close> bytes out of the send buffer and \<open>n\<close> bytes arrive from the wire. With the schedule used up the peer is gone.
\<close>

record kern =
  kn_tx :: "int \<Rightarrow> byte list"
  kn_rx :: "int \<Rightarrow> byte list"
  kn_room :: "int \<Rightarrow> nat"
  kn_in :: "int \<Rightarrow> byte list"
  kn_wire :: "int \<Rightarrow> byte list"
  kn_sched :: "nat option list"

definition kern_start :: "byte list \<Rightarrow> nat \<Rightarrow> nat option list \<Rightarrow> kern" where
  "kern_start wire room sched = \<lparr>kn_tx = (\<lambda>_. []), kn_rx = (\<lambda>_. []), kn_room = (\<lambda>_. room), kn_in = (\<lambda>_. []),
     kn_wire = (\<lambda>_. wire), kn_sched = sched\<rparr>"

definition kern_tick :: "int \<Rightarrow> nat \<Rightarrow> nat option list \<Rightarrow> kern \<Rightarrow> kern" where
  "kern_tick fd n sched k = k\<lparr>kn_room := (kn_room k)(fd := kn_room k fd + n),
     kn_in := (kn_in k)(fd := kn_in k fd @ take n (kn_wire k fd)),
     kn_wire := (kn_wire k)(fd := drop n (kn_wire k fd)), kn_sched := sched\<rparr>"

definition kern_put :: "nat io_result \<Rightarrow> int \<Rightarrow> byte list \<Rightarrow> kern \<Rightarrow> nat io_result \<times> kern" where
  "kern_put stuck fd data k =
     (if kn_room k fd = 0 then (stuck, k)
      else let n = min (kn_room k fd) (length data)
           in (Transferred n, k\<lparr>kn_tx := (kn_tx k)(fd := kn_tx k fd @ take n data), kn_room := (kn_room k)(fd := kn_room k fd - n)\<rparr>))"

definition kern_take :: "byte list io_result \<Rightarrow> int \<Rightarrow> nat \<Rightarrow> kern \<Rightarrow> byte list io_result \<times> kern" where
  "kern_take stuck fd c k =
     (if kn_in k fd = [] then (stuck, k)
      else let bs = take c (kn_in k fd)
           in (Transferred bs, k\<lparr>kn_rx := (kn_rx k)(fd := kn_rx k fd @ bs), kn_in := (kn_in k)(fd := drop c (kn_in k fd))\<rparr>))"

definition kern_send :: "int \<Rightarrow> byte list \<Rightarrow> kern \<Rightarrow> nat io_result \<times> kern" where
  "kern_send fd data k =
     (case kn_sched k of
        [] \<Rightarrow> kern_put IoFailed fd data k
      | None # sched \<Rightarrow> (Interrupted, k\<lparr>kn_sched := sched\<rparr>)
      | Some n # sched \<Rightarrow> kern_put WouldBlock fd data (kern_tick fd n sched k))"

definition kern_recv :: "int \<Rightarrow> nat \<Rightarrow> kern \<Rightarrow> byte list io_result \<times> kern" where
  "kern_recv fd c k =
     (case kn_sched k of
        [] \<Rightarrow> kern_take IoFailed fd c k
      | None # sched \<Rightarrow> (Interrupted, k\<lparr>kn_sched := sched\<rparr>)
      | Some n # sched \<Rightarrow> kern_take WouldBlock fd c (kern_tick fd n sched k))"

definition kern_tcp :: "kern tcp_os" where
  "kern_tcp = \<lparr>os_send = (\<lambda>fd data k. (-1, k)), os_recv = (\<lambda>fd n k. (-1, [], k)), os_accept = (\<lambda>fd k. (7, k)),
     os_socket = (\<lambda>k. (3, k)), os_pton = (\<lambda>_. True), os_connect = (\<lambda>fd a p k. (True, k)), os_close = (\<lambda>fd k. k),
     to_bind = (\<lambda>fd p k. (True, k)), to_listen = (\<lambda>fd n k. (True, k)), to_getsockname = (\<lambda>fd k. Some 4000),
     to_nonblock = (\<lambda>fd k. (True, k)), to_send = kern_send, to_recv = kern_recv\<rparr>"

lemma kern_tick_logs [simp]: "kn_tx (kern_tick fd n sched k) = kn_tx k" "kn_rx (kern_tick fd n sched k) = kn_rx k"
  "kn_sched (kern_tick fd n sched k) = sched"
  by (simp_all add: kern_tick_def)

interpretation kern: responsive_kernel kern_tcp kn_tx kn_rx "\<lambda>k fd. 0 < kn_room k fd" "\<lambda>k fd. kn_in k fd \<noteq> []" "\<lambda>k. length (kn_sched k)"
  by unfold_locales
    (auto simp: kern_tcp_def kern_send_def kern_recv_def kern_put_def kern_take_def Let_def
       split: list.splits option.splits if_splits)

subsection \<open>The contract of the non-blocking calls\<close>

definition demo_tcp :: TransportTCP where
  "demo_tcp = TransportTCP_default\<lparr>tt_sockfd := 3, tt_connected := True\<rparr>"

lemma demo_tcp_sockfd [simp]: "tt_sockfd demo_tcp = 3"
  by (simp add: demo_tcp_def TransportTCP_default_def)

text \<open>
  C39. A TrySend call reports exactly the bytes the kernel has accepted, in order, and done exactly when the whole
  message is in. It stops short only when the socket is no longer writable or the call was interrupted.
\<close>

theorem tcp_TrySend_contract:
  assumes "stream_kernel os tx rx writable readable"
    and "Tcp_TrySend os t data p e = Some (p', fin, e')" and "p \<le> length data"
  shows "p \<le> p' \<and> p' \<le> length data \<and> fin = (p' = length data) \<and> rx e' = rx e \<and>
    tx e' = (tx e)(tt_sockfd t := tx e (tt_sockfd t) @ take (p' - p) (drop p data)) \<and>
    (\<not> fin \<longrightarrow> \<not> writable e' (tt_sockfd t) \<or> (\<exists>e1. to_send os (tt_sockfd t) (drop p' data) e1 = (Interrupted, e')))"
proof -
  from assms(2) have run: "tcp_send_loop os (tt_sockfd t) data p e = Some (p', e')" and fin: "fin = (p' = length data)"
    by (auto simp: Tcp_TrySend_def split: if_splits)
  from stream_kernel.send_loop_moves [OF assms(1) run assms(3)] stream_kernel.send_loop_stops [OF assms(1) run] fin
  show ?thesis by auto
qed

lemma tcp_TrySend_contract_witness:
  "\<exists>e'. Tcp_TrySend kern_tcp demo_tcp [1, 2, 3] 0 (kern_start [] 0 [Some 2, Some 0]) = Some (2, False, e') \<and> kn_tx e' 3 = [1, 2] \<and>
     (kn_room e' 3 = 0 \<or> (\<exists>e1. kern_send 3 [3] e1 = (Interrupted, e')))"
proof -
  have "map_option (\<lambda>(p, fin, e). (p, fin)) (Tcp_TrySend kern_tcp demo_tcp [1, 2, 3] 0 (kern_start [] 0 [Some 2, Some 0])) = Some (2, False)"
    by code_simp
  then obtain e' where run: "Tcp_TrySend kern_tcp demo_tcp [1, 2, 3] 0 (kern_start [] 0 [Some 2, Some 0]) = Some (2, False, e')"
    by auto
  from tcp_TrySend_contract [OF kern.stream_kernel_axioms run] run show ?thesis
    by (simp add: kern_start_def kern_tcp_def)
qed

text \<open>
  A TryRecv call stores exactly the bytes the kernel delivers, in order, and reports done exactly when the message
  is complete. It stops short only when nothing is left to read or the call was interrupted.
\<close>

theorem tcp_TryRecv_contract:
  assumes "stream_kernel os tx rx writable readable"
    and "Tcp_TryRecv os t n p e = Some (bs, fin, e')" and "p \<le> n"
  shows "p + length bs \<le> n \<and> fin = (p + length bs = n) \<and> tx e' = tx e \<and>
    rx e' = (rx e)(tt_sockfd t := rx e (tt_sockfd t) @ bs) \<and>
    (\<not> fin \<longrightarrow> \<not> readable e' (tt_sockfd t) \<or> (\<exists>e1. to_recv os (tt_sockfd t) (n - p - length bs) e1 = (Interrupted, e')))"
proof -
  from assms(2) have run: "tcp_recv_loop os (tt_sockfd t) (n - p) [] e = Some (bs, e')" and fin: "fin = (p + length bs = n)"
    by (auto simp: Tcp_TryRecv_def split: if_splits)
  from stream_kernel.recv_loop_moves [OF assms(1) run] stream_kernel.recv_loop_stops [OF assms(1) run] fin assms(3)
  show ?thesis by auto
qed

lemma tcp_TryRecv_contract_witness:
  "\<exists>e'. Tcp_TryRecv kern_tcp demo_tcp 3 1 (kern_start [7, 8] 0 [Some 1, Some 1]) = Some ([7, 8], True, e') \<and> kn_rx e' 3 = [7, 8]"
proof -
  have "map_option (\<lambda>(p, fin, e). (p, fin)) (Tcp_TryRecv kern_tcp demo_tcp 3 1 (kern_start [7, 8] 0 [Some 1, Some 1])) = Some ([7, 8], True)"
    by code_simp
  then obtain e' where run: "Tcp_TryRecv kern_tcp demo_tcp 3 1 (kern_start [7, 8] 0 [Some 1, Some 1]) = Some ([7, 8], True, e')"
    by auto
  from tcp_TryRecv_contract [OF kern.stream_kernel_axioms run] run show ?thesis
    by (simp add: kern_start_def)
qed



text \<open>
  An interrupted call ends the loop although the socket is writable: the edge-triggered contract of
  \<open>transport.h\<close> (drain until \<open>EAGAIN\<close>) does not hold in that case.
\<close>

lemma tcp_interrupt_leaves_room:
  "map_option (\<lambda>(p, fin, k). (p, fin, kn_room k 3)) (Tcp_TrySend kern_tcp demo_tcp [1, 2] 0 (kern_start [] 5 [None])) = Some (0, False, 5)"
  by code_simp

subsection \<open>\<open>TransportTCP\<close> as the transport of a rank\<close>

record 'e tcp_env =
  tv_kernel :: 'e
  tv_trace :: "io list"

definition tcp_try_send :: "'e tcp_os \<Rightarrow> (transport_ref \<Rightarrow> TransportTCP) \<Rightarrow> transport_ref \<Rightarrow> byte list \<Rightarrow> nat \<Rightarrow>
    'e tcp_env \<Rightarrow> (nat \<times> bool \<times> 'e tcp_env) option" where
  "tcp_try_send os socks t data p e =
     (case Tcp_TrySend os (socks t) data p (tv_kernel e) of
        None \<Rightarrow> None
      | Some (p', fin, k) \<Rightarrow> Some (p', fin, e\<lparr>tv_kernel := k, tv_trace := tv_trace e @ [Sent t (take (p' - p) (drop p data))]\<rparr>))"

definition tcp_try_recv :: "'e tcp_os \<Rightarrow> (transport_ref \<Rightarrow> TransportTCP) \<Rightarrow> transport_ref \<Rightarrow> nat \<Rightarrow> nat \<Rightarrow>
    'e tcp_env \<Rightarrow> (byte list \<times> bool \<times> 'e tcp_env) option" where
  "tcp_try_recv os socks t n p e =
     (case Tcp_TryRecv os (socks t) n p (tv_kernel e) of
        None \<Rightarrow> None
      | Some (bs, fin, k) \<Rightarrow> Some (bs, fin, e\<lparr>tv_kernel := k, tv_trace := tv_trace e @ [Rcvd t bs]\<rparr>))"

definition tcp_runtime :: "'e tcp_os \<Rightarrow> (transport_ref \<Rightarrow> TransportTCP) \<Rightarrow> float_unit \<Rightarrow> 'e tcp_env runtime" where
  "tcp_runtime os socks fp = \<lparr>rt_try_send = tcp_try_send os socks, rt_try_recv = tcp_try_recv os socks, rt_fp = fp\<rparr>"

text \<open>On any kernel with the laws above the endpoints satisfy the contract that the state machines rely on.\<close>


lemma tcp_transport:
  assumes "stream_kernel os tx rx writable readable"
  shows "transport (tcp_runtime os socks fp) tv_trace"
proof unfold_locales
  fix t data p p' d and e e' :: "'a tcp_env"
  assume run: "rt_try_send (tcp_runtime os socks fp) t data p e = Some (p', d, e')"
  then show "\<exists>bs. tv_trace e' = tv_trace e @ [Sent t bs]"
    by (auto simp: tcp_runtime_def tcp_try_send_def split: option.splits)
  assume "p \<le> length data"
  with run show "p \<le> p' \<and> p' \<le> length data \<and> d = (p' = length data) \<and> tv_trace e' = tv_trace e @ [Sent t (take (p' - p) (drop p data))]"
    by (auto simp: tcp_runtime_def tcp_try_send_def Tcp_TrySend_def dest!: stream_kernel.send_loop_moves [OF assms]
        split: option.splits if_splits)
next
  fix t n p bs d and e e' :: "'a tcp_env"
  assume run: "rt_try_recv (tcp_runtime os socks fp) t n p e = Some (bs, d, e')"
  then show "tv_trace e' = tv_trace e @ [Rcvd t bs]"
    by (auto simp: tcp_runtime_def tcp_try_recv_def split: option.splits)
  assume "p \<le> n"
  with run show "p + length bs \<le> n \<and> d = (p + length bs = n)"
    by (auto simp: tcp_runtime_def tcp_try_recv_def Tcp_TryRecv_def dest!: stream_kernel.recv_loop_moves [OF assms]
        split: option.splits if_splits)
qed

interpretation tcp: transport "tcp_runtime kern_tcp socks fp" tv_trace for socks fp
  by (rule tcp_transport) (rule kern.stream_kernel_axioms)

interpretation tcp_rank0: allreduce_rank demo_params 0 "tcp_runtime kern_tcp socks null_fp" tv_trace 1 2 8 h0 for socks h0
  by unfold_locales (simp_all add: ar_ok_def demo_params_def ar_units_def INT_MAX_def tcp_runtime_def)

end
