(* ===== verification/Occl_Tree.thy ===== *)
theory Occl_Tree
  imports Occl_Ring Occl_Topology
begin

section \<open>The tree state machine and the point-to-point machine\<close>

text \<open>
  \<open>src/topology/topology_tree.cpp\<close>: a pipelined AllReduce over the double tree. In the up phase a
  leader receives the chunks of its children and local ranks into scratch buffers, reduces them into
  \<open>recv_buf\<close> and forwards every chunk that is complete to its parent; in the down phase the result
  travels back. A non-leader sends its input to its leader and receives the result.
  \<open>src/topology/topology_p2p.cpp\<close>: one message to or from one peer.

  The chunk cursors are C++ \<open>int\<close>s; they are natural numbers here and their increment fails beyond
  \<open>INT_MAX\<close>. \<open>kPhaseUnstarted\<close> and \<open>kPhaseDone\<close> have the values of the ring machine.
\<close>

definition kPhaseUp :: int where "kPhaseUp = 1"
definition kPhaseDown :: int where "kPhaseDown = 2"

definition TypeSize :: "PlanTask \<Rightarrow> nat" where
  "TypeSize t = GetDataTypeSize (pt_dtype t)"

definition ChunkCount :: "PlanTask \<Rightarrow> nat" where
  "ChunkCount t = (if pt_chunk_size t = 0 then 0 else (pt_elem_count t + pt_chunk_size t - 1) div pt_chunk_size t)"

definition ChunkElems :: "PlanTask \<Rightarrow> nat \<Rightarrow> nat" where
  "ChunkElems t chunk =
     (let start = chunk * pt_chunk_size t in
      if start \<ge> pt_elem_count t then 0 else min (pt_chunk_size t) (pt_elem_count t - start))"

definition ChunkBytes :: "PlanTask \<Rightarrow> nat \<Rightarrow> nat" where
  "ChunkBytes t chunk = ChunkElems t chunk * TypeSize t"

definition ChunkOffset :: "PlanTask \<Rightarrow> nat \<Rightarrow> nat" where
  "ChunkOffset t chunk = chunk * pt_chunk_size t * TypeSize t"

definition IsInputRole :: "TreeRole \<Rightarrow> bool" where
  "IsInputRole role \<longleftrightarrow> role = RoleStar \<or> role = RoleTreeDown"

text \<open>The first edge with the parent's role, or \<open>-1\<close>.\<close>

definition ParentEdge :: "TreeRole list \<Rightarrow> int" where
  "ParentEdge roles =
     (case filter (\<lambda>i. roles ! i = RoleTreeUp) [0..<length roles] of [] \<Rightarrow> -1 | i # _ \<Rightarrow> int i)"

definition SendSource :: "PlanTask \<Rightarrow> bool \<Rightarrow> nat \<Rightarrow> ptr" where
  "SendSource t is_leader chunk =
     ptr_plus (if is_leader then pt_recv_buf t else pt_send_buf t) (ChunkOffset t chunk)"

definition RecvTarget :: "PlanTask \<Rightarrow> bool \<Rightarrow> TreeRole list \<Rightarrow> nat \<Rightarrow> nat \<Rightarrow> ptr" where
  "RecvTarget t is_leader roles edge chunk =
     (if is_leader \<and> IsInputRole (roles ! edge) then Tmp (edge * pt_chunk_size t * TypeSize t)
      else ptr_plus (pt_recv_buf t) (ChunkOffset t chunk))"

definition ReduceChunk :: "'e runtime \<Rightarrow> nat \<Rightarrow> nat \<Rightarrow> 'e tcfg \<Rightarrow> 'e tcfg" where
  "ReduceChunk rt edge chunk c =
     (let t = tc_task c in
      reduce_mem rt (Tmp (edge * pt_chunk_size t * TypeSize t)) (ptr_plus (pt_recv_buf t) (ChunkOffset t chunk))
        (ChunkElems t chunk) (pt_dtype t) (sum_for_avg (pt_reduce_op t)) c)"

text \<open>The loop takes the minimum over the input edges, starting from the number of chunks.\<close>

definition MinInputPrefix :: "PlanTask \<Rightarrow> TreeRole list \<Rightarrow> nat" where
  "MinInputPrefix t roles =
     foldl (\<lambda>best i. if IsInputRole (roles ! i) then min best (st_recv_chunk (pt_state t) ! i) else best)
       (ChunkCount t) [0..<length roles]"

definition UpComplete :: "PlanTask \<Rightarrow> TreeRole list \<Rightarrow> bool \<Rightarrow> bool" where
  "UpComplete t roles is_leader =
     (let s = pt_state t; n_chunks = ChunkCount t in
      if is_leader then
        list_all (\<lambda>i. \<not> (IsInputRole (roles ! i) \<and> st_recv_chunk s ! i < n_chunks)) [0..<length roles] \<and>
        list_all (\<lambda>j. \<not> (roles ! j = RoleTreeUp \<and> st_send_chunk s ! j < n_chunks)) [0..<length roles]
      else list_all (\<lambda>j. \<not> st_send_chunk s ! j < n_chunks) [0..<length roles])"

definition DownComplete :: "PlanTask \<Rightarrow> TreeRole list \<Rightarrow> bool \<Rightarrow> bool" where
  "DownComplete t roles is_leader =
     (let s = pt_state t; n_chunks = ChunkCount t in
      if is_leader then
        list_all (\<lambda>i. \<not> (roles ! i = RoleTreeUp \<and> st_recv_chunk s ! i < n_chunks)) [0..<length roles] \<and>
        list_all (\<lambda>j. \<not> (IsInputRole (roles ! j) \<and> st_send_chunk s ! j < n_chunks)) [0..<length roles]
      else list_all (\<lambda>i. \<not> st_recv_chunk s ! i < n_chunks) [0..<length roles])"

subsection \<open>Receiving\<close>

definition chunk_inc :: "nat \<Rightarrow> nat option" where
  "chunk_inc k = (if int k < INT_MAX then Some (k + 1) else None)"

text \<open>
  One iteration of the receive loop of edge \<open>i\<close>; the flag says whether the loop goes on (a whole
  chunk has arrived) or breaks.
\<close>

definition tree_recv_step :: "'e runtime \<Rightarrow> TreeRole list \<Rightarrow> bool \<Rightarrow> nat \<Rightarrow> 'e tcfg \<Rightarrow> ('e tcfg \<times> bool) option" where
  "tree_recv_step rt roles is_leader i c =
     (let chunk = st_recv_chunk (tc_state c) ! i;
          c1 = (if st_recv_done (tc_state c) ! i
                then upd_state (\<lambda>s. s\<lparr>st_recv_progress := (st_recv_progress s)[i := 0],
                                     st_recv_done := (st_recv_done s)[i := False]\<rparr>) c
                else c);
          p = st_recv_progress (tc_state c1) ! i
      in (case rt_try_recv rt (pt_recv_transports (tc_task c1) ! i) (ChunkBytes (tc_task c1) chunk) p (tc_net c1) of
            None \<Rightarrow> None
          | Some (bs, fin, e) \<Rightarrow>
              let c2 = upd_state (\<lambda>s. s\<lparr>st_recv_progress := (st_recv_progress s)[i := p + length bs],
                                       st_recv_done := (st_recv_done s)[i := fin]\<rparr>)
                         (mem_store (ptr_plus (RecvTarget (tc_task c1) is_leader roles i chunk) p) bs (c1\<lparr>tc_net := e\<rparr>))
              in if \<not> fin then Some (c2, False)
                 else
                   let c3 = (if is_leader \<and> IsInputRole (roles ! i) then ReduceChunk rt i chunk c2 else c2)
                   in (case chunk_inc chunk of
                         None \<Rightarrow> None
                       | Some k \<Rightarrow> Some (upd_state (\<lambda>s. s\<lparr>st_recv_chunk := (st_recv_chunk s)[i := k]\<rparr>) c3, True))))"

text \<open>What the iterations leave alone.\<close>

definition tree_frame :: "'e tcfg \<Rightarrow> 'e tcfg \<Rightarrow> bool" where
  "tree_frame c c' \<longleftrightarrow> st_phase (tc_state c') = st_phase (tc_state c) \<and>
     (tc_task c')\<lparr>pt_state := CollOpState_default\<rparr> = (tc_task c)\<lparr>pt_state := CollOpState_default\<rparr>"

lemma tree_frame_refl [simp]: "tree_frame c c"
  by (simp add: tree_frame_def)

lemma tree_frame_trans: "tree_frame a b \<Longrightarrow> tree_frame b c \<Longrightarrow> tree_frame a c"
  by (simp add: tree_frame_def)

lemma tree_frame_mem_store [simp]: "tree_frame c (mem_store p bs c)"
  by (cases p) (simp_all add: tree_frame_def upd_state_def)

lemma mem_store_chunks [simp]:
  "st_recv_chunk (tc_state (mem_store p bs c)) = st_recv_chunk (tc_state c)"
  "st_send_chunk (tc_state (mem_store p bs c)) = st_send_chunk (tc_state c)"
  by (cases p; simp add: upd_state_def)+

lemma ReduceChunk_chunks [simp]:
  "st_recv_chunk (tc_state (ReduceChunk rt i k c)) = st_recv_chunk (tc_state c)"
  "st_send_chunk (tc_state (ReduceChunk rt i k c)) = st_send_chunk (tc_state c)"
  by (simp_all add: ReduceChunk_def reduce_mem_def Let_def)

lemma tree_recv_step_chunk:
  assumes "tree_recv_step rt roles ld i c = Some (c', True)" and "i < length (st_recv_chunk (tc_state c))"
  shows "st_recv_chunk (tc_state c') = (st_recv_chunk (tc_state c))[i := st_recv_chunk (tc_state c) ! i + 1]"
  using assms
  by (auto simp: tree_recv_step_def Let_def chunk_inc_def upd_state_def split: if_splits option.splits prod.splits)

function recv_edge :: "'e runtime \<Rightarrow> TreeRole list \<Rightarrow> bool \<Rightarrow> nat \<Rightarrow> nat \<Rightarrow> 'e tcfg \<Rightarrow> 'e tcfg option" where
  "recv_edge rt roles is_leader n_chunks i c =
     (if i < length (st_recv_chunk (tc_state c)) \<and> st_recv_chunk (tc_state c) ! i < n_chunks then
        (case tree_recv_step rt roles is_leader i c of
           None \<Rightarrow> None
         | Some (c', True) \<Rightarrow> recv_edge rt roles is_leader n_chunks i c'
         | Some (c', False) \<Rightarrow> Some c')
      else Some c)"
  by pat_completeness auto
termination
  by (relation "measure (\<lambda>(rt, roles, ld, n, i, c). n - st_recv_chunk (tc_state c) ! i)")
     (auto dest: tree_recv_step_chunk)

declare recv_edge.simps [simp del]

definition recv_eligible :: "TreeRole list \<Rightarrow> bool \<Rightarrow> int \<Rightarrow> nat \<Rightarrow> bool" where
  "recv_eligible roles is_leader phase i =
     (if is_leader then (if phase = kPhaseUp then IsInputRole (roles ! i) else roles ! i = RoleTreeUp)
      else phase = kPhaseDown)"

definition PushRecvs :: "'e runtime \<Rightarrow> TreeRole list \<Rightarrow> bool \<Rightarrow> 'e tcfg \<Rightarrow> 'e tcfg option" where
  "PushRecvs rt roles is_leader c =
     (let n_chunks = ChunkCount (tc_task c) in
      for_opt (\<lambda>i c. if recv_eligible roles is_leader (st_phase (tc_state c)) i
                     then recv_edge rt roles is_leader n_chunks i c else Some c)
        [0..<length (pt_recv_transports (tc_task c))] c)"

subsection \<open>Sending\<close>

definition tree_send_step :: "'e runtime \<Rightarrow> bool \<Rightarrow> nat \<Rightarrow> 'e tcfg \<Rightarrow> ('e tcfg \<times> bool) option" where
  "tree_send_step rt is_leader j c =
     (let chunk = st_send_chunk (tc_state c) ! j;
          c1 = (if st_send_done (tc_state c) ! j
                then upd_state (\<lambda>s. s\<lparr>st_send_progress := (st_send_progress s)[j := 0],
                                     st_send_done := (st_send_done s)[j := False]\<rparr>) c
                else c);
          t = tc_task c1
      in (case rt_try_send rt (pt_send_transports t ! j)
                 (mem_load c1 (SendSource t is_leader chunk) (ChunkBytes t chunk))
                 (st_send_progress (pt_state t) ! j) (tc_net c1) of
            None \<Rightarrow> None
          | Some (p, fin, e) \<Rightarrow>
              let c2 = upd_state (\<lambda>s. s\<lparr>st_send_progress := (st_send_progress s)[j := p],
                                       st_send_done := (st_send_done s)[j := fin]\<rparr>) (c1\<lparr>tc_net := e\<rparr>)
              in if \<not> fin then Some (c2, False)
                 else (case chunk_inc chunk of
                         None \<Rightarrow> None
                       | Some k \<Rightarrow> Some (upd_state (\<lambda>s. s\<lparr>st_send_chunk := (st_send_chunk s)[j := k]\<rparr>) c2, True))))"

lemma tree_send_step_chunk:
  assumes "tree_send_step rt ld j c = Some (c', True)" and "j < length (st_send_chunk (tc_state c))"
  shows "st_send_chunk (tc_state c') = (st_send_chunk (tc_state c))[j := st_send_chunk (tc_state c) ! j + 1]"
  using assms
  by (auto simp: tree_send_step_def Let_def chunk_inc_def upd_state_def split: if_splits option.splits prod.splits)

function send_edge :: "'e runtime \<Rightarrow> bool \<Rightarrow> nat \<Rightarrow> nat \<Rightarrow> 'e tcfg \<Rightarrow> 'e tcfg option" where
  "send_edge rt is_leader gate j c =
     (if j < length (st_send_chunk (tc_state c)) \<and> st_send_chunk (tc_state c) ! j < gate then
        (case tree_send_step rt is_leader j c of
           None \<Rightarrow> None
         | Some (c', True) \<Rightarrow> send_edge rt is_leader gate j c'
         | Some (c', False) \<Rightarrow> Some c')
      else Some c)"
  by pat_completeness auto
termination
  by (relation "measure (\<lambda>(rt, ld, g, j, c). g - st_send_chunk (tc_state c) ! j)")
     (auto dest: tree_send_step_chunk)

declare send_edge.simps [simp del]

definition send_eligible :: "TreeRole list \<Rightarrow> bool \<Rightarrow> int \<Rightarrow> nat \<Rightarrow> bool" where
  "send_eligible roles is_leader phase j =
     (if is_leader then (if phase = kPhaseUp then roles ! j = RoleTreeUp else IsInputRole (roles ! j))
      else phase = kPhaseUp)"

definition send_gate :: "TreeRole list \<Rightarrow> bool \<Rightarrow> PlanTask \<Rightarrow> nat" where
  "send_gate roles is_leader t =
     (if is_leader then
        (if st_phase (pt_state t) = kPhaseUp then MinInputPrefix t roles
         else if ParentEdge roles < 0 then ChunkCount t
         else st_recv_chunk (pt_state t) ! nat (ParentEdge roles))
      else ChunkCount t)"

definition PushSends :: "'e runtime \<Rightarrow> TreeRole list \<Rightarrow> bool \<Rightarrow> 'e tcfg \<Rightarrow> 'e tcfg option" where
  "PushSends rt roles is_leader c =
     (let gate = send_gate roles is_leader (tc_task c) in
      for_opt (\<lambda>j c. if send_eligible roles is_leader (st_phase (tc_state c)) j
                     then send_edge rt is_leader gate j c else Some c)
        [0..<length (pt_send_transports (tc_task c))] c)"

subsection \<open>I/O leaves phase and parameters alone\<close>

lemma tree_frame_ReduceChunk [simp]: "tree_frame c (ReduceChunk rt i k c)"
  by (simp add: ReduceChunk_def reduce_mem_def Let_def)

lemma tree_recv_step_frame: "tree_recv_step rt roles ld i c = Some (c', b) \<Longrightarrow> tree_frame c c'"
proof -
  assume run: "tree_recv_step rt roles ld i c = Some (c', b)"
  let ?c1 = "if st_recv_done (tc_state c) ! i
      then upd_state (\<lambda>s. s\<lparr>st_recv_progress := (st_recv_progress s)[i := 0], st_recv_done := (st_recv_done s)[i := False]\<rparr>) c else c"
  have upd: "tree_frame x (upd_state (\<lambda>s. s\<lparr>st_recv_progress := f s, st_recv_done := g s\<rparr>) x)"
    "tree_frame x (upd_state (\<lambda>s. s\<lparr>st_recv_chunk := h s\<rparr>) x)" "tree_frame x (x\<lparr>tc_net := e\<rparr>)" for x f g h e
    by (simp_all add: tree_frame_def upd_state_def)
  have "tree_frame c ?c1" by (simp add: tree_frame_def upd_state_def)
  moreover have "tree_frame ?c1 c'"
    using run upd unfolding tree_recv_step_def Let_def
    by (auto split: option.splits prod.splits if_splits intro!: tree_frame_trans [OF _ upd(1)] tree_frame_trans [OF _ upd(2)]
        tree_frame_trans [OF _ tree_frame_ReduceChunk] tree_frame_trans [OF upd(3) tree_frame_mem_store])
  ultimately show ?thesis by (rule tree_frame_trans)
qed

lemma recv_edge_frame: "recv_edge rt roles ld n i c = Some c' \<Longrightarrow> tree_frame c c'"
proof (induction rt roles ld n i c rule: recv_edge.induct)
  case (1 rt roles ld n i c)
  show ?case
  proof (cases "i < length (st_recv_chunk (tc_state c)) \<and> st_recv_chunk (tc_state c) ! i < n")
    case True
    then obtain c1 b where step: "tree_recv_step rt roles ld i c = Some (c1, b)"
      using 1(2) by (auto simp: recv_edge.simps [of rt] split: option.splits)
    note f = tree_recv_step_frame [OF step]
    show ?thesis
    proof (cases b)
      case b: True
      then have "recv_edge rt roles ld n i c1 = Some c'" using 1(2) True step by (simp add: recv_edge.simps [of rt _ _ _ _ c])
      then have "tree_frame c1 c'" using 1(1) [OF True step refl] b by simp
      with f show ?thesis by (rule tree_frame_trans)
    next
      case False
      then show ?thesis using 1(2) True step f by (simp add: recv_edge.simps)
    qed
  qed (use 1(2) in \<open>auto simp: recv_edge.simps\<close>)
qed

lemma PushRecvs_frame: "PushRecvs rt roles ld c = Some c' \<Longrightarrow> tree_frame c c'"
  unfolding PushRecvs_def Let_def
  by (erule for_opt_invariant [where P = "tree_frame c"])
     (auto split: if_splits dest: recv_edge_frame intro: tree_frame_trans)

lemma tree_send_step_frame: "tree_send_step rt ld j c = Some (c', b) \<Longrightarrow> tree_frame c c'"
  by (auto simp: tree_send_step_def Let_def tree_frame_def upd_state_def chunk_inc_def split: option.splits prod.splits if_splits)

lemma send_edge_frame: "send_edge rt ld g j c = Some c' \<Longrightarrow> tree_frame c c'"
proof (induction rt ld g j c rule: send_edge.induct)
  case (1 rt ld g j c)
  show ?case
  proof (cases "j < length (st_send_chunk (tc_state c)) \<and> st_send_chunk (tc_state c) ! j < g")
    case True
    then obtain c1 b where step: "tree_send_step rt ld j c = Some (c1, b)"
      using 1(2) by (auto simp: send_edge.simps [of rt] split: option.splits)
    note f = tree_send_step_frame [OF step]
    show ?thesis
    proof (cases b)
      case b: True
      then have "send_edge rt ld g j c1 = Some c'" using 1(2) True step by (simp add: send_edge.simps [of rt _ _ _ c])
      then have "tree_frame c1 c'" using 1(1) [OF True step refl] b by simp
      with f show ?thesis by (rule tree_frame_trans)
    next
      case False
      then show ?thesis using 1(2) True step f by (simp add: send_edge.simps)
    qed
  qed (use 1(2) in \<open>auto simp: send_edge.simps\<close>)
qed

lemma PushSends_frame: "PushSends rt roles ld c = Some c' \<Longrightarrow> tree_frame c c'"
  unfolding PushSends_def Let_def
  by (erule for_opt_invariant [where P = "tree_frame c"])
     (auto split: if_splits dest: send_edge_frame intro: tree_frame_trans)

subsection \<open>Phases\<close>

definition EnterDown :: "'e runtime \<Rightarrow> TreeRole list \<Rightarrow> bool \<Rightarrow> 'e tcfg \<Rightarrow> 'e tcfg" where
  "EnterDown rt roles is_leader c =
     (let t = tc_task c; ns = length (pt_send_transports t); nr = length (pt_recv_transports t);
          c1 = upd_state (\<lambda>s. s\<lparr>st_phase := kPhaseDown, st_recv_chunk := replicate nr 0, st_send_chunk := replicate ns 0,
                 st_recv_progress := replicate nr 0, st_send_progress := replicate ns 0,
                 st_recv_done := replicate nr True, st_send_done := replicate ns True\<rparr>) c
      in if is_leader \<and> ParentEdge roles < 0 \<and> pt_reduce_op t = OpAvg
         then average_mem rt (pt_recv_buf t) (pt_elem_count t) (pt_dtype t) (pt_world_size t) c1 else c1)"

definition tree_push :: "'e runtime \<Rightarrow> TreeRole list \<Rightarrow> bool \<Rightarrow> 'e tcfg \<Rightarrow> 'e tcfg option" where
  "tree_push rt roles is_leader c = Option.bind (PushRecvs rt roles is_leader c) (PushSends rt roles is_leader)"

lemma tree_push_frame: "tree_push rt roles ld c = Some c' \<Longrightarrow> tree_frame c c'"
  by (auto simp: tree_push_def bind_eq_Some_conv dest: PushRecvs_frame PushSends_frame intro: tree_frame_trans)

lemma EnterDown_phase: "st_phase (tc_state (EnterDown rt roles ld c)) = kPhaseDown"
  by (simp add: EnterDown_def Let_def upd_state_def average_mem_def)

function Advance :: "'e runtime \<Rightarrow> TreeRole list \<Rightarrow> bool \<Rightarrow> 'e tcfg \<Rightarrow> 'e tcfg option" where
  "Advance rt roles is_leader c =
     (let ph = st_phase (tc_state c) in
      if ph = kPhaseUp \<or> ph = kPhaseDown then
        if ph = kPhaseUp \<and> \<not> UpComplete (tc_task c) roles is_leader then Some c
        else if ph = kPhaseDown \<and> \<not> DownComplete (tc_task c) roles is_leader then Some c
        else if ph = kPhaseUp then
          (case tree_push rt roles is_leader (EnterDown rt roles is_leader c) of
             None \<Rightarrow> None
           | Some c' \<Rightarrow> Advance rt roles is_leader c')
        else Some (set_phase kPhaseDone c)
      else Some c)"
  by pat_completeness auto
termination
proof (relation "measure (\<lambda>(rt, roles, ld, c). if st_phase (tc_state c) = kPhaseUp then 1 else (0::nat))", goal_cases)
  case (2 rt roles ld c ph c')
  then have "st_phase (tc_state c') = kPhaseDown" using EnterDown_phase by (auto dest!: tree_push_frame simp: tree_frame_def)
  with 2 show ?case by (simp add: kPhaseUp_def kPhaseDown_def)
qed simp

declare Advance.simps [simp del]

definition TreeInit :: "'e runtime \<Rightarrow> TreeRole list \<Rightarrow> bool \<Rightarrow> 'e tcfg \<Rightarrow> 'e tcfg option" where
  "TreeInit rt roles is_leader c0 =
     (let ns = length (pt_send_transports (tc_task c0)); nr = length (pt_recv_transports (tc_task c0));
          c = upd_state (\<lambda>s. CollOpState_default\<lparr>st_send_progress := replicate ns 0, st_recv_progress := replicate nr 0,
                st_send_done := replicate ns True, st_recv_done := replicate nr True,
                st_send_chunk := replicate ns 0, st_recv_chunk := replicate nr 0\<rparr>) c0;
          t = tc_task c; bytes = pt_elem_count t * TypeSize t in
      if pt_func t \<noteq> AllReduce then None
      else if pt_world_size t \<le> 0 then None
      else if pt_elem_count t = 0 then Some (set_phase kPhaseDone c)
      else if pt_send_buf t = NullPtr \<or> pt_recv_buf t = NullPtr then None
      else if pt_world_size t = 1 then
        let c1 = (if pt_send_buf t \<noteq> pt_recv_buf t then memcpy (pt_recv_buf t) (pt_send_buf t) bytes c else c);
            c2 = (if pt_reduce_op t = OpAvg
                  then average_mem rt (pt_recv_buf t) (pt_elem_count t) (pt_dtype t) (pt_world_size t) c1 else c1)
        in Some (set_phase kPhaseDone c2)
      else if no_transports t then None
      else
        let c1 = (if is_leader then
                    let n_scratch = length (filter IsInputRole roles);
                        c1 = resize_temp (n_scratch * pt_chunk_size t * TypeSize t) c
                    in if pt_send_buf t \<noteq> pt_recv_buf t then memcpy (pt_recv_buf t) (pt_send_buf t) bytes c1 else c1
                  else c)
        in Option.bind (tree_push rt roles is_leader (set_phase kPhaseUp c1)) (Advance rt roles is_leader))"

text \<open>
  \<open>channel_roles_[task.channel_id]\<close> is unchecked in the program; an index outside the vector is
  \<^term>\<open>None\<close> here.
\<close>

definition task_roles :: "TreeRole list list \<Rightarrow> PlanTask \<Rightarrow> TreeRole list option" where
  "task_roles channel_roles t =
     (if 0 \<le> pt_channel_id t \<and> nat (pt_channel_id t) < length channel_roles
      then Some (channel_roles ! nat (pt_channel_id t)) else None)"

definition Tree_CollectiveInit :: "'e runtime \<Rightarrow> TreeRole list list \<Rightarrow> bool \<Rightarrow> 'e tcfg \<Rightarrow> 'e tcfg option" where
  "Tree_CollectiveInit rt channel_roles is_leader c =
     (if pt_func (tc_task c) \<noteq> AllReduce then None
      else (case task_roles channel_roles (tc_task c) of None \<Rightarrow> None | Some roles \<Rightarrow> TreeInit rt roles is_leader c))"

definition Tree_CollectiveStep ::
  "'e runtime \<Rightarrow> TreeRole list list \<Rightarrow> bool \<Rightarrow> CollEvent \<Rightarrow> 'e tcfg \<Rightarrow> 'e tcfg option" where
  "Tree_CollectiveStep rt channel_roles is_leader event c =
     (case task_roles channel_roles (tc_task c) of
        None \<Rightarrow> None
      | Some roles \<Rightarrow>
          Option.bind (if st_phase (tc_state c) = kPhaseUnstarted then TreeInit rt roles is_leader c else Some c) (\<lambda>c1.
          if st_phase (tc_state c1) = kPhaseDone then Some c1
          else Option.bind (tree_push rt roles is_leader c1) (Advance rt roles is_leader)))"

definition Tree_CollectiveDone :: "PlanTask \<Rightarrow> bool" where
  "Tree_CollectiveDone t \<longleftrightarrow> st_phase (pt_state t) = kPhaseDone"

subsection \<open>Point-to-point\<close>

definition P2p_CollectiveDone :: "PlanTask \<Rightarrow> bool" where
  "P2p_CollectiveDone t \<longleftrightarrow> st_phase (pt_state t) = 1"

text \<open>Access to transport 0 of a task without one is undefined in the program and \<^term>\<open>None\<close> here.\<close>

definition P2p_CollectiveStep :: "'e runtime \<Rightarrow> CollEvent \<Rightarrow> 'e tcfg \<Rightarrow> 'e tcfg option" where
  "P2p_CollectiveStep rt event c =
     (let t = tc_task c; is_send = (pt_func t = Send); bytes = pt_elem_count t * GetDataTypeSize (pt_dtype t) in
      if P2p_CollectiveDone t then Some c
      else if (event = Writable) \<noteq> is_send then Some c
      else if is_send then
        (case pt_send_transports t of [] \<Rightarrow> None
         | tr # _ \<Rightarrow>
           (case rt_try_send rt tr (mem_load c (pt_send_buf t) bytes) (st_send_progress (pt_state t) ! 0) (tc_net c) of
              None \<Rightarrow> None
            | Some (p, fin, e) \<Rightarrow>
                Some (upd_state (\<lambda>s. s\<lparr>st_send_progress := (st_send_progress s)[0 := p], st_send_done := (st_send_done s)[0 := fin],
                                      st_phase := (if fin then 1 else 0)\<rparr>) (c\<lparr>tc_net := e\<rparr>))))
      else
        (case pt_recv_transports t of [] \<Rightarrow> None
         | tr # _ \<Rightarrow>
           (case rt_try_recv rt tr bytes (st_recv_progress (pt_state t) ! 0) (tc_net c) of
              None \<Rightarrow> None
            | Some (bs, fin, e) \<Rightarrow>
                let p = st_recv_progress (pt_state t) ! 0 in
                Some (upd_state (\<lambda>s. s\<lparr>st_recv_progress := (st_recv_progress s)[0 := p + length bs], st_recv_done := (st_recv_done s)[0 := fin],
                                      st_phase := (if fin then 1 else 0)\<rparr>)
                        (mem_store (ptr_plus (pt_recv_buf t) p) bs (c\<lparr>tc_net := e\<rparr>))))))"

definition P2p_CollectiveInit :: "'e runtime \<Rightarrow> 'e tcfg \<Rightarrow> 'e tcfg option" where
  "P2p_CollectiveInit rt c =
     (let ns = length (pt_send_transports (tc_task c)); nr = length (pt_recv_transports (tc_task c));
          c1 = upd_state (\<lambda>s. CollOpState_default\<lparr>st_send_progress := replicate ns 0, st_recv_progress := replicate nr 0,
                 st_send_done := replicate ns False, st_recv_done := replicate nr False\<rparr>) c
      in if pt_elem_count (tc_task c1) = 0 then Some (set_phase 1 c1)
         else P2p_CollectiveStep rt (if pt_func (tc_task c1) = Send then Writable else Readable) c1)"

end
