(* ===== verification/Occl_Executor.thy ===== *)
theory Occl_Executor
  imports Occl_Tree Occl_Exchange
begin

section \<open>Executing one task\<close>

text \<open>
  The virtual calls of \<open>include/topology/topology.h\<close> and \<open>MultiThreadExecutor::ExecuteTask\<close>
  (\<open>src/executor/multi_thread_executor.cpp\<close>), the loop in which a worker drives one task to its end. The other
  executors drive tasks through the same iteration. Pausing the CPU after an iteration without progress has
  no effect on the state and no counterpart here.
\<close>

text \<open>What the topology objects of a communicator know besides the task.\<close>

record topo_ctx =
  tx_roles :: "TreeRole list list"
  tx_leader :: bool

definition CollectiveInit :: "'e runtime \<Rightarrow> topo_ctx \<Rightarrow> 'e tcfg \<Rightarrow> 'e tcfg option" where
  "CollectiveInit rt ctx c =
     (case pt_topology (tc_task c) of
        None \<Rightarrow> None
      | Some RingTopology \<Rightarrow> Ring_CollectiveInit rt c
      | Some TreeTopology \<Rightarrow> Tree_CollectiveInit rt (tx_roles ctx) (tx_leader ctx) c
      | Some P2pTopology \<Rightarrow> P2p_CollectiveInit rt c)"

definition CollectiveStep :: "'e runtime \<Rightarrow> topo_ctx \<Rightarrow> CollEvent \<Rightarrow> 'e tcfg \<Rightarrow> 'e tcfg option" where
  "CollectiveStep rt ctx event c =
     (case pt_topology (tc_task c) of
        None \<Rightarrow> None
      | Some RingTopology \<Rightarrow> Ring_CollectiveStep rt event c
      | Some TreeTopology \<Rightarrow> Tree_CollectiveStep rt (tx_roles ctx) (tx_leader ctx) event c
      | Some P2pTopology \<Rightarrow> P2p_CollectiveStep rt event c)"

definition CollectiveDone :: "PlanTask \<Rightarrow> bool" where
  "CollectiveDone t =
     (case pt_topology t of
        None \<Rightarrow> False
      | Some RingTopology \<Rightarrow> Ring_CollectiveDone t
      | Some TreeTopology \<Rightarrow> Tree_CollectiveDone t
      | Some P2pTopology \<Rightarrow> P2p_CollectiveDone t)"

text \<open>One iteration of the loop: both flags are read before the first step.\<close>

definition execute_iter :: "'e runtime \<Rightarrow> topo_ctx \<Rightarrow> 'e tcfg \<Rightarrow> 'e tcfg option" where
  "execute_iter rt ctx c =
     (let send_done = SideDone (st_send_done (tc_state c)); recv_done = SideDone (st_recv_done (tc_state c)) in
      case (if send_done then Some c else CollectiveStep rt ctx Writable c) of
        None \<Rightarrow> None
      | Some c1 \<Rightarrow> if recv_done then Some c1 else CollectiveStep rt ctx Readable c1)"

text \<open>\<^term>\<open>None\<close> is a loop that does not end, \<^term>\<open>Some None\<close> is \<open>return false\<close>.\<close>

partial_function (option) execute_loop :: "'e runtime \<Rightarrow> topo_ctx \<Rightarrow> 'e tcfg \<Rightarrow> 'e tcfg option option" where
  "execute_loop rt ctx c =
     (if CollectiveDone (tc_task c) then Some (Some c)
      else (case execute_iter rt ctx c of
              None \<Rightarrow> Some None
            | Some c' \<Rightarrow> execute_loop rt ctx c'))"

declare execute_loop.simps [code]

definition ExecuteTask :: "'e runtime \<Rightarrow> topo_ctx \<Rightarrow> 'e tcfg \<Rightarrow> 'e tcfg option option" where
  "ExecuteTask rt ctx c =
     (if pt_topology (tc_task c) = None then Some None
      else (case CollectiveInit rt ctx c of
              None \<Rightarrow> Some None
            | Some c1 \<Rightarrow> if CollectiveDone (tc_task c1) then Some (Some c1) else execute_loop rt ctx c1))"

text \<open>The tasks of one channel in order (\<open>WorkerLoop\<close>); the first failure ends the channel.\<close>

fun execute_tasks :: "'e runtime \<Rightarrow> topo_ctx \<Rightarrow> PlanTask list \<Rightarrow> heap \<times> 'e \<Rightarrow> (heap \<times> 'e) option option" where
  "execute_tasks rt ctx [] w = Some (Some w)"
| "execute_tasks rt ctx (t # ts) w =
     (case ExecuteTask rt ctx \<lparr>tc_task = t, tc_heap = fst w, tc_net = snd w\<rparr> of
        None \<Rightarrow> None
      | Some None \<Rightarrow> Some None
      | Some (Some c) \<Rightarrow> execute_tasks rt ctx ts (tc_heap c, tc_net c))"

subsection \<open>No machine is left waiting for nothing\<close>

text \<open>
  The loop only steps a side whose flags are not all set. An unfinished machine with all flags set would
  never be stepped again.
\<close>

definition awaits_io :: "'e tcfg \<Rightarrow> bool" where
  "awaits_io c \<longleftrightarrow> \<not> SideDone (st_send_done (tc_state c)) \<or> \<not> SideDone (st_recv_done (tc_state c))"

lemma not_loop_on: "\<not> loop_on c \<Longrightarrow> st_phase (tc_state c) = kPhaseDone \<or> awaits_io c"
  by (auto simp: loop_on_def awaits_io_def)

lemma CompleteAllreduce_exit: "CompleteAllreduce rt c = Some c' \<Longrightarrow> \<not> loop_on c'"
  by (induction rt c rule: CompleteAllreduce.induct)
     (auto simp: CompleteAllreduce.simps split: if_splits option.splits)


lemma CompleteBroadcast_exit: "CompleteBroadcast rt c = Some c' \<Longrightarrow> \<not> loop_on c'"
  by (induction rt c rule: CompleteBroadcast.induct)
     (auto simp: CompleteBroadcast.simps split: if_splits option.splits)

lemma CompleteAllGather_exit: "CompleteAllGather rt c = Some c' \<Longrightarrow> \<not> loop_on c'"
  by (induction rt c rule: CompleteAllGather.induct)
     (auto simp: CompleteAllGather.simps split: if_splits option.splits)

lemma CompleteReduce_exit: "CompleteReduce rt c = Some c' \<Longrightarrow> \<not> loop_on c'"
  by (induction rt c rule: CompleteReduce.induct)
     (auto simp: CompleteReduce.simps split: if_splits option.splits)

lemma CompleteReduceScatter_exit: "CompleteReduceScatter rt c = Some c' \<Longrightarrow> \<not> loop_on c'"
  by (induction rt c rule: CompleteReduceScatter.induct)
     (auto simp: CompleteReduceScatter.simps split: if_splits option.splits)

lemmas complete_exits = CompleteAllreduce_exit CompleteBroadcast_exit CompleteAllGather_exit CompleteReduce_exit
  CompleteReduceScatter_exit

abbreviation ring_settled :: "'e tcfg \<Rightarrow> bool" where
  "ring_settled c \<equiv> st_phase (tc_state c) = kPhaseDone \<or> awaits_io c"

lemma done_phases [simp]: "st_phase (tc_state (set_phase ph c)) = ph" "st_phase (tc_state (MarkAllDone c)) = st_phase (tc_state c)"
  by (simp_all add: set_phase_def MarkAllDone_def upd_state_def)

lemma ring_init_settled:
  "AllreduceInit rt c = Some c' \<Longrightarrow> ring_settled c'" "BroadcastInit rt c = Some c' \<Longrightarrow> ring_settled c'"
  "AllGatherInit rt c = Some c' \<Longrightarrow> ring_settled c'" "ReduceInit rt c = Some c' \<Longrightarrow> ring_settled c'"
  "ReduceScatterInit rt c = Some c' \<Longrightarrow> ring_settled c'"
  by (auto simp: AllreduceInit_def BroadcastInit_def AllGatherInit_def ReduceInit_def ReduceScatterInit_def Let_def
      bind_eq_Some_conv dest!: complete_exits not_loop_on split: if_splits)

lemma ring_step_settled:
  "AllreduceStep rt ev c = Some c' \<Longrightarrow> ring_settled c'" "BroadcastStep rt ev c = Some c' \<Longrightarrow> ring_settled c'"
  "AllGatherStep rt ev c = Some c' \<Longrightarrow> ring_settled c'" "ReduceStep rt ev c = Some c' \<Longrightarrow> ring_settled c'"
  "ReduceScatterStep rt ev c = Some c' \<Longrightarrow> ring_settled c'"
  by (auto simp: AllreduceStep_def BroadcastStep_def AllGatherStep_def ReduceStep_def ReduceScatterStep_def Let_def
      bind_eq_Some_conv dest!: complete_exits not_loop_on split: if_splits)

lemma Ring_settled:
  "Ring_CollectiveInit rt c = Some c' \<Longrightarrow> ring_settled c'" "Ring_CollectiveStep rt ev c = Some c' \<Longrightarrow> ring_settled c'"
  by (auto simp: Ring_CollectiveInit_def Ring_CollectiveStep_def dest: ring_init_settled ring_step_settled
      split: CollFunc.splits)

subsection \<open>The tree\<close>

lemma for_opt_establishes:
  assumes "for_opt f is s = Some s'" and "P s"
    and "\<And>i s s'. i \<in> set is \<Longrightarrow> P s \<Longrightarrow> f i s = Some s' \<Longrightarrow> P s' \<and> Q i s'"
    and "\<And>i j s s'. j \<in> set is \<Longrightarrow> i \<noteq> j \<Longrightarrow> P s \<Longrightarrow> Q i s \<Longrightarrow> f j s = Some s' \<Longrightarrow> Q i s'"
  shows "P s' \<and> (\<forall>i\<in>set is. Q i s')"
  using assms
proof (induction "is" arbitrary: s s' rule: rev_induct)
  case (snoc i "is")
  from snoc.prems(1) obtain s1 where s1: "for_opt f is s = Some s1" "f i s1 = Some s'"
    by (auto simp: for_opt_append split: option.splits)
  have IH: "P s1 \<and> (\<forall>j\<in>set is. Q j s1)"
  proof (rule snoc.IH [OF s1(1) snoc.prems(2)])
    show "P b \<and> Q j b" if "j \<in> set is" "P a" "f j a = Some b" for j a b
      using that by (intro snoc.prems(3)) auto
    show "Q k b" if "j \<in> set is" "k \<noteq> j" "P a" "Q k a" "f j a = Some b" for j k a b
      using that by (intro snoc.prems(4) [of j k a b]) auto
  qed
  with s1(2) snoc.prems(3) [of i s1 s'] have new: "P s'" "Q i s'" by auto
  have "Q j s'" if "j \<in> set is" for j
    using that IH new(2) snoc.prems(4) [OF _ _ _ _ s1(2), of j] s1(2) by (cases "j = i") auto
  with new show ?case by auto
qed simp

text \<open>The vectors of the machine have one entry per edge.\<close>

definition tree_sized :: "TreeRole list \<Rightarrow> 'e tcfg \<Rightarrow> bool" where
  "tree_sized roles c \<longleftrightarrow> (let s = tc_state c; n = length roles in
     length (pt_send_transports (tc_task c)) = n \<and> length (pt_recv_transports (tc_task c)) = n \<and>
     length (st_send_chunk s) = n \<and> length (st_recv_chunk s) = n \<and>
     length (st_send_done s) = n \<and> length (st_recv_done s) = n)"

definition recv_frame_on :: "nat \<Rightarrow> 'e tcfg \<Rightarrow> 'e tcfg \<Rightarrow> bool" where
  "recv_frame_on i c c' \<longleftrightarrow> (let s = tc_state c; s' = tc_state c' in
     (\<exists>k d. st_recv_chunk s' = (st_recv_chunk s)[i := k] \<and> st_recv_done s' = (st_recv_done s)[i := d]) \<and>
     st_send_chunk s' = st_send_chunk s \<and> st_send_done s' = st_send_done s)"

definition send_frame_on :: "nat \<Rightarrow> 'e tcfg \<Rightarrow> 'e tcfg \<Rightarrow> bool" where
  "send_frame_on i c c' \<longleftrightarrow> (let s = tc_state c; s' = tc_state c' in
     (\<exists>k d. st_send_chunk s' = (st_send_chunk s)[i := k] \<and> st_send_done s' = (st_send_done s)[i := d]) \<and>
     st_recv_chunk s' = st_recv_chunk s \<and> st_recv_done s' = st_recv_done s)"

lemma recv_frame_on_trans: "recv_frame_on i a b \<Longrightarrow> recv_frame_on i b c \<Longrightarrow> recv_frame_on i a c"
  by (auto simp: recv_frame_on_def Let_def)

lemma send_frame_on_trans: "send_frame_on i a b \<Longrightarrow> send_frame_on i b c \<Longrightarrow> send_frame_on i a c"
  by (auto simp: send_frame_on_def Let_def)

lemma frame_on_refl [simp]: "recv_frame_on i c c" "send_frame_on i c c"
  by (simp_all add: recv_frame_on_def send_frame_on_def Let_def) (metis list_update_id)+

lemma ReduceChunk_done [simp]:
  "st_recv_done (tc_state (ReduceChunk rt i k c)) = st_recv_done (tc_state c)"
  "st_send_done (tc_state (ReduceChunk rt i k c)) = st_send_done (tc_state c)"
  by (simp_all add: ReduceChunk_def reduce_mem_def Let_def)

lemma tree_recv_step_on:
  assumes "tree_recv_step rt roles ld i c = Some (c', b)"
  shows "recv_frame_on i c c'" and "\<not> b \<Longrightarrow> i < length (st_recv_done (tc_state c)) \<Longrightarrow> \<not> st_recv_done (tc_state c') ! i"
  using assms
  by (auto simp: tree_recv_step_def recv_frame_on_def Let_def upd_state_def chunk_inc_def
      split: if_splits option.splits prod.splits) (metis list_update_id list_update_overwrite)+

lemma tree_send_step_on:
  assumes "tree_send_step rt ld j c = Some (c', b)"
  shows "send_frame_on j c c'" and "\<not> b \<Longrightarrow> j < length (st_send_done (tc_state c)) \<Longrightarrow> \<not> st_send_done (tc_state c') ! j"
  using assms
  by (auto simp: tree_send_step_def send_frame_on_def Let_def upd_state_def chunk_inc_def
      split: if_splits option.splits prod.splits) (metis list_update_id list_update_overwrite)+

lemma recv_edge_on:
  "recv_edge rt roles ld n i c = Some c' \<Longrightarrow> recv_frame_on i c c' \<and>
     (i < length (st_recv_chunk (tc_state c)) \<and> i < length (st_recv_done (tc_state c)) \<and> st_recv_chunk (tc_state c') ! i < n \<longrightarrow>
      \<not> st_recv_done (tc_state c') ! i)"
proof (induction rt roles ld n i c rule: recv_edge.induct)
  case (1 rt roles ld n i c)
  show ?case
  proof (cases "i < length (st_recv_chunk (tc_state c)) \<and> st_recv_chunk (tc_state c) ! i < n")
    case True
    then obtain c1 b where step: "tree_recv_step rt roles ld i c = Some (c1, b)"
      using 1(2) by (auto simp: recv_edge.simps [of rt] split: option.splits)
    note on = tree_recv_step_on [OF step]
    from on(1) have len: "length (st_recv_chunk (tc_state c1)) = length (st_recv_chunk (tc_state c))"
      "length (st_recv_done (tc_state c1)) = length (st_recv_done (tc_state c))" by (auto simp: recv_frame_on_def Let_def)
    show ?thesis
    proof (cases b)
      case b: True
      then have "recv_edge rt roles ld n i c1 = Some c'" using 1(2) True step by (simp add: recv_edge.simps [of rt _ _ _ _ c])
      with 1(1) [OF True step refl] b len recv_frame_on_trans [OF on(1)] show ?thesis by auto
    next
      case False
      then have "c' = c1" using 1(2) True step by (simp add: recv_edge.simps)
      with on False show ?thesis by auto
    qed
  qed (use 1(2) in \<open>auto simp: recv_edge.simps\<close>)
qed

lemma send_edge_on:
  "send_edge rt ld n i c = Some c' \<Longrightarrow> send_frame_on i c c' \<and>
     (i < length (st_send_chunk (tc_state c)) \<and> i < length (st_send_done (tc_state c)) \<and> st_send_chunk (tc_state c') ! i < n \<longrightarrow>
      \<not> st_send_done (tc_state c') ! i)"
proof (induction rt ld n i c rule: send_edge.induct)
  case (1 rt ld n i c)
  show ?case
  proof (cases "i < length (st_send_chunk (tc_state c)) \<and> st_send_chunk (tc_state c) ! i < n")
    case True
    then obtain c1 b where step: "tree_send_step rt ld i c = Some (c1, b)"
      using 1(2) by (auto simp: send_edge.simps [of rt] split: option.splits)
    note on = tree_send_step_on [OF step]
    from on(1) have len: "length (st_send_chunk (tc_state c1)) = length (st_send_chunk (tc_state c))"
      "length (st_send_done (tc_state c1)) = length (st_send_done (tc_state c))" by (auto simp: send_frame_on_def Let_def)
    show ?thesis
    proof (cases b)
      case b: True
      then have "send_edge rt ld n i c1 = Some c'" using 1(2) True step by (simp add: send_edge.simps [of rt _ _ _ c])
      with 1(1) [OF True step refl] b len send_frame_on_trans [OF on(1)] show ?thesis by auto
    next
      case False
      then have "c' = c1" using 1(2) True step by (simp add: send_edge.simps)
      with on False show ?thesis by auto
    qed
  qed (use 1(2) in \<open>auto simp: send_edge.simps\<close>)
qed

text \<open>An eligible edge that is not complete waits for its transport.\<close>

definition recvs_wait :: "TreeRole list \<Rightarrow> bool \<Rightarrow> 'e tcfg \<Rightarrow> bool" where
  "recvs_wait roles ld c \<longleftrightarrow> (\<forall>i < length roles. recv_eligible roles ld (st_phase (tc_state c)) i \<and>
     st_recv_chunk (tc_state c) ! i < ChunkCount (tc_task c) \<longrightarrow> \<not> st_recv_done (tc_state c) ! i)"

definition sends_wait :: "TreeRole list \<Rightarrow> bool \<Rightarrow> 'e tcfg \<Rightarrow> bool" where
  "sends_wait roles ld c \<longleftrightarrow> (\<forall>j < length roles. send_eligible roles ld (st_phase (tc_state c)) j \<and>
     st_send_chunk (tc_state c) ! j < send_gate roles ld (tc_task c) \<longrightarrow> \<not> st_send_done (tc_state c) ! j)"

lemma tree_frame_params:
  assumes "tree_frame c c'"
  shows "st_phase (tc_state c') = st_phase (tc_state c)" "ChunkCount (tc_task c') = ChunkCount (tc_task c)"
    "pt_send_transports (tc_task c') = pt_send_transports (tc_task c)"
    "pt_recv_transports (tc_task c') = pt_recv_transports (tc_task c)"
    "pt_topology (tc_task c') = pt_topology (tc_task c)" "pt_channel_id (tc_task c') = pt_channel_id (tc_task c)"
    "pt_func (tc_task c') = pt_func (tc_task c)"
proof -
  from assms have ph: "st_phase (tc_state c') = st_phase (tc_state c)"
    and eq: "(tc_task c')\<lparr>pt_state := CollOpState_default\<rparr> = (tc_task c)\<lparr>pt_state := CollOpState_default\<rparr>"
    by (simp_all add: tree_frame_def)
  show "st_phase (tc_state c') = st_phase (tc_state c)" by (rule ph)
  show "ChunkCount (tc_task c') = ChunkCount (tc_task c)"
    using arg_cong [OF eq, of pt_chunk_size] arg_cong [OF eq, of pt_elem_count] by (simp add: ChunkCount_def)
  show "pt_send_transports (tc_task c') = pt_send_transports (tc_task c)" using arg_cong [OF eq, of pt_send_transports] by simp
  show "pt_recv_transports (tc_task c') = pt_recv_transports (tc_task c)" using arg_cong [OF eq, of pt_recv_transports] by simp
  show "pt_topology (tc_task c') = pt_topology (tc_task c)" using arg_cong [OF eq, of pt_topology] by simp
  show "pt_channel_id (tc_task c') = pt_channel_id (tc_task c)" using arg_cong [OF eq, of pt_channel_id] by simp
  show "pt_func (tc_task c') = pt_func (tc_task c)" using arg_cong [OF eq, of pt_func] by simp
qed

lemma PushRecvs_waits:
  assumes run: "PushRecvs rt roles ld c = Some c'" and sized: "tree_sized roles c"
  shows "tree_sized roles c'" and "recvs_wait roles ld c'"
proof -
  let ?ph = "st_phase (tc_state c)" and ?n = "ChunkCount (tc_task c)"
  let ?P = "\<lambda>x. tree_sized roles x \<and> tree_frame c x"
  let ?Q = "\<lambda>i x. recv_eligible roles ld ?ph i \<and> st_recv_chunk (tc_state x) ! i < ?n \<longrightarrow> \<not> st_recv_done (tc_state x) ! i"
  let ?f = "\<lambda>i x. if recv_eligible roles ld (st_phase (tc_state x)) i then recv_edge rt roles ld ?n i x else Some x"
  have ph: "st_phase (tc_state x) = ?ph" if "tree_frame c x" for x :: "'a tcfg" using that by (simp add: tree_frame_def)
  have loop: "for_opt ?f [0..<length roles] c = Some c'"
    using run sized by (simp add: PushRecvs_def Let_def tree_sized_def)
  have "?P c' \<and> (\<forall>i \<in> set [0..<length roles]. ?Q i c')"
  proof (rule for_opt_establishes [OF loop])
    show "?P c" using sized by simp
    show "?P b \<and> ?Q i b" if "i \<in> set [0..<length roles]" "?P a" "?f i a = Some b" for i a b
    proof (cases "recv_eligible roles ld ?ph i")
      case True
      with that ph [of a] have run: "recv_edge rt roles ld ?n i a = Some b" by simp
      then have "tree_frame c b" using that(2) recv_edge_frame tree_frame_trans by blast
      with recv_edge_on [OF run] that(1,2) tree_frame_params(3,4) [of c b] tree_frame_params(3,4) [of c a]
      show ?thesis by (auto simp: tree_sized_def recv_frame_on_def Let_def)
    qed (use that ph [of a] in auto)
    show "?Q k b" if "j \<in> set [0..<length roles]" "k \<noteq> j" "?P a" "?Q k a" "?f j a = Some b" for j k a b
      using that recv_edge_on [of rt roles ld ?n j a b]
      by (auto simp: recv_frame_on_def Let_def split: if_splits)
  qed
  then show "tree_sized roles c'" "recvs_wait roles ld c'"
    using tree_frame_params(1,2) [of c c'] by (auto simp: recvs_wait_def)
qed

lemma send_gate_frame:
  "tree_frame c c' \<Longrightarrow> st_recv_chunk (tc_state c') = st_recv_chunk (tc_state c) \<Longrightarrow>
     send_gate roles ld (tc_task c') = send_gate roles ld (tc_task c)"
  by (simp add: send_gate_def MinInputPrefix_def tree_frame_params cong: if_cong)

lemma PushSends_waits:
  assumes run: "PushSends rt roles ld c = Some c'" and sized: "tree_sized roles c"
  shows "tree_sized roles c'" and "sends_wait roles ld c'" and "recvs_wait roles ld c \<Longrightarrow> recvs_wait roles ld c'"
proof -
  let ?ph = "st_phase (tc_state c)" and ?g = "send_gate roles ld (tc_task c)"
  let ?P = "\<lambda>x. tree_sized roles x \<and> tree_frame c x \<and> st_recv_chunk (tc_state x) = st_recv_chunk (tc_state c) \<and>
    st_recv_done (tc_state x) = st_recv_done (tc_state c)"
  let ?Q = "\<lambda>i x. send_eligible roles ld ?ph i \<and> st_send_chunk (tc_state x) ! i < ?g \<longrightarrow> \<not> st_send_done (tc_state x) ! i"
  let ?f = "\<lambda>i x. if send_eligible roles ld (st_phase (tc_state x)) i then send_edge rt ld ?g i x else Some x"
  have ph: "st_phase (tc_state x) = ?ph" if "tree_frame c x" for x :: "'a tcfg" using that by (simp add: tree_frame_def)
  have loop: "for_opt ?f [0..<length roles] c = Some c'"
    using run sized by (simp add: PushSends_def Let_def tree_sized_def)
  have "?P c' \<and> (\<forall>i \<in> set [0..<length roles]. ?Q i c')"
  proof (rule for_opt_establishes [OF loop])
    show "?P c" using sized by simp
    show "?P b \<and> ?Q i b" if "i \<in> set [0..<length roles]" "?P a" "?f i a = Some b" for i a b
    proof (cases "send_eligible roles ld ?ph i")
      case True
      with that ph [of a] have run: "send_edge rt ld ?g i a = Some b" by simp
      then have "tree_frame c b" using that(2) send_edge_frame tree_frame_trans by blast
      with send_edge_on [OF run] that(1,2) tree_frame_params(3,4) [of c b] tree_frame_params(3,4) [of c a]
      show ?thesis by (auto simp: tree_sized_def send_frame_on_def Let_def)
    qed (use that ph [of a] in auto)
    show "?Q k b" if "j \<in> set [0..<length roles]" "k \<noteq> j" "?P a" "?Q k a" "?f j a = Some b" for j k a b
      using that send_edge_on [of rt ld ?g j a b]
      by (auto simp: send_frame_on_def Let_def split: if_splits)
  qed
  then show "tree_sized roles c'" "sends_wait roles ld c'" "recvs_wait roles ld c \<Longrightarrow> recvs_wait roles ld c'"
    using tree_frame_params(1,2) [of c c'] send_gate_frame [of c c' roles ld] by (auto simp: sends_wait_def recvs_wait_def)
qed

abbreviation tree_waits :: "TreeRole list \<Rightarrow> bool \<Rightarrow> 'e tcfg \<Rightarrow> bool" where
  "tree_waits roles ld c \<equiv> tree_sized roles c \<and> recvs_wait roles ld c \<and> sends_wait roles ld c"

lemma tree_push_waits: "tree_push rt roles ld c = Some c' \<Longrightarrow> tree_sized roles c \<Longrightarrow> tree_waits roles ld c'"
  by (auto simp: tree_push_def bind_eq_Some_conv dest: PushRecvs_waits PushSends_waits)

lemma not_SideDone: "i < length d \<Longrightarrow> \<not> d ! i \<Longrightarrow> \<not> SideDone d"
  by (auto simp: SideDone_def list_all_length)

lemma foldl_min_upper:
  "(\<And>i. i \<in> set is \<Longrightarrow> P i \<Longrightarrow> (n::nat) \<le> f i) \<Longrightarrow> foldl (\<lambda>best i. if P i then min best (f i) else best) n is = n"
  by (induction "is") (auto simp: min_absorb1)

lemma Up_waits:
  assumes "tree_waits roles ld c" and "st_phase (tc_state c) = kPhaseUp" and "\<not> UpComplete (tc_task c) roles ld"
  shows "awaits_io c"
proof -
  let ?s = "tc_state c" and ?n = "ChunkCount (tc_task c)"
  have ne: "kPhaseUp \<noteq> kPhaseDown" by (simp add: kPhaseUp_def kPhaseDown_def)
  have len: "length (st_recv_done ?s) = length roles" "length (st_send_done ?s) = length roles"
    using assms(1) by (auto simp: tree_sized_def Let_def)
  have recv: "\<not> SideDone (st_recv_done ?s)"
    if "i < length roles" "recv_eligible roles ld kPhaseUp i" "st_recv_chunk ?s ! i < ?n" for i
    using assms(1,2) that len not_SideDone [of i "st_recv_done ?s"] by (auto simp: recvs_wait_def)
  have send: "\<not> SideDone (st_send_done ?s)"
    if "j < length roles" "send_eligible roles ld kPhaseUp j" "st_send_chunk ?s ! j < send_gate roles ld (tc_task c)" for j
    using assms(1,2) that len not_SideDone [of j "st_send_done ?s"] by (auto simp: sends_wait_def)
  show ?thesis
  proof (cases "\<exists>i<length roles. ld \<and> IsInputRole (roles ! i) \<and> st_recv_chunk ?s ! i < ?n")
    case True
    then show ?thesis using recv by (auto simp: awaits_io_def recv_eligible_def)
  next
    case False
    then have "ld \<Longrightarrow> MinInputPrefix (tc_task c) roles = ?n"
      unfolding MinInputPrefix_def by (intro foldl_min_upper) (auto simp: not_less)
    then have "send_gate roles ld (tc_task c) = ?n" using assms(2) by (simp add: send_gate_def)
    with False assms(3) send show ?thesis
      by (auto simp: awaits_io_def UpComplete_def send_eligible_def Let_def list_all_iff split: if_splits)
  qed
qed

lemma Down_waits:
  assumes "tree_waits roles ld c" and "st_phase (tc_state c) = kPhaseDown" and "\<not> DownComplete (tc_task c) roles ld"
  shows "awaits_io c"
proof -
  let ?s = "tc_state c" and ?n = "ChunkCount (tc_task c)"
  have ne: "kPhaseUp \<noteq> kPhaseDown" by (simp add: kPhaseUp_def kPhaseDown_def)
  have len: "length (st_recv_done ?s) = length roles" "length (st_send_done ?s) = length roles"
    using assms(1) by (auto simp: tree_sized_def Let_def)
  have recv: "\<not> SideDone (st_recv_done ?s)"
    if "i < length roles" "recv_eligible roles ld kPhaseDown i" "st_recv_chunk ?s ! i < ?n" for i
    using assms(1,2) that len not_SideDone [of i "st_recv_done ?s"] by (auto simp: recvs_wait_def)
  have send: "\<not> SideDone (st_send_done ?s)"
    if "j < length roles" "send_eligible roles ld kPhaseDown j" "st_send_chunk ?s ! j < send_gate roles ld (tc_task c)" for j
    using assms(1,2) that len not_SideDone [of j "st_send_done ?s"] by (auto simp: sends_wait_def)
  show ?thesis
  proof (cases "\<exists>i<length roles. (ld \<longrightarrow> roles ! i = RoleTreeUp) \<and> st_recv_chunk ?s ! i < ?n")
    case True
    then obtain i where "i < length roles" "ld \<longrightarrow> roles ! i = RoleTreeUp" "st_recv_chunk ?s ! i < ?n" by blast
    with recv [of i] ne show ?thesis by (cases ld) (simp_all add: awaits_io_def recv_eligible_def)
  next
    case False
    have parent: "ParentEdge roles < 0 \<or> (nat (ParentEdge roles) < length roles \<and> roles ! nat (ParentEdge roles) = RoleTreeUp)"
    proof (cases "filter (\<lambda>i. roles ! i = RoleTreeUp) [0..<length roles]")
      case (Cons i xs)
      have "j < length roles \<and> roles ! j = RoleTreeUp" if "j \<in> set (filter (\<lambda>i. roles ! i = RoleTreeUp) [0..<length roles])" for j
        using that by simp
      from this [of i] have "i < length roles \<and> roles ! i = RoleTreeUp" unfolding Cons by simp
      with Cons show ?thesis by (simp add: ParentEdge_def)
    qed (simp add: ParentEdge_def)
    with False have gate: "ld \<Longrightarrow> ?n \<le> send_gate roles ld (tc_task c)" using assms(2) ne by (auto simp: send_gate_def not_less)
    have "ld" using False assms(3) by (cases ld) (auto simp: DownComplete_def Let_def list_all_iff)
    with False assms(3) send gate ne show ?thesis
      by (fastforce simp: awaits_io_def DownComplete_def send_eligible_def Let_def list_all_iff)
  qed
qed

lemma mem_store_transports [simp]:
  "pt_send_transports (tc_task (mem_store p bs c)) = pt_send_transports (tc_task c)"
  "pt_recv_transports (tc_task (mem_store p bs c)) = pt_recv_transports (tc_task c)"
  "pt_func (tc_task (mem_store p bs c)) = pt_func (tc_task c)"
  by (cases p; simp add: upd_state_def)+

lemma EnterDown_sized: "tree_sized roles c \<Longrightarrow> tree_sized roles (EnterDown rt roles ld c)"
  by (auto simp: EnterDown_def tree_sized_def Let_def upd_state_def average_mem_def)

text \<open>Outside of the two transfer phases the machine is done or has not been started.\<close>

definition tree_settled :: "'e tcfg \<Rightarrow> bool" where
  "tree_settled c \<longleftrightarrow> st_phase (tc_state c) \<in> {kPhaseUp, kPhaseDown} \<longrightarrow> awaits_io c"

lemma Advance_settled:
  "Advance rt roles ld c = Some c' \<Longrightarrow> tree_waits roles ld c \<Longrightarrow> tree_settled c'"
proof (induction rt roles ld c rule: Advance.induct)
  case (1 rt roles ld c)
  let ?ph = "st_phase (tc_state c)"
  show ?case
  proof (cases "?ph = kPhaseUp \<and> UpComplete (tc_task c) roles ld")
    case True
    then obtain c1 where push: "tree_push rt roles ld (EnterDown rt roles ld c) = Some c1" and rest: "Advance rt roles ld c1 = Some c'"
      using 1(2) by (auto simp: Advance.simps [of rt roles ld c] kPhaseUp_def kPhaseDown_def split: option.splits)
    from push 1(3) have "tree_waits roles ld c1" by (auto dest: tree_push_waits EnterDown_sized)
    with 1(1) [OF refl _ _ _ _ push rest] True show ?thesis by (simp add: kPhaseUp_def kPhaseDown_def)
  next
    case False
    with 1(2,3) Up_waits [of roles c ld] Down_waits [of roles c ld] show ?thesis
      by (auto simp: Advance.simps [of rt roles ld c] tree_settled_def kPhaseUp_def kPhaseDown_def kPhaseDone_def Let_def
          split: if_splits)
  qed
qed

lemma tree_phase_cases:
  "Advance rt roles ld c = Some c' \<Longrightarrow> st_phase (tc_state c) \<in> {kPhaseUp, kPhaseDown} \<Longrightarrow>
     st_phase (tc_state c') \<in> {kPhaseUp, kPhaseDown, kPhaseDone}"
proof (induction rt roles ld c rule: Advance.induct)
  case (1 rt roles ld c)
  show ?case
  proof (cases "st_phase (tc_state c) = kPhaseUp \<and> UpComplete (tc_task c) roles ld")
    case True
    then obtain c1 where push: "tree_push rt roles ld (EnterDown rt roles ld c) = Some c1" and rest: "Advance rt roles ld c1 = Some c'"
      using 1(2) by (auto simp: Advance.simps [of rt roles ld c] kPhaseUp_def kPhaseDown_def split: option.splits)
    then have "st_phase (tc_state c1) = kPhaseDown" using EnterDown_phase tree_frame_params(1) [OF tree_push_frame] by fastforce
    with 1(1) [OF refl _ _ _ _ push rest] True show ?thesis by (simp add: kPhaseUp_def kPhaseDown_def)
  next
    case False
    with 1(2,3) show ?thesis
      by (auto simp: Advance.simps [of rt roles ld c] kPhaseUp_def kPhaseDown_def kPhaseDone_def Let_def split: if_splits)
  qed
qed

subsection \<open>The parameters of a task never change\<close>

definition params :: "'e tcfg \<Rightarrow> PlanTask" where
  "params c = (tc_task c)\<lparr>pt_state := CollOpState_default\<rparr>"

lemma params_upd_state [simp]: "params (upd_state f c) = params c" "params (c\<lparr>tc_net := e\<rparr>) = params c"
    "params (c\<lparr>tc_heap := h\<rparr>) = params c"
  by (simp_all add: params_def upd_state_def)

lemma params_mem [simp]: "params (mem_store p bs c) = params c" "params (memcpy p q n c) = params c"
    "params (reduce_mem rt p q n d op c) = params c" "params (average_mem rt p n d ws c) = params c"
    "params (ReduceBlock rt p q c) = params c"
proof -
  show store: "params (mem_store p bs c) = params c" for p bs and c :: "'a tcfg" by (cases p) simp_all
  show "params (memcpy p q n c) = params c" "params (reduce_mem rt p q n d op c) = params c"
    "params (average_mem rt p n d ws c) = params c" "params (ReduceBlock rt p q c) = params c"
    by (simp_all add: memcpy_def reduce_mem_def average_mem_def ReduceBlock_def store)
qed

lemma params_set [simp]: "params (set_phase ph c) = params c" "params (resize_temp n c) = params c"
    "params (MarkAllDone c) = params c" "params (reset_state c) = params c"
  by (simp_all add: set_phase_def resize_temp_def MarkAllDone_def reset_state_def)

lemma same_frame_params: "same_frame c c' \<Longrightarrow> params c' = params c"
  by (simp add: same_frame_def params_def)

lemma params_BeginPhase: "BeginPhase rt ph p q m n c = Some c' \<Longrightarrow> params c' = params c"
  using BeginPhase_frame(3) by (simp add: params_def)

lemma params_PushBuffer: "PushBuffer rt ev p q m n c = Some c' \<Longrightarrow> params c' = params c"
  by (rule same_frame_params) (rule same_frame_PushBuffer)

lemma params_inc_step: "inc_step c = Some c' \<Longrightarrow> params c' = params c"
  by (auto dest: inc_step_frame)

lemma params_loop:
  "CompleteBroadcast rt c = Some c' \<Longrightarrow> params c' = params c"
  "CompleteAllGather rt c = Some c' \<Longrightarrow> params c' = params c"
  "CompleteReduce rt c = Some c' \<Longrightarrow> params c' = params c"
  "CompleteReduceScatter rt c = Some c' \<Longrightarrow> params c' = params c"
  "CompleteAllreduce rt c = Some c' \<Longrightarrow> params c' = params c"
proof -
  have "broadcast_body rt c = Some c' \<Longrightarrow> params c' = params c" for c c' :: "'a tcfg"
    by (auto simp: broadcast_body_def Let_def dest: params_BeginPhase)
  then show "CompleteBroadcast rt c = Some c' \<Longrightarrow> params c' = params c"
    by (induction rt c rule: CompleteBroadcast.induct) (auto simp: CompleteBroadcast.simps split: if_splits option.splits)
  have "allgather_body rt c = Some c' \<Longrightarrow> params c' = params c" for c c' :: "'a tcfg"
    by (auto simp: allgather_body_def Let_def dest!: params_BeginPhase params_inc_step split: option.splits)
  then show "CompleteAllGather rt c = Some c' \<Longrightarrow> params c' = params c"
    by (induction rt c rule: CompleteAllGather.induct) (auto simp: CompleteAllGather.simps split: if_splits option.splits)
  have "params (fst (reduce_advance rt c)) = params c" for c :: "'a tcfg" by (simp add: reduce_advance_def Let_def)
  then have "reduce_body rt c = Some c' \<Longrightarrow> params c' = params c" for c c' :: "'a tcfg"
    by (auto simp: reduce_body_def Let_def dest!: params_BeginPhase split: prod.splits) (metis fst_conv)
  then show "CompleteReduce rt c = Some c' \<Longrightarrow> params c' = params c"
    by (induction rt c rule: CompleteReduce.induct) (auto simp: CompleteReduce.simps split: if_splits option.splits)
  have "reducescatter_advance rt c = Some (c', ph) \<Longrightarrow> params c' = params c" for c c' :: "'a tcfg" and ph
    by (auto simp: reducescatter_advance_def Let_def dest!: params_inc_step split: option.splits if_splits)
  then have "reducescatter_body rt c = Some c' \<Longrightarrow> params c' = params c" for c c' :: "'a tcfg"
    by (auto simp: reducescatter_body_def Let_def dest!: params_BeginPhase split: option.splits prod.splits)
  then show "CompleteReduceScatter rt c = Some c' \<Longrightarrow> params c' = params c"
    by (induction rt c rule: CompleteReduceScatter.induct) (auto simp: CompleteReduceScatter.simps split: if_splits option.splits)
  have "params (fst (allreduce_cursor c)) = params c" for c :: "'a tcfg" by (simp add: allreduce_cursor_def Let_def)
  then have "allreduce_body rt c = Some c' \<Longrightarrow> params c' = params c" for c c' :: "'a tcfg"
    using same_frame_params [OF same_frame_allreduce_reduce [of c rt]]
    by (auto simp: allreduce_body_def allreduce_begin_def Let_def dest!: params_BeginPhase params_inc_step
        split: option.splits prod.splits bool.splits) (metis fst_conv)+
  then show "CompleteAllreduce rt c = Some c' \<Longrightarrow> params c' = params c"
    by (induction rt c rule: CompleteAllreduce.induct) (auto simp: CompleteAllreduce.simps split: if_splits option.splits)
qed

lemmas params_rules = params_loop params_BeginPhase params_PushBuffer

lemma params_Ring:
  "Ring_CollectiveInit rt c = Some c' \<Longrightarrow> params c' = params c" "Ring_CollectiveStep rt ev c = Some c' \<Longrightarrow> params c' = params c"
proof -
  have init: "AllreduceInit rt c = Some c' \<Longrightarrow> params c' = params c" "BroadcastInit rt c = Some c' \<Longrightarrow> params c' = params c"
    "AllGatherInit rt c = Some c' \<Longrightarrow> params c' = params c" "ReduceInit rt c = Some c' \<Longrightarrow> params c' = params c"
    "ReduceScatterInit rt c = Some c' \<Longrightarrow> params c' = params c" for c c' :: "'a tcfg"
    by (auto simp: AllreduceInit_def BroadcastInit_def AllGatherInit_def ReduceInit_def ReduceScatterInit_def Let_def
        allreduce_begin_def bind_eq_Some_conv dest!: params_rules split: if_splits)
  then show "Ring_CollectiveInit rt c = Some c' \<Longrightarrow> params c' = params c"
    by (auto simp: Ring_CollectiveInit_def split: CollFunc.splits)
  show "Ring_CollectiveStep rt ev c = Some c' \<Longrightarrow> params c' = params c"
    by (auto simp: Ring_CollectiveStep_def AllreduceStep_def BroadcastStep_def AllGatherStep_def ReduceStep_def
        ReduceScatterStep_def Let_def bind_eq_Some_conv dest!: params_rules init split: CollFunc.splits if_splits)
qed

lemma params_tree_push: "tree_push rt roles ld c = Some c' \<Longrightarrow> params c' = params c"
  by (drule tree_push_frame) (simp add: params_def tree_frame_def)

lemma params_EnterDown [simp]: "params (EnterDown rt roles ld c) = params c"
  by (simp add: EnterDown_def Let_def)

lemma params_Advance: "Advance rt roles ld c = Some c' \<Longrightarrow> params c' = params c"
proof (induction rt roles ld c rule: Advance.induct)
  case (1 rt roles ld c)
  show ?case
  proof (cases "st_phase (tc_state c) = kPhaseUp \<and> UpComplete (tc_task c) roles ld")
    case True
    then obtain c1 where push: "tree_push rt roles ld (EnterDown rt roles ld c) = Some c1" and rest: "Advance rt roles ld c1 = Some c'"
      using 1(2) by (auto simp: Advance.simps [of rt roles ld c] kPhaseUp_def kPhaseDown_def split: option.splits)
    with 1(1) [OF refl _ _ _ _ push rest] True params_tree_push [OF push] show ?thesis by (simp add: kPhaseUp_def kPhaseDown_def)
  next
    case False
    with 1(2) show ?thesis by (auto simp: Advance.simps [of rt roles ld c] Let_def split: if_splits)
  qed
qed

lemma params_TreeInit: "TreeInit rt roles ld c = Some c' \<Longrightarrow> params c' = params c"
  by (auto simp: TreeInit_def Let_def bind_eq_Some_conv dest!: params_Advance params_tree_push split: if_splits)

lemma params_Tree:
  "Tree_CollectiveInit rt cr ld c = Some c' \<Longrightarrow> params c' = params c"
  "Tree_CollectiveStep rt cr ld ev c = Some c' \<Longrightarrow> params c' = params c"
  by (auto simp: Tree_CollectiveInit_def Tree_CollectiveStep_def bind_eq_Some_conv
      dest!: params_TreeInit params_Advance params_tree_push split: if_splits option.splits)

lemma params_P2p_Step: "P2p_CollectiveStep rt ev c = Some c' \<Longrightarrow> params c' = params c"
  by (auto simp: P2p_CollectiveStep_def Let_def split: if_splits list.splits option.splits)

lemma params_P2p_Init: "P2p_CollectiveInit rt c = Some c' \<Longrightarrow> params c' = params c"
  by (auto simp: P2p_CollectiveInit_def Let_def dest!: params_P2p_Step split: if_splits)

lemma CollectiveInit_params: "CollectiveInit rt ctx c = Some c' \<Longrightarrow> params c' = params c"
  by (auto simp: CollectiveInit_def dest: params_Ring params_Tree params_P2p_Init split: option.splits TopologyKind.splits)

lemma CollectiveStep_params: "CollectiveStep rt ctx ev c = Some c' \<Longrightarrow> params c' = params c"
  by (auto simp: CollectiveStep_def dest: params_Ring params_Tree params_P2p_Step split: option.splits TopologyKind.splits)

lemma execute_iter_params: "execute_iter rt ctx c = Some c' \<Longrightarrow> params c' = params c"
  by (auto simp: execute_iter_def Let_def dest!: CollectiveStep_params split: option.splits if_splits)

lemma params_fields:
  assumes "params c' = params c"
  shows "pt_topology (tc_task c') = pt_topology (tc_task c)" "pt_channel_id (tc_task c') = pt_channel_id (tc_task c)"
    "pt_func (tc_task c') = pt_func (tc_task c)" "pt_send_transports (tc_task c') = pt_send_transports (tc_task c)"
    "pt_recv_transports (tc_task c') = pt_recv_transports (tc_task c)"
proof -
  note eq = assms [unfolded params_def]
  show "pt_topology (tc_task c') = pt_topology (tc_task c)" using arg_cong [OF eq, of pt_topology] by simp
  show "pt_channel_id (tc_task c') = pt_channel_id (tc_task c)" using arg_cong [OF eq, of pt_channel_id] by simp
  show "pt_func (tc_task c') = pt_func (tc_task c)" using arg_cong [OF eq, of pt_func] by simp
  show "pt_send_transports (tc_task c') = pt_send_transports (tc_task c)" using arg_cong [OF eq, of pt_send_transports] by simp
  show "pt_recv_transports (tc_task c') = pt_recv_transports (tc_task c)" using arg_cong [OF eq, of pt_recv_transports] by simp
qed

subsection \<open>Every reachable machine state waits for I/O or is done\<close>

text \<open>The states of a task that is initialised once and then stepped, by whichever executor.\<close>

inductive driven :: "'e runtime \<Rightarrow> topo_ctx \<Rightarrow> 'e tcfg \<Rightarrow> 'e tcfg \<Rightarrow> bool" for rt ctx c0 where
  driven_init: "CollectiveInit rt ctx c0 = Some c \<Longrightarrow> driven rt ctx c0 c"
| driven_step: "driven rt ctx c0 c \<Longrightarrow> CollectiveStep rt ctx ev c = Some c' \<Longrightarrow> driven rt ctx c0 c'"

text \<open>A tree task has one transport per edge and direction; a point-to-point task has the transport it uses.\<close>

definition task_sized :: "topo_ctx \<Rightarrow> PlanTask \<Rightarrow> bool" where
  "task_sized ctx t =
     (case pt_topology t of
        Some TreeTopology \<Rightarrow> (case task_roles (tx_roles ctx) t of None \<Rightarrow> True
          | Some roles \<Rightarrow> length (pt_send_transports t) = length roles \<and> length (pt_recv_transports t) = length roles)
      | Some P2pTopology \<Rightarrow> (if pt_func t = Send then pt_send_transports t \<noteq> [] else pt_recv_transports t \<noteq> [])
      | _ \<Rightarrow> True)"

lemma Advance_sized: "Advance rt roles ld c = Some c' \<Longrightarrow> tree_sized roles c \<Longrightarrow> tree_sized roles c'"
proof (induction rt roles ld c rule: Advance.induct)
  case (1 rt roles ld c)
  show ?case
  proof (cases "st_phase (tc_state c) = kPhaseUp \<and> UpComplete (tc_task c) roles ld")
    case True
    then obtain c1 where push: "tree_push rt roles ld (EnterDown rt roles ld c) = Some c1" and rest: "Advance rt roles ld c1 = Some c'"
      using 1(2) by (auto simp: Advance.simps [of rt roles ld c] kPhaseUp_def kPhaseDown_def split: option.splits)
    from push 1(3) have "tree_sized roles c1" by (auto dest: tree_push_waits EnterDown_sized)
    with 1(1) [OF refl _ _ _ _ push rest] True show ?thesis by (simp add: kPhaseUp_def kPhaseDown_def)
  next
    case False
    with 1(2,3) show ?thesis
      by (auto simp: Advance.simps [of rt roles ld c] Let_def set_phase_def upd_state_def tree_sized_def split: if_splits)
  qed
qed

text \<open>The invariant of a running tree task.\<close>

definition tree_ok :: "TreeRole list \<Rightarrow> 'e tcfg \<Rightarrow> bool" where
  "tree_ok roles c \<longleftrightarrow> st_phase (tc_state c) = kPhaseDone \<or>
     st_phase (tc_state c) \<in> {kPhaseUp, kPhaseDown} \<and> tree_sized roles c \<and> awaits_io c"

lemma Advance_ok:
  assumes "tree_push rt roles ld c = Some y" and "Advance rt roles ld y = Some c'" and "tree_sized roles c"
    and "st_phase (tc_state c) \<in> {kPhaseUp, kPhaseDown}"
  shows "tree_ok roles c'"
proof -
  have waits: "tree_waits roles ld y" by (rule tree_push_waits [OF assms(1,3)])
  have "st_phase (tc_state y) \<in> {kPhaseUp, kPhaseDown}" using assms(4) tree_frame_params(1) [OF tree_push_frame [OF assms(1)]] by simp
  with tree_phase_cases [OF assms(2)] Advance_settled [OF assms(2) waits] Advance_sized [OF assms(2)] waits show ?thesis
    by (auto simp: tree_ok_def tree_settled_def)
qed

lemma TreeInit_ok:
  assumes "TreeInit rt roles ld c = Some c'" and "length (pt_send_transports (tc_task c)) = length roles"
    and "length (pt_recv_transports (tc_task c)) = length roles"
  shows "tree_ok roles c'"
proof -
  let ?sized = "\<lambda>x. tree_sized roles (set_phase kPhaseUp x)"
  define n where "n = length roles"
  define c0 where "c0 = upd_state (\<lambda>s. CollOpState_default\<lparr>st_send_progress := replicate n 0, st_recv_progress := replicate n 0,
      st_send_done := replicate n True, st_recv_done := replicate n True,
      st_send_chunk := replicate n 0, st_recv_chunk := replicate n 0\<rparr>) c"
  have "?sized c0" using assms(2,3) by (simp add: c0_def n_def tree_sized_def set_phase_def upd_state_def Let_def)
  moreover have "?sized (resize_temp k x)" "?sized (memcpy p q k x)" if "?sized x" for k x p q
    using that by (cases p; simp add: tree_sized_def set_phase_def upd_state_def resize_temp_def memcpy_def Let_def)+
  ultimately have big: "?sized (memcpy p q k (resize_temp m c0))" "?sized (resize_temp m c0)" "?sized c0" for p q k m by blast+
  show ?thesis
  proof (cases "st_phase (tc_state c') = kPhaseDone")
    case False
    let ?t = "tc_task c0"
    let ?r = "resize_temp (length (filter IsInputRole roles) * pt_chunk_size ?t * TypeSize ?t) c0"
    define x where "x = (if ld then if pt_send_buf ?t \<noteq> pt_recv_buf ?t
      then memcpy (pt_recv_buf ?t) (pt_send_buf ?t) (pt_elem_count ?t * TypeSize ?t) ?r else ?r else c0)"
    have x: "?sized x" using big by (simp add: x_def)
    have "Option.bind (tree_push rt roles ld (set_phase kPhaseUp x)) (Advance rt roles ld) = Some c'"
      using assms(1) False unfolding TreeInit_def Let_def assms(2,3) n_def [symmetric] c0_def [symmetric] x_def
      by (auto split: if_splits)
    then obtain y where y: "tree_push rt roles ld (set_phase kPhaseUp x) = Some y" "Advance rt roles ld y = Some c'"
      by (auto simp: bind_eq_Some_conv)
    from Advance_ok [OF y x] show ?thesis by simp
  qed (simp add: tree_ok_def)
qed

lemma task_roles_params:
  assumes "params c' = params c" shows "task_roles cr (tc_task c') = task_roles cr (tc_task c)"
  by (simp add: task_roles_def params_fields [OF assms])

definition p2p_ok :: "'e tcfg \<Rightarrow> bool" where
  "p2p_ok c \<longleftrightarrow> st_phase (tc_state c) = 1 \<or> (if pt_func (tc_task c) = Send then st_send_done (tc_state c) \<noteq> [] \<and> \<not> st_send_done (tc_state c) ! 0
     else st_recv_done (tc_state c) \<noteq> [] \<and> \<not> st_recv_done (tc_state c) ! 0)"

lemma P2p_Step_ok: "P2p_CollectiveStep rt ev c = Some c' \<Longrightarrow> p2p_ok c \<Longrightarrow> p2p_ok c'"
  by (auto simp: P2p_CollectiveStep_def P2p_CollectiveDone_def p2p_ok_def Let_def upd_state_def
      split: if_splits list.splits option.splits)

text \<open>What holds of a task's state whenever an executor looks at it.\<close>

definition machine_ok :: "topo_ctx \<Rightarrow> 'e tcfg \<Rightarrow> bool" where
  "machine_ok ctx c \<longleftrightarrow>
     (case pt_topology (tc_task c) of
        None \<Rightarrow> False
      | Some RingTopology \<Rightarrow> ring_settled c
      | Some TreeTopology \<Rightarrow> (case task_roles (tx_roles ctx) (tc_task c) of None \<Rightarrow> False | Some roles \<Rightarrow> tree_ok roles c)
      | Some P2pTopology \<Rightarrow> p2p_ok c)"

lemma CollectiveInit_ok:
  assumes "CollectiveInit rt ctx c = Some c'" and "task_sized ctx (tc_task c)"
  shows "machine_ok ctx c'"
proof -
  note par = CollectiveInit_params [OF assms(1)]
  obtain k where k: "pt_topology (tc_task c) = Some k" using assms(1) by (auto simp: CollectiveInit_def split: option.splits)
  show ?thesis
  proof (cases k)
    case RingTopology
    with assms(1) k params_fields(1) [OF par] show ?thesis by (auto simp: CollectiveInit_def machine_ok_def dest: Ring_settled)
  next
    case TreeTopology
    with assms(1) k obtain roles where "task_roles (tx_roles ctx) (tc_task c) = Some roles"
      "TreeInit rt roles (tx_leader ctx) c = Some c'"
      by (auto simp: CollectiveInit_def Tree_CollectiveInit_def split: if_splits option.splits)
    with assms(2) k TreeTopology params_fields(1) [OF par] task_roles_params [OF par] TreeInit_ok show ?thesis
      by (auto simp: machine_ok_def task_sized_def)
  next
    case P2pTopology
    let ?c = "upd_state (\<lambda>s. CollOpState_default\<lparr>st_send_progress := replicate (length (pt_send_transports (tc_task c))) 0,
        st_recv_progress := replicate (length (pt_recv_transports (tc_task c))) 0,
        st_send_done := replicate (length (pt_send_transports (tc_task c))) False,
        st_recv_done := replicate (length (pt_recv_transports (tc_task c))) False\<rparr>) c"
    have "p2p_ok ?c" using assms(2) k P2pTopology by (auto simp: p2p_ok_def task_sized_def upd_state_def split: if_splits)
    moreover have "c' = set_phase 1 ?c \<or> (\<exists>ev. P2p_CollectiveStep rt ev ?c = Some c')"
      using assms(1) k P2pTopology by (auto simp: CollectiveInit_def P2p_CollectiveInit_def Let_def split: if_splits)
    moreover have "p2p_ok (set_phase 1 ?c)" by (simp add: p2p_ok_def set_phase_def upd_state_def)
    ultimately have "p2p_ok c'" using P2p_Step_ok by blast
    with k P2pTopology params_fields(1) [OF par] show ?thesis by (simp add: machine_ok_def)
  qed
qed

lemma CollectiveStep_ok:
  assumes "CollectiveStep rt ctx ev c = Some c'" and "machine_ok ctx c"
  shows "machine_ok ctx c'"
proof -
  note par = CollectiveStep_params [OF assms(1)]
  obtain k where k: "pt_topology (tc_task c) = Some k" using assms(1) by (auto simp: CollectiveStep_def split: option.splits)
  show ?thesis
  proof (cases k)
    case RingTopology
    with assms(1) k params_fields(1) [OF par] show ?thesis by (auto simp: CollectiveStep_def machine_ok_def dest: Ring_settled)
  next
    case TreeTopology
    with assms k obtain roles where roles: "task_roles (tx_roles ctx) (tc_task c) = Some roles" "tree_ok roles c"
      by (auto simp: machine_ok_def split: option.splits)
    then have "st_phase (tc_state c) \<noteq> kPhaseUnstarted"
      by (auto simp: tree_ok_def kPhaseUp_def kPhaseDown_def phase_defs)
    with assms(1) k TreeTopology roles have "c' = c \<or> (\<exists>y. tree_push rt roles (tx_leader ctx) c = Some y \<and>
        Advance rt roles (tx_leader ctx) y = Some c' \<and> st_phase (tc_state c) \<noteq> kPhaseDone)"
      by (auto simp: CollectiveStep_def Tree_CollectiveStep_def bind_eq_Some_conv split: if_splits)
    moreover have "tree_sized roles c" "st_phase (tc_state c) \<in> {kPhaseUp, kPhaseDown}" if "st_phase (tc_state c) \<noteq> kPhaseDone"
      using roles(2) that by (simp_all add: tree_ok_def)
    ultimately have "tree_ok roles c'" using roles(2) Advance_ok by blast
    with k TreeTopology roles(1) params_fields(1) [OF par] task_roles_params [OF par] show ?thesis by (simp add: machine_ok_def)
  next
    case P2pTopology
    with assms k params_fields(1) [OF par] show ?thesis
      by (auto simp: CollectiveStep_def machine_ok_def intro: P2p_Step_ok)
  qed
qed

lemma SideDone_first: "d \<noteq> [] \<Longrightarrow> \<not> d ! 0 \<Longrightarrow> SideDone d = False"
  by (cases d) (simp_all add: SideDone_def)

lemma machine_ok_waits: "machine_ok ctx c \<Longrightarrow> CollectiveDone (tc_task c) \<or> awaits_io c"
  by (auto simp: machine_ok_def CollectiveDone_def Ring_CollectiveDone_def Tree_CollectiveDone_def P2p_CollectiveDone_def
      tree_ok_def p2p_ok_def awaits_io_def SideDone_first split: option.splits TopologyKind.splits if_splits)

text \<open>
  C36. No executor can be left with nothing to do: whenever a task has been initialised and stepped in any way, it is
  done or one of its sides has a flag that is not set, so the loop \<open>while (!CollectiveDone(task))\<close> steps it again.
\<close>

theorem executor_never_idle:
  assumes "driven rt ctx c0 c" and "task_sized ctx (tc_task c0)"
  shows "CollectiveDone (tc_task c) \<or> awaits_io c"
proof -
  have "machine_ok ctx c"
    using assms by (induction rule: driven.induct) (auto intro: CollectiveInit_ok CollectiveStep_ok)
  then show ?thesis by (rule machine_ok_waits)
qed

end
