(* ===== verification/Occl_Executor_Correct.thy ===== *)
theory Occl_Executor_Correct
  imports Occl_Executor Occl_Tcp_Correct
begin

section \<open>A task that is executed ends\<close>

text \<open>
  On a transport that does not put a caller off forever the loop of \<open>ExecuteTask\<close> ends for a point-to-point task,
  with exactly the message transferred. The locale is the contract, the TCP transport an instance.
\<close>

text \<open>The loop ends when each iteration keeps an invariant and fails, finishes the task or decreases a measure.\<close>

lemma execute_loop_returns:
  fixes f g :: "'e tcfg \<Rightarrow> nat"
  assumes "P c"
    and iter: "\<And>c. P c \<Longrightarrow> \<not> CollectiveDone (tc_task c) \<Longrightarrow> execute_iter rt ctx c = None \<or>
      (\<exists>c'. execute_iter rt ctx c = Some c' \<and> P c' \<and>
        (CollectiveDone (tc_task c') \<or> f c' < f c \<or> f c' = f c \<and> g c' < g c))"
  shows "\<exists>r. execute_loop rt ctx c = Some r \<and> (\<forall>c'. r = Some c' \<longrightarrow> P c' \<and> CollectiveDone (tc_task c'))"
  using assms(1)
proof (induction "(f c, g c)" arbitrary: c rule: wf_induct_rule [OF wf_lex_prod [OF wf_less_than wf_less_than]])
  case (1 c)
  show ?case
  proof (cases "CollectiveDone (tc_task c)")
    case False
    consider (stuck) "execute_iter rt ctx c = None"
      | (fin) c' where "execute_iter rt ctx c = Some c'" "P c'" "CollectiveDone (tc_task c')"
      | (again) c' where "execute_iter rt ctx c = Some c'" "P c'" "((f c', g c'), f c, g c) \<in> less_than <*lex*> less_than"
      using iter [OF "1.prems" False] by (elim disjE exE conjE) simp_all
    then show ?thesis
    proof cases
      case stuck
      with False have "execute_loop rt ctx c = Some None" by (subst execute_loop.simps) simp
      then show ?thesis by simp
    next
      case (fin c')
      with False have "execute_loop rt ctx c = execute_loop rt ctx c'" by (subst execute_loop.simps) simp
      also have "\<dots> = Some (Some c')" using fin by (subst execute_loop.simps) simp
      finally show ?thesis using fin by simp
    next
      case (again c')
      with False have eq: "execute_loop rt ctx c = execute_loop rt ctx c'" by (subst execute_loop.simps) simp
      from "1.hyps" [OF again(3,2)] show ?thesis unfolding eq by simp
    qed
  next
    case True
    then have "execute_loop rt ctx c = Some (Some c)" by (subst execute_loop.simps) simp
    with True "1.prems" show ?thesis by simp
  qed
qed

locale responsive_transport = transport rt trace for rt :: "'e runtime" and trace :: "'e \<Rightarrow> io list" +
  fixes waits :: "'e \<Rightarrow> nat"
  assumes send_progress: "rt_try_send rt t data p e = Some (p', False, e') \<Longrightarrow> p \<le> length data \<Longrightarrow> p < p' \<or> waits e' < waits e"
    and recv_progress: "rt_try_recv rt t n p e = Some (bs, False, e') \<Longrightarrow> p \<le> n \<Longrightarrow> bs \<noteq> [] \<or> waits e' < waits e"
begin

text \<open>A sending task: the bytes of the message sent so far are those before its progress.\<close>

definition sending :: "'e tcfg \<Rightarrow> transport_ref \<Rightarrow> byte list \<Rightarrow> byte list \<Rightarrow> heap \<Rightarrow> 'e tcfg \<Rightarrow> bool" where
  "sending c0 tid old data h c \<longleftrightarrow> params c = params c0 \<and> tc_heap c = h \<and> mem_load c (pt_send_buf (tc_task c)) (length data) = data \<and>
     (\<exists>p ps d ds. st_send_progress (tc_state c) = p # ps \<and> st_send_done (tc_state c) = d # ds \<and> p \<le> length data \<and>
        sent_bytes tid (trace (tc_net c)) = old @ take p data \<and>
        (st_phase (tc_state c) = 1 \<and> p = length data \<or> st_phase (tc_state c) = 0 \<and> \<not> d))"

lemma sending_step:
  assumes "sending c0 tid old data h c" and "pt_func (tc_task c) = Send" and "pt_send_transports (tc_task c) = tid # trs"
    and "length data = pt_elem_count (tc_task c) * GetDataTypeSize (pt_dtype (tc_task c))" and "st_phase (tc_state c) \<noteq> 1"
    and "pt_send_buf (tc_task c) = Mem a" and "P2p_CollectiveStep rt Writable c = Some c'"
  shows "sending c0 tid old data h c' \<and> (st_phase (tc_state c') = 1 \<or>
     length data - st_send_progress (tc_state c') ! 0 < length data - st_send_progress (tc_state c) ! 0 \<or>
     length data - st_send_progress (tc_state c') ! 0 = length data - st_send_progress (tc_state c) ! 0 \<and> waits (tc_net c') < waits (tc_net c))"
proof -
  from assms(1,5) obtain p ps ds where st: "st_send_progress (tc_state c) = p # ps" "st_send_done (tc_state c) = False # ds"
    "p \<le> length data" "sent_bytes tid (trace (tc_net c)) = old @ take p data" and load: "heap_load h a (length data) = data"
    and h: "tc_heap c = h" and par: "params c = params c0"
    using assms(6) by (auto simp: sending_def)
  from assms(2-7) st load h obtain p' fin e where call: "rt_try_send rt tid data p (tc_net c) = Some (p', fin, e)"
    and c': "c' = upd_state (\<lambda>s. s\<lparr>st_send_progress := (st_send_progress s)[0 := p'], st_send_done := (st_send_done s)[0 := fin],
        st_phase := (if fin then 1 else 0)\<rparr>) (c\<lparr>tc_net := e\<rparr>)"
    by (auto simp: P2p_CollectiveStep_def P2p_CollectiveDone_def Let_def split: option.splits)
  note law = send_law [OF call st(3)]
  have "take p data @ take (p' - p) (drop p data) = take p' data"
    using law take_add [of p "p' - p" data] by simp
  with law st have sent: "sent_bytes tid (trace e) = old @ take p' data" by simp
  have "sending c0 tid old data h c'"
    using law st load h sent assms(6) par by (auto simp: sending_def c' upd_state_def params_def)
  moreover have "p < p' \<or> waits e < waits (tc_net c)" if "\<not> fin" using send_progress [of tid data p "tc_net c" p' e] call st(3) that by simp
  ultimately show ?thesis using law st(1) by (auto simp: c' upd_state_def)
qed

text \<open>A receiving task: memory holds the bytes received so far.\<close>

definition receiving :: "'e tcfg \<Rightarrow> transport_ref \<Rightarrow> byte list \<Rightarrow> nat \<Rightarrow> nat \<Rightarrow> heap \<Rightarrow> 'e tcfg \<Rightarrow> bool" where
  "receiving c0 tid old n a h c \<longleftrightarrow> params c = params c0 \<and>
     (\<exists>got ps d ds. tc_heap c = heap_store a got h \<and> st_recv_progress (tc_state c) = length got # ps \<and>
        st_recv_done (tc_state c) = d # ds \<and> length got \<le> n \<and> rcvd_bytes tid (trace (tc_net c)) = old @ got \<and>
        (st_phase (tc_state c) = 1 \<and> length got = n \<or> st_phase (tc_state c) = 0 \<and> \<not> d))"

lemma receiving_step:
  assumes "receiving c0 tid old n a h c" and "pt_func (tc_task c) \<noteq> Send" and "pt_recv_transports (tc_task c) = tid # trs"
    and "n = pt_elem_count (tc_task c) * GetDataTypeSize (pt_dtype (tc_task c))" and "st_phase (tc_state c) \<noteq> 1"
    and "pt_recv_buf (tc_task c) = Mem a" and "P2p_CollectiveStep rt Readable c = Some c'"
  shows "receiving c0 tid old n a h c' \<and> (st_phase (tc_state c') = 1 \<or>
     n - st_recv_progress (tc_state c') ! 0 < n - st_recv_progress (tc_state c) ! 0 \<or>
     n - st_recv_progress (tc_state c') ! 0 = n - st_recv_progress (tc_state c) ! 0 \<and> waits (tc_net c') < waits (tc_net c))"
proof -
  from assms(1,5) obtain got ps ds where st: "tc_heap c = heap_store a got h" "st_recv_progress (tc_state c) = length got # ps"
    "st_recv_done (tc_state c) = False # ds" "length got \<le> n" "rcvd_bytes tid (trace (tc_net c)) = old @ got" and par: "params c = params c0"
    by (auto simp: receiving_def)
  from assms(2-7) st obtain bs fin e where call: "rt_try_recv rt tid n (length got) (tc_net c) = Some (bs, fin, e)"
    and c': "c' = upd_state (\<lambda>s. s\<lparr>st_recv_progress := (st_recv_progress s)[0 := length got + length bs], st_recv_done := (st_recv_done s)[0 := fin],
        st_phase := (if fin then 1 else 0)\<rparr>) (mem_store (Mem (a + length got)) bs (c\<lparr>tc_net := e\<rparr>))"
    by (auto simp: P2p_CollectiveStep_def P2p_CollectiveDone_def Let_def split: option.splits)
  note law = recv_law [OF call st(4)] recv_recorded [OF call]
  have "receiving c0 tid old n a h c'"
    unfolding receiving_def
    using law st par heap_store_append [of a got bs h]
    by (intro conjI exI [of _ "got @ bs"]) (auto simp: c' upd_state_def params_def)
  moreover have "0 < length bs \<or> waits e < waits (tc_net c)" if "\<not> fin" using recv_progress [of tid n "length got" "tc_net c" bs e] call st(4) that by simp
  ultimately show ?thesis using law st(2) by (cases "length bs") (auto simp: c' upd_state_def)
qed

text \<open>The state that Init leaves before its first step.\<close>

definition p2p_start :: "'e tcfg \<Rightarrow> 'e tcfg" where
  "p2p_start c = upd_state (\<lambda>s. CollOpState_default\<lparr>st_send_progress := replicate (length (pt_send_transports (tc_task c))) 0,
     st_recv_progress := replicate (length (pt_recv_transports (tc_task c))) 0,
     st_send_done := replicate (length (pt_send_transports (tc_task c))) False,
     st_recv_done := replicate (length (pt_recv_transports (tc_task c))) False\<rparr>) c"

lemma p2p_start_params [simp]: "params (p2p_start c) = params c"
  by (simp add: p2p_start_def)

lemma P2p_Init_unfold: "P2p_CollectiveInit rt c =
    (if pt_elem_count (tc_task c) = 0 then Some (set_phase 1 (p2p_start c))
     else P2p_CollectiveStep rt (if pt_func (tc_task c) = Send then Writable else Readable) (p2p_start c))"
  by (simp add: P2p_CollectiveInit_def p2p_start_def Let_def upd_state_def)

lemma P2p_Step_other:
  "(ev = Writable) \<noteq> (pt_func (tc_task c) = Send) \<Longrightarrow> P2p_CollectiveStep rt ev c = Some c"
  by (simp add: P2p_CollectiveStep_def Let_def)

lemma P2p_Step_done: "st_phase (tc_state c) = 1 \<Longrightarrow> P2p_CollectiveStep rt ev c = Some c"
  by (simp add: P2p_CollectiveStep_def P2p_CollectiveDone_def Let_def)

text \<open>Both directions: an invariant \<open>P\<close> of the task's own step under which the own side has an unset flag until it is done.\<close>

definition own_done :: "'e tcfg \<Rightarrow> bool list" where
  "own_done c = (if pt_func (tc_task c) = Send then st_send_done (tc_state c) else st_recv_done (tc_state c))"

lemma execute_p2p:
  fixes f :: "'e tcfg \<Rightarrow> nat"
  assumes top: "pt_topology (tc_task c0) = Some P2pTopology"
    and ev: "ev = (if pt_func (tc_task c0) = Send then Writable else Readable)"
    and par: "\<And>c. P c \<Longrightarrow> params c = params c0"
    and flag: "\<And>c. P c \<Longrightarrow> st_phase (tc_state c) \<noteq> 1 \<Longrightarrow> \<not> SideDone (own_done c)"
    and start: "P (p2p_start c0)"
    and step: "\<And>c c'. P c \<Longrightarrow> st_phase (tc_state c) \<noteq> 1 \<Longrightarrow> P2p_CollectiveStep rt ev c = Some c' \<Longrightarrow>
      P c' \<and> (st_phase (tc_state c') = 1 \<or> f c' < f c \<or> f c' = f c \<and> waits (tc_net c') < waits (tc_net c))"
  shows "\<exists>r. ExecuteTask rt ctx c0 = Some r \<and> (\<forall>c'. r = Some c' \<longrightarrow> CollectiveDone (tc_task c') \<and> st_phase (tc_state c') = 1 \<and>
    (P c' \<or> pt_elem_count (tc_task c0) = 0 \<and> c' = set_phase 1 (p2p_start c0)))"
proof -
  note field = params_fields [OF par]
  have fin: "CollectiveDone (tc_task c) \<longleftrightarrow> st_phase (tc_state c) = 1" if "params c = params c0" for c :: "'e tcfg"
    using params_fields(1) [OF that] top by (simp add: CollectiveDone_def P2p_CollectiveDone_def)
  have virtual: "CollectiveStep rt ctx ev' c = P2p_CollectiveStep rt ev' c" if "P c" for ev' c
    using field(1) [OF that] top by (simp add: CollectiveStep_def)
  have other: "P2p_CollectiveStep rt ev' c = Some c" if "P c" "ev' \<noteq> ev" for ev' c
    using field(3) [OF that(1)] that(2) ev by (intro P2p_Step_other) (cases ev'; auto split: if_splits)
  have iter: "execute_iter rt ctx c = None \<or> (\<exists>c'. execute_iter rt ctx c = Some c' \<and> P c' \<and>
      (CollectiveDone (tc_task c') \<or> f c' < f c \<or> f c' = f c \<and> waits (tc_net c') < waits (tc_net c)))"
    if c: "P c" "\<not> CollectiveDone (tc_task c)" for c
  proof -
    have ph: "st_phase (tc_state c) \<noteq> 1" using c fin [OF par] by simp
    from flag [OF c(1) ph] have "execute_iter rt ctx c = P2p_CollectiveStep rt ev c"
      using field(3) [OF c(1)] ev virtual other c(1) step [OF c(1) ph]
      by (auto simp: execute_iter_def own_done_def split: option.splits)
    with step [OF c(1) ph] fin [OF par] show ?thesis by (cases "P2p_CollectiveStep rt ev c") auto
  qed
  show ?thesis
  proof (cases "CollectiveInit rt ctx c0")
    case (Some c1)
    show ?thesis
    proof (cases "pt_elem_count (tc_task c0) = 0")
      case True
      with Some top have "c1 = set_phase 1 (p2p_start c0)" by (simp add: CollectiveInit_def P2p_Init_unfold)
      moreover have "CollectiveDone (tc_task (set_phase 1 (p2p_start c0)))" by (subst fin) simp_all
      ultimately show ?thesis using Some True top by (simp add: ExecuteTask_def)
    next
      case False
      with Some top ev have first: "P2p_CollectiveStep rt ev (p2p_start c0) = Some c1"
        by (simp add: CollectiveInit_def P2p_Init_unfold)
      have "st_phase (tc_state (p2p_start c0)) \<noteq> 1" by (simp add: p2p_start_def upd_state_def CollOpState_default_def)
      from step [OF start this first] have P1: "P c1" by simp
      have "\<exists>r. execute_loop rt ctx c1 = Some r \<and> (\<forall>c'. r = Some c' \<longrightarrow> P c' \<and> CollectiveDone (tc_task c'))"
        by (rule execute_loop_returns [where P = P and f = f and g = "\<lambda>c. waits (tc_net c)", OF P1]) (rule iter)
      then show ?thesis using Some top P1 fin [OF par] by (auto simp: ExecuteTask_def)
    qed
  qed (use top in \<open>simp add: ExecuteTask_def\<close>)
qed

lemma params_more:
  assumes "params c' = params c"
  shows "pt_send_buf (tc_task c') = pt_send_buf (tc_task c)" "pt_recv_buf (tc_task c') = pt_recv_buf (tc_task c)"
    "pt_elem_count (tc_task c') = pt_elem_count (tc_task c)" "pt_dtype (tc_task c') = pt_dtype (tc_task c)"
  using arg_cong [OF assms [unfolded params_def], of pt_send_buf] arg_cong [OF assms [unfolded params_def], of pt_recv_buf]
    arg_cong [OF assms [unfolded params_def], of pt_elem_count] arg_cong [OF assms [unfolded params_def], of pt_dtype]
  by simp_all

lemma execute_send:
  assumes task: "pt_topology (tc_task c0) = Some P2pTopology" "pt_func (tc_task c0) = Send"
      "pt_send_transports (tc_task c0) = tid # trs" "pt_send_buf (tc_task c0) = Mem a"
    and n: "n = pt_elem_count (tc_task c0) * GetDataTypeSize (pt_dtype (tc_task c0))"
  shows "\<exists>r. ExecuteTask rt ctx c0 = Some r \<and> (\<forall>c'. r = Some c' \<longrightarrow> CollectiveDone (tc_task c') \<and> tc_heap c' = tc_heap c0 \<and>
    sent_bytes tid (tr c') = sent_bytes tid (tr c0) @ heap_load (tc_heap c0) a n)"
proof -
  let ?data = "heap_load (tc_heap c0) a n"
  let ?P = "sending c0 tid (sent_bytes tid (tr c0)) ?data (tc_heap c0)"
  have par: "params c = params c0" if "?P c" for c using that by (simp add: sending_def)
  have "\<exists>r. ExecuteTask rt ctx c0 = Some r \<and> (\<forall>c'. r = Some c' \<longrightarrow> CollectiveDone (tc_task c') \<and> st_phase (tc_state c') = 1 \<and>
    (?P c' \<or> pt_elem_count (tc_task c0) = 0 \<and> c' = set_phase 1 (p2p_start c0)))"
  proof (rule execute_p2p [where f = "\<lambda>c. n - st_send_progress (tc_state c) ! 0" and ev = Writable])
    show "\<not> SideDone (own_done c)" if "?P c" "st_phase (tc_state c) \<noteq> 1" for c
      using that params_fields(3) [OF par [OF that(1)]] task(2) by (auto simp: own_done_def sending_def SideDone_first)
    show "?P (p2p_start c0)"
      using task by (simp add: sending_def) (auto simp: p2p_start_def upd_state_def CollOpState_default_def)
    show "?P c' \<and> (st_phase (tc_state c') = 1 \<or> n - st_send_progress (tc_state c') ! 0 < n - st_send_progress (tc_state c) ! 0 \<or>
        n - st_send_progress (tc_state c') ! 0 = n - st_send_progress (tc_state c) ! 0 \<and> waits (tc_net c') < waits (tc_net c))"
      if "?P c" "st_phase (tc_state c) \<noteq> 1" "P2p_CollectiveStep rt Writable c = Some c'" for c c'
      using sending_step [OF that(1) _ _ _ that(2) _ that(3), of trs a] params_fields(3,4) [OF par [OF that(1)]]
        params_more [OF par [OF that(1)]] task n by simp
  qed (use task par in auto)
  then show ?thesis using n
    by (auto simp: sending_def) (auto simp: p2p_start_def set_phase_def upd_state_def)
qed

lemma execute_recv:
  assumes task: "pt_topology (tc_task c0) = Some P2pTopology" "pt_func (tc_task c0) \<noteq> Send"
      "pt_recv_transports (tc_task c0) = tid # trs" "pt_recv_buf (tc_task c0) = Mem a"
    and n: "n = pt_elem_count (tc_task c0) * GetDataTypeSize (pt_dtype (tc_task c0))"
  shows "\<exists>r. ExecuteTask rt ctx c0 = Some r \<and> (\<forall>c'. r = Some c' \<longrightarrow> CollectiveDone (tc_task c') \<and>
    (\<exists>bs. length bs = n \<and> tc_heap c' = heap_store a bs (tc_heap c0) \<and> rcvd_bytes tid (tr c') = rcvd_bytes tid (tr c0) @ bs))"
proof -
  let ?P = "receiving c0 tid (rcvd_bytes tid (tr c0)) n a (tc_heap c0)"
  have par: "params c = params c0" if "?P c" for c using that by (simp add: receiving_def)
  have "\<exists>r. ExecuteTask rt ctx c0 = Some r \<and> (\<forall>c'. r = Some c' \<longrightarrow> CollectiveDone (tc_task c') \<and> st_phase (tc_state c') = 1 \<and>
    (?P c' \<or> pt_elem_count (tc_task c0) = 0 \<and> c' = set_phase 1 (p2p_start c0)))"
  proof (rule execute_p2p [where f = "\<lambda>c. n - st_recv_progress (tc_state c) ! 0" and ev = Readable])
    show "\<not> SideDone (own_done c)" if "?P c" "st_phase (tc_state c) \<noteq> 1" for c
      using that params_fields(3) [OF par [OF that(1)]] task(2) by (auto simp: own_done_def receiving_def SideDone_first)
    show "?P (p2p_start c0)"
      using task by (simp add: receiving_def) (auto simp: p2p_start_def upd_state_def CollOpState_default_def)
    show "?P c' \<and> (st_phase (tc_state c') = 1 \<or> n - st_recv_progress (tc_state c') ! 0 < n - st_recv_progress (tc_state c) ! 0 \<or>
        n - st_recv_progress (tc_state c') ! 0 = n - st_recv_progress (tc_state c) ! 0 \<and> waits (tc_net c') < waits (tc_net c))"
      if "?P c" "st_phase (tc_state c) \<noteq> 1" "P2p_CollectiveStep rt Readable c = Some c'" for c c'
      using receiving_step [OF that(1) _ _ _ that(2) _ that(3), of trs] params_fields(3,5) [OF par [OF that(1)]]
        params_more [OF par [OF that(1)]] task n by simp
  qed (use task par in auto)
  then show ?thesis using n
    by (auto simp: receiving_def) (auto simp: p2p_start_def set_phase_def upd_state_def)
qed

end

subsection \<open>TCP does not put a caller off forever\<close>

context responsive_kernel
begin

lemma send_loop_progress:
  assumes "tcp_send_loop os fd data p e = Some (p', e')" and "p \<le> length data" and "p' < length data"
  shows "p < p' \<or> waits e' < waits e"
proof (cases "p < length data")
  case True
  obtain r e1 where step: "to_send os fd (drop p data) e = (r, e1)" by fastforce
  show ?thesis
  proof (cases r)
    case (Transferred n)
    with step True assms(1) have n: "0 < n" and rest: "tcp_send_loop os fd data (p + n) e1 = Some (p', e')"
      by (auto simp: tcp_send_loop.simps [of os fd data p] split: if_splits)
    have "p + n \<le> length data" using send_some [OF step [unfolded Transferred]] True by auto
    with send_loop_moves [OF rest] n show ?thesis by simp
  qed (use step True assms(1) send_waits in \<open>auto simp: tcp_send_loop.simps [of os fd data p]\<close>)
qed (use assms in \<open>simp add: tcp_send_loop.simps\<close>)

lemma recv_loop_progress:
  assumes "tcp_recv_loop os fd k [] e = Some (got, e')" and "length got < k"
  shows "got \<noteq> [] \<or> waits e' < waits e"
proof (cases "0 < k")
  case True
  obtain r e1 where step: "to_recv os fd k e = (r, e1)" by fastforce
  show ?thesis
  proof (cases r)
    case (Transferred bs)
    with step True assms(1) have n: "bs \<noteq> []" and rest: "tcp_recv_loop os fd k bs e1 = Some (got, e')"
      by (auto simp: tcp_recv_loop.simps [of os fd k "[]"] split: if_splits)
    with recv_loop_moves [OF rest] recv_some [OF step [unfolded Transferred]] show ?thesis by auto
  qed (use step True assms(1) recv_waits in \<open>auto simp: tcp_recv_loop.simps [of os fd k "[]"]\<close>)
qed (use assms in simp)

end

lemma tcp_responsive:
  assumes "responsive_kernel os tx rx writable readable waits"
  shows "responsive_transport (tcp_runtime os socks fp) tv_trace (\<lambda>e. waits (tv_kernel e))"
proof (intro responsive_transport.intro responsive_transport_axioms.intro)
  show "transport (tcp_runtime os socks fp) tv_trace"
    by (rule tcp_transport [OF responsive_kernel.axioms(1) [OF assms]])
  show "p < p' \<or> waits (tv_kernel e') < waits (tv_kernel e)"
    if "rt_try_send (tcp_runtime os socks fp) t data p e = Some (p', False, e')" "p \<le> length data" for t data p p' e e'
    using that responsive_kernel.send_loop_progress [OF assms, of "tt_sockfd (socks t)" data p "tv_kernel e" p']
      stream_kernel.send_loop_moves [OF responsive_kernel.axioms(1) [OF assms], of "tt_sockfd (socks t)" data p "tv_kernel e" p']
    by (fastforce simp: tcp_runtime_def tcp_try_send_def Tcp_TrySend_def split: option.splits if_splits prod.splits)
  show "bs \<noteq> [] \<or> waits (tv_kernel e') < waits (tv_kernel e)"
    if "rt_try_recv (tcp_runtime os socks fp) t n p e = Some (bs, False, e')" "p \<le> n" for t n p bs e e'
    using that responsive_kernel.recv_loop_progress [OF assms, of "tt_sockfd (socks t)" "n - p" "tv_kernel e" bs]
      stream_kernel.recv_loop_moves [OF responsive_kernel.axioms(1) [OF assms], of "tt_sockfd (socks t)" "n - p" "[]" "tv_kernel e" bs]
    by (fastforce simp: tcp_runtime_def tcp_try_recv_def Tcp_TryRecv_def split: option.splits if_splits prod.splits)
qed

interpretation tcp: responsive_transport "tcp_runtime kern_tcp socks fp" tv_trace "\<lambda>e. length (kn_sched (tv_kernel e))" for socks fp
  by (rule tcp_responsive) (rule kern.responsive_kernel_axioms)


definition demo_ctx :: topo_ctx where
  "demo_ctx = \<lparr>tx_roles = [], tx_leader = False\<rparr>"

definition demo_send :: "kern tcp_env tcfg" where
  "demo_send = \<lparr>tc_task = PlanTask_default\<lparr>pt_func := Send, pt_send_buf := Mem 8, pt_elem_count := 1, pt_dtype := INT32,
       pt_world_size := 2, pt_topology := Some P2pTopology, pt_send_transports := [1]\<rparr>,
     tc_heap = (\<lambda>a. word_of_nat a), tc_net = \<lparr>tv_kernel = kern_start [] 0 [Some 1, Some 0, None, Some 3], tv_trace = []\<rparr>\<rparr>"


definition demo_ring :: "script_env tcfg" where
  "demo_ring = (demo_start 0)\<lparr>tc_task := (tc_task (demo_start 0))\<lparr>pt_topology := Some RingTopology\<rparr>\<rparr>"

lemma executor_never_idle_witness:
  "\<exists>c. CollectiveInit script_rt demo_ctx demo_ring = Some c \<and> \<not> CollectiveDone (tc_task c) \<and> awaits_io c"
proof -
  have "map_option (\<lambda>c. CollectiveDone (tc_task c)) (CollectiveInit script_rt demo_ctx demo_ring) = Some False" by code_simp
  then obtain c where c: "CollectiveInit script_rt demo_ctx demo_ring = Some c" "\<not> CollectiveDone (tc_task c)" by auto
  have "task_sized demo_ctx (tc_task demo_ring)" by (simp add: task_sized_def demo_ring_def)
  with executor_never_idle [OF driven_init [OF c(1)]] c show ?thesis by blast
qed

end
