(* ===== verification/Occl_Pool.thy ===== *)
theory Occl_Pool
  imports Occl_Executor
begin

section \<open>The worker pools of the multi-threaded executors\<close>

text \<open>
  \<open>src/executor/multi_thread_executor.cpp\<close> and \<open>dynamic_multi_thread_executor.cpp\<close> hand a plan to their workers by
  the same protocol: \<open>Run\<close> publishes a batch under the mutex and waits until every worker has reported, a worker
  sleeps until the batch counter differs from the batch it finished last. Each constructor of the step relation is
  one critical section or one step of a worker between two critical sections, so every interleaving of the threads
  is a sequence of steps. What a worker does with the plan is a parameter: a start state, a step relation on the
  local and the shared state, and the result of a final state.
\<close>

datatype 'l worker_pc = Parked | Busy "64 word" 'l | Left

record 'l worker =
  wk_seen :: "64 word"
  wk_pc :: "'l worker_pc"

datatype main_pc = Outside | InRun | Joining

record ('p, 'l, 's) pool =
  mp_stop :: bool
  mp_batch :: "64 word"
  mp_active :: nat
  mp_completed :: nat
  mp_success :: bool
  mp_plan :: "'p option"
  mp_shared :: 's
  mp_workers :: "'l worker list"
  mp_main :: main_pc

definition pool_new :: "'s \<Rightarrow> ('p, 'l, 's) pool" where
  "pool_new s = \<lparr>mp_stop = False, mp_batch = 0, mp_active = 0, mp_completed = 0, mp_success = True, mp_plan = None,
     mp_shared = s, mp_workers = [], mp_main = Outside\<rparr>"

record ('p, 'l, 's) pool_code =
  pc_width :: "'p \<Rightarrow> nat"
  pc_empty :: "'p \<Rightarrow> bool"
  pc_reset :: "'p \<Rightarrow> 's \<Rightarrow> 's"
  pc_start :: "nat \<Rightarrow> 'p \<Rightarrow> 'l"
  pc_body :: "nat \<Rightarrow> 'l \<times> 's \<Rightarrow> 'l \<times> 's \<Rightarrow> bool"
  pc_result :: "'l \<Rightarrow> bool option"

subsection \<open>The critical sections\<close>

definition EnsureWorkers :: "nat \<Rightarrow> ('p, 'l, 's) pool \<Rightarrow> ('p, 'l, 's) pool" where
  "EnsureWorkers n st = st\<lparr>mp_workers := mp_workers st @
     replicate (n - length (mp_workers st)) \<lparr>wk_seen = mp_batch st, wk_pc = Parked\<rparr>\<rparr>"

definition Run_post :: "('p \<Rightarrow> 's \<Rightarrow> 's) \<Rightarrow> 'p \<Rightarrow> ('p, 'l, 's) pool \<Rightarrow> ('p, 'l, 's) pool" where
  "Run_post reset p st = st\<lparr>mp_plan := Some p, mp_shared := reset p (mp_shared st), mp_active := length (mp_workers st),
     mp_completed := 0, mp_success := True, mp_batch := mp_batch st + 1, mp_main := InRun\<rparr>"

definition worker_take :: "(nat \<Rightarrow> 'p \<Rightarrow> 'l) \<Rightarrow> nat \<Rightarrow> ('p, 'l, 's) pool \<Rightarrow> ('p, 'l, 's) pool" where
  "worker_take start i st = st\<lparr>mp_workers :=
     (mp_workers st)[i := (mp_workers st ! i)\<lparr>wk_pc := Busy (mp_batch st) (start i (the (mp_plan st)))\<rparr>]\<rparr>"

definition worker_report :: "nat \<Rightarrow> 64 word \<Rightarrow> bool \<Rightarrow> ('p, 'l, 's) pool \<Rightarrow> ('p, 'l, 's) pool" where
  "worker_report i b ok st = st\<lparr>mp_success := mp_success st \<and> ok, mp_completed := mp_completed st + 1,
     mp_workers := (mp_workers st)[i := (mp_workers st ! i)\<lparr>wk_seen := b, wk_pc := Parked\<rparr>]\<rparr>"

definition StopWorkers_end :: "('p, 'l, 's) pool \<Rightarrow> ('p, 'l, 's) pool" where
  "StopWorkers_end st = st\<lparr>mp_workers := [], mp_stop := False, mp_main := Outside\<rparr>"

datatype 'p pool_event = Called 'p | Ran nat bool | Returned bool | Internal

inductive pool_step :: "('p, 'l, 's) pool_code \<Rightarrow> ('p, 'l, 's) pool \<Rightarrow> 'p pool_event \<Rightarrow> ('p, 'l, 's) pool \<Rightarrow> bool" for cd where
  step_call: "mp_main st = Outside \<Longrightarrow> \<not> pc_empty cd p \<Longrightarrow>
    pool_step cd st (Called p) (Run_post (pc_reset cd) p (EnsureWorkers (pc_width cd p) st))"
| step_call_empty: "mp_main st = Outside \<Longrightarrow> pc_empty cd p \<Longrightarrow>
    pool_step cd st Internal (EnsureWorkers (pc_width cd p) st)"
| step_take: "i < length (mp_workers st) \<Longrightarrow> wk_pc (mp_workers st ! i) = Parked \<Longrightarrow> \<not> mp_stop st \<Longrightarrow>
    mp_batch st \<noteq> wk_seen (mp_workers st ! i) \<Longrightarrow> pool_step cd st Internal (worker_take (pc_start cd) i st)"
| step_leave: "i < length (mp_workers st) \<Longrightarrow> wk_pc (mp_workers st ! i) = Parked \<Longrightarrow> mp_stop st \<Longrightarrow>
    pool_step cd st Internal (st\<lparr>mp_workers := (mp_workers st)[i := (mp_workers st ! i)\<lparr>wk_pc := Left\<rparr>]\<rparr>)"
| step_body: "i < length (mp_workers st) \<Longrightarrow> wk_pc (mp_workers st ! i) = Busy b l \<Longrightarrow> pc_result cd l = None \<Longrightarrow>
    pc_body cd i (l, mp_shared st) (l', s') \<Longrightarrow>
    pool_step cd st Internal (st\<lparr>mp_shared := s', mp_workers := (mp_workers st)[i := (mp_workers st ! i)\<lparr>wk_pc := Busy b l'\<rparr>]\<rparr>)"
| step_report: "i < length (mp_workers st) \<Longrightarrow> wk_pc (mp_workers st ! i) = Busy b l \<Longrightarrow> pc_result cd l = Some ok \<Longrightarrow>
    pool_step cd st (Ran i ok) (worker_report i b ok st)"
| step_return: "mp_main st = InRun \<Longrightarrow> mp_completed st = mp_active st \<Longrightarrow>
    pool_step cd st (Returned (mp_success st)) (st\<lparr>mp_main := Outside\<rparr>)"
| step_stop: "mp_main st = Outside \<Longrightarrow> pool_step cd st Internal (st\<lparr>mp_stop := True, mp_main := Joining\<rparr>)"
| step_joined: "mp_main st = Joining \<Longrightarrow> list_all (\<lambda>w. wk_pc w = Left) (mp_workers st) \<Longrightarrow>
    pool_step cd st Internal (StopWorkers_end st)"

inductive_cases step_returnE: "pool_step cd st (Returned ok) st'"

text \<open>Executions from a new executor, with the newest event first.\<close>

inductive pool_run :: "('p, 'l, 's) pool_code \<Rightarrow> 's \<Rightarrow> 'p pool_event list \<Rightarrow> ('p, 'l, 's) pool \<Rightarrow> bool" for cd s0 where
  run_new: "pool_run cd s0 [] (pool_new s0)"
| run_step: "pool_run cd s0 tr st \<Longrightarrow> pool_step cd st ev st' \<Longrightarrow> pool_run cd s0 (ev # tr) st'"

text \<open>The reports since the last call.\<close>

fun batch_log :: "'p pool_event list \<Rightarrow> (nat \<times> bool) list" where
  "batch_log [] = []"
| "batch_log (Called p # tr) = []"
| "batch_log (Ran i ok # tr) = (i, ok) # batch_log tr"
| "batch_log (Returned ok # tr) = []"
| "batch_log (Internal # tr) = batch_log tr"

subsection \<open>The invariant\<close>

definition reported :: "('p, 'l, 's) pool \<Rightarrow> nat \<Rightarrow> bool" where
  "reported st i \<longleftrightarrow> wk_seen (mp_workers st ! i) = mp_batch st \<and> wk_pc (mp_workers st ! i) = Parked"

definition pending :: "('p, 'l, 's) pool \<Rightarrow> nat \<Rightarrow> bool" where
  "pending st i \<longleftrightarrow> wk_seen (mp_workers st ! i) + 1 = mp_batch st \<and>
     (wk_pc (mp_workers st ! i) = Parked \<or> (\<exists>l. wk_pc (mp_workers st ! i) = Busy (mp_batch st) l))"

definition batch_inv :: "(nat \<times> bool) list \<Rightarrow> ('p, 'l, 's) pool \<Rightarrow> bool" where
  "batch_inv log st \<longleftrightarrow> \<not> mp_stop st \<and> mp_plan st \<noteq> None \<and> mp_active st = length (mp_workers st) \<and>
     mp_completed st = length log \<and> mp_success st = list_all snd log \<and> distinct (map fst log) \<and>
     (\<forall>i < length (mp_workers st). reported st i \<or> pending st i) \<and>
     set (map fst log) = {i. i < length (mp_workers st) \<and> reported st i}"

definition pool_inv :: "(nat \<times> bool) list \<Rightarrow> ('p, 'l, 's) pool \<Rightarrow> bool" where
  "pool_inv log st \<longleftrightarrow>
     (case mp_main st of
        Outside \<Rightarrow> \<not> mp_stop st \<and> (\<forall>i < length (mp_workers st). reported st i)
      | InRun \<Rightarrow> batch_inv log st
      | Joining \<Rightarrow> mp_stop st \<and> (\<forall>i < length (mp_workers st). reported st i \<or> wk_pc (mp_workers st ! i) = Left))"

lemma pool_inv_new [simp]: "pool_inv log (pool_new s)"
  by (simp add: pool_inv_def pool_new_def)

lemma not_both: "reported st i \<Longrightarrow> \<not> pending st i"
  by (auto simp: reported_def pending_def)

lemma EnsureWorkers_fields [simp]:
  "mp_batch (EnsureWorkers n st) = mp_batch st" "mp_stop (EnsureWorkers n st) = mp_stop st" "mp_main (EnsureWorkers n st) = mp_main st"
  by (simp_all add: EnsureWorkers_def)

lemma nth_EnsureWorkers:
  "i < length (mp_workers (EnsureWorkers n st)) \<Longrightarrow> mp_workers (EnsureWorkers n st) ! i =
     (if i < length (mp_workers st) then mp_workers st ! i else \<lparr>wk_seen = mp_batch st, wk_pc = Parked\<rparr>)"
  by (auto simp: EnsureWorkers_def nth_append)

lemma Run_post_inv:
  assumes "mp_main st = Outside" and "pool_inv log st"
  shows "pool_inv [] (Run_post reset p (EnsureWorkers n st))"
proof -
  let ?st = "EnsureWorkers n st"
  have "wk_seen (mp_workers ?st ! i) = mp_batch st \<and> wk_pc (mp_workers ?st ! i) = Parked"
    if "i < length (mp_workers ?st)" for i
    using that assms nth_EnsureWorkers [OF that] by (auto simp: pool_inv_def reported_def)
  with assms show ?thesis
    by (auto simp: pool_inv_def batch_inv_def Run_post_def reported_def pending_def)
qed

text \<open>A step of one worker leaves the others as they are.\<close>

lemma upd_worker_other:
  assumes "i \<noteq> j" and "mp_workers st' = (mp_workers st)[i := w]" and "mp_batch st' = mp_batch st"
  shows "reported st' j = reported st j" and "pending st' j = pending st j"
  using assms by (simp_all add: reported_def pending_def)

lemma busy_inv:
  assumes inv: "pool_inv log st" and i: "i < length (mp_workers st)" and busy: "wk_pc (mp_workers st ! i) = Busy b l"
  shows "mp_main st = InRun" "batch_inv log st" "b = mp_batch st" "pending st i"
proof -
  have no: "\<not> reported st i" "wk_pc (mp_workers st ! i) \<noteq> Left" using busy by (simp_all add: reported_def)
  show main: "mp_main st = InRun" using inv i no by (auto simp: pool_inv_def split: main_pc.splits)
  then show batch: "batch_inv log st" using inv by (simp add: pool_inv_def)
  then show "pending st i" using i no by (auto simp: batch_inv_def)
  then show "b = mp_batch st" using busy by (auto simp: pending_def)
qed

lemma wake_inv:
  assumes inv: "pool_inv log st" and i: "i < length (mp_workers st)"
    and parked: "wk_pc (mp_workers st ! i) = Parked" "\<not> mp_stop st" "mp_batch st \<noteq> wk_seen (mp_workers st ! i)"
  shows "mp_main st = InRun" "batch_inv log st" "pending st i"
proof -
  have no: "\<not> reported st i" using parked by (simp add: reported_def)
  show main: "mp_main st = InRun" using inv i no parked by (auto simp: pool_inv_def split: main_pc.splits)
  then show batch: "batch_inv log st" using inv by (simp add: pool_inv_def)
  then show "pending st i" using i no by (auto simp: batch_inv_def)
qed

lemma pending_update_inv:
  assumes "batch_inv log st" and "mp_main st = InRun" and "pending st i" and "i < length (mp_workers st)"
    and "st' = st\<lparr>mp_shared := s', mp_workers := (mp_workers st)[i := (mp_workers st ! i)\<lparr>wk_pc := Busy (mp_batch st) l'\<rparr>]\<rparr>"
  shows "pool_inv log st'"
proof -
  have "pending st' i" using assms(3-5) by (simp add: pending_def)
  moreover have "reported st' j = reported st j" "pending st' j = pending st j" if "j \<noteq> i" for j
    using that assms(5) upd_worker_other [of i j st' st] by simp_all
  moreover have "\<not> reported st i" using assms(3) not_both by blast
  ultimately have "reported st' j = reported st j" "pending st' j = pending st j" for j
    using assms(3) not_both [of st' i] by (metis, metis)
  then show ?thesis using assms by (simp add: pool_inv_def batch_inv_def)
qed

lemma report_inv:
  assumes "batch_inv log st" and "mp_main st = InRun" and "pending st i" and "i < length (mp_workers st)"
  shows "pool_inv ((i, ok) # log) (worker_report i (mp_batch st) ok st)"
proof -
  let ?st = "worker_report i (mp_batch st) ok st"
  have other: "reported ?st j = reported st j" "pending ?st j = pending st j" if "j \<noteq> i" for j
    using that upd_worker_other [of i j ?st st] by (simp_all add: worker_report_def)
  have "reported ?st i" using assms(4) by (simp add: worker_report_def reported_def)
  moreover have new: "\<not> reported st i" using assms(3) not_both by blast
  ultimately have "reported ?st j \<longleftrightarrow> j = i \<or> reported st j" for j
    using other(1) by (cases "j = i") auto
  then have "{j. j < length (mp_workers st) \<and> reported ?st j} = insert i {j. j < length (mp_workers st) \<and> reported st j}"
    using assms(4) by auto
  moreover have "reported ?st j \<or> pending ?st j" if "j < length (mp_workers st)" for j
    using that assms(1) other \<open>reported ?st i\<close> by (cases "j = i") (auto simp: batch_inv_def)
  ultimately show ?thesis using assms new
    by (auto simp: pool_inv_def batch_inv_def worker_report_def)
qed

lemma pool_step_inv:
  assumes "pool_step cd st ev st'" and "pool_inv (batch_log tr) st"
  shows "pool_inv (batch_log (ev # tr)) st'"
  using assms
proof (induction rule: pool_step.induct)
  case (step_call st p)
  then show ?case using Run_post_inv by fastforce
next
  case (step_call_empty st p)
  let ?st = "EnsureWorkers (pc_width cd p) st"
  have "reported ?st i" if "i < length (mp_workers ?st)" for i
    using that step_call_empty nth_EnsureWorkers [OF that] by (auto simp: pool_inv_def reported_def)
  with step_call_empty show ?case by (simp add: pool_inv_def)
next
  case (step_take i st)
  note w = wake_inv [OF step_take(5,1-4)]
  have "worker_take (pc_start cd) i st = st\<lparr>mp_shared := mp_shared st, mp_workers :=
      (mp_workers st)[i := (mp_workers st ! i)\<lparr>wk_pc := Busy (mp_batch st) (pc_start cd i (the (mp_plan st)))\<rparr>]\<rparr>"
    by (cases st) (simp add: worker_take_def)
  from pending_update_inv [OF w(2,1,3) step_take(1) this] show ?case by simp
next
  case (step_leave i st)
  then have "mp_main st = Joining" by (auto simp: pool_inv_def batch_inv_def split: main_pc.splits)
  with step_leave show ?case by (auto simp: pool_inv_def nth_list_update reported_def)
next
  case (step_body i st b l l' s')
  note b = busy_inv [OF step_body(5,1,2)]
  from pending_update_inv [OF b(2,1,4) step_body(1) refl] b(3) show ?case by simp
next
  case (step_report i st b l ok)
  note b = busy_inv [OF step_report(4,1,2)]
  from report_inv [OF b(2,1,4) step_report(1)] b(3) show ?case by simp
next
  case (step_return st)
  then have inv: "batch_inv (batch_log tr) st" by (simp add: pool_inv_def)
  then have sub: "set (map fst (batch_log tr)) \<subseteq> {..<length (mp_workers st)}" by (auto simp: batch_inv_def)
  have "card (set (map fst (batch_log tr))) = length (map fst (batch_log tr))"
    using inv by (intro distinct_card) (simp add: batch_inv_def)
  also have "\<dots> = length (mp_workers st)" using inv step_return(2) by (auto simp: batch_inv_def)
  finally have "card (set (map fst (batch_log tr))) = length (mp_workers st)" .
  with sub have "set (map fst (batch_log tr)) = {..<length (mp_workers st)}" by (intro card_subset_eq) simp_all
  with inv show ?case by (auto simp: pool_inv_def batch_inv_def reported_def)
next
  case (step_stop st)
  then show ?case by (auto simp: pool_inv_def reported_def)
next
  case (step_joined st)
  then show ?case by (simp add: pool_inv_def StopWorkers_end_def)
qed

lemma pool_run_inv: "pool_run cd s0 tr st \<Longrightarrow> pool_inv (batch_log tr) st"
  by (induction rule: pool_run.induct) (auto intro: pool_step_inv)

subsection \<open>No lost wake-up\<close>

text \<open>A worker's body that comes to a result, whatever the shared state.\<close>

inductive body_ends :: "('p, 'l, 's) pool_code \<Rightarrow> nat \<Rightarrow> 'l \<Rightarrow> 's \<Rightarrow> bool" for cd i where
  ends_now: "pc_result cd l = Some ok \<Longrightarrow> body_ends cd i l s"
| ends_later: "pc_result cd l = None \<Longrightarrow> pc_body cd i (l, s) (l', s') \<Longrightarrow> body_ends cd i l' s' \<Longrightarrow> body_ends cd i l s"

text \<open>Everything but worker \<open>i\<close> and the counters is as before.\<close>

definition others_same :: "nat \<Rightarrow> ('p, 'l, 's) pool \<Rightarrow> ('p, 'l, 's) pool \<Rightarrow> bool" where
  "others_same i st st' \<longleftrightarrow> mp_main st' = mp_main st \<and> mp_batch st' = mp_batch st \<and> mp_plan st' = mp_plan st \<and>
     length (mp_workers st') = length (mp_workers st) \<and> (\<forall>j. j \<noteq> i \<longrightarrow> mp_workers st' ! j = mp_workers st ! j)"

lemma others_same_trans: "others_same i a b \<Longrightarrow> others_same i b c \<Longrightarrow> others_same i a c"
  by (simp add: others_same_def)

lemma others_same_steps [simp]:
  "others_same i st (worker_report i b ok st)" "others_same i st (worker_take start i st)" "others_same i st st"
  "others_same i st (st\<lparr>mp_shared := s', mp_workers := (mp_workers st)[i := w]\<rparr>)"
  by (simp_all add: others_same_def worker_report_def worker_take_def)

lemma others_same_reported: "others_same i st st' \<Longrightarrow> j \<noteq> i \<Longrightarrow> reported st' j = reported st j"
  by (simp add: others_same_def reported_def)

lemma finish_worker:
  assumes "body_ends cd i l (mp_shared st)" and "pool_run cd s0 tr st"
    and "i < length (mp_workers st)" and "wk_pc (mp_workers st ! i) = Busy (mp_batch st) l"
  shows "\<exists>tr' st'. pool_run cd s0 (tr' @ tr) st' \<and> others_same i st st' \<and> reported st' i"
  using assms
proof (induction l "mp_shared st" arbitrary: st tr rule: body_ends.induct)
  case (ends_now l ok)
  have "pool_run cd s0 ([Ran i ok] @ tr) (worker_report i (mp_batch st) ok st)"
    using run_step [OF ends_now(2) step_report [OF ends_now(3,4,1)]] by simp
  moreover have "reported (worker_report i (mp_batch st) ok st) i" using ends_now(3) by (simp add: reported_def worker_report_def)
  ultimately show ?case using others_same_steps(1) by blast
next
  case (ends_later l l' s')
  let ?st = "st\<lparr>mp_shared := s', mp_workers := (mp_workers st)[i := (mp_workers st ! i)\<lparr>wk_pc := Busy (mp_batch st) l'\<rparr>]\<rparr>"
  have run: "pool_run cd s0 (Internal # tr) ?st"
    by (rule run_step [OF ends_later(5) step_body [OF ends_later(6,7,1,2)]])
  from ends_later(4) [OF _ run] ends_later(6) obtain tr' st' where
    "pool_run cd s0 (tr' @ Internal # tr) st'" "others_same i ?st st'" "reported st' i" by auto
  then show ?case using others_same_trans [OF others_same_steps(4)]
    by (intro exI [of _ "tr' @ [Internal]"] exI [of _ st']) auto
qed

text \<open>The bodies that are running or will be started in this batch come to a result.\<close>

definition batch_ends :: "('p, 'l, 's) pool_code \<Rightarrow> ('p, 'l, 's) pool \<Rightarrow> bool" where
  "batch_ends cd st \<longleftrightarrow> (\<forall>i < length (mp_workers st).
     (\<forall>s. body_ends cd i (pc_start cd i (the (mp_plan st))) s) \<and>
     (\<forall>b l s. wk_pc (mp_workers st ! i) = Busy b l \<longrightarrow> body_ends cd i l s))"

lemma pool_returns:
  "pool_run cd s0 tr st \<Longrightarrow> mp_main st = InRun \<Longrightarrow> batch_ends cd st \<Longrightarrow>
     \<exists>tr' ok st'. pool_run cd s0 (Returned ok # tr' @ tr) st'"
proof (induction "card {i. i < length (mp_workers st) \<and> \<not> reported st i}" arbitrary: st tr rule: less_induct)
  case less
  let ?open = "\<lambda>st. {i. i < length (mp_workers st) \<and> \<not> reported st i}"
  have inv: "batch_inv (batch_log tr) st" using pool_run_inv [OF less.prems(1)] less.prems(2) by (simp add: pool_inv_def)
  show ?case
  proof (cases "?open st = {}")
    case True
    then have "set (map fst (batch_log tr)) = {..<length (mp_workers st)}" using inv by (auto simp: batch_inv_def)
    moreover have "card (set (map fst (batch_log tr))) = length (map fst (batch_log tr))"
      using inv by (intro distinct_card) (simp add: batch_inv_def)
    ultimately have "mp_completed st = mp_active st" using inv by (simp add: batch_inv_def)
    from run_step [OF less.prems(1) step_return [OF less.prems(2) this]] show ?thesis by (metis append_Nil)
  next
    case False
    then obtain i where i: "i < length (mp_workers st)" "\<not> reported st i" by auto
    with inv have pend: "pending st i" by (auto simp: batch_inv_def)
    have "\<exists>tr1 st1 l. pool_run cd s0 (tr1 @ tr) st1 \<and> others_same i st st1 \<and>
        wk_pc (mp_workers st1 ! i) = Busy (mp_batch st1) l \<and> (\<forall>s. body_ends cd i l s)"
    proof (cases "wk_pc (mp_workers st ! i) = Parked")
      case True
      have "mp_batch st \<noteq> wk_seen (mp_workers st ! i)" using i(2) True by (auto simp: reported_def)
      then have "pool_run cd s0 ([Internal] @ tr) (worker_take (pc_start cd) i st)"
        using run_step [OF less.prems(1) step_take [OF i(1) True]] inv by (simp add: batch_inv_def)
      moreover have "wk_pc (mp_workers (worker_take (pc_start cd) i st) ! i) =
          Busy (mp_batch (worker_take (pc_start cd) i st)) (pc_start cd i (the (mp_plan st)))"
        using i(1) by (simp add: worker_take_def)
      moreover have "\<forall>s. body_ends cd i (pc_start cd i (the (mp_plan st))) s"
        using less.prems(3) i(1) by (simp add: batch_ends_def)
      ultimately show ?thesis using others_same_steps(2) by blast
    next
      case False
      with pend obtain l where "wk_pc (mp_workers st ! i) = Busy (mp_batch st) l" by (auto simp: pending_def)
      with less.prems i(1) show ?thesis by (intro exI [of _ "[]"] exI [of _ st] exI [of _ l]) (auto simp: batch_ends_def)
    qed
    then obtain tr1 st1 l where st1: "pool_run cd s0 (tr1 @ tr) st1" "others_same i st st1"
      "wk_pc (mp_workers st1 ! i) = Busy (mp_batch st1) l" "\<And>s. body_ends cd i l s" by blast
    have "i < length (mp_workers st1)" using i(1) st1(2) by (simp add: others_same_def)
    from finish_worker [OF st1(4,1) this st1(3)] obtain tr2 st2 where
      st2: "pool_run cd s0 (tr2 @ tr1 @ tr) st2" "others_same i st1 st2" "reported st2 i" by blast
    note same = others_same_trans [OF st1(2) st2(2)]
    have "x \<noteq> i \<and> \<not> reported st x" if "\<not> reported st2 x" for x
      using that st2(3) others_same_reported [OF same, of x] by (cases "x = i") auto
    with same have "?open st2 \<subseteq> ?open st - {i}" by (auto simp: others_same_def)
    with i have "card (?open st2) < card (?open st)" by (intro psubset_card_mono) auto
    moreover have "mp_main st2 = InRun" using same less.prems(2) by (simp add: others_same_def)
    moreover have "batch_ends cd st2"
      unfolding batch_ends_def
    proof (intro allI impI conjI)
      fix j b k s assume j: "j < length (mp_workers st2)" "wk_pc (mp_workers st2 ! j) = Busy b k"
      with st2(3) have "j \<noteq> i" by (auto simp: reported_def)
      with j same less.prems(3) show "body_ends cd j k s" by (simp add: others_same_def batch_ends_def)
    qed (use same less.prems(3) in \<open>simp add: others_same_def batch_ends_def\<close>)
    ultimately obtain tr' ok st' where "pool_run cd s0 (Returned ok # tr' @ tr2 @ tr1 @ tr) st'"
      using less.hyps [OF _ st2(1)] by blast
    then show ?thesis by (metis append.assoc)
  qed
qed

subsection \<open>The multi-threaded executor\<close>

text \<open>
  A worker runs the tasks of the channel with its number, one after the other, on the memory and the transports
  that all workers share; a task counts as one step, because the channels of a plan use different transports and
  different parts of the buffers. A plan with fewer channels than workers leaves the others nothing to do.
\<close>

datatype mt_local = Tasks "PlanTask list" | TaskFailed

definition channel_tasks :: "nat \<Rightarrow> CollPlan \<Rightarrow> mt_local" where
  "channel_tasks i plan = Tasks (if i < length (pl_channels plan) then cp_tasks (pl_channels plan ! i) else [])"

inductive mt_body :: "'e runtime \<Rightarrow> topo_ctx \<Rightarrow> mt_local \<times> heap \<times> 'e \<Rightarrow> mt_local \<times> heap \<times> 'e \<Rightarrow> bool" for rt ctx where
  mt_task: "ExecuteTask rt ctx \<lparr>tc_task = t, tc_heap = h, tc_net = e\<rparr> = Some (Some c) \<Longrightarrow>
    mt_body rt ctx (Tasks (t # ts), h, e) (Tasks ts, tc_heap c, tc_net c)"
| mt_fail: "ExecuteTask rt ctx \<lparr>tc_task = t, tc_heap = h, tc_net = e\<rparr> = Some None \<Longrightarrow>
    mt_body rt ctx (Tasks (t # ts), h, e) (TaskFailed, h', e')"

fun mt_result :: "mt_local \<Rightarrow> bool option" where
  "mt_result (Tasks []) = Some True"
| "mt_result (Tasks (t # ts)) = None"
| "mt_result TaskFailed = Some False"

definition MultiThreadExecutor :: "'e runtime \<Rightarrow> topo_ctx \<Rightarrow> (CollPlan, mt_local, heap \<times> 'e) pool_code" where
  "MultiThreadExecutor rt ctx = \<lparr>pc_width = (\<lambda>plan. length (pl_channels plan)), pc_empty = (\<lambda>plan. pl_channels plan = []),
     pc_reset = (\<lambda>plan s. s), pc_start = channel_tasks, pc_body = (\<lambda>i. mt_body rt ctx), pc_result = mt_result\<rparr>"

end
