(* ===== verification/Occl_Pool_Correct.thy ===== *)
theory Occl_Pool_Correct
  imports Occl_Pool Occl_Executor_Correct
begin

section \<open>The worker pools: theorems\<close>

text \<open>
  What \<open>Run\<close> of the multi-threaded executors promises its caller, for every interleaving of the calling thread and
  the workers and over any history of batches and shutdowns.
\<close>

text \<open>
  C27. When \<open>Run\<close> returns, every worker has processed this very batch exactly once, the result is the conjunction of
  their results, and no worker still holds the plan: all are back at the wait for the next batch.
\<close>

theorem pool_Run_complete:
  assumes "pool_run cd s0 tr st" and "pool_step cd st (Returned ok) st'"
  shows "mset (map fst (batch_log tr)) = mset [0..<length (mp_workers st')] \<and> ok = list_all snd (batch_log tr) \<and>
    (\<forall>w \<in> set (mp_workers st'). wk_pc w = Parked \<and> wk_seen w = mp_batch st')"
proof -
  from assms(2) have main: "mp_main st = InRun" and ok: "ok = mp_success st" and st': "st' = st\<lparr>mp_main := Outside\<rparr>"
    by (auto elim: step_returnE)
  have inv: "batch_inv (batch_log tr) st" using pool_run_inv [OF assms(1)] main by (simp add: pool_inv_def)
  have "pool_inv (batch_log (Returned ok # tr)) st'" by (rule pool_step_inv [OF assms(2) pool_run_inv [OF assms(1)]])
  then have all: "reported st' i" if "i < length (mp_workers st')" for i using that st' by (simp add: pool_inv_def)
  then have "set (map fst (batch_log tr)) = set [0..<length (mp_workers st')]"
    using inv st' by (auto simp: batch_inv_def reported_def)
  moreover have "distinct (map fst (batch_log tr))" using inv by (simp add: batch_inv_def)
  ultimately have "mset (map fst (batch_log tr)) = mset [0..<length (mp_workers st')]"
    by (metis distinct_upt set_eq_iff_mset_eq_distinct)
  moreover have "\<forall>w \<in> set (mp_workers st'). wk_pc w = Parked \<and> wk_seen w = mp_batch st'"
    using all by (auto simp: in_set_conv_nth reported_def)
  ultimately show ?thesis using inv ok by (simp add: batch_inv_def)
qed


subsection \<open>One worker, one empty channel\<close>

abbreviation demo_pool :: "(CollPlan, mt_local, heap \<times> script_env) pool_code" where
  "demo_pool \<equiv> MultiThreadExecutor script_rt demo_ctx"

definition demo_shared :: "heap \<times> script_env" where
  "demo_shared = (\<lambda>_. 0, \<lparr>se_incoming = [], se_limits = [], se_trace = []\<rparr>)"

lemma demo_pool_called:
  "pool_run demo_pool demo_shared [Called (CollPlan_new 1)]
     (Run_post (\<lambda>_ s. s) (CollPlan_new 1) (EnsureWorkers 1 (pool_new demo_shared)))"
proof -
  have "\<not> pc_empty demo_pool (CollPlan_new 1)" by (simp add: MultiThreadExecutor_def CollPlan_new_def)
  from run_step [OF run_new step_call [OF _ this]] show ?thesis
    by (simp add: MultiThreadExecutor_def CollPlan_new_def pool_new_def)
qed


lemma pool_Run_complete_witness:
  "\<exists>tr st st'. pool_run demo_pool demo_shared tr st \<and> pool_step demo_pool st (Returned True) st' \<and>
     mset (map fst (batch_log tr)) = {#0#}"
proof -
  let ?s1 = "Run_post (\<lambda>_ s. s) (CollPlan_new 1) (EnsureWorkers 1 (pool_new demo_shared)) :: (CollPlan, mt_local, heap \<times> script_env) pool"
  let ?s2 = "worker_take channel_tasks 0 ?s1" and ?s3 = "worker_report 0 1 True (worker_take channel_tasks 0 ?s1)"
  note eval = Run_post_def EnsureWorkers_def pool_new_def worker_take_def worker_report_def MultiThreadExecutor_def
    channel_tasks_def CollPlan_new_def
  have "pool_step demo_pool ?s1 Internal ?s2"
    using step_take [of 0 ?s1 demo_pool] by (simp add: eval)
  with demo_pool_called have r2: "pool_run demo_pool demo_shared [Internal, Called (CollPlan_new 1)] ?s2" by (rule run_step)
  have "pool_step demo_pool ?s2 (Ran 0 True) ?s3"
    by (rule step_report [of _ _ _ "channel_tasks 0 (CollPlan_new 1)"]) (simp_all add: eval)
  with r2 have r3: "pool_run demo_pool demo_shared [Ran 0 True, Internal, Called (CollPlan_new 1)] ?s3" by (rule run_step)
  have "pool_step demo_pool ?s3 (Returned (mp_success ?s3)) (?s3\<lparr>mp_main := Outside\<rparr>)"
    by (rule step_return) (simp_all add: eval)
  then have ret: "pool_step demo_pool ?s3 (Returned True) (?s3\<lparr>mp_main := Outside\<rparr>)" by (simp add: eval)
  from pool_Run_complete [OF r3 ret] r3 ret show ?thesis
    by (intro exI [of _ "[Ran 0 True, Internal, Called (CollPlan_new 1)]"] exI [of _ ?s3] exI [of _ "?s3\<lparr>mp_main := Outside\<rparr>"]) simp
qed

end
