(* ===== verification/Occl_Dynamic.thy ===== *)
theory Occl_Dynamic
  imports Occl_Pool Occl_Planner
begin

section \<open>The dynamic executor\<close>

text \<open>
  \<open>src/executor/dynamic_multi_thread_executor.cpp\<close>: the worker of each channel of rank 0 claims the next slices of
  the plan under the mutex and announces them to the workers of the same channel on the other ranks by a small
  Broadcast on the channel's ring. \<open>ProcessChannel\<close> is the worker of one rank as it runs; \<open>dyn_body\<close> is the
  worker of rank 0 in steps, as the body of the pool of \<open>Occl_Pool\<close>.
\<close>

definition kControlMagic :: "64 word" where "kControlMagic = 0x4F43434C434D4431"
definition kControlTypeBatch :: "32 word" where "kControlTypeBatch = 1"
definition kControlTypeEnd :: "32 word" where "kControlTypeEnd = 2"
definition kDefaultBatchSize :: nat where "kDefaultBatchSize = 2"

record ControlMessage =
  cm_magic :: "64 word"
  cm_type :: "32 word"
  cm_count :: "32 word"
  cm_start :: "64 word"

text \<open>The structure as it lies in memory (24 bytes, no padding), little endian.\<close>

definition message_bytes :: "ControlMessage \<Rightarrow> byte list" where
  "message_bytes m = le64 (cm_magic m) @ le32 (cm_type m) @ le32 (cm_count m) @ le64 (cm_start m)"

definition message_at :: "heap \<Rightarrow> nat \<Rightarrow> ControlMessage" where
  "message_at h a = \<lparr>cm_magic = un_le64 (heap_load h a 8), cm_type = un_le32 (heap_load h (a + 8) 4),
     cm_count = un_le32 (heap_load h (a + 12) 4), cm_start = un_le64 (heap_load h (a + 16) 8)\<rparr>"

text \<open>\<open>OCCL_DYNAMIC_BATCH\<close> as parsed by \<open>strtol\<close>; unset or empty is \<^term>\<open>None\<close>.\<close>

definition BatchSize :: "int option \<Rightarrow> nat" where
  "BatchSize env = (case env of Some n \<Rightarrow> if 0 < n \<and> n \<le> 1024 then nat n else kDefaultBatchSize | None \<Rightarrow> kDefaultBatchSize)"

lemma BatchSize_range: "0 < BatchSize env \<and> BatchSize env \<le> 1024"
  by (auto simp: BatchSize_def kDefaultBatchSize_def split: option.splits)

subsection \<open>One claim\<close>

text \<open>The critical section: the first slice, their number and the new \<open>next_slice_\<close>.\<close>

definition claim_slices :: "nat \<Rightarrow> nat \<Rightarrow> nat \<Rightarrow> nat \<times> nat \<times> nat" where
  "claim_slices n batch next_slice = (let k = min (n - next_slice) batch in (next_slice, k, next_slice + k))"

definition control_message :: "nat \<Rightarrow> nat \<Rightarrow> ControlMessage" where
  "control_message first k =
     (if k = 0 then \<lparr>cm_magic = kControlMagic, cm_type = kControlTypeEnd, cm_count = 0, cm_start = 0\<rparr>
      else \<lparr>cm_magic = kControlMagic, cm_type = kControlTypeBatch, cm_count = word_of_nat k, cm_start = word_of_nat first\<rparr>)"

text \<open>What the other ranks put into their message before the Broadcast overwrites it.\<close>

definition empty_message :: ControlMessage where
  "empty_message = \<lparr>cm_magic = kControlMagic, cm_type = 0, cm_count = 0, cm_start = 0\<rparr>"

definition control_task :: "Comm \<Rightarrow> int \<Rightarrow> nat \<Rightarrow> PlanTask" where
  "control_task comm channel_id a = PlanTask_default\<lparr>pt_func := Broadcast, pt_recv_buf := Mem a, pt_elem_count := 24 div 8,
     pt_dtype := INT64, pt_root := 0, pt_rank := cm_rank comm, pt_world_size := cm_world_size comm,
     pt_channel_id := channel_id, pt_topology := Some RingTopology\<rparr>"

subsection \<open>The worker of one rank\<close>

text \<open>\<open>ExecuteTask\<close> binds the task to the channel first; a channel that does not exist makes \<open>GetChannel\<close> throw.\<close>

definition DynExecuteTask :: "'e runtime \<Rightarrow> topo_ctx \<Rightarrow> Comm \<Rightarrow> int \<Rightarrow> 'e tcfg \<Rightarrow> 'e tcfg option option" where
  "DynExecuteTask rt ctx comm channel_id c =
     (case pt_topology (tc_task c) of
        None \<Rightarrow> Some None
      | Some k \<Rightarrow>
          (case GetChannel comm channel_id of
             None \<Rightarrow> Some None
           | Some ch \<Rightarrow>
               (case FillTransports k ch ((tc_task c)\<lparr>pt_channel_id := channel_id\<rparr>) of
                  None \<Rightarrow> Some None
                | Some t \<Rightarrow> ExecuteTask rt ctx (c\<lparr>tc_task := t\<rparr>))))"

fun exec_slices :: "'e runtime \<Rightarrow> topo_ctx \<Rightarrow> Comm \<Rightarrow> int \<Rightarrow> PlanTask list \<Rightarrow> nat list \<Rightarrow> heap \<times> 'e \<Rightarrow> (heap \<times> 'e) option option" where
  "exec_slices rt ctx comm channel_id slices [] w = Some (Some w)"
| "exec_slices rt ctx comm channel_id slices (k # ks) w =
     (if k \<ge> length slices then Some None
      else (case DynExecuteTask rt ctx comm channel_id \<lparr>tc_task = slices ! k, tc_heap = fst w, tc_net = snd w\<rparr> of
              None \<Rightarrow> None
            | Some None \<Rightarrow> Some None
            | Some (Some c) \<Rightarrow> exec_slices rt ctx comm channel_id slices ks (tc_heap c, tc_net c)))"

definition message_slices :: "ControlMessage \<Rightarrow> nat list" where
  "message_slices m = map (\<lambda>i. unat (cm_start m + word_of_nat i)) [0..<unat (cm_count m)]"

text \<open>
  The loop. The list tells how many claims other workers make before each claim of this one; the message lies at
  address \<open>a\<close>.
\<close>

record 'e dyn_cfg =
  dy_heap :: heap
  dy_net :: 'e
  dy_next :: nat
  dy_rivals :: "nat list"

definition rival_claims :: "nat \<Rightarrow> nat \<Rightarrow> 'e dyn_cfg \<Rightarrow> nat" where
  "rival_claims n batch c = ((\<lambda>next_slice. snd (snd (claim_slices n batch next_slice))) ^^ (case dy_rivals c of [] \<Rightarrow> 0 | k # _ \<Rightarrow> k)) (dy_next c)"

definition prepare_message :: "Comm \<Rightarrow> nat \<Rightarrow> nat \<Rightarrow> nat \<Rightarrow> 'e dyn_cfg \<Rightarrow> 'e dyn_cfg" where
  "prepare_message comm n batch a c =
     (if cm_rank comm = 0 then
        (case claim_slices n batch (rival_claims n batch c) of
           (first, k, next_slice) \<Rightarrow> c\<lparr>dy_heap := heap_store a (message_bytes (control_message first k)) (dy_heap c),
             dy_next := next_slice, dy_rivals := tl (dy_rivals c)\<rparr>)
      else c\<lparr>dy_heap := heap_store a (message_bytes empty_message) (dy_heap c)\<rparr>)"

partial_function (option) ProcessChannel ::
  "'e runtime \<Rightarrow> topo_ctx \<Rightarrow> Comm \<Rightarrow> nat \<Rightarrow> nat \<Rightarrow> int \<Rightarrow> CollPlan \<Rightarrow> 'e dyn_cfg \<Rightarrow> 'e dyn_cfg option option" where
  "ProcessChannel rt ctx comm batch a channel_id plan c =
     (let c1 = prepare_message comm (length (pl_slices plan)) batch a c in
      case DynExecuteTask rt ctx comm channel_id \<lparr>tc_task = control_task comm channel_id a, tc_heap = dy_heap c1, tc_net = dy_net c1\<rparr> of
        None \<Rightarrow> None
      | Some None \<Rightarrow> Some None
      | Some (Some t) \<Rightarrow>
          let m = message_at (tc_heap t) a in
          if cm_type m = kControlTypeEnd then Some (Some (c1\<lparr>dy_heap := tc_heap t, dy_net := tc_net t\<rparr>))
          else (case exec_slices rt ctx comm channel_id (pl_slices plan) (message_slices m) (tc_heap t, tc_net t) of
                  None \<Rightarrow> None
                | Some None \<Rightarrow> Some None
                | Some (Some w) \<Rightarrow> ProcessChannel rt ctx comm batch a channel_id plan (c1\<lparr>dy_heap := fst w, dy_net := snd w\<rparr>)))"

declare ProcessChannel.simps [code]

lemma message_roundtrip: "message_at (heap_store a (message_bytes m) h) a = m"
proof -
  have part: "heap_load (heap_store a (xs @ bs @ ys) h) (a + length xs) (length bs) = bs" for xs bs ys :: "byte list"
    by (rule nth_equalityI) (auto simp: heap_store_def nth_append)
  from part [of "[]" "le64 (cm_magic m)"] part [of "le64 (cm_magic m)" "le32 (cm_type m)"]
    part [of "le64 (cm_magic m) @ le32 (cm_type m)" "le32 (cm_count m)"]
    part [of "le64 (cm_magic m) @ le32 (cm_type m) @ le32 (cm_count m)" "le64 (cm_start m)" "[]"]
  show ?thesis by (simp add: message_at_def message_bytes_def)
qed

text \<open>\<open>SetChannelsPolling\<close> before the batch is published, and then the batch as the worker of one channel runs it.\<close>

definition SetChannelsPolling :: "(transport_ref \<Rightarrow> TransportWaitMode \<Rightarrow> 'e \<Rightarrow> 'e) \<Rightarrow> Comm \<Rightarrow> 'e \<Rightarrow> 'e" where
  "SetChannelsPolling set_mode comm e =
     fold (\<lambda>cn e. if cn_transport cn = 0 then e else set_mode (cn_transport cn) Polling e)
       (concat (map (\<lambda>ch. ch_send ch @ ch_recv ch) (cm_channels comm))) e"

definition Dynamic_Run ::
  "'e runtime \<Rightarrow> (transport_ref \<Rightarrow> TransportWaitMode \<Rightarrow> 'e \<Rightarrow> 'e) \<Rightarrow> topo_ctx \<Rightarrow> Comm \<Rightarrow> nat \<Rightarrow> nat \<Rightarrow> int \<Rightarrow> CollPlan \<Rightarrow> 'e dyn_cfg \<Rightarrow> 'e dyn_cfg option option" where
  "Dynamic_Run rt set_mode ctx comm batch a channel_id plan c =
     (if pl_slices plan = [] then Some (Some c)
      else ProcessChannel rt ctx comm batch a channel_id plan (c\<lparr>dy_net := SetChannelsPolling set_mode comm (dy_net c), dy_next := 0\<rparr>))"

subsection \<open>The workers of rank 0 in steps\<close>

text \<open>
  The shared state is \<open>next_slice_\<close> with two records of the batch: the messages sent and the slices executed, each
  with its channel. A claim is one step, the Broadcast that follows it may fail; executing a slice is one step and may fail.
\<close>

record dyn_shared =
  dn_next :: nat
  dn_sent :: "(nat \<times> ControlMessage) list"
  dn_done :: "(nat \<times> nat) list"

datatype dyn_local = Claiming nat | Executing nat "nat list" | Finished bool

fun dyn_result :: "dyn_local \<Rightarrow> bool option" where
  "dyn_result (Finished ok) = Some ok"
| "dyn_result l = None"

definition after_claim :: "nat \<Rightarrow> nat \<Rightarrow> nat \<Rightarrow> dyn_local" where
  "after_claim n first k = (if k = 0 then Finished True else Executing n [first..<first + k])"

inductive dyn_body :: "nat \<Rightarrow> nat \<Rightarrow> dyn_local \<times> dyn_shared \<Rightarrow> dyn_local \<times> dyn_shared \<Rightarrow> bool" for batch i where
  dyn_claim: "claim_slices n batch (dn_next s) = (first, k, next_slice) \<Longrightarrow>
    dyn_body batch i (Claiming n, s)
      (after_claim n first k, s\<lparr>dn_next := next_slice, dn_sent := dn_sent s @ [(i, control_message first k)]\<rparr>)"
| dyn_claim_failed: "claim_slices n batch (dn_next s) = (first, k, next_slice) \<Longrightarrow>
    dyn_body batch i (Claiming n, s) (Finished False, s\<lparr>dn_next := next_slice\<rparr>)"
| dyn_slice: "k < n \<Longrightarrow> dyn_body batch i (Executing n (k # ks), s) (Executing n ks, s\<lparr>dn_done := dn_done s @ [(i, k)]\<rparr>)"
| dyn_slice_failed: "dyn_body batch i (Executing n (k # ks), s) (Finished False, s)"
| dyn_again: "dyn_body batch i (Executing n [], s) (Claiming n, s)"

definition DynamicExecutor :: "nat \<Rightarrow> nat \<Rightarrow> (CollPlan, dyn_local, dyn_shared) pool_code" where
  "DynamicExecutor n_channels batch = \<lparr>pc_width = (\<lambda>plan. n_channels), pc_empty = (\<lambda>plan. pl_slices plan = []),
     pc_reset = (\<lambda>plan s. \<lparr>dn_next = 0, dn_sent = [], dn_done = []\<rparr>), pc_start = (\<lambda>i plan. Claiming (length (pl_slices plan))),
     pc_body = dyn_body batch, pc_result = dyn_result\<rparr>"

text \<open>What a worker of another rank executes when it receives these messages, in order.\<close>

fun follower_slices :: "ControlMessage list \<Rightarrow> nat list" where
  "follower_slices [] = []"
| "follower_slices (m # ms) = (if cm_type m = kControlTypeEnd then [] else message_slices m @ follower_slices ms)"

end
