(* ===== verification/Occl_Dynamic_Correct.thy ===== *)
theory Occl_Dynamic_Correct
  imports Occl_Dynamic Occl_Pool_Correct
begin

section \<open>The dynamic executor executes every slice once\<close>

text \<open>
  The invariant of a batch on rank 0: the messages sent so far announce exactly the slices \<open>0..<next_slice_\<close>, in
  order, and on each channel the announced slices are those executed followed by those its worker still holds.
\<close>

definition of_channel :: "nat \<Rightarrow> (nat \<times> 'a) list \<Rightarrow> 'a list" where
  "of_channel i xs = map snd (filter (\<lambda>x. fst x = i) xs)"

lemma of_channel_append [simp]: "of_channel i (xs @ [(j, x)]) = of_channel i xs @ (if j = i then [x] else [])"
  by (simp add: of_channel_def)

lemma of_channel_Nil [simp]: "of_channel i [] = []"
  by (simp add: of_channel_def)

lemma mset_of_channels:
  "\<forall>x \<in> set xs. fst x < m \<Longrightarrow> mset (concat (map (\<lambda>x. f (snd x)) xs)) = (\<Sum>i<m. mset (concat (map f (of_channel i xs))))"
proof (induction xs)
  case (Cons x xs)
  have "(\<Sum>i<m. mset (concat (map f (of_channel i (x # xs))))) =
      (\<Sum>i<m. (if i = fst x then mset (f (snd x)) else {#}) + mset (concat (map f (of_channel i xs))))"
    by (intro sum.cong) (auto simp: of_channel_def)
  also have "\<dots> = mset (f (snd x)) + (\<Sum>i<m. mset (concat (map f (of_channel i xs))))"
    using Cons.prems by (simp add: sum.distrib)
  finally show ?case using Cons by simp
qed simp

abbreviation slices_of :: "ControlMessage list \<Rightarrow> nat list" where
  "slices_of ms \<equiv> concat (map message_slices ms)"

definition open_msgs :: "ControlMessage list \<Rightarrow> bool" where
  "open_msgs ms \<longleftrightarrow> (\<forall>m \<in> set ms. cm_type m \<noteq> kControlTypeEnd)"

definition closed_msgs :: "ControlMessage list \<Rightarrow> bool" where
  "closed_msgs ms \<longleftrightarrow> (\<exists>xs m. ms = xs @ [m] \<and> open_msgs xs \<and> cm_type m = kControlTypeEnd \<and> message_slices m = [])"

lemma follower_open: "open_msgs ms \<Longrightarrow> follower_slices (ms @ ns) = slices_of ms @ follower_slices ns"
  by (induction ms) (auto simp: open_msgs_def)

lemma follower_closed: "closed_msgs ms \<Longrightarrow> follower_slices ms = slices_of ms"
  by (auto simp: closed_msgs_def follower_open)

lemma message_slices_control:
  assumes "k \<le> 1024" and "f + k \<le> SIZE_MAX"
  shows "message_slices (control_message f k) = [f..<f + k]"
proof -
  have "unat (word_of_nat k :: 32 word) = k" using assms(1) by (simp add: unat_of_nat take_bit_nat_eq_self)
  moreover have "unat (word_of_nat f + word_of_nat i :: 64 word) = f + i" if "i < k" for i
  proof -
    have "word_of_nat f + word_of_nat i = (word_of_nat (f + i) :: 64 word)" by simp
    moreover have "unat (word_of_nat (f + i) :: 64 word) = f + i"
      using assms(2) that by (simp only: unat_of_nat) (simp add: take_bit_nat_eq_self SIZE_MAX_def)
    ultimately show ?thesis by simp
  qed
  moreover have "[f..<f + k] = map ((+) f) [0..<k]" by (rule nth_equalityI) simp_all
  ultimately show ?thesis by (auto simp: message_slices_def control_message_def)
qed

lemma control_message_type: "cm_type (control_message f k) = kControlTypeEnd \<longleftrightarrow> k = 0"
  by (simp add: control_message_def kControlTypeEnd_def kControlTypeBatch_def)

subsection \<open>The invariant\<close>

definition chan_inv :: "nat \<Rightarrow> nat \<Rightarrow> (CollPlan, dyn_local, dyn_shared) pool \<Rightarrow> bool" where
  "chan_inv n i st \<longleftrightarrow>
     (let s = mp_shared st; ms = of_channel i (dn_sent s); ds = of_channel i (dn_done s);
          finished = (closed_msgs ms \<and> slices_of ms = ds \<and> dn_next s = n)
      in case wk_pc (mp_workers st ! i) of
           Busy b (Claiming m) \<Rightarrow> m = n \<and> open_msgs ms \<and> slices_of ms = ds
         | Busy b (Executing m ks) \<Rightarrow> m = n \<and> open_msgs ms \<and> slices_of ms = ds @ ks
         | Busy b (Finished ok) \<Rightarrow> finished
         | Parked \<Rightarrow> if wk_seen (mp_workers st ! i) = mp_batch st then finished else ms = [] \<and> ds = []
         | Left \<Rightarrow> True)"

definition dyn_failed :: "(nat \<times> bool) list \<Rightarrow> (CollPlan, dyn_local, dyn_shared) pool \<Rightarrow> bool" where
  "dyn_failed log st \<longleftrightarrow> \<not> list_all snd log \<or> (\<exists>i < length (mp_workers st). \<exists>b. wk_pc (mp_workers st ! i) = Busy b (Finished False))"

definition dyn_global :: "nat \<Rightarrow> (CollPlan, dyn_local, dyn_shared) pool \<Rightarrow> bool" where
  "dyn_global n st \<longleftrightarrow> (let s = mp_shared st; w = length (mp_workers st) in
     concat (map (\<lambda>x. message_slices (snd x)) (dn_sent s)) = [0..<dn_next s] \<and> dn_next s \<le> n \<and>
     (\<forall>x \<in> set (dn_sent s). fst x < w) \<and> (\<forall>x \<in> set (dn_done s). fst x < w))"

definition dyn_inv :: "(nat \<times> bool) list \<Rightarrow> (CollPlan, dyn_local, dyn_shared) pool \<Rightarrow> bool" where
  "dyn_inv log st \<longleftrightarrow> (\<forall>p. mp_main st = InRun \<longrightarrow> mp_plan st = Some p \<longrightarrow> length (pl_slices p) \<le> SIZE_MAX \<longrightarrow> \<not> dyn_failed log st \<longrightarrow>
     dyn_global (length (pl_slices p)) st \<and> (\<forall>i < length (mp_workers st). chan_inv (length (pl_slices p)) i st))"

lemma dyn_global_shared: "mp_shared st' = mp_shared st \<Longrightarrow> length (mp_workers st') = length (mp_workers st) \<Longrightarrow> dyn_global n st' = dyn_global n st"
  by (simp add: dyn_global_def)

lemma chan_inv_other:
  assumes "i \<noteq> j" and "mp_workers st' = (mp_workers st)[i := w]" and "mp_batch st' = mp_batch st"
    and "of_channel j (dn_sent (mp_shared st')) = of_channel j (dn_sent (mp_shared st))"
    and "of_channel j (dn_done (mp_shared st')) = of_channel j (dn_done (mp_shared st))"
    and "dn_next (mp_shared st) = n \<Longrightarrow> dn_next (mp_shared st') = n" and "chan_inv n j st"
  shows "chan_inv n j st'"
  using assms by (auto simp: chan_inv_def Let_def split: worker_pc.splits dyn_local.splits if_splits)

text \<open>A step of worker \<open>i\<close> during a batch: the other channels keep their part of the invariant.\<close>

lemma dyn_inv_worker:
  assumes inv: "dyn_inv log st" and main: "mp_main st' = mp_main st" "mp_plan st' = mp_plan st" "mp_batch st' = mp_batch st"
    and w: "mp_workers st' = (mp_workers st)[i := w]" and i: "i < length (mp_workers st)"
    and fail: "\<not> dyn_failed log' st' \<Longrightarrow> \<not> dyn_failed log st"
    and other: "\<And>j. j \<noteq> i \<Longrightarrow> of_channel j (dn_sent (mp_shared st')) = of_channel j (dn_sent (mp_shared st)) \<and>
      of_channel j (dn_done (mp_shared st')) = of_channel j (dn_done (mp_shared st))"
    and step: "\<And>p. mp_main st = InRun \<Longrightarrow> mp_plan st = Some p \<Longrightarrow> length (pl_slices p) \<le> SIZE_MAX \<Longrightarrow> \<not> dyn_failed log' st' \<Longrightarrow>
      dyn_global (length (pl_slices p)) st \<Longrightarrow> chan_inv (length (pl_slices p)) i st \<Longrightarrow>
      dyn_global (length (pl_slices p)) st' \<and> chan_inv (length (pl_slices p)) i st' \<and>
      (dn_next (mp_shared st) = length (pl_slices p) \<longrightarrow> dn_next (mp_shared st') = length (pl_slices p))"
  shows "dyn_inv log' st'"
  unfolding dyn_inv_def
proof (intro allI impI)
  fix p assume p: "mp_main st' = InRun" "mp_plan st' = Some p" "length (pl_slices p) \<le> SIZE_MAX" "\<not> dyn_failed log' st'"
  let ?n = "length (pl_slices p)"
  have old: "dyn_global ?n st" "\<And>j. j < length (mp_workers st) \<Longrightarrow> chan_inv ?n j st"
    using inv p main fail [OF p(4)] by (auto simp: dyn_inv_def)
  note new = step [OF _ _ p(3,4) old(1) old(2) [OF i]]
  have "chan_inv ?n j st'" if "j < length (mp_workers st)" for j
  proof (cases "j = i")
    case False
    with that new other old(2) main w p show ?thesis by (intro chan_inv_other [of i j st' st w]) auto
  qed (use new main p in auto)
  with new main p w show "dyn_global ?n st' \<and> (\<forall>j < length (mp_workers st'). chan_inv ?n j st')" by simp
qed

lemma not_failed_before:
  assumes "\<not> dyn_failed log' st'" and "mp_workers st' = (mp_workers st)[i := w]" and "list_all snd log' \<Longrightarrow> list_all snd log"
    and "\<And>b. wk_pc (mp_workers st ! i) = Busy b (Finished False) \<Longrightarrow> \<not> list_all snd log'"
  shows "\<not> dyn_failed log st"
proof
  assume "dyn_failed log st"
  with assms(1,3) obtain j b where j: "j < length (mp_workers st)" "wk_pc (mp_workers st ! j) = Busy b (Finished False)"
    by (auto simp: dyn_failed_def)
  show False
  proof (cases "j = i")
    case True
    with assms(1,4) j show False by (auto simp: dyn_failed_def)
  next
    case False
    with assms(1,2) j show False by (auto simp: dyn_failed_def)
  qed
qed

lemma claim_facts:
  assumes "claim_slices n batch next_slice = (f, k, next')" and "0 < batch" and "next_slice \<le> n"
  shows "f = next_slice" "next' = f + k" "next' \<le> n" "k \<le> batch" "k = 0 \<longleftrightarrow> next_slice = n"
  using assms by (auto simp: claim_slices_def Let_def)

lemma dyn_claim_inv:
  assumes claim: "claim_slices n batch (dn_next (mp_shared st)) = (f, k, next')" and batch: "0 < batch" "batch \<le> 1024"
    and glob: "dyn_global n st" and chan: "chan_inv n i st" and n: "n \<le> SIZE_MAX" and i: "i < length (mp_workers st)"
    and pc: "wk_pc (mp_workers st ! i) = Busy b (Claiming n)"
    and st': "st' = st\<lparr>mp_shared := (mp_shared st)\<lparr>dn_next := next', dn_sent := dn_sent (mp_shared st) @ [(i, control_message f k)]\<rparr>,
      mp_workers := (mp_workers st)[i := (mp_workers st ! i)\<lparr>wk_pc := Busy b (after_claim n f k)\<rparr>]\<rparr>"
  shows "dyn_global n st' \<and> chan_inv n i st' \<and> (dn_next (mp_shared st) = n \<longrightarrow> dn_next (mp_shared st') = n)"
proof -
  have le: "dn_next (mp_shared st) \<le> n" using glob by (simp add: dyn_global_def Let_def)
  note facts = claim_facts [OF claim batch(1) le]
  have msg: "message_slices (control_message f k) = [f..<f + k]"
    using facts batch(2) n by (intro message_slices_control) auto
  have "dyn_global n st'"
    using glob facts msg i by (auto simp: dyn_global_def Let_def st' upt_add_eq_append [of 0, simplified] less_SucI split: prod.splits)
  moreover have "chan_inv n i st'"
    using chan pc i facts msg
    by (auto simp: chan_inv_def Let_def st' after_claim_def open_msgs_def closed_msgs_def control_message_type)
  ultimately show ?thesis using facts by (auto simp: st')
qed

lemma dyn_step_inv:
  assumes "pool_step (DynamicExecutor w batch) st ev st'" and "0 < batch" and "batch \<le> 1024"
    and "pool_inv (batch_log tr) st" and "dyn_inv (batch_log tr) st"
  shows "dyn_inv (batch_log (ev # tr)) st'"
  using assms(1,4,5)
proof (cases rule: pool_step.cases)
  case (step_call p)
  let ?st = "EnsureWorkers w st"
  have "wk_seen (mp_workers ?st ! i) = mp_batch st \<and> wk_pc (mp_workers ?st ! i) = Parked" if "i < length (mp_workers ?st)" for i
    using that assms(4) step_call(3) nth_EnsureWorkers [OF that] by (auto simp: pool_inv_def reported_def)
  then show ?thesis
    by (auto simp: step_call(1,2) dyn_inv_def dyn_global_def chan_inv_def Run_post_def DynamicExecutor_def Let_def)
next
  case (step_take i)
  note wake = wake_inv [OF assms(4) step_take(3-6)]
  have eq: "mp_workers st' = (mp_workers st)[i := (mp_workers st ! i)\<lparr>wk_pc := Busy (mp_batch st) (Claiming (length (pl_slices (the (mp_plan st)))))\<rparr>]"
    by (simp add: step_take(2) worker_take_def DynamicExecutor_def)
  show ?thesis unfolding step_take(1) batch_log.simps
  proof (rule dyn_inv_worker [OF assms(5) _ _ _ eq step_take(3)])
    show "\<not> dyn_failed (batch_log tr) st" if "\<not> dyn_failed (batch_log tr) st'"
      using not_failed_before [OF that eq] step_take(4) by simp
  qed (use wake step_take in \<open>auto simp: worker_take_def pending_def chan_inv_def dyn_global_def Let_def open_msgs_def DynamicExecutor_def split: if_splits\<close>)
next
  case (step_leave i)
  then have "mp_main st = Joining" using assms(4) by (auto simp: pool_inv_def batch_inv_def split: main_pc.splits)
  then show ?thesis by (simp add: step_leave(2) dyn_inv_def)
next
  case (step_report i b l ok)
  then obtain ok' where l: "l = Finished ok'" and ok: "ok' = ok" by (cases l) (auto simp: DynamicExecutor_def)
  note busy = busy_inv [OF assms(4) step_report(3,4)]
  have eq: "mp_workers st' = (mp_workers st)[i := (mp_workers st ! i)\<lparr>wk_seen := b, wk_pc := Parked\<rparr>]"
    by (simp add: step_report(2) worker_report_def)
  show ?thesis unfolding step_report(1) batch_log.simps
  proof (rule dyn_inv_worker [OF assms(5) _ _ _ eq step_report(3)])
    show "\<not> dyn_failed (batch_log tr) st" if "\<not> dyn_failed ((i, ok) # batch_log tr) st'"
      using not_failed_before [OF that eq] step_report(4) l ok by (auto simp: dyn_failed_def)
  qed (use busy step_report l in \<open>auto simp: worker_report_def chan_inv_def dyn_global_def Let_def\<close>)
next
  case (step_body i b l l' s')
  note busy = busy_inv [OF assms(4) step_body(3,4)]
  have eq: "mp_workers st' = (mp_workers st)[i := (mp_workers st ! i)\<lparr>wk_pc := Busy b l'\<rparr>]"
    by (simp add: step_body(2))
  have body: "dyn_body batch i (l, mp_shared st) (l', s')" using step_body(6) by (simp add: DynamicExecutor_def)
  show ?thesis unfolding step_body(1) batch_log.simps
  proof (rule dyn_inv_worker [OF assms(5) _ _ _ eq step_body(3)])
    show "\<not> dyn_failed (batch_log tr) st" if "\<not> dyn_failed (batch_log tr) st'"
    proof (rule not_failed_before [OF that eq])
      have "l \<noteq> Finished False" using step_body(5) by (auto simp: DynamicExecutor_def)
      then show "\<not> list_all snd (batch_log tr)" if "wk_pc (mp_workers st ! i) = Busy c (Finished False)" for c
        using that step_body(4) by simp
    qed
    show "of_channel j (dn_sent (mp_shared st')) = of_channel j (dn_sent (mp_shared st)) \<and>
        of_channel j (dn_done (mp_shared st')) = of_channel j (dn_done (mp_shared st))" if "j \<noteq> i" for j
      using body that by (cases rule: dyn_body.cases) (auto simp: step_body(2))
    fix p assume p: "mp_main st = InRun" "mp_plan st = Some p" "length (pl_slices p) \<le> SIZE_MAX" "\<not> dyn_failed (batch_log tr) st'"
      and old: "dyn_global (length (pl_slices p)) st" "chan_inv (length (pl_slices p)) i st"
    have alive: "l' \<noteq> Finished False" using p(4) step_body(3) by (auto simp: dyn_failed_def eq)
    show "dyn_global (length (pl_slices p)) st' \<and> chan_inv (length (pl_slices p)) i st' \<and>
        (dn_next (mp_shared st) = length (pl_slices p) \<longrightarrow> dn_next (mp_shared st') = length (pl_slices p))"
      using body
    proof (cases rule: dyn_body.cases)
      case (dyn_claim m f k next')
      then have "m = length (pl_slices p)" using old(2) step_body(4) by (simp add: chan_inv_def Let_def)
      with dyn_claim show ?thesis
        using step_body(4) by (intro dyn_claim_inv [OF _ assms(2,3) old p(3) step_body(3)]) (auto simp: step_body(2))
    qed (use alive old step_body(2,3,4) in \<open>auto simp: chan_inv_def dyn_global_def Let_def\<close>)
  qed (simp_all add: step_body(2))
qed (simp_all add: dyn_inv_def StopWorkers_end_def)

lemma dyn_run_inv:
  assumes "pool_run (DynamicExecutor w batch) s0 tr st" and "0 < batch" and "batch \<le> 1024"
  shows "dyn_inv (batch_log tr) st"
  using assms(1)
proof (induction rule: pool_run.induct)
  case run_new
  then show ?case by (simp add: dyn_inv_def pool_new_def)
next
  case (run_step tr st ev st')
  then show ?case using assms(2,3) by (intro dyn_step_inv) (auto dest: pool_run_inv)
qed

lemma dyn_returned:
  assumes run: "pool_run (DynamicExecutor w (BatchSize env)) s0 tr st"
    and ret: "pool_step (DynamicExecutor w (BatchSize env)) st (Returned True) st'"
    and plan: "mp_plan st' = Some plan" "length (pl_slices plan) \<le> SIZE_MAX"
  shows "dyn_global (length (pl_slices plan)) st'"
    and "\<And>i. i < length (mp_workers st') \<Longrightarrow> closed_msgs (of_channel i (dn_sent (mp_shared st'))) \<and>
      slices_of (of_channel i (dn_sent (mp_shared st'))) = of_channel i (dn_done (mp_shared st')) \<and>
      dn_next (mp_shared st') = length (pl_slices plan)"
proof -
  from ret have st: "mp_main st = InRun" "st' = st\<lparr>mp_main := Outside\<rparr>" by (auto elim: step_returnE)
  have "list_all snd (batch_log tr)"
    and parked: "\<And>i. i < length (mp_workers st) \<Longrightarrow> wk_pc (mp_workers st ! i) = Parked \<and> wk_seen (mp_workers st ! i) = mp_batch st"
  proof -
    have "pool_inv (batch_log (Returned True # tr)) st'" by (rule pool_step_inv [OF ret pool_run_inv [OF run]])
    then show "wk_pc (mp_workers st ! i) = Parked \<and> wk_seen (mp_workers st ! i) = mp_batch st" if "i < length (mp_workers st)" for i
      using that st by (auto simp: pool_inv_def reported_def)
    have "mp_success st" using ret by (auto elim: step_returnE)
    then show "list_all snd (batch_log tr)" using pool_run_inv [OF run] st(1) by (simp add: pool_inv_def batch_inv_def)
  qed
  then have "\<not> dyn_failed (batch_log tr) st" by (auto simp: dyn_failed_def)
  then have "dyn_global (length (pl_slices plan)) st" "\<And>i. i < length (mp_workers st) \<Longrightarrow> chan_inv (length (pl_slices plan)) i st"
    using dyn_run_inv [OF run] BatchSize_range [of env] st plan by (auto simp: dyn_inv_def)
  with parked st show "dyn_global (length (pl_slices plan)) st'"
    "\<And>i. i < length (mp_workers st') \<Longrightarrow> closed_msgs (of_channel i (dn_sent (mp_shared st'))) \<and>
      slices_of (of_channel i (dn_sent (mp_shared st'))) = of_channel i (dn_done (mp_shared st')) \<and>
      dn_next (mp_shared st') = length (pl_slices plan)"
    by (auto simp: dyn_global_def chan_inv_def Let_def)
qed

text \<open>
  C29. When \<open>Run\<close> of the dynamic executor returns true on rank 0, every slice of the plan has been executed exactly
  once, whatever the number of channels, the batch size and the order in which the workers made their claims.
\<close>

theorem dynamic_slices_once:
  assumes "pool_run (DynamicExecutor w (BatchSize env)) s0 tr st"
    and "pool_step (DynamicExecutor w (BatchSize env)) st (Returned True) st'"
    and "mp_plan st' = Some plan" and "length (pl_slices plan) \<le> SIZE_MAX" and "mp_workers st' \<noteq> []"
  shows "mset (map snd (dn_done (mp_shared st'))) = mset [0..<length (pl_slices plan)]"
proof -
  let ?s = "mp_shared st'" and ?m = "length (mp_workers st')"
  note glob = dyn_returned(1) [OF assms(1-4)] and chan = dyn_returned(2) [OF assms(1-4)]
  have "mset (map snd (dn_done ?s)) = mset (concat (map (\<lambda>x. [snd x]) (dn_done ?s)))" by (simp add: concat_map_singleton)
  also have "\<dots> = (\<Sum>i<?m. mset (concat (map (\<lambda>k. [k]) (of_channel i (dn_done ?s)))))"
    using mset_of_channels [of "dn_done ?s" ?m "\<lambda>k. [k]"] glob by (simp add: dyn_global_def Let_def)
  also have "\<dots> = (\<Sum>i<?m. mset (slices_of (of_channel i (dn_sent ?s))))"
    using chan by (intro sum.cong) auto
  also have "\<dots> = mset (concat (map (\<lambda>x. message_slices (snd x)) (dn_sent ?s)))"
    using mset_of_channels [of "dn_sent ?s" ?m message_slices] glob by (simp add: dyn_global_def Let_def)
  finally show ?thesis using glob chan [of 0] assms(5) by (simp add: dyn_global_def Let_def)
qed

text \<open>
  C30. The control messages of a channel are its claims followed by one end marker: a worker of another rank that
  obeys them executes exactly the slices that rank 0 executed on this channel, in the same order, and then stops.
\<close>

theorem dynamic_ranks_agree:
  assumes "pool_run (DynamicExecutor w (BatchSize env)) s0 tr st"
    and "pool_step (DynamicExecutor w (BatchSize env)) st (Returned True) st'"
    and "mp_plan st' = Some plan" and "length (pl_slices plan) \<le> SIZE_MAX" and "i < length (mp_workers st')"
  shows "follower_slices (of_channel i (dn_sent (mp_shared st'))) = of_channel i (dn_done (mp_shared st')) \<and>
    closed_msgs (of_channel i (dn_sent (mp_shared st')))"
  using dyn_returned(2) [OF assms] follower_closed by simp

subsection \<open>One channel, one slice\<close>

definition demo_dyn :: "(CollPlan, dyn_local, dyn_shared) pool_code" where
  "demo_dyn = DynamicExecutor 1 (BatchSize None)"

definition demo_dyn_plan :: CollPlan where
  "demo_dyn_plan = \<lparr>pl_channels = [], pl_slices = [PlanTask_default]\<rparr>"

definition demo_dyn_shared :: dyn_shared where
  "demo_dyn_shared = \<lparr>dn_next = 0, dn_sent = [], dn_done = []\<rparr>"

definition demo_dyn_state :: "bool \<Rightarrow> nat \<Rightarrow> dyn_local worker_pc \<Rightarrow> 64 word \<Rightarrow> dyn_shared \<Rightarrow> (CollPlan, dyn_local, dyn_shared) pool" where
  "demo_dyn_state running k pc seen s = \<lparr>mp_stop = False, mp_batch = 1, mp_active = 1, mp_completed = k, mp_success = True,
     mp_plan = Some demo_dyn_plan, mp_shared = s, mp_workers = [\<lparr>wk_seen = seen, wk_pc = pc\<rparr>], mp_main = (if running then InRun else Outside)\<rparr>"

abbreviation demo_sent :: "nat \<Rightarrow> (nat \<times> ControlMessage) list" where
  "demo_sent k \<equiv> take k [(0, control_message 0 1), (0, control_message 1 0)]"

lemma demo_dyn_body:
  assumes "pool_run demo_dyn demo_dyn_shared tr (demo_dyn_state True 0 (Busy 1 l) 0 s)" and "dyn_result l = None"
    and "dyn_body 2 0 (l, s) (l', s')"
  shows "pool_run demo_dyn demo_dyn_shared (Internal # tr) (demo_dyn_state True 0 (Busy 1 l') 0 s')"
proof -
  have "pool_step demo_dyn (demo_dyn_state True 0 (Busy 1 l) 0 s) Internal (demo_dyn_state True 0 (Busy 1 l') 0 s')"
    using step_body [of 0 "demo_dyn_state True 0 (Busy 1 l) 0 s" 1 l demo_dyn l' s'] assms(2,3)
    by (simp add: demo_dyn_state_def demo_dyn_def DynamicExecutor_def BatchSize_def kDefaultBatchSize_def)
  with assms(1) show ?thesis by (rule run_step)
qed

lemma demo_dyn_run:
  "pool_run demo_dyn demo_dyn_shared [Ran 0 True, Internal, Internal, Internal, Internal, Internal, Called demo_dyn_plan]
     (demo_dyn_state True 1 Parked 1 \<lparr>dn_next = 1, dn_sent = demo_sent 2, dn_done = [(0, 0)]\<rparr>)"
proof -
  note eval = demo_dyn_def DynamicExecutor_def demo_dyn_state_def demo_dyn_plan_def demo_dyn_shared_def
  have "\<not> pc_empty demo_dyn demo_dyn_plan" by (simp add: eval)
  from run_step [OF run_new step_call [OF _ this]]
  have "pool_run demo_dyn demo_dyn_shared [Called demo_dyn_plan] (demo_dyn_state True 0 Parked 0 demo_dyn_shared)"
    by (simp add: eval pool_new_def Run_post_def EnsureWorkers_def)
  moreover have "pool_step demo_dyn (demo_dyn_state True 0 Parked 0 demo_dyn_shared) Internal
      (demo_dyn_state True 0 (Busy 1 (Claiming 1)) 0 demo_dyn_shared)"
    using step_take [of 0 "demo_dyn_state True 0 Parked 0 demo_dyn_shared" demo_dyn] by (simp add: eval worker_take_def)
  ultimately have "pool_run demo_dyn demo_dyn_shared [Internal, Called demo_dyn_plan] (demo_dyn_state True 0 (Busy 1 (Claiming 1)) 0 demo_dyn_shared)"
    by (rule run_step)
  from demo_dyn_body [OF this _ dyn_claim [of 1 2 _ 0 1 1]]
  have "pool_run demo_dyn demo_dyn_shared [Internal, Internal, Called demo_dyn_plan]
      (demo_dyn_state True 0 (Busy 1 (Executing 1 [0])) 0 \<lparr>dn_next = 1, dn_sent = demo_sent 1, dn_done = []\<rparr>)"
    by (simp add: demo_dyn_shared_def claim_slices_def after_claim_def)
  from demo_dyn_body [OF this _ dyn_slice]
  have "pool_run demo_dyn demo_dyn_shared [Internal, Internal, Internal, Called demo_dyn_plan]
      (demo_dyn_state True 0 (Busy 1 (Executing 1 [])) 0 \<lparr>dn_next = 1, dn_sent = demo_sent 1, dn_done = [(0, 0)]\<rparr>)" by simp
  from demo_dyn_body [OF this _ dyn_again]
  have "pool_run demo_dyn demo_dyn_shared [Internal, Internal, Internal, Internal, Called demo_dyn_plan]
      (demo_dyn_state True 0 (Busy 1 (Claiming 1)) 0 \<lparr>dn_next = 1, dn_sent = demo_sent 1, dn_done = [(0, 0)]\<rparr>)" by simp
  from demo_dyn_body [OF this _ dyn_claim [of 1 2 _ 1 0 1]]
  have "pool_run demo_dyn demo_dyn_shared [Internal, Internal, Internal, Internal, Internal, Called demo_dyn_plan]
      (demo_dyn_state True 0 (Busy 1 (Finished True)) 0 \<lparr>dn_next = 1, dn_sent = demo_sent 2, dn_done = [(0, 0)]\<rparr>)"
    by (simp add: claim_slices_def after_claim_def)
  moreover have "pool_step demo_dyn (demo_dyn_state True 0 (Busy 1 (Finished True)) 0 s) (Ran 0 True) (demo_dyn_state True 1 Parked 1 s)" for s
    using step_report [of 0 "demo_dyn_state True 0 (Busy 1 (Finished True)) 0 s" 1 "Finished True" demo_dyn True]
    by (simp add: eval worker_report_def)
  ultimately show ?thesis by (rule run_step)
qed

lemma demo_dyn_return:
  "pool_step demo_dyn (demo_dyn_state True 1 Parked 1 s) (Returned True) (demo_dyn_state False 1 Parked 1 s)"
  using step_return [of "demo_dyn_state True 1 Parked 1 s" demo_dyn] by (simp add: demo_dyn_state_def)

lemma dynamic_slices_once_witness:
  "mset (map snd (dn_done \<lparr>dn_next = 1, dn_sent = demo_sent 2, dn_done = [(0, 0)]\<rparr>)) = mset [0..<length (pl_slices demo_dyn_plan)]"
  using dynamic_slices_once [OF demo_dyn_run [unfolded demo_dyn_def] demo_dyn_return [unfolded demo_dyn_def], of demo_dyn_plan]
  by (simp add: demo_dyn_state_def demo_dyn_plan_def SIZE_MAX_def)

lemma dynamic_ranks_agree_witness:
  "follower_slices [control_message 0 1, control_message 1 0] = [0]"
  using dynamic_ranks_agree [OF demo_dyn_run [unfolded demo_dyn_def] demo_dyn_return [unfolded demo_dyn_def], of demo_dyn_plan 0]
  by (simp add: demo_dyn_state_def demo_dyn_plan_def SIZE_MAX_def of_channel_def)

end
