(* ===== verification/Occl_Polling.thy ===== *)
theory Occl_Polling
  imports Occl_Executor
begin

section \<open>The polling and the epoll executor\<close>

text \<open>
  \<open>src/executor/polling_executor.cpp\<close> and \<open>src/executor/epoll_executor.cpp\<close>: one thread drives the front tasks of
  all channels of a plan. The plan's tasks are updated in place; \<open>current[slot]\<close>, a pointer into the channel's
  task vector, is the index of the task.
\<close>

record 'e xcfg =
  xc_tasks :: "PlanTask list list"
  xc_current :: "nat option list"
  xc_index :: "nat list"
  xc_active :: nat
  xc_heap :: heap
  xc_net :: 'e

definition slot_cfg :: "nat \<Rightarrow> nat \<Rightarrow> 'e xcfg \<Rightarrow> 'e tcfg" where
  "slot_cfg slot k x = \<lparr>tc_task = xc_tasks x ! slot ! k, tc_heap = xc_heap x, tc_net = xc_net x\<rparr>"

definition slot_put :: "nat \<Rightarrow> nat \<Rightarrow> 'e tcfg \<Rightarrow> 'e xcfg \<Rightarrow> 'e xcfg" where
  "slot_put slot k c x = x\<lparr>xc_tasks := (xc_tasks x)[slot := (xc_tasks x ! slot)[k := tc_task c]],
     xc_heap := tc_heap c, xc_net := tc_net c\<rparr>"

definition xcfg_start :: "CollPlan \<Rightarrow> heap \<Rightarrow> 'e \<Rightarrow> 'e xcfg" where
  "xcfg_start plan h e = (let n = length (pl_channels plan) in
     \<lparr>xc_tasks = map cp_tasks (pl_channels plan), xc_current = replicate n None, xc_index = replicate n 0, xc_active = 0,
      xc_heap = h, xc_net = e\<rparr>)"

text \<open>\<open>SetPlanWaitMode\<close> tells every transport of the plan how its caller will wait; a null transport is 0.\<close>

definition SetPlanWaitMode :: "(transport_ref \<Rightarrow> TransportWaitMode \<Rightarrow> 'e \<Rightarrow> 'e) \<Rightarrow> TransportWaitMode \<Rightarrow> CollPlan \<Rightarrow> 'e \<Rightarrow> 'e" where
  "SetPlanWaitMode set_mode mode plan e =
     fold (\<lambda>t e. if t = 0 then e else set_mode t mode e)
       (concat (map (\<lambda>task. pt_send_transports task @ pt_recv_transports task) (concat (map cp_tasks (pl_channels plan))))) e"

subsection \<open>Polling\<close>

definition StartFrontTask :: "'e runtime \<Rightarrow> topo_ctx \<Rightarrow> nat \<Rightarrow> 'e xcfg \<Rightarrow> 'e xcfg option" where
  "StartFrontTask rt ctx slot x =
     (let k = xc_index x ! slot in
      if k \<ge> length (xc_tasks x ! slot) then Some x
      else if pt_topology (xc_tasks x ! slot ! k) = None then None
      else (case CollectiveInit rt ctx (slot_cfg slot k x) of
              None \<Rightarrow> None
            | Some c \<Rightarrow> Some ((slot_put slot k c x)\<lparr>xc_current := (xc_current x)[slot := Some k],
                xc_index := (xc_index x)[slot := k + 1], xc_active := xc_active x + 1\<rparr>)))"

definition polling_slot :: "'e runtime \<Rightarrow> topo_ctx \<Rightarrow> nat \<Rightarrow> 'e xcfg \<Rightarrow> 'e xcfg option" where
  "polling_slot rt ctx slot x =
     (case xc_current x ! slot of
        None \<Rightarrow> Some x
      | Some k \<Rightarrow>
          (case execute_iter rt ctx (slot_cfg slot k x) of
             None \<Rightarrow> None
           | Some c \<Rightarrow>
               let x1 = slot_put slot k c x in
               if \<not> CollectiveDone (tc_task c) then Some x1
               else let x2 = x1\<lparr>xc_active := xc_active x1 - 1, xc_current := (xc_current x1)[slot := None]\<rparr> in
                 if xc_index x2 ! slot < length (xc_tasks x2 ! slot) then StartFrontTask rt ctx slot x2 else Some x2))"

partial_function (option) polling_loop :: "'e runtime \<Rightarrow> topo_ctx \<Rightarrow> 'e xcfg \<Rightarrow> 'e xcfg option option" where
  "polling_loop rt ctx x =
     (if 0 < xc_active x then
        (case for_opt (polling_slot rt ctx) [0..<length (xc_tasks x)] x of
           None \<Rightarrow> Some None
         | Some x' \<Rightarrow> polling_loop rt ctx x')
      else Some (Some x))"

declare polling_loop.simps [code]

definition polling_start :: "'e runtime \<Rightarrow> topo_ctx \<Rightarrow> nat \<Rightarrow> 'e xcfg \<Rightarrow> 'e xcfg option" where
  "polling_start rt ctx slot x = (if xc_tasks x ! slot = [] then Some x else StartFrontTask rt ctx slot x)"

definition Polling_Run ::
  "'e runtime \<Rightarrow> (transport_ref \<Rightarrow> TransportWaitMode \<Rightarrow> 'e \<Rightarrow> 'e) \<Rightarrow> topo_ctx \<Rightarrow> CollPlan \<Rightarrow> heap \<Rightarrow> 'e \<Rightarrow> 'e xcfg option option" where
  "Polling_Run rt set_mode ctx plan h e =
     (let x = xcfg_start plan h (SetPlanWaitMode set_mode Polling plan e) in
      if pl_channels plan = [] then Some (Some x)
      else (case for_opt (polling_start rt ctx) [0..<length (xc_tasks x)] x of
              None \<Rightarrow> Some None
            | Some x' \<Rightarrow> polling_loop rt ctx x'))"

subsection \<open>Epoll\<close>

text \<open>
  The epoll instance: events are pairs (\<open>EPOLLIN\<close>, \<open>EPOLLOUT\<close>), the tag of a registration is the \<open>u32\<close> of its data.
  \<open>GetFd\<close> and \<open>GetPollEvents\<close> of a transport do not change while its task runs.
\<close>

datatype wait_result = Events "(32 word \<times> bool \<times> bool) list" | WaitInterrupted | WaitFailed

record 'k epoll_os =
  ep_create :: "'k \<Rightarrow> bool \<times> 'k"
  ep_add :: "int \<Rightarrow> bool \<times> bool \<Rightarrow> 32 word \<Rightarrow> 'k \<Rightarrow> bool \<times> 'k"
  ep_del :: "int \<Rightarrow> 'k \<Rightarrow> 'k"
  ep_wait :: "nat \<Rightarrow> 'k \<Rightarrow> wait_result \<times> 'k"
  ep_fd :: "transport_ref \<Rightarrow> int"
  ep_events :: "transport_ref \<Rightarrow> bool \<times> bool"

text \<open>The two loops of \<open>RegisterTask\<close> and of \<open>UnregisterTask\<close>, which differ in the tag only.\<close>

fun register_all :: "'k epoll_os \<Rightarrow> 32 word \<Rightarrow> transport_ref list \<Rightarrow> 'k \<Rightarrow> bool \<times> 'k" where
  "register_all os tag [] k = (True, k)"
| "register_all os tag (t # ts) k =
     (if t \<noteq> 0 \<and> ep_fd os t \<ge> 0 \<and> ep_events os t \<noteq> (False, False) then
        (case ep_add os (ep_fd os t) (ep_events os t) tag k of
           (False, k') \<Rightarrow> (False, k')
         | (True, k') \<Rightarrow> register_all os tag ts k')
      else register_all os tag ts k)"

definition unregister_all :: "'k epoll_os \<Rightarrow> transport_ref list \<Rightarrow> 'k \<Rightarrow> 'k" where
  "unregister_all os ts k = fold (\<lambda>t k. if t \<noteq> 0 \<and> ep_fd os t \<ge> 0 then ep_del os (ep_fd os t) k else k) ts k"

definition RegisterTask :: "'k epoll_os \<Rightarrow> nat \<Rightarrow> PlanTask \<Rightarrow> 'k \<Rightarrow> bool \<times> 'k" where
  "RegisterTask os slot task k =
     (let tag_base = word_of_nat slot * 2 in
      case register_all os tag_base (pt_recv_transports task) k of
        (False, k1) \<Rightarrow> (False, k1)
      | (True, k1) \<Rightarrow> register_all os (tag_base + 1) (pt_send_transports task) k1)"

definition UnregisterTask :: "'k epoll_os \<Rightarrow> PlanTask \<Rightarrow> 'k \<Rightarrow> 'k" where
  "UnregisterTask os task k = unregister_all os (pt_send_transports task) (unregister_all os (pt_recv_transports task) k)"

text \<open>The lambdas of \<open>Run\<close>. \<^term>\<open>None\<close> in the first component is \<open>return false\<close>.\<close>

definition abort_plan :: "'k epoll_os \<Rightarrow> 'e xcfg \<Rightarrow> 'k \<Rightarrow> 'k" where
  "abort_plan os x k =
     fold (\<lambda>slot k. case xc_current x ! slot of None \<Rightarrow> k | Some i \<Rightarrow> UnregisterTask os (xc_tasks x ! slot ! i) k)
       [0..<length (xc_current x)] k"

function epoll_start :: "'e runtime \<Rightarrow> topo_ctx \<Rightarrow> 'k epoll_os \<Rightarrow> nat \<Rightarrow> 'e xcfg \<Rightarrow> 'k \<Rightarrow> bool \<times> 'e xcfg \<times> 'k" where
  "epoll_start rt ctx os slot x k =
     (let i = xc_index x ! slot in
      if slot < length (xc_index x) \<and> i < length (xc_tasks x ! slot) then
        (case (if pt_topology (xc_tasks x ! slot ! i) = None then None else CollectiveInit rt ctx (slot_cfg slot i x)) of
           None \<Rightarrow> (False, x, k)
         | Some c \<Rightarrow>
             let x1 = (slot_put slot i c x)\<lparr>xc_index := (xc_index x)[slot := i + 1]\<rparr> in
             if CollectiveDone (tc_task c) then epoll_start rt ctx os slot x1 k
             else let x2 = x1\<lparr>xc_current := (xc_current x1)[slot := Some i], xc_active := xc_active x1 + 1\<rparr> in
               (case RegisterTask os slot (tc_task c) k of (ok, k') \<Rightarrow> (ok, x2, k')))
      else (True, x, k))"
  by pat_completeness auto
termination
proof (relation "measure (\<lambda>(rt, ctx, os, slot, x, k). length (xc_tasks x ! slot) - xc_index x ! slot)", goal_cases)
  case (2 rt ctx os slot x k i c x1)
  have "length (xc_tasks x1 ! slot) = length (xc_tasks x ! slot)"
    using 2 by (cases "slot < length (xc_tasks x)") (simp_all add: slot_put_def list_update_beyond)
  with 2 show ?case by auto
qed simp

declare epoll_start.simps [simp del]

fun epoll_start_all :: "'e runtime \<Rightarrow> topo_ctx \<Rightarrow> 'k epoll_os \<Rightarrow> nat list \<Rightarrow> 'e xcfg \<Rightarrow> 'k \<Rightarrow> 'e xcfg option \<times> 'k" where
  "epoll_start_all rt ctx os [] x k = (Some x, k)"
| "epoll_start_all rt ctx os (slot # slots) x k =
     (case epoll_start rt ctx os slot x k of
        (False, x1, k1) \<Rightarrow> (None, abort_plan os x1 k1)
      | (True, x1, k1) \<Rightarrow> epoll_start_all rt ctx os slots x1 k1)"

definition epoll_ready :: "'k epoll_os \<Rightarrow> transport_ref list \<Rightarrow> bool \<times> bool \<Rightarrow> bool" where
  "epoll_ready os ts ev = list_ex (\<lambda>t. t \<noteq> 0 \<and> (fst ev \<and> fst (ep_events os t) \<or> snd ev \<and> snd (ep_events os t))) ts"

text \<open>One event; a tag beyond the slots, which the kernel does not deliver, is ignored.\<close>

definition epoll_event :: "'e runtime \<Rightarrow> topo_ctx \<Rightarrow> 'k epoll_os \<Rightarrow> 32 word \<times> bool \<times> bool \<Rightarrow> 'e xcfg \<Rightarrow> 'k \<Rightarrow> 'e xcfg option \<times> 'k" where
  "epoll_event rt ctx os ev x k =
     (let slot = unat (fst ev div 2); side = fst ev mod 2 in
      if slot \<ge> length (xc_current x) then (Some x, k)
      else (case xc_current x ! slot of
        None \<Rightarrow> (Some x, k)
      | Some i \<Rightarrow>
          let task = xc_tasks x ! slot ! i in
          if \<not> epoll_ready os (if side = 0 then pt_recv_transports task else pt_send_transports task) (snd ev) then (Some x, k)
          else (case CollectiveStep rt ctx (if side = 0 then Readable else Writable) (slot_cfg slot i x) of
                  None \<Rightarrow> (None, abort_plan os x k)
                | Some c \<Rightarrow>
                    let x1 = slot_put slot i c x in
                    if \<not> CollectiveDone (tc_task c) then (Some x1, k)
                    else
                      let x2 = x1\<lparr>xc_active := xc_active x1 - 1, xc_current := (xc_current x1)[slot := None]\<rparr> in
                      (case epoll_start rt ctx os slot x2 (UnregisterTask os (tc_task c) k) of
                         (False, x3, k3) \<Rightarrow> (None, abort_plan os x3 k3)
                       | (True, x3, k3) \<Rightarrow> (Some x3, k3)))))"

fun epoll_events :: "'e runtime \<Rightarrow> topo_ctx \<Rightarrow> 'k epoll_os \<Rightarrow> (32 word \<times> bool \<times> bool) list \<Rightarrow> 'e xcfg \<Rightarrow> 'k \<Rightarrow> 'e xcfg option \<times> 'k" where
  "epoll_events rt ctx os [] x k = (Some x, k)"
| "epoll_events rt ctx os (ev # evs) x k =
     (case epoll_event rt ctx os ev x k of
        (None, k1) \<Rightarrow> (None, k1)
      | (Some x1, k1) \<Rightarrow> epoll_events rt ctx os evs x1 k1)"

partial_function (option) epoll_loop :: "'e runtime \<Rightarrow> topo_ctx \<Rightarrow> 'k epoll_os \<Rightarrow> 'e xcfg \<Rightarrow> 'k \<Rightarrow> ('e xcfg option \<times> 'k) option" where
  "epoll_loop rt ctx os x k =
     (if 0 < xc_active x then
        (case ep_wait os (length (xc_tasks x) * 2) k of
           (WaitInterrupted, k1) \<Rightarrow> epoll_loop rt ctx os x k1
         | (WaitFailed, k1) \<Rightarrow> Some (None, abort_plan os x k1)
         | (Events evs, k1) \<Rightarrow>
             (case epoll_events rt ctx os evs x k1 of
                (None, k2) \<Rightarrow> Some (None, k2)
              | (Some x1, k2) \<Rightarrow> epoll_loop rt ctx os x1 k2))
      else Some (Some x, k))"

declare epoll_loop.simps [code]

text \<open>The flag says whether the executor already has its epoll instance.\<close>

definition EnsureEpoll :: "'k epoll_os \<Rightarrow> bool \<Rightarrow> 'k \<Rightarrow> bool \<times> 'k" where
  "EnsureEpoll os created k = (if created then (True, k) else ep_create os k)"

definition Epoll_Run ::
  "'e runtime \<Rightarrow> (transport_ref \<Rightarrow> TransportWaitMode \<Rightarrow> 'e \<Rightarrow> 'e) \<Rightarrow> topo_ctx \<Rightarrow> 'k epoll_os \<Rightarrow> bool \<Rightarrow> CollPlan \<Rightarrow> heap \<Rightarrow> 'e \<Rightarrow> 'k \<Rightarrow>
   ('e xcfg option \<times> 'k) option" where
  "Epoll_Run rt set_mode ctx os created plan h e k =
     (let x = xcfg_start plan h (SetPlanWaitMode set_mode EventDriven plan e) in
      if pl_channels plan = [] then Some (Some x, k)
      else (case EnsureEpoll os created k of
        (False, k1) \<Rightarrow> Some (None, k1)
      | (True, k1) \<Rightarrow>
          (case epoll_start_all rt ctx os [0..<length (xc_tasks x)] x k1 of
             (None, k2) \<Rightarrow> Some (None, k2)
           | (Some x1, k2) \<Rightarrow> epoll_loop rt ctx os x1 k2)))"

end
