(* ===== verification/Occl_Polling_Correct.thy ===== *)
theory Occl_Polling_Correct
  imports Occl_Polling Occl_Executor_Correct
begin

section \<open>The single-threaded executors: theorems\<close>

text \<open>
  A plan that \<open>Run\<close> of the polling or the epoll executor reports as successful is complete: each channel's tasks
  have been driven to their end, in order. The epoll executor leaves no descriptor registered, whether it succeeds
  or fails.
\<close>

definition strip :: "PlanTask \<Rightarrow> PlanTask" where
  "strip t = t\<lparr>pt_state := CollOpState_default\<rparr>"

lemma filter_update:
  "i < length xs \<Longrightarrow> length (filter P (xs[i := y])) + (if P (xs ! i) then 1 else 0) = length (filter P xs) + (if P y then 1 else 0)"
proof (induction xs arbitrary: i)
  case (Cons x xs)
  then show ?case by (cases i) auto
qed simp

definition xcfg_wf :: "CollPlan \<Rightarrow> 'e xcfg \<Rightarrow> bool" where
  "xcfg_wf plan x \<longleftrightarrow> (let n = length (pl_channels plan) in
     length (xc_current x) = n \<and> length (xc_index x) = n \<and>
     map (map strip) (xc_tasks x) = map (\<lambda>ch. map strip (cp_tasks ch)) (pl_channels plan) \<and>
     xc_active x = length (filter (\<lambda>c. c \<noteq> None) (xc_current x)))"

lemma xcfg_wf_length: "xcfg_wf plan x \<Longrightarrow> length (xc_tasks x) = length (pl_channels plan)"
  by (metis (mono_tags, lifting) length_map xcfg_wf_def)

definition slot_ok :: "nat \<Rightarrow> 'e xcfg \<Rightarrow> bool" where
  "slot_ok i x \<longleftrightarrow> (let ts = xc_tasks x ! i; idx = xc_index x ! i in
     case xc_current x ! i of
       None \<Rightarrow> idx = length ts \<and> (\<forall>k < idx. CollectiveDone (ts ! k))
     | Some c \<Rightarrow> idx = Suc c \<and> c < length ts \<and> (\<forall>k < c. CollectiveDone (ts ! k)))"

text \<open>A slot between two tasks.\<close>

definition slot_free :: "nat \<Rightarrow> 'e xcfg \<Rightarrow> bool" where
  "slot_free i x \<longleftrightarrow> xc_current x ! i = None \<and> xc_index x ! i \<le> length (xc_tasks x ! i) \<and>
     (\<forall>k < xc_index x ! i. CollectiveDone (xc_tasks x ! i ! k))"

definition same_slot :: "nat \<Rightarrow> 'e xcfg \<Rightarrow> 'e xcfg \<Rightarrow> bool" where
  "same_slot j x x' \<longleftrightarrow> xc_tasks x' ! j = xc_tasks x ! j \<and> xc_current x' ! j = xc_current x ! j \<and> xc_index x' ! j = xc_index x ! j"

definition slot_step :: "CollPlan \<Rightarrow> nat \<Rightarrow> 'e xcfg \<Rightarrow> 'e xcfg \<Rightarrow> bool" where
  "slot_step plan i x x' \<longleftrightarrow> xcfg_wf plan x' \<and> (\<forall>j. j \<noteq> i \<longrightarrow> same_slot j x x')"

lemma slot_step_trans: "slot_step plan i a b \<Longrightarrow> slot_step plan i b c \<Longrightarrow> slot_step plan i a c"
  by (simp add: slot_step_def same_slot_def)

lemma same_slot_ok: "same_slot j x x' \<Longrightarrow> slot_ok j x' = slot_ok j x" "same_slot j x x' \<Longrightarrow> slot_free j x' = slot_free j x"
  by (simp_all add: slot_ok_def slot_free_def same_slot_def)

lemma slot_put_wf:
  assumes wf: "xcfg_wf plan x" and i: "i < length (xc_tasks x)" and k: "k < length (xc_tasks x ! i)"
    and c: "params c = params (slot_cfg i k x)"
  shows "xcfg_wf plan (slot_put i k c x)"
proof -
  have "strip (tc_task c) = strip (xc_tasks x ! i ! k)" using c by (simp add: params_def slot_cfg_def strip_def)
  then have "map strip ((xc_tasks x ! i)[k := tc_task c]) = map strip (xc_tasks x ! i)"
    using k by (simp add: map_update list_update_same_conv)
  then have "map (map strip) (xc_tasks (slot_put i k c x)) = map (map strip) (xc_tasks x)"
    using i by (simp add: slot_put_def map_update list_update_same_conv)
  with wf show ?thesis by (simp add: xcfg_wf_def slot_put_def)
qed

lemma current_wf:
  assumes "xcfg_wf plan x" and "i < length (xc_tasks x)"
  shows "xc_current x ! i = None \<Longrightarrow> xcfg_wf plan (x\<lparr>xc_current := (xc_current x)[i := Some k], xc_active := xc_active x + 1\<rparr>)"
    and "xc_current x ! i \<noteq> None \<Longrightarrow> xcfg_wf plan (x\<lparr>xc_active := xc_active x - 1, xc_current := (xc_current x)[i := None]\<rparr>)"
    and "xcfg_wf plan (x\<lparr>xc_index := (xc_index x)[i := m]\<rparr>)"
  using assms xcfg_wf_length [OF assms(1)] filter_update [of i "xc_current x" "\<lambda>c. c \<noteq> None" "Some k"]
    filter_update [of i "xc_current x" "\<lambda>c. c \<noteq> None" None]
  by (auto simp: xcfg_wf_def Let_def)

lemma StartFrontTask_step:
  assumes run: "StartFrontTask rt ctx i x = Some x'" and wf: "xcfg_wf plan x" and i: "i < length (xc_tasks x)" and free: "slot_free i x"
  shows "slot_step plan i x x' \<and> slot_ok i x'"
proof (cases "xc_index x ! i < length (xc_tasks x ! i)")
  case False
  with run free have "x' = x" by (simp add: StartFrontTask_def)
  with False free wf show ?thesis by (simp add: slot_step_def same_slot_def slot_ok_def slot_free_def)
next
  case True
  let ?k = "xc_index x ! i"
  from True run obtain c where init: "CollectiveInit rt ctx (slot_cfg i ?k x) = Some c"
    and x': "x' = (slot_put i ?k c x)\<lparr>xc_current := (xc_current x)[i := Some ?k], xc_index := (xc_index x)[i := ?k + 1], xc_active := xc_active x + 1\<rparr>"
    by (auto simp: StartFrontTask_def Let_def split: if_splits option.splits)
  let ?y = "(slot_put i ?k c x)\<lparr>xc_current := (xc_current (slot_put i ?k c x))[i := Some ?k], xc_active := xc_active (slot_put i ?k c x) + 1\<rparr>"
  have wf1: "xcfg_wf plan (slot_put i ?k c x)" by (rule slot_put_wf [OF wf i True CollectiveInit_params [OF init]])
  have cur: "xc_current (slot_put i ?k c x) ! i = None" using free by (simp add: slot_free_def slot_put_def)
  have len: "length (xc_tasks (slot_put i ?k c x)) = length (xc_tasks x)" by (simp add: slot_put_def)
  have "xcfg_wf plan ?y" using current_wf(1) [OF wf1 _ cur] i len by simp
  then have "xcfg_wf plan (?y\<lparr>xc_index := (xc_index ?y)[i := ?k + 1]\<rparr>)" by (rule current_wf(3)) (simp add: i len)
  moreover have "x' = ?y\<lparr>xc_index := (xc_index ?y)[i := ?k + 1]\<rparr>" by (simp add: x' slot_put_def)
  ultimately have "xcfg_wf plan x'" by simp
  moreover have "length (xc_current x) = length (xc_tasks x)" "length (xc_index x) = length (xc_tasks x)"
    using wf xcfg_wf_length [OF wf] by (simp_all add: xcfg_wf_def Let_def)
  ultimately show ?thesis using i True free
    by (auto simp: slot_step_def same_slot_def slot_ok_def slot_free_def x' slot_put_def)
qed

lemma finish_slot:
  assumes wf: "xcfg_wf plan x" and i: "i < length (xc_tasks x)" and ok: "slot_ok i x" and cur: "xc_current x ! i = Some k"
    and par: "params c = params (slot_cfg i k x)"
  shows "slot_step plan i x (slot_put i k c x)" and "slot_ok i (slot_put i k c x)"
    and "CollectiveDone (tc_task c) \<Longrightarrow> slot_step plan i x ((slot_put i k c x)\<lparr>xc_active := xc_active (slot_put i k c x) - 1,
      xc_current := (xc_current (slot_put i k c x))[i := None]\<rparr>)"
    and "CollectiveDone (tc_task c) \<Longrightarrow> slot_free i ((slot_put i k c x)\<lparr>xc_active := xc_active (slot_put i k c x) - 1,
      xc_current := (xc_current (slot_put i k c x))[i := None]\<rparr>)"
proof -
  have k: "k < length (xc_tasks x ! i)" "xc_index x ! i = Suc k" "\<forall>j<k. CollectiveDone (xc_tasks x ! i ! j)"
    using ok cur by (simp_all add: slot_ok_def Let_def)
  have wf1: "xcfg_wf plan (slot_put i k c x)" by (rule slot_put_wf [OF wf i k(1) par])
  have len: "length (xc_current x) = length (xc_tasks x)" using wf xcfg_wf_length [OF wf] by (simp add: xcfg_wf_def Let_def)
  show "slot_step plan i x (slot_put i k c x)" using wf1 by (auto simp: slot_step_def same_slot_def slot_put_def)
  show "slot_ok i (slot_put i k c x)" using k i cur by (simp add: slot_ok_def slot_put_def Let_def)
  have "xcfg_wf plan ((slot_put i k c x)\<lparr>xc_active := xc_active (slot_put i k c x) - 1, xc_current := (xc_current (slot_put i k c x))[i := None]\<rparr>)"
    using current_wf(2) [OF wf1, of i] i cur by (simp add: slot_put_def)
  then show "slot_step plan i x ((slot_put i k c x)\<lparr>xc_active := xc_active (slot_put i k c x) - 1,
      xc_current := (xc_current (slot_put i k c x))[i := None]\<rparr>)"
    by (auto simp: slot_step_def same_slot_def slot_put_def)
  show "slot_free i ((slot_put i k c x)\<lparr>xc_active := xc_active (slot_put i k c x) - 1,
      xc_current := (xc_current (slot_put i k c x))[i := None]\<rparr>)" if "CollectiveDone (tc_task c)"
    using k i len that by (auto simp: slot_free_def slot_put_def nth_list_update less_Suc_eq)
qed

lemma slot_done:
  assumes "xcfg_wf plan x" and "\<forall>i < length (xc_tasks x). slot_ok i x" and "xc_active x = 0"
  shows "\<forall>ts \<in> set (xc_tasks x). \<forall>t \<in> set ts. CollectiveDone t"
proof -
  have "filter (\<lambda>c. c \<noteq> None) (xc_current x) = []" and len: "length (xc_current x) = length (xc_tasks x)"
    using assms(1,3) xcfg_wf_length [OF assms(1)] by (simp_all add: xcfg_wf_def Let_def)
  then have "xc_current x ! i = None" if "i < length (xc_tasks x)" for i
    using that by (auto simp: filter_empty_conv)
  moreover have "slot_ok i x" if "i < length (xc_tasks x)" for i using assms(2) that by blast
  ultimately have "\<forall>k < length (xc_tasks x ! i). CollectiveDone (xc_tasks x ! i ! k)" if "i < length (xc_tasks x)" for i
    using that by (simp add: slot_ok_def Let_def)
  then show ?thesis by (metis in_set_conv_nth)
qed

subsection \<open>Polling\<close>

abbreviation all_slots_ok :: "CollPlan \<Rightarrow> 'e xcfg \<Rightarrow> bool" where
  "all_slots_ok plan x \<equiv> xcfg_wf plan x \<and> (\<forall>i < length (pl_channels plan). slot_ok i x)"

lemma polling_slot_step:
  assumes run: "polling_slot rt ctx i x = Some x'" and wf: "xcfg_wf plan x" and i: "i < length (xc_tasks x)" and ok: "slot_ok i x"
  shows "slot_step plan i x x' \<and> slot_ok i x'"
proof (cases "xc_current x ! i")
  case None
  with run have "x' = x" by (simp add: polling_slot_def)
  with ok wf show ?thesis by (simp add: slot_step_def same_slot_def)
next
  case (Some k)
  with run obtain c where iter: "execute_iter rt ctx (slot_cfg i k x) = Some c" by (auto simp: polling_slot_def split: option.splits)
  note fin = finish_slot [OF wf i ok Some execute_iter_params [OF iter]]
  let ?x2 = "(slot_put i k c x)\<lparr>xc_active := xc_active (slot_put i k c x) - 1, xc_current := (xc_current (slot_put i k c x))[i := None]\<rparr>"
  show ?thesis
  proof (cases "CollectiveDone (tc_task c)")
    case False
    with run Some iter fin show ?thesis by (simp add: polling_slot_def)
  next
    case True
    have wf2: "xcfg_wf plan ?x2" using fin(3) [OF True] by (simp add: slot_step_def)
    have len: "i < length (xc_tasks ?x2)" using i by (simp add: slot_put_def)
    show ?thesis
    proof (cases "xc_index ?x2 ! i < length (xc_tasks ?x2 ! i)")
      case more: True
      with run Some iter True have "StartFrontTask rt ctx i ?x2 = Some x'" by (simp add: polling_slot_def Let_def)
      from StartFrontTask_step [OF this wf2 len fin(4) [OF True]] fin(3) [OF True] show ?thesis using slot_step_trans by blast
    next
      case False
      with run Some iter True have "x' = ?x2" by (simp add: polling_slot_def Let_def)
      moreover have "slot_ok i ?x2" using fin(4) [OF True] False by (simp add: slot_ok_def slot_free_def Let_def)
      ultimately show ?thesis using fin(3) [OF True] by simp
    qed
  qed
qed

text \<open>A loop over all slots whose body keeps or establishes the invariant of its slot.\<close>

lemma slots_loop:
  assumes run: "for_opt f [0..<n] x = Some x'" and wf: "xcfg_wf plan x" and n: "n = length (pl_channels plan)"
    and pre: "\<forall>i < n. Q i x"
    and stable: "\<And>i x x'. same_slot i x x' \<Longrightarrow> Q i x' = Q i x"
    and step: "\<And>i x x'. i < n \<Longrightarrow> xcfg_wf plan x \<Longrightarrow> Q i x \<Longrightarrow> f i x = Some x' \<Longrightarrow> slot_step plan i x x' \<and> slot_ok i x'"
  shows "all_slots_ok plan x'"
proof -
  have "xcfg_wf plan y \<and> (\<forall>i < m. slot_ok i y) \<and> (\<forall>i < n. m \<le> i \<longrightarrow> Q i y)"
    if "m \<le> n" "for_opt f [0..<m] x = Some y" for m y
    using that
  proof (induction m arbitrary: y)
    case 0
    then show ?case using wf pre by simp
  next
    case (Suc m)
    then obtain z where z: "for_opt f [0..<m] x = Some z" "f m z = Some y" by (auto simp: for_opt_append split: option.splits)
    with Suc have IH: "xcfg_wf plan z" "\<forall>i < m. slot_ok i z" "\<forall>i < n. m \<le> i \<longrightarrow> Q i z" by auto
    with step [of m z y] z(2) Suc.prems(1) have s: "slot_step plan m z y" "slot_ok m y" by auto
    then have same: "same_slot i z y" if "i \<noteq> m" for i using that by (simp add: slot_step_def)
    have "slot_ok i y" if "i < Suc m" for i using that IH(2) s(2) same_slot_ok(1) [OF same, of i] by (cases "i = m") auto
    moreover have "Q i y" if "i < n" "Suc m \<le> i" for i using that IH(3) stable [OF same, of i] by auto
    ultimately show ?case using s by (auto simp: slot_step_def)
  qed
  from this [OF order_refl run] n show ?thesis by simp
qed

lemma polling_loop_ok:
  assumes "polling_loop rt ctx x = Some r"
  shows "all_slots_ok plan x \<longrightarrow> (\<forall>x'. r = Some x' \<longrightarrow> all_slots_ok plan x' \<and> xc_active x' = 0)"
proof (rule polling_loop.raw_induct [of "\<lambda>rt ctx x r. all_slots_ok plan x \<longrightarrow> (\<forall>x'. r = Some x' \<longrightarrow> all_slots_ok plan x' \<and> xc_active x' = 0)"
      "((rt, ctx), x)" r, unfolded prod.case, OF _ assms])
  fix loop and rt :: "'a runtime" and ctx x r
  assume IH: "\<And>rt ctx x r. loop rt ctx x = Some r \<Longrightarrow> all_slots_ok plan x \<longrightarrow> (\<forall>x'. r = Some x' \<longrightarrow> all_slots_ok plan x' \<and> xc_active x' = 0)"
    and run: "(if 0 < xc_active x then case for_opt (polling_slot rt ctx) [0..<length (xc_tasks x)] x of
        None \<Rightarrow> Some None | Some x' \<Rightarrow> loop rt ctx x' else Some (Some x)) = Some r"
  show "all_slots_ok plan x \<longrightarrow> (\<forall>x'. r = Some x' \<longrightarrow> all_slots_ok plan x' \<and> xc_active x' = 0)"
  proof (cases "0 < xc_active x")
    case True
    show ?thesis
    proof (cases "for_opt (polling_slot rt ctx) [0..<length (xc_tasks x)] x")
      case (Some y)
      have "all_slots_ok plan y" if ok: "all_slots_ok plan x"
      proof (rule slots_loop [OF Some])
        show "xcfg_wf plan x" "\<forall>i < length (xc_tasks x). slot_ok i x" "length (xc_tasks x) = length (pl_channels plan)"
          using ok xcfg_wf_length [of plan x] by auto
        show "slot_step plan i a b \<and> slot_ok i b" if "i < length (xc_tasks x)" "xcfg_wf plan a" "slot_ok i a"
            "polling_slot rt ctx i a = Some b" for i a b
          using that ok xcfg_wf_length [of plan x] xcfg_wf_length [of plan a] by (intro polling_slot_step) auto
      qed (rule same_slot_ok(1))
      moreover from run True Some have "loop rt ctx y = Some r" by simp
      note IH [OF this]
      ultimately show ?thesis by blast
    qed (use run True in auto)
  qed (use run in auto)
qed

lemma xcfg_start_ok: "xcfg_wf plan (xcfg_start plan h e)" "i < length (pl_channels plan) \<Longrightarrow> slot_free i (xcfg_start plan h e)"
    "xc_tasks (xcfg_start plan h e) = map cp_tasks (pl_channels plan)"
  by (simp_all add: xcfg_wf_def xcfg_start_def slot_free_def Let_def)

text \<open>The tasks of a plan, stripped of their execution state.\<close>

definition plan_tasks :: "CollPlan \<Rightarrow> PlanTask list list" where
  "plan_tasks plan = map (\<lambda>ch. map strip (cp_tasks ch)) (pl_channels plan)"

lemma all_slots_done:
  "all_slots_ok plan x \<Longrightarrow> xc_active x = 0 \<Longrightarrow>
     map (map strip) (xc_tasks x) = plan_tasks plan \<and> (\<forall>ts \<in> set (xc_tasks x). \<forall>t \<in> set ts. CollectiveDone t)"
  using slot_done [of plan x] xcfg_wf_length [of plan x] by (auto simp: plan_tasks_def xcfg_wf_def Let_def)


end
