(* ===== verification/Occl_Epoll_Correct.thy ===== *)
theory Occl_Epoll_Correct
  imports Occl_Polling_Correct
begin

section \<open>The epoll executor cleans up\<close>

text \<open>
  The locale says what \<open>epoll_ctl\<close> does to the set of registered descriptors. Under it every descriptor registered
  while a plan runs belongs to a task in progress, so that after \<open>Run\<close>, on success and on every failure, none is left.
\<close>

definition fds_of :: "'k epoll_os \<Rightarrow> transport_ref list \<Rightarrow> int set" where
  "fds_of os trs = {ep_fd os t |t. t \<in> set trs \<and> t \<noteq> 0 \<and> 0 \<le> ep_fd os t}"

definition task_fds :: "'k epoll_os \<Rightarrow> PlanTask \<Rightarrow> int set" where
  "task_fds os t = fds_of os (pt_recv_transports t) \<union> fds_of os (pt_send_transports t)"

definition held :: "'k epoll_os \<Rightarrow> 'e xcfg \<Rightarrow> int set" where
  "held os x = (\<Union>i < length (xc_current x). case xc_current x ! i of None \<Rightarrow> {} | Some c \<Rightarrow> task_fds os (xc_tasks x ! i ! c))"

lemma fds_of_simps [simp]: "fds_of os [] = {}"
  "fds_of os (t # trs) = (if t \<noteq> 0 \<and> 0 \<le> ep_fd os t then {ep_fd os t} else {}) \<union> fds_of os trs"
  by (auto simp: fds_of_def)

locale epoll_kernel =
  fixes os :: "'k epoll_os" and reg :: "'k \<Rightarrow> int set"
  assumes create_law: "ep_create os k = (ok, k') \<Longrightarrow> reg k' = {}"
    and add_law: "ep_add os fd ev tag k = (ok, k') \<Longrightarrow> reg k' = (if ok then insert fd (reg k) else reg k)"
    and del_law: "reg (ep_del os fd k) = reg k - {fd}"
    and wait_law: "ep_wait os n k = (r, k') \<Longrightarrow> reg k' = reg k"
begin

lemma register_all_reg: "register_all os tag trs k = (ok, k') \<Longrightarrow> reg k' \<subseteq> reg k \<union> fds_of os trs"
proof (induction trs arbitrary: k)
  case (Cons t trs)
  show ?case
  proof (cases "t \<noteq> 0 \<and> ep_fd os t \<ge> 0 \<and> ep_events os t \<noteq> (False, False)")
    case True
    obtain a k1 where add: "ep_add os (ep_fd os t) (ep_events os t) tag k = (a, k1)" by fastforce
    with True Cons add_law [OF add] show ?thesis by (cases a) fastforce+
  next
    case False
    with Cons.prems have "register_all os tag trs k = (ok, k')" by auto
    from Cons.IH [OF this] show ?thesis by auto
  qed
qed simp

lemma RegisterTask_reg:
  assumes "RegisterTask os slot t k = (ok, k')"
  shows "reg k' \<subseteq> reg k \<union> task_fds os t"
proof -
  obtain a k1 where first: "register_all os (word_of_nat slot * 2) (pt_recv_transports t) k = (a, k1)" by fastforce
  with assms register_all_reg [OF first] register_all_reg show ?thesis
    by (cases a) (fastforce simp: RegisterTask_def task_fds_def Let_def)+
qed

lemma unregister_all_reg: "reg (unregister_all os trs k) = reg k - fds_of os trs"
  unfolding unregister_all_def by (induction trs arbitrary: k) (auto simp: del_law)

lemma UnregisterTask_reg: "reg (UnregisterTask os t k) = reg k - task_fds os t"
  by (auto simp: UnregisterTask_def task_fds_def unregister_all_reg)

lemma abort_plan_reg: "reg (abort_plan os x k) = reg k - held os x"
proof -
  let ?f = "\<lambda>slot k. case xc_current x ! slot of None \<Rightarrow> k | Some i \<Rightarrow> UnregisterTask os (xc_tasks x ! slot ! i) k"
  have "reg (fold ?f slots k) = reg k - (\<Union>i \<in> set slots. case xc_current x ! i of None \<Rightarrow> {} | Some c \<Rightarrow> task_fds os (xc_tasks x ! i ! c))" for slots
    by (induction slots arbitrary: k) (auto simp: UnregisterTask_reg split: option.splits)
  from this [of "[0..<length (xc_current x)]"] show ?thesis by (simp add: abort_plan_def held_def atLeast0LessThan)
qed

lemma held_update:
  assumes "\<And>j. j \<noteq> i \<Longrightarrow> same_slot j x x'" and "length (xc_current x') = length (xc_current x)" and "i < length (xc_current x)"
  shows "held os x' - (case xc_current x' ! i of None \<Rightarrow> {} | Some c \<Rightarrow> task_fds os (xc_tasks x' ! i ! c)) \<subseteq> held os x"
    and "held os x \<subseteq> held os x' \<union> (case xc_current x ! i of None \<Rightarrow> {} | Some c \<Rightarrow> task_fds os (xc_tasks x ! i ! c))"
    and "(case xc_current x' ! i of None \<Rightarrow> {} | Some c \<Rightarrow> task_fds os (xc_tasks x' ! i ! c)) \<subseteq> held os x'"
proof -
  let ?h = "\<lambda>y j. case xc_current y ! j of None \<Rightarrow> {} | Some c \<Rightarrow> task_fds os (xc_tasks y ! j ! c)"
  have same: "?h x' j = ?h x j" if "j \<noteq> i" for j using assms(1) [OF that] by (simp add: same_slot_def split: option.splits)
  have "z \<in> held os x" if "z \<in> held os x'" "z \<notin> ?h x' i" for z
  proof -
    from that obtain j where j: "j < length (xc_current x)" "z \<in> ?h x' j" unfolding held_def assms(2) by blast
    with that(2) have "j \<noteq> i" by blast
    with j same show ?thesis unfolding held_def by blast
  qed
  then show "held os x' - ?h x' i \<subseteq> held os x" by blast
  have "z \<in> held os x' \<or> z \<in> ?h x i" if "z \<in> held os x" for z
  proof -
    from that obtain j where j: "j < length (xc_current x)" "z \<in> ?h x j" unfolding held_def by blast
    then show ?thesis using same [of j] unfolding held_def assms(2) by (cases "j = i") blast+
  qed
  then show "held os x \<subseteq> held os x' \<union> ?h x i" by blast
  show "?h x' i \<subseteq> held os x'" using assms(3) unfolding held_def assms(2) by blast
qed

text \<open>Starting the next task of a free slot.\<close>

lemma epoll_start_inv:
  "epoll_start rt ctx os i x k = (ok, x', k') \<Longrightarrow> xcfg_wf plan x \<Longrightarrow> i < length (pl_channels plan) \<Longrightarrow> slot_free i x \<Longrightarrow> reg k \<subseteq> held os x \<Longrightarrow>
     reg k' \<subseteq> held os x' \<and> (ok \<longrightarrow> slot_step plan i x x' \<and> slot_ok i x')"
proof (induction "length (xc_tasks x ! i) - xc_index x ! i" arbitrary: x rule: less_induct)
  case less
  note wf = less.prems(2) and free = less.prems(4) and r = less.prems(5)
  have len: "length (xc_tasks x) = length (pl_channels plan)" "length (xc_index x) = length (pl_channels plan)"
    "length (xc_current x) = length (pl_channels plan)"
    using wf xcfg_wf_length [OF wf] by (simp_all add: xcfg_wf_def Let_def)
  let ?m = "xc_index x ! i"
  show ?case
  proof (cases "?m < length (xc_tasks x ! i)")
    case False
    with less.prems(1,3) len have "ok" "x' = x" "k' = k" by (auto simp: epoll_start.simps [of rt ctx os i x k] Let_def)
    with False free wf r show ?thesis by (simp add: slot_step_def same_slot_def slot_ok_def slot_free_def Let_def)
  next
    case True
    show ?thesis
    proof (cases "if pt_topology (xc_tasks x ! i ! ?m) = None then None else CollectiveInit rt ctx (slot_cfg i ?m x)")
      case None
      with less.prems(1,3) len True have "\<not> ok" "x' = x" "k' = k" by (auto simp: epoll_start.simps [of rt ctx os i x k] Let_def)
      with r show ?thesis by simp
    next
      case (Some c)
      then have init: "CollectiveInit rt ctx (slot_cfg i ?m x) = Some c" by (simp split: if_splits)
      let ?x1 = "(slot_put i ?m c x)\<lparr>xc_index := (xc_index x)[i := ?m + 1]\<rparr>"
      have wf0: "xcfg_wf plan (slot_put i ?m c x)"
        using slot_put_wf [OF wf _ True CollectiveInit_params [OF init]] less.prems(3) len by simp
      have "xcfg_wf plan ((slot_put i ?m c x)\<lparr>xc_index := (xc_index (slot_put i ?m c x))[i := ?m + 1]\<rparr>)"
        by (rule current_wf(3) [OF wf0]) (simp add: slot_put_def len less.prems(3))
      then have wf1: "xcfg_wf plan ?x1" by (simp add: slot_put_def)
      have step1: "slot_step plan i x ?x1" using wf1 by (auto simp: slot_step_def same_slot_def slot_put_def)
      have cur: "xc_current ?x1 ! i = None" "length (xc_current ?x1) = length (xc_current x)" using free by (simp_all add: slot_free_def slot_put_def)
      have held1: "held os x \<subseteq> held os ?x1"
        using held_update(2) [of i x ?x1] step1 cur(2) free less.prems(3) len by (auto simp: slot_step_def slot_free_def)
      show ?thesis
      proof (cases "CollectiveDone (tc_task c)")
        case fin: True
        with Some less.prems(1,3) len True have rest: "epoll_start rt ctx os i ?x1 k = (ok, x', k')"
          by (simp add: epoll_start.simps [of rt ctx os i x k] Let_def)
        have "slot_free i ?x1"
          using free True fin less.prems(3) len by (auto simp: slot_free_def slot_put_def nth_list_update less_Suc_eq)
        moreover have "length (xc_tasks ?x1 ! i) - xc_index ?x1 ! i < length (xc_tasks x ! i) - ?m"
          using True less.prems(3) len by (simp add: slot_put_def)
        ultimately have "reg k' \<subseteq> held os x' \<and> (ok \<longrightarrow> slot_step plan i ?x1 x' \<and> slot_ok i x')"
          using less.hyps [OF _ rest wf1 less.prems(3)] r held1 by blast
        with step1 slot_step_trans show ?thesis by blast
      next
        case False
        let ?x2 = "?x1\<lparr>xc_current := (xc_current ?x1)[i := Some ?m], xc_active := xc_active ?x1 + 1\<rparr>"
        from False Some less.prems(1,3) len True have reg: "RegisterTask os i (tc_task c) k = (ok, k')" and x': "x' = ?x2"
          by (auto simp: epoll_start.simps [of rt ctx os i x k] Let_def split: prod.splits)
        have wf2: "xcfg_wf plan ?x2"
          using current_wf(1) [OF wf1 _ cur(1)] less.prems(3) len by (simp add: slot_put_def)
        have step2: "slot_step plan i ?x1 ?x2" using wf2 by (auto simp: slot_step_def same_slot_def slot_put_def)
        have ok2: "slot_ok i ?x2"
          using free True less.prems(3) len by (auto simp: slot_ok_def slot_free_def slot_put_def nth_list_update Let_def)
        have now: "xc_current ?x2 ! i = Some ?m" "xc_tasks ?x2 ! i ! ?m = tc_task c" "length (xc_current ?x2) = length (xc_current ?x1)"
          using True less.prems(3) len by (simp_all add: slot_put_def)
        have "held os ?x1 \<subseteq> held os ?x2" "task_fds os (tc_task c) \<subseteq> held os ?x2"
          using held_update(2,3) [of i ?x1 ?x2] step2 cur now less.prems(3) len by (auto simp: slot_step_def)
        with RegisterTask_reg [OF reg] r held1 have "reg k' \<subseteq> held os x'" unfolding x' by blast
        with ok2 slot_step_trans [OF step1 step2] show ?thesis unfolding x' by simp
      qed
    qed
  qed
qed

lemma epoll_start_failed: "epoll_start rt ctx os i x k = (False, x', k') \<Longrightarrow> xcfg_wf plan x \<Longrightarrow> i < length (pl_channels plan) \<Longrightarrow>
    slot_free i x \<Longrightarrow> reg k \<subseteq> held os x \<Longrightarrow> reg (abort_plan os x' k') = {}"
  using epoll_start_inv [of rt ctx i x k False x' k' plan] abort_plan_reg [of x' k'] by auto

lemma epoll_start_all_inv:
  "epoll_start_all rt ctx os [m..<n] x k = (r, k') \<Longrightarrow> n = length (pl_channels plan) \<Longrightarrow> m \<le> n \<Longrightarrow> xcfg_wf plan x \<Longrightarrow>
     (\<forall>i < m. slot_ok i x) \<Longrightarrow> (\<forall>i < n. m \<le> i \<longrightarrow> slot_free i x) \<Longrightarrow> reg k \<subseteq> held os x \<Longrightarrow>
     (case r of None \<Rightarrow> reg k' = {} | Some x' \<Rightarrow> all_slots_ok plan x' \<and> reg k' \<subseteq> held os x')"
proof (induction "n - m" arbitrary: m x k)
  case 0
  then show ?case by auto
next
  case (Suc d)
  then have m: "m < n" "[m..<n] = m # [Suc m..<n]" by (simp_all add: upt_conv_Cons)
  obtain ok x1 k1 where start: "epoll_start rt ctx os m x k = (ok, x1, k1)" by (cases "epoll_start rt ctx os m x k") auto
  have free: "slot_free m x" using Suc.prems(6) m(1) by simp
  have len: "m < length (pl_channels plan)" using m(1) Suc.prems(2) by simp
  note inv = epoll_start_inv [OF start Suc.prems(4) len free Suc.prems(7)]
  show ?case
  proof (cases ok)
    case False
    with Suc.prems(1) start m(2) have "r = None" "k' = abort_plan os x1 k1" by auto
    with False start epoll_start_failed [OF _ Suc.prems(4) len free Suc.prems(7)] show ?thesis by auto
  next
    case True
    with inv have step: "slot_step plan m x x1" "slot_ok m x1" and r1: "reg k1 \<subseteq> held os x1" by auto
    have same: "same_slot i x x1" if "i \<noteq> m" for i using step(1) that by (simp add: slot_step_def)
    have "slot_ok i x1" if "i < Suc m" for i
      using that Suc.prems(5) step(2) same_slot_ok(1) [OF same, of i] by (cases "i = m") auto
    moreover have "slot_free i x1" if "i < n" "Suc m \<le> i" for i
      using that Suc.prems(6) same_slot_ok(2) [OF same, of i] by auto
    moreover have "epoll_start_all rt ctx os [Suc m..<n] x1 k1 = (r, k')" using Suc.prems(1) start True m(2) by simp
    ultimately show ?thesis
      using Suc.hyps(1) [of "Suc m" x1 k1] Suc.hyps(2) Suc.prems(2) m(1) step(1) r1 by (simp add: slot_step_def)
  qed
qed

definition epoll_inv :: "CollPlan \<Rightarrow> 'e xcfg \<Rightarrow> 'k \<Rightarrow> bool" where
  "epoll_inv plan x k \<longleftrightarrow> all_slots_ok plan x \<and> reg k \<subseteq> held os x"

definition epoll_post :: "CollPlan \<Rightarrow> 'e xcfg option \<times> 'k \<Rightarrow> bool" where
  "epoll_post plan res \<longleftrightarrow> (case res of (None, k) \<Rightarrow> reg k = {} | (Some x, k) \<Rightarrow> epoll_inv plan x k)"

lemma epoll_event_inv:
  assumes inv: "epoll_inv plan x k"
  shows "epoll_post plan (epoll_event rt ctx os ev x k)"
proof -
  let ?i = "unat (fst ev div 2)"
  have wf: "xcfg_wf plan x" and r: "reg k \<subseteq> held os x" using inv by (simp_all add: epoll_inv_def)
  have len: "length (xc_tasks x) = length (pl_channels plan)" "length (xc_current x) = length (pl_channels plan)"
    using wf xcfg_wf_length [OF wf] by (simp_all add: xcfg_wf_def Let_def)
  have same: "epoll_post plan (Some x, k)" using inv by (simp add: epoll_post_def)
  show ?thesis
  proof (cases "?i < length (xc_current x) \<and> xc_current x ! ?i \<noteq> None")
    case False
    with same show ?thesis by (auto simp: epoll_event_def Let_def split: option.splits)
  next
    case True
    then obtain c where i: "?i < length (pl_channels plan)" and c: "xc_current x ! ?i = Some c" using len by auto
    let ?side = "fst ev mod 2" and ?task = "xc_tasks x ! ?i ! c"
    have ok: "slot_ok ?i x" using inv i by (simp add: epoll_inv_def)
    show ?thesis
    proof (cases "epoll_ready os (if ?side = 0 then pt_recv_transports ?task else pt_send_transports ?task) (snd ev)")
      case False
      with same True c show ?thesis by (auto simp: epoll_event_def Let_def)
    next
      case ready: True
      let ?step = "CollectiveStep rt ctx (if ?side = 0 then Readable else Writable) (slot_cfg ?i c x)"
      show ?thesis
      proof (cases ?step)
        case None
        then have "epoll_event rt ctx os ev x k = (None, abort_plan os x k)"
          using True c ready by (simp add: epoll_event_def Let_def)
        then show ?thesis using abort_plan_reg [of x k] r by (auto simp: epoll_post_def)
      next
        case (Some t)
        note par = CollectiveStep_params [OF Some]
        have put: "slot_step plan ?i x (slot_put ?i c t x)" "slot_ok ?i (slot_put ?i c t x)"
          and freed: "CollectiveDone (tc_task t) \<Longrightarrow> slot_step plan ?i x ((slot_put ?i c t x)\<lparr>xc_active := xc_active (slot_put ?i c t x) - 1,
            xc_current := (xc_current (slot_put ?i c t x))[?i := None]\<rparr>)"
            "CollectiveDone (tc_task t) \<Longrightarrow> slot_free ?i ((slot_put ?i c t x)\<lparr>xc_active := xc_active (slot_put ?i c t x) - 1,
            xc_current := (xc_current (slot_put ?i c t x))[?i := None]\<rparr>)"
          using finish_slot [OF wf _ ok c par] i len by auto
        have fds: "task_fds os (tc_task t) = task_fds os ?task"
          using params_fields(4,5) [OF par] by (simp add: task_fds_def slot_cfg_def)
        show ?thesis
        proof (cases "CollectiveDone (tc_task t)")
          case False
          let ?x1 = "slot_put ?i c t x"
          have run: "epoll_event rt ctx os ev x k = (Some ?x1, k)"
            using True c ready Some False by (simp add: epoll_event_def Let_def)
          have cur: "xc_current ?x1 ! ?i = Some c" "length (xc_current ?x1) = length (xc_current x)" using c by (simp_all add: slot_put_def)
          have "c < length (xc_tasks x ! ?i)" using ok c by (simp add: slot_ok_def Let_def)
          then have task: "xc_tasks ?x1 ! ?i ! c = tc_task t" using i len by (simp add: slot_put_def)
          have "held os x \<subseteq> held os ?x1"
            using held_update(2,3) [of ?i x ?x1] put(1) cur c task fds i len by (auto simp: slot_step_def)
          moreover have "slot_ok j ?x1" if "j < length (pl_channels plan)" for j
            using that put inv same_slot_ok(1) [of j x ?x1] by (cases "j = ?i") (auto simp: slot_step_def epoll_inv_def)
          ultimately show ?thesis unfolding run using put(1) r by (auto simp: epoll_post_def epoll_inv_def slot_step_def)
        next
          case fin: True
          let ?x2 = "(slot_put ?i c t x)\<lparr>xc_active := xc_active (slot_put ?i c t x) - 1, xc_current := (xc_current (slot_put ?i c t x))[?i := None]\<rparr>"
          let ?k2 = "UnregisterTask os (tc_task t) k"
          note x2 = freed [OF fin]
          have cur2: "xc_current ?x2 ! ?i = None" "length (xc_current ?x2) = length (xc_current x)" using i len by (simp_all add: slot_put_def)
          have "held os x \<subseteq> held os ?x2 \<union> task_fds os ?task"
            using held_update(2) [of ?i x ?x2] x2(1) cur2 c i len by (auto simp: slot_step_def)
          then have r2: "reg ?k2 \<subseteq> held os ?x2" using r fds UnregisterTask_reg [of "tc_task t" k] by blast
          obtain ok3 x3 k3 where start: "epoll_start rt ctx os ?i ?x2 ?k2 = (ok3, x3, k3)"
            by (cases "epoll_start rt ctx os ?i ?x2 ?k2") auto
          have run: "epoll_event rt ctx os ev x k = (if ok3 then (Some x3, k3) else (None, abort_plan os x3 k3))"
            using True c ready Some fin start by (simp add: epoll_event_def Let_def)
          have wf2: "xcfg_wf plan ?x2" using x2(1) by (simp add: slot_step_def)
          note inv3 = epoll_start_inv [OF start wf2 i x2(2) r2]
          show ?thesis
          proof (cases ok3)
            case True
            with inv3 slot_step_trans [OF x2(1)] have s3: "slot_step plan ?i x x3" "slot_ok ?i x3" "reg k3 \<subseteq> held os x3" by auto
            have "slot_ok j x3" if "j < length (pl_channels plan)" for j
              using that s3 inv same_slot_ok(1) [of j x x3] by (cases "j = ?i") (auto simp: slot_step_def epoll_inv_def)
            with s3 True show ?thesis unfolding run by (simp add: epoll_post_def epoll_inv_def slot_step_def)
          next
            case False
            with inv3 abort_plan_reg [of x3 k3] show ?thesis unfolding run by (auto simp: epoll_post_def)
          qed
        qed
      qed
    qed
  qed
qed

lemma epoll_events_inv: "epoll_inv plan x k \<Longrightarrow> epoll_post plan (epoll_events rt ctx os evs x k)"
proof (induction evs arbitrary: x k)
  case (Cons ev evs)
  obtain r k1 where ev: "epoll_event rt ctx os ev x k = (r, k1)" by fastforce
  from epoll_event_inv [OF Cons.prems, of rt ctx ev] ev Cons.IH show ?case by (cases r) (auto simp: epoll_post_def)
qed (simp add: epoll_post_def)

lemma epoll_loop_inv:
  assumes "epoll_loop rt ctx os x k = Some res" and "epoll_inv plan x k"
  shows "epoll_post plan res \<and> (\<forall>x' k'. res = (Some x', k') \<longrightarrow> xc_active x' = 0)"
proof -
  let ?P = "\<lambda>rt ctx os' x k res. os' = os \<longrightarrow> epoll_inv plan x k \<longrightarrow> epoll_post plan res \<and> (\<forall>x' k'. res = (Some x', k') \<longrightarrow> xc_active x' = 0)"
  have "?P rt ctx os x k res"
  proof (rule epoll_loop.raw_induct [of ?P "((((rt, ctx), os), x), k)" res, unfolded prod.case, OF _ assms(1)], intro impI)
    fix loop and rt :: "'a runtime" and ctx os' x k res
    assume IH: "\<And>rt ctx os' x k res. loop rt ctx os' x k = Some res \<Longrightarrow> ?P rt ctx os' x k res"
      and run: "(if 0 < xc_active x then
        (case ep_wait os' (length (xc_tasks x) * 2) k of
           (Events evs, k1) \<Rightarrow> (case epoll_events rt ctx os' evs x k1 of
                (None, k2) \<Rightarrow> Some (None, k2) | (Some x1, k2) \<Rightarrow> loop rt ctx os' x1 k2)
         | (WaitInterrupted, k1) \<Rightarrow> loop rt ctx os' x k1
         | (WaitFailed, k1) \<Rightarrow> Some (None, abort_plan os' x k1)) else Some (Some x, k)) = Some res"
      and os': "os' = os" and inv: "epoll_inv plan x k"
    show "epoll_post plan res \<and> (\<forall>x' k'. res = (Some x', k') \<longrightarrow> xc_active x' = 0)"
    proof (cases "0 < xc_active x")
      case True
      obtain w k1 where wait: "ep_wait os (length (xc_tasks x) * 2) k = (w, k1)" by fastforce
      have inv1: "epoll_inv plan x k1" using inv wait_law [OF wait] by (simp add: epoll_inv_def)
      show ?thesis
      proof (cases w)
        case (Events evs)
        obtain r k2 where evs: "epoll_events rt ctx os evs x k1 = (r, k2)" by fastforce
        from epoll_events_inv [OF inv1, of rt ctx evs] evs have post: "epoll_post plan (r, k2)" by simp
        show ?thesis
        proof (cases r)
          case None
          with run True wait Events evs post os' show ?thesis by auto
        next
          case (Some x1)
          with post have "epoll_inv plan x1 k2" by (simp add: epoll_post_def)
          moreover have "loop rt ctx os x1 k2 = Some res" using run True wait Events evs Some os' by simp
          note IH [OF this]
          ultimately show ?thesis by blast
        qed
      next
        case WaitInterrupted
        with run True wait os' have "loop rt ctx os x k1 = Some res" by simp
        from IH [OF this] inv1 show ?thesis by blast
      next
        case WaitFailed
        with run True wait os' have "res = (None, abort_plan os x k1)" by simp
        with abort_plan_reg [of x k1] inv1 show ?thesis by (auto simp: epoll_post_def epoll_inv_def)
      qed
    next
      case False
      with run inv show ?thesis by (auto simp: epoll_post_def)
    qed
  qed
  with assms(2) show ?thesis by simp
qed

lemma all_free:
  assumes "xcfg_wf plan x" and "xc_active x = 0"
  shows "held os x = {}"
proof -
  have "xc_current x ! i = None" if "i < length (xc_current x)" for i
    using assms that by (auto simp: xcfg_wf_def Let_def filter_empty_conv dest: nth_mem)
  then show ?thesis by (simp add: held_def)
qed

lemma Epoll_Run_inv:
  assumes run: "Epoll_Run rt set_mode ctx os created plan h e k = Some (r, k')" and empty: "reg k = {}"
  shows "reg k' = {} \<and> (\<forall>x. r = Some x \<longrightarrow> all_slots_ok plan x \<and> xc_active x = 0)"
proof -
  let ?x = "xcfg_start plan h (SetPlanWaitMode set_mode EventDriven plan e)"
  obtain ok k1 where ensure: "EnsureEpoll os created k = (ok, k1)" by fastforce
  have r1: "reg k1 = {}" using ensure empty create_law by (auto simp: EnsureEpoll_def split: if_splits)
  obtain y k2 where start: "epoll_start_all rt ctx os [0..<length (pl_channels plan)] ?x k1 = (y, k2)" by fastforce
  have post: "case y of None \<Rightarrow> reg k2 = {} | Some x' \<Rightarrow> all_slots_ok plan x' \<and> reg k2 \<subseteq> held os x'"
    by (rule epoll_start_all_inv [OF start]) (simp_all add: xcfg_start_ok r1)
  show ?thesis
  proof (cases "pl_channels plan = []")
    case True
    with run empty show ?thesis by (auto simp: Epoll_Run_def xcfg_start_def Let_def xcfg_wf_def)
  next
    case False
    note unf = Epoll_Run_def Let_def xcfg_start_ok(3) length_map ensure start
    show ?thesis
    proof (cases ok)
      case True
      show ?thesis
      proof (cases y)
        case None
        with run False True post show ?thesis by (simp add: unf)
      next
        case (Some x1)
        with run False True have loop: "epoll_loop rt ctx os x1 k2 = Some (r, k')" by (simp add: unf)
        have "epoll_inv plan x1 k2" using post Some by (simp add: epoll_inv_def)
        from epoll_loop_inv [OF loop this] all_free [of plan] show ?thesis
          by (cases r) (auto simp: epoll_post_def epoll_inv_def)
      qed
    next
      case False
      with run \<open>pl_channels plan \<noteq> []\<close> r1 show ?thesis by (simp add: unf)
    qed
  qed
qed

end

subsection \<open>An epoll instance\<close>

text \<open>The registered descriptors and the events of the coming waits; a descriptor cannot be added twice.\<close>

record epoll_kern =
  ek_reg :: "int list"
  ek_events :: "(32 word \<times> bool \<times> bool) list list"

definition kern_epoll :: "epoll_kern epoll_os" where
  "kern_epoll = \<lparr>ep_create = (\<lambda>k. (True, k\<lparr>ek_reg := []\<rparr>)),
     ep_add = (\<lambda>fd ev tag k. if fd \<in> set (ek_reg k) then (False, k) else (True, k\<lparr>ek_reg := fd # ek_reg k\<rparr>)),
     ep_del = (\<lambda>fd k. k\<lparr>ek_reg := filter (\<lambda>x. x \<noteq> fd) (ek_reg k)\<rparr>),
     ep_wait = (\<lambda>n k. case ek_events k of [] \<Rightarrow> (WaitFailed, k) | evs # rest \<Rightarrow> (Events evs, k\<lparr>ek_events := rest\<rparr>)),
     ep_fd = int, ep_events = (\<lambda>t. (odd t, even t))\<rparr>"

interpretation kern_ep: epoll_kernel kern_epoll "\<lambda>k. set (ek_reg k)"
  by unfold_locales (auto simp: kern_epoll_def split: if_splits list.splits)

text \<open>
  C35. \<open>Run\<close> of the epoll executor leaves no descriptor registered, on success and on every error path, also when
  registering a task fails half way; and if it returns true, every task of the plan is done.
\<close>

theorem Epoll_Run_cleans_up:
  assumes "epoll_kernel os reg" and "reg k = {}" and "Epoll_Run rt set_mode ctx os created plan h e k = Some (r, k')"
  shows "reg k' = {} \<and> (\<forall>x. r = Some x \<longrightarrow> map (map strip) (xc_tasks x) = plan_tasks plan \<and>
    (\<forall>q \<in> set (xc_tasks x). \<forall>t \<in> set q. CollectiveDone t))"
  using epoll_kernel.Epoll_Run_inv [OF assms(1,3,2)] all_slots_done by blast

text \<open>Two ranks add one integer over the script transport: rank 0 receives the sum after one event.\<close>

definition demo_event_plan :: CollPlan where
  "demo_event_plan = \<lparr>pl_channels = [\<lparr>cp_channel_id = 0, cp_tasks = [tc_task demo_ring]\<rparr>], pl_slices = []\<rparr>"


lemma Epoll_Run_cleans_up_witness:
  "\<exists>x k'. Epoll_Run script_rt (\<lambda>_ _ e. e) demo_ctx kern_epoll False demo_event_plan (tc_heap demo_ring) (tc_net demo_ring)
      \<lparr>ek_reg = [], ek_events = [[(0, False, True)], [(1, True, False)]]\<rparr> = Some (Some x, k') \<and> set (ek_reg k') = {} \<and>
      (\<forall>q \<in> set (xc_tasks x). \<forall>t \<in> set q. CollectiveDone t)"
proof -
  let ?k = "\<lparr>ek_reg = [], ek_events = [[(0, False, True)], [(1, True, False)]]\<rparr>"
  let ?run = "Epoll_Run script_rt (\<lambda>_ _ e. e) demo_ctx kern_epoll False demo_event_plan (tc_heap demo_ring) (tc_net demo_ring) ?k"
  have "map_option (\<lambda>(r, k). map_option (\<lambda>_. ()) r) ?run = Some (Some ())" by code_simp
  then obtain x k' where run: "?run = Some (Some x, k')" by auto
  from Epoll_Run_cleans_up [OF kern_ep.epoll_kernel_axioms _ run] run show ?thesis by simp
qed


end
