(* ===== verification/Occl_Reactor.thy ===== *)
theory Occl_Reactor
  imports Occl_Polling
begin

section \<open>The reactor executor\<close>

text \<open>
  \<open>src/executor/reactor_executor.cpp\<close>: the thread that calls \<open>Run\<close> owns the plan's bookkeeping and the epoll
  instance; a fixed set of workers initialises and steps the tasks. Work travels through \<open>work_queue_\<close>, results
  through \<open>completions_\<close>, and a worker that has posted a result writes to an eventfd of the epoll instance. Each
  constructor of the step relation is one critical section or one step between two of them, so every interleaving
  of the threads is a sequence of steps. The state machine of a task runs as one step: while a task is out for work
  no other thread touches it.
\<close>

definition kNotifyTag :: "32 word" where "kNotifyTag = 0xFFFFFFFF"
definition kStepWritable :: "32 word" where "kStepWritable = 1"
definition kStepReadable :: "32 word" where "kStepReadable = 2"

datatype JobState = JobWaiting | JobDone | JobFailed

text \<open>The task pointer of a work item is the index of the task in its channel.\<close>

record WorkItem =
  wi_slot :: nat
  wi_task :: nat
  wi_init :: bool
  wi_steps :: "32 word"

record Completion =
  co_slot :: nat
  co_init :: bool
  co_state :: JobState

text \<open>
  A worker waits, holds an item, has computed its completion, has posted it, or has left. The thread in \<open>Run\<close> is
  outside, starting the remaining slots, at the head of the loop, handing out ready slots, between draining the
  eventfd and taking the completions, working through them, or joining the workers after an error.
\<close>

datatype reactor_pc = RIdle | RHas WorkItem | RDid nat Completion | RPosted | RLeft
datatype reactor_main = ROutside | RStarting "nat list" | RLoop | RDispatch "(nat \<times> 32 word) list" bool | RDrained
  | RCompleting "(nat \<times> Completion) list" | RJoining | RShutdown

text \<open>\<open>active\<close> of \<open>Run\<close> is the field \<^const>\<open>xc_active\<close>. A posted completion is kept with the index of its task.\<close>

record ('e, 'k) reactor =
  re_x :: "'e xcfg"
  re_in_flight :: nat
  re_queue :: "WorkItem list"
  re_completions :: "(nat \<times> Completion) list"
  re_stop :: bool
  re_notify :: nat
  re_workers :: "reactor_pc list"
  re_epoll :: bool
  re_notify_fd :: int
  re_kernel :: 'k
  re_main :: reactor_main

definition reactor_new :: "heap \<Rightarrow> 'e \<Rightarrow> 'k \<Rightarrow> ('e, 'k) reactor" where
  "reactor_new h e k = \<lparr>re_x = \<lparr>xc_tasks = [], xc_current = [], xc_index = [], xc_active = 0, xc_heap = h, xc_net = e\<rparr>,
     re_in_flight = 0, re_queue = [], re_completions = [], re_stop = False, re_notify = 0, re_workers = [], re_epoll = False,
     re_notify_fd = -1, re_kernel = k, re_main = ROutside\<rparr>"

record 'k reactor_os = "'k epoll_os" +
  ro_eventfd :: "'k \<Rightarrow> int \<times> 'k"
  ro_close :: "int \<Rightarrow> 'k \<Rightarrow> 'k"
  ro_close_epoll :: "'k \<Rightarrow> 'k"

text \<open>The result is the eventfd, or \<^term>\<open>None\<close> when a call failed and everything was closed again.\<close>

definition Reactor_EnsureEpoll :: "'k reactor_os \<Rightarrow> bool \<Rightarrow> int \<Rightarrow> 'k \<Rightarrow> int option \<times> 'k" where
  "Reactor_EnsureEpoll os created notify_fd k =
     (if created then (Some notify_fd, k)
      else (case ep_create os k of
        (False, k1) \<Rightarrow> (None, k1)
      | (True, k1) \<Rightarrow>
          (case ro_eventfd os k1 of
             (fd, k2) \<Rightarrow>
               if fd < 0 then (None, ro_close_epoll os k2)
               else (case ep_add os fd (True, False) kNotifyTag k2 of
                 (False, k3) \<Rightarrow> (None, ro_close_epoll os (ro_close os fd k3))
               | (True, k3) \<Rightarrow> (Some fd, k3)))))"

definition Reactor_EnsureWorkers :: "nat \<Rightarrow> reactor_pc list \<Rightarrow> reactor_pc list" where
  "Reactor_EnsureWorkers n ws = (if ws \<noteq> [] then ws else replicate n RIdle)"

subsection \<open>The thread in \<open>Run\<close>\<close>

definition PostWork :: "WorkItem \<Rightarrow> ('e, 'k) reactor \<Rightarrow> ('e, 'k) reactor" where
  "PostWork item st = st\<lparr>re_queue := re_queue st @ [item]\<rparr>"

text \<open>\<open>start_next\<close>; the loop in it returns in its first iteration.\<close>

definition start_next :: "nat \<Rightarrow> ('e, 'k) reactor \<Rightarrow> ('e, 'k) reactor option" where
  "start_next slot st =
     (let x = re_x st; i = xc_index x ! slot in
      if i < length (xc_tasks x ! slot) then
        if pt_topology (xc_tasks x ! slot ! i) = None then None
        else Some (PostWork \<lparr>wi_slot = slot, wi_task = i, wi_init = True, wi_steps = 0\<rparr>
          (st\<lparr>re_x := x\<lparr>xc_index := (xc_index x)[slot := i + 1], xc_current := (xc_current x)[slot := Some i]\<rparr>,
              re_in_flight := re_in_flight st + 1\<rparr>))
      else Some st)"

text \<open>\<open>abort_plan\<close> up to the join of the workers, whose result is that of \<open>Run\<close>: false.\<close>

definition reactor_abort :: "'k epoll_os \<Rightarrow> ('e, 'k) reactor \<Rightarrow> ('e, 'k) reactor" where
  "reactor_abort os st = st\<lparr>re_kernel := abort_plan os (re_x st) (re_kernel st), re_stop := True, re_main := RJoining\<rparr>"

definition Reactor_StopWorkers_end :: "('e, 'k) reactor \<Rightarrow> ('e, 'k) reactor" where
  "Reactor_StopWorkers_end st = st\<lparr>re_workers := [], re_queue := [], re_completions := [], re_stop := False, re_main := ROutside\<rparr>"

text \<open>\<open>Shutdown\<close> closes both descriptors when the workers have gone.\<close>

definition Reactor_close :: "'k reactor_os \<Rightarrow> ('e, 'k) reactor \<Rightarrow> ('e, 'k) reactor" where
  "Reactor_close os st =
     (let k = (if re_notify_fd st \<ge> 0 then ro_close os (re_notify_fd st) (re_kernel st) else re_kernel st) in
      st\<lparr>re_kernel := (if re_epoll st then ro_close_epoll os k else k), re_epoll := False, re_notify_fd := -1\<rparr>)"

text \<open>The loop over the events: the steps each slot is ready for, and whether the eventfd was among them.\<close>

fun collect_events :: "'k epoll_os \<Rightarrow> 'e xcfg \<Rightarrow> (32 word \<times> bool \<times> bool) list \<Rightarrow> 32 word list \<Rightarrow> bool \<Rightarrow> 32 word list \<times> bool" where
  "collect_events os x [] ready notify = (ready, notify)"
| "collect_events os x (ev # evs) ready notify =
     (if fst ev = kNotifyTag then collect_events os x evs ready True
      else
        let slot = unat (fst ev div 2); side = fst ev mod 2 in
        if slot \<ge> length (xc_current x) then collect_events os x evs ready notify
        else (case xc_current x ! slot of
          None \<Rightarrow> collect_events os x evs ready notify
        | Some i \<Rightarrow>
            let task = xc_tasks x ! slot ! i in
            if \<not> epoll_ready os (if side = 0 then pt_recv_transports task else pt_send_transports task) (snd ev)
            then collect_events os x evs ready notify
            else collect_events os x evs (ready[slot := or (ready ! slot) (if side = 0 then kStepReadable else kStepWritable)]) notify))"

text \<open>One slot of the loop that hands the ready tasks to the workers.\<close>

definition dispatch_slot :: "'k epoll_os \<Rightarrow> nat \<Rightarrow> 32 word \<Rightarrow> ('e, 'k) reactor \<Rightarrow> ('e, 'k) reactor" where
  "dispatch_slot os slot steps st =
     (case xc_current (re_x st) ! slot of
        None \<Rightarrow> st
      | Some i \<Rightarrow>
          if steps = 0 then st
          else PostWork \<lparr>wi_slot = slot, wi_task = i, wi_init = False, wi_steps = steps\<rparr>
            (st\<lparr>re_kernel := UnregisterTask os (xc_tasks (re_x st) ! slot ! i) (re_kernel st), re_in_flight := re_in_flight st + 1\<rparr>))"

text \<open>The slot of a finished task is free; a task that ends in its first job was never counted as active.\<close>

definition free_slot :: "nat \<Rightarrow> bool \<Rightarrow> 'e xcfg \<Rightarrow> 'e xcfg" where
  "free_slot slot first x =
     x\<lparr>xc_active := (if first then xc_active x else xc_active x - 1), xc_current := (xc_current x)[slot := None]\<rparr>"

text \<open>One completion; \<^term>\<open>None\<close> is the state to abort from.\<close>

definition complete_job :: "'k epoll_os \<Rightarrow> Completion \<Rightarrow> ('e, 'k) reactor \<Rightarrow> ('e, 'k) reactor \<times> bool" where
  "complete_job os c st0 =
     (let st = st0\<lparr>re_in_flight := re_in_flight st0 - 1\<rparr>; x = re_x st; slot = co_slot c; counted = (\<not> co_init c) in
      case co_state c of
        JobFailed \<Rightarrow> (st, False)
      | JobWaiting \<Rightarrow>
          (case RegisterTask os slot (xc_tasks x ! slot ! the (xc_current x ! slot)) (re_kernel st) of
             (False, k) \<Rightarrow> (st\<lparr>re_kernel := k\<rparr>, False)
           | (True, k) \<Rightarrow> (st\<lparr>re_kernel := k, re_x := (if counted then x else x\<lparr>xc_active := xc_active x + 1\<rparr>)\<rparr>, True))
      | JobDone \<Rightarrow>
          let st1 = st\<lparr>re_x := free_slot slot (co_init c) x\<rparr> in
          (case start_next slot st1 of None \<Rightarrow> (st1, False) | Some st2 \<Rightarrow> (st2, True)))"

subsection \<open>The workers\<close>

text \<open>The work on an item; \<^term>\<open>None\<close> is a failure.\<close>

definition do_work :: "'e runtime \<Rightarrow> topo_ctx \<Rightarrow> WorkItem \<Rightarrow> 'e tcfg \<Rightarrow> 'e tcfg option" where
  "do_work rt ctx item c =
     (if pt_topology (tc_task c) = None then None
      else if wi_init item then CollectiveInit rt ctx c
      else Option.bind (if and (wi_steps item) kStepWritable \<noteq> 0 then CollectiveStep rt ctx Writable c else Some c)
             (\<lambda>c1. if and (wi_steps item) kStepReadable \<noteq> 0 then CollectiveStep rt ctx Readable c1 else Some c1))"

definition completion_of :: "WorkItem \<Rightarrow> JobState \<Rightarrow> Completion" where
  "completion_of item js = \<lparr>co_slot = wi_slot item, co_init = wi_init item, co_state = js\<rparr>"

definition put_worker :: "nat \<Rightarrow> reactor_pc \<Rightarrow> ('e, 'k) reactor \<Rightarrow> ('e, 'k) reactor" where
  "put_worker w pc st = st\<lparr>re_workers := (re_workers st)[w := pc]\<rparr>"

subsection \<open>All interleavings\<close>

datatype reactor_event = RCalled CollPlan | RReturned bool | RWorked nat nat | RInternal

text \<open>A failed step leaves the task's state and the memory it writes unspecified.\<close>

inductive reactor_step ::
  "'e runtime \<Rightarrow> topo_ctx \<Rightarrow> 'k reactor_os \<Rightarrow> nat \<Rightarrow> ('e, 'k) reactor \<Rightarrow> reactor_event \<Rightarrow> ('e, 'k) reactor \<Rightarrow> bool"
  for rt ctx os n where
  call_no_epoll: "re_main st = ROutside \<Longrightarrow> pl_channels (plan :: CollPlan) \<noteq> [] \<Longrightarrow>
    Reactor_EnsureEpoll os (re_epoll st) (re_notify_fd st) (re_kernel st) = (None, k) \<Longrightarrow>
    reactor_step rt ctx os n st RInternal (st\<lparr>re_kernel := k, re_epoll := False, re_notify_fd := -1\<rparr>)"
| call: "re_main st = ROutside \<Longrightarrow> pl_channels plan \<noteq> [] \<Longrightarrow>
    Reactor_EnsureEpoll os (re_epoll st) (re_notify_fd st) (re_kernel st) = (Some fd, k) \<Longrightarrow>
    reactor_step rt ctx os n st (RCalled plan)
      (st\<lparr>re_kernel := k, re_epoll := True, re_notify_fd := fd, re_workers := Reactor_EnsureWorkers n (re_workers st),
          re_x := xcfg_start plan (xc_heap (re_x st)) (xc_net (re_x st)), re_in_flight := 0,
          re_main := RStarting [0..<length (pl_channels plan)]\<rparr>)"
| start: "re_main st = RStarting (slot # slots) \<Longrightarrow> start_next slot st = Some st' \<Longrightarrow>
    reactor_step rt ctx os n st RInternal (st'\<lparr>re_main := RStarting slots\<rparr>)"
| start_failed: "re_main st = RStarting (slot # slots) \<Longrightarrow> start_next slot st = None \<Longrightarrow>
    reactor_step rt ctx os n st RInternal (reactor_abort (epoll_os.truncate os) st)"
| started: "re_main st = RStarting [] \<Longrightarrow> reactor_step rt ctx os n st RInternal (st\<lparr>re_main := RLoop\<rparr>)"
| finished: "re_main st = RLoop \<Longrightarrow> xc_active (re_x st) = 0 \<Longrightarrow> re_in_flight st = 0 \<Longrightarrow>
    reactor_step rt ctx os n st (RReturned True) (st\<lparr>re_main := ROutside\<rparr>)"
| waited: "re_main st = RLoop \<Longrightarrow> 0 < xc_active (re_x st) \<or> 0 < re_in_flight st \<Longrightarrow>
    ep_wait os (2 * length (xc_tasks (re_x st)) + 1) (re_kernel st) = (Events evs, k) \<Longrightarrow>
    collect_events (epoll_os.truncate os) (re_x st) evs (replicate (length (xc_current (re_x st))) 0) False = (ready, notify) \<Longrightarrow>
    reactor_step rt ctx os n st RInternal (st\<lparr>re_kernel := k, re_main := RDispatch (enumerate 0 ready) notify\<rparr>)"
| wait_interrupted: "re_main st = RLoop \<Longrightarrow> 0 < xc_active (re_x st) \<or> 0 < re_in_flight st \<Longrightarrow>
    ep_wait os (2 * length (xc_tasks (re_x st)) + 1) (re_kernel st) = (WaitInterrupted, k) \<Longrightarrow>
    reactor_step rt ctx os n st RInternal (st\<lparr>re_kernel := k\<rparr>)"
| wait_failed: "re_main st = RLoop \<Longrightarrow> 0 < xc_active (re_x st) \<or> 0 < re_in_flight st \<Longrightarrow>
    ep_wait os (2 * length (xc_tasks (re_x st)) + 1) (re_kernel st) = (WaitFailed, k) \<Longrightarrow>
    reactor_step rt ctx os n st RInternal (reactor_abort (epoll_os.truncate os) (st\<lparr>re_kernel := k\<rparr>))"
| dispatch: "re_main st = RDispatch ((slot, steps) # ready) notify \<Longrightarrow>
    reactor_step rt ctx os n st RInternal ((dispatch_slot (epoll_os.truncate os) slot steps st)\<lparr>re_main := RDispatch ready notify\<rparr>)"
| dispatched: "re_main st = RDispatch [] False \<Longrightarrow> reactor_step rt ctx os n st RInternal (st\<lparr>re_main := RLoop\<rparr>)"
| drain: "re_main st = RDispatch [] True \<Longrightarrow> reactor_step rt ctx os n st RInternal (st\<lparr>re_notify := 0, re_main := RDrained\<rparr>)"
| swap: "re_main st = RDrained \<Longrightarrow>
    reactor_step rt ctx os n st RInternal (st\<lparr>re_completions := [], re_main := RCompleting (re_completions st)\<rparr>)"
| complete: "re_main st = RCompleting ((i, c) # cs) \<Longrightarrow> complete_job (epoll_os.truncate os) c st = (st', True) \<Longrightarrow>
    reactor_step rt ctx os n st RInternal (st'\<lparr>re_main := RCompleting cs\<rparr>)"
| complete_failed: "re_main st = RCompleting ((i, c) # cs) \<Longrightarrow> complete_job (epoll_os.truncate os) c st = (st', False) \<Longrightarrow>
    reactor_step rt ctx os n st RInternal (reactor_abort (epoll_os.truncate os) st')"
| completed: "re_main st = RCompleting [] \<Longrightarrow> reactor_step rt ctx os n st RInternal (st\<lparr>re_main := RLoop\<rparr>)"
| joined: "re_main st = RJoining \<Longrightarrow> list_all (\<lambda>w. w = RLeft) (re_workers st) \<Longrightarrow>
    reactor_step rt ctx os n st (RReturned False) (Reactor_StopWorkers_end st)"
| shutdown: "re_main st = ROutside \<Longrightarrow>
    reactor_step rt ctx os n st RInternal (st\<lparr>re_stop := True, re_main := RShutdown\<rparr>)"
| shut: "re_main st = RShutdown \<Longrightarrow> list_all (\<lambda>w. w = RLeft) (re_workers st) \<Longrightarrow>
    reactor_step rt ctx os n st RInternal (Reactor_close os (Reactor_StopWorkers_end st))"
| take: "w < length (re_workers st) \<Longrightarrow> re_workers st ! w = RIdle \<Longrightarrow> \<not> re_stop st \<Longrightarrow> re_queue st = item # items \<Longrightarrow>
    reactor_step rt ctx os n st RInternal (put_worker w (RHas item) (st\<lparr>re_queue := items\<rparr>))"
| leave: "w < length (re_workers st) \<Longrightarrow> re_workers st ! w = RIdle \<Longrightarrow> re_stop st \<Longrightarrow>
    reactor_step rt ctx os n st RInternal (put_worker w RLeft st)"
| worked: "w < length (re_workers st) \<Longrightarrow> re_workers st ! w = RHas item \<Longrightarrow>
    do_work rt ctx item (slot_cfg (wi_slot item) (wi_task item) (re_x st)) = Some c \<Longrightarrow>
    reactor_step rt ctx os n st (RWorked (wi_slot item) (wi_task item))
      (put_worker w (RDid (wi_task item) (completion_of item (if CollectiveDone (tc_task c) then JobDone else JobWaiting)))
        (st\<lparr>re_x := slot_put (wi_slot item) (wi_task item) c (re_x st)\<rparr>))"
| work_failed: "w < length (re_workers st) \<Longrightarrow> re_workers st ! w = RHas item \<Longrightarrow>
    do_work rt ctx item (slot_cfg (wi_slot item) (wi_task item) (re_x st)) = None \<Longrightarrow>
    c = \<lparr>tc_task = (xc_tasks (re_x st) ! wi_slot item ! wi_task item)\<lparr>pt_state := s\<rparr>, tc_heap = h, tc_net = e\<rparr> \<Longrightarrow>
    reactor_step rt ctx os n st (RWorked (wi_slot item) (wi_task item))
      (put_worker w (RDid (wi_task item) (completion_of item JobFailed)) (st\<lparr>re_x := slot_put (wi_slot item) (wi_task item) c (re_x st)\<rparr>))"
| posted: "w < length (re_workers st) \<Longrightarrow> re_workers st ! w = RDid i c \<Longrightarrow>
    reactor_step rt ctx os n st RInternal (put_worker w RPosted (st\<lparr>re_completions := re_completions st @ [(i, c)]\<rparr>))"
| notified: "w < length (re_workers st) \<Longrightarrow> re_workers st ! w = RPosted \<Longrightarrow>
    reactor_step rt ctx os n st RInternal (put_worker w RIdle (st\<lparr>re_notify := re_notify st + 1\<rparr>))"

text \<open>Executions from a new executor, with the newest event first.\<close>

inductive reactor_run ::
  "'e runtime \<Rightarrow> topo_ctx \<Rightarrow> 'k reactor_os \<Rightarrow> nat \<Rightarrow> ('e, 'k) reactor \<Rightarrow> reactor_event list \<Rightarrow> ('e, 'k) reactor \<Rightarrow> bool"
  for rt ctx os n st0 where
  run_none: "reactor_run rt ctx os n st0 [] st0"
| run_more: "reactor_run rt ctx os n st0 tr st \<Longrightarrow> reactor_step rt ctx os n st ev st' \<Longrightarrow> reactor_run rt ctx os n st0 (ev # tr) st'"

end
