(* ===== verification/Occl_Reactor_Jobs.thy ===== *)
theory Occl_Reactor_Jobs
  imports Occl_Reactor Occl_Epoll_Correct
begin

section \<open>The reactor executor: kernel contract and jobs\<close>

text \<open>
  A job is a piece of work on the front task of a slot, from the moment it is queued until its completion has been
  processed. The invariant says that a slot has at most one job at a time, wherever it is, that no descriptor of a
  slot with a job is registered, and that the two counters of \<open>Run\<close> are exact.
\<close>

subsection \<open>The kernel\<close>

text \<open>What the executor relies on: which descriptors are registered with which tag, and that a wait reports only those.\<close>

locale reactor_kernel =
  fixes os :: "'k reactor_os" and regs :: "'k \<Rightarrow> int \<Rightarrow> 32 word option"
  assumes create_law: "ep_create os k = (ok, k') \<Longrightarrow> regs k' = Map.empty"
    and add_law: "ep_add os fd ev tag k = (ok, k') \<Longrightarrow> regs k' = (if ok then (regs k)(fd \<mapsto> tag) else regs k)"
    and del_law: "regs (ep_del os fd k) = (regs k)(fd := None)"
    and wait_law: "ep_wait os n k = (r, k') \<Longrightarrow> regs k' = regs k"
    and events_law: "ep_wait os n k = (Events evs, k') \<Longrightarrow> x \<in> set evs \<Longrightarrow> fst x \<in> ran (regs k)"
    and eventfd_law: "ro_eventfd os k = (fd, k') \<Longrightarrow> regs k' = regs k"
    and close_law: "regs (ro_close os fd k) = (regs k)(fd := None)"
    and close_epoll_law: "regs (ro_close_epoll os k) = Map.empty"
begin

abbreviation eos :: "'k epoll_os" where "eos \<equiv> epoll_os.truncate os"

lemma eos_simps [simp]: "ep_add eos = ep_add os" "ep_del eos = ep_del os" "ep_fd eos = ep_fd os" "ep_events eos = ep_events os"
    "ep_create eos = ep_create os" "ep_wait eos = ep_wait os"
  by (simp_all add: epoll_os.truncate_def)

lemma register_all_regs:
  "register_all eos tag trs k = (ok, k') \<Longrightarrow> regs k' fd = regs k fd \<or> fd \<in> fds_of eos trs \<and> regs k' fd = Some tag"
proof (induction trs arbitrary: k)
  case (Cons t trs)
  show ?case
  proof (cases "t \<noteq> 0 \<and> ep_fd os t \<ge> 0 \<and> ep_events os t \<noteq> (False, False)")
    case True
    obtain a k1 where add: "ep_add os (ep_fd os t) (ep_events os t) tag k = (a, k1)" by fastforce
    show ?thesis
    proof (cases a)
      case a: True
      with Cons.prems True add have "register_all eos tag trs k1 = (ok, k')" by simp
      from Cons.IH [OF this] add_law [OF add] a True show ?thesis by (cases "fd = ep_fd os t") auto
    next
      case False
      with Cons.prems True add add_law [OF add] show ?thesis by auto
    qed
  next
    case False
    with Cons.prems have "register_all eos tag trs k = (ok, k')" by auto
    from Cons.IH [OF this] show ?thesis by auto
  qed
qed simp

definition slot_tags :: "nat \<Rightarrow> 32 word set" where
  "slot_tags slot = {word_of_nat slot * 2, word_of_nat slot * 2 + 1}"

lemma RegisterTask_regs:
  assumes "RegisterTask eos slot t k = (ok, k')"
  shows "regs k' fd = regs k fd \<or> fd \<in> task_fds eos t \<and> (\<exists>tag \<in> slot_tags slot. regs k' fd = Some tag)"
proof -
  obtain a k1 where first: "register_all eos (word_of_nat slot * 2) (pt_recv_transports t) k = (a, k1)" by fastforce
  show ?thesis
  proof (cases a)
    case True
    with assms first have "register_all eos (word_of_nat slot * 2 + 1) (pt_send_transports t) k1 = (ok, k')"
      by (simp add: RegisterTask_def Let_def)
    with register_all_regs [OF first, of fd] register_all_regs [OF this, of fd] show ?thesis
      by (auto simp: task_fds_def slot_tags_def)
  next
    case False
    with assms first have "k' = k1" by (simp add: RegisterTask_def Let_def)
    with register_all_regs [OF first, of fd] show ?thesis by (auto simp: task_fds_def slot_tags_def)
  qed
qed

lemma unregister_all_regs: "regs (unregister_all eos trs k) fd = (if fd \<in> fds_of eos trs then None else regs k fd)"
  unfolding unregister_all_def by (induction trs arbitrary: k) (auto simp: del_law)

lemma UnregisterTask_regs: "regs (UnregisterTask eos t k) fd = (if fd \<in> task_fds eos t then None else regs k fd)"
  by (simp add: UnregisterTask_def task_fds_def unregister_all_regs)

lemma abort_plan_regs: "regs (abort_plan eos x k) fd = (if fd \<in> held eos x then None else regs k fd)"
proof -
  have "regs (fold (\<lambda>slot k. case xc_current x ! slot of None \<Rightarrow> k | Some i \<Rightarrow> UnregisterTask eos (xc_tasks x ! slot ! i) k) [0..<m] k) fd =
      (if fd \<in> (\<Union>i < m. case xc_current x ! i of None \<Rightarrow> {} | Some c \<Rightarrow> task_fds eos (xc_tasks x ! i ! c)) then None else regs k fd)" for m
    by (induction m) (auto simp: UnregisterTask_regs less_Suc_eq split: option.splits)
  then show ?thesis by (simp add: abort_plan_def held_def)
qed

end

subsection \<open>Jobs\<close>

type_synonym job = "nat \<times> nat \<times> bool \<times> JobState option"

definition item_job :: "WorkItem \<Rightarrow> job" where
  "item_job item = (wi_slot item, wi_task item, wi_init item, None)"

fun done_job :: "nat \<times> Completion \<Rightarrow> job" where
  "done_job (i, c) = (co_slot c, i, co_init c, Some (co_state c))"

fun worker_jobs :: "reactor_pc \<Rightarrow> job list" where
  "worker_jobs (RHas item) = [item_job item]"
| "worker_jobs (RDid i c) = [done_job (i, c)]"
| "worker_jobs pc = []"

fun main_jobs :: "reactor_main \<Rightarrow> job list" where
  "main_jobs (RCompleting cs) = map done_job cs"
| "main_jobs m = []"

text \<open>The jobs in the queues and with the workers, and those the thread in \<open>Run\<close> has taken.\<close>

definition shared_jobs :: "('e, 'k) reactor \<Rightarrow> job multiset" where
  "shared_jobs st = mset (map item_job (re_queue st)) + mset (concat (map worker_jobs (re_workers st))) +
     mset (map done_job (re_completions st))"

definition jobs :: "('e, 'k) reactor \<Rightarrow> job multiset" where
  "jobs st = shared_jobs st + mset (main_jobs (re_main st))"

definition owned :: "job multiset \<Rightarrow> nat set" where
  "owned J = fst ` set_mset J"

definition starting :: "job multiset \<Rightarrow> nat set" where
  "starting J = {s. \<exists>k r. (s, k, True, r) \<in># J}"

definition single :: "job multiset \<Rightarrow> bool" where
  "single J \<longleftrightarrow> (\<forall>s. count (image_mset fst J) s \<le> 1)"

lemma single_add: "single (add_mset (s, j) J) \<longleftrightarrow> single J \<and> s \<notin> owned J"
proof -
  have zero: "count (image_mset fst J) s = 0 \<longleftrightarrow> s \<notin> owned J" by (auto simp: owned_def not_in_iff [symmetric])
  have cnt: "count (image_mset fst (add_mset (s, j) J)) t = count (image_mset fst J) t + (if t = s then 1 else 0)" for t by simp
  show ?thesis
  proof
    assume "single (add_mset (s, j) J)"
    then have all: "count (image_mset fst J) t + (if t = s then 1 else 0) \<le> 1" for t unfolding single_def cnt by blast
    have "count (image_mset fst J) t \<le> 1" for t using all [of t] by linarith
    moreover have "count (image_mset fst J) s = 0" using all [of s] by simp
    ultimately show "single J \<and> s \<notin> owned J" using zero by (simp add: single_def)
  next
    assume "single J \<and> s \<notin> owned J"
    then show "single (add_mset (s, j) J)" using zero unfolding single_def cnt by auto
  qed
qed

lemma owned_simps [simp]: "owned {#} = {}" "owned (add_mset (s, j) J) = insert s (owned J)"
    "starting {#} = {}" "starting (add_mset (s, k, b, r) J) = (if b then insert s (starting J) else starting J)"
  by (auto simp: owned_def starting_def)

lemma starting_owned: "starting J \<subseteq> owned J"
  by (force simp: starting_def owned_def)

lemma workers_update:
  "w < length ws \<Longrightarrow> mset (concat (map worker_jobs (ws[w := pc]))) + mset (worker_jobs (ws ! w)) =
     mset (concat (map worker_jobs ws)) + mset (worker_jobs pc)"
proof (induction ws arbitrary: w)
  case (Cons v ws)
  show ?case
  proof (cases w)
    case (Suc u)
    with Cons show ?thesis by (simp add: ac_simps)
  qed (simp add: ac_simps)
qed simp

lemma jobs_put_worker:
  assumes "w < length (re_workers st)"
  shows "shared_jobs (put_worker w pc st) + mset (worker_jobs (re_workers st ! w)) = shared_jobs st + mset (worker_jobs pc)"
  using workers_update [OF assms, of pc] by (simp add: shared_jobs_def put_worker_def ac_simps)

lemma shared_jobs_simps [simp]:
  "shared_jobs (st\<lparr>re_x := x\<rparr>) = shared_jobs st" "shared_jobs (st\<lparr>re_in_flight := m\<rparr>) = shared_jobs st"
  "shared_jobs (st\<lparr>re_stop := b\<rparr>) = shared_jobs st" "shared_jobs (st\<lparr>re_notify := m\<rparr>) = shared_jobs st"
  "shared_jobs (st\<lparr>re_epoll := b\<rparr>) = shared_jobs st" "shared_jobs (st\<lparr>re_notify_fd := fd\<rparr>) = shared_jobs st"
  "shared_jobs (st\<lparr>re_kernel := k\<rparr>) = shared_jobs st" "shared_jobs (st\<lparr>re_main := mn\<rparr>) = shared_jobs st"
  "shared_jobs (PostWork item st) = add_mset (item_job item) (shared_jobs st)"
  by (simp_all add: shared_jobs_def PostWork_def)

lemma PostWork_fields [simp]:
  "re_x (PostWork item st) = re_x st" "re_in_flight (PostWork item st) = re_in_flight st" "re_completions (PostWork item st) = re_completions st"
  "re_stop (PostWork item st) = re_stop st" "re_notify (PostWork item st) = re_notify st" "re_workers (PostWork item st) = re_workers st"
  "re_kernel (PostWork item st) = re_kernel st" "re_main (PostWork item st) = re_main st"
  by (simp_all add: PostWork_def)

lemma put_worker_fields [simp]:
  "re_x (put_worker w pc st) = re_x st" "re_in_flight (put_worker w pc st) = re_in_flight st" "re_completions (put_worker w pc st) = re_completions st"
  "re_stop (put_worker w pc st) = re_stop st" "re_notify (put_worker w pc st) = re_notify st" "re_queue (put_worker w pc st) = re_queue st"
  "re_kernel (put_worker w pc st) = re_kernel st" "re_main (put_worker w pc st) = re_main st"
  "re_workers (put_worker w pc st) = (re_workers st)[w := pc]"
  by (simp_all add: put_worker_def)

end
