(* ===== verification/Occl_Reactor_Slots.thy ===== *)
theory Occl_Reactor_Slots
  imports Occl_Reactor_Jobs
begin

section \<open>The reactor executor: slots, jobs and counters\<close>

subsection \<open>The invariant of the bookkeeping\<close>

definition plan_wf :: "CollPlan \<Rightarrow> 'e xcfg \<Rightarrow> bool" where
  "plan_wf plan x \<longleftrightarrow> (let n = length (pl_channels plan) in
     length (xc_current x) = n \<and> length (xc_index x) = n \<and> map (map strip) (xc_tasks x) = plan_tasks plan)"

text \<open>Slots in \<open>L\<close> have not been started.\<close>

definition slots_inv :: "CollPlan \<Rightarrow> nat set \<Rightarrow> 'e xcfg \<Rightarrow> job multiset \<Rightarrow> bool" where
  "slots_inv plan L x J \<longleftrightarrow> plan_wf plan x \<and> single J \<and>
     (\<forall>s < length (pl_channels plan). if s \<in> L then slot_free s x else slot_ok s x) \<and>
     (\<forall>(s, k, b, r) \<in># J. s < length (pl_channels plan) \<and> xc_current x ! s = Some k \<and>
        (r = Some JobDone \<longrightarrow> CollectiveDone (xc_tasks x ! s ! k)))"

definition running :: "'e xcfg \<Rightarrow> job multiset \<Rightarrow> nat set" where
  "running x J = {s. s < length (xc_current x) \<and> xc_current x ! s \<noteq> None \<and> s \<notin> starting J}"

definition counts :: "nat \<Rightarrow> 'e xcfg \<Rightarrow> job multiset \<Rightarrow> bool" where
  "counts in_flight x J \<longleftrightarrow> in_flight = size J \<and> xc_active x = card (running x J)"

lemma plan_wf_tasks: "plan_wf plan x \<Longrightarrow> length (xc_tasks x) = length (pl_channels plan)"
  unfolding plan_wf_def plan_tasks_def Let_def by (metis length_map)

lemma finite_running [simp]: "finite (running x J)"
  by (simp add: running_def)

lemma slots_invD:
  assumes "slots_inv plan L x J" and "(s, k, b, r) \<in># J"
  shows "s < length (pl_channels plan)" and "xc_current x ! s = Some k" and "r = Some JobDone \<Longrightarrow> CollectiveDone (xc_tasks x ! s ! k)"
  using assms by (auto simp: slots_inv_def)

lemma slots_inv_front:
  assumes "slots_inv plan L x J" and "xc_current x ! s = Some k" and "s < length (pl_channels plan)"
  shows "s \<notin> L" and "slot_ok s x" and "k < length (xc_tasks x ! s)" and "xc_index x ! s = Suc k"
proof -
  show "s \<notin> L" using assms by (auto simp: slots_inv_def slot_free_def)
  then show "slot_ok s x" using assms by (auto simp: slots_inv_def split: if_splits)
  then show "k < length (xc_tasks x ! s)" "xc_index x ! s = Suc k" using assms(2) by (simp_all add: slot_ok_def Let_def)
qed

text \<open>Queuing a job for the front task of a slot without one.\<close>

lemma slots_inv_post:
  assumes "slots_inv plan L x J" and "s < length (pl_channels plan)" and "xc_current x ! s = Some k" and "s \<notin> owned J"
  shows "slots_inv plan L x (add_mset (s, k, b, None) J)"
  using assms by (auto simp: slots_inv_def single_add)

lemma counts_post: "counts m x J \<Longrightarrow> s \<notin> owned J \<Longrightarrow> counts (Suc m) x (add_mset (s, k, False, r) J)"
  by (auto simp: counts_def running_def)

text \<open>A job changes its result while a worker is at it.\<close>

lemma slots_inv_work:
  assumes inv: "slots_inv plan L x (add_mset (s, k, b, r) J)"
    and c: "strip (tc_task c) = strip (xc_tasks x ! s ! k)" and r': "r' = Some JobDone \<Longrightarrow> CollectiveDone (tc_task c)"
  shows "slots_inv plan L (slot_put s k c x) (add_mset (s, k, b, r') J)"
proof -
  have job: "(s, k, b, r) \<in># add_mset (s, k, b, r) J" by simp
  note s = slots_invD(1) [OF inv job] and cur = slots_invD(2) [OF inv job]
  note front = slots_inv_front [OF inv cur s]
  have wf: "plan_wf plan x" and sg: "single J" "s \<notin> owned J" using inv by (auto simp: slots_inv_def single_add)
  have len: "length (xc_tasks x) = length (pl_channels plan)" by (rule plan_wf_tasks [OF wf])
  have "map strip ((xc_tasks x ! s)[k := tc_task c]) = map strip (xc_tasks x ! s)"
    using c front(3) by (simp add: map_update list_update_same_conv)
  then have "map (map strip) (xc_tasks (slot_put s k c x)) = map (map strip) (xc_tasks x)"
    using s len by (simp add: slot_put_def map_update list_update_same_conv)
  with wf have wf': "plan_wf plan (slot_put s k c x)" by (simp add: plan_wf_def slot_put_def)
  have same: "same_slot t x (slot_put s k c x)" if "t \<noteq> s" for t using that by (simp add: same_slot_def slot_put_def)
  have "slot_ok s (slot_put s k c x)" using front(2) cur s len by (simp add: slot_ok_def slot_put_def Let_def)
  then have slots: "\<forall>t < length (pl_channels plan). if t \<in> L then slot_free t (slot_put s k c x) else slot_ok t (slot_put s k c x)"
    using inv front(1) same_slot_ok [OF same] unfolding slots_inv_def by metis
  have "t \<noteq> s" if "(t, m, d, q) \<in># J" for t m d q using that sg(2) by (force simp: owned_def)
  then have "\<forall>(t, m, d, q) \<in># J. t < length (pl_channels plan) \<and> xc_current (slot_put s k c x) ! t = Some m \<and>
      (q = Some JobDone \<longrightarrow> CollectiveDone (xc_tasks (slot_put s k c x) ! t ! m))"
    using inv by (fastforce simp: slots_inv_def slot_put_def)
  with wf' sg slots s cur front(3) len r' show ?thesis
    by (auto simp: slots_inv_def single_add slot_put_def)
qed

lemma running_put [simp]: "running (slot_put s k c x) J = running x J" "xc_active (slot_put s k c x) = xc_active x"
  by (simp_all add: running_def slot_put_def)

lemma counts_work: "counts m x (add_mset (s, k, b, r) J) \<Longrightarrow> counts m (slot_put s k c x) (add_mset (s, k, b, r') J)"
  by (auto simp: counts_def) (simp add: running_def)

subsection \<open>Completions and starts\<close>

lemma slots_inv_drop: "slots_inv plan L x (add_mset (s, k, b, r) J) \<Longrightarrow> slots_inv plan L x J"
  by (auto simp: slots_inv_def single_add)

lemma counts_drop:
  assumes "counts m x (add_mset (s, k, b, r) J)" and "s \<notin> owned J" and "xc_current x ! s = Some k" and "s < length (xc_current x)"
  shows "counts (m - 1) (if b then x\<lparr>xc_active := xc_active x + 1\<rparr> else x) J"
proof -
  have run: "running x J = (if b then insert s (running x (add_mset (s, k, b, r) J)) else running x (add_mset (s, k, b, r) J))"
    using assms(2-4) starting_owned [of J] by (auto simp: running_def)
  have "s \<notin> running x (add_mset (s, k, True, r) J)" by (simp add: running_def)
  moreover have "running (x\<lparr>xc_active := a\<rparr>) J = running x J" for a by (simp add: running_def)
  ultimately show ?thesis using assms(1) run by (auto simp: counts_def card_insert_if)
qed

lemma free_xc: "xc_active (free_slot s b x) = (if b then xc_active x else xc_active x - 1)"
  by (simp add: free_slot_def)

lemma slots_inv_free:
  assumes inv: "slots_inv plan L x (add_mset (s, k, b, Some JobDone) J)"
  shows "slots_inv plan (insert s L) (free_slot s b x) J"
proof -
  have job: "(s, k, b, Some JobDone) \<in># add_mset (s, k, b, Some JobDone) J" by simp
  note s = slots_invD(1) [OF inv job] and cur = slots_invD(2) [OF inv job] and fin = slots_invD(3) [OF inv job refl]
  note front = slots_inv_front [OF inv cur s]
  have wf: "plan_wf plan x" and sg: "single J" "s \<notin> owned J" using inv by (auto simp: slots_inv_def single_add)
  have free: "slot_free s (free_slot s b x)"
    using front(2) cur fin s wf by (auto simp: slot_ok_def slot_free_def free_slot_def Let_def less_Suc_eq plan_wf_def)
  have same: "same_slot t x (free_slot s b x)" if "t \<noteq> s" for t using that by (simp add: same_slot_def free_slot_def)
  have "plan_wf plan (free_slot s b x)" using wf by (simp add: plan_wf_def free_slot_def)
  moreover have "t \<noteq> s" if "(t, m, d, q) \<in># J" for t m d q using that sg(2) by (force simp: owned_def)
  then have "\<forall>(t, m, d, q) \<in># J. t < length (pl_channels plan) \<and> xc_current (free_slot s b x) ! t = Some m \<and>
      (q = Some JobDone \<longrightarrow> CollectiveDone (xc_tasks (free_slot s b x) ! t ! m))"
    using inv by (fastforce simp: slots_inv_def free_slot_def)
  moreover have "if t \<in> insert s L then slot_free t (free_slot s b x) else slot_ok t (free_slot s b x)" if "t < length (pl_channels plan)" for t
  proof (cases "t = s")
    case False
    have "if t \<in> L then slot_free t x else slot_ok t x" using inv that unfolding slots_inv_def by blast
    with False same_slot_ok [OF same [OF False]] show ?thesis by simp
  qed (simp add: free)
  ultimately show ?thesis using sg(1) by (simp add: slots_inv_def)
qed

lemma counts_free:
  assumes "counts m x (add_mset (s, k, b, r) J)" and "s \<notin> owned J" and "xc_current x ! s = Some k" and "s < length (xc_current x)"
  shows "counts (m - 1) (free_slot s b x) J"
proof -
  have "t \<in> running (free_slot s b x) J \<longleftrightarrow> t \<in> running x (add_mset (s, k, b, r) J) - {s}" for t
    using assms(4) by (cases "t = s") (auto simp: running_def free_slot_def)
  then have "running (free_slot s b x) J = running x (add_mset (s, k, b, r) J) - {s}" by blast
  moreover have "s \<in> running x (add_mset (s, k, b, r) J) \<longleftrightarrow> \<not> b"
    using assms(2-4) starting_owned [of J] by (auto simp: running_def)
  ultimately show ?thesis using assms(1) by (cases b) (simp_all add: counts_def free_xc card_Diff_singleton_if)
qed

definition begin_slot :: "nat \<Rightarrow> 'e xcfg \<Rightarrow> 'e xcfg" where
  "begin_slot s x = x\<lparr>xc_index := (xc_index x)[s := xc_index x ! s + 1], xc_current := (xc_current x)[s := Some (xc_index x ! s)]\<rparr>"

lemma free_not_owned: "slots_inv plan L x J \<Longrightarrow> s \<in> L \<Longrightarrow> s < length (pl_channels plan) \<Longrightarrow> s \<notin> owned J"
proof
  assume inv: "slots_inv plan L x J" and s: "s \<in> L" "s < length (pl_channels plan)" and "s \<in> owned J"
  then obtain k b r where "(s, k, b, r) \<in># J" by (auto simp: owned_def)
  from slots_invD(2) [OF inv this] slots_inv_front(1) [OF inv _ s(2)] s(1) show False by blast
qed

lemma slots_inv_begin:
  assumes inv: "slots_inv plan L x J" and s: "s \<in> L" "s < length (pl_channels plan)" and more: "xc_index x ! s < length (xc_tasks x ! s)"
  shows "slots_inv plan (L - {s}) (begin_slot s x) (add_mset (s, xc_index x ! s, True, None) J)"
proof -
  note new = free_not_owned [OF inv s]
  have wf: "plan_wf plan x" and sg: "single J" using inv by (auto simp: slots_inv_def)
  have free: "slot_free s x" using inv s by (auto simp: slots_inv_def split: if_splits)
  have ok: "slot_ok s (begin_slot s x)"
    using free more s(2) wf by (auto simp: slot_ok_def slot_free_def begin_slot_def Let_def plan_wf_def)
  have same: "same_slot t x (begin_slot s x)" if "t \<noteq> s" for t using that by (simp add: same_slot_def begin_slot_def)
  have "if t \<in> L - {s} then slot_free t (begin_slot s x) else slot_ok t (begin_slot s x)" if "t < length (pl_channels plan)" for t
  proof (cases "t = s")
    case False
    have "if t \<in> L then slot_free t x else slot_ok t x" using inv that unfolding slots_inv_def by blast
    with False same_slot_ok [OF same [OF False]] show ?thesis by simp
  qed (simp add: ok)
  moreover have "plan_wf plan (begin_slot s x)" using wf by (simp add: plan_wf_def begin_slot_def)
  moreover have "t \<noteq> s" if "(t, m, d, q) \<in># J" for t m d q using that new by (force simp: owned_def)
  then have "\<forall>(t, m, d, q) \<in># J. t < length (pl_channels plan) \<and> xc_current (begin_slot s x) ! t = Some m \<and>
      (q = Some JobDone \<longrightarrow> CollectiveDone (xc_tasks (begin_slot s x) ! t ! m))"
    using inv by (fastforce simp: slots_inv_def begin_slot_def)
  moreover have "xc_current (begin_slot s x) ! s = Some (xc_index x ! s)" using s(2) wf by (simp add: begin_slot_def plan_wf_def Let_def)
  ultimately show ?thesis using sg new s(2) by (simp add: slots_inv_def single_add)
qed

lemma counts_begin:
  assumes "counts m x J" and "slots_inv plan L x J" and "s \<in> L" and "s < length (pl_channels plan)"
  shows "counts (Suc m) (begin_slot s x) (add_mset (s, i, True, None) J)"
proof -
  have "xc_current x ! s = None" using assms(2-4) by (auto simp: slots_inv_def slot_free_def split: if_splits)
  then have "t \<in> running (begin_slot s x) (add_mset (s, i, True, None) J) \<longleftrightarrow> t \<in> running x J" for t
    by (cases "t = s") (auto simp: running_def begin_slot_def)
  then have "running (begin_slot s x) (add_mset (s, i, True, None) J) = running x J" by blast
  with assms(1) show ?thesis by (simp add: counts_def begin_slot_def)
qed

lemma slots_inv_skip:
  assumes inv: "slots_inv plan L x J" and s: "s \<in> L" "s < length (pl_channels plan)" and none: "\<not> xc_index x ! s < length (xc_tasks x ! s)"
  shows "slots_inv plan (L - {s}) x J"
proof -
  have "slot_free s x" using inv s by (auto simp: slots_inv_def split: if_splits)
  with none have "slot_ok s x" by (auto simp: slot_free_def slot_ok_def)
  with inv show ?thesis by (auto simp: slots_inv_def)
qed

text \<open>Together: what \<open>start_next\<close> does.\<close>

lemma start_next_inv:
  assumes run: "start_next s st = Some st'" and inv: "slots_inv plan L (re_x st) J" and s: "s \<in> L" "s < length (pl_channels plan)"
  shows "(st' = st \<and> slots_inv plan (L - {s}) (re_x st) J) \<or>
    (\<exists>i. slots_inv plan (L - {s}) (re_x st') (add_mset (s, i, True, None) J) \<and> shared_jobs st' = add_mset (s, i, True, None) (shared_jobs st) \<and>
       re_x st' = begin_slot s (re_x st) \<and> re_in_flight st' = Suc (re_in_flight st) \<and>
       re_completions st' = re_completions st \<and> re_stop st' = re_stop st \<and> re_notify st' = re_notify st \<and>
       re_workers st' = re_workers st \<and> re_kernel st' = re_kernel st \<and> re_main st' = re_main st)"
proof (cases "xc_index (re_x st) ! s < length (xc_tasks (re_x st) ! s)")
  case True
  with run have st': "st' = PostWork \<lparr>wi_slot = s, wi_task = xc_index (re_x st) ! s, wi_init = True, wi_steps = 0\<rparr>
      (st\<lparr>re_x := begin_slot s (re_x st), re_in_flight := re_in_flight st + 1\<rparr>)"
    by (auto simp: start_next_def begin_slot_def Let_def split: if_splits)
  from slots_inv_begin [OF inv s True] show ?thesis unfolding st' by (intro disjI2 exI [of _ "xc_index (re_x st) ! s"]) (simp add: item_job_def)
next
  case False
  with run slots_inv_skip [OF inv s False] show ?thesis by (simp add: start_next_def Let_def)
qed

end
