(* ===== verification/Occl_Reactor_Invariant.thy ===== *)
theory Occl_Reactor_Invariant
  imports Occl_Reactor_Slots
begin

section \<open>The reactor executor: the invariant of all executions\<close>

lemma slots_inv_sub:
  assumes "slots_inv plan L x J" and "J' \<subseteq># J"
  shows "slots_inv plan L x J'"
proof -
  have "count (image_mset fst J') s \<le> count (image_mset fst J) s" for s
    using image_mset_subseteq_mono [OF assms(2), of fst] by (simp add: subseteq_mset_def)
  then have "single J'" using assms(1) unfolding slots_inv_def single_def by (metis order_trans)
  with assms show ?thesis by (auto simp: slots_inv_def dest: mset_subset_eqD)
qed

text \<open>The plan of the latest call, and what it means that a plan has been executed.\<close>

fun last_called :: "reactor_event list \<Rightarrow> CollPlan option" where
  "last_called [] = None"
| "last_called (RCalled p # tr) = Some p"
| "last_called (_ # tr) = last_called tr"

definition plan_complete :: "CollPlan \<Rightarrow> 'e xcfg \<Rightarrow> bool" where
  "plan_complete plan x \<longleftrightarrow> map (map strip) (xc_tasks x) = plan_tasks plan \<and> (\<forall>q \<in> set (xc_tasks x). \<forall>t \<in> set q. CollectiveDone t)"

text \<open>The steps of the workers alone, with what matters of the work they do.\<close>

inductive worker_step :: "('e, 'k) reactor \<Rightarrow> ('e, 'k) reactor \<Rightarrow> bool" where
  ws_take: "w < length (re_workers st) \<Longrightarrow> re_workers st ! w = RIdle \<Longrightarrow> \<not> re_stop st \<Longrightarrow> re_queue st = item # items \<Longrightarrow>
     worker_step st (put_worker w (RHas item) (st\<lparr>re_queue := items\<rparr>))"
| ws_leave: "w < length (re_workers st) \<Longrightarrow> re_workers st ! w = RIdle \<Longrightarrow> re_stop st \<Longrightarrow> worker_step st (put_worker w RLeft st)"
| ws_work: "w < length (re_workers st) \<Longrightarrow> re_workers st ! w = RHas item \<Longrightarrow>
     strip (tc_task c) = strip (xc_tasks (re_x st) ! wi_slot item ! wi_task item) \<Longrightarrow> (js = JobDone \<Longrightarrow> CollectiveDone (tc_task c)) \<Longrightarrow>
     worker_step st (put_worker w (RDid (wi_task item) (completion_of item js)) (st\<lparr>re_x := slot_put (wi_slot item) (wi_task item) c (re_x st)\<rparr>))"
| ws_post: "w < length (re_workers st) \<Longrightarrow> re_workers st ! w = RDid i d \<Longrightarrow>
     worker_step st (put_worker w RPosted (st\<lparr>re_completions := re_completions st @ [(i, d)]\<rparr>))"
| ws_notify: "w < length (re_workers st) \<Longrightarrow> re_workers st ! w = RPosted \<Longrightarrow> worker_step st (put_worker w RIdle (st\<lparr>re_notify := re_notify st + 1\<rparr>))"

lemma do_work_strip: "do_work rt ctx item c = Some c' \<Longrightarrow> strip (tc_task c') = strip (tc_task c)"
proof -
  assume "do_work rt ctx item c = Some c'"
  then have "params c' = params c"
    by (auto simp: do_work_def bind_eq_Some_conv dest!: CollectiveInit_params CollectiveStep_params split: if_splits)
  then show ?thesis by (simp add: params_def strip_def)
qed

lemma ws_worked:
  assumes "w < length (re_workers st)" and "re_workers st ! w = RHas item"
    and "do_work rt ctx item (slot_cfg (wi_slot item) (wi_task item) (re_x st)) = Some c"
  shows "worker_step st (put_worker w (RDid (wi_task item) (completion_of item (if CollectiveDone (tc_task c) then JobDone else JobWaiting)))
        (st\<lparr>re_x := slot_put (wi_slot item) (wi_task item) c (re_x st)\<rparr>))"
  by (rule ws_work [OF assms(1,2)]) (use do_work_strip [OF assms(3)] in \<open>auto simp: slot_cfg_def split: if_splits\<close>)

lemma ws_failed:
  assumes "w < length (re_workers st)" and "re_workers st ! w = RHas item"
    and "c = \<lparr>tc_task = (xc_tasks (re_x st) ! wi_slot item ! wi_task item)\<lparr>pt_state := s\<rparr>, tc_heap = h, tc_net = e\<rparr>"
  shows "worker_step st (put_worker w (RDid (wi_task item) (completion_of item JobFailed)) (st\<lparr>re_x := slot_put (wi_slot item) (wi_task item) c (re_x st)\<rparr>))"
  by (rule ws_work [OF assms(1,2)]) (use assms(3) in \<open>simp_all add: strip_def\<close>)

context reactor_kernel
begin

subsection \<open>Registrations\<close>

definition only_notify :: "'k \<Rightarrow> bool" where
  "only_notify k \<longleftrightarrow> (\<forall>fd tag. regs k fd = Some tag \<longrightarrow> tag = kNotifyTag)"

text \<open>Apart from the eventfd, a registered descriptor belongs to the front task of a slot that has no job.\<close>

definition regs_ok :: "CollPlan \<Rightarrow> 'e xcfg \<Rightarrow> job multiset \<Rightarrow> 'k \<Rightarrow> bool" where
  "regs_ok plan x J k \<longleftrightarrow> (\<forall>fd tag. regs k fd = Some tag \<longrightarrow> tag \<noteq> kNotifyTag \<longrightarrow>
     (\<exists>s i. s < length (pl_channels plan) \<and> xc_current x ! s = Some i \<and> s \<notin> owned J \<and>
        fd \<in> task_fds eos (xc_tasks x ! s ! i) \<and> tag \<in> slot_tags s))"

lemma regs_ok_cong: "regs k' = regs k \<Longrightarrow> regs_ok plan x J k' = regs_ok plan x J k" "regs k' = regs k \<Longrightarrow> only_notify k' = only_notify k"
  by (simp_all add: regs_ok_def only_notify_def)

lemma regs_ok_start: "only_notify k \<Longrightarrow> regs_ok plan x J k"
  by (simp add: regs_ok_def only_notify_def)

lemma regs_ok_abort:
  assumes "regs_ok plan x J k" and "plan_wf plan x"
  shows "only_notify (abort_plan eos x k)"
proof -
  have "fd \<in> held eos x" if "s < length (pl_channels plan)" "xc_current x ! s = Some i" "fd \<in> task_fds eos (xc_tasks x ! s ! i)" for fd s i
    using that assms(2) by (auto simp: held_def plan_wf_def Let_def intro!: bexI [of _ s])
  then show ?thesis using assms(1) unfolding only_notify_def regs_ok_def abort_plan_regs by (metis option.distinct(1))
qed

lemma regs_ok_unregister:
  assumes "regs_ok plan x J k" and "xc_current x ! s = Some i"
  shows "regs_ok plan x (add_mset (s, j) J) (UnregisterTask eos (xc_tasks x ! s ! i) k)"
  unfolding regs_ok_def
proof (intro allI impI)
  fix fd tag
  assume reg: "regs (UnregisterTask eos (xc_tasks x ! s ! i) k) fd = Some tag" and tag: "tag \<noteq> kNotifyTag"
  then have fd: "fd \<notin> task_fds eos (xc_tasks x ! s ! i)" "regs k fd = Some tag" by (auto simp: UnregisterTask_regs split: if_splits)
  with assms(1) tag obtain t c where t: "t < length (pl_channels plan)" "xc_current x ! t = Some c" "t \<notin> owned J"
    "fd \<in> task_fds eos (xc_tasks x ! t ! c)" "tag \<in> slot_tags t" unfolding regs_ok_def by blast
  moreover have "t \<noteq> s" using t fd(1) assms(2) by auto
  ultimately show "\<exists>s' c. s' < length (pl_channels plan) \<and> xc_current x ! s' = Some c \<and> s' \<notin> owned (add_mset (s, j) J) \<and>
      fd \<in> task_fds eos (xc_tasks x ! s' ! c) \<and> tag \<in> slot_tags s'" by auto
qed

lemma regs_ok_register:
  assumes "regs_ok plan x (add_mset (s, j) J) k" and "RegisterTask eos s (xc_tasks x ! s ! i) k = (ok, k')"
    and "xc_current x ! s = Some i" and "s < length (pl_channels plan)" and "s \<notin> owned J"
  shows "regs_ok plan x J k'"
  unfolding regs_ok_def
proof (intro allI impI)
  fix fd tag
  assume reg: "regs k' fd = Some tag" and tag: "tag \<noteq> kNotifyTag"
  from RegisterTask_regs [OF assms(2), of fd] consider "regs k fd = Some tag"
    | "fd \<in> task_fds eos (xc_tasks x ! s ! i)" "tag \<in> slot_tags s" using reg by auto
  then show "\<exists>s i. s < length (pl_channels plan) \<and> xc_current x ! s = Some i \<and> s \<notin> owned J \<and>
      fd \<in> task_fds eos (xc_tasks x ! s ! i) \<and> tag \<in> slot_tags s"
  proof cases
    case 1
    with assms(1) tag show ?thesis unfolding regs_ok_def by (metis insert_iff owned_simps(2))
  next
    case 2
    with assms(3-5) show ?thesis by blast
  qed
qed

text \<open>Changes to a slot with a job, or to one without a front task, do not matter.\<close>

lemma regs_ok_other:
  assumes "regs_ok plan x J k" and "s \<in> owned J \<or> xc_current x ! s = None" and "owned J' \<subseteq> insert s (owned J)"
    and "\<And>t. t \<noteq> s \<Longrightarrow> same_slot t x x'"
  shows "regs_ok plan x' J' k"
  unfolding regs_ok_def
proof (intro allI impI)
  fix fd tag
  assume "regs k fd = Some tag" and "tag \<noteq> kNotifyTag"
  with assms(1) obtain t c where t: "t < length (pl_channels plan)" "xc_current x ! t = Some c" "t \<notin> owned J"
    "fd \<in> task_fds eos (xc_tasks x ! t ! c)" "tag \<in> slot_tags t" unfolding regs_ok_def by blast
  moreover have "t \<noteq> s" using t assms(2) by auto
  ultimately show "\<exists>s i. s < length (pl_channels plan) \<and> xc_current x' ! s = Some i \<and> s \<notin> owned J' \<and>
      fd \<in> task_fds eos (xc_tasks x' ! s ! i) \<and> tag \<in> slot_tags s"
    using assms(3) assms(4) [of t] by (intro exI [of _ t] exI [of _ c]) (auto simp: same_slot_def)
qed

subsection \<open>The events of a wait\<close>

lemma collect_events_ready:
  "collect_events eos x evs ready notify = (ready', notify') \<Longrightarrow>
     length ready' = length ready \<and> (\<forall>s. ready' ! s \<noteq> ready ! s \<longrightarrow> (\<exists>ev \<in> set evs. fst ev \<noteq> kNotifyTag \<and> unat (fst ev div 2) = s))"
proof (induction evs arbitrary: ready notify)
  case (Cons ev evs)
  have step: "\<exists>r m. collect_events eos x (ev # evs) ready notify = collect_events eos x evs r m \<and>
      (r = ready \<or> fst ev \<noteq> kNotifyTag \<and> (\<exists>v. r = ready[unat (fst ev div 2) := v]))"
    by (auto simp: Let_def split: option.splits)
  then obtain r m where r: "collect_events eos x evs r m = (ready', notify')"
    and or: "r = ready \<or> fst ev \<noteq> kNotifyTag \<and> (\<exists>v. r = ready[unat (fst ev div 2) := v])" using Cons.prems by metis
  from Cons.IH [OF r] have IH: "length ready' = length r" "\<And>s. ready' ! s \<noteq> r ! s \<Longrightarrow> \<exists>ev \<in> set evs. fst ev \<noteq> kNotifyTag \<and> unat (fst ev div 2) = s"
    by blast+
  show ?case
  proof (intro conjI allI impI)
    show "length ready' = length ready" using IH(1) or by auto
    fix s assume diff: "ready' ! s \<noteq> ready ! s"
    show "\<exists>e \<in> set (ev # evs). fst e \<noteq> kNotifyTag \<and> unat (fst e div 2) = s"
    proof (cases "ready' ! s = r ! s")
      case True
      with diff or have "fst ev \<noteq> kNotifyTag" "unat (fst ev div 2) = s" by (auto, metis nth_list_update_neq)
      then show ?thesis by auto
    qed (use IH(2) in auto)
  qed
qed simp

lemma slot_tags_slot:
  assumes "tag \<in> slot_tags s" and "s < 2 ^ 31" shows "unat (tag div 2) = s"
proof -
  have w: "unat (word_of_nat s * 2 :: 32 word) = 2 * s" "unat (word_of_nat s * 2 + 1 :: 32 word) = 2 * s + 1"
  proof -
    have "(word_of_nat s * 2 :: 32 word) = word_of_nat (2 * s)" "(word_of_nat s * 2 + 1 :: 32 word) = word_of_nat (2 * s + 1)" by (simp_all add: mult.commute)
    moreover have "unat (word_of_nat (2 * s) :: 32 word) = 2 * s" "unat (word_of_nat (2 * s + 1) :: 32 word) = 2 * s + 1"
      using assms(2) by (simp_all only: unat_of_nat) (simp_all add: take_bit_nat_eq_self)
    ultimately show "unat (word_of_nat s * 2 :: 32 word) = 2 * s" "unat (word_of_nat s * 2 + 1 :: 32 word) = 2 * s + 1" by (simp_all add: mult.commute add.commute)
  qed
  have "unat (tag div 2) = unat tag div 2" by (simp add: unat_div)
  with assms(1) w show ?thesis by (auto simp: slot_tags_def)
qed

lemma ready_not_owned:
  assumes "regs_ok plan x J k" and "ep_wait os m k = (Events evs, k')" and "length (pl_channels plan) \<le> 2 ^ 31"
    and "collect_events eos x evs (replicate (length (pl_channels plan)) 0) False = (ready, notify)"
    and "s < length (pl_channels plan)" and "ready ! s \<noteq> 0"
  shows "s \<notin> owned J"
proof -
  have "ready ! s \<noteq> replicate (length (pl_channels plan)) 0 ! s" using assms(5,6) by simp
  with collect_events_ready [OF assms(4)] obtain ev where ev: "ev \<in> set evs" "fst ev \<noteq> kNotifyTag" "unat (fst ev div 2) = s" by blast
  from events_law [OF assms(2) ev(1)] obtain fd where "regs k fd = Some (fst ev)" by (auto simp: ran_def)
  with assms(1) ev(2) obtain t i where t: "t < length (pl_channels plan)" "t \<notin> owned J" "fst ev \<in> slot_tags t" unfolding regs_ok_def by blast
  with slot_tags_slot [OF t(3)] assms(3) ev(3) show ?thesis by simp
qed

subsection \<open>The invariant of a run\<close>

definition main_ok :: "nat \<Rightarrow> reactor_main \<Rightarrow> job multiset \<Rightarrow> bool" where
  "main_ok n m J \<longleftrightarrow> (case m of RStarting ss \<Rightarrow> distinct ss \<and> set ss \<subseteq> {..<n}
     | RDispatch ready notify \<Rightarrow> distinct (map fst ready) \<and> (\<forall>(s, steps) \<in> set ready. s < n \<and> (steps \<noteq> 0 \<longrightarrow> s \<notin> owned J))
     | ROutside \<Rightarrow> False | RShutdown \<Rightarrow> False | RJoining \<Rightarrow> False | _ \<Rightarrow> True)"

lemma main_ok_owned: "owned J = owned J' \<Longrightarrow> main_ok n m J = main_ok n m J'"
  by (cases m) (simp_all add: main_ok_def)

definition unstarted :: "reactor_main \<Rightarrow> nat set" where
  "unstarted m = (case m of RStarting ss \<Rightarrow> set ss | _ \<Rightarrow> {})"

text \<open>While \<open>Run\<close> is at work.\<close>

definition work_inv :: "CollPlan \<Rightarrow> ('e, 'k) reactor \<Rightarrow> bool" where
  "work_inv plan st \<longleftrightarrow> length (pl_channels plan) \<le> 2 ^ 31 \<and> main_ok (length (pl_channels plan)) (re_main st) (jobs st) \<and>
     slots_inv plan (unstarted (re_main st)) (re_x st) (jobs st) \<and> counts (re_in_flight st) (re_x st) (jobs st) \<and>
     regs_ok plan (re_x st) (jobs st) (re_kernel st) \<and>
     \<not> re_stop st \<and> re_workers st \<noteq> [] \<and> RLeft \<notin> set (re_workers st) \<and>
     (re_completions st \<noteq> [] \<longrightarrow> 0 < re_notify st \<or> RPosted \<in> set (re_workers st) \<or> re_main st = RDrained)"

text \<open>While it joins the workers, and between two calls.\<close>

definition join_inv :: "CollPlan \<Rightarrow> ('e, 'k) reactor \<Rightarrow> bool" where
  "join_inv plan st \<longleftrightarrow> re_main st = RJoining \<and> (\<exists>L. slots_inv plan L (re_x st) (jobs st)) \<and> only_notify (re_kernel st)"

definition idle_inv :: "('e, 'k) reactor \<Rightarrow> bool" where
  "idle_inv st \<longleftrightarrow> re_main st \<in> {ROutside, RShutdown} \<and> jobs st = {#} \<and> only_notify (re_kernel st) \<and>
     (re_main st = ROutside \<longrightarrow> \<not> re_stop st \<and> RLeft \<notin> set (re_workers st))"

text \<open>What a step of a worker changes.\<close>

lemma set_update_other: "ws ! w \<noteq> pc \<Longrightarrow> pc \<in> set ws \<Longrightarrow> pc \<in> set (ws[w := pc'])"
  by (metis in_set_conv_nth length_list_update nth_list_update_neq)

lemma posted_kept:
  "ws ! w = RIdle \<Longrightarrow> RPosted \<in> set ws \<Longrightarrow> RPosted \<in> set (ws[w := pc])"
  "ws ! w = RHas item \<Longrightarrow> RPosted \<in> set ws \<Longrightarrow> RPosted \<in> set (ws[w := pc])"
  by (auto intro: set_update_other)

lemma take_jobs:
  assumes "w < length (re_workers st)" and "re_workers st ! w = RIdle" and "re_queue st = item # items"
  shows "jobs (put_worker w (RHas item) (st\<lparr>re_queue := items\<rparr>)) = jobs st"
proof -
  have "shared_jobs st = add_mset (item_job item) (shared_jobs (st\<lparr>re_queue := items\<rparr>))" using assms(3) by (simp add: shared_jobs_def)
  then show ?thesis using jobs_put_worker [of w "st\<lparr>re_queue := items\<rparr>" "RHas item"] assms by (simp add: jobs_def)
qed

lemma worked_jobs:
  assumes "w < length (re_workers st)" and "re_workers st ! w = RHas item"
  obtains J where "jobs st = add_mset (wi_slot item, wi_task item, wi_init item, None) J"
    and "\<And>x js. jobs (put_worker w (RDid (wi_task item) (completion_of item js)) (st\<lparr>re_x := x\<rparr>)) =
      add_mset (wi_slot item, wi_task item, wi_init item, Some js) J"
proof -
  have "item_job item \<in># mset (concat (map worker_jobs (re_workers st)))"
    using assms nth_mem [OF assms(1)] by (auto intro!: bexI [of _ "re_workers st ! w"])
  then have "item_job item \<in># jobs st" by (simp add: jobs_def shared_jobs_def)
  then obtain J where J: "jobs st = add_mset (item_job item) J" by (metis insert_DiffM)
  have "jobs (put_worker w (RDid (wi_task item) (completion_of item js)) (st\<lparr>re_x := x\<rparr>)) =
      add_mset (wi_slot item, wi_task item, wi_init item, Some js) J" for x js
  proof -
    let ?st = "put_worker w (RDid (wi_task item) (completion_of item js)) (st\<lparr>re_x := x\<rparr>)" and ?new = "(wi_slot item, wi_task item, wi_init item, Some js)"
    have "add_mset (item_job item) (shared_jobs ?st) = add_mset ?new (shared_jobs st)"
      using jobs_put_worker [of w "st\<lparr>re_x := x\<rparr>" "RDid (wi_task item) (completion_of item js)"] assms by (simp add: completion_of_def)
    then have "add_mset (item_job item) (jobs ?st) = add_mset ?new (jobs st)" by (simp add: jobs_def)
    also have "\<dots> = add_mset (item_job item) (add_mset ?new J)" unfolding J by (rule add_mset_commute)
    finally show ?thesis by simp
  qed
  with J show thesis using that by (simp add: item_job_def)
qed

lemma posted_jobs:
  assumes "w < length (re_workers st)" and "re_workers st ! w = RDid i c"
  shows "jobs (put_worker w RPosted (st\<lparr>re_completions := re_completions st @ [(i, c)]\<rparr>)) = jobs st"
proof -
  have "shared_jobs (st\<lparr>re_completions := re_completions st @ [(i, c)]\<rparr>) = add_mset (done_job (i, c)) (shared_jobs st)"
    by (simp add: shared_jobs_def)
  then show ?thesis
    using jobs_put_worker [of w "st\<lparr>re_completions := re_completions st @ [(i, c)]\<rparr>" RPosted] assms by (simp add: jobs_def)
qed

lemma plain_jobs:
  assumes "w < length (re_workers st)" and "worker_jobs (re_workers st ! w) = []" and "worker_jobs pc = []"
  shows "jobs (put_worker w pc st) = jobs st"
  using jobs_put_worker [OF assms(1), of pc] assms by (simp add: jobs_def)

lemma active_irrelevant [simp]:
  "slots_inv plan L (x\<lparr>xc_active := a\<rparr>) J = slots_inv plan L x J" "regs_ok plan (x\<lparr>xc_active := a\<rparr>) J k = regs_ok plan x J k"
  by (simp_all add: slots_inv_def plan_wf_def slot_ok_def slot_free_def regs_ok_def Let_def)

lemma abort_join:
  assumes "slots_inv plan L (re_x st) J" and "shared_jobs st \<subseteq># J" and "regs_ok plan (re_x st) J (re_kernel st)"
  shows "join_inv plan (reactor_abort eos st)"
proof -
  have "plan_wf plan (re_x st)" using assms(1) by (simp add: slots_inv_def)
  with assms show ?thesis
    by (auto simp: join_inv_def reactor_abort_def jobs_def intro: regs_ok_abort slots_inv_sub)
qed

lemma complete_job_inv:
  assumes inv: "work_inv plan st" and main: "re_main st = RCompleting ((i, c) # cs)" and run: "complete_job eos c st = (st', ok)"
  shows "if ok then work_inv plan (st'\<lparr>re_main := RCompleting cs\<rparr>) else join_inv plan (reactor_abort eos st')"
proof -
  let ?s = "co_slot c" and ?b = "co_init c" and ?J = "shared_jobs st + mset (map done_job cs)" and ?x = "re_x st"
  let ?st = "st\<lparr>re_in_flight := re_in_flight st - 1\<rparr>"
  have J: "jobs st = add_mset (?s, i, ?b, Some (co_state c)) ?J" using main by (simp add: jobs_def)
  have slots: "slots_inv plan {} ?x (add_mset (?s, i, ?b, Some (co_state c)) ?J)" and cnt: "counts (re_in_flight st) ?x (add_mset (?s, i, ?b, Some (co_state c)) ?J)"
    and regs: "regs_ok plan ?x (add_mset (?s, i, ?b, Some (co_state c)) ?J) (re_kernel st)"
    and rest: "length (pl_channels plan) \<le> 2 ^ 31" "\<not> re_stop st" "re_workers st \<noteq> []" "RLeft \<notin> set (re_workers st)"
    "re_completions st \<noteq> [] \<longrightarrow> 0 < re_notify st \<or> RPosted \<in> set (re_workers st)"
    using inv main J by (simp_all add: work_inv_def unstarted_def)
  have job: "(?s, i, ?b, Some (co_state c)) \<in># add_mset (?s, i, ?b, Some (co_state c)) ?J" by simp
  note s = slots_invD(1) [OF slots job] and cur = slots_invD(2) [OF slots job]
  have new: "?s \<notin> owned ?J" using slots by (simp add: slots_inv_def single_add)
  have len: "?s < length (xc_current ?x)" using s slots by (simp add: slots_inv_def plan_wf_def Let_def)
  have goal: "work_inv plan (y\<lparr>re_main := RCompleting cs\<rparr>)"
    if "slots_inv plan {} (re_x y) (J' + mset (map done_job cs))" "counts (re_in_flight y) (re_x y) (J' + mset (map done_job cs))"
      "regs_ok plan (re_x y) (J' + mset (map done_job cs)) (re_kernel y)" "shared_jobs y = J'"
      "re_stop y = re_stop st" "re_workers y = re_workers st" "re_completions y = re_completions st" "re_notify y = re_notify st" for y J'
    using that rest by (simp add: work_inv_def main_ok_def unstarted_def jobs_def)
  show ?thesis
  proof (cases "co_state c")
    case JobFailed
    have "join_inv plan (reactor_abort eos ?st)" by (rule abort_join [of plan "{}" _ "jobs st"]) (use slots regs J in simp_all)
    with run JobFailed show ?thesis by (auto simp: complete_job_def Let_def)
  next
    case JobWaiting
    obtain r k where reg: "RegisterTask eos ?s (xc_tasks ?x ! ?s ! i) (re_kernel st) = (r, k)" by fastforce
    note regs' = regs_ok_register [OF regs reg cur s new]
    note slots' = slots_inv_drop [OF slots]
    have "join_inv plan (reactor_abort eos (?st\<lparr>re_kernel := k\<rparr>))"
      by (rule abort_join [of plan "{}" _ ?J]) (use slots' regs' in simp_all)
    moreover have "work_inv plan (?st\<lparr>re_kernel := k, re_x := (if ?b then ?x\<lparr>xc_active := xc_active ?x + 1\<rparr> else ?x), re_main := RCompleting cs\<rparr>)"
      using goal [of "?st\<lparr>re_kernel := k, re_x := (if ?b then ?x\<lparr>xc_active := xc_active ?x + 1\<rparr> else ?x)\<rparr>" "shared_jobs st"]
        slots' regs' counts_drop [OF cnt new cur len] by simp
    moreover have "st' = (if r then ?st\<lparr>re_kernel := k, re_x := (if ?b then ?x\<lparr>xc_active := xc_active ?x + 1\<rparr> else ?x)\<rparr> else ?st\<lparr>re_kernel := k\<rparr>)" "ok = r"
      using run JobWaiting reg cur by (auto simp: complete_job_def Let_def split: bool.splits)
    ultimately show ?thesis by (cases r) simp_all
  next
    case JobDone
    let ?x1 = "free_slot ?s ?b ?x" and ?st1 = "?st\<lparr>re_x := free_slot ?s ?b ?x\<rparr>"
    have slots1: "slots_inv plan {?s} (re_x ?st1) ?J" using slots_inv_free [of plan "{}" ?x ?s i ?b ?J] slots JobDone by simp
    have cnt1: "counts (re_in_flight ?st1) (re_x ?st1) ?J" using counts_free [OF cnt new cur len] by simp
    have regs1: "regs_ok plan (re_x ?st1) ?J (re_kernel ?st1)"
      using regs_ok_other [OF regs, of ?s ?J ?x1] by (force simp: same_slot_def free_slot_def)
    have none: "xc_current ?x1 ! ?s = None" using len by (simp add: free_slot_def)
    show ?thesis
    proof (cases "start_next ?s ?st1")
      case None
      have "join_inv plan (reactor_abort eos ?st1)" by (rule abort_join [OF slots1 _ regs1]) simp
      with run JobDone None show ?thesis by (auto simp: complete_job_def Let_def)
    next
      case (Some st2)
      from run JobDone Some have st': "st' = st2" "ok" by (auto simp: complete_job_def Let_def)
      from start_next_inv [OF Some slots1 _ s] consider "st2 = ?st1" "slots_inv plan {} ?x1 ?J"
        | k where "slots_inv plan {} (re_x st2) (add_mset (?s, k, True, None) ?J)" "shared_jobs st2 = add_mset (?s, k, True, None) (shared_jobs st)"
          "re_x st2 = begin_slot ?s ?x1" "re_in_flight st2 = Suc (re_in_flight ?st1)" "re_completions st2 = re_completions st"
          "re_stop st2 = re_stop st" "re_notify st2 = re_notify st" "re_workers st2 = re_workers st" "re_kernel st2 = re_kernel st"
        by auto
      then have "work_inv plan (st2\<lparr>re_main := RCompleting cs\<rparr>)"
      proof cases
        case 1
        then show ?thesis using goal [of st2 "shared_jobs st"] cnt1 regs1 by simp
      next
        case 2
        have "counts (re_in_flight st2) (re_x st2) (add_mset (?s, k, True, None) ?J)"
          using counts_begin [OF cnt1 slots1 _ s, of k] 2(3,4) by simp
        moreover have "regs_ok plan (re_x st2) (add_mset (?s, k, True, None) ?J) (re_kernel st2)"
          using regs_ok_other [OF regs1, of ?s "add_mset (?s, k, True, None) ?J" "begin_slot ?s ?x1"] none 2(3,9)
          by (force simp: same_slot_def begin_slot_def)
        ultimately show ?thesis using goal [of st2 "add_mset (?s, k, True, None) (shared_jobs st)"] 2 by simp
      qed
      with st' show ?thesis by simp
    qed
  qed
qed

subsection \<open>Steps of the workers\<close>

lemma slots_inv_worked:
  assumes "slots_inv plan L (re_x st) (jobs st)" and "w < length (re_workers st)" and "re_workers st ! w = RHas item"
    and "strip (tc_task c) = strip (xc_tasks (re_x st) ! wi_slot item ! wi_task item)" and "js = JobDone \<Longrightarrow> CollectiveDone (tc_task c)"
    and st': "st' = put_worker w (RDid (wi_task item) (completion_of item js)) (st\<lparr>re_x := slot_put (wi_slot item) (wi_task item) c (re_x st)\<rparr>)"
  shows "slots_inv plan L (re_x st') (jobs st') \<and> owned (jobs st') = owned (jobs st) \<and> wi_slot item \<in> owned (jobs st) \<and>
    (counts m (re_x st) (jobs st) \<longrightarrow> counts m (re_x st') (jobs st'))"
proof -
  obtain J where J: "jobs st = add_mset (wi_slot item, wi_task item, wi_init item, None) J"
    "jobs st' = add_mset (wi_slot item, wi_task item, wi_init item, Some js) J"
    using worked_jobs [OF assms(2,3)] st' by metis
  show ?thesis using slots_inv_work [of plan L "re_x st" _ _ _ _ J c "Some js"] counts_work assms(1,4,5) J st' by auto
qed

lemma worker_step_slots:
  assumes step: "worker_step st st'" and inv: "slots_inv plan L (re_x st) (jobs st)"
  shows "slots_inv plan L (re_x st') (jobs st') \<and> owned (jobs st') = owned (jobs st) \<and>
    (counts m (re_x st) (jobs st) \<longrightarrow> counts m (re_x st') (jobs st')) \<and>
    (regs_ok plan (re_x st) (jobs st) (re_kernel st) \<longrightarrow> regs_ok plan (re_x st') (jobs st') (re_kernel st')) \<and>
    re_main st' = re_main st \<and> re_in_flight st' = re_in_flight st \<and> re_kernel st' = re_kernel st \<and> re_stop st' = re_stop st"
proof -
  have same: ?thesis if "jobs st' = jobs st" "re_x st' = re_x st" "re_main st' = re_main st" "re_in_flight st' = re_in_flight st"
      "re_kernel st' = re_kernel st" "re_stop st' = re_stop st"
    using inv that by simp
  from step show ?thesis
  proof cases
    case (ws_take w item items)
    with take_jobs [of w st] show ?thesis by (intro same) simp_all
  next
    case (ws_leave w)
    with plain_jobs [of w st] show ?thesis by (intro same) simp_all
  next
    case (ws_work w item c js)
    note worked = slots_inv_worked [OF inv ws_work(2-5,1)]
    have "regs_ok plan (re_x st') (jobs st') (re_kernel st')" if "regs_ok plan (re_x st) (jobs st) (re_kernel st)"
      using regs_ok_other [OF that, of "wi_slot item" "jobs st'" "re_x st'"] worked ws_work(1) by (auto simp: same_slot_def slot_put_def)
    with worked ws_work(1) show ?thesis by simp
  next
    case (ws_post w i c)
    with posted_jobs [of w st i c] show ?thesis by (intro same) simp_all
  next
    case (ws_notify w)
    with plain_jobs [of w "st\<lparr>re_notify := re_notify st + 1\<rparr>"] show ?thesis by (intro same) (simp_all add: jobs_def)
  qed
qed

lemma worker_step_work:
  assumes step: "worker_step st st'" and inv: "work_inv plan st"
  shows "work_inv plan st'"
proof -
  have slots: "slots_inv plan (unstarted (re_main st)) (re_x st) (jobs st)" using inv by (simp add: work_inv_def)
  note keep = worker_step_slots [OF step slots, of "re_in_flight st"]
  have stop: "\<not> re_stop st" and left: "RLeft \<notin> set (re_workers st)"
    and signal: "re_completions st \<noteq> [] \<longrightarrow> 0 < re_notify st \<or> RPosted \<in> set (re_workers st) \<or> re_main st = RDrained"
    using inv by (simp_all add: work_inv_def)
  have "re_workers st' \<noteq> [] \<and> RLeft \<notin> set (re_workers st') \<and>
      (re_completions st' \<noteq> [] \<longrightarrow> 0 < re_notify st' \<or> RPosted \<in> set (re_workers st') \<or> re_main st = RDrained)"
    using step stop left signal
    by cases (auto simp: posted_kept dest!: set_update_subset_insert [THEN subsetD] intro: set_update_memI)
  moreover have "main_ok (length (pl_channels plan)) (re_main st') (jobs st')"
    using keep inv main_ok_owned [of "jobs st'" "jobs st"] by (simp add: work_inv_def)
  moreover have "regs_ok plan (re_x st') (jobs st') (re_kernel st')" "counts (re_in_flight st') (re_x st') (jobs st')" "\<not> re_stop st'"
    "slots_inv plan (unstarted (re_main st')) (re_x st') (jobs st')" "re_main st' = re_main st" "length (pl_channels plan) \<le> 2 ^ 31"
    using keep inv unfolding work_inv_def by metis+
  ultimately show ?thesis unfolding work_inv_def by simp
qed

subsection \<open>Steps of the thread in \<open>Run\<close>\<close>

lemma counts_zero:
  assumes "slots_inv plan {} x J" and "counts 0 x J" and "xc_active x = 0"
  shows "J = {#}" and "plan_complete plan x" and "s < length (pl_channels plan) \<Longrightarrow> xc_current x ! s = None"
proof -
  show J: "J = {#}" using assms(2) by (simp add: counts_def)
  have wf: "plan_wf plan x" using assms(1) by (simp add: slots_inv_def)
  have "card (running x J) = 0" using assms(2,3) unfolding counts_def by metis
  then have "running x J = {}" by (simp only: card_0_eq finite_running)
  with J wf show none: "xc_current x ! s = None" if "s < length (pl_channels plan)" for s
    using that by (auto simp: running_def plan_wf_def Let_def)
  have "CollectiveDone t" if "q \<in> set (xc_tasks x)" "t \<in> set q" for q t
  proof -
    obtain s k where sk: "s < length (pl_channels plan)" "q = xc_tasks x ! s" "k < length q" "t = q ! k"
      using \<open>q \<in> set (xc_tasks x)\<close> \<open>t \<in> set q\<close> plan_wf_tasks [OF wf] by (metis in_set_conv_nth)
    then have "slot_ok s x" using assms(1) by (simp add: slots_inv_def)
    with none [OF sk(1)] sk show ?thesis by (simp add: slot_ok_def Let_def)
  qed
  with wf show "plan_complete plan x" by (simp add: plan_complete_def plan_wf_def Let_def)
qed

lemma abort_work:
  assumes "work_inv plan st" and "regs k = regs (re_kernel st)"
  shows "join_inv plan (reactor_abort eos (st\<lparr>re_kernel := k\<rparr>))"
proof (rule abort_join)
  show "slots_inv plan (unstarted (re_main st)) (re_x (st\<lparr>re_kernel := k\<rparr>)) (jobs st)" using assms by (simp add: work_inv_def)
  show "shared_jobs (st\<lparr>re_kernel := k\<rparr>) \<subseteq># jobs st" by (simp add: jobs_def)
  show "regs_ok plan (re_x (st\<lparr>re_kernel := k\<rparr>)) (jobs st) (re_kernel (st\<lparr>re_kernel := k\<rparr>))"
    using assms(1) by (simp add: work_inv_def regs_ok_cong [OF assms(2)])
qed

lemma start_work:
  assumes inv: "work_inv plan st" and main: "re_main st = RStarting (s # ss)" and run: "start_next s st = Some st'"
  shows "work_inv plan (st'\<lparr>re_main := RStarting ss\<rparr>)"
proof -
  let ?x = "re_x st" and ?J = "jobs st"
  have s: "s < length (pl_channels plan)" and dist: "s \<notin> set ss" "distinct ss" "set ss \<subseteq> {..<length (pl_channels plan)}"
    and slots: "slots_inv plan (set (s # ss)) ?x ?J" and cnt: "counts (re_in_flight st) ?x ?J" and regs: "regs_ok plan ?x ?J (re_kernel st)"
    using inv main by (auto simp: work_inv_def main_ok_def unstarted_def)
  have rm: "set (s # ss) - {s} = set ss" using dist by auto
  from start_next_inv [OF run slots _ s] rm consider "st' = st" "slots_inv plan (set ss) ?x ?J"
    | k where "slots_inv plan (set ss) (re_x st') (add_mset (s, k, True, None) ?J)" "shared_jobs st' = add_mset (s, k, True, None) (shared_jobs st)"
      "re_x st' = begin_slot s ?x" "re_in_flight st' = Suc (re_in_flight st)" "re_completions st' = re_completions st"
      "re_stop st' = re_stop st" "re_notify st' = re_notify st" "re_workers st' = re_workers st" "re_kernel st' = re_kernel st"
    by auto
  then show ?thesis
  proof cases
    case 1
    then show ?thesis using inv main by (simp add: work_inv_def main_ok_def unstarted_def jobs_def)
  next
    case 2
    have none: "xc_current ?x ! s = None" using slots s by (auto simp: slots_inv_def slot_free_def)
    have "counts (re_in_flight st') (re_x st') (add_mset (s, k, True, None) ?J)"
      using counts_begin [OF cnt slots _ s, of k] 2(3,4) by simp
    moreover have "regs_ok plan (re_x st') (add_mset (s, k, True, None) ?J) (re_kernel st')"
      using regs_ok_other [OF regs, of s "add_mset (s, k, True, None) ?J" "begin_slot s ?x"] none 2(3,9)
      by (force simp: same_slot_def begin_slot_def)
    ultimately show ?thesis using 2 inv main dist by (simp add: work_inv_def main_ok_def unstarted_def jobs_def)
  qed
qed

lemma dispatch_work:
  assumes inv: "work_inv plan st" and main: "re_main st = RDispatch ((s, steps) # ready) notify"
  shows "work_inv plan ((dispatch_slot eos s steps st)\<lparr>re_main := RDispatch ready notify\<rparr>)"
proof -
  let ?x = "re_x st" and ?J = "jobs st" and ?n = "length (pl_channels plan)"
  have s: "s < ?n" "steps \<noteq> 0 \<longrightarrow> s \<notin> owned ?J" and dist: "s \<notin> fst ` set ready" "distinct (map fst ready)"
    and rest: "\<forall>(t, st) \<in> set ready. t < ?n \<and> (st \<noteq> 0 \<longrightarrow> t \<notin> owned ?J)"
    and slots: "slots_inv plan {} ?x ?J" and cnt: "counts (re_in_flight st) ?x ?J" and regs: "regs_ok plan ?x ?J (re_kernel st)"
    using inv main by (auto simp: work_inv_def main_ok_def unstarted_def)
  show ?thesis
  proof (cases "xc_current ?x ! s = None \<or> steps = 0")
    case True
    then have "dispatch_slot eos s steps st = st" by (auto simp: dispatch_slot_def split: option.splits)
    then show ?thesis using inv main by (simp add: work_inv_def main_ok_def unstarted_def jobs_def)
  next
    case False
    then obtain i where i: "xc_current ?x ! s = Some i" by auto
    let ?new = "(s, i, False, None)"
    have st': "dispatch_slot eos s steps st = PostWork \<lparr>wi_slot = s, wi_task = i, wi_init = False, wi_steps = steps\<rparr>
        (st\<lparr>re_kernel := UnregisterTask eos (xc_tasks ?x ! s ! i) (re_kernel st), re_in_flight := re_in_flight st + 1\<rparr>)"
      using False i by (simp add: dispatch_slot_def)
    have new: "s \<notin> owned ?J" using s False by blast
    have "slots_inv plan {} ?x (add_mset ?new ?J)" by (rule slots_inv_post [OF slots s(1) i new])
    moreover have "counts (Suc (re_in_flight st)) ?x (add_mset ?new ?J)" by (rule counts_post [OF cnt new])
    moreover have "regs_ok plan ?x (add_mset ?new ?J) (UnregisterTask eos (xc_tasks ?x ! s ! i) (re_kernel st))"
      by (rule regs_ok_unregister [OF regs i])
    moreover have "\<forall>(t, st) \<in> set ready. t < ?n \<and> (st \<noteq> 0 \<longrightarrow> t \<notin> owned (add_mset ?new ?J))" using rest dist by (force simp: image_iff)
    ultimately show ?thesis using inv main dist unfolding st'
      by (simp add: work_inv_def main_ok_def unstarted_def jobs_def item_job_def)
  qed
qed

lemma waited_work:
  assumes inv: "work_inv plan st" and main: "re_main st = RLoop" and wait: "ep_wait os m (re_kernel st) = (Events evs, k)"
    and collect: "collect_events eos (re_x st) evs (replicate (length (xc_current (re_x st))) 0) False = (ready, notify)"
  shows "work_inv plan (st\<lparr>re_kernel := k, re_main := RDispatch (enumerate 0 ready) notify\<rparr>)"
proof -
  let ?n = "length (pl_channels plan)"
  have n: "length (xc_current (re_x st)) = ?n" "?n \<le> 2 ^ 31" and regs: "regs_ok plan (re_x st) (jobs st) (re_kernel st)"
    using inv by (simp_all add: work_inv_def slots_inv_def plan_wf_def Let_def)
  have len: "length ready = ?n" using collect_events_ready [OF collect] n by simp
  have "s < ?n \<and> (steps \<noteq> 0 \<longrightarrow> s \<notin> owned (jobs st))" if "(s, steps) \<in> set (enumerate 0 ready)" for s steps
    using that len ready_not_owned [OF regs wait n(2) collect [unfolded n(1)], of s] by (auto simp: in_set_enumerate_eq)
  moreover have "distinct (map fst (enumerate 0 ready))" by (simp add: enumerate_map_upt)
  moreover have "regs_ok plan (re_x st) (jobs st) k" using regs regs_ok_cong(1) [OF wait_law [OF wait]] by blast
  ultimately show ?thesis using inv main by (auto simp: work_inv_def main_ok_def unstarted_def jobs_def)
qed

text \<open>The three kinds of states.\<close>

lemma step_from_work:
  assumes step: "reactor_step rt ctx os n st ev st'" and inv: "work_inv plan st"
  shows "(ev = RReturned True \<and> idle_inv st' \<and> plan_complete plan (re_x st')) \<or> (\<forall>p b. ev \<noteq> RCalled p \<and> ev \<noteq> RReturned b) \<and> (work_inv plan st' \<or> join_inv plan st')"
proof -
  have main: "re_main st \<noteq> ROutside" "re_main st \<noteq> RShutdown" "re_main st \<noteq> RJoining"
    using inv by (auto simp: work_inv_def main_ok_def)
  have plain: "work_inv plan (st\<lparr>re_main := m\<rparr>)" if "main_jobs m = []" "main_jobs (re_main st) = []" "unstarted m = unstarted (re_main st)"
      "main_ok (length (pl_channels plan)) m (jobs st)" "re_main st \<noteq> RDrained" for m
    using inv that by (auto simp: work_inv_def jobs_def)
  from step show ?thesis
  proof cases
    case (start slot slots st2)
    with start_work [OF inv start(3,4)] show ?thesis by simp
  next
    case (start_failed slot slots)
    then show ?thesis using abort_work [OF inv, of "re_kernel st"] by simp
  next
    case started
    then show ?thesis using plain [of RLoop] by (simp add: unstarted_def main_ok_def)
  next
    case finished
    have slots: "slots_inv plan {} (re_x st) (jobs st)" and cnt: "counts 0 (re_x st) (jobs st)" and regs: "regs_ok plan (re_x st) (jobs st) (re_kernel st)"
      using inv finished by (simp_all add: work_inv_def unstarted_def)
    note zero = counts_zero [OF slots cnt finished(4)]
    have "only_notify (re_kernel st)" using regs zero(3) unfolding only_notify_def regs_ok_def by (metis option.distinct(1))
    moreover have "jobs st' = {#}" using finished zero(1) by (simp add: jobs_def)
    ultimately show ?thesis using finished zero(2) inv by (simp add: idle_inv_def work_inv_def)
  next
    case (waited evs k ready notify)
    with waited_work [OF inv waited(3,5,6)] show ?thesis by simp
  next
    case (wait_interrupted k)
    then show ?thesis using inv regs_ok_cong(1) [OF wait_law [OF wait_interrupted(5)], of plan "re_x st"] by (simp add: work_inv_def jobs_def)
  next
    case (wait_failed k)
    with abort_work [OF inv wait_law [OF wait_failed(5)]] show ?thesis by simp
  next
    case (dispatch slot steps ready notify)
    with dispatch_work [OF inv dispatch(3)] show ?thesis by simp
  next
    case dispatched
    then show ?thesis using plain [of RLoop] by (simp add: unstarted_def main_ok_def)
  next
    case drain
    then show ?thesis using inv by (simp add: work_inv_def unstarted_def main_ok_def jobs_def)
  next
    case swap
    then show ?thesis using inv by (simp add: work_inv_def unstarted_def main_ok_def jobs_def shared_jobs_def)
  next
    case (complete i c cs st2)
    with complete_job_inv [OF inv complete(3,4)] show ?thesis by simp
  next
    case (complete_failed i c cs st2)
    with complete_job_inv [OF inv complete_failed(3,4)] show ?thesis by simp
  next
    case completed
    then show ?thesis using plain [of RLoop] by (simp add: unstarted_def main_ok_def)
  next
    case (take w item items)
    with worker_step_work [OF ws_take inv] show ?thesis by simp
  next
    case (leave w)
    with inv show ?thesis by (simp add: work_inv_def)
  next
    case (worked w item c)
    with worker_step_work [OF ws_worked inv] show ?thesis by simp
  next
    case (work_failed w item c s h e)
    with worker_step_work [OF ws_failed inv] show ?thesis by simp
  next
    case (posted w i c)
    with worker_step_work [OF ws_post inv] show ?thesis by simp
  next
    case (notified w)
    with worker_step_work [OF ws_notify inv] show ?thesis by simp
  qed (use main in auto)
qed

lemma join_worker: "worker_step st st' \<Longrightarrow> join_inv plan st \<Longrightarrow> join_inv plan st'"
  using worker_step_slots unfolding join_inv_def by metis

lemma step_from_join:
  assumes step: "reactor_step rt ctx os n st ev st'" and inv: "join_inv plan st"
  shows "(ev = RReturned False \<and> idle_inv st') \<or> (\<forall>p b. ev \<noteq> RCalled p \<and> ev \<noteq> RReturned b) \<and> join_inv plan st'"
proof -
  have main: "re_main st = RJoining" using inv by (simp add: join_inv_def)
  from step show ?thesis
  proof cases
    case joined
    with inv show ?thesis by (simp add: idle_inv_def join_inv_def Reactor_StopWorkers_end_def jobs_def shared_jobs_def)
  next
    case (take w item items)
    with join_worker [OF ws_take inv] show ?thesis by simp
  next
    case (leave w)
    with join_worker [OF ws_leave inv] show ?thesis by simp
  next
    case (worked w item c)
    with join_worker [OF ws_worked inv] show ?thesis by simp
  next
    case (work_failed w item c s h e)
    with join_worker [OF ws_failed inv] show ?thesis by simp
  next
    case (posted w i c)
    with join_worker [OF ws_post inv] show ?thesis by simp
  next
    case (notified w)
    with join_worker [OF ws_notify inv] show ?thesis by simp
  qed (use main in auto)
qed

lemma idle_worker:
  assumes step: "worker_step st st'" and inv: "idle_inv st" shows "idle_inv st'"
proof -
  have none: "jobs st = {#}" and main: "re_main st = ROutside \<or> re_main st = RShutdown"
    using inv by (auto simp: idle_inv_def)
  then have no: "re_queue st = []" "w < length (re_workers st) \<Longrightarrow> worker_jobs (re_workers st ! w) = []" for w
    by (auto simp: jobs_def shared_jobs_def)
  from step show ?thesis
  proof cases
    case (ws_leave w)
    with plain_jobs [of w st RLeft] none inv show ?thesis by (auto simp: idle_inv_def)
  next
    case (ws_notify w)
    have "jobs st' = jobs (st\<lparr>re_notify := re_notify st + 1\<rparr>)" unfolding ws_notify(1) by (rule plain_jobs) (use ws_notify in simp_all)
    then have "jobs st' = {#}" using none by (simp add: jobs_def)
    with ws_notify inv show ?thesis by (auto simp: idle_inv_def dest: set_update_subset_insert [THEN subsetD])
  qed (use no in force)+
qed

lemma EnsureEpoll_regs:
  assumes "Reactor_EnsureEpoll os created nfd k = (r, k')" and "only_notify k"
  shows "only_notify k'"
proof (cases created)
  case False
  obtain ok k1 where create: "ep_create os k = (ok, k1)" by fastforce
  show ?thesis
  proof (cases ok)
    case True
    obtain fd k2 where ev: "ro_eventfd os k1 = (fd, k2)" by fastforce
    obtain ok3 k3 where add: "ep_add os fd (True, False) kNotifyTag k2 = (ok3, k3)" by fastforce
    show ?thesis
      using assms(1) False create True ev add create_law [OF create] eventfd_law [OF ev] add_law [OF add]
      by (auto simp: Reactor_EnsureEpoll_def only_notify_def close_epoll_law split: if_splits bool.splits)
  next
    case False
    with assms(1) \<open>\<not> created\<close> create create_law [OF create] show ?thesis by (simp add: Reactor_EnsureEpoll_def only_notify_def)
  qed
qed (use assms in \<open>simp add: Reactor_EnsureEpoll_def\<close>)

lemma step_from_idle:
  assumes step: "reactor_step rt ctx os n st ev st'" and inv: "idle_inv st" and n: "0 < n"
    and small: "\<And>p. ev = RCalled p \<Longrightarrow> length (pl_channels p) \<le> 2 ^ 31"
  shows "(\<exists>p. ev = RCalled p \<and> work_inv p st') \<or> ev \<noteq> RReturned True \<and> (\<forall>p. ev \<noteq> RCalled p) \<and> idle_inv st'"
proof -
  have none: "jobs st = {#}" and main: "re_main st = ROutside \<or> re_main st = RShutdown" and regs: "only_notify (re_kernel st)"
    using inv by (auto simp: idle_inv_def)
  then have sj: "shared_jobs st = {#}" "re_completions st = []" by (auto simp: jobs_def shared_jobs_def)
  from step show ?thesis
  proof cases
    case (call_no_epoll plan k)
    with inv EnsureEpoll_regs [OF call_no_epoll(5)] show ?thesis by (simp add: idle_inv_def jobs_def)
  next
    case (call plan fd k)
    let ?st = "st\<lparr>re_kernel := k, re_epoll := True, re_notify_fd := fd, re_workers := Reactor_EnsureWorkers n (re_workers st),
        re_x := xcfg_start plan (xc_heap (re_x st)) (xc_net (re_x st)), re_in_flight := 0, re_main := RStarting [0..<length (pl_channels plan)]\<rparr>"
    have keep: "\<not> re_stop st" "RLeft \<notin> set (re_workers st)" using inv call(3) by (simp_all add: idle_inv_def)
    have "shared_jobs (st\<lparr>re_workers := Reactor_EnsureWorkers n (re_workers st)\<rparr>) = {#}"
      using sj by (auto simp: shared_jobs_def Reactor_EnsureWorkers_def)
    then have J: "jobs ?st = {#}" by (simp add: jobs_def shared_jobs_def)
    have "slots_inv plan {0..<length (pl_channels plan)} (xcfg_start plan (xc_heap (re_x st)) (xc_net (re_x st))) {#}"
      using xcfg_start_ok(1) [of plan "xc_heap (re_x st)" "xc_net (re_x st)"] xcfg_start_ok(2) [of _ plan "xc_heap (re_x st)" "xc_net (re_x st)"] plan_tasks_def [of plan]
      by (simp add: slots_inv_def plan_wf_def xcfg_wf_def single_def Let_def)
    moreover have "counts 0 (xcfg_start plan (xc_heap (re_x st)) (xc_net (re_x st))) {#}"
      by (simp add: counts_def running_def xcfg_start_def Let_def)
    moreover have "only_notify k" by (rule EnsureEpoll_regs [OF call(5) regs])
    moreover have "Reactor_EnsureWorkers n (re_workers st) \<noteq> []" "RLeft \<notin> set (Reactor_EnsureWorkers n (re_workers st))"
      using n keep by (auto simp: Reactor_EnsureWorkers_def)
    moreover have "length (pl_channels plan) \<le> 2 ^ 31" by (rule small [OF call(1)])
    ultimately have "work_inv plan ?st"
      using J keep sj by (simp add: work_inv_def main_ok_def unstarted_def regs_ok_start lessThan_atLeast0)
    with call show ?thesis by simp
  next
    case shutdown
    with inv show ?thesis by (simp add: idle_inv_def jobs_def)
  next
    case shut
    then show ?thesis
      using regs by (auto simp: idle_inv_def Reactor_StopWorkers_end_def Reactor_close_def jobs_def shared_jobs_def only_notify_def
          close_law close_epoll_law Let_def split: if_splits)
  next
    case (take w item items)
    with idle_worker [OF ws_take inv] show ?thesis by simp
  next
    case (leave w)
    with idle_worker [OF ws_leave inv] show ?thesis by simp
  next
    case (worked w item c)
    with idle_worker [OF ws_worked inv] show ?thesis by simp
  next
    case (work_failed w item c s h e)
    with idle_worker [OF ws_failed inv] show ?thesis by simp
  next
    case (posted w i c)
    with idle_worker [OF ws_post inv] show ?thesis by simp
  next
    case (notified w)
    with idle_worker [OF ws_notify inv] show ?thesis by simp
  qed (use main in auto)
qed

subsection \<open>All executions\<close>

definition state_ok :: "reactor_event list \<Rightarrow> ('e, 'k) reactor \<Rightarrow> bool" where
  "state_ok tr st \<longleftrightarrow> idle_inv st \<or> (\<exists>plan. last_called tr = Some plan \<and> (work_inv plan st \<or> join_inv plan st))"

lemma last_called_quiet: "(\<forall>p b. ev \<noteq> RCalled p \<and> ev \<noteq> RReturned b) \<Longrightarrow> last_called (ev # tr) = last_called tr"
  by (cases ev) auto

lemma new_idle: "regs k = Map.empty \<Longrightarrow> idle_inv (reactor_new h e k)"
  by (simp add: idle_inv_def reactor_new_def jobs_def shared_jobs_def only_notify_def)

lemma run_state_ok:
  assumes "reactor_run rt ctx os n (reactor_new h e k) tr st" and "regs k = Map.empty" and "0 < n"
    and "\<And>p. RCalled p \<in> set tr \<Longrightarrow> length (pl_channels p) \<le> 2 ^ 31"
  shows "state_ok tr st"
  using assms(1,4)
proof (induction rule: reactor_run.induct)
  case run_none
  with new_idle [OF assms(2)] show ?case by (simp add: state_ok_def)
next
  case (run_more tr st ev st')
  then have "state_ok tr st" and small: "\<And>p. ev = RCalled p \<Longrightarrow> length (pl_channels p) \<le> 2 ^ 31" by auto
  then consider "idle_inv st" | plan where "last_called tr = Some plan" "work_inv plan st"
    | plan where "last_called tr = Some plan" "join_inv plan st"
    by (auto simp: state_ok_def)
  then show ?case
  proof cases
    case 1
    from step_from_idle [OF run_more(2) 1 assms(3) small] show ?thesis by (cases ev) (auto simp: state_ok_def)
  next
    case (2 plan)
    from step_from_work [OF run_more(2) 2(2)] 2(1) last_called_quiet [of ev tr] show ?thesis by (fastforce simp: state_ok_def)
  next
    case (3 plan)
    from step_from_join [OF run_more(2) 3(2)] 3(1) last_called_quiet [of ev tr] show ?thesis by (fastforce simp: state_ok_def)
  qed
qed

lemma Run_returns_true:
  assumes "reactor_run rt ctx os n (reactor_new h e k) (RReturned True # tr) st" and "regs k = Map.empty" and "0 < n"
    and "\<And>p. RCalled p \<in> set tr \<Longrightarrow> length (pl_channels p) \<le> 2 ^ 31"
  shows "\<exists>plan. last_called tr = Some plan \<and> plan_complete plan (re_x st) \<and> only_notify (re_kernel st)"
proof -
  from assms(1) obtain st0 where run: "reactor_run rt ctx os n (reactor_new h e k) tr st0" and step: "reactor_step rt ctx os n st0 (RReturned True) st"
    by cases auto
  have "state_ok tr st0" by (rule run_state_ok [OF run assms(2-4)])
  then consider "idle_inv st0" | plan where "last_called tr = Some plan" "work_inv plan st0"
    | plan where "last_called tr = Some plan" "join_inv plan st0"
    by (auto simp: state_ok_def)
  then show ?thesis
  proof cases
    case 1
    from step_from_idle [OF step 1 assms(3)] show ?thesis by auto
  next
    case (2 plan)
    from step_from_work [OF step 2(2)] 2(1) show ?thesis by (auto simp: idle_inv_def)
  next
    case (3 plan)
    from step_from_join [OF step 3(2)] show ?thesis by auto
  qed
qed

lemma held_owned:
  assumes "w < length (re_workers st)" and "re_workers st ! w = RHas item"
  shows "wi_slot item \<in> owned (jobs st)"
  using worked_jobs [OF assms] by (metis insertI1 owned_simps(2))

lemma held_distinct:
  assumes single: "single (jobs st)" and w: "w < length (re_workers st)" "re_workers st ! w = RHas item"
    and v: "v < length (re_workers st)" "re_workers st ! v = RHas item'" and "w \<noteq> v"
  shows "wi_slot item \<noteq> wi_slot item'"
proof -
  obtain J where J: "jobs st = add_mset (wi_slot item, wi_task item, wi_init item, None) J"
    "\<And>x js. jobs (put_worker w (RDid (wi_task item) (completion_of item js)) (st\<lparr>re_x := x\<rparr>)) = add_mset (wi_slot item, wi_task item, wi_init item, Some js) J"
    using worked_jobs [OF w] by metis
  let ?st = "put_worker w (RDid (wi_task item) (completion_of item JobFailed)) (st\<lparr>re_x := re_x st\<rparr>)"
  have "v < length (re_workers ?st)" "re_workers ?st ! v = RHas item'" using v \<open>w \<noteq> v\<close> by simp_all
  from worked_jobs [OF this] obtain J' where "jobs ?st = add_mset (wi_slot item', wi_task item', wi_init item', None) J'" by metis
  with J(2) [of "JobFailed" "re_x st"] have eq: "add_mset (wi_slot item, wi_task item, wi_init item, Some JobFailed) J =
      add_mset (wi_slot item', wi_task item', wi_init item', None) J'" by simp
  have "(wi_slot item', wi_task item', wi_init item', None) \<in># add_mset (wi_slot item, wi_task item, wi_init item, Some JobFailed) J"
    unfolding eq by simp
  then have "wi_slot item' \<in> owned J" by (force simp: owned_def)
  with single J(1) show ?thesis by (auto simp: single_add)
qed

lemma slot_tags_disjoint: "tag \<in> slot_tags s \<Longrightarrow> tag \<in> slot_tags t \<Longrightarrow> s < 2 ^ 31 \<Longrightarrow> t < 2 ^ 31 \<Longrightarrow> s = t"
  using slot_tags_slot by metis

lemma state_ok_exclusive:
  assumes ok: "state_ok tr st" and w: "w < length (re_workers st)" "re_workers st ! w = RHas item"
  shows "v < length (re_workers st) \<Longrightarrow> re_workers st ! v = RHas item' \<Longrightarrow> v \<noteq> w \<Longrightarrow> wi_slot item' \<noteq> wi_slot item"
    and "regs (re_kernel st) fd = Some tag \<Longrightarrow> tag \<noteq> kNotifyTag \<Longrightarrow> tag \<notin> slot_tags (wi_slot item)"
proof -
  have own: "wi_slot item \<in> owned (jobs st)" by (rule held_owned [OF w])
  then have "\<not> idle_inv st" by (auto simp: idle_inv_def)
  with ok obtain plan L where slots: "slots_inv plan L (re_x st) (jobs st)"
    and regs: "length (pl_channels plan) \<le> 2 ^ 31 \<and> regs_ok plan (re_x st) (jobs st) (re_kernel st) \<or> only_notify (re_kernel st)"
    unfolding state_ok_def work_inv_def join_inv_def by blast
  show "wi_slot item' \<noteq> wi_slot item" if "v < length (re_workers st)" "re_workers st ! v = RHas item'" "v \<noteq> w"
    using held_distinct [OF _ that(1,2) w that(3)] slots by (simp add: slots_inv_def)
  show "tag \<notin> slot_tags (wi_slot item)" if fd: "regs (re_kernel st) fd = Some tag" "tag \<noteq> kNotifyTag"
  proof
    assume tag: "tag \<in> slot_tags (wi_slot item)"
    from regs fd obtain t where t: "length (pl_channels plan) \<le> 2 ^ 31" "t < length (pl_channels plan)" "t \<notin> owned (jobs st)" "tag \<in> slot_tags t"
      unfolding regs_ok_def only_notify_def by blast
    obtain k b r where "(wi_slot item, k, b, r) \<in># jobs st" using own by (auto simp: owned_def)
    from slots_invD(1) [OF slots this] have "wi_slot item < length (pl_channels plan)" .
    with slot_tags_disjoint [OF tag t(4)] t own show False by auto
  qed
qed

lemma state_ok_no_lost_wakeup:
  assumes ok: "state_ok tr st" and main: "re_main st = RLoop" and busy: "0 < re_in_flight st"
  shows "0 < re_notify st \<or> (\<exists>ev st'. reactor_step rt ctx os n st ev st' \<and> re_workers st' \<noteq> re_workers st)"
proof (rule disjCI)
  assume idle: "\<nexists>ev st'. reactor_step rt ctx os n st ev st' \<and> re_workers st' \<noteq> re_workers st"
  from ok main obtain plan where inv: "work_inv plan st" by (auto simp: state_ok_def idle_inv_def join_inv_def)
  have ws: "re_workers st ! w = RIdle \<and> re_queue st = []" if w: "w < length (re_workers st)" for w
  proof (cases "re_workers st ! w")
    case RIdle
    have "re_queue st = []"
    proof (rule ccontr)
      assume "re_queue st \<noteq> []"
      then obtain item items where "re_queue st = item # items" by (cases "re_queue st") auto
      moreover have "\<not> re_stop st" using inv by (simp add: work_inv_def)
      ultimately have "reactor_step rt ctx os n st RInternal (put_worker w (RHas item) (st\<lparr>re_queue := items\<rparr>))"
        using w RIdle by (intro reactor_step.take)
      moreover have "(re_workers st)[w := RHas item] \<noteq> re_workers st" using w RIdle by (metis nth_list_update_eq reactor_pc.distinct(1))
      ultimately show False using idle by fastforce
    qed
    with RIdle show ?thesis by simp
  next
    case (RHas item)
    let ?c = "slot_cfg (wi_slot item) (wi_task item) (re_x st)"
    have neq: "(re_workers st)[w := RDid i c] \<noteq> re_workers st" for i c using w RHas by (metis nth_list_update_eq reactor_pc.distinct(9))
    show ?thesis
    proof (cases "do_work rt ctx item ?c")
      case None
      from idle reactor_step.work_failed [OF w RHas None refl] neq show ?thesis by fastforce
    next
      case (Some c)
      from idle reactor_step.worked [OF w RHas Some] neq show ?thesis by fastforce
    qed
  next
    case (RDid i c)
    have "(re_workers st)[w := RPosted] \<noteq> re_workers st" using w RDid by (metis nth_list_update_eq reactor_pc.distinct(15))
    with idle reactor_step.posted [OF w RDid] show ?thesis by fastforce
  next
    case RPosted
    have "(re_workers st)[w := RIdle] \<noteq> re_workers st" using w RPosted by (metis nth_list_update_eq reactor_pc.distinct(5))
    with idle reactor_step.notified [OF w RPosted] show ?thesis by fastforce
  next
    case RLeft
    with inv nth_mem [OF w] show ?thesis by (simp add: work_inv_def)
  qed
  have "re_queue st = []" using ws [of 0] inv by (auto simp: work_inv_def)
  moreover have "concat (map worker_jobs (re_workers st)) = []" using ws by (auto simp: in_set_conv_nth)
  ultimately have "jobs st = mset (map done_job (re_completions st))" using main by (simp add: jobs_def shared_jobs_def)
  moreover have "size (jobs st) = re_in_flight st" using inv by (simp add: work_inv_def counts_def)
  ultimately have "re_completions st \<noteq> []" using busy by auto
  moreover have "RPosted \<notin> set (re_workers st)" using ws by (metis in_set_conv_nth reactor_pc.distinct(5))
  ultimately show "0 < re_notify st" using inv main by (auto simp: work_inv_def)
qed

end

end
