(* ===== verification/Occl_Reactor_Correct.thy ===== *)
theory Occl_Reactor_Correct
  imports Occl_Reactor_Invariant
begin

section \<open>The reactor executor: theorems\<close>

text \<open>
  An epoll instance with an eventfd: the registrations, and for each coming wait the events that are pending. It
  reports only registered tags.
\<close>

record reactor_kern =
  rk_regs :: "(int \<times> 32 word) list"
  rk_events :: "(32 word \<times> bool \<times> bool) list list"

definition kern_reactor :: "reactor_kern reactor_os" where
  "kern_reactor = \<lparr>ep_create = (\<lambda>k. (True, k\<lparr>rk_regs := []\<rparr>)),
     ep_add = (\<lambda>fd ev tag k. if map_of (rk_regs k) fd \<noteq> None then (False, k) else (True, k\<lparr>rk_regs := (fd, tag) # rk_regs k\<rparr>)),
     ep_del = (\<lambda>fd k. k\<lparr>rk_regs := filter (\<lambda>r. fst r \<noteq> fd) (rk_regs k)\<rparr>),
     ep_wait = (\<lambda>n k. case rk_events k of [] \<Rightarrow> (WaitFailed, k)
        | evs # rest \<Rightarrow> (Events (filter (\<lambda>ev. fst ev \<in> ran (map_of (rk_regs k))) evs), k\<lparr>rk_events := rest\<rparr>)),
     ep_fd = int, ep_events = (\<lambda>t. (odd t, even t)),
     ro_eventfd = (\<lambda>k. (100, k)), ro_close = (\<lambda>fd k. k\<lparr>rk_regs := filter (\<lambda>r. fst r \<noteq> fd) (rk_regs k)\<rparr>),
     ro_close_epoll = (\<lambda>k. k\<lparr>rk_regs := []\<rparr>)\<rparr>"

lemma map_of_filter_fst: "map_of (filter (\<lambda>r. fst r \<noteq> x) rs) = (map_of rs)(x := None)"
  by (induction rs) (auto simp: fun_eq_iff)

interpretation kern_re: reactor_kernel kern_reactor "\<lambda>k. map_of (rk_regs k)"
  by unfold_locales (auto simp: kern_reactor_def map_of_filter_fst split: if_splits list.splits)

subsection \<open>A run\<close>

text \<open>
  One channel with one empty message, one worker. The script below is one interleaving; every state in it is given
  by the step relation.
\<close>

definition demo_empty_task :: PlanTask where
  "demo_empty_task = PlanTask_default\<lparr>pt_func := Send, pt_topology := Some P2pTopology, pt_send_transports := [2], pt_elem_count := 0\<rparr>"

definition demo_reactor_plan :: CollPlan where
  "demo_reactor_plan = \<lparr>pl_channels = [\<lparr>cp_channel_id = 0, cp_tasks = [demo_empty_task]\<rparr>], pl_slices = []\<rparr>"

definition demo_kern :: reactor_kern where
  "demo_kern = \<lparr>rk_regs = [], rk_events = [[(kNotifyTag, True, False)]]\<rparr>"

definition demo_item :: WorkItem where
  "demo_item = \<lparr>wi_slot = 0, wi_task = 0, wi_init = True, wi_steps = 0\<rparr>"

abbreviation demo_heap :: heap where "demo_heap \<equiv> tc_heap demo_ring"
abbreviation demo_net :: script_env where "demo_net \<equiv> tc_net demo_ring"

definition demo_busy :: "reactor_pc \<Rightarrow> WorkItem list \<Rightarrow> reactor_main \<Rightarrow> (script_env, reactor_kern) reactor" where
  "demo_busy w queue m = \<lparr>re_x = \<lparr>xc_tasks = [[demo_empty_task]], xc_current = [Some 0], xc_index = [1], xc_active = 0, xc_heap = demo_heap, xc_net = demo_net\<rparr>,
     re_in_flight = 1, re_queue = queue, re_completions = [], re_stop = False, re_notify = 0, re_workers = [w], re_epoll = True, re_notify_fd = 100,
     re_kernel = \<lparr>rk_regs = [(100, kNotifyTag)], rk_events = [[(kNotifyTag, True, False)]]\<rparr>, re_main = m\<rparr>"

abbreviation demo_run :: "reactor_event list \<Rightarrow> (script_env, reactor_kern) reactor \<Rightarrow> bool" where
  "demo_run \<equiv> reactor_run script_rt demo_ctx kern_reactor 1 (reactor_new demo_heap demo_net demo_kern)"

lemma demo_run_started: "demo_run [RInternal, RInternal, RCalled demo_reactor_plan] (demo_busy RIdle [demo_item] RLoop)"
proof -
  let ?st0 = "reactor_new demo_heap demo_net demo_kern"
  let ?k = "\<lparr>rk_regs = [(100, kNotifyTag)], rk_events = [[(kNotifyTag, True, False)]]\<rparr>"
  let ?st1 = "?st0\<lparr>re_kernel := ?k, re_epoll := True, re_notify_fd := 100, re_workers := Reactor_EnsureWorkers 1 (re_workers ?st0),
      re_x := xcfg_start demo_reactor_plan (xc_heap (re_x ?st0)) (xc_net (re_x ?st0)), re_in_flight := 0, re_main := RStarting [0..<length (pl_channels demo_reactor_plan)]\<rparr>"
  have "Reactor_EnsureEpoll kern_reactor False (-1) demo_kern = (Some 100, ?k)"
    by (simp add: Reactor_EnsureEpoll_def kern_reactor_def demo_kern_def)
  then have s1: "reactor_step script_rt demo_ctx kern_reactor 1 ?st0 (RCalled demo_reactor_plan) ?st1"
    by (intro reactor_step.call) (simp_all add: reactor_new_def demo_reactor_plan_def)
  have next_task: "start_next 0 ?st1 = Some (demo_busy RIdle [demo_item] (RStarting [0]))"
    by (simp add: start_next_def demo_busy_def demo_item_def PostWork_def reactor_new_def xcfg_start_def demo_reactor_plan_def
        demo_empty_task_def Reactor_EnsureWorkers_def)
  have "reactor_step script_rt demo_ctx kern_reactor 1 ?st1 RInternal ((demo_busy RIdle [demo_item] (RStarting [0]))\<lparr>re_main := RStarting []\<rparr>)"
    by (rule reactor_step.start [OF _ next_task]) (simp add: demo_reactor_plan_def)
  then have s2: "reactor_step script_rt demo_ctx kern_reactor 1 ?st1 RInternal (demo_busy RIdle [demo_item] (RStarting []))"
    by (simp add: demo_busy_def)
  have "reactor_step script_rt demo_ctx kern_reactor 1 (demo_busy RIdle [demo_item] (RStarting [])) RInternal
      ((demo_busy RIdle [demo_item] (RStarting []))\<lparr>re_main := RLoop\<rparr>)"
    by (rule reactor_step.started) (simp add: demo_busy_def)
  then have s3: "reactor_step script_rt demo_ctx kern_reactor 1 (demo_busy RIdle [demo_item] (RStarting [])) RInternal (demo_busy RIdle [demo_item] RLoop)"
    by (simp add: demo_busy_def)
  show ?thesis by (rule run_more [OF run_more [OF run_more [OF run_none s1] s2] s3])
qed

lemma demo_run_taken: "demo_run [RInternal, RInternal, RInternal, RCalled demo_reactor_plan] (demo_busy (RHas demo_item) [] RLoop)"
proof -
  let ?st = "demo_busy RIdle [demo_item] RLoop"
  have "reactor_step script_rt demo_ctx kern_reactor 1 ?st RInternal (put_worker 0 (RHas demo_item) (?st\<lparr>re_queue := []\<rparr>))"
    by (rule reactor_step.take) (simp_all add: demo_busy_def)
  then have "reactor_step script_rt demo_ctx kern_reactor 1 ?st RInternal (demo_busy (RHas demo_item) [] RLoop)"
    by (simp add: demo_busy_def put_worker_def)
  from run_more [OF demo_run_started this] show ?thesis .
qed

definition demo_done_task :: PlanTask where
  "demo_done_task = demo_empty_task\<lparr>pt_state := CollOpState_default\<lparr>st_send_progress := [0], st_recv_progress := [], st_send_done := [False], st_recv_done := [], st_phase := 1\<rparr>\<rparr>"

definition demo_late :: "reactor_pc \<Rightarrow> (nat \<times> Completion) list \<Rightarrow> nat \<Rightarrow> reactor_main \<Rightarrow> nat option \<Rightarrow> nat \<Rightarrow> (32 word \<times> bool \<times> bool) list list \<Rightarrow>
    (script_env, reactor_kern) reactor" where
  "demo_late w cs notify m cur flying evs = \<lparr>re_x = \<lparr>xc_tasks = [[demo_done_task]], xc_current = [cur], xc_index = [1], xc_active = 0, xc_heap = demo_heap, xc_net = demo_net\<rparr>,
     re_in_flight = flying, re_queue = [], re_completions = cs, re_stop = False, re_notify = notify, re_workers = [w], re_epoll = True, re_notify_fd = 100,
     re_kernel = \<lparr>rk_regs = [(100, kNotifyTag)], rk_events = evs\<rparr>, re_main = m\<rparr>"

abbreviation demo_events :: "(32 word \<times> bool \<times> bool) list list" where
  "demo_events \<equiv> [[(kNotifyTag, True, False)]]"

abbreviation demo_completion :: Completion where
  "demo_completion \<equiv> \<lparr>co_slot = 0, co_init = True, co_state = JobDone\<rparr>"

abbreviation demo_step :: "(script_env, reactor_kern) reactor \<Rightarrow> reactor_event \<Rightarrow> (script_env, reactor_kern) reactor \<Rightarrow> bool" where
  "demo_step \<equiv> reactor_step script_rt demo_ctx kern_reactor 1"

lemma demo_work:
  "do_work script_rt demo_ctx demo_item (slot_cfg 0 0 (re_x (demo_busy (RHas demo_item) [] RLoop))) =
     Some \<lparr>tc_task = demo_done_task, tc_heap = demo_heap, tc_net = demo_net\<rparr>"
  by (simp add: do_work_def demo_item_def slot_cfg_def demo_busy_def demo_empty_task_def CollectiveInit_def P2p_CollectiveInit_def
      Let_def upd_state_def set_phase_def demo_done_task_def PlanTask_default_def)

lemma demo_worked: "demo_step (demo_busy (RHas demo_item) [] RLoop) (RWorked 0 0) (demo_late (RDid 0 demo_completion) [] 0 RLoop (Some 0) 1 demo_events)"
proof -
  let ?st = "demo_busy (RHas demo_item) [] RLoop" and ?c = "\<lparr>tc_task = demo_done_task, tc_heap = demo_heap, tc_net = demo_net\<rparr>"
  have w: "0 < length (re_workers ?st)" "re_workers ?st ! 0 = RHas demo_item" by (simp_all add: demo_busy_def)
  have work: "do_work script_rt demo_ctx demo_item (slot_cfg (wi_slot demo_item) (wi_task demo_item) (re_x ?st)) = Some ?c"
    using demo_work by (simp add: demo_item_def)
  have "CollectiveDone demo_done_task"
    by (simp add: CollectiveDone_def P2p_CollectiveDone_def demo_done_task_def demo_empty_task_def)
  then show ?thesis using reactor_step.worked [OF w work, of kern_reactor 1]
    by (simp add: demo_item_def demo_late_def demo_busy_def put_worker_def slot_put_def completion_of_def)
qed

lemma demo_tail:
  "demo_step (demo_late (RDid 0 demo_completion) [] 0 RLoop (Some 0) 1 demo_events) RInternal (demo_late RPosted [(0, demo_completion)] 0 RLoop (Some 0) 1 demo_events)"
  "demo_step (demo_late RPosted [(0, demo_completion)] 0 RLoop (Some 0) 1 demo_events) RInternal (demo_late RIdle [(0, demo_completion)] 1 RLoop (Some 0) 1 demo_events)"
  "demo_step (demo_late RIdle [(0, demo_completion)] 1 RLoop (Some 0) 1 demo_events) RInternal (demo_late RIdle [(0, demo_completion)] 1 (RDispatch [(0, 0)] True) (Some 0) 1 [])"
  "demo_step (demo_late RIdle [(0, demo_completion)] 1 (RDispatch [(0, 0)] True) (Some 0) 1 []) RInternal (demo_late RIdle [(0, demo_completion)] 1 (RDispatch [] True) (Some 0) 1 [])"
  "demo_step (demo_late RIdle [(0, demo_completion)] 1 (RDispatch [] True) (Some 0) 1 []) RInternal (demo_late RIdle [(0, demo_completion)] 0 RDrained (Some 0) 1 [])"
  "demo_step (demo_late RIdle [(0, demo_completion)] 0 RDrained (Some 0) 1 []) RInternal (demo_late RIdle [] 0 (RCompleting [(0, demo_completion)]) (Some 0) 1 [])"
  "demo_step (demo_late RIdle [] 0 (RCompleting [(0, demo_completion)]) (Some 0) 1 []) RInternal (demo_late RIdle [] 0 (RCompleting []) None 0 [])"
  "demo_step (demo_late RIdle [] 0 (RCompleting []) None 0 []) RInternal (demo_late RIdle [] 0 RLoop None 0 [])"
  "demo_step (demo_late RIdle [] 0 RLoop None 0 []) (RReturned True) (demo_late RIdle [] 0 ROutside None 0 [])"
proof -
  let ?a = "demo_late (RDid 0 demo_completion) [] 0 RLoop (Some 0) 1 demo_events"
  have "demo_step ?a RInternal (put_worker 0 RPosted (?a\<lparr>re_completions := re_completions ?a @ [(0, demo_completion)]\<rparr>))"
    by (rule reactor_step.posted) (simp_all add: demo_late_def)
  then show "demo_step ?a RInternal (demo_late RPosted [(0, demo_completion)] 0 RLoop (Some 0) 1 demo_events)"
    by (simp add: demo_late_def put_worker_def)
next
  let ?a = "demo_late RPosted [(0, demo_completion)] 0 RLoop (Some 0) 1 demo_events"
  have "demo_step ?a RInternal (put_worker 0 RIdle (?a\<lparr>re_notify := re_notify ?a + 1\<rparr>))"
    by (rule reactor_step.notified) (simp_all add: demo_late_def)
  then show "demo_step ?a RInternal (demo_late RIdle [(0, demo_completion)] 1 RLoop (Some 0) 1 demo_events)"
    by (simp add: demo_late_def put_worker_def)
next
  let ?a = "demo_late RIdle [(0, demo_completion)] 1 RLoop (Some 0) 1 demo_events"
  have "demo_step ?a RInternal (?a\<lparr>re_kernel := \<lparr>rk_regs = [(100, kNotifyTag)], rk_events = []\<rparr>, re_main := RDispatch (enumerate 0 [0]) True\<rparr>)"
    by (rule reactor_step.waited [where evs = "[(kNotifyTag, True, False)]"]) (simp_all add: demo_late_def kern_reactor_def)
  then show "demo_step ?a RInternal (demo_late RIdle [(0, demo_completion)] 1 (RDispatch [(0, 0)] True) (Some 0) 1 [])"
    by (simp add: demo_late_def)
next
  let ?a = "demo_late RIdle [(0, demo_completion)] 1 (RDispatch [(0, 0)] True) (Some 0) 1 []"
  have "demo_step ?a RInternal ((dispatch_slot (epoll_os.truncate kern_reactor) 0 0 ?a)\<lparr>re_main := RDispatch [] True\<rparr>)"
    by (rule reactor_step.dispatch) (simp add: demo_late_def)
  then show "demo_step ?a RInternal (demo_late RIdle [(0, demo_completion)] 1 (RDispatch [] True) (Some 0) 1 [])"
    by (simp add: demo_late_def dispatch_slot_def)
next
  let ?a = "demo_late RIdle [(0, demo_completion)] 1 (RDispatch [] True) (Some 0) 1 []"
  have "demo_step ?a RInternal (?a\<lparr>re_notify := 0, re_main := RDrained\<rparr>)" by (rule reactor_step.drain) (simp add: demo_late_def)
  then show "demo_step ?a RInternal (demo_late RIdle [(0, demo_completion)] 0 RDrained (Some 0) 1 [])" by (simp add: demo_late_def)
next
  let ?a = "demo_late RIdle [(0, demo_completion)] 0 RDrained (Some 0) 1 []"
  have "demo_step ?a RInternal (?a\<lparr>re_completions := [], re_main := RCompleting (re_completions ?a)\<rparr>)"
    by (rule reactor_step.swap) (simp add: demo_late_def)
  then show "demo_step ?a RInternal (demo_late RIdle [] 0 (RCompleting [(0, demo_completion)]) (Some 0) 1 [])" by (simp add: demo_late_def)
next
  let ?a = "demo_late RIdle [] 0 (RCompleting [(0, demo_completion)]) (Some 0) 1 []"
  have "complete_job (epoll_os.truncate kern_reactor) demo_completion ?a = (demo_late RIdle [] 0 (RCompleting [(0, demo_completion)]) None 0 [], True)"
    by (simp add: complete_job_def demo_late_def free_slot_def start_next_def)
  from reactor_step.complete [OF _ this] have "demo_step ?a RInternal ((demo_late RIdle [] 0 (RCompleting [(0, demo_completion)]) None 0 [])\<lparr>re_main := RCompleting []\<rparr>)"
    by (simp add: demo_late_def)
  then show "demo_step ?a RInternal (demo_late RIdle [] 0 (RCompleting []) None 0 [])" by (simp add: demo_late_def)
next
  let ?a = "demo_late RIdle [] 0 (RCompleting []) None 0 []"
  have "demo_step ?a RInternal (?a\<lparr>re_main := RLoop\<rparr>)" by (rule reactor_step.completed) (simp add: demo_late_def)
  then show "demo_step ?a RInternal (demo_late RIdle [] 0 RLoop None 0 [])" by (simp add: demo_late_def)
next
  let ?a = "demo_late RIdle [] 0 RLoop None 0 []"
  have "demo_step ?a (RReturned True) (?a\<lparr>re_main := ROutside\<rparr>)" by (rule reactor_step.finished) (simp_all add: demo_late_def)
  then show "demo_step ?a (RReturned True) (demo_late RIdle [] 0 ROutside None 0 [])" by (simp add: demo_late_def)
qed

text \<open>The events up to the return.\<close>

definition demo_trace :: "reactor_event list" where
  "demo_trace = replicate 8 RInternal @ [RWorked 0 0, RInternal, RInternal, RInternal, RCalled demo_reactor_plan]"

lemma demo_run_returned: "demo_run (RReturned True # demo_trace) (demo_late RIdle [] 0 ROutside None 0 [])"
proof -
  note r = run_more [OF run_more [OF demo_run_taken demo_worked] demo_tail(1)]
  note r = run_more [OF run_more [OF run_more [OF r demo_tail(2)] demo_tail(3)] demo_tail(4)]
  note r = run_more [OF run_more [OF run_more [OF r demo_tail(5)] demo_tail(6)] demo_tail(7)]
  from run_more [OF run_more [OF r demo_tail(8)] demo_tail(9)] show ?thesis by (simp add: demo_trace_def numeral_eq_Suc)
qed

lemma demo_small: "RCalled p \<in> set tr \<Longrightarrow> set tr \<subseteq> {RInternal, RWorked 0 0, RCalled demo_reactor_plan} \<Longrightarrow> length (pl_channels p) \<le> 2 ^ 31"
  by (auto simp: demo_reactor_plan_def)

subsection \<open>The properties\<close>

text \<open>
  C31. If \<open>Run\<close> of the reactor executor returns true, then every task of every channel of the plan it was called with
  is done and has kept its parameters, and no descriptor but the eventfd is registered, however the threads
  interleave, for any number of workers and any sequence of earlier calls, failures and shutdowns.
\<close>

theorem reactor_Run_complete:
  assumes "reactor_kernel os regs" and "regs k = Map.empty" and "0 < n"
    and "\<And>p. RCalled p \<in> set tr \<Longrightarrow> length (pl_channels p) \<le> 2 ^ 31"
    and "reactor_run rt ctx os n (reactor_new h e k) (RReturned True # tr) st"
  shows "\<exists>plan. last_called tr = Some plan \<and> map (map strip) (xc_tasks (re_x st)) = plan_tasks plan \<and>
    (\<forall>q \<in> set (xc_tasks (re_x st)). \<forall>t \<in> set q. CollectiveDone t) \<and> ran (regs (re_kernel st)) \<subseteq> {kNotifyTag}"
  using reactor_kernel.Run_returns_true [OF assms(1,5,2,3)] assms(4) reactor_kernel.only_notify_def [OF assms(1)]
  by (auto simp: plan_complete_def ran_def)

lemma reactor_Run_complete_witness:
  "\<exists>plan. last_called demo_trace = Some plan \<and> length (pl_channels plan) = 1 \<and> ran (map_of (rk_regs (re_kernel (demo_late RIdle [] 0 ROutside None 0 [])))) \<subseteq> {kNotifyTag}"
proof -
  have small: "length (pl_channels p) \<le> 2 ^ 31" if "RCalled p \<in> set demo_trace" for p
    using demo_small [OF that] by (auto simp: demo_trace_def)
  have "last_called demo_trace = Some demo_reactor_plan" by (simp add: demo_trace_def numeral_eq_Suc)
  with reactor_Run_complete [OF kern_re.reactor_kernel_axioms _ _ small demo_run_returned] show ?thesis
    by (simp add: demo_kern_def demo_reactor_plan_def)
qed

text \<open>
  C32. Two workers never work on the same channel at a time, and while a worker has the task of a channel, none of the
  channel's descriptors is registered, so that no event can hand the task to a second worker.
\<close>

theorem reactor_exclusive:
  assumes "reactor_kernel os regs" and "regs k = Map.empty" and "0 < n"
    and "\<And>p. RCalled p \<in> set tr \<Longrightarrow> length (pl_channels p) \<le> 2 ^ 31"
    and "reactor_run rt ctx os n (reactor_new h e k) tr st" and "w < length (re_workers st)" and "re_workers st ! w = RHas item"
  shows "(\<forall>v < length (re_workers st). \<forall>item'. v \<noteq> w \<longrightarrow> re_workers st ! v = RHas item' \<longrightarrow> wi_slot item' \<noteq> wi_slot item) \<and>
    (\<forall>fd tag. regs (re_kernel st) fd = Some tag \<longrightarrow> tag \<noteq> kNotifyTag \<longrightarrow>
       tag \<noteq> word_of_nat (wi_slot item) * 2 \<and> tag \<noteq> word_of_nat (wi_slot item) * 2 + 1)"
proof -
  note ok = reactor_kernel.run_state_ok [OF assms(1,5,2,3) assms(4)]
  show ?thesis
    using reactor_kernel.state_ok_exclusive [OF assms(1) ok assms(6,7)] reactor_kernel.slot_tags_def [OF assms(1)] by auto
qed

lemma reactor_exclusive_witness:
  "re_workers (demo_busy (RHas demo_item) [] RLoop) ! 0 = RHas demo_item \<and>
     \<not> (\<exists>fd. map_of (rk_regs (re_kernel (demo_busy (RHas demo_item) [] RLoop))) fd = Some 0)"
proof -
  let ?st = "demo_busy (RHas demo_item) [] RLoop" and ?tr = "[RInternal, RInternal, RInternal, RCalled demo_reactor_plan]"
  have small: "length (pl_channels p) \<le> 2 ^ 31" if "RCalled p \<in> set ?tr" for p
    using demo_small [OF that] by simp
  have w: "0 < length (re_workers ?st)" "re_workers ?st ! 0 = RHas demo_item" by (simp_all add: demo_busy_def)
  have "0 \<noteq> kNotifyTag" by (simp add: kNotifyTag_def)
  moreover have "word_of_nat (wi_slot demo_item) * 2 = (0 :: 32 word)" by (simp add: demo_item_def)
  moreover have "\<forall>fd tag. map_of (rk_regs (re_kernel ?st)) fd = Some tag \<longrightarrow> tag \<noteq> kNotifyTag \<longrightarrow>
      tag \<noteq> word_of_nat (wi_slot demo_item) * 2 \<and> tag \<noteq> word_of_nat (wi_slot demo_item) * 2 + 1"
    using reactor_exclusive [OF kern_re.reactor_kernel_axioms _ _ small demo_run_taken w] by (simp add: demo_kern_def)
  ultimately show ?thesis using w(2) by metis
qed

text \<open>
  C33. No completion is lost: whenever \<open>Run\<close> is about to wait while work is in flight, the eventfd is readable or some
  worker can take a step. In particular a completion posted between draining the eventfd and taking the queue, or
  just after, is seen by the next wait.
\<close>

theorem reactor_no_lost_completion:
  assumes "reactor_kernel os regs" and "regs k = Map.empty" and "0 < n"
    and "\<And>p. RCalled p \<in> set tr \<Longrightarrow> length (pl_channels p) \<le> 2 ^ 31"
    and "reactor_run rt ctx os n (reactor_new h e k) tr st" and "re_main st = RLoop" and "0 < re_in_flight st"
  shows "0 < re_notify st \<or> (\<exists>ev st'. reactor_step rt ctx os n st ev st' \<and> re_workers st' \<noteq> re_workers st)"
  using reactor_kernel.state_ok_no_lost_wakeup [OF assms(1) reactor_kernel.run_state_ok [OF assms(1,5,2,3) assms(4)] assms(6,7)] .

lemma reactor_no_lost_completion_witness:
  "re_notify (demo_busy RIdle [demo_item] RLoop) = 0 \<and>
     (\<exists>ev st'. demo_step (demo_busy RIdle [demo_item] RLoop) ev st' \<and> re_workers st' \<noteq> [RIdle])"
proof -
  let ?st = "demo_busy RIdle [demo_item] RLoop" and ?tr = "[RInternal, RInternal, RCalled demo_reactor_plan]"
  have small: "length (pl_channels p) \<le> 2 ^ 31" if "RCalled p \<in> set ?tr" for p
    using demo_small [OF that] by simp
  have st: "re_main ?st = RLoop" "0 < re_in_flight ?st" "re_notify ?st = 0" "re_workers ?st = [RIdle]" by (simp_all add: demo_busy_def)
  from reactor_no_lost_completion [OF kern_re.reactor_kernel_axioms _ _ small demo_run_started st(1,2)] st(3,4) show ?thesis
    by (simp add: demo_kern_def)
qed

end
