(* ===== verification/Occl_Typed.thy ===== *)
theory Occl_Typed
  imports Occl_Executor_Correct
begin

section \<open>The state vectors of a task\<close>

text \<open>
  The state machines index the progress and done vectors of a task by transport. In every reachable state of an
  unfinished task each of these vectors has exactly one entry per transport, so that no access is out of range.
\<close>

definition sized :: "'e tcfg \<Rightarrow> bool" where
  "sized c \<longleftrightarrow> (let t = tc_task c; s = pt_state t in
     length (st_send_progress s) = length (pt_send_transports t) \<and> length (st_send_done s) = length (pt_send_transports t) \<and>
     length (st_recv_progress s) = length (pt_recv_transports t) \<and> length (st_recv_done s) = length (pt_recv_transports t))"

lemma sized_mem [simp]: "sized (mem_store p bs c) = sized c" "sized (memcpy p q n c) = sized c"
    "sized (reduce_mem rt p q n d op c) = sized c" "sized (average_mem rt p n d ws c) = sized c" "sized (ReduceBlock rt p q c) = sized c"
proof -
  show store: "sized (mem_store p bs c) = sized c" for p bs and c :: "'a tcfg" by (simp add: sized_def Let_def)
  show "sized (memcpy p q n c) = sized c" "sized (reduce_mem rt p q n d op c) = sized c"
    "sized (average_mem rt p n d ws c) = sized c" "sized (ReduceBlock rt p q c) = sized c"
    by (simp_all add: memcpy_def reduce_mem_def average_mem_def ReduceBlock_def store)
qed

lemma sized_push: "push_send rt p n i c = Some c' \<Longrightarrow> sized c \<Longrightarrow> sized c'" "push_recv rt p n i c = Some c' \<Longrightarrow> sized c \<Longrightarrow> sized c'"
  by (auto simp: push_send_def push_recv_def sized_def upd_state_def Let_def split: if_splits option.splits)

lemma sized_PushBuffer: "PushBuffer rt ev p q m n c = Some c' \<Longrightarrow> sized c \<Longrightarrow> sized c'"
  unfolding PushBuffer_def
  by (cases ev; simp; erule for_opt_invariant [where P = sized]) (auto intro: sized_push)

lemma sized_BeginPhase: "BeginPhase rt ph p q m n c = Some c' \<Longrightarrow> sized c'"
proof -
  have "sized (start_phase ph m n c)" by (simp add: start_phase_def sized_def upd_state_def Let_def)
  moreover assume "BeginPhase rt ph p q m n c = Some c'"
  ultimately show ?thesis by (auto simp: BeginPhase_def bind_eq_Some_conv intro: sized_PushBuffer)
qed

abbreviation sized_or_done :: "'e tcfg \<Rightarrow> bool" where
  "sized_or_done c \<equiv> st_phase (tc_state c) = kPhaseDone \<or> sized c"

lemma sized_bodies:
  "broadcast_body rt c = Some c' \<Longrightarrow> sized c'" "allgather_body rt c = Some c' \<Longrightarrow> sized c'" "reduce_body rt c = Some c' \<Longrightarrow> sized c'"
  "reducescatter_body rt c = Some c' \<Longrightarrow> sized c'" "allreduce_body rt c = Some c' \<Longrightarrow> sized_or_done c'"
proof -
  show "broadcast_body rt c = Some c' \<Longrightarrow> sized c'" "allgather_body rt c = Some c' \<Longrightarrow> sized c'" "reduce_body rt c = Some c' \<Longrightarrow> sized c'"
    "reducescatter_body rt c = Some c' \<Longrightarrow> sized c'"
    by (auto simp: broadcast_body_def allgather_body_def reduce_body_def reducescatter_body_def Let_def
        dest: sized_BeginPhase split: option.splits prod.splits)
  have "allreduce_cursor c1 = (c2, False) \<Longrightarrow> st_phase (tc_state c2) = kPhaseDone" for c1 c2 :: "'a tcfg"
    by (auto simp: allreduce_cursor_def Let_def upd_state_def split: if_splits)
  then show "allreduce_body rt c = Some c' \<Longrightarrow> sized_or_done c'"
    by (auto simp: allreduce_body_def allreduce_begin_def Let_def dest: sized_BeginPhase split: option.splits prod.splits bool.splits)
qed

lemma sized_loops:
  "CompleteBroadcast rt c = Some c' \<Longrightarrow> sized_or_done c \<Longrightarrow> sized_or_done c'"
  "CompleteAllGather rt c = Some c' \<Longrightarrow> sized_or_done c \<Longrightarrow> sized_or_done c'"
  "CompleteReduce rt c = Some c' \<Longrightarrow> sized_or_done c \<Longrightarrow> sized_or_done c'"
  "CompleteReduceScatter rt c = Some c' \<Longrightarrow> sized_or_done c \<Longrightarrow> sized_or_done c'"
  "CompleteAllreduce rt c = Some c' \<Longrightarrow> sized_or_done c \<Longrightarrow> sized_or_done c'"
proof -
  show "CompleteBroadcast rt c = Some c' \<Longrightarrow> sized_or_done c \<Longrightarrow> sized_or_done c'"
  proof (induction rt c rule: CompleteBroadcast.induct)
    case (1 rt c)
    then show ?case by (cases "loop_on c") (auto simp: CompleteBroadcast.simps [of rt c] split: option.splits dest: sized_bodies(1))
  qed
  show "CompleteAllGather rt c = Some c' \<Longrightarrow> sized_or_done c \<Longrightarrow> sized_or_done c'"
  proof (induction rt c rule: CompleteAllGather.induct)
    case (1 rt c)
    then show ?case by (cases "loop_on c") (auto simp: CompleteAllGather.simps [of rt c] split: option.splits dest: sized_bodies(2))
  qed
  show "CompleteReduce rt c = Some c' \<Longrightarrow> sized_or_done c \<Longrightarrow> sized_or_done c'"
  proof (induction rt c rule: CompleteReduce.induct)
    case (1 rt c)
    then show ?case by (cases "loop_on c") (auto simp: CompleteReduce.simps [of rt c] split: option.splits dest: sized_bodies(3))
  qed
  show "CompleteReduceScatter rt c = Some c' \<Longrightarrow> sized_or_done c \<Longrightarrow> sized_or_done c'"
  proof (induction rt c rule: CompleteReduceScatter.induct)
    case (1 rt c)
    then show ?case by (cases "loop_on c") (auto simp: CompleteReduceScatter.simps [of rt c] split: option.splits dest: sized_bodies(4))
  qed
  show "CompleteAllreduce rt c = Some c' \<Longrightarrow> sized_or_done c \<Longrightarrow> sized_or_done c'"
  proof (induction rt c rule: CompleteAllreduce.induct)
    case (1 rt c)
    then show ?case by (cases "loop_on c") (auto simp: CompleteAllreduce.simps [of rt c] split: option.splits dest: sized_bodies(5))
  qed
qed

lemma sized_ring_init:
  "AllreduceInit rt c = Some c' \<Longrightarrow> sized_or_done c'" "BroadcastInit rt c = Some c' \<Longrightarrow> sized_or_done c'"
  "AllGatherInit rt c = Some c' \<Longrightarrow> sized_or_done c'" "ReduceInit rt c = Some c' \<Longrightarrow> sized_or_done c'"
  "ReduceScatterInit rt c = Some c' \<Longrightarrow> sized_or_done c'"
  unfolding AllreduceInit_def BroadcastInit_def AllGatherInit_def ReduceInit_def ReduceScatterInit_def Let_def allreduce_begin_def
  by (auto simp: bind_eq_Some_conv split: if_splits dest!: sized_BeginPhase sized_loops)

lemma sized_ring_step:
  "AllreduceStep rt ev c = Some c' \<Longrightarrow> sized_or_done c \<Longrightarrow> sized_or_done c'" "BroadcastStep rt ev c = Some c' \<Longrightarrow> sized_or_done c \<Longrightarrow> sized_or_done c'"
  "AllGatherStep rt ev c = Some c' \<Longrightarrow> sized_or_done c \<Longrightarrow> sized_or_done c'" "ReduceStep rt ev c = Some c' \<Longrightarrow> sized_or_done c \<Longrightarrow> sized_or_done c'"
  "ReduceScatterStep rt ev c = Some c' \<Longrightarrow> sized_or_done c \<Longrightarrow> sized_or_done c'"
proof -
  have step: "sized_or_done c'"
    if run: "Option.bind (if st_phase (tc_state c) = kPhaseUnstarted then init else Some c) (\<lambda>c1.
        if st_phase (tc_state c1) = kPhaseDone then Some c1
        else Option.bind (PushBuffer rt ev (p c1) (q c1) (m c1) (n c1) c1) complete) = Some c'"
      and init: "\<And>x. init = Some x \<Longrightarrow> sized_or_done x" and complete: "\<And>x y. complete x = Some y \<Longrightarrow> sized_or_done x \<Longrightarrow> sized_or_done y"
      and c: "sized_or_done c" for init p q m n complete
  proof -
    obtain c1 where c1: "(if st_phase (tc_state c) = kPhaseUnstarted then init else Some c) = Some c1"
      and rest: "(if st_phase (tc_state c1) = kPhaseDone then Some c1
        else Option.bind (PushBuffer rt ev (p c1) (q c1) (m c1) (n c1) c1) complete) = Some c'"
      using run by (auto simp: bind_eq_Some_conv)
    have "sized_or_done c1" using c1 c init [of c1] by (cases "st_phase (tc_state c) = kPhaseUnstarted") auto
    with rest show ?thesis
    proof (cases "st_phase (tc_state c1) = kPhaseDone")
      case False
      then obtain c2 where "PushBuffer rt ev (p c1) (q c1) (m c1) (n c1) c1 = Some c2" "complete c2 = Some c'"
        using rest by (auto simp: bind_eq_Some_conv)
      with complete sized_PushBuffer False \<open>sized_or_done c1\<close> show ?thesis by metis
    qed simp
  qed
  show "AllreduceStep rt ev c = Some c' \<Longrightarrow> sized_or_done c \<Longrightarrow> sized_or_done c'"
    unfolding AllreduceStep_def Let_def by (erule step) (erule sized_ring_init(1) | erule (1) sized_loops(5) | assumption)+
  show "BroadcastStep rt ev c = Some c' \<Longrightarrow> sized_or_done c \<Longrightarrow> sized_or_done c'"
    unfolding BroadcastStep_def Let_def by (erule step) (erule sized_ring_init(2) | erule (1) sized_loops(1) | assumption)+
  show "AllGatherStep rt ev c = Some c' \<Longrightarrow> sized_or_done c \<Longrightarrow> sized_or_done c'"
    unfolding AllGatherStep_def Let_def by (erule step) (erule sized_ring_init(3) | erule (1) sized_loops(2) | assumption)+
  show "ReduceStep rt ev c = Some c' \<Longrightarrow> sized_or_done c \<Longrightarrow> sized_or_done c'"
    unfolding ReduceStep_def Let_def by (erule step) (erule sized_ring_init(4) | erule (1) sized_loops(3) | assumption)+
  show "ReduceScatterStep rt ev c = Some c' \<Longrightarrow> sized_or_done c \<Longrightarrow> sized_or_done c'"
    unfolding ReduceScatterStep_def Let_def by (erule step) (erule sized_ring_init(5) | erule (1) sized_loops(4) | assumption)+
qed

lemma sized_Ring:
  "Ring_CollectiveInit rt c = Some c' \<Longrightarrow> sized_or_done c'"
  "Ring_CollectiveStep rt ev c = Some c' \<Longrightarrow> sized_or_done c \<Longrightarrow> sized_or_done c'"
  unfolding Ring_CollectiveInit_def Ring_CollectiveStep_def
  by (cases "pt_func (tc_task c)"; simp; erule sized_ring_init sized_ring_step; assumption?)+

subsection \<open>The tree and the point-to-point machine\<close>

lemma sized_upd [simp]:
  "sized (upd_state (\<lambda>s. s\<lparr>st_recv_progress := (st_recv_progress s)[i := a], st_recv_done := (st_recv_done s)[i := b]\<rparr>) c) = sized c"
  "sized (upd_state (\<lambda>s. s\<lparr>st_send_progress := (st_send_progress s)[i := a], st_send_done := (st_send_done s)[i := b]\<rparr>) c) = sized c"
  "sized (upd_state (\<lambda>s. s\<lparr>st_recv_chunk := f s\<rparr>) c) = sized c" "sized (upd_state (\<lambda>s. s\<lparr>st_send_chunk := f s\<rparr>) c) = sized c"
  "sized (c\<lparr>tc_net := e\<rparr>) = sized c" "sized (set_phase ph c) = sized c" "sized (resize_temp n c) = sized c"
  by (simp_all add: sized_def upd_state_def Let_def set_phase_def resize_temp_def)

lemma sized_ReduceChunk [simp]: "sized (ReduceChunk rt k l c) = sized c"
  by (simp add: ReduceChunk_def Let_def)

lemma sized_tree_steps:
  "tree_recv_step rt roles ld i c = Some (c', b) \<Longrightarrow> sized c \<Longrightarrow> sized c'" "tree_send_step rt ld j c = Some (c', b) \<Longrightarrow> sized c \<Longrightarrow> sized c'"
  by (auto simp: tree_recv_step_def tree_send_step_def Let_def split: option.splits prod.splits if_splits)

lemma sized_recv_edge: "recv_edge rt roles ld n i c = Some c' \<Longrightarrow> sized c \<Longrightarrow> sized c'"
proof (induction rt roles ld n i c rule: recv_edge.induct)
  case (1 rt roles ld n i c)
  then show ?case
    by (subst (asm) (2) recv_edge.simps) (auto split: if_splits option.splits prod.splits bool.splits dest: sized_tree_steps(1))
qed

lemma sized_send_edge: "send_edge rt ld g j c = Some c' \<Longrightarrow> sized c \<Longrightarrow> sized c'"
proof (induction rt ld g j c rule: send_edge.induct)
  case (1 rt ld g j c)
  then show ?case
    by (subst (asm) (2) send_edge.simps) (auto split: if_splits option.splits prod.splits bool.splits dest: sized_tree_steps(2))
qed

lemma sized_tree_push: "tree_push rt roles ld c = Some c' \<Longrightarrow> sized c \<Longrightarrow> sized c'"
proof -
  have "PushRecvs rt roles ld x = Some y \<Longrightarrow> sized x \<Longrightarrow> sized y" for x y
    unfolding PushRecvs_def Let_def by (erule for_opt_invariant [where P = sized]) (auto split: if_splits dest: sized_recv_edge)
  moreover have "PushSends rt roles ld x = Some y \<Longrightarrow> sized x \<Longrightarrow> sized y" for x y
    unfolding PushSends_def Let_def by (erule for_opt_invariant [where P = sized]) (auto split: if_splits dest: sized_send_edge)
  moreover assume "tree_push rt roles ld c = Some c'" "sized c"
  ultimately show ?thesis by (auto simp: tree_push_def bind_eq_Some_conv)
qed

lemma sized_EnterDown [simp]: "sized (EnterDown rt roles ld c)"
proof -
  have "sized (upd_state (\<lambda>s. s\<lparr>st_phase := ph, st_recv_chunk := f s, st_send_chunk := g s,
      st_recv_progress := replicate (length (pt_recv_transports (tc_task c))) 0, st_send_progress := replicate (length (pt_send_transports (tc_task c))) 0,
      st_recv_done := replicate (length (pt_recv_transports (tc_task c))) True, st_send_done := replicate (length (pt_send_transports (tc_task c))) True\<rparr>) c)"
    for ph f g by (simp add: sized_def upd_state_def Let_def)
  then show ?thesis by (simp add: EnterDown_def Let_def)
qed

lemma sized_Advance: "Advance rt roles ld c = Some c' \<Longrightarrow> sized c \<Longrightarrow> sized c'"
proof (induction rt roles ld c rule: Advance.induct)
  case (1 rt roles ld c)
  show ?case
  proof (cases "st_phase (tc_state c) = kPhaseUp \<and> UpComplete (tc_task c) roles ld")
    case True
    then obtain c1 where push: "tree_push rt roles ld (EnterDown rt roles ld c) = Some c1" and rest: "Advance rt roles ld c1 = Some c'"
      using 1(2) by (auto simp: Advance.simps [of rt roles ld c] kPhaseUp_def kPhaseDown_def split: option.splits)
    with 1(1) [OF refl _ _ _ _ push rest] True sized_tree_push [OF push] show ?thesis by (simp add: kPhaseUp_def kPhaseDown_def)
  next
    case False
    with 1(2,3) show ?thesis by (auto simp: Advance.simps [of rt roles ld c] Let_def split: if_splits)
  qed
qed

lemma sized_reset:
  "sized (upd_state (\<lambda>s. CollOpState_default\<lparr>st_send_progress := replicate (length (pt_send_transports (tc_task c))) a,
     st_recv_progress := replicate (length (pt_recv_transports (tc_task c))) b,
     st_send_done := replicate (length (pt_send_transports (tc_task c))) d, st_recv_done := replicate (length (pt_recv_transports (tc_task c))) e,
     st_send_chunk := ks, st_recv_chunk := ls\<rparr>) c)"
  "sized (upd_state (\<lambda>s. CollOpState_default\<lparr>st_send_progress := replicate (length (pt_send_transports (tc_task c))) a,
     st_recv_progress := replicate (length (pt_recv_transports (tc_task c))) b,
     st_send_done := replicate (length (pt_send_transports (tc_task c))) d, st_recv_done := replicate (length (pt_recv_transports (tc_task c))) e\<rparr>) c)"
  by (simp_all add: sized_def upd_state_def Let_def)

lemma sized_TreeInit: "TreeInit rt roles ld c = Some c' \<Longrightarrow> sized c'"
  unfolding TreeInit_def Let_def
  by (auto simp: bind_eq_Some_conv sized_reset split: if_splits dest!: sized_Advance sized_tree_push)

lemma sized_P2p_Step: "P2p_CollectiveStep rt ev c = Some c' \<Longrightarrow> sized c \<Longrightarrow> sized c'"
  by (auto simp: P2p_CollectiveStep_def Let_def sized_def upd_state_def split: if_splits list.splits option.splits prod.splits)

subsection \<open>Every machine\<close>

text \<open>The phase of a finished point-to-point task is 1, so its vectors are sized throughout.\<close>

definition machine_sized :: "'e tcfg \<Rightarrow> bool" where
  "machine_sized c \<longleftrightarrow> pt_topology (tc_task c) \<noteq> None \<and> (if pt_topology (tc_task c) = Some P2pTopology then sized c else sized_or_done c)"

lemma sized_Init: "CollectiveInit rt ctx c = Some c' \<Longrightarrow> machine_sized c'"
proof -
  assume run: "CollectiveInit rt ctx c = Some c'"
  then obtain k where k: "pt_topology (tc_task c) = Some k" by (auto simp: CollectiveInit_def split: option.splits)
  have "pt_topology (tc_task c') = Some k" using params_fields(1) [OF CollectiveInit_params [OF run]] k by simp
  with run k show ?thesis
    by (cases k) (auto simp: machine_sized_def CollectiveInit_def Tree_CollectiveInit_def P2p_CollectiveInit_def Let_def sized_reset
        split: if_splits option.splits dest: sized_Ring(1) sized_TreeInit sized_P2p_Step)
qed

lemma sized_Step: "CollectiveStep rt ctx ev c = Some c' \<Longrightarrow> machine_sized c \<Longrightarrow> machine_sized c'"
proof -
  assume run: "CollectiveStep rt ctx ev c = Some c'" and inv: "machine_sized c"
  obtain k where k: "pt_topology (tc_task c) = Some k" using run by (auto simp: CollectiveStep_def split: option.splits)
  have k': "pt_topology (tc_task c') = Some k" using params_fields(1) [OF CollectiveStep_params [OF run]] k by simp
  show ?thesis
  proof (cases k)
    case RingTopology
    with run inv k k' show ?thesis by (auto simp: machine_sized_def CollectiveStep_def dest: sized_Ring(2))
  next
    case TreeTopology
    with run k obtain roles c1 where init: "(if st_phase (tc_state c) = kPhaseUnstarted then TreeInit rt roles (tx_leader ctx) c else Some c) = Some c1"
      and rest: "(if st_phase (tc_state c1) = kPhaseDone then Some c1
        else Option.bind (tree_push rt roles (tx_leader ctx) c1) (Advance rt roles (tx_leader ctx))) = Some c'"
      by (auto simp: CollectiveStep_def Tree_CollectiveStep_def bind_eq_Some_conv split: option.splits)
    have "sized_or_done c1" using init inv k TreeTopology by (auto simp: machine_sized_def dest: sized_TreeInit split: if_splits)
    with rest have "sized_or_done c'" by (auto simp: bind_eq_Some_conv split: if_splits dest: sized_tree_push sized_Advance)
    with k' TreeTopology show ?thesis by (simp add: machine_sized_def)
  next
    case P2pTopology
    with run inv k k' show ?thesis by (auto simp: machine_sized_def CollectiveStep_def dest: sized_P2p_Step)
  qed
qed

text \<open>
  C37. In every state in which an executor looks at a task, unless the task is done, the progress and done vectors have
  exactly one entry per transport and direction, and the parameters of the task are those it was started with: no
  step of any of the state machines resizes a vector or overwrites a parameter.
\<close>

theorem driven_typed:
  assumes "driven rt ctx c0 c" and "\<not> CollectiveDone (tc_task c)"
  shows "length (st_send_progress (tc_state c)) = length (pt_send_transports (tc_task c0)) \<and>
    length (st_send_done (tc_state c)) = length (pt_send_transports (tc_task c0)) \<and>
    length (st_recv_progress (tc_state c)) = length (pt_recv_transports (tc_task c0)) \<and>
    length (st_recv_done (tc_state c)) = length (pt_recv_transports (tc_task c0)) \<and>
    (tc_task c)\<lparr>pt_state := CollOpState_default\<rparr> = (tc_task c0)\<lparr>pt_state := CollOpState_default\<rparr>"
proof -
  have "machine_sized c \<and> params c = params c0"
    using assms(1) by (induction rule: driven.induct) (auto dest: sized_Init sized_Step CollectiveInit_params CollectiveStep_params)
  moreover have "sized c" if "machine_sized c"
    using that assms(2) by (auto simp: machine_sized_def CollectiveDone_def Ring_CollectiveDone_def Tree_CollectiveDone_def
        split: if_splits option.splits TopologyKind.splits)
  ultimately show ?thesis using params_fields(4,5) [of c c0] by (simp add: sized_def Let_def params_def)
qed

lemma driven_typed_witness:
  "\<exists>c. CollectiveInit script_rt demo_ctx demo_ring = Some c \<and> length (st_send_progress (tc_state c)) = length (pt_send_transports (tc_task demo_ring))"
proof -
  have "map_option (\<lambda>c. CollectiveDone (tc_task c)) (CollectiveInit script_rt demo_ctx demo_ring) = Some False" by code_simp
  then obtain c where c: "CollectiveInit script_rt demo_ctx demo_ring = Some c" "\<not> CollectiveDone (tc_task c)" by auto
  with driven_typed [OF driven_init [OF c(1)]] show ?thesis by blast
qed

end
