(* ===== verification/Occl_Rdma.thy ===== *)
theory Occl_Rdma
  imports Occl_Shm
begin

section \<open>The RDMA transport: data plane\<close>

text \<open>
  \<open>src/transport/transport_rdma.cpp\<close>: the producer writes chunks of at most 32 KiB into the slots of a ring in the
  consumer's registered memory, each with an immediate value that names the slot and the length; the consumer
  announces freed slots with credit writes. The verbs library is a record of operations on an environment, which
  also holds the registered buffer of this endpoint, because the network card writes to it: \<open>vb_load\<close> and
  \<open>vb_store\<close> are the accesses of the program. Immediates are in host order; \<open>htonl\<close> and \<open>ntohl\<close> cancel. The slot
  counters are \<open>size_t\<close> counters of slots and are natural numbers here.
\<close>

definition kRdmaInlineThreshold :: nat where "kRdmaInlineThreshold = 64"
definition kCreditImmediate :: "32 word" where "kCreditImmediate = 0x80000000"
definition kCreditBatch :: nat where "kCreditBatch = 8"
definition kControlTimeoutMs :: nat where "kControlTimeoutMs = 30000"
definition kCopyRepeat :: nat where "kCopyRepeat = 100"
definition kRdmaSlotSize :: nat where "kRdmaSlotSize = 32768"
definition kRdmaSlotCount :: nat where "kRdmaSlotCount = 32"
definition kRdmaControlOffset :: nat where "kRdmaControlOffset = 0"
definition kRdmaControlSize :: nat where "kRdmaControlSize = 256"
definition kRdmaCreditOffset :: nat where "kRdmaCreditOffset = 256"
definition kRdmaScratchOffset :: nat where "kRdmaScratchOffset = 4096"
definition kRdmaRecvPool :: nat where "kRdmaRecvPool = 64"
definition kRdmaRingOffset :: nat where "kRdmaRingOffset = 32768"
definition kRdmaBufferSize :: nat where "kRdmaBufferSize = kRdmaRingOffset + kRdmaSlotSize * kRdmaSlotCount"

lemmas rdma_sizes = kRdmaSlotSize_def kRdmaSlotCount_def kRdmaControlOffset_def kRdmaControlSize_def kRdmaCreditOffset_def
  kRdmaScratchOffset_def kRdmaRecvPool_def kRdmaRingOffset_def kRdmaBufferSize_def

definition EncodeDataImmediate :: "nat \<Rightarrow> nat \<Rightarrow> 32 word" where
  "EncodeDataImmediate slot len = or (push_bit 16 (word_of_nat slot)) (word_of_nat (len - 1))"

definition ImmediateSlot :: "32 word \<Rightarrow> nat" where
  "ImmediateSlot imm = unat (drop_bit 16 imm)"

definition ImmediateLength :: "32 word \<Rightarrow> nat" where
  "ImmediateLength imm = unat (and imm 0xFFFF) + 1"

lemma small_word_bit: "n < 2 ^ j \<Longrightarrow> j \<le> k \<Longrightarrow> j < 32 \<Longrightarrow> \<not> bit (word_of_nat n :: 32 word) k"
proof -
  assume n: "n < 2 ^ j" and k: "j \<le> k" and j: "j < 32"
  have "(2::nat) ^ j \<le> 2 ^ 32" by (rule power_increasing) (use j in simp_all)
  moreover have "(2::nat) ^ j \<le> 2 ^ k" by (rule power_increasing) (use k in simp_all)
  ultimately have "n < 2 ^ 32" and "n < 2 ^ k" using n by linarith+
  hence "unat (word_of_nat n :: 32 word) = n" and "n div 2 ^ k = 0" by (simp_all add: unat_of_nat take_bit_nat_eq_self)
  hence "\<not> bit (unat (word_of_nat n :: 32 word)) k" by (simp add: bit_iff_odd)
  thus ?thesis by (simp add: bit_unsigned_iff)
qed

lemma immediate_roundtrip:
  assumes "slot < 2 ^ 15" and "0 < len" and "len \<le> 2 ^ 16"
  shows "ImmediateSlot (EncodeDataImmediate slot len) = slot" and "ImmediateLength (EncodeDataImmediate slot len) = len"
    and "and (EncodeDataImmediate slot len) kCreditImmediate = 0"
proof -
  let ?s = "word_of_nat slot :: 32 word" and ?l = "word_of_nat (len - 1) :: 32 word"
  have bit_l: "k < 16" if "bit ?l k" for k
    using small_word_bit [of "len - 1" 16 k] that assms(2,3) by force
  have bit_s: "k < 15" if "bit ?s k" for k
    using small_word_bit [of slot 15 k] that assms(1) by force
  have "drop_bit 16 (or (push_bit 16 ?s) ?l) = ?s"
    by (rule bit_word_eqI) (use bit_l bit_s in \<open>fastforce simp: bit_drop_bit_eq bit_or_iff bit_push_bit_iff\<close>)
  moreover have "unat ?s = slot" using assms(1) by (simp add: unat_of_nat take_bit_nat_eq_self)
  ultimately show "ImmediateSlot (EncodeDataImmediate slot len) = slot" by (simp add: ImmediateSlot_def EncodeDataImmediate_def)
  have "and (or (push_bit 16 ?s) ?l) (mask 16) = ?l"
    by (rule bit_word_eqI) (use bit_l in \<open>auto simp: bit_and_iff bit_or_iff bit_push_bit_iff bit_mask_iff\<close>)
  moreover have "(0xFFFF :: 32 word) = mask 16" by (simp add: mask_eq_exp_minus_1)
  moreover have "unat (word_of_nat n :: 32 word) = n" if "n < 2 ^ 16" for n
    using that by (simp add: unat_of_nat take_bit_nat_eq_self)
  moreover have "len - 1 < 2 ^ 16" using assms(2,3) by simp
  ultimately have "unat ?l = len - 1" and "and (or (push_bit 16 ?s) ?l) (mask 16) = ?l" and "(0xFFFF :: 32 word) = mask 16" by blast+
  thus "ImmediateLength (EncodeDataImmediate slot len) = len" using assms(2)
    by (simp add: ImmediateLength_def EncodeDataImmediate_def)
  have top: "k = 31" if "bit (push_bit 31 (1 :: 32 word)) k" for k
    using that unfolding bit_push_bit_iff bit_1_iff by auto
  have "(0x80000000 :: 32 word) = push_bit 31 1" by simp
  moreover have "and (or (push_bit 16 ?s) ?l) (push_bit 31 1) = 0"
  proof (rule bit_word_eqI)
    fix k assume "k < LENGTH(32)"
    have "\<not> bit (or (push_bit 16 ?s) ?l) 31" using bit_l [of 31] bit_s [of 15] by (auto simp: bit_or_iff bit_push_bit_iff)
    thus "bit (and (or (push_bit 16 ?s) ?l) (push_bit 31 1)) k = bit 0 k" using top [of k] unfolding bit_and_iff by auto
  qed
  ultimately show "and (EncodeDataImmediate slot len) kCreditImmediate = 0"
    unfolding kCreditImmediate_def EncodeDataImmediate_def by metis
qed

subsection \<open>The verbs and the endpoint\<close>

text \<open>
  The data of a request: copied into it, a range of the registered buffer that the card accesses later, or a range
  of the address space of the program.
\<close>

datatype sge = InlineData "byte list" | Staged nat nat | UserRange nat nat

datatype wr_opcode = WrSend | WrRdmaWriteWithImm
datatype wc_opcode = WcSend | WcRdmaWrite | WcRecv | WcRecvRdmaWithImm | WcOther

record recv_wr =
  rw_id :: nat
  rw_data :: sge

record send_wr =
  sw_id :: nat
  sw_opcode :: wr_opcode
  sw_signaled :: bool
  sw_imm :: "32 word"
  sw_remote :: "64 word"
  sw_rkey :: "32 word"
  sw_data :: sge

record ibv_wc =
  wc_success :: bool
  wc_opcode :: wc_opcode
  wc_id :: nat
  wc_byte_len :: nat
  wc_imm :: "32 word"
  wc_qp_num :: nat

record 'e verbs =
  vb_load :: "nat \<Rightarrow> nat \<Rightarrow> 'e \<Rightarrow> byte list"
  vb_store :: "nat \<Rightarrow> byte list \<Rightarrow> 'e \<Rightarrow> 'e"
  vb_qp_num :: "nat \<Rightarrow> nat"
  vb_post_recv :: "nat \<Rightarrow> recv_wr list \<Rightarrow> 'e \<Rightarrow> bool \<times> 'e"
  vb_post_send :: "nat \<Rightarrow> send_wr list \<Rightarrow> 'e \<Rightarrow> bool \<times> 'e"
  vb_poll_cq :: "nat \<Rightarrow> 'e \<Rightarrow> ibv_wc list option \<times> 'e"
  vb_readable :: "int \<Rightarrow> nat \<Rightarrow> 'e \<Rightarrow> bool \<times> 'e"
  vb_get_event :: "'e \<Rightarrow> bool \<times> 'e"
  vb_req_notify :: "'e \<Rightarrow> bool \<times> 'e"

record Wire =
  wi_base_addr :: "64 word"
  wi_rkey :: "32 word"
  wi_tail :: "byte list"

text \<open>\<open>TransportRDMA\<close>. A handle of the library is a number, the null pointer is 0.\<close>

record TransportRDMA =
  rd_direction :: TransportDirection
  rd_wait_mode :: TransportWaitMode
  rd_connected :: bool
  rd_peer :: Wire
  rd_cm_channel :: nat
  rd_cm_id :: nat
  rd_qp :: nat
  rd_pd :: nat
  rd_buffer :: nat
  rd_mr :: nat
  rd_comp_channel :: nat
  rd_cq :: nat
  rd_listen_port :: "16 word"
  rd_control_received :: bool
  rd_control_sent :: bool
  rd_control_index :: nat
  rd_inline_capacity :: nat
  rd_send_seq :: nat
  rd_credits_received :: nat
  rd_arrival_head :: nat
  rd_arrival_tail :: nat
  rd_arrival_offset :: nat
  rd_pending_credit :: nat
  rd_arrival_lengths :: "nat list"

definition TransportRDMA_default :: TransportRDMA where
  "TransportRDMA_default = \<lparr>rd_direction = Bidirectional, rd_wait_mode = EventDriven, rd_connected = False,
     rd_peer = \<lparr>wi_base_addr = 0, wi_rkey = 0, wi_tail = replicate 24 0\<rparr>, rd_cm_channel = 0, rd_cm_id = 0, rd_qp = 0,
     rd_pd = 0, rd_buffer = 0, rd_mr = 0, rd_comp_channel = 0, rd_cq = 0, rd_listen_port = 0, rd_control_received = False,
     rd_control_sent = False, rd_control_index = 0, rd_inline_capacity = 0, rd_send_seq = 0, rd_credits_received = 0,
     rd_arrival_head = 0, rd_arrival_tail = 0, rd_arrival_offset = 0, rd_pending_credit = 0,
     rd_arrival_lengths = replicate kRdmaSlotCount 0\<rparr>"

definition Rdma_IsProducer :: "'z TransportRDMA_scheme \<Rightarrow> bool" where
  "Rdma_IsProducer t \<longleftrightarrow> rd_direction t = DirSend"

definition SlotData :: "nat \<Rightarrow> nat" where
  "SlotData slot = kRdmaRingOffset + slot * kRdmaSlotSize"

definition ScratchData :: "nat \<Rightarrow> nat" where
  "ScratchData index = kRdmaScratchOffset + index * kRdmaControlSize"

subsection \<open>Posting\<close>

definition PostPoolRecv :: "'e verbs \<Rightarrow> 'z TransportRDMA_scheme \<Rightarrow> nat \<Rightarrow> 'e \<Rightarrow> bool \<times> 'e" where
  "PostPoolRecv vb t index e = vb_post_recv vb (rd_qp t) [\<lparr>rw_id = index, rw_data = Staged (ScratchData index) kRdmaControlSize\<rparr>] e"

definition PostControlSend :: "'e verbs \<Rightarrow> 'z TransportRDMA_scheme \<Rightarrow> nat \<Rightarrow> 'e \<Rightarrow> bool \<times> 'e" where
  "PostControlSend vb t len e = vb_post_send vb (rd_qp t)
     [\<lparr>sw_id = 0, sw_opcode = WrSend, sw_signaled = True, sw_imm = 0, sw_remote = 0, sw_rkey = 0, sw_data = Staged kRdmaControlOffset len\<rparr>] e"

text \<open>
  \<open>write_request\<close> is iteration \<open>i\<close> of the loop of \<open>PostWrites\<close> when \<open>bytes\<close> have been taken before: the chunk, its
  staging and its request.
\<close>

definition write_chunk :: "byte list \<Rightarrow> nat \<Rightarrow> byte list" where
  "write_chunk data p = take kRdmaSlotSize (drop p data)"

definition use_inline :: "'z TransportRDMA_scheme \<Rightarrow> nat \<Rightarrow> bool" where
  "use_inline t len \<longleftrightarrow> len < kRdmaInlineThreshold \<and> len \<le> rd_inline_capacity t"

definition stage_chunk :: "'e verbs \<Rightarrow> 'z TransportRDMA_scheme \<Rightarrow> nat \<Rightarrow> byte list \<Rightarrow> 'e \<Rightarrow> 'e" where
  "stage_chunk vb t slot chunk e =
     (if use_inline t (length chunk) then e else (vb_store vb (SlotData slot) chunk ^^ kCopyRepeat) e)"

definition write_request :: "'z TransportRDMA_scheme \<Rightarrow> nat \<Rightarrow> byte list \<Rightarrow> bool \<Rightarrow> send_wr" where
  "write_request t slot chunk signaled =
     \<lparr>sw_id = slot + 1, sw_opcode = WrRdmaWriteWithImm, sw_signaled = signaled, sw_imm = EncodeDataImmediate slot (length chunk),
      sw_remote = wi_base_addr (rd_peer t) + word_of_nat (SlotData slot), sw_rkey = wi_rkey (rd_peer t),
      sw_data = (if use_inline t (length chunk) then InlineData chunk else Staged (SlotData slot) (length chunk))\<rparr>"

fun write_requests :: "'e verbs \<Rightarrow> 'z TransportRDMA_scheme \<Rightarrow> byte list \<Rightarrow> nat \<Rightarrow> nat \<Rightarrow> nat \<Rightarrow> 'e \<Rightarrow> send_wr list \<times> nat \<times> 'e" where
  "write_requests vb t data p 0 seq e = ([], p, e)"
| "write_requests vb t data p (Suc n) seq e =
     (let slot = seq mod kRdmaSlotCount; chunk = write_chunk data p in
      case write_requests vb t data (p + length chunk) n (seq + 1) (stage_chunk vb t slot chunk e) of
        (ws, p', e') \<Rightarrow> (write_request t slot chunk (n = 0) # ws, p', e'))"

text \<open>The new progress, or \<^term>\<open>None\<close> for false.\<close>

definition PostWrites :: "'e verbs \<Rightarrow> 'z TransportRDMA_scheme \<Rightarrow> byte list \<Rightarrow> nat \<Rightarrow> nat \<Rightarrow> 'e \<Rightarrow> (nat \<times> 'e) option" where
  "PostWrites vb t data p n e =
     (case write_requests vb t data p n (rd_send_seq t) e of
        (ws, p', e1) \<Rightarrow> (case vb_post_send vb (rd_qp t) ws e1 of (False, e2) \<Rightarrow> None | (True, e2) \<Rightarrow> Some (p', e2)))"

definition PostCredit :: "'e verbs \<Rightarrow> 'z TransportRDMA_scheme \<Rightarrow> nat \<Rightarrow> 'e \<Rightarrow> bool \<times> 'e" where
  "PostCredit vb t slots e = vb_post_send vb (rd_qp t)
     [\<lparr>sw_id = 0, sw_opcode = WrRdmaWriteWithImm, sw_signaled = True, sw_imm = or kCreditImmediate (word_of_nat slots),
       sw_remote = wi_base_addr (rd_peer t) + word_of_nat kRdmaCreditOffset, sw_rkey = wi_rkey (rd_peer t),
       sw_data = Staged kRdmaCreditOffset 1\<rparr>] e"

subsection \<open>Completions\<close>

text \<open>\<^term>\<open>None\<close> is false.\<close>

definition HandleCompletion :: "'e verbs \<Rightarrow> ibv_wc \<Rightarrow> 'z TransportRDMA_scheme \<Rightarrow> 'e \<Rightarrow> ('z TransportRDMA_scheme \<times> 'e) option" where
  "HandleCompletion vb wc t e =
     (if \<not> wc_success wc then None
      else
        let repost = (\<lambda>t. case PostPoolRecv vb t (wc_id wc) e of (False, e') \<Rightarrow> None | (True, e') \<Rightarrow> Some (t, e')) in
        case wc_opcode wc of
          WcSend \<Rightarrow> Some (t\<lparr>rd_control_sent := True\<rparr>, e)
        | WcRdmaWrite \<Rightarrow> Some (t, e)
        | WcRecv \<Rightarrow> repost (if wc_byte_len wc > 0 then t\<lparr>rd_control_received := True, rd_control_index := wc_id wc\<rparr> else t)
        | WcRecvRdmaWithImm \<Rightarrow>
            (if and (wc_imm wc) kCreditImmediate \<noteq> 0
             then repost (t\<lparr>rd_credits_received := rd_credits_received t + unat (and (wc_imm wc) (not kCreditImmediate))\<rparr>)
             else if ImmediateSlot (wc_imm wc) \<ge> kRdmaSlotCount then None
             else repost (t\<lparr>rd_arrival_lengths := (rd_arrival_lengths t)[rd_arrival_tail t mod kRdmaSlotCount := ImmediateLength (wc_imm wc)],
                            rd_arrival_tail := rd_arrival_tail t + 1\<rparr>))
        | WcOther \<Rightarrow> Some (t, e))"

fun handle_all :: "(ibv_wc \<Rightarrow> 't \<Rightarrow> 'e \<Rightarrow> ('t \<times> 'e) option) \<Rightarrow> ibv_wc list \<Rightarrow> 't \<Rightarrow> 'e \<Rightarrow> ('t \<times> 'e) option" where
  "handle_all handle [] t e = Some (t, e)"
| "handle_all handle (wc # wcs) t e =
     (case handle wc t e of None \<Rightarrow> None | Some (t', e') \<Rightarrow> handle_all handle wcs t' e')"

text \<open>The virtual \<open>HandleCompletion\<close> is an argument. The outer \<^term>\<open>None\<close> of a loop is that it does not end.\<close>

partial_function (option) PollCompletionQueue ::
  "'e verbs \<Rightarrow> (ibv_wc \<Rightarrow> 't \<Rightarrow> 'e \<Rightarrow> ('t \<times> 'e) option) \<Rightarrow> 't \<Rightarrow> 'e \<Rightarrow> ('t \<times> 'e) option option" where
  "PollCompletionQueue vb handle t e =
     (case vb_poll_cq vb 16 e of
        (None, e1) \<Rightarrow> Some None
      | (Some wcs, e1) \<Rightarrow>
          if wcs = [] then Some (Some (t, e1))
          else (case handle_all handle wcs t e1 of
                  None \<Rightarrow> Some None
                | Some (t', e') \<Rightarrow> PollCompletionQueue vb handle t' e'))"

declare PollCompletionQueue.simps [code]

text \<open>
  \<open>DrainCompletionEvents\<close> and the loop in it. \<open>vb_readable\<close> is \<open>WaitReadable\<close>: \<open>poll\<close> on a descriptor with a time
  limit in milliseconds, repeated while it is interrupted. The descriptor of a channel stands for its handle.
\<close>

partial_function (option) drain_events :: "'e verbs \<Rightarrow> int \<Rightarrow> bool \<Rightarrow> 'e \<Rightarrow> (bool \<times> 'e) option" where
  "drain_events vb ch rearm e =
     (case vb_readable vb ch 0 e of
        (ready, e1) \<Rightarrow>
          if \<not> ready then Some (True, e1)
          else (case vb_get_event vb e1 of
             (got, e2) \<Rightarrow>
               if \<not> got then Some (False, e2)
               else if rearm then (case vb_req_notify vb e2 of (armed, e3) \<Rightarrow> if armed then drain_events vb ch rearm e3 else Some (False, e3))
               else drain_events vb ch rearm e2))"

declare drain_events.simps [code]

definition DrainCompletionEvents :: "'e verbs \<Rightarrow> bool \<Rightarrow> 'z TransportRDMA_scheme \<Rightarrow> 'e \<Rightarrow> (bool \<times> 'e) option" where
  "DrainCompletionEvents vb rearm t e = (if rd_comp_channel t = 0 then Some (True, e) else drain_events vb (int (rd_comp_channel t)) rearm e)"

definition ProcessCompletionEvents :: "'e verbs \<Rightarrow> 'z TransportRDMA_scheme \<Rightarrow> 'e \<Rightarrow> (bool \<times> 'e) option" where
  "ProcessCompletionEvents vb t e = DrainCompletionEvents vb True t e"

type_synonym ('t, 'e) completion_handler = "ibv_wc \<Rightarrow> 't \<Rightarrow> 'e \<Rightarrow> ('t \<times> 'e) option"

definition ProcessCompletions ::
  "'e verbs \<Rightarrow> ('z TransportRDMA_scheme, 'e) completion_handler \<Rightarrow> 'z TransportRDMA_scheme \<Rightarrow> 'e \<Rightarrow> ('z TransportRDMA_scheme \<times> 'e) option option" where
  "ProcessCompletions vb handle t e =
     (if rd_wait_mode t = EventDriven then
        (case ProcessCompletionEvents vb t e of
           None \<Rightarrow> None
         | Some (ok, e1) \<Rightarrow> if ok then PollCompletionQueue vb handle t e1 else Some None)
      else PollCompletionQueue vb handle t e)"

text \<open>A property that survives every call of the library and every completion survives the whole pass.\<close>

lemma handle_all_preserves:
  assumes "handle_all handle wcs t e = Some (t', e')" and "J t e wcs"
    and "\<And>wc t e rest t' e'. handle wc t e = Some (t', e') \<Longrightarrow> J t e (wc # rest) \<Longrightarrow> J t' e' rest"
  shows "J t' e' []"
  using assms by (induction handle wcs t e rule: handle_all.induct) (auto split: option.splits prod.splits)

lemma PollCompletionQueue_preserves:
  assumes "PollCompletionQueue vb handle t e = Some (Some (t', e'))" and "J t e []"
    and poll: "\<And>t e wcs e'. vb_poll_cq vb 16 e = (Some wcs, e') \<Longrightarrow> J t e [] \<Longrightarrow> J t e' wcs"
    and handle: "\<And>wc t e rest t' e'. handle wc t e = Some (t', e') \<Longrightarrow> J t e (wc # rest) \<Longrightarrow> J t' e' rest"
  shows "J t' e' []"
proof -
  have "r = Some (t', e') \<longrightarrow> vb' = vb \<longrightarrow> handle' = handle \<longrightarrow> J t e [] \<longrightarrow> J t' e' []"
    if "PollCompletionQueue vb' handle' t e = Some r" for r vb' handle' t e
    using that
  proof (induction rule: PollCompletionQueue.raw_induct [rotated, consumes 1])
    case (1 f vb' handle' t e r)
    show ?case
    proof (intro impI)
      assume r: "r = Some (t', e')" and eqs: "vb' = vb" "handle' = handle" and J: "J t e []"
      obtain wcs e1 where p: "vb_poll_cq vb 16 e = (Some wcs, e1)"
        using 1(2) r eqs by (auto split: prod.splits option.splits)
      have J1: "J t e1 wcs" by (rule poll [OF p J])
      show "J t' e' []"
      proof (cases "wcs = []")
        case True
        thus ?thesis using 1(2) r eqs p J1 by auto
      next
        case False
        then obtain t2 e2 where h: "handle_all handle wcs t e1 = Some (t2, e2)" and rec: "f vb handle t2 e2 = Some r"
          using 1(2) r eqs p by (auto split: option.splits prod.splits)
        have "J t2 e2 []" by (rule handle_all_preserves [of handle wcs t e1 t2 e2 J, OF h J1]) (rule handle)
        thus ?thesis using 1(1) [OF rec] r by blast
      qed
    qed
  qed
  thus ?thesis using assms(1,2) by blast
qed

lemma drain_events_preserves:
  assumes "drain_events vb ch rearm e = Some (ok, e')" and "J e"
    and wait: "\<And>e fd ms. J e \<Longrightarrow> J (snd (vb_readable vb fd ms e))" "\<And>e. J e \<Longrightarrow> J (snd (vb_get_event vb e))"
      "\<And>e. J e \<Longrightarrow> J (snd (vb_req_notify vb e))"
  shows "J e'"
proof -
  have "vb' = vb \<longrightarrow> J e \<longrightarrow> J (snd r)" if "drain_events vb' ch' rearm' e = Some r" for r vb' ch' rearm' e
    using that
  proof (induction rule: drain_events.raw_induct [rotated, consumes 1])
    case (1 f vb' ch' rearm' e r)
    show ?case
    proof (intro impI)
      assume eqs: "vb' = vb" and J: "J e"
      obtain ready e1 where e1: "vb_readable vb ch' 0 e = (ready, e1)" by fastforce
      obtain got e2 where e2: "vb_get_event vb e1 = (got, e2)" by fastforce
      obtain armed e3 where e3: "vb_req_notify vb e2 = (armed, e3)" by fastforce
      have "J e1" using wait(1) [OF J, of ch' 0] e1 by simp
      moreover from this have "J e2" using wait(2) [of e1] e2 by simp
      moreover from this have "J e3" using wait(3) [of e2] e3 by simp
      ultimately show "J (snd r)"
        using 1(1) [of vb ch' rearm' e2 r] 1(1) [of vb ch' rearm' e3 r] 1(2) eqs e1 e2 e3
        by (simp split: if_splits) (auto dest: sym)
    qed
  qed
  thus ?thesis using assms(1,2) by fastforce
qed

lemma ProcessCompletions_preserves:
  assumes "ProcessCompletions vb handle t e = Some (Some (t', e'))" and "J t e []"
    and "\<And>t e wcs e'. vb_poll_cq vb 16 e = (Some wcs, e') \<Longrightarrow> J t e [] \<Longrightarrow> J t e' wcs"
    and "\<And>wc t e rest t' e'. handle wc t e = Some (t', e') \<Longrightarrow> J t e (wc # rest) \<Longrightarrow> J t' e' rest"
    and "\<And>e fd ms. J t e [] \<Longrightarrow> J t (snd (vb_readable vb fd ms e)) []" "\<And>e. J t e [] \<Longrightarrow> J t (snd (vb_get_event vb e)) []"
      "\<And>e. J t e [] \<Longrightarrow> J t (snd (vb_req_notify vb e)) []"
  shows "J t' e' []"
proof -
  obtain e1 where "J t e1 []" and "PollCompletionQueue vb handle t e1 = Some (Some (t', e'))"
    using assms(1,2) drain_events_preserves [of vb "int (rd_comp_channel t)" True e _ _ "\<lambda>e. J t e []", OF _ assms(2,5,6,7)]
    by (auto simp: ProcessCompletions_def ProcessCompletionEvents_def DrainCompletionEvents_def split: if_splits option.splits)
  from PollCompletionQueue_preserves [of vb handle t e1 t' e' J, OF this(2,1)] assms(3,4) show ?thesis by blast
qed

subsection \<open>Non-blocking transfers\<close>

text \<open>The result is the new progress and whether the transfer is done; \<^term>\<open>Some None\<close> is false.\<close>

definition ring_window :: "'z TransportRDMA_scheme \<Rightarrow> nat" where
  "ring_window t = (let limit = rd_credits_received t + kRdmaSlotCount in if rd_send_seq t < limit then limit - rd_send_seq t else 0)"

definition chunk_count :: "nat \<Rightarrow> nat" where
  "chunk_count remaining = (if remaining = 0 then 0 else 1 + (remaining - 1) div kRdmaSlotSize)"

definition Rdma_TrySend ::
  "'e verbs \<Rightarrow> ('z TransportRDMA_scheme, 'e) completion_handler \<Rightarrow> byte list \<Rightarrow> nat \<Rightarrow> 'z TransportRDMA_scheme \<Rightarrow> 'e \<Rightarrow>
   (nat \<times> bool \<times> 'z TransportRDMA_scheme \<times> 'e) option option" where
  "Rdma_TrySend vb handle data progress t e =
     (if \<not> rd_connected t \<or> \<not> Rdma_IsProducer t then Some None
      else (case ProcessCompletions vb handle t e of
        None \<Rightarrow> None
      | Some None \<Rightarrow> Some None
      | Some (Some (t1, e1)) \<Rightarrow>
          let count = min (ring_window t1) (chunk_count (length data - progress)) in
          if count > 0 then
            (case PostWrites vb t1 data progress count e1 of
               None \<Rightarrow> Some None
             | Some (p, e2) \<Rightarrow> Some (Some (p, p = length data, t1\<lparr>rd_send_seq := rd_send_seq t1 + count\<rparr>, e2)))
          else Some (Some (progress, progress = length data, t1, e1))))"

text \<open>
  The copy loop of \<open>TryRecv\<close> collects the bytes it stores. The same bytes are copied \<open>kCopyRepeat\<close> times with no other
  effect in between. A length of zero, which \<open>ImmediateLength\<close> never gives, would make the loop of the program pass over the slot as well.
\<close>

partial_function (option) recv_copy ::
  "'e verbs \<Rightarrow> nat \<Rightarrow> byte list \<Rightarrow> 'z TransportRDMA_scheme \<Rightarrow> 'e \<Rightarrow> (byte list \<times> 'z TransportRDMA_scheme) option" where
  "recv_copy vb remaining got t e =
     (if length got < remaining \<and> rd_arrival_head t \<noteq> rd_arrival_tail t then
        let slot = rd_arrival_head t mod kRdmaSlotCount;
            len = rd_arrival_lengths t ! slot;
            chunk = min (len - rd_arrival_offset t) (remaining - length got);
            got' = got @ vb_load vb (SlotData slot + rd_arrival_offset t) chunk e;
            offset = rd_arrival_offset t + chunk
        in recv_copy vb remaining got'
             (if offset = len then t\<lparr>rd_arrival_offset := 0, rd_arrival_head := rd_arrival_head t + 1, rd_pending_credit := rd_pending_credit t + 1\<rparr>
              else t\<lparr>rd_arrival_offset := offset\<rparr>) e
      else Some (got, t))"

declare recv_copy.simps [code]

definition return_credit :: "'e verbs \<Rightarrow> 'z TransportRDMA_scheme \<Rightarrow> 'e \<Rightarrow> ('z TransportRDMA_scheme \<times> 'e) option" where
  "return_credit vb t e =
     (if rd_pending_credit t \<ge> kCreditBatch \<or> (rd_pending_credit t > 0 \<and> rd_arrival_head t = rd_arrival_tail t) then
        (case PostCredit vb t (rd_pending_credit t) e of
           (False, e') \<Rightarrow> None
         | (True, e') \<Rightarrow> Some (t\<lparr>rd_pending_credit := 0\<rparr>, e'))
      else Some (t, e))"

definition Rdma_TryRecv ::
  "'e verbs \<Rightarrow> ('z TransportRDMA_scheme, 'e) completion_handler \<Rightarrow> nat \<Rightarrow> nat \<Rightarrow> 'z TransportRDMA_scheme \<Rightarrow> 'e \<Rightarrow>
   (byte list \<times> bool \<times> 'z TransportRDMA_scheme \<times> 'e) option option" where
  "Rdma_TryRecv vb handle sz progress t e =
     (if \<not> rd_connected t \<or> Rdma_IsProducer t then Some None
      else (case ProcessCompletions vb handle t e of
        None \<Rightarrow> None
      | Some None \<Rightarrow> Some None
      | Some (Some (t1, e1)) \<Rightarrow>
          (case recv_copy vb (sz - progress) [] t1 e1 of
             None \<Rightarrow> None
           | Some (got, t2) \<Rightarrow>
               (case return_credit vb t2 e1 of
                  None \<Rightarrow> Some None
                | Some (t3, e2) \<Rightarrow> Some (Some (got, progress + length got = sz, t3, e2))))))"

subsection \<open>Blocking calls\<close>

definition Rdma_GetFd :: "'z TransportRDMA_scheme \<Rightarrow> int" where
  "Rdma_GetFd t = (if rd_comp_channel t \<noteq> 0 then int (rd_comp_channel t) else if rd_cm_channel t \<noteq> 0 then int (rd_cm_channel t) else -1)"

text \<open>The events as the pair (\<open>EPOLLIN\<close>, \<open>EPOLLOUT\<close>).\<close>

definition Rdma_GetPollEvents :: "'z TransportRDMA_scheme \<Rightarrow> bool \<times> bool" where
  "Rdma_GetPollEvents t = (True, False)"

definition Rdma_SetWaitMode :: "TransportWaitMode \<Rightarrow> 'z TransportRDMA_scheme \<Rightarrow> 'z TransportRDMA_scheme" where
  "Rdma_SetWaitMode mode t = t\<lparr>rd_wait_mode := mode\<rparr>"

text \<open>
  \<open>WaitFlag\<close> on the flag that a selector reads; \<open>n\<close> is the number of rounds of 10 ms that are left.
\<close>

fun wait_rounds ::
  "'e verbs \<Rightarrow> ('z TransportRDMA_scheme, 'e) completion_handler \<Rightarrow> ('z TransportRDMA_scheme \<Rightarrow> bool) \<Rightarrow> nat \<Rightarrow> 'z TransportRDMA_scheme \<Rightarrow> 'e \<Rightarrow>
   ('z TransportRDMA_scheme \<times> 'e) option option" where
  "wait_rounds vb handle flag 0 t e = Some None"
| "wait_rounds vb handle flag (Suc n) t e =
     (if flag t then Some (Some (t, e))
      else (case ProcessCompletions vb handle t e of
        None \<Rightarrow> None
      | Some None \<Rightarrow> Some None
      | Some (Some (t1, e1)) \<Rightarrow>
          if flag t1 then Some (Some (t1, e1))
          else wait_rounds vb handle flag n t1 (snd (vb_readable vb (Rdma_GetFd t1) 10 e1))))"

definition WaitFlag ::
  "'e verbs \<Rightarrow> ('z TransportRDMA_scheme, 'e) completion_handler \<Rightarrow> ('z TransportRDMA_scheme \<Rightarrow> bool) \<Rightarrow> 'z TransportRDMA_scheme \<Rightarrow> 'e \<Rightarrow>
   ('z TransportRDMA_scheme \<times> 'e) option option" where
  "WaitFlag vb handle flag t e = wait_rounds vb handle flag (kControlTimeoutMs div 10) t e"

text \<open>The virtual \<open>TrySend\<close> and \<open>TryRecv\<close> are arguments of the loops.\<close>

partial_function (option) rdma_send_loop ::
  "'e verbs \<Rightarrow> (byte list \<Rightarrow> nat \<Rightarrow> 'z TransportRDMA_scheme \<Rightarrow> 'e \<Rightarrow> (nat \<times> bool \<times> 'z TransportRDMA_scheme \<times> 'e) option option) \<Rightarrow>
   byte list \<Rightarrow> nat \<Rightarrow> 'z TransportRDMA_scheme \<Rightarrow> 'e \<Rightarrow> ('z TransportRDMA_scheme \<times> 'e) option option" where
  "rdma_send_loop vb try data progress t e =
     (case try data progress t e of
        None \<Rightarrow> None
      | Some None \<Rightarrow> Some None
      | Some (Some (p, done, t1, e1)) \<Rightarrow>
          if done then Some (Some (t1, e1))
          else if p = progress then
            (case vb_readable vb (Rdma_GetFd t1) kControlTimeoutMs e1 of
               (ready, e2) \<Rightarrow> if ready then rdma_send_loop vb try data p t1 e2 else Some None)
          else rdma_send_loop vb try data p t1 e1)"

partial_function (option) rdma_recv_loop ::
  "'e verbs \<Rightarrow> (nat \<Rightarrow> nat \<Rightarrow> 'z TransportRDMA_scheme \<Rightarrow> 'e \<Rightarrow> (byte list \<times> bool \<times> 'z TransportRDMA_scheme \<times> 'e) option option) \<Rightarrow>
   nat \<Rightarrow> byte list \<Rightarrow> 'z TransportRDMA_scheme \<Rightarrow> 'e \<Rightarrow> (byte list \<times> 'z TransportRDMA_scheme \<times> 'e) option option" where
  "rdma_recv_loop vb try sz got t e =
     (case try sz (length got) t e of
        None \<Rightarrow> None
      | Some None \<Rightarrow> Some None
      | Some (Some (bs, done, t1, e1)) \<Rightarrow>
          if done then Some (Some (got @ bs, t1, e1))
          else if bs = [] then
            (case vb_readable vb (Rdma_GetFd t1) kControlTimeoutMs e1 of
               (ready, e2) \<Rightarrow> if ready then rdma_recv_loop vb try sz got t1 e2 else Some None)
          else rdma_recv_loop vb try sz (got @ bs) t1 e1)"

declare rdma_send_loop.simps [code] rdma_recv_loop.simps [code]

definition Rdma_Send ::
  "'e verbs \<Rightarrow> ('z TransportRDMA_scheme, 'e) completion_handler \<Rightarrow>
   (byte list \<Rightarrow> nat \<Rightarrow> 'z TransportRDMA_scheme \<Rightarrow> 'e \<Rightarrow> (nat \<times> bool \<times> 'z TransportRDMA_scheme \<times> 'e) option option) \<Rightarrow>
   byte list \<Rightarrow> 'z TransportRDMA_scheme \<Rightarrow> 'e \<Rightarrow> ('z TransportRDMA_scheme \<times> 'e) option option" where
  "Rdma_Send vb handle try data t e =
     (if \<not> rd_connected t then Some None
      else if \<not> rd_control_sent t then
        (if length data > kRdmaControlSize then Some None
         else (case PostControlSend vb t (length data) (vb_store vb kRdmaControlOffset data e) of
           (posted, e1) \<Rightarrow> if posted then WaitFlag vb handle rd_control_sent t e1 else Some None))
      else if \<not> Rdma_IsProducer t then Some None
      else rdma_send_loop vb try data 0 t e)"

definition Rdma_Recv ::
  "'e verbs \<Rightarrow> ('z TransportRDMA_scheme, 'e) completion_handler \<Rightarrow>
   (nat \<Rightarrow> nat \<Rightarrow> 'z TransportRDMA_scheme \<Rightarrow> 'e \<Rightarrow> (byte list \<times> bool \<times> 'z TransportRDMA_scheme \<times> 'e) option option) \<Rightarrow>
   nat \<Rightarrow> 'z TransportRDMA_scheme \<Rightarrow> 'e \<Rightarrow> (byte list \<times> 'z TransportRDMA_scheme \<times> 'e) option option" where
  "Rdma_Recv vb handle try sz t e =
     (if \<not> rd_connected t then Some None
      else if \<not> rd_control_received t then
        (case WaitFlag vb handle rd_control_received t e of
           None \<Rightarrow> None
         | Some None \<Rightarrow> Some None
         | Some (Some (t1, e1)) \<Rightarrow>
             if sz > kRdmaControlSize then Some None
             else Some (Some (vb_load vb (ScratchData (rd_control_index t1)) sz e1, t1, e1)))
      else if Rdma_IsProducer t then Some None
      else rdma_recv_loop vb try sz [] t e)"

end
