(* ===== verification/Occl_Rdma_Link.thy ===== *)
theory Occl_Rdma_Link
  imports Occl_Rdma
begin

section \<open>Two RDMA endpoints on one connection\<close>

text \<open>
  What the transport relies on of a reliable connection. \<open>rnet\<close> is what the two network cards hold: the registered
  buffers of the producer and the consumer, the posted requests of each side in order, the receives of each pool
  and the completion queues. A card takes the first write that is posted, needs a receive of the other side for its
  immediate value, stores the bytes at the remote address, reading a staged range only now, and reports the receive.
  The completion of a signaled write may be reported at any time.
\<close>

record rnet =
  n_pmem :: heap
  n_cmem :: heap
  n_data :: "send_wr list"
  n_credit :: "send_wr list"
  n_precv :: "nat list"
  n_crecv :: "nat list"
  n_pcq :: "ibv_wc list"
  n_ccq :: "ibv_wc list"

definition wr_bytes :: "heap \<Rightarrow> send_wr \<Rightarrow> byte list" where
  "wr_bytes mem w = (case sw_data w of InlineData bs \<Rightarrow> bs | Staged a n \<Rightarrow> heap_load mem a n | UserRange a n \<Rightarrow> [])"

definition imm_completion :: "nat \<Rightarrow> send_wr \<Rightarrow> ibv_wc" where
  "imm_completion r w = \<lparr>wc_success = True, wc_opcode = WcRecvRdmaWithImm, wc_id = r, wc_byte_len = 0, wc_imm = sw_imm w, wc_qp_num = 0\<rparr>"

inductive card_step :: "64 word \<Rightarrow> 64 word \<Rightarrow> rnet \<Rightarrow> rnet \<Rightarrow> bool" for pb cb where
  deliver_data: "n_data v = w # ws \<Longrightarrow> sw_opcode w = WrRdmaWriteWithImm \<Longrightarrow> n_crecv v = r # rs \<Longrightarrow>
    card_step pb cb v (v\<lparr>n_data := ws, n_crecv := rs,
      n_cmem := heap_store (unat (sw_remote w - cb)) (wr_bytes (n_pmem v) w) (n_cmem v), n_ccq := n_ccq v @ [imm_completion r w]\<rparr>)"
| deliver_credit: "n_credit v = w # ws \<Longrightarrow> sw_opcode w = WrRdmaWriteWithImm \<Longrightarrow> n_precv v = r # rs \<Longrightarrow>
    card_step pb cb v (v\<lparr>n_credit := ws, n_precv := rs,
      n_pmem := heap_store (unat (sw_remote w - pb)) (wr_bytes (n_cmem v) w) (n_pmem v), n_pcq := n_pcq v @ [imm_completion r w]\<rparr>)"
| p_done: "wc_success wc \<Longrightarrow> wc_opcode wc = WcRdmaWrite \<Longrightarrow> card_step pb cb v (v\<lparr>n_pcq := n_pcq v @ [wc]\<rparr>)"
| c_done: "wc_success wc \<Longrightarrow> wc_opcode wc = WcRdmaWrite \<Longrightarrow> card_step pb cb v (v\<lparr>n_ccq := n_ccq v @ [wc]\<rparr>)"

definition card_runs :: "64 word \<Rightarrow> 64 word \<Rightarrow> rnet \<Rightarrow> rnet \<Rightarrow> bool" where
  "card_runs pb cb = (card_step pb cb)\<^sup>*\<^sup>*"

text \<open>The steps of the two programs; the cards run inside them. The histories hold the bytes sent and received.\<close>

record 'e rdma_sys =
  rs_p :: TransportRDMA
  rs_c :: TransportRDMA
  rs_env :: 'e
  rs_sent :: "byte list"
  rs_got :: "byte list"

inductive rdma_step :: "'e verbs \<Rightarrow> 'e verbs \<Rightarrow> 'e rdma_sys \<Rightarrow> 'e rdma_sys \<Rightarrow> bool" for P C where
  send: "Rdma_TrySend P (HandleCompletion P) data progress (rs_p s) (rs_env s) = Some (Some (p, fin, t, e)) \<Longrightarrow> progress \<le> length data \<Longrightarrow>
    rdma_step P C s (s\<lparr>rs_p := t, rs_env := e, rs_sent := rs_sent s @ take (p - progress) (drop progress data)\<rparr>)"
| recv: "Rdma_TryRecv C (HandleCompletion C) sz progress (rs_c s) (rs_env s) = Some (Some (bs, fin, t, e)) \<Longrightarrow>
    rdma_step P C s (s\<lparr>rs_c := t, rs_env := e, rs_got := rs_got s @ bs\<rparr>)"

text \<open>After the handshake: nothing is in flight and both pools are posted.\<close>

definition rdma_connected :: "64 word \<Rightarrow> 64 word \<Rightarrow> nat \<Rightarrow> nat \<Rightarrow> TransportRDMA \<Rightarrow> TransportRDMA \<Rightarrow> rnet \<Rightarrow> bool" where
  "rdma_connected pb cb pq cq p c v \<longleftrightarrow>
     rd_qp p = pq \<and> rd_qp c = cq \<and> wi_base_addr (rd_peer p) = cb \<and> wi_base_addr (rd_peer c) = pb \<and>
     rd_send_seq p = 0 \<and> rd_credits_received p = 0 \<and> rd_arrival_head c = 0 \<and> rd_arrival_tail c = 0 \<and> rd_arrival_offset c = 0 \<and>
     rd_pending_credit c = 0 \<and> length (rd_arrival_lengths c) = kRdmaSlotCount \<and>
     n_data v = [] \<and> n_credit v = [] \<and> n_pcq v = [] \<and> n_ccq v = [] \<and>
     length (n_precv v) = kRdmaRecvPool \<and> length (n_crecv v) = kRdmaRecvPool"

subsection \<open>Slots and immediates\<close>

lemma unat_of_small: "n < 2 ^ 64 \<Longrightarrow> unat (word_of_nat n :: 64 word) = n"
  by (simp add: unat_of_nat take_bit_nat_eq_self)

lemma slot_bound: "slot < kRdmaSlotCount \<Longrightarrow> SlotData slot + kRdmaSlotSize \<le> kRdmaBufferSize"
  by (simp add: SlotData_def rdma_sizes)

lemma buffer_small: "kRdmaBufferSize < 2 ^ 64"
  by (simp add: rdma_sizes)

lemma unat_slot: "slot < kRdmaSlotCount \<Longrightarrow> unat (word_of_nat (SlotData slot) :: 64 word) = SlotData slot"
  using slot_bound [of slot] buffer_small by (intro unat_of_small) linarith

lemma slot_disjoint:
  assumes "i mod kRdmaSlotCount \<noteq> j mod kRdmaSlotCount" and "m \<le> kRdmaSlotSize" and "n \<le> kRdmaSlotSize"
  shows "SlotData (i mod kRdmaSlotCount) + m \<le> SlotData (j mod kRdmaSlotCount) \<or> SlotData (j mod kRdmaSlotCount) + n \<le> SlotData (i mod kRdmaSlotCount)"
  using assms unfolding SlotData_def rdma_sizes by linarith

lemma mod_window: "i < j \<Longrightarrow> j < i + kRdmaSlotCount \<Longrightarrow> i mod kRdmaSlotCount \<noteq> j mod kRdmaSlotCount"
  by (metis add.commute add_diff_inverse_nat diff_less less_diff_conv2 less_imp_le_nat mod_eq_dvd_iff_nat nat_dvd_not_less not_less zero_less_diff)


lemma slots_positive: "0 < kRdmaSlotCount"
  by (simp add: rdma_sizes)

subsection \<open>Credits\<close>

definition credit_value :: "32 word \<Rightarrow> nat" where
  "credit_value x = unat (and x (not kCreditImmediate))"

definition is_credit :: "32 word \<Rightarrow> bool" where
  "is_credit x \<longleftrightarrow> and x kCreditImmediate \<noteq> 0 \<and> 0 < credit_value x"

lemma credit_roundtrip:
  assumes "0 < k" and "k < 2 ^ 31"
  shows "credit_value (or kCreditImmediate (word_of_nat k)) = k" and "is_credit (or kCreditImmediate (word_of_nat k))"
proof -
  let ?k = "word_of_nat k :: 32 word"
  have k: "j < 31" if "bit ?k j" for j using small_word_bit [of k 31 j] that assms(2) by force
  have top: "bit kCreditImmediate j \<longleftrightarrow> j = 31" for j
  proof -
    have eq: "kCreditImmediate = push_bit 31 1" by (simp add: kCreditImmediate_def)
    show ?thesis unfolding eq bit_push_bit_iff bit_1_iff by auto
  qed
  have "and (or kCreditImmediate ?k) (not kCreditImmediate) = ?k"
    by (rule bit_word_eqI) (use k in \<open>auto simp: bit_and_iff bit_or_iff bit_not_iff top\<close>)
  moreover have "unat ?k = k" using assms(2) by (simp add: unat_of_nat take_bit_nat_eq_self)
  ultimately show val: "credit_value (or kCreditImmediate ?k) = k" by (simp add: credit_value_def)
  have "bit (and (or kCreditImmediate ?k) kCreditImmediate) 31" by (simp add: bit_and_iff bit_or_iff top)
  hence "and (or kCreditImmediate ?k) kCreditImmediate \<noteq> 0" by (metis bit_0_eq bot_apply bot_bool_def)
  thus "is_credit (or kCreditImmediate ?k)" using val assms(1) by (simp add: is_credit_def)
qed

end
