(* ===== verification/Occl_Rdma_Fifo.thy ===== *)
theory Occl_Rdma_Fifo
  imports Occl_Rdma_Link "HOL-Library.Sublist"
begin

section \<open>The RDMA ring is a FIFO\<close>

text \<open>
  The invariant of two connected endpoints and its preservation by the cards and by every step of both programs.
  \<open>W\<close> is the list of all chunks ever staged, \<open>D\<close> how many of them the card has delivered, \<open>up\<close> the requests that are built
  and not yet posted, \<open>bP\<close> and \<open>bC\<close> the completions that are polled and not yet handled.
\<close>

definition imms :: "ibv_wc list \<Rightarrow> 32 word list" where
  "imms xs = map wc_imm (filter (\<lambda>wc. wc_opcode wc = WcRecvRdmaWithImm) xs)"

definition wcs_ok :: "ibv_wc list \<Rightarrow> bool" where
  "wcs_ok xs \<longleftrightarrow> (\<forall>wc \<in> set xs. wc_success wc \<and> (wc_opcode wc = WcRdmaWrite \<or> wc_opcode wc = WcRecvRdmaWithImm))"

lemma imm_completion_simps [simp]:
  "wc_success (imm_completion r w)" "wc_opcode (imm_completion r w) = WcRecvRdmaWithImm" "wc_imm (imm_completion r w) = sw_imm w"
  by (simp_all add: imm_completion_def)

lemma imms_simps [simp]:
  "imms [] = []" "imms (xs @ ys) = imms xs @ imms ys"
  "wc_opcode wc = WcRecvRdmaWithImm \<Longrightarrow> imms (wc # xs) = wc_imm wc # imms xs"
  "wc_opcode wc \<noteq> WcRecvRdmaWithImm \<Longrightarrow> imms (wc # xs) = imms xs"
  "imms [imm_completion r w] = [sw_imm w]"
  by (simp_all add: imms_def imm_completion_def)

lemma wcs_ok_simps [simp]:
  "wcs_ok []" "wcs_ok (xs @ ys) \<longleftrightarrow> wcs_ok xs \<and> wcs_ok ys"
  "wcs_ok (wc # xs) \<longleftrightarrow> wc_success wc \<and> (wc_opcode wc = WcRdmaWrite \<or> wc_opcode wc = WcRecvRdmaWithImm) \<and> wcs_ok xs"
  "wcs_ok [imm_completion r w]"
  by (auto simp: wcs_ok_def imm_completion_def)

definition req_ok :: "64 word \<Rightarrow> heap \<Rightarrow> byte list list \<Rightarrow> nat \<Rightarrow> send_wr \<Rightarrow> bool" where
  "req_ok cb mem W i w \<longleftrightarrow>
     sw_opcode w = WrRdmaWriteWithImm \<and> unat (sw_remote w - cb) = SlotData (i mod kRdmaSlotCount) \<and>
     sw_imm w = EncodeDataImmediate (i mod kRdmaSlotCount) (length (W ! i)) \<and> wr_bytes mem w = W ! i \<and>
     (case sw_data w of InlineData bs \<Rightarrow> True | Staged a n \<Rightarrow> a = SlotData (i mod kRdmaSlotCount) | UserRange a n \<Rightarrow> False)"

definition sender_ok :: "TransportRDMA \<Rightarrow> byte list list \<Rightarrow> send_wr list \<Rightarrow> bool" where
  "sender_ok p W up \<longleftrightarrow>
     rd_send_seq p + length up = length W \<and> length W \<le> rd_credits_received p + kRdmaSlotCount \<and>
     (\<forall>c \<in> set W. c \<noteq> [] \<and> length c \<le> kRdmaSlotSize)"

definition flight_ok :: "64 word \<Rightarrow> rnet \<Rightarrow> byte list list \<Rightarrow> nat \<Rightarrow> send_wr list \<Rightarrow> bool" where
  "flight_ok cb v W D up \<longleftrightarrow> D \<le> length W \<and> list_all2 (req_ok cb (n_pmem v) W) [D..<length W] (n_data v @ up)"

definition arrive_ok :: "TransportRDMA \<Rightarrow> rnet \<Rightarrow> byte list list \<Rightarrow> nat \<Rightarrow> ibv_wc list \<Rightarrow> bool" where
  "arrive_ok c v W D bC \<longleftrightarrow>
     rd_arrival_tail c \<le> D \<and> wcs_ok (bC @ n_ccq v) \<and>
     imms (bC @ n_ccq v) = map (\<lambda>i. EncodeDataImmediate (i mod kRdmaSlotCount) (length (W ! i))) [rd_arrival_tail c..<D]"

definition ring_ok :: "TransportRDMA \<Rightarrow> rnet \<Rightarrow> byte list list \<Rightarrow> nat \<Rightarrow> bool" where
  "ring_ok c v W D \<longleftrightarrow>
     length (rd_arrival_lengths c) = kRdmaSlotCount \<and> rd_arrival_head c \<le> rd_arrival_tail c \<and>
     (\<forall>i. rd_arrival_head c \<le> i \<and> i < D \<longrightarrow> heap_load (n_cmem v) (SlotData (i mod kRdmaSlotCount)) (length (W ! i)) = W ! i) \<and>
     (\<forall>i. rd_arrival_head c \<le> i \<and> i < rd_arrival_tail c \<longrightarrow> rd_arrival_lengths c ! (i mod kRdmaSlotCount) = length (W ! i)) \<and>
     (if rd_arrival_head c = rd_arrival_tail c then rd_arrival_offset c = 0
      else rd_arrival_offset c < length (W ! rd_arrival_head c))"

definition credit_ok :: "64 word \<Rightarrow> TransportRDMA \<Rightarrow> TransportRDMA \<Rightarrow> rnet \<Rightarrow> ibv_wc list \<Rightarrow> bool" where
  "credit_ok pb p c v bP \<longleftrightarrow>
     rd_credits_received p + sum_list (map credit_value (imms (bP @ n_pcq v))) +
       sum_list (map (credit_value \<circ> sw_imm) (n_credit v)) + rd_pending_credit c = rd_arrival_head c \<and>
     wcs_ok (bP @ n_pcq v) \<and> (\<forall>x \<in> set (imms (bP @ n_pcq v)). is_credit x) \<and>
     (\<forall>w \<in> set (n_credit v). is_credit (sw_imm w) \<and> sw_opcode w = WrRdmaWriteWithImm \<and>
        unat (sw_remote w - pb) = kRdmaCreditOffset \<and> sw_data w = Staged kRdmaCreditOffset 1)"

definition pools_ok :: "rnet \<Rightarrow> ibv_wc list \<Rightarrow> ibv_wc list \<Rightarrow> bool" where
  "pools_ok v bP bC \<longleftrightarrow> length (n_precv v) + length (imms (bP @ n_pcq v)) = kRdmaRecvPool \<and>
     length (n_crecv v) + length (imms (bC @ n_ccq v)) = kRdmaRecvPool"

definition link_inv :: "64 word \<Rightarrow> 64 word \<Rightarrow> nat \<Rightarrow> nat \<Rightarrow> TransportRDMA \<Rightarrow> TransportRDMA \<Rightarrow> rnet \<Rightarrow> byte list list \<Rightarrow> nat \<Rightarrow> send_wr list \<Rightarrow>
    ibv_wc list \<Rightarrow> ibv_wc list \<Rightarrow> bool" where
  "link_inv pb cb pq cq p c v W D up bP bC \<longleftrightarrow>
     rd_qp p = pq \<and> rd_qp c = cq \<and> wi_base_addr (rd_peer p) = cb \<and> wi_base_addr (rd_peer c) = pb \<and>
     sender_ok p W up \<and> flight_ok cb v W D up \<and> arrive_ok c v W D bC \<and> ring_ok c v W D \<and> credit_ok pb p c v bP \<and> pools_ok v bP bC"

lemmas link_parts = link_inv_def sender_ok_def flight_ok_def arrive_ok_def ring_ok_def credit_ok_def pools_ok_def

lemma window_bound: "sender_ok p W up \<Longrightarrow> credit_ok pb p c v bP \<Longrightarrow> length W \<le> rd_arrival_head c + kRdmaSlotCount"
  unfolding sender_ok_def credit_ok_def by linarith

lemma card_preserves:
  assumes "card_step pb cb v v'" and inv: "link_inv pb cb pq cq p c v W D up bP bC"
  shows "\<exists>D'. link_inv pb cb pq cq p c v' W D' up bP bC"
  using assms(1)
proof cases
  case (deliver_data w ws r rs)
  have fl: "list_all2 (req_ok cb (n_pmem v) W) [D..<length W] (w # ws @ up)" and "D \<le> length W"
    using inv deliver_data by (simp_all add: link_inv_def flight_ok_def)
  hence D: "D < length W" and req: "req_ok cb (n_pmem v) W D w"
    and rest: "list_all2 (req_ok cb (n_pmem v) W) [Suc D..<length W] (ws @ up)"
    by (auto simp: list_all2_Cons2 upt_eq_Cons_conv)
  have small: "length (W ! i) \<le> kRdmaSlotSize" if "i < length W" for i
    using inv that by (simp add: link_inv_def sender_ok_def)
  have near: "length W \<le> rd_arrival_head c + kRdmaSlotCount"
    using inv window_bound unfolding link_inv_def by blast
  have mem: "heap_load (heap_store (unat (sw_remote w - cb)) (wr_bytes (n_pmem v) w) (n_cmem v)) (SlotData (i mod kRdmaSlotCount)) (length (W ! i)) = W ! i"
    if i: "rd_arrival_head c \<le> i" "i < Suc D" for i
  proof (cases "i = D")
    case True thus ?thesis using req by (simp add: req_ok_def)
  next
    case False
    hence "i mod kRdmaSlotCount \<noteq> D mod kRdmaSlotCount" using i D near by (intro mod_window) linarith+
    moreover have "heap_load (n_cmem v) (SlotData (i mod kRdmaSlotCount)) (length (W ! i)) = W ! i"
      using inv i False by (simp add: link_inv_def ring_ok_def)
    ultimately show ?thesis using req i D False small [of i] small [of D]
      by (simp add: req_ok_def heap_load_store_disjoint slot_disjoint)
  qed
  have "flight_ok cb v' W (Suc D) up" using deliver_data rest D by (simp add: flight_ok_def)
  moreover have "arrive_ok c v' W (Suc D) bC" using inv deliver_data req by (simp add: link_inv_def arrive_ok_def req_ok_def)
  moreover have "ring_ok c v' W (Suc D)" using inv deliver_data(1) mem by (simp add: link_inv_def ring_ok_def)
  moreover have "pools_ok v' bP bC" using inv deliver_data by (simp add: link_inv_def pools_ok_def)
  moreover have "credit_ok pb p c v' bP" using inv deliver_data(1) by (simp add: link_inv_def credit_ok_def)
  ultimately have "link_inv pb cb pq cq p c v' W (Suc D) up bP bC" using inv by (simp add: link_inv_def)
  thus ?thesis ..
next
  case (deliver_credit w ws r rs)
  have w: "unat (sw_remote w - pb) = kRdmaCreditOffset" "sw_data w = Staged kRdmaCreditOffset 1" "is_credit (sw_imm w)"
    using inv deliver_credit by (simp_all add: link_inv_def credit_ok_def)
  have load: "heap_load (heap_store kRdmaCreditOffset bs mem) (SlotData s) n = heap_load mem (SlotData s) n" if "length bs = 1" for bs mem s n
    using that by (intro heap_load_store_disjoint) (simp add: SlotData_def rdma_sizes)
  have req: "req_ok cb (n_pmem v') W i x" if "req_ok cb (n_pmem v) W i x" for i x
    using that w deliver_credit(1)
    by (auto simp: req_ok_def wr_bytes_def load split: sge.splits)
  have "flight_ok cb v' W D up" using inv deliver_credit(1) req
    by (simp add: link_inv_def flight_ok_def list_all2_mono [of "req_ok cb (n_pmem v) W"])
  moreover have "credit_ok pb p c v' bP" using inv deliver_credit w by (auto simp: link_inv_def credit_ok_def)
  moreover have "pools_ok v' bP bC" using inv deliver_credit by (simp add: link_inv_def pools_ok_def)
  moreover have "arrive_ok c v' W D bC" "ring_ok c v' W D" using inv deliver_credit(1) by (simp_all add: link_inv_def arrive_ok_def ring_ok_def)
  ultimately show ?thesis using inv by (auto simp: link_inv_def)
next
  case (p_done wc)
  hence "credit_ok pb p c v' bP" "flight_ok cb v' W D up" "arrive_ok c v' W D bC" "ring_ok c v' W D"
    using inv by (simp_all add: link_inv_def credit_ok_def flight_ok_def arrive_ok_def ring_ok_def)
  moreover have "pools_ok v' bP bC" using inv p_done by (simp add: link_inv_def pools_ok_def)
  ultimately show ?thesis using inv by (auto simp: link_inv_def)
next
  case (c_done wc)
  have "arrive_ok c v' W D bC" using inv c_done by (simp add: link_inv_def arrive_ok_def)
  moreover have "pools_ok v' bP bC" using inv c_done by (simp add: link_inv_def pools_ok_def)
  moreover have "credit_ok pb p c v' bP" "flight_ok cb v' W D up" "ring_ok c v' W D"
    using inv c_done by (simp_all add: link_inv_def credit_ok_def flight_ok_def ring_ok_def)
  ultimately show ?thesis using inv by (auto simp: link_inv_def)
qed

definition linked :: "64 word \<Rightarrow> 64 word \<Rightarrow> nat \<Rightarrow> nat \<Rightarrow> TransportRDMA \<Rightarrow> TransportRDMA \<Rightarrow> rnet \<Rightarrow> byte list list \<Rightarrow> send_wr list \<Rightarrow>
    ibv_wc list \<Rightarrow> ibv_wc list \<Rightarrow> bool" where
  "linked pb cb pq cq p c v W up bP bC \<longleftrightarrow> (\<exists>D. link_inv pb cb pq cq p c v W D up bP bC)"

lemma runs_preserve: "card_runs pb cb v v' \<Longrightarrow> linked pb cb pq cq p c v W up bP bC \<Longrightarrow> linked pb cb pq cq p c v' W up bP bC"
  unfolding card_runs_def
proof (induction rule: rtranclp_induct)
  case (step v1 v2)
  then show ?case using card_preserves unfolding linked_def by blast
qed

subsection \<open>The connection\<close>

text \<open>
  The interface of the verbs library on a reliable connection. \<open>view\<close> is what the cards hold. Every call has its effect
  on it, and the cards may run during the call; a call that fails promises nothing.
\<close>

locale rdma_link =
  fixes P C :: "'e verbs" and view :: "'e \<Rightarrow> rnet" and pb cb :: "64 word" and pq cq :: nat
  assumes P_store: "card_runs pb cb ((view e)\<lparr>n_pmem := heap_store a bs (n_pmem (view e))\<rparr>) (view (vb_store P a bs e))"
    and P_recv: "vb_post_recv P pq [\<lparr>rw_id = i, rw_data = d\<rparr>] e = (True, e') \<Longrightarrow>
      card_runs pb cb ((view e)\<lparr>n_precv := n_precv (view e) @ [i]\<rparr>) (view e')"
    and P_send: "vb_post_send P pq ws e = (True, e') \<Longrightarrow> card_runs pb cb ((view e)\<lparr>n_data := n_data (view e) @ ws\<rparr>) (view e')"
    and P_poll: "vb_poll_cq P k e = (Some wcs, e') \<Longrightarrow>
      \<exists>v rest. card_runs pb cb (view e) v \<and> n_pcq v = wcs @ rest \<and> card_runs pb cb (v\<lparr>n_pcq := rest\<rparr>) (view e')"
    and P_wait: "card_runs pb cb (view e) (view (snd (vb_readable P fd ms e)))"
      "card_runs pb cb (view e) (view (snd (vb_get_event P e)))" "card_runs pb cb (view e) (view (snd (vb_req_notify P e)))"
    and C_load: "vb_load C a n e = heap_load (n_cmem (view e)) a n"
    and C_recv: "vb_post_recv C cq [\<lparr>rw_id = i, rw_data = d\<rparr>] e = (True, e') \<Longrightarrow>
      card_runs pb cb ((view e)\<lparr>n_crecv := n_crecv (view e) @ [i]\<rparr>) (view e')"
    and C_send: "vb_post_send C cq ws e = (True, e') \<Longrightarrow> card_runs pb cb ((view e)\<lparr>n_credit := n_credit (view e) @ ws\<rparr>) (view e')"
    and C_poll: "vb_poll_cq C k e = (Some wcs, e') \<Longrightarrow>
      \<exists>v rest. card_runs pb cb (view e) v \<and> n_ccq v = wcs @ rest \<and> card_runs pb cb (v\<lparr>n_ccq := rest\<rparr>) (view e')"
    and C_wait: "card_runs pb cb (view e) (view (snd (vb_readable C fd ms e)))"
      "card_runs pb cb (view e) (view (snd (vb_get_event C e)))" "card_runs pb cb (view e) (view (snd (vb_req_notify C e)))"
begin

abbreviation lk :: "TransportRDMA \<Rightarrow> TransportRDMA \<Rightarrow> 'e \<Rightarrow> byte list list \<Rightarrow> send_wr list \<Rightarrow> ibv_wc list \<Rightarrow> ibv_wc list \<Rightarrow> bool" where
  "lk p c e W up bP bC \<equiv> linked pb cb pq cq p c (view e) W up bP bC"

lemma lk_runs: "card_runs pb cb v (view e) \<Longrightarrow> linked pb cb pq cq p c v W up bP bC \<Longrightarrow> lk p c e W up bP bC"
  by (rule runs_preserve)

lemma handle_P:
  assumes "HandleCompletion P wc p e = Some (p', e')" and "lk p c e W up (wc # rest) bC"
  shows "lk p' c e' W up rest bC"
proof -
  obtain D where inv: "link_inv pb cb pq cq p c (view e) W D up (wc # rest) bC" using assms(2) by (auto simp: linked_def)
  hence wc: "wc_success wc" "wc_opcode wc = WcRdmaWrite \<or> wc_opcode wc = WcRecvRdmaWithImm" and pq: "rd_qp p = pq"
    by (simp_all add: link_inv_def credit_ok_def)
  show ?thesis
  proof (cases "wc_opcode wc = WcRdmaWrite")
    case True
    hence "p' = p" "e' = e" using assms(1) wc by (auto simp: HandleCompletion_def)
    moreover have "link_inv pb cb pq cq p c (view e) W D up rest bC"
      using inv True by (simp add: link_inv_def credit_ok_def pools_ok_def)
    ultimately show ?thesis by (auto simp: linked_def)
  next
    case False
    hence op: "wc_opcode wc = WcRecvRdmaWithImm" using wc by simp
    hence imm: "and (wc_imm wc) kCreditImmediate \<noteq> 0" using inv by (simp add: link_inv_def credit_ok_def is_credit_def)
    have p': "p' = p\<lparr>rd_credits_received := rd_credits_received p + credit_value (wc_imm wc)\<rparr>"
      and post: "vb_post_recv P pq [\<lparr>rw_id = wc_id wc, rw_data = Staged (ScratchData (wc_id wc)) kRdmaControlSize\<rparr>] e = (True, e')"
      using assms(1) wc op imm pq
      by (auto simp: HandleCompletion_def PostPoolRecv_def credit_value_def split: prod.splits bool.splits)
    let ?v = "(view e)\<lparr>n_precv := n_precv (view e) @ [wc_id wc]\<rparr>"
    have "sender_ok p' W up" "credit_ok pb p' c ?v rest" using inv op p' by (simp_all add: link_inv_def sender_ok_def credit_ok_def)
    moreover have "pools_ok ?v rest bC" using inv op by (simp add: link_inv_def pools_ok_def)
    moreover have "flight_ok cb ?v W D up" "arrive_ok c ?v W D bC" "ring_ok c ?v W D"
      using inv by (simp_all add: link_inv_def flight_ok_def arrive_ok_def ring_ok_def)
    ultimately have "link_inv pb cb pq cq p' c ?v W D up rest bC" using inv p' by (simp add: link_inv_def)
    hence "linked pb cb pq cq p' c ?v W up rest bC" unfolding linked_def by blast
    thus ?thesis by (rule lk_runs [OF P_recv [OF post]])
  qed
qed

lemma handle_C:
  assumes "HandleCompletion C wc c e = Some (c', e')" and "lk p c e W up bP (wc # rest)"
  shows "lk p c' e' W up bP rest"
proof -
  obtain D where inv: "link_inv pb cb pq cq p c (view e) W D up bP (wc # rest)" using assms(2) by (auto simp: linked_def)
  hence wc: "wc_success wc" "wc_opcode wc = WcRdmaWrite \<or> wc_opcode wc = WcRecvRdmaWithImm" and cq: "rd_qp c = cq"
    by (simp_all add: link_inv_def arrive_ok_def)
  show ?thesis
  proof (cases "wc_opcode wc = WcRdmaWrite")
    case True
    hence "c' = c" "e' = e" using assms(1) wc by (auto simp: HandleCompletion_def)
    moreover have "arrive_ok c (view e) W D rest" using inv True by (simp add: link_inv_def arrive_ok_def)
    moreover have "pools_ok (view e) bP rest" using inv True by (simp add: link_inv_def pools_ok_def)
    ultimately show ?thesis using inv by (auto simp: linked_def link_inv_def)
  next
    case False
    hence op: "wc_opcode wc = WcRecvRdmaWithImm" using wc by simp
    let ?t = "rd_arrival_tail c"
    let ?l = "length (W ! ?t)"
    have arr: "?t \<le> D" "wc_imm wc # imms (rest @ n_ccq (view e)) =
        map (\<lambda>i. EncodeDataImmediate (i mod kRdmaSlotCount) (length (W ! i))) [?t..<D]"
      using inv op by (simp_all add: link_inv_def arrive_ok_def)
    hence less: "?t < D" by (cases "?t = D") auto
    hence imm: "wc_imm wc = EncodeDataImmediate (?t mod kRdmaSlotCount) ?l"
      and imms: "imms (rest @ n_ccq (view e)) = map (\<lambda>i. EncodeDataImmediate (i mod kRdmaSlotCount) (length (W ! i))) [Suc ?t..<D]"
      using arr(2) by (simp_all add: upt_conv_Cons)
    have D: "D \<le> length W" using inv by (simp add: link_inv_def flight_ok_def)
    have "W ! ?t \<in> set W" using less D by simp
    hence small: "0 < ?l" "?l \<le> kRdmaSlotSize" using inv by (auto simp: link_inv_def sender_ok_def)
    have slot: "?t mod kRdmaSlotCount < 2 ^ 15" "?l \<le> 2 ^ 16"
      using small slots_positive mod_less_divisor [of kRdmaSlotCount ?t] by (simp_all add: rdma_sizes)
    note round = immediate_roundtrip [OF slot(1) small(1) slot(2)]
    have near: "length W \<le> rd_arrival_head c + kRdmaSlotCount" using inv window_bound unfolding link_inv_def by blast
    have c': "c' = c\<lparr>rd_arrival_lengths := (rd_arrival_lengths c)[?t mod kRdmaSlotCount := ?l], rd_arrival_tail := ?t + 1\<rparr>"
      and post: "vb_post_recv C cq [\<lparr>rw_id = wc_id wc, rw_data = Staged (ScratchData (wc_id wc)) kRdmaControlSize\<rparr>] e = (True, e')"
      using assms(1) wc op cq imm round slots_positive
      by (auto simp: HandleCompletion_def PostPoolRecv_def split: prod.splits bool.splits if_splits)
    let ?v = "(view e)\<lparr>n_crecv := n_crecv (view e) @ [wc_id wc]\<rparr>"
    have ring: "ring_ok c (view e) W D" using inv by (simp add: link_inv_def)
    have "(rd_arrival_lengths c)[?t mod kRdmaSlotCount := ?l] ! (i mod kRdmaSlotCount) = length (W ! i)"
      if i: "rd_arrival_head c \<le> i" "i < Suc ?t" for i
    proof (cases "i = ?t")
      case True thus ?thesis using ring slots_positive by (simp add: ring_ok_def)
    next
      case False
      hence "i mod kRdmaSlotCount \<noteq> ?t mod kRdmaSlotCount" using i near less D by (intro mod_window) linarith+
      thus ?thesis using ring i False by (simp add: ring_ok_def)
    qed
    hence "ring_ok c' ?v W D" using ring small by (auto simp: ring_ok_def c' split: if_splits)
    moreover have "arrive_ok c' ?v W D rest" using inv imms less by (simp add: link_inv_def arrive_ok_def c')
    moreover have "pools_ok ?v bP rest" using inv op by (simp add: link_inv_def pools_ok_def)
    moreover have "flight_ok cb ?v W D up" "credit_ok pb p c' ?v bP" using inv by (simp_all add: link_inv_def flight_ok_def credit_ok_def c')
    ultimately have "link_inv pb cb pq cq p c' ?v W D up bP rest" using inv by (simp add: link_inv_def c')
    hence "linked pb cb pq cq p c' ?v W up bP rest" unfolding linked_def by blast
    thus ?thesis by (rule lk_runs [OF C_recv [OF post]])
  qed
qed

lemma poll_P: "vb_poll_cq P k e = (Some wcs, e') \<Longrightarrow> lk p c e W up [] bC \<Longrightarrow> lk p c e' W up wcs bC"
proof -
  assume poll: "vb_poll_cq P k e = (Some wcs, e')" and inv: "lk p c e W up [] bC"
  obtain v rest where v: "card_runs pb cb (view e) v" "n_pcq v = wcs @ rest" "card_runs pb cb (v\<lparr>n_pcq := rest\<rparr>) (view e')"
    using P_poll [OF poll] by blast
  obtain D where D: "link_inv pb cb pq cq p c v W D up [] bC" using runs_preserve [OF v(1) inv] by (auto simp: linked_def)
  hence "credit_ok pb p c (v\<lparr>n_pcq := rest\<rparr>) wcs" using v(2) by (simp add: link_inv_def credit_ok_def)
  moreover have "pools_ok (v\<lparr>n_pcq := rest\<rparr>) wcs bC" using D v(2) by (simp add: link_inv_def pools_ok_def)
  ultimately have "link_inv pb cb pq cq p c (v\<lparr>n_pcq := rest\<rparr>) W D up wcs bC"
    using D by (simp add: link_inv_def flight_ok_def ring_ok_def arrive_ok_def)
  hence "linked pb cb pq cq p c (v\<lparr>n_pcq := rest\<rparr>) W up wcs bC" unfolding linked_def by blast
  thus ?thesis by (rule lk_runs [OF v(3)])
qed

lemma poll_C: "vb_poll_cq C k e = (Some wcs, e') \<Longrightarrow> lk p c e W up bP [] \<Longrightarrow> lk p c e' W up bP wcs"
proof -
  assume poll: "vb_poll_cq C k e = (Some wcs, e')" and inv: "lk p c e W up bP []"
  obtain v rest where v: "card_runs pb cb (view e) v" "n_ccq v = wcs @ rest" "card_runs pb cb (v\<lparr>n_ccq := rest\<rparr>) (view e')"
    using C_poll [OF poll] by blast
  obtain D where D: "link_inv pb cb pq cq p c v W D up bP []" using runs_preserve [OF v(1) inv] by (auto simp: linked_def)
  hence "arrive_ok c (v\<lparr>n_ccq := rest\<rparr>) W D wcs" using v(2) by (simp add: link_inv_def arrive_ok_def)
  moreover have "pools_ok (v\<lparr>n_ccq := rest\<rparr>) bP wcs" using D v(2) by (simp add: link_inv_def pools_ok_def)
  ultimately have "link_inv pb cb pq cq p c (v\<lparr>n_ccq := rest\<rparr>) W D up bP wcs"
    using D by (simp add: link_inv_def flight_ok_def ring_ok_def credit_ok_def)
  hence "linked pb cb pq cq p c (v\<lparr>n_ccq := rest\<rparr>) W up bP wcs" unfolding linked_def by blast
  thus ?thesis by (rule lk_runs [OF v(3)])
qed

lemma process_P:
  assumes "ProcessCompletions P (HandleCompletion P) p e = Some (Some (p', e'))" and "lk p c e W up [] bC"
  shows "lk p' c e' W up [] bC"
proof (rule ProcessCompletions_preserves [of P _ p e p' e' "\<lambda>p e bP. lk p c e W up bP bC", OF assms])
  show "lk t c e' W up wcs bC" if "vb_poll_cq P 16 e = (Some wcs, e')" "lk t c e W up [] bC" for t e wcs e'
    using that by (rule poll_P)
  show "lk t' c e' W up rest bC" if "HandleCompletion P wc t e = Some (t', e')" "lk t c e W up (wc # rest) bC" for wc t e rest t' e'
    using that by (rule handle_P)
qed (rule lk_runs, rule P_wait, assumption)+

lemma process_C:
  assumes "ProcessCompletions C (HandleCompletion C) c e = Some (Some (c', e'))" and "lk p c e W up bP []"
  shows "lk p c' e' W up bP []"
proof (rule ProcessCompletions_preserves [of C _ c e c' e' "\<lambda>c e bC. lk p c e W up bP bC", OF assms])
  show "lk p t e' W up bP wcs" if "vb_poll_cq C 16 e = (Some wcs, e')" "lk p t e W up bP []" for t e wcs e'
    using that by (rule poll_C)
  show "lk p t' e' W up bP rest" if "HandleCompletion C wc t e = Some (t', e')" "lk p t e W up bP (wc # rest)" for wc t e rest t' e'
    using that by (rule handle_C)
qed (rule lk_runs, rule C_wait, assumption)+

subsection \<open>Sending\<close>

lemma runs_keep_slot:
  "card_runs pb cb v v' \<Longrightarrow> linked pb cb pq cq p c v W up bP bC \<Longrightarrow>
   heap_load (n_pmem v') (SlotData s) n = heap_load (n_pmem v) (SlotData s) n"
  unfolding card_runs_def
proof (induction rule: rtranclp_induct)
  case (step v1 v2)
  have "linked pb cb pq cq p c v1 W up bP bC" using step.hyps(1) step.prems runs_preserve by (simp add: card_runs_def)
  then obtain D where inv: "link_inv pb cb pq cq p c v1 W D up bP bC" by (auto simp: linked_def)
  from step.hyps(2) have "heap_load (n_pmem v2) (SlotData s) n = heap_load (n_pmem v1) (SlotData s) n"
  proof cases
    case (deliver_credit w ws r rs)
    have "unat (sw_remote w - pb) = kRdmaCreditOffset" "sw_data w = Staged kRdmaCreditOffset 1"
      using inv deliver_credit by (simp_all add: link_inv_def credit_ok_def)
    thus ?thesis using deliver_credit(1)
      by (simp add: wr_bytes_def heap_load_store_disjoint SlotData_def rdma_sizes)
  qed auto
  thus ?case using step by simp
qed simp

lemma staged_store:
  assumes "lk p c e W up bP bC" and room: "length W < rd_credits_received p + kRdmaSlotCount" and "length bs \<le> kRdmaSlotSize"
  defines "e' \<equiv> vb_store P (SlotData (length W mod kRdmaSlotCount)) bs e"
  shows "lk p c e' W up bP bC" and "heap_load (n_pmem (view e')) (SlotData (length W mod kRdmaSlotCount)) (length bs) = bs"
proof -
  let ?a = "SlotData (length W mod kRdmaSlotCount)"
  let ?v = "(view e)\<lparr>n_pmem := heap_store ?a bs (n_pmem (view e))\<rparr>"
  obtain D where inv: "link_inv pb cb pq cq p c (view e) W D up bP bC" using assms(1) by (auto simp: linked_def)
  have near: "length W < D + kRdmaSlotCount"
    using inv room by (simp add: link_inv_def credit_ok_def ring_ok_def arrive_ok_def)
  have keep: "req_ok cb (n_pmem ?v) W i w"
    if i: "i \<in> set [D..<length W]" and ok: "req_ok cb (n_pmem (view e)) W i w" for i w
  proof -
    have "i mod kRdmaSlotCount \<noteq> length W mod kRdmaSlotCount" using i near by (intro mod_window) auto
    hence "SlotData (i mod kRdmaSlotCount) + kRdmaSlotSize \<le> ?a \<or> ?a + length bs \<le> SlotData (i mod kRdmaSlotCount)"
      using slot_disjoint [of i "length W" kRdmaSlotSize "length bs"] assms(3) by simp
    moreover have "length (W ! i) \<le> kRdmaSlotSize" using inv i by (simp add: link_inv_def sender_ok_def)
    moreover have "n = length (W ! i)" if "sw_data w = Staged x n" for x n
      using ok that by (auto simp: req_ok_def wr_bytes_def dest: arg_cong [of _ _ length])
    ultimately show ?thesis using ok by (auto simp: req_ok_def wr_bytes_def heap_load_store_disjoint split: sge.splits)
  qed
  have fl: "list_all2 (req_ok cb (n_pmem (view e)) W) [D..<length W] (n_data (view e) @ up)" and "D \<le> length W"
    using inv by (simp_all add: link_inv_def flight_ok_def)
  hence "flight_ok cb ?v W D up" using list.rel_mono_strong [OF fl keep] by (simp add: flight_ok_def)
  moreover have "ring_ok c ?v W D" "credit_ok pb p c ?v bP" "arrive_ok c ?v W D bC" using inv
    by (simp_all add: link_inv_def ring_ok_def credit_ok_def arrive_ok_def)
  moreover have "pools_ok ?v bP bC" using inv by (simp add: link_inv_def pools_ok_def)
  ultimately have "link_inv pb cb pq cq p c ?v W D up bP bC" using inv by (simp add: link_inv_def)
  hence l: "linked pb cb pq cq p c ?v W up bP bC" unfolding linked_def by blast
  show "lk p c e' W up bP bC" unfolding e'_def by (rule lk_runs [OF P_store l])
  show "heap_load (n_pmem (view e')) ?a (length bs) = bs"
    using runs_keep_slot [OF P_store l] unfolding e'_def by simp
qed

lemma staged:
  assumes "lk p c e W up bP bC" and "length W < rd_credits_received p + kRdmaSlotCount" and "length bs \<le> kRdmaSlotSize"
  defines "e' \<equiv> stage_chunk P p (length W mod kRdmaSlotCount) bs e"
  shows "lk p c e' W up bP bC" and "\<not> use_inline p (length bs) \<Longrightarrow>
    heap_load (n_pmem (view e')) (SlotData (length W mod kRdmaSlotCount)) (length bs) = bs"
proof -
  let ?a = "SlotData (length W mod kRdmaSlotCount)"
  have all: "lk p c ((vb_store P ?a bs ^^ n) e) W up bP bC" for n
    by (induction n) (auto simp: assms(1) intro: staged_store(1) [OF _ assms(2,3)])
  thus "lk p c e' W up bP bC" using assms(1) by (simp add: e'_def stage_chunk_def)
  show "heap_load (n_pmem (view e')) ?a (length bs) = bs" if "\<not> use_inline p (length bs)"
  proof -
    have rep: "kCopyRepeat = Suc 99" by (simp add: kCopyRepeat_def)
    have "e' = (vb_store P ?a bs ^^ kCopyRepeat) e" using that by (simp add: e'_def stage_chunk_def)
    also have "\<dots> = vb_store P ?a bs ((vb_store P ?a bs ^^ 99) e)" unfolding rep funpow.simps o_apply ..
    finally have "e' = vb_store P ?a bs ((vb_store P ?a bs ^^ 99) e)" .
    thus ?thesis using staged_store(2) [OF all assms(2,3)] by metis
  qed
qed

lemma request_added:
  assumes "lk p c e W up bP bC" and room: "length W < rd_credits_received p + kRdmaSlotCount"
    and bs: "bs \<noteq> []" "length bs \<le> kRdmaSlotSize"
  defines "slot \<equiv> length W mod kRdmaSlotCount"
  shows "lk p c (stage_chunk P p slot bs e) (W @ [bs]) (up @ [write_request p slot bs signaled]) bP bC"
proof -
  let ?e = "stage_chunk P p slot bs e" and ?w = "write_request p slot bs signaled"
  note st = staged [OF assms(1) room bs(2), folded slot_def]
  obtain D where inv: "link_inv pb cb pq cq p c (view ?e) W D up bP bC" using st(1) by (auto simp: linked_def)
  have "slot < kRdmaSlotCount" using slots_positive by (simp add: slot_def)
  hence "req_ok cb (n_pmem (view ?e)) (W @ [bs]) (length W) ?w"
    using inv st(2) unat_slot [of slot]
    by (auto simp: req_ok_def write_request_def wr_bytes_def link_inv_def simp flip: slot_def)
  moreover have "req_ok cb (n_pmem (view ?e)) (W @ [bs]) i w" if "i \<in> set [D..<length W]" "req_ok cb (n_pmem (view ?e)) W i w" for i w
    using that by (simp add: req_ok_def nth_append)
  hence "list_all2 (req_ok cb (n_pmem (view ?e)) (W @ [bs])) [D..<length W] (n_data (view ?e) @ up)"
    using inv unfolding link_inv_def flight_ok_def by (blast intro: list.rel_mono_strong)
  ultimately have "list_all2 (req_ok cb (n_pmem (view ?e)) (W @ [bs])) ([D..<length W] @ [length W]) ((n_data (view ?e) @ up) @ [?w])"
    by (intro list_all2_appendI) auto
  moreover have D: "D \<le> length W" using inv by (simp add: link_inv_def flight_ok_def)
  ultimately have "flight_ok cb (view ?e) (W @ [bs]) D (up @ [?w])" by (simp add: flight_ok_def)
  moreover have "sender_ok p (W @ [bs]) (up @ [?w])" using inv room bs by (simp add: link_inv_def sender_ok_def)
  moreover have "arrive_ok c (view ?e) (W @ [bs]) D bC" using inv D by (simp add: link_inv_def arrive_ok_def nth_append)
  moreover have "ring_ok c (view ?e) (W @ [bs]) D"
  proof -
    have "rd_arrival_tail c \<le> D" using inv by (simp add: link_inv_def arrive_ok_def)
    thus ?thesis using inv D by (simp add: link_inv_def ring_ok_def nth_append)
  qed
  ultimately have "link_inv pb cb pq cq p c (view ?e) (W @ [bs]) D (up @ [?w]) bP bC" using inv by (simp add: link_inv_def)
  thus ?thesis unfolding linked_def by blast
qed

lemma chunks_added:
  assumes "write_requests P p data pr n seq e = (ws, pr', e')" and "lk p c e W up bP bC" and "seq = length W"
    and "length W + n \<le> rd_credits_received p + kRdmaSlotCount" and "n \<le> chunk_count (length data - pr)" and "pr \<le> length data"
  shows "\<exists>cs. lk p c e' (W @ cs) (up @ ws) bP bC \<and> concat cs = take (pr' - pr) (drop pr data) \<and> pr \<le> pr' \<and> length ws = n"
  using assms
proof (induction n arbitrary: pr seq e ws W up)
  case 0
  thus ?case by (intro exI [of _ "[]"]) simp
next
  case (Suc n)
  define bs where "bs = write_chunk data pr"
  define e1 where "e1 = stage_chunk P p (length W mod kRdmaSlotCount) bs e"
  have "0 < length data - pr" using Suc.prems(5) by (cases "length data - pr = 0") (simp_all add: chunk_count_def)
  hence bs: "bs \<noteq> []" "length bs \<le> kRdmaSlotSize" "length bs = min kRdmaSlotSize (length data - pr)"
    by (simp_all add: bs_def write_chunk_def rdma_sizes)
  obtain ws' where rec: "write_requests P p data (pr + length bs) n (Suc seq) e1 = (ws', pr', e')"
    and ws: "ws = write_request p (length W mod kRdmaSlotCount) bs (n = 0) # ws'"
    using Suc.prems(1,3) by (auto simp: Let_def bs_def e1_def split: prod.splits)
  have step: "lk p c e1 (W @ [bs]) (up @ [write_request p (length W mod kRdmaSlotCount) bs (n = 0)]) bP bC"
    unfolding e1_def using Suc.prems(2,4) bs by (intro request_added) auto
  have fits: "pr + length bs \<le> length data" using bs(3) Suc.prems(6) by simp
  have "n \<le> chunk_count (length data - (pr + length bs))"
    using Suc.prems(5) bs(3) by (auto simp: chunk_count_def rdma_sizes min_def split: if_splits)
  then obtain cs where cs: "lk p c e' ((W @ [bs]) @ cs) ((up @ [write_request p (length W mod kRdmaSlotCount) bs (n = 0)]) @ ws') bP bC"
      "concat cs = take (pr' - (pr + length bs)) (drop (pr + length bs) data)" "pr + length bs \<le> pr'" "length ws' = n"
    using Suc.IH [OF rec step _ _ _ fits] Suc.prems(3,4) by auto
  have "bs = take (length bs) (drop pr data)" by (simp add: bs_def write_chunk_def min_def)
  moreover have "take (pr' - pr) (drop pr data) =
      take (length bs) (drop pr data) @ take (pr' - (pr + length bs)) (drop (pr + length bs) data)"
    using cs(3) take_add [of "length bs" "pr' - (pr + length bs)" "drop pr data"] by (simp add: add.commute)
  ultimately have "concat (bs # cs) = take (pr' - pr) (drop pr data)" using cs(2) by simp
  thus ?case using cs ws by (intro exI [of _ "bs # cs"]) simp
qed

lemma TrySend_step:
  assumes "Rdma_TrySend P (HandleCompletion P) data pr p e = Some (Some (pr', fin, p', e'))" and "pr \<le> length data"
    and "lk p c e W [] [] bC"
  shows "\<exists>cs. lk p' c e' (W @ cs) [] [] bC \<and> concat cs = take (pr' - pr) (drop pr data)"
proof -
  obtain p1 e1 where proc: "ProcessCompletions P (HandleCompletion P) p e = Some (Some (p1, e1))"
    using assms(1) by (auto simp: Rdma_TrySend_def split: if_splits option.splits)
  define n where "n = min (ring_window p1) (chunk_count (length data - pr))"
  have l1: "lk p1 c e1 W [] [] bC" by (rule process_P [OF proc assms(3)])
  hence seq: "rd_send_seq p1 = length W" and window: "length W \<le> rd_credits_received p1 + kRdmaSlotCount" and qp: "rd_qp p1 = pq"
    by (auto simp: linked_def link_inv_def sender_ok_def)
  show ?thesis
  proof (cases "0 < n")
    case False
    hence "ring_window p1 = 0 \<or> chunk_count (length data - pr) = 0" by (auto simp: n_def)
    hence "pr' = pr" "p' = p1" "e' = e1" using assms(1) proc by (auto simp: Rdma_TrySend_def Let_def split: if_splits)
    thus ?thesis using l1 by (intro exI [of _ "[]"]) simp
  next
    case True
    hence writes: "PostWrites P p1 data pr n e1 = Some (pr', e')" and p': "p' = p1\<lparr>rd_send_seq := length W + n\<rparr>"
      using assms(1) proc seq unfolding Rdma_TrySend_def Let_def n_def by (auto split: if_splits option.splits)
    obtain ws e2 where wr: "write_requests P p1 data pr n (length W) e1 = (ws, pr', e2)"
      and post: "vb_post_send P pq ws e2 = (True, e')"
      using writes seq qp by (auto simp: PostWrites_def split: prod.splits bool.splits)
    have "length W + n \<le> rd_credits_received p1 + kRdmaSlotCount"
      using window seq by (auto simp: n_def ring_window_def Let_def min_def split: if_splits)
    then obtain cs where cs: "lk p1 c e2 (W @ cs) ws [] bC" "concat cs = take (pr' - pr) (drop pr data)" "length ws = n"
      using chunks_added [OF wr l1 refl] assms(2) by (auto simp: n_def)
    obtain D where inv: "link_inv pb cb pq cq p1 c (view e2) (W @ cs) D ws [] bC" using cs(1) by (auto simp: linked_def)
    let ?v = "(view e2)\<lparr>n_data := n_data (view e2) @ ws\<rparr>"
    have "sender_ok p' (W @ cs) []" using inv cs(3) seq by (simp add: link_inv_def sender_ok_def p')
    moreover have "flight_ok cb ?v (W @ cs) D []" "ring_ok c ?v (W @ cs) D" "credit_ok pb p' c ?v []" "arrive_ok c ?v (W @ cs) D bC"
      using inv by (simp_all add: link_inv_def flight_ok_def ring_ok_def credit_ok_def arrive_ok_def p')
    moreover have "pools_ok ?v [] bC" using inv by (simp add: link_inv_def pools_ok_def)
    ultimately have "link_inv pb cb pq cq p' c ?v (W @ cs) D [] [] bC" using inv by (simp add: link_inv_def p')
    hence "linked pb cb pq cq p' c ?v (W @ cs) [] [] bC" unfolding linked_def by blast
    hence "lk p' c e' (W @ cs) [] [] bC" by (rule lk_runs [OF P_send [OF post]])
    thus ?thesis using cs(2) by blast
  qed
qed

subsection \<open>Receiving\<close>

definition consumed :: "TransportRDMA \<Rightarrow> byte list list \<Rightarrow> byte list" where
  "consumed c W = concat (take (rd_arrival_head c) W) @ take (rd_arrival_offset c) (W ! rd_arrival_head c)"

lemma heap_load_part: "a + k \<le> n \<Longrightarrow> heap_load h (b + a) k = take k (drop a (heap_load h b n))"
  by (rule nth_equalityI) (simp_all add: add.assoc)

lemma copy_step:
  fixes room :: nat
  assumes "lk p c e W [] bP []" and run: "rd_arrival_head c \<noteq> rd_arrival_tail c"
  defines "h \<equiv> rd_arrival_head c"
  defines "len \<equiv> rd_arrival_lengths c ! (h mod kRdmaSlotCount)"
  defines "k \<equiv> min (len - rd_arrival_offset c) room"
  defines "c' \<equiv> (if rd_arrival_offset c + k = len
      then c\<lparr>rd_arrival_offset := 0, rd_arrival_head := h + 1, rd_pending_credit := rd_pending_credit c + 1\<rparr>
      else c\<lparr>rd_arrival_offset := rd_arrival_offset c + k\<rparr>)"
  shows "lk p c' e W [] bP []" and "consumed c' W = consumed c W @ vb_load C (SlotData (h mod kRdmaSlotCount) + rd_arrival_offset c) k e"
proof -
  obtain D where inv: "link_inv pb cb pq cq p c (view e) W D [] bP []" using assms(1) by (auto simp: linked_def)
  have h: "h < rd_arrival_tail c" "rd_arrival_tail c \<le> D" "D \<le> length W"
    using inv run by (simp_all add: h_def link_inv_def ring_ok_def arrive_ok_def flight_ok_def)
  have len: "len = length (W ! h)" and off: "rd_arrival_offset c < length (W ! h)"
    and mem: "heap_load (n_cmem (view e)) (SlotData (h mod kRdmaSlotCount)) (length (W ! h)) = W ! h"
    using inv run h by (simp_all add: h_def len_def link_inv_def ring_ok_def)
  have nonempty: "0 < length (W ! i)" if "i < length W" for i using inv that by (simp add: link_inv_def sender_ok_def)
  have bytes: "vb_load C (SlotData (h mod kRdmaSlotCount) + rd_arrival_offset c) k e = take k (drop (rd_arrival_offset c) (W ! h))"
  proof -
    have "rd_arrival_offset c + k \<le> length (W ! h)" using off by (simp add: k_def len)
    from heap_load_part [OF this, of "n_cmem (view e)"] show ?thesis by (simp add: C_load mem)
  qed
  have fields: "rd_qp c' = rd_qp c" "rd_peer c' = rd_peer c" "rd_arrival_tail c' = rd_arrival_tail c"
    "rd_arrival_lengths c' = rd_arrival_lengths c" by (simp_all add: c'_def)
  have ring: "ring_ok c (view e) W D" and credit: "credit_ok pb p c (view e) bP" using inv by (simp_all add: link_inv_def)
  have "credit_ok pb p c' (view e) bP" using credit by (simp add: credit_ok_def c'_def h_def)
  moreover have "ring_ok c' (view e) W D"
  proof (cases "rd_arrival_offset c + k = len")
    case True
    thus ?thesis using ring h nonempty [of "h + 1"] by (auto simp: ring_ok_def c'_def h_def)
  next
    case False
    moreover have "rd_arrival_offset c + k < length (W ! h)" using False off by (simp add: k_def len min_def split: if_splits)
    ultimately show ?thesis using ring run by (auto simp: ring_ok_def c'_def h_def)
  qed
  moreover have "arrive_ok c' (view e) W D []" using inv by (simp add: link_inv_def arrive_ok_def fields)
  ultimately have "link_inv pb cb pq cq p c' (view e) W D [] bP []" using inv by (simp add: link_inv_def fields)
  thus "lk p c' e W [] bP []" unfolding linked_def by blast
  show "consumed c' W = consumed c W @ vb_load C (SlotData (h mod kRdmaSlotCount) + rd_arrival_offset c) k e"
  proof (cases "rd_arrival_offset c + k = len")
    case True
    have "take (Suc h) W = take h W @ [W ! h]" using h by (simp add: take_Suc_conv_app_nth)
    moreover have "take k (drop (rd_arrival_offset c) (W ! h)) = drop (rd_arrival_offset c) (W ! h)" using True len by simp
    ultimately show ?thesis unfolding bytes using True by (simp add: consumed_def c'_def h_def)
  next
    case False
    thus ?thesis unfolding bytes by (simp add: consumed_def c'_def h_def take_add)
  qed
qed

lemma copy_loop:
  assumes "recv_copy C room got c e = Some (got', c')"
  shows "lk p c e W [] bP [] \<longrightarrow> prior @ got = consumed c W \<longrightarrow> lk p c' e W [] bP [] \<and> prior @ got' = consumed c' W"
proof -
  have "vb = C \<longrightarrow> lk p c e W [] bP [] \<longrightarrow> prior @ got = consumed c W \<longrightarrow> lk p (snd r) e W [] bP [] \<and> prior @ fst r = consumed (snd r) W"
    if "recv_copy vb room got c e = Some r" for vb r and c :: TransportRDMA and got
    using that
  proof (induction rule: recv_copy.raw_induct [rotated, consumes 1])
    case (1 f vb room got c e r)
    show ?case
    proof (cases "length got < room \<and> rd_arrival_head c \<noteq> rd_arrival_tail c")
      case True
      show ?thesis
      proof (intro impI)
        assume eq: "vb = C" and l: "lk p c e W [] bP []" and so: "prior @ got = consumed c W"
        let ?h = "rd_arrival_head c"
        let ?len = "rd_arrival_lengths c ! (?h mod kRdmaSlotCount)"
        let ?k = "min (?len - rd_arrival_offset c) (room - length got)"
        let ?c = "if rd_arrival_offset c + ?k = ?len
          then c\<lparr>rd_arrival_offset := 0, rd_arrival_head := ?h + 1, rd_pending_credit := rd_pending_credit c + 1\<rparr>
          else c\<lparr>rd_arrival_offset := rd_arrival_offset c + ?k\<rparr>"
        let ?bs = "vb_load C (SlotData (?h mod kRdmaSlotCount) + rd_arrival_offset c) ?k e"
        have rec: "f C room (got @ ?bs) ?c e = Some r" using 1(2) True eq by (simp add: Let_def)
        have "lk p ?c e W [] bP []" and "prior @ (got @ ?bs) = consumed ?c W"
          using copy_step [OF l, of "room - length got"] True so by simp_all
        thus "lk p (snd r) e W [] bP [] \<and> prior @ fst r = consumed (snd r) W"
          using 1(1) [OF rec] by blast
      qed
    next
      case False
      thus ?thesis using 1(2) by auto
    qed
  qed
  thus ?thesis using assms by fastforce
qed

lemma credit_step:
  assumes "return_credit C c e = Some (c', e')" and "lk p c e W [] bP []"
  shows "lk p c' e' W [] bP [] \<and> consumed c' W = consumed c W"
proof (cases "rd_pending_credit c \<ge> kCreditBatch \<or> (rd_pending_credit c > 0 \<and> rd_arrival_head c = rd_arrival_tail c)")
  case False
  hence "c' = c" "e' = e" using assms(1) by (auto simp: return_credit_def)
  thus ?thesis using assms(2) by simp
next
  case True
  let ?k = "rd_pending_credit c"
  let ?w = "\<lparr>sw_id = 0, sw_opcode = WrRdmaWriteWithImm, sw_signaled = True, sw_imm = or kCreditImmediate (word_of_nat ?k),
       sw_remote = wi_base_addr (rd_peer c) + word_of_nat kRdmaCreditOffset, sw_rkey = wi_rkey (rd_peer c),
       sw_data = Staged kRdmaCreditOffset 1\<rparr>"
  obtain D where inv: "link_inv pb cb pq cq p c (view e) W D [] bP []" using assms(2) by (auto simp: linked_def)
  have post: "vb_post_send C cq [?w] e = (True, e')" and c': "c' = c\<lparr>rd_pending_credit := 0\<rparr>"
    using assms(1) True inv by (auto simp: return_credit_def PostCredit_def link_inv_def split: prod.splits bool.splits)
  have "0 < ?k" using True by (auto simp: kCreditBatch_def)
  moreover have "?k \<le> kRdmaSlotCount"
    using inv by (simp add: link_inv_def credit_ok_def sender_ok_def ring_ok_def arrive_ok_def flight_ok_def)
  ultimately have credit: "credit_value (sw_imm ?w) = ?k" "is_credit (sw_imm ?w)"
    using credit_roundtrip [of ?k] by (simp_all add: rdma_sizes)
  have remote: "unat (sw_remote ?w - pb) = kRdmaCreditOffset" using inv by (simp add: link_inv_def rdma_sizes)
  let ?v = "(view e)\<lparr>n_credit := n_credit (view e) @ [?w]\<rparr>"
  have "credit_ok pb p c (view e) bP" using inv by (simp add: link_inv_def)
  hence "credit_ok pb p c' ?v bP" unfolding credit_ok_def c' using credit remote by simp
  moreover have "flight_ok cb ?v W D []" "ring_ok c' ?v W D" "arrive_ok c' ?v W D []"
    using inv by (simp_all add: link_inv_def flight_ok_def ring_ok_def arrive_ok_def c')
  moreover have "pools_ok ?v bP []" using inv by (simp add: link_inv_def pools_ok_def)
  ultimately have "link_inv pb cb pq cq p c' ?v W D [] bP []" using inv by (simp add: link_inv_def c')
  hence "linked pb cb pq cq p c' ?v W [] bP []" unfolding linked_def by blast
  hence "lk p c' e' W [] bP []" by (rule lk_runs [OF C_send [OF post]])
  thus ?thesis by (simp add: consumed_def c')
qed

lemma consumed_process:
  assumes "ProcessCompletions C (HandleCompletion C) c e = Some (Some (c', e'))"
  shows "rd_arrival_head c' = rd_arrival_head c \<and> rd_arrival_offset c' = rd_arrival_offset c"
  by (rule ProcessCompletions_preserves [of C _ c e c' e'
        "\<lambda>t e wcs. rd_arrival_head t = rd_arrival_head c \<and> rd_arrival_offset t = rd_arrival_offset c", OF assms])
    (auto simp: HandleCompletion_def split: if_splits wc_opcode.splits prod.splits bool.splits)

lemma TryRecv_step:
  assumes "Rdma_TryRecv C (HandleCompletion C) sz pr c e = Some (Some (bs, fin, c', e'))"
    and "lk p c e W [] bP []"
  shows "lk p c' e' W [] bP [] \<and> consumed c' W = consumed c W @ bs"
proof -
  obtain c1 e1 c2 where proc: "ProcessCompletions C (HandleCompletion C) c e = Some (Some (c1, e1))"
    and copy: "recv_copy C (sz - pr) [] c1 e1 = Some (bs, c2)" and ret: "return_credit C c2 e1 = Some (c', e')"
    using assms(1) by (auto simp: Rdma_TryRecv_def split: if_splits option.splits)
  have "consumed c1 W = consumed c W" using consumed_process [OF proc] by (simp add: consumed_def)
  hence "lk p c2 e1 W [] bP []" and "consumed c W @ bs = consumed c2 W"
    using copy_loop [OF copy, of p W bP "consumed c W"] process_C [OF proc assms(2)] by simp_all
  thus ?thesis using credit_step [OF ret] by metis
qed

subsection \<open>The system\<close>

lemma initially_linked:
  assumes "rdma_connected pb cb pq cq p c v"
  shows "linked pb cb pq cq p c v [] [] [] []"
  using assms unfolding linked_def
  by (intro exI [of _ 0]) (simp add: rdma_connected_def link_parts)

definition sys_ok :: "'e rdma_sys \<Rightarrow> bool" where
  "sys_ok s \<longleftrightarrow> (\<exists>W. lk (rs_p s) (rs_c s) (rs_env s) W [] [] [] \<and> rs_sent s = concat W \<and> rs_got s = consumed (rs_c s) W)"

lemma step_ok: "rdma_step P C s s' \<Longrightarrow> sys_ok s \<Longrightarrow> sys_ok s'"
proof (induction rule: rdma_step.induct)
  case (send data pr s pr' fin t e)
  then obtain W cs where "rs_sent s = concat W" "rs_got s = consumed (rs_c s) W" "lk t (rs_c s) e (W @ cs) [] [] []"
      "concat cs = take (pr' - pr) (drop pr data)" "lk (rs_p s) (rs_c s) (rs_env s) W [] [] []"
    unfolding sys_ok_def using TrySend_step by meson
  moreover have "consumed (rs_c s) (W @ cs) = consumed (rs_c s) W"
  proof -
    obtain D where "link_inv pb cb pq cq (rs_p s) (rs_c s) (view (rs_env s)) W D [] [] []" using calculation(5) by (auto simp: linked_def)
    hence "rd_arrival_head (rs_c s) < length W \<or> rd_arrival_head (rs_c s) = length W \<and> rd_arrival_offset (rs_c s) = 0"
      by (auto simp: link_inv_def ring_ok_def arrive_ok_def flight_ok_def)
    thus ?thesis by (auto simp: consumed_def nth_append)
  qed
  ultimately show ?case unfolding sys_ok_def by (intro exI [of _ "W @ cs"]) simp
next
  case (recv sz pr s bs fin t e)
  then obtain W where W: "lk (rs_p s) (rs_c s) (rs_env s) W [] [] []" "rs_sent s = concat W" "rs_got s = consumed (rs_c s) W"
    unfolding sys_ok_def by blast
  from TryRecv_step [OF recv(1) W(1)] W show ?case unfolding sys_ok_def by (intro exI [of _ W]) simp
qed

lemma run_ok:
  assumes "(rdma_step P C)\<^sup>*\<^sup>* s0 s" and "rdma_connected pb cb pq cq (rs_p s0) (rs_c s0) (view (rs_env s0))"
    and "rs_sent s0 = []" and "rs_got s0 = []"
  shows "sys_ok s"
  using assms(1)
proof (induction rule: rtranclp_induct)
  case base
  show ?case unfolding sys_ok_def using initially_linked [OF assms(2)] assms(2-)
    by (intro exI [of _ "[]"]) (simp add: consumed_def rdma_connected_def)
next
  case (step s1 s2)
  thus ?case using step_ok by blast
qed

lemma sys_prefix:
  assumes "sys_ok s"
  shows "prefix (rs_got s) (rs_sent s)"
    and "n_data (view (rs_env s)) = [] \<Longrightarrow> n_ccq (view (rs_env s)) = [] \<Longrightarrow> rd_arrival_head (rs_c s) = rd_arrival_tail (rs_c s) \<Longrightarrow>
      rs_got s = rs_sent s"
proof -
  obtain W D where inv: "link_inv pb cb pq cq (rs_p s) (rs_c s) (view (rs_env s)) W D [] [] []"
    and eqs: "rs_sent s = concat W" "rs_got s = consumed (rs_c s) W"
    using assms by (auto simp: sys_ok_def linked_def)
  let ?h = "rd_arrival_head (rs_c s)"
  have off: "?h < length W \<and> rd_arrival_offset (rs_c s) \<le> length (W ! ?h) \<or> ?h = length W \<and> rd_arrival_offset (rs_c s) = 0"
    using inv by (auto simp: link_inv_def ring_ok_def arrive_ok_def flight_ok_def split: if_splits)
  show "prefix (rs_got s) (rs_sent s)"
  proof (cases "?h < length W")
    case True
    hence "concat W = concat (take ?h W) @ W ! ?h @ concat (drop (Suc ?h) W)"
      by (metis id_take_nth_drop concat.simps(2) concat_append)
    thus ?thesis unfolding eqs consumed_def by (simp add: take_is_prefix prefix_prefix)
  qed (use off in \<open>simp add: eqs consumed_def\<close>)
  assume none: "n_data (view (rs_env s)) = []" "n_ccq (view (rs_env s)) = []" "?h = rd_arrival_tail (rs_c s)"
  have "D = length W" using inv none(1) by (auto simp: link_inv_def flight_ok_def)
  moreover have "rd_arrival_tail (rs_c s) = D" using inv none(2) by (auto simp: link_inv_def arrive_ok_def)
  ultimately show "rs_got s = rs_sent s" using off none(3) by (simp add: eqs consumed_def)
qed

lemma sys_bounds:
  assumes "sys_ok s"
  defines "v \<equiv> view (rs_env s)"
  shows "rd_send_seq (rs_p s) \<le> rd_credits_received (rs_p s) + kRdmaSlotCount"
    and "rd_arrival_tail (rs_c s) \<le> rd_arrival_head (rs_c s) + kRdmaSlotCount"
    and "w \<in> set (n_data v) \<Longrightarrow> \<exists>slot < kRdmaSlotCount. unat (sw_remote w - cb) = SlotData slot \<and>
      length (wr_bytes (n_pmem v) w) \<le> kRdmaSlotSize"
    and "n_data v \<noteq> [] \<Longrightarrow> n_crecv v \<noteq> []" and "n_credit v \<noteq> [] \<Longrightarrow> n_precv v \<noteq> []"
proof -
  obtain W D where inv: "link_inv pb cb pq cq (rs_p s) (rs_c s) v W D [] [] []"
    using assms by (auto simp: sys_ok_def linked_def)
  show "rd_send_seq (rs_p s) \<le> rd_credits_received (rs_p s) + kRdmaSlotCount"
    using inv by (simp add: link_inv_def sender_ok_def)
  have near: "length W \<le> rd_arrival_head (rs_c s) + kRdmaSlotCount" using inv window_bound unfolding link_inv_def by blast
  have order: "rd_arrival_head (rs_c s) \<le> rd_arrival_tail (rs_c s)" "rd_arrival_tail (rs_c s) \<le> D" "D \<le> length W"
    using inv by (simp_all add: link_inv_def ring_ok_def arrive_ok_def flight_ok_def)
  show "rd_arrival_tail (rs_c s) \<le> rd_arrival_head (rs_c s) + kRdmaSlotCount" using near order by linarith
  show "\<exists>slot < kRdmaSlotCount. unat (sw_remote w - cb) = SlotData slot \<and> length (wr_bytes (n_pmem v) w) \<le> kRdmaSlotSize"
    if "w \<in> set (n_data v)"
  proof -
    have "list_all2 (req_ok cb (n_pmem v) W) [D..<length W] (n_data v)" using inv by (simp add: link_inv_def flight_ok_def)
    moreover obtain j where j: "j < length (n_data v)" "n_data v ! j = w" using \<open>w \<in> set (n_data v)\<close> by (meson in_set_conv_nth)
    ultimately have "req_ok cb (n_pmem v) W ([D..<length W] ! j) w" "length (n_data v) = length [D..<length W]"
      using list_all2_nthD2 [of _ "[D..<length W]" "n_data v" j] list_all2_lengthD by fastforce+
    then obtain i where "i \<in> set [D..<length W]" "req_ok cb (n_pmem v) W i w" using j(1) nth_mem by metis
    moreover hence "length (W ! i) \<le> kRdmaSlotSize" using inv by (simp add: link_inv_def sender_ok_def)
    ultimately show ?thesis using slots_positive by (intro exI [of _ "i mod kRdmaSlotCount"]) (simp add: req_ok_def)
  qed
  have arr: "length (imms (n_ccq v)) \<le> kRdmaSlotCount" using inv near order by (simp add: link_inv_def arrive_ok_def)
  have "length (n_crecv v) + length (imms (n_ccq v)) = kRdmaRecvPool" using inv by (simp add: link_inv_def pools_ok_def)
  thus "n_crecv v \<noteq> []" using arr by (auto simp: rdma_sizes)
  have "sum_list (map credit_value (imms (n_pcq v))) \<le> kRdmaSlotCount"
    using inv near order by (simp add: link_inv_def credit_ok_def sender_ok_def)
  moreover have "length xs \<le> sum_list (map credit_value xs)" if "\<forall>x \<in> set xs. is_credit x" for xs
    using that by (induction xs) (auto simp: is_credit_def)
  moreover have "\<forall>x \<in> set (imms (n_pcq v)). is_credit x" using inv by (simp add: link_inv_def credit_ok_def)
  ultimately have "length (imms (n_pcq v)) \<le> kRdmaSlotCount" by (meson le_trans)
  moreover have "length (n_precv v) + length (imms (n_pcq v)) = kRdmaRecvPool" using inv by (simp add: link_inv_def pools_ok_def)
  ultimately show "n_precv v \<noteq> []" by (auto simp: rdma_sizes)
qed

end

end
