(* ===== verification/Occl_Rdma_Correct.thy ===== *)
theory Occl_Rdma_Correct
  imports Occl_Rdma_Fifo
begin

section \<open>The RDMA ring on a connection\<close>

text \<open>
  A connection on which \<open>rdma_link\<close> holds, where the cards run when a completion queue is polled, and the properties of
  the ring of \<open>TransportRDMA\<close> for every connection.
\<close>

fun run_data :: "64 word \<Rightarrow> nat \<Rightarrow> rnet \<Rightarrow> rnet" where
  "run_data cb 0 v = v"
| "run_data cb (Suc n) v =
     (case (n_data v, n_crecv v) of
        (w # ws, r # rs) \<Rightarrow>
          if sw_opcode w = WrRdmaWriteWithImm then
            run_data cb n (v\<lparr>n_data := ws, n_crecv := rs,
              n_cmem := heap_store (unat (sw_remote w - cb)) (wr_bytes (n_pmem v) w) (n_cmem v), n_ccq := n_ccq v @ [imm_completion r w]\<rparr>)
          else v
      | _ \<Rightarrow> v)"

fun run_credit :: "64 word \<Rightarrow> nat \<Rightarrow> rnet \<Rightarrow> rnet" where
  "run_credit pb 0 v = v"
| "run_credit pb (Suc n) v =
     (case (n_credit v, n_precv v) of
        (w # ws, r # rs) \<Rightarrow>
          if sw_opcode w = WrRdmaWriteWithImm then
            run_credit pb n (v\<lparr>n_credit := ws, n_precv := rs,
              n_pmem := heap_store (unat (sw_remote w - pb)) (wr_bytes (n_cmem v) w) (n_pmem v), n_pcq := n_pcq v @ [imm_completion r w]\<rparr>)
          else v
      | _ \<Rightarrow> v)"

lemma card_runs_refl [simp, intro]: "card_runs pb cb v v"
  by (simp add: card_runs_def)

lemma run_data_card: "card_runs pb cb v (run_data cb n v)"
  unfolding card_runs_def
proof (induction cb n v rule: run_data.induct)
  case (2 cb n v)
  show ?case
  proof (cases "\<exists>w ws r rs. n_data v = w # ws \<and> n_crecv v = r # rs \<and> sw_opcode w = WrRdmaWriteWithImm")
    case True
    then obtain w ws r rs where q: "n_data v = w # ws" "n_crecv v = r # rs" "sw_opcode w = WrRdmaWriteWithImm" by blast
    from card_step.deliver_data [OF q(1,3,2), of pb cb] 2 [OF _ q(1,2) q(3)] show ?thesis
      by (simp add: q converse_rtranclp_into_rtranclp)
  qed (auto split: list.splits)
qed simp

lemma run_credit_card: "card_runs pb cb v (run_credit pb n v)"
  unfolding card_runs_def
proof (induction pb n v rule: run_credit.induct)
  case (2 pb n v)
  show ?case
  proof (cases "\<exists>w ws r rs. n_credit v = w # ws \<and> n_precv v = r # rs \<and> sw_opcode w = WrRdmaWriteWithImm")
    case True
    then obtain w ws r rs where q: "n_credit v = w # ws" "n_precv v = r # rs" "sw_opcode w = WrRdmaWriteWithImm" by blast
    from card_step.deliver_credit [OF q(1,3,2), of pb cb] 2 [OF _ q(1,2) q(3)] show ?thesis
      by (simp add: q converse_rtranclp_into_rtranclp)
  qed (auto split: list.splits)
qed simp

definition wire_p :: "64 word \<Rightarrow> rnet verbs" where
  "wire_p pb = \<lparr>vb_load = (\<lambda>a n v. heap_load (n_pmem v) a n), vb_store = (\<lambda>a bs v. v\<lparr>n_pmem := heap_store a bs (n_pmem v)\<rparr>),
     vb_qp_num = (\<lambda>q. q), vb_post_recv = (\<lambda>q ws v. (True, v\<lparr>n_precv := n_precv v @ map rw_id ws\<rparr>)),
     vb_post_send = (\<lambda>q ws v. (True, v\<lparr>n_data := n_data v @ ws\<rparr>)),
     vb_poll_cq = (\<lambda>k v. let v1 = run_credit pb (length (n_credit v)) v in (Some (take k (n_pcq v1)), v1\<lparr>n_pcq := drop k (n_pcq v1)\<rparr>)),
     vb_readable = (\<lambda>fd ms v. (False, v)), vb_get_event = (\<lambda>v. (True, v)), vb_req_notify = (\<lambda>v. (True, v))\<rparr>"

definition wire_c :: "64 word \<Rightarrow> rnet verbs" where
  "wire_c cb = \<lparr>vb_load = (\<lambda>a n v. heap_load (n_cmem v) a n), vb_store = (\<lambda>a bs v. v\<lparr>n_cmem := heap_store a bs (n_cmem v)\<rparr>),
     vb_qp_num = (\<lambda>q. q), vb_post_recv = (\<lambda>q ws v. (True, v\<lparr>n_crecv := n_crecv v @ map rw_id ws\<rparr>)),
     vb_post_send = (\<lambda>q ws v. (True, v\<lparr>n_credit := n_credit v @ ws\<rparr>)),
     vb_poll_cq = (\<lambda>k v. let v1 = run_data cb (length (n_data v)) v in (Some (take k (n_ccq v1)), v1\<lparr>n_ccq := drop k (n_ccq v1)\<rparr>)),
     vb_readable = (\<lambda>fd ms v. (False, v)), vb_get_event = (\<lambda>v. (True, v)), vb_req_notify = (\<lambda>v. (True, v))\<rparr>"

interpretation wire: rdma_link "wire_p pb" "wire_c cb" "\<lambda>v. v" pb cb pq cq
proof unfold_locales
  show "\<exists>v rest. card_runs pb cb e v \<and> n_pcq v = wcs @ rest \<and> card_runs pb cb (v\<lparr>n_pcq := rest\<rparr>) e'"
    if "vb_poll_cq (wire_p pb) k e = (Some wcs, e')" for k e wcs e'
    using that run_credit_card [of pb cb e "length (n_credit e)"]
    by (intro exI [of _ "run_credit pb (length (n_credit e)) e"]) (auto simp: wire_p_def Let_def intro!: exI [of _ "n_pcq e'"])
  show "\<exists>v rest. card_runs pb cb e v \<and> n_ccq v = wcs @ rest \<and> card_runs pb cb (v\<lparr>n_ccq := rest\<rparr>) e'"
    if "vb_poll_cq (wire_c cb) k e = (Some wcs, e')" for k e wcs e'
    using that run_data_card [of pb cb e "length (n_data e)"]
    by (intro exI [of _ "run_data cb (length (n_data e)) e"]) (auto simp: wire_c_def Let_def intro!: exI [of _ "n_ccq e'"])
qed (auto simp: wire_p_def wire_c_def)

subsection \<open>A run\<close>

definition demo_pb :: "64 word" where "demo_pb = 0x10000000"
definition demo_cb :: "64 word" where "demo_cb = 0x20000000"

definition demo_rdma_p :: TransportRDMA where
  "demo_rdma_p = TransportRDMA_default\<lparr>rd_direction := DirSend, rd_connected := True, rd_qp := 1, rd_comp_channel := 1,
     rd_inline_capacity := 64, rd_peer := \<lparr>wi_base_addr = demo_cb, wi_rkey = 7, wi_tail = replicate 24 0\<rparr>\<rparr>"

definition demo_rdma_c :: TransportRDMA where
  "demo_rdma_c = TransportRDMA_default\<lparr>rd_direction := DirReceive, rd_connected := True, rd_qp := 1, rd_comp_channel := 1,
     rd_inline_capacity := 64, rd_peer := \<lparr>wi_base_addr = demo_pb, wi_rkey = 7, wi_tail = replicate 24 0\<rparr>\<rparr>"

definition demo_rnet :: rnet where
  "demo_rnet = \<lparr>n_pmem = (\<lambda>_. 0), n_cmem = (\<lambda>_. 0), n_data = [], n_credit = [], n_precv = [0..<64], n_crecv = [0..<64], n_pcq = [], n_ccq = []\<rparr>"

definition demo_rdma :: "rnet rdma_sys" where
  "demo_rdma = \<lparr>rs_p = demo_rdma_p, rs_c = demo_rdma_c, rs_env = demo_rnet, rs_sent = [], rs_got = []\<rparr>"

lemma demo_connected: "rdma_connected demo_pb demo_cb 1 1 (rs_p demo_rdma) (rs_c demo_rdma) (rs_env demo_rdma)"
  by (simp add: rdma_connected_def demo_rdma_def demo_rdma_p_def demo_rdma_c_def demo_rnet_def TransportRDMA_default_def rdma_sizes)

lemma idle_p:
  assumes "n_credit v = []" and "n_pcq v = []" and "rd_comp_channel t = 1" and "rd_wait_mode t = EventDriven"
  shows "ProcessCompletions (wire_p pb) (HandleCompletion (wire_p pb)) t v = Some (Some (t, v))"
proof -
  have "PollCompletionQueue (wire_p pb) handle t v = Some (Some (t, v))" for handle
    using assms by (subst PollCompletionQueue.simps) (simp add: wire_p_def)
  moreover have "drain_events (wire_p pb) ch True v = Some (True, v)" for ch
    by (subst drain_events.simps) (simp add: wire_p_def)
  ultimately show ?thesis using assms by (simp add: ProcessCompletions_def ProcessCompletionEvents_def DrainCompletionEvents_def)
qed

lemma demo_rdma_send:
  "Rdma_TrySend (wire_p demo_pb) (HandleCompletion (wire_p demo_pb)) [104, 105] 0 demo_rdma_p demo_rnet =
     Some (Some (2, True, demo_rdma_p\<lparr>rd_send_seq := 1\<rparr>, demo_rnet\<lparr>n_data := [write_request demo_rdma_p 0 [104, 105] True]\<rparr>))"
proof -
  have "ProcessCompletions (wire_p demo_pb) (HandleCompletion (wire_p demo_pb)) demo_rdma_p demo_rnet = Some (Some (demo_rdma_p, demo_rnet))"
    by (rule idle_p) (simp_all add: demo_rnet_def demo_rdma_p_def TransportRDMA_default_def)
  moreover have "ring_window demo_rdma_p = 32" "rd_connected demo_rdma_p" "Rdma_IsProducer demo_rdma_p" "rd_send_seq demo_rdma_p = 0"
      "use_inline demo_rdma_p 2" "rd_qp demo_rdma_p = 1"
    by (simp_all add: ring_window_def demo_rdma_p_def TransportRDMA_default_def rdma_sizes Rdma_IsProducer_def use_inline_def kRdmaInlineThreshold_def)
  moreover have "chunk_count 2 = 1" "write_chunk [104, 105] 0 = [104, 105]" by (simp_all add: chunk_count_def write_chunk_def rdma_sizes)
  ultimately show ?thesis
    by (simp add: Rdma_TrySend_def PostWrites_def Let_def stage_chunk_def wire_p_def demo_rnet_def numeral_eq_Suc)
qed

definition demo_request :: send_wr where
  "demo_request = write_request demo_rdma_p 0 [104, 105] True"

definition demo_flight :: rnet where
  "demo_flight = demo_rnet\<lparr>n_data := [demo_request]\<rparr>"

definition demo_arrived :: rnet where
  "demo_arrived = demo_rnet\<lparr>n_cmem := heap_store kRdmaRingOffset [104, 105] (\<lambda>_. 0), n_crecv := [1..<64] @ [0]\<rparr>"

definition demo_polled :: TransportRDMA where
  "demo_polled = demo_rdma_c\<lparr>rd_arrival_lengths := (replicate 32 0)[0 := 2], rd_arrival_tail := 1\<rparr>"

lemma demo_handle:
  "HandleCompletion (wire_c demo_cb) (imm_completion 0 demo_request) demo_rdma_c v =
     Some (demo_polled, v\<lparr>n_crecv := n_crecv v @ [0]\<rparr>)"
proof -
  have "sw_imm demo_request = EncodeDataImmediate 0 2" by (simp add: demo_request_def write_request_def numeral_2_eq_2)
  thus ?thesis using immediate_roundtrip [of 0 2]
    by (simp add: HandleCompletion_def PostPoolRecv_def wire_c_def imm_completion_def demo_polled_def demo_rdma_c_def
        TransportRDMA_default_def rdma_sizes Let_def)
qed

lemma demo_poll:
  "ProcessCompletions (wire_c demo_cb) (HandleCompletion (wire_c demo_cb)) demo_rdma_c demo_flight = Some (Some (demo_polled, demo_arrived))"
proof -
  let ?v = "demo_rnet\<lparr>n_cmem := heap_store kRdmaRingOffset [104, 105] (\<lambda>_. 0), n_crecv := [1..<64]\<rparr>"
  have "wr_bytes m demo_request = [104, 105]" for m
    by (simp add: wr_bytes_def demo_request_def write_request_def use_inline_def demo_rdma_p_def TransportRDMA_default_def kRdmaInlineThreshold_def)
  moreover have "unat (sw_remote demo_request - demo_cb) = kRdmaRingOffset" "sw_opcode demo_request = WrRdmaWriteWithImm"
    by (simp_all add: demo_request_def write_request_def demo_rdma_p_def TransportRDMA_default_def SlotData_def rdma_sizes)
  moreover have "[0..<64] = 0 # [1..<64::nat]" by (simp add: upt_conv_Cons)
  ultimately have "vb_poll_cq (wire_c demo_cb) 16 demo_flight = (Some [imm_completion 0 demo_request], ?v)"
    by (simp add: wire_c_def Let_def demo_flight_def demo_rnet_def)
  moreover have "PollCompletionQueue (wire_c demo_cb) h demo_polled demo_arrived = Some (Some (demo_polled, demo_arrived))" for h
    by (subst PollCompletionQueue.simps) (simp add: wire_c_def demo_arrived_def demo_rnet_def)
  ultimately have "PollCompletionQueue (wire_c demo_cb) (HandleCompletion (wire_c demo_cb)) demo_rdma_c demo_flight = Some (Some (demo_polled, demo_arrived))"
    by (subst PollCompletionQueue.simps) (simp add: demo_handle demo_arrived_def)
  moreover have "drain_events (wire_c demo_cb) ch True v = Some (True, v)" for ch v
    by (subst drain_events.simps) (simp add: wire_c_def)
  moreover have "rd_wait_mode demo_rdma_c = EventDriven" "rd_comp_channel demo_rdma_c = 1"
    by (simp_all add: demo_rdma_c_def TransportRDMA_default_def)
  ultimately show ?thesis by (simp add: ProcessCompletions_def ProcessCompletionEvents_def DrainCompletionEvents_def)
qed

lemma demo_rdma_recv:
  "\<exists>c e. Rdma_TryRecv (wire_c demo_cb) (HandleCompletion (wire_c demo_cb)) 2 0 demo_rdma_c demo_flight = Some (Some ([104, 105], True, c, e)) \<and>
     n_data e = [] \<and> n_ccq e = [] \<and> rd_arrival_head c = 1 \<and> rd_arrival_tail c = 1"
proof -
  let ?c = "demo_polled\<lparr>rd_arrival_head := 1, rd_pending_credit := 1\<rparr>"
  have load: "vb_load (wire_c demo_cb) kRdmaRingOffset 2 demo_arrived = [104, 105]"
    using heap_load_store_same [of kRdmaRingOffset "[104, 105]"] by (simp add: wire_c_def demo_arrived_def numeral_2_eq_2)
  have stop: "recv_copy vb room got t e = Some (got, t)" if "room \<le> length got" for vb room got and t :: TransportRDMA and e :: rnet
    using that by (subst recv_copy.simps) simp
  have "recv_copy (wire_c demo_cb) 2 [] demo_polled demo_arrived = Some ([104, 105], ?c)"
    by (subst recv_copy.simps)
      (simp add: Let_def load stop demo_polled_def demo_rdma_c_def TransportRDMA_default_def SlotData_def rdma_sizes(2) mod_less)
  moreover obtain e where "return_credit (wire_c demo_cb) ?c demo_arrived = Some (?c\<lparr>rd_pending_credit := 0\<rparr>, e)"
      "n_data e = []" "n_ccq e = []"
    by (simp add: return_credit_def PostCredit_def wire_c_def demo_arrived_def demo_rnet_def demo_polled_def)
  moreover have "rd_connected demo_rdma_c" "\<not> Rdma_IsProducer demo_rdma_c"
    by (simp_all add: demo_rdma_c_def TransportRDMA_default_def Rdma_IsProducer_def)
  moreover have "rd_arrival_tail demo_polled = 1" by (simp add: demo_polled_def)
  ultimately show ?thesis by (simp add: Rdma_TryRecv_def demo_poll)
qed

lemma demo_rdma_run:
  "\<exists>s. (rdma_step (wire_p demo_pb) (wire_c demo_cb))\<^sup>*\<^sup>* demo_rdma s \<and> rs_got s = [104, 105] \<and> rs_sent s = [104, 105]"
proof -
  let ?s1 = "demo_rdma\<lparr>rs_p := demo_rdma_p\<lparr>rd_send_seq := 1\<rparr>, rs_env := demo_flight, rs_sent := [104, 105]\<rparr>"
  have "rdma_step (wire_p demo_pb) (wire_c demo_cb) demo_rdma ?s1"
    using rdma_step.send [of "wire_p demo_pb" "[104, 105]" 0 demo_rdma] demo_rdma_send
    by (simp add: demo_rdma_def demo_flight_def demo_request_def)
  moreover obtain c e where "Rdma_TryRecv (wire_c demo_cb) (HandleCompletion (wire_c demo_cb)) 2 0 demo_rdma_c demo_flight = Some (Some ([104, 105], True, c, e))"
    using demo_rdma_recv by blast
  hence "rdma_step (wire_p demo_pb) (wire_c demo_cb) ?s1 (?s1\<lparr>rs_c := c, rs_env := e, rs_got := [104, 105]\<rparr>)"
    using rdma_step.recv [of "wire_c demo_cb" 2 0 ?s1] by (simp add: demo_rdma_def)
  ultimately have "(rdma_step (wire_p demo_pb) (wire_c demo_cb))\<^sup>*\<^sup>* demo_rdma (?s1\<lparr>rs_c := c, rs_env := e, rs_got := [104, 105]\<rparr>)"
    by auto
  thus ?thesis by (intro exI) auto
qed

subsection \<open>The properties\<close>

text \<open>
  C9. The RDMA ring is a FIFO. On every reliable connection, whatever the order of the calls of \<open>TrySend\<close> and
  \<open>TryRecv\<close>, the message sizes and the moments at which the cards deliver, the bytes that the consumer has received
  are a prefix of the bytes that the producer has sent; nothing is lost, repeated, reordered or overwritten in a slot
  before it is read. When nothing is in flight and the consumer has read all arrivals, it has received all bytes.
\<close>

theorem rdma_fifo:
  assumes "rdma_link P C view pb cb pq cq" and "rdma_connected pb cb pq cq (rs_p s0) (rs_c s0) (view (rs_env s0))"
    and "rs_sent s0 = []" and "rs_got s0 = []" and "(rdma_step P C)\<^sup>*\<^sup>* s0 s"
  shows "prefix (rs_got s) (rs_sent s) \<and>
    (n_data (view (rs_env s)) = [] \<and> n_ccq (view (rs_env s)) = [] \<and> rd_arrival_head (rs_c s) = rd_arrival_tail (rs_c s) \<longrightarrow>
     rs_got s = rs_sent s)"
  using rdma_link.sys_prefix [OF assms(1) rdma_link.run_ok [OF assms(1,5,2,3,4)]] by blast

lemma rdma_fifo_witness:
  "\<exists>s. rs_got s = [104, 105] \<and> prefix (rs_got s) (rs_sent s) \<and> (rdma_step (wire_p demo_pb) (wire_c demo_cb))\<^sup>*\<^sup>* demo_rdma s"
proof -
  obtain s where run: "(rdma_step (wire_p demo_pb) (wire_c demo_cb))\<^sup>*\<^sup>* demo_rdma s" and got: "rs_got s = [104, 105]"
    using demo_rdma_run by blast
  have "rs_sent demo_rdma = []" "rs_got demo_rdma = []" by (simp_all add: demo_rdma_def)
  from rdma_fifo [OF wire.rdma_link_axioms demo_connected this run] run got show ?thesis by blast
qed

text \<open>
  C10. The bounds of the RDMA ring, in every reachable state: at most 32 slots are used and not credited, at most 32 arrivals
  are unread, every write in flight falls into one slot of the registered buffer of the consumer, and a card that has
  a write or a credit to deliver always finds a receive posted at the other side.
\<close>

theorem rdma_bounds:
  assumes "rdma_link P C view pb cb pq cq" and "rdma_connected pb cb pq cq (rs_p s0) (rs_c s0) (view (rs_env s0))"
    and "rs_sent s0 = []" and "rs_got s0 = []" and "(rdma_step P C)\<^sup>*\<^sup>* s0 s"
  shows "rd_send_seq (rs_p s) \<le> rd_credits_received (rs_p s) + kRdmaSlotCount \<and>
    rd_arrival_tail (rs_c s) \<le> rd_arrival_head (rs_c s) + kRdmaSlotCount \<and>
    (\<forall>w \<in> set (n_data (view (rs_env s))). \<exists>slot < kRdmaSlotCount. unat (sw_remote w - cb) = SlotData slot \<and>
       SlotData slot + length (wr_bytes (n_pmem (view (rs_env s))) w) \<le> SlotData (slot + 1) \<and> SlotData (slot + 1) \<le> kRdmaBufferSize) \<and>
    (n_data (view (rs_env s)) \<noteq> [] \<longrightarrow> n_crecv (view (rs_env s)) \<noteq> []) \<and>
    (n_credit (view (rs_env s)) \<noteq> [] \<longrightarrow> n_precv (view (rs_env s)) \<noteq> [])"
proof -
  note bounds = rdma_link.sys_bounds [OF assms(1) rdma_link.run_ok [OF assms(1,5,2,3,4)]]
  have "SlotData slot + n \<le> SlotData (slot + 1)" if "n \<le> kRdmaSlotSize" for slot n using that by (simp add: SlotData_def)
  moreover have "SlotData (slot + 1) \<le> kRdmaBufferSize" if "slot < kRdmaSlotCount" for slot
    using slot_bound [OF that] by (simp add: SlotData_def)
  ultimately show ?thesis using bounds by meson
qed

lemma rdma_bounds_witness:
  "\<exists>s :: rnet rdma_sys. rs_got s = [104, 105] \<and> rd_send_seq (rs_p s) \<le> rd_credits_received (rs_p s) + kRdmaSlotCount"
proof -
  obtain s where run: "(rdma_step (wire_p demo_pb) (wire_c demo_cb))\<^sup>*\<^sup>* demo_rdma s" and got: "rs_got s = [104, 105]"
    using demo_rdma_run by blast
  have "rs_sent demo_rdma = []" "rs_got demo_rdma = []" by (simp_all add: demo_rdma_def)
  with rdma_bounds [OF wire.rdma_link_axioms demo_connected this run] got show ?thesis by blast
qed

end
