(* ===== verification/Occl_Rdma_Setup.thy ===== *)
theory Occl_Rdma_Setup
  imports Occl_Rdma
begin

section \<open>The RDMA transport: connections and resources\<close>

text \<open>
  \<open>src/transport/transport_rdma.cpp\<close>, the calls of the connection manager. The library is a record of operations:
  \<open>cm_acquire\<close> are the calls that create an object (the handle, 0 for the null pointer), \<open>cm_do\<close> those that only report
  success, \<open>cm_release\<close> those that destroy an object. An action works on the transport and the environment; its result
  tells whether it succeeded, and \<^term>\<open>None\<close> is that it does not return. The virtual methods are arguments.
\<close>

definition kResolveTimeoutMs :: nat where "kResolveTimeoutMs = 5000"
definition kEstablishTimeoutMs :: nat where "kEstablishTimeoutMs = 15000"
definition kRdmaQueueDepth :: nat where "kRdmaQueueDepth = 128"

datatype rdma_resource = EventChannel nat | CmId nat | ProtectionDomain nat | RegisteredBuffer nat | MemoryRegion nat
  | CompletionChannel nat | CompletionQueue nat | QueuePair nat

datatype rdma_request = NewEventChannel | NewId nat | NewPd nat | NewBuffer nat | NewMr nat nat nat bool
  | NewCompletionChannel nat | NewCq nat nat nat

datatype cm_command = Bind nat "32 word" "16 word" | ListenId nat nat | Migrate nat nat | ResolveAddr nat "32 word" "16 word" nat
  | ResolveRoute nat nat | ConnectId nat "Wire option" | AcceptId nat "Wire option"

datatype cm_event_type = AddrResolved | RouteResolved | ConnectRequest | Established | Rejected | DeviceRemoval | OtherCmEvent

record cm_event =
  ev_type :: cm_event_type
  ev_id :: nat
  ev_data :: Wire

datatype cm_read = CmEvent cm_event | CmAgain | CmFailed

record 'e rdma_cm =
  cm_acquire :: "rdma_request \<Rightarrow> 'e \<Rightarrow> nat \<times> 'e"
  cm_create_qp :: "nat \<Rightarrow> nat \<Rightarrow> nat \<Rightarrow> nat \<Rightarrow> nat \<Rightarrow> 'e \<Rightarrow> (nat \<times> nat) \<times> 'e"
  cm_release :: "rdma_resource \<Rightarrow> 'e \<Rightarrow> 'e"
  cm_do :: "cm_command \<Rightarrow> 'e \<Rightarrow> bool \<times> 'e"
  cm_get_event :: "nat \<Rightarrow> 'e \<Rightarrow> cm_read \<times> 'e"
  cm_ack :: "cm_event \<Rightarrow> 'e \<Rightarrow> 'e"
  cm_pton :: "byte list \<Rightarrow> 32 word option"
  cm_local :: "nat \<Rightarrow> 'e \<Rightarrow> 32 word \<times> 16 word"
  cm_peer :: "nat \<Rightarrow> 'e \<Rightarrow> 32 word \<times> 16 word"
  cm_rkey :: "nat \<Rightarrow> 32 word"

type_synonym ('t, 'e) action = "'t \<times> 'e \<Rightarrow> (bool \<times> 't \<times> 'e) option"

text \<open>Actions in a row, up to the first that fails: the early returns of the code.\<close>

fun run_steps :: "('t, 'e) action list \<Rightarrow> ('t, 'e) action" where
  "run_steps [] s = Some (True, s)"
| "run_steps (f # fs) s =
     (case f s of
        None \<Rightarrow> None
      | Some (ok, s') \<Rightarrow> if ok then run_steps fs s' else Some (False, s'))"

definition acquire_into :: "'e rdma_cm \<Rightarrow> ('t \<Rightarrow> rdma_request) \<Rightarrow> (nat \<Rightarrow> 't \<Rightarrow> 't) \<Rightarrow> ('t, 'e) action" where
  "acquire_into cm request store = (\<lambda>(t, e). case cm_acquire cm (request t) e of (h, e') \<Rightarrow> Some (h \<noteq> 0, store h t, e'))"

text \<open>\<open>rdma_create_id\<close> leaves its result alone when it fails.\<close>

definition create_id :: "'e rdma_cm \<Rightarrow> ('z TransportRDMA_scheme, 'e) action" where
  "create_id cm = acquire_into cm (\<lambda>t. NewId (rd_cm_channel t)) (\<lambda>h t. if h \<noteq> 0 then t\<lparr>rd_cm_id := h\<rparr> else t)"

definition command :: "'e rdma_cm \<Rightarrow> ('t \<Rightarrow> cm_command) \<Rightarrow> ('t, 'e) action" where
  "command cm cmd = (\<lambda>(t, e). case cm_do cm (cmd t) e of (ok, e') \<Rightarrow> Some (ok, t, e'))"

definition update :: "('t \<Rightarrow> 'e \<Rightarrow> 't) \<Rightarrow> ('t, 'e) action" where
  "update f = (\<lambda>(t, e). Some (True, f t e, e))"

definition guard :: "('t \<Rightarrow> bool) \<Rightarrow> ('t, 'e) action" where
  "guard ok = (\<lambda>(t, e). Some (ok t, t, e))"

subsection \<open>The address of a device\<close>

text \<open>
  What the enumeration of devices reports: for a port the size of its table of identifiers, the identifier (16 bytes) and the
  index of the network device of each entry, \<^term>\<open>None\<close> where the query fails; a device that cannot be opened or
  queried is \<^term>\<open>None\<close>. \<open>ntop\<close> is \<open>inet_ntop\<close>. The handles of the enumeration are released on every path and are left out.
\<close>

record rdma_port =
  po_active :: bool
  po_gid_count :: nat
  po_gid :: "nat \<Rightarrow> byte list option"
  po_ndev :: "nat \<Rightarrow> nat option"

datatype if_address = AfInet "byte list" | AfPacket "byte list" | OtherFamily

record if_entry =
  ie_name :: string
  ie_index :: nat
  ie_addr :: "if_address option"

fun first_some :: "('a \<Rightarrow> 'b option) \<Rightarrow> 'a list \<Rightarrow> 'b option" where
  "first_some f [] = None"
| "first_some f (x # xs) = (case f x of Some y \<Rightarrow> Some y | None \<Rightarrow> first_some f xs)"

definition IsIpv4MappedGid :: "byte list \<Rightarrow> bool" where
  "IsIpv4MappedGid gid \<longleftrightarrow> (\<forall>i \<in> set [0..<10]. gid ! i = 0) \<and> gid ! 10 = 0xFF \<and> gid ! 11 = 0xFF"

definition inet_text :: "(byte list \<Rightarrow> string option) \<Rightarrow> (if_entry \<Rightarrow> bool) \<Rightarrow> if_entry \<Rightarrow> string option" where
  "inet_text ntop wanted ie = (case ie_addr ie of Some (AfInet a) \<Rightarrow> if wanted ie then ntop a else None | _ \<Rightarrow> None)"

definition ResolvePortAddress :: "(byte list \<Rightarrow> string option) \<Rightarrow> if_entry list option \<Rightarrow> rdma_port \<Rightarrow> string option" where
  "ResolvePortAddress ntop interfaces po =
     (case first_some (\<lambda>i. case po_gid po i of Some g \<Rightarrow> if IsIpv4MappedGid g then ntop (drop 12 g) else None | None \<Rightarrow> None)
             [0..<po_gid_count po] of
        Some addr \<Rightarrow> Some addr
      | None \<Rightarrow>
          (case interfaces of
             None \<Rightarrow> None
           | Some ies \<Rightarrow>
               (case first_some (\<lambda>i. case po_ndev po i of
                         None \<Rightarrow> None
                       | Some n \<Rightarrow> if n = 0 then None else first_some (inet_text ntop (\<lambda>ie. ie_index ie = n)) ies) [0..<po_gid_count po] of
                  Some addr \<Rightarrow> Some addr
                | None \<Rightarrow> first_some (\<lambda>link. case ie_addr link of
                      Some (AfPacket mac) \<Rightarrow>
                        if length mac \<noteq> 6 then None
                        else first_some (\<lambda>i. case po_gid po i of
                            None \<Rightarrow> None
                          | Some g \<Rightarrow> if take 6 g \<noteq> mac then None else first_some (inet_text ntop (\<lambda>ie. ie_name ie = ie_name link)) ies)
                          [0..<po_gid_count po]
                    | _ \<Rightarrow> None) ies)))"

definition Probe :: "(byte list \<Rightarrow> string option) \<Rightarrow> if_entry list option \<Rightarrow> rdma_port option list option list option \<Rightarrow> string option" where
  "Probe ntop interfaces devices =
     (case devices of
        None \<Rightarrow> None
      | Some ds \<Rightarrow> first_some (\<lambda>d. case d of
            None \<Rightarrow> None
          | Some ports \<Rightarrow> first_some (\<lambda>p. case p of
                Some po \<Rightarrow> if po_active po then ResolvePortAddress ntop interfaces po else None
              | None \<Rightarrow> None) ports) ds)"

subsection \<open>Events\<close>

partial_function (option) AwaitEvent :: "'e rdma_cm \<Rightarrow> 'e verbs \<Rightarrow> nat \<Rightarrow> cm_event_type \<Rightarrow> 'e \<Rightarrow> (cm_event option \<times> 'e) option" where
  "AwaitEvent cm vb ch ty e =
     (case cm_get_event cm ch e of
        (CmEvent ev, e1) \<Rightarrow>
          if ev_type ev = ty then Some (Some ev, e1)
          else let e2 = cm_ack cm ev e1 in
            if ev_type ev = Rejected \<or> ev_type ev = DeviceRemoval then Some (None, e2) else AwaitEvent cm vb ch ty e2
      | (CmAgain, e1) \<Rightarrow>
          (case vb_readable vb (int ch) kEstablishTimeoutMs e1 of
             (ready, e2) \<Rightarrow> if ready then AwaitEvent cm vb ch ty e2 else Some (None, e2))
      | (CmFailed, e1) \<Rightarrow> Some (None, e1))"

declare AwaitEvent.simps [code]

text \<open>Waiting for an event, what is taken from it, and its acknowledgement.\<close>

definition await :: "'e rdma_cm \<Rightarrow> 'e verbs \<Rightarrow> cm_event_type \<Rightarrow> (cm_event \<Rightarrow> 'z TransportRDMA_scheme \<Rightarrow> 'z TransportRDMA_scheme) \<Rightarrow>
    ('z TransportRDMA_scheme, 'e) action" where
  "await cm vb ty absorb = (\<lambda>(t, e).
     case AwaitEvent cm vb (rd_cm_channel t) ty e of
       None \<Rightarrow> None
     | Some (None, e1) \<Rightarrow> Some (False, t, e1)
     | Some (Some ev, e1) \<Rightarrow> Some (True, absorb ev t, cm_ack cm ev e1))"

definition OpenChannel :: "'e rdma_cm \<Rightarrow> ('z TransportRDMA_scheme, 'e) action" where
  "OpenChannel cm = (\<lambda>(t, e).
     if rd_cm_channel t \<noteq> 0 then Some (True, t, e)
     else acquire_into cm (\<lambda>t. NewEventChannel) (\<lambda>h. rd_cm_channel_update (\<lambda>_. h)) (t, e))"

subsection \<open>The resources of a connection\<close>

definition zero_buffer :: "'e verbs \<Rightarrow> ('t, 'e) action" where
  "zero_buffer vb = (\<lambda>(t, e). Some (True, t, vb_store vb 0 (replicate kRdmaBufferSize 0) e))"

definition arm_queue :: "'e verbs \<Rightarrow> ('t, 'e) action" where
  "arm_queue vb = (\<lambda>(t, e). case vb_req_notify vb e of (ok, e') \<Rightarrow> Some (ok, t, e'))"

definition create_queue_pair :: "'e rdma_cm \<Rightarrow> ('z TransportRDMA_scheme, 'e) action" where
  "create_queue_pair cm = (\<lambda>(t, e).
     case cm_create_qp cm (rd_cm_id t) (rd_pd t) (rd_cq t) kRdmaQueueDepth kRdmaInlineThreshold e of
       ((qp, inline), e1) \<Rightarrow>
         if qp \<noteq> 0 then Some (True, t\<lparr>rd_qp := qp, rd_inline_capacity := inline\<rparr>, e1)
         else (case cm_create_qp cm (rd_cm_id t) (rd_pd t) (rd_cq t) kRdmaQueueDepth 0 e1 of
           ((qp, inline), e2) \<Rightarrow>
             if qp \<noteq> 0 then Some (True, t\<lparr>rd_qp := qp, rd_inline_capacity := inline\<rparr>, e2) else Some (False, t, e2)))"

definition post_pool :: "'e verbs \<Rightarrow> nat \<Rightarrow> ('z TransportRDMA_scheme, 'e) action" where
  "post_pool vb i = (\<lambda>(t, e). case PostPoolRecv vb t i e of (ok, e') \<Rightarrow> Some (ok, t, e'))"

definition Rdma_SetupResources :: "'e rdma_cm \<Rightarrow> 'e verbs \<Rightarrow> ('z TransportRDMA_scheme, 'e) action" where
  "Rdma_SetupResources cm vb = run_steps
     ([acquire_into cm (\<lambda>t. NewPd (rd_cm_id t)) (\<lambda>h. rd_pd_update (\<lambda>_. h)),
       acquire_into cm (\<lambda>t. NewBuffer kRdmaBufferSize) (\<lambda>h. rd_buffer_update (\<lambda>_. h)),
       zero_buffer vb,
       acquire_into cm (\<lambda>t. NewMr (rd_pd t) (rd_buffer t) kRdmaBufferSize True) (\<lambda>h. rd_mr_update (\<lambda>_. h)),
       acquire_into cm (\<lambda>t. NewCompletionChannel (rd_cm_id t)) (\<lambda>h. rd_comp_channel_update (\<lambda>_. h)),
       acquire_into cm (\<lambda>t. NewCq (rd_cm_id t) kRdmaQueueDepth (rd_comp_channel t)) (\<lambda>h. rd_cq_update (\<lambda>_. h)),
       arm_queue vb,
       create_queue_pair cm,
       guard (\<lambda>t. kRdmaRecvPool \<le> kRdmaQueueDepth)]
      @ map (post_pool vb) [0..<kRdmaRecvPool])"

definition Rdma_PrepareWire :: "Wire \<Rightarrow> Wire" where
  "Rdma_PrepareWire wire = wire\<lparr>wi_tail := replicate 24 0\<rparr>"

definition Rdma_FinalizeConnection :: "('t, 'e) action" where
  "Rdma_FinalizeConnection = (\<lambda>s. Some (True, s))"

definition my_wire :: "'e rdma_cm \<Rightarrow> 'z TransportRDMA_scheme \<Rightarrow> Wire" where
  "my_wire cm t = \<lparr>wi_base_addr = word_of_nat (rd_buffer t), wi_rkey = cm_rkey cm (rd_mr t), wi_tail = replicate 24 0\<rparr>"

subsection \<open>Releasing\<close>

definition release_field ::
  "'e rdma_cm \<Rightarrow> ('t \<Rightarrow> nat) \<Rightarrow> (nat \<Rightarrow> rdma_resource) \<Rightarrow> ('t \<Rightarrow> 't) \<Rightarrow> 't \<times> 'e \<Rightarrow> 't \<times> 'e" where
  "release_field cm field resource clear = (\<lambda>(t, e). if field t \<noteq> 0 then (clear t, cm_release cm (resource (field t)) e) else (t, e))"

definition CloseCm :: "'e rdma_cm \<Rightarrow> 'z TransportRDMA_scheme \<times> 'e \<Rightarrow> 'z TransportRDMA_scheme \<times> 'e" where
  "CloseCm cm = release_field cm rd_cm_channel EventChannel (rd_cm_channel_update (\<lambda>_. 0))"

definition Rdma_CloseResources :: "'e rdma_cm \<Rightarrow> 'e verbs \<Rightarrow> 'z TransportRDMA_scheme \<times> 'e \<Rightarrow> ('z TransportRDMA_scheme \<times> 'e) option" where
  "Rdma_CloseResources cm vb s =
     (case (if rd_cm_id (fst s) \<noteq> 0 then release_field cm rd_qp QueuePair (rd_qp_update (\<lambda>_. 0)) s else s) of
        (t, e) \<Rightarrow>
          (case DrainCompletionEvents vb False t e of
             None \<Rightarrow> None
           | Some (_, e1) \<Rightarrow> Some (
               (release_field cm rd_buffer RegisteredBuffer (rd_buffer_update (\<lambda>_. 0)) \<circ>
                CloseCm cm \<circ>
                release_field cm rd_cm_id CmId (rd_cm_id_update (\<lambda>_. 0)) \<circ>
                release_field cm rd_pd ProtectionDomain (rd_pd_update (\<lambda>_. 0)) \<circ>
                release_field cm rd_comp_channel CompletionChannel (rd_comp_channel_update (\<lambda>_. 0)) \<circ>
                release_field cm rd_cq CompletionQueue (rd_cq_update (\<lambda>_. 0)) \<circ>
                release_field cm rd_mr MemoryRegion (rd_mr_update (\<lambda>_. 0))) (t, e1))))"

definition Rdma_Close ::
  "('z TransportRDMA_scheme \<times> 'e \<Rightarrow> ('z TransportRDMA_scheme \<times> 'e) option) \<Rightarrow> 'z TransportRDMA_scheme \<times> 'e \<Rightarrow>
   ('z TransportRDMA_scheme \<times> 'e) option" where
  "Rdma_Close close_resources s =
     (case close_resources s of
        None \<Rightarrow> None
      | Some (t, e) \<Rightarrow> Some (t\<lparr>rd_connected := False, rd_control_received := False, rd_control_sent := False, rd_control_index := 0,
          rd_listen_port := 0, rd_send_seq := 0, rd_credits_received := 0, rd_arrival_head := 0, rd_arrival_tail := 0,
          rd_arrival_offset := 0, rd_pending_credit := 0\<rparr>, e))"

subsection \<open>Listening and connecting\<close>

definition parse_address :: "'e rdma_cm \<Rightarrow> byte list \<Rightarrow> 32 word" where
  "parse_address cm addr = (case cm_pton cm addr of Some a \<Rightarrow> a | None \<Rightarrow> 0)"

definition Rdma_Listen :: "'e rdma_cm \<Rightarrow> byte list \<Rightarrow> 16 word \<Rightarrow> ('z TransportRDMA_scheme, 'e) action" where
  "Rdma_Listen cm addr port = run_steps
     [OpenChannel cm,
      create_id cm,
      guard (\<lambda>t. cm_pton cm addr \<noteq> None),
      command cm (\<lambda>t. Bind (rd_cm_id t) (parse_address cm addr) port),
      command cm (\<lambda>t. ListenId (rd_cm_id t) 128),
      update (\<lambda>t e. t\<lparr>rd_listen_port := snd (cm_local cm (rd_cm_id t) e)\<rparr>)]"

definition Rdma_Connect ::
  "'e rdma_cm \<Rightarrow> 'e verbs \<Rightarrow> ('z TransportRDMA_scheme, 'e) action \<Rightarrow> ('z TransportRDMA_scheme \<Rightarrow> Wire \<Rightarrow> Wire) \<Rightarrow> ('z TransportRDMA_scheme, 'e) action \<Rightarrow>
   byte list \<Rightarrow> 16 word \<Rightarrow> ('z TransportRDMA_scheme, 'e) action" where
  "Rdma_Connect cm vb setup prepare finalize addr port = run_steps
     [OpenChannel cm,
      create_id cm,
      guard (\<lambda>t. cm_pton cm addr \<noteq> None),
      command cm (\<lambda>t. ResolveAddr (rd_cm_id t) (parse_address cm addr) port kResolveTimeoutMs),
      await cm vb AddrResolved (\<lambda>ev t. t),
      command cm (\<lambda>t. ResolveRoute (rd_cm_id t) kResolveTimeoutMs),
      await cm vb RouteResolved (\<lambda>ev t. t),
      setup,
      command cm (\<lambda>t. ConnectId (rd_cm_id t) (Some (prepare t (my_wire cm t)))),
      update (\<lambda>t e. t\<lparr>rd_connected := True\<rparr>),
      await cm vb Established (\<lambda>ev t. t\<lparr>rd_peer := ev_data ev\<rparr>),
      finalize]"

definition Rdma_Adopt ::
  "'e rdma_cm \<Rightarrow> 'e verbs \<Rightarrow> ('z TransportRDMA_scheme, 'e) action \<Rightarrow> ('z TransportRDMA_scheme \<Rightarrow> Wire \<Rightarrow> Wire) \<Rightarrow> ('z TransportRDMA_scheme, 'e) action \<Rightarrow>
   nat \<Rightarrow> Wire \<Rightarrow> ('z TransportRDMA_scheme, 'e) action" where
  "Rdma_Adopt cm vb setup prepare finalize connection wire = run_steps
     [OpenChannel cm,
      command cm (\<lambda>t. Migrate connection (rd_cm_channel t)),
      update (\<lambda>t e. t\<lparr>rd_cm_id := connection, rd_peer := wire, rd_connected := True\<rparr>),
      setup,
      command cm (\<lambda>t. AcceptId (rd_cm_id t) (Some (prepare t (my_wire cm t)))),
      await cm vb Established (\<lambda>ev t. t),
      finalize]"

text \<open>
  \<open>Accept\<close> on the listener; \<open>fresh\<close> is the transport that \<open>MakePeer\<close> gives. When \<open>Adopt\<close> fails, the last reference to the peer goes
  and its destructor closes it.
\<close>

definition Rdma_Accept ::
  "'e rdma_cm \<Rightarrow> 'e verbs \<Rightarrow> ('z TransportRDMA_scheme, 'e) action \<Rightarrow> ('z TransportRDMA_scheme \<Rightarrow> Wire \<Rightarrow> Wire) \<Rightarrow> ('z TransportRDMA_scheme, 'e) action \<Rightarrow>
   ('z TransportRDMA_scheme \<times> 'e \<Rightarrow> ('z TransportRDMA_scheme \<times> 'e) option) \<Rightarrow> 'z TransportRDMA_scheme \<Rightarrow>
   'z TransportRDMA_scheme \<Rightarrow> 'e \<Rightarrow> ('z TransportRDMA_scheme option \<times> 'e) option" where
  "Rdma_Accept cm vb setup prepare finalize close_resources fresh t e =
     (if rd_cm_id t = 0 then Some (None, e)
      else (case AwaitEvent cm vb (rd_cm_channel t) ConnectRequest e of
        None \<Rightarrow> None
      | Some (None, e1) \<Rightarrow> Some (None, e1)
      | Some (Some ev, e1) \<Rightarrow>
          (case Rdma_Adopt cm vb setup prepare finalize (ev_id ev) (ev_data ev) (fresh, cm_ack cm ev e1) of
             None \<Rightarrow> None
           | Some (True, p, e2) \<Rightarrow> Some (Some p, e2)
           | Some (False, p, e2) \<Rightarrow>
               (case Rdma_Close close_resources (p, e2) of None \<Rightarrow> None | Some (_, e3) \<Rightarrow> Some (None, e3)))))"

end
