(* ===== verification/Occl_Rdma_Zc.thy ===== *)
theory Occl_Rdma_Zc
  imports Occl_Rdma_Setup Occl_Bytes
begin

section \<open>The zero-copy RDMA transport\<close>

text \<open>
  \<open>src/transport/transport_rdma_zc.cpp\<close>: messages of at least \<open>threshold_\<close> bytes go directly from and to the memory of the
  user, in chunks over a second queue pair that shares the completion queue; smaller ones take the ring of the base.
  Buffers of the user are addresses, 0 is the null pointer; differences of \<open>size_t\<close> are taken at 64 bits.
\<close>

definition kZcRecvBase :: nat where "kZcRecvBase = kRdmaRecvPool"
definition kZcResolveTimeoutMs :: nat where "kZcResolveTimeoutMs = 5000"
definition kRdmaZcThreshold :: nat where "kRdmaZcThreshold = 256 * 1024"
definition kRdmaZcChunk :: nat where "kRdmaZcChunk = 16 * 1024 * 1024"
definition kRdmaZcWindow :: nat where "kRdmaZcWindow = 8"

definition size_diff :: "nat \<Rightarrow> nat \<Rightarrow> nat" where
  "size_diff a b = unat (word_of_nat a - word_of_nat b :: 64 word)"

lemma size_diff_le: "b \<le> a \<Longrightarrow> a < 2 ^ 64 \<Longrightarrow> size_diff a b = a - b"
proof -
  assume b: "b \<le> a" and a: "a < 2 ^ 64"
  have "(word_of_nat a - word_of_nat b :: 64 word) = word_of_nat (a - b)" using b by simp
  thus ?thesis using a by (simp add: size_diff_def unat_of_nat take_bit_nat_eq_self)
qed

record TransportRDMAZc = TransportRDMA +
  zc_threshold :: nat
  zc_channel :: nat
  zc_listener :: nat
  zc_id :: nat
  zc_port :: "16 word"
  zc_qp :: nat
  zc_mr :: nat
  zc_mr_buffer :: nat
  zc_mr_size :: nat
  zc_mr_send :: bool
  zc_send_data :: nat
  zc_recv_data :: nat
  zc_size :: nat
  zc_chunk :: nat
  zc_total :: nat
  zc_send_active :: bool
  zc_recv_active :: bool
  zc_send_posted :: nat
  zc_send_completed :: nat
  zc_recv_posted :: nat
  zc_recv_completed :: nat

definition TransportRDMAZc_new :: "nat \<Rightarrow> TransportRDMAZc" where
  "TransportRDMAZc_new threshold = TransportRDMA.extend TransportRDMA_default
     \<lparr>zc_threshold = threshold, zc_channel = 0, zc_listener = 0, zc_id = 0, zc_port = 0, zc_qp = 0, zc_mr = 0, zc_mr_buffer = 0, zc_mr_size = 0,
      zc_mr_send = False, zc_send_data = 0, zc_recv_data = 0, zc_size = 0, zc_chunk = 0, zc_total = 0, zc_send_active = False,
      zc_recv_active = False, zc_send_posted = 0, zc_send_completed = 0, zc_recv_posted = 0, zc_recv_completed = 0\<rparr>"

subsection \<open>The second connection\<close>

text \<open>\<open>ZcWire\<close> in the first eight bytes of the tail.\<close>

record ZcWire =
  zw_port :: "32 word"
  zw_chunk :: "32 word"

definition Zc_PrepareWire :: "TransportRDMAZc \<Rightarrow> Wire \<Rightarrow> Wire" where
  "Zc_PrepareWire z wire =
     wire\<lparr>wi_tail := (le32 (ucast (zc_port z)) @ le32 (word_of_nat kRdmaZcChunk)) @ drop 8 (wi_tail wire)\<rparr>"

definition read_zc_wire :: "Wire \<Rightarrow> ZcWire" where
  "read_zc_wire wire = \<lparr>zw_port = un_le32 (take 4 (wi_tail wire)), zw_chunk = un_le32 (take 4 (drop 4 (wi_tail wire)))\<rparr>"

definition Zc_SetupResources :: "'e rdma_cm \<Rightarrow> 'e verbs \<Rightarrow> (TransportRDMAZc, 'e) action" where
  "Zc_SetupResources cm vb = run_steps
     [Rdma_SetupResources cm vb,
      acquire_into cm (\<lambda>z. NewEventChannel) (\<lambda>h. zc_channel_update (\<lambda>_. h)),
      (\<lambda>(z, e). if \<not> rd_connected z then Some (True, z, e)
        else run_steps
          [acquire_into cm (\<lambda>z. NewId (zc_channel z)) (\<lambda>h z. if h \<noteq> 0 then z\<lparr>zc_listener := h\<rparr> else z),
           (\<lambda>(z, e). command cm (\<lambda>z. Bind (zc_listener z) (fst (cm_local cm (rd_cm_id z) e)) 0) (z, e)),
           command cm (\<lambda>z. ListenId (zc_listener z) 1),
           update (\<lambda>z e. z\<lparr>zc_port := snd (cm_local cm (zc_listener z) e)\<rparr>)] (z, e))]"

partial_function (option) AwaitZcEvent :: "'e rdma_cm \<Rightarrow> nat \<Rightarrow> cm_event_type \<Rightarrow> 'e \<Rightarrow> (bool \<times> 'e) option" where
  "AwaitZcEvent cm ch ty e =
     (case cm_get_event cm ch e of
        (CmEvent ev, e1) \<Rightarrow>
          let e2 = cm_ack cm ev e1 in
            if ev_type ev = ty then Some (True, e2)
            else if ev_type ev = Rejected \<or> ev_type ev = DeviceRemoval then Some (False, e2)
            else AwaitZcEvent cm ch ty e2
      | (CmAgain, e1) \<Rightarrow> Some (False, e1)
      | (CmFailed, e1) \<Rightarrow> Some (False, e1))"

declare AwaitZcEvent.simps [code]

definition await_zc :: "'e rdma_cm \<Rightarrow> cm_event_type \<Rightarrow> (TransportRDMAZc, 'e) action" where
  "await_zc cm ty = (\<lambda>(z, e). map_option (\<lambda>(ok, e'). (ok, z, e')) (AwaitZcEvent cm (zc_channel z) ty e))"

definition CreateZcQueuePair :: "'e rdma_cm \<Rightarrow> (TransportRDMAZc, 'e) action" where
  "CreateZcQueuePair cm = (\<lambda>(z, e).
     case cm_create_qp cm (zc_id z) (rd_pd z) (rd_cq z) kRdmaZcWindow 0 e of
       ((qp, inline), e1) \<Rightarrow> if qp \<noteq> 0 then Some (True, z\<lparr>zc_qp := qp\<rparr>, e1) else Some (False, z, e1))"

definition take_zc_request :: "'e rdma_cm \<Rightarrow> (TransportRDMAZc, 'e) action" where
  "take_zc_request cm = (\<lambda>(z, e).
     case cm_get_event cm (zc_channel z) e of
       (CmEvent ev, e1) \<Rightarrow>
         if ev_type ev = ConnectRequest then Some (True, z\<lparr>zc_id := ev_id ev\<rparr>, cm_ack cm ev e1) else Some (False, z, cm_ack cm ev e1)
     | (_, e1) \<Rightarrow> Some (False, z, e1))"

definition Zc_FinalizeConnection :: "'e rdma_cm \<Rightarrow> (TransportRDMAZc, 'e) action" where
  "Zc_FinalizeConnection cm = (\<lambda>(z, e).
     let extra = read_zc_wire (rd_peer z) in
     if zw_chunk extra = 0 then Some (False, z, e)
     else let z1 = z\<lparr>zc_chunk := min kRdmaZcChunk (unat (zw_chunk extra))\<rparr> in
     if zc_listener z1 \<noteq> 0 then
       run_steps [take_zc_request cm, CreateZcQueuePair cm, command cm (\<lambda>z. AcceptId (zc_id z) None), await_zc cm Established] (z1, e)
     else run_steps
       [guard (\<lambda>z. zw_port extra \<noteq> 0),
        acquire_into cm (\<lambda>z. NewId (zc_channel z)) (\<lambda>h z. if h \<noteq> 0 then z\<lparr>zc_id := h\<rparr> else z),
        (\<lambda>(z, e). command cm (\<lambda>z. ResolveAddr (zc_id z) (fst (cm_peer cm (rd_cm_id z) e)) (ucast (zw_port extra)) kZcResolveTimeoutMs) (z, e)),
        await_zc cm AddrResolved,
        command cm (\<lambda>z. ResolveRoute (zc_id z) kZcResolveTimeoutMs),
        await_zc cm RouteResolved,
        CreateZcQueuePair cm,
        command cm (\<lambda>z. ConnectId (zc_id z) None),
        await_zc cm Established] (z1, e))"

definition Zc_MakePeer :: "TransportRDMAZc \<Rightarrow> TransportRDMAZc" where
  "Zc_MakePeer z = TransportRDMAZc_new (zc_threshold z)"

subsection \<open>Completions and memory regions\<close>

definition Zc_HandleCompletion :: "'e verbs \<Rightarrow> (TransportRDMAZc, 'e) completion_handler" where
  "Zc_HandleCompletion vb wc z e =
     (if wc_success wc \<and> zc_qp z \<noteq> 0 \<and> wc_qp_num wc = vb_qp_num vb (zc_qp z) then
        if wc_opcode wc = WcSend \<and> zc_send_active z \<and> 1 \<le> wc_id wc \<and> wc_id wc \<le> zc_send_posted z then
          Some (z\<lparr>zc_send_completed := max (zc_send_completed z) (wc_id wc)\<rparr>, e)
        else if wc_opcode wc = WcRecv then Some (z\<lparr>zc_recv_completed := zc_recv_completed z + 1\<rparr>, e)
        else HandleCompletion vb wc z e
      else HandleCompletion vb wc z e)"

definition ZcChunkLength :: "TransportRDMAZc \<Rightarrow> nat \<Rightarrow> nat" where
  "ZcChunkLength z index = min (zc_chunk z) (size_diff (zc_size z) (index * zc_chunk z))"

definition DropZcMr :: "'e rdma_cm \<Rightarrow> TransportRDMAZc \<times> 'e \<Rightarrow> TransportRDMAZc \<times> 'e" where
  "DropZcMr cm s =
     (case release_field cm zc_mr MemoryRegion (zc_mr_update (\<lambda>_. 0)) s of
        (z, e) \<Rightarrow> (z\<lparr>zc_mr_buffer := 0, zc_mr_size := 0, zc_mr_send := False\<rparr>, e))"

definition AcquireZcMr :: "'e rdma_cm \<Rightarrow> nat \<Rightarrow> nat \<Rightarrow> bool \<Rightarrow> (TransportRDMAZc, 'e) action" where
  "AcquireZcMr cm buffer n send = (\<lambda>(z, e).
     if zc_mr z \<noteq> 0 \<and> zc_mr_buffer z = buffer \<and> zc_mr_size z = n \<and> zc_mr_send z = send then Some (True, z, e)
     else (case DropZcMr cm (z, e) of
       (z1, e1) \<Rightarrow>
         (case cm_acquire cm (NewMr (rd_pd z1) buffer n False) e1 of
            (h, e2) \<Rightarrow>
              if h = 0 then Some (False, z1\<lparr>zc_mr := 0\<rparr>, e2)
              else Some (True, z1\<lparr>zc_mr := h, zc_mr_buffer := buffer, zc_mr_size := n, zc_mr_send := send\<rparr>, e2))))"

definition zc_chunks :: "nat \<Rightarrow> nat \<Rightarrow> nat" where
  "zc_chunks n chunk = (n + chunk - 1) div chunk"

definition BeginZcSend :: "'e rdma_cm \<Rightarrow> nat \<Rightarrow> nat \<Rightarrow> (TransportRDMAZc, 'e) action" where
  "BeginZcSend cm data n s =
     (case AcquireZcMr cm data n True s of
        None \<Rightarrow> None
      | Some (ok, z, e) \<Rightarrow>
          if ok then Some (True, z\<lparr>zc_send_data := data, zc_size := n, zc_total := zc_chunks n (zc_chunk z), zc_send_active := True\<rparr>, e)
          else Some (False, z, e))"

definition BeginZcRecv :: "'e rdma_cm \<Rightarrow> nat \<Rightarrow> nat \<Rightarrow> (TransportRDMAZc, 'e) action" where
  "BeginZcRecv cm data n s =
     (case AcquireZcMr cm data n False s of
        None \<Rightarrow> None
      | Some (ok, z, e) \<Rightarrow>
          if ok then Some (True, z\<lparr>zc_recv_data := data, zc_size := n, zc_total := zc_chunks n (zc_chunk z), zc_recv_active := True\<rparr>, e)
          else Some (False, z, e))"

definition zc_send_request :: "TransportRDMAZc \<Rightarrow> nat \<Rightarrow> bool \<Rightarrow> send_wr" where
  "zc_send_request z index signaled =
     \<lparr>sw_id = index + 1, sw_opcode = WrSend, sw_signaled = signaled, sw_imm = 0, sw_remote = 0, sw_rkey = 0,
      sw_data = UserRange (zc_send_data z + index * zc_chunk z) (ZcChunkLength z index)\<rparr>"

definition PostZcSends :: "'e verbs \<Rightarrow> nat \<Rightarrow> TransportRDMAZc \<Rightarrow> 'e \<Rightarrow> bool \<times> 'e" where
  "PostZcSends vb n z e =
     vb_post_send vb (zc_qp z) (map (\<lambda>i. zc_send_request z (zc_send_posted z + i) (i + 1 = n)) [0..<n]) e"

definition zc_recv_request :: "TransportRDMAZc \<Rightarrow> nat \<Rightarrow> recv_wr" where
  "zc_recv_request z index =
     \<lparr>rw_id = kZcRecvBase + index, rw_data = UserRange (zc_recv_data z + index * zc_chunk z) (ZcChunkLength z index)\<rparr>"

definition PostZcRecvs :: "'e verbs \<Rightarrow> nat \<Rightarrow> TransportRDMAZc \<Rightarrow> 'e \<Rightarrow> bool \<times> 'e" where
  "PostZcRecvs vb n z e =
     vb_post_recv vb (zc_qp z) (map (\<lambda>i. zc_recv_request z (zc_recv_posted z + i)) [0..<n]) e"

definition ReleaseZc :: "TransportRDMAZc \<Rightarrow> TransportRDMAZc" where
  "ReleaseZc z = z\<lparr>zc_send_data := 0, zc_recv_data := 0, zc_size := 0, zc_total := 0, zc_send_active := False, zc_recv_active := False,
     zc_send_posted := 0, zc_send_completed := 0, zc_recv_posted := 0, zc_recv_completed := 0\<rparr>"

subsection \<open>Transfers\<close>

text \<open>
  \<open>TrySend\<close> on the buffer at address \<open>addr\<close> that holds \<open>data\<close>. \<open>TryRecv\<close> gives the bytes that the program stores, which are
  none on the zero-copy path, the progress and whether it is done.
\<close>

definition begin_send :: "'e rdma_cm \<Rightarrow> nat \<Rightarrow> nat \<Rightarrow> (TransportRDMAZc, 'e) action" where
  "begin_send cm addr n s =
     (if \<not> zc_send_active (fst s) then BeginZcSend cm addr n s
      else Some (addr = zc_send_data (fst s) \<and> n = zc_size (fst s), s))"

definition begin_recv :: "'e rdma_cm \<Rightarrow> nat \<Rightarrow> nat \<Rightarrow> (TransportRDMAZc, 'e) action" where
  "begin_recv cm addr n s =
     (if \<not> zc_recv_active (fst s) then BeginZcRecv cm addr n s
      else Some (addr = zc_recv_data (fst s) \<and> n = zc_size (fst s), s))"

definition zc_count :: "nat \<Rightarrow> nat \<Rightarrow> nat \<Rightarrow> nat" where
  "zc_count whole posted completed = min (size_diff kRdmaZcWindow (size_diff posted completed)) (size_diff whole posted)"

definition post_sends :: "'e verbs \<Rightarrow> TransportRDMAZc \<Rightarrow> 'e \<Rightarrow> (TransportRDMAZc \<times> 'e) option" where
  "post_sends vb z e =
     (let n = zc_count (zc_total z) (zc_send_posted z) (zc_send_completed z) in
      if n > 0 then (case PostZcSends vb n z e of (ok, e') \<Rightarrow> if ok then Some (z\<lparr>zc_send_posted := zc_send_posted z + n\<rparr>, e') else None)
      else Some (z, e))"

definition post_recvs :: "'e verbs \<Rightarrow> TransportRDMAZc \<Rightarrow> 'e \<Rightarrow> (TransportRDMAZc \<times> 'e) option" where
  "post_recvs vb z e =
     (let n = zc_count (zc_total z) (zc_recv_posted z) (zc_recv_completed z) in
      if n > 0 then (case PostZcRecvs vb n z e of (ok, e') \<Rightarrow> if ok then Some (z\<lparr>zc_recv_posted := zc_recv_posted z + n\<rparr>, e') else None)
      else Some (z, e))"

definition Zc_TrySend ::
  "'e rdma_cm \<Rightarrow> 'e verbs \<Rightarrow> nat \<Rightarrow> byte list \<Rightarrow> nat \<Rightarrow> TransportRDMAZc \<Rightarrow> 'e \<Rightarrow> (nat \<times> bool \<times> TransportRDMAZc \<times> 'e) option option" where
  "Zc_TrySend cm vb addr data progress z e =
     (if length data < zc_threshold z then Rdma_TrySend vb (Zc_HandleCompletion vb) data progress z e
      else if \<not> IsTransferSizeSupported (length data) then Some None
      else if \<not> rd_connected z \<or> \<not> Rdma_IsProducer z then Some None
      else (case ProcessCompletions vb (Zc_HandleCompletion vb) z e of
        None \<Rightarrow> None
      | Some None \<Rightarrow> Some None
      | Some (Some (z1, e1)) \<Rightarrow>
          (case begin_send cm addr (length data) (z1, e1) of
             None \<Rightarrow> None
           | Some (ok, z2, e2) \<Rightarrow>
               if \<not> ok then Some None
               else (case post_sends vb z2 e2 of
                 None \<Rightarrow> Some None
               | Some (z3, e3) \<Rightarrow>
                   let finished = (zc_send_completed z3 = zc_total z3) in
                   Some (Some (if finished then length data else 0, finished, if finished then ReleaseZc z3 else z3, e3))))))"

definition Zc_TryRecv ::
  "'e rdma_cm \<Rightarrow> 'e verbs \<Rightarrow> nat \<Rightarrow> nat \<Rightarrow> nat \<Rightarrow> TransportRDMAZc \<Rightarrow> 'e \<Rightarrow>
   (byte list \<times> nat \<times> bool \<times> TransportRDMAZc \<times> 'e) option option" where
  "Zc_TryRecv cm vb addr sz progress z e =
     (if sz < zc_threshold z then
        map_option (map_option (\<lambda>(bs, fin, z', e'). (bs, progress + length bs, fin, z', e'))) (Rdma_TryRecv vb (Zc_HandleCompletion vb) sz progress z e)
      else if \<not> IsTransferSizeSupported sz then Some None
      else if \<not> rd_connected z \<or> Rdma_IsProducer z then Some None
      else (case ProcessCompletions vb (Zc_HandleCompletion vb) z e of
        None \<Rightarrow> None
      | Some None \<Rightarrow> Some None
      | Some (Some (z1, e1)) \<Rightarrow>
          (case begin_recv cm addr sz (z1, e1) of
             None \<Rightarrow> None
           | Some (ok, z2, e2) \<Rightarrow>
               if \<not> ok then Some None
               else (case post_recvs vb z2 e2 of
                 None \<Rightarrow> Some None
               | Some (z3, e3) \<Rightarrow>
                   let finished = (zc_recv_completed z3 = zc_total z3) in
                   Some (Some ([], if finished then sz else 0, finished, if finished then ReleaseZc z3 else z3, e3))))))"

subsection \<open>Closing\<close>

text \<open>The queue pair of the second connection is forgotten with its identifier; no call destroys it.\<close>

definition CloseZc :: "'e rdma_cm \<Rightarrow> TransportRDMAZc \<times> 'e \<Rightarrow> TransportRDMAZc \<times> 'e" where
  "CloseZc cm =
     release_field cm zc_channel EventChannel (zc_channel_update (\<lambda>_. 0)) \<circ>
     release_field cm zc_listener CmId (zc_listener_update (\<lambda>_. 0)) \<circ>
     release_field cm zc_id CmId (\<lambda>z. z\<lparr>zc_id := 0, zc_qp := 0\<rparr>)"

definition Zc_CloseResources :: "'e rdma_cm \<Rightarrow> 'e verbs \<Rightarrow> TransportRDMAZc \<times> 'e \<Rightarrow> (TransportRDMAZc \<times> 'e) option" where
  "Zc_CloseResources cm vb s =
     Rdma_CloseResources cm vb (CloseZc cm (DropZcMr cm (ReleaseZc (fst s), snd s)))"

end
