(* ===== verification/Occl_Rdma_Resources.thy ===== *)
theory Occl_Rdma_Resources
  imports Occl_Rdma_Setup
begin

section \<open>The RDMA transport: ownership of resources\<close>

text \<open>
  Every object of the verbs library and of the connection manager that a transport creates is in one of its fields until
  it is destroyed, so \<open>Close\<close> after any outcome of \<open>Connect\<close> leaves nothing behind. On the accepting side one path does.
\<close>

fun made :: "rdma_request \<Rightarrow> nat \<Rightarrow> rdma_resource" where
  "made NewEventChannel h = EventChannel h"
| "made (NewId ch) h = CmId h"
| "made (NewPd i) h = ProtectionDomain h"
| "made (NewBuffer n) h = RegisteredBuffer h"
| "made (NewMr pd b n remote) h = MemoryRegion h"
| "made (NewCompletionChannel i) h = CompletionChannel h"
| "made (NewCq i n ch) h = CompletionQueue h"

definition handle_set :: "(nat \<Rightarrow> rdma_resource) \<Rightarrow> nat \<Rightarrow> rdma_resource set" where
  "handle_set con h = (if h = 0 then {} else {con h})"

definition rdma_owned :: "'z TransportRDMA_scheme \<Rightarrow> rdma_resource set" where
  "rdma_owned t = handle_set EventChannel (rd_cm_channel t) \<union> handle_set CmId (rd_cm_id t) \<union> handle_set ProtectionDomain (rd_pd t) \<union>
     handle_set RegisteredBuffer (rd_buffer t) \<union> handle_set MemoryRegion (rd_mr t) \<union> handle_set CompletionChannel (rd_comp_channel t) \<union>
     handle_set CompletionQueue (rd_cq t) \<union> handle_set QueuePair (rd_qp t)"

lemma handle_set_simps [simp]: "handle_set con 0 = {}" "h \<noteq> 0 \<Longrightarrow> handle_set con h = {con h}"
  by (simp_all add: handle_set_def)

lemma rdma_owned_insert:
  fixes t :: "'z TransportRDMA_scheme"
  assumes "h \<noteq> 0"
  shows "rd_cm_channel t = 0 \<Longrightarrow> rdma_owned (t\<lparr>rd_cm_channel := h\<rparr>) = insert (EventChannel h) (rdma_owned t)"
    and "rd_cm_id t = 0 \<Longrightarrow> rdma_owned (t\<lparr>rd_cm_id := h\<rparr>) = insert (CmId h) (rdma_owned t)"
    and "rd_pd t = 0 \<Longrightarrow> rdma_owned (t\<lparr>rd_pd := h\<rparr>) = insert (ProtectionDomain h) (rdma_owned t)"
    and "rd_buffer t = 0 \<Longrightarrow> rdma_owned (t\<lparr>rd_buffer := h\<rparr>) = insert (RegisteredBuffer h) (rdma_owned t)"
    and "rd_mr t = 0 \<Longrightarrow> rdma_owned (t\<lparr>rd_mr := h\<rparr>) = insert (MemoryRegion h) (rdma_owned t)"
    and "rd_comp_channel t = 0 \<Longrightarrow> rdma_owned (t\<lparr>rd_comp_channel := h\<rparr>) = insert (CompletionChannel h) (rdma_owned t)"
    and "rd_cq t = 0 \<Longrightarrow> rdma_owned (t\<lparr>rd_cq := h\<rparr>) = insert (CompletionQueue h) (rdma_owned t)"
    and "rd_qp t = 0 \<Longrightarrow> rdma_owned (t\<lparr>rd_qp := h, rd_inline_capacity := n\<rparr>) = insert (QueuePair h) (rdma_owned t)"
  using assms by (simp_all add: rdma_owned_def)

text \<open>The handles in the order in which a connection acquires them.\<close>

definition handles :: "'z TransportRDMA_scheme \<Rightarrow> nat list" where
  "handles t = [rd_cm_channel t, rd_cm_id t, rd_pd t, rd_buffer t, rd_mr t, rd_comp_channel t, rd_cq t, rd_qp t]"

locale rdma_library =
  fixes cm :: "'e rdma_cm" and vb :: "'e verbs" and live :: "'e \<Rightarrow> rdma_resource set"
  assumes acquire_law: "cm_acquire cm rq e = (h, e') \<Longrightarrow>
      (if h = 0 then live e' = live e else made rq h \<notin> live e \<and> live e' = insert (made rq h) (live e))"
    and qp_law: "cm_create_qp cm i p c d n e = ((q, cap), e') \<Longrightarrow>
      (if q = 0 then live e' = live e else QueuePair q \<notin> live e \<and> live e' = insert (QueuePair q) (live e))"
    and release_law: "live (cm_release cm x e) = live e - {x}"
    and do_law: "live (snd (cm_do cm cmd e)) = live e"
    and event_law: "cm_get_event cm ch e = (r, e') \<Longrightarrow>
      live e' = live e \<union> (case r of CmEvent ev \<Rightarrow> if ev_type ev = ConnectRequest then {CmId (ev_id ev)} else {} | _ \<Rightarrow> {})"
    and ack_law: "live (cm_ack cm ev e) = live e"
    and verbs_law: "live (vb_store vb a bs e) = live e" "live (snd (vb_post_recv vb q rs e)) = live e"
      "live (snd (vb_readable vb fd ms e)) = live e" "live (snd (vb_get_event vb e)) = live e" "live (snd (vb_req_notify vb e)) = live e"

text \<open>The connecting side: its event channel has no listener and reports no connection request.\<close>

locale rdma_client = rdma_library +
  assumes no_requests: "cm_get_event cm ch e = (CmEvent ev, e') \<Longrightarrow> ev_type ev \<noteq> ConnectRequest"

context rdma_library
begin

definition holds :: "rdma_resource set \<Rightarrow> 'z TransportRDMA_scheme \<Rightarrow> 'e \<Rightarrow> bool" where
  "holds L t e \<longleftrightarrow> live e = L \<union> rdma_owned t \<and> L \<inter> rdma_owned t = {} \<and> (rd_cm_id t = 0 \<longrightarrow> rd_qp t = 0)"

definition acts :: "nat \<Rightarrow> ('z TransportRDMA_scheme, 'e) action \<Rightarrow> nat \<Rightarrow> bool" where
  "acts k f k' \<longleftrightarrow> (\<forall>L t e ok t' e'. f (t, e) = Some (ok, t', e') \<longrightarrow> holds L t e \<longrightarrow> (\<forall>h \<in> set (drop k (handles t)). h = 0) \<longrightarrow>
     (2 \<le> k \<longrightarrow> rd_cm_id t \<noteq> 0) \<longrightarrow>
     holds L t' e' \<and> (ok \<longrightarrow> (\<forall>h \<in> set (drop k' (handles t')). h = 0) \<and> (2 \<le> k' \<longrightarrow> rd_cm_id t' \<noteq> 0)))"

lemma acts_Nil: "acts k (run_steps []) k"
  by (auto simp: acts_def)

lemma acts_Cons:
  assumes f: "acts k f m" and fs: "acts m (run_steps fs) k'"
  shows "acts k (run_steps (f # fs)) k'"
  unfolding acts_def
proof (intro allI impI)
  fix L ok t' e' t e
  assume run: "run_steps (f # fs) (t, e) = Some (ok, t', e')" and h: "holds L t e" "\<forall>h \<in> set (drop k (handles t)). h = 0" "2 \<le> k \<longrightarrow> rd_cm_id t \<noteq> 0"
  then obtain b t1 e1 where 1: "f (t, e) = Some (b, t1, e1)" by (auto split: option.splits prod.splits)
  note 2 = f [unfolded acts_def, rule_format, OF 1 h(1)]
  show "holds L t' e' \<and> (ok \<longrightarrow> (\<forall>h \<in> set (drop k' (handles t')). h = 0) \<and> (2 \<le> k' \<longrightarrow> rd_cm_id t' \<noteq> 0))"
  proof (cases b)
    case True
    hence "run_steps fs (t1, e1) = Some (ok, t', e')" using run 1 by simp
    thus ?thesis using fs [unfolded acts_def, rule_format, of t1 e1 ok t' e' L] 2 h True by blast
  next
    case False
    thus ?thesis using run 1 2 h by simp
  qed
qed

lemma acts_acquire:
  fixes f :: "('z TransportRDMA_scheme, 'e) action"
  assumes "\<And>t e ok t' e'. f (t, e) = Some (ok, t', e') \<Longrightarrow> \<forall>h \<in> set (drop k (handles t)). h = 0 \<Longrightarrow> 2 \<le> k \<longrightarrow> rd_cm_id t \<noteq> 0 \<Longrightarrow>
      \<not> ok \<and> live e' = live e \<and> handles t' = handles t \<or>
      (\<exists>x. x \<notin> live e \<and> live e' = insert x (live e) \<and> rdma_owned t' = insert x (rdma_owned t) \<and> (rd_cm_id t' = 0 \<longrightarrow> rd_qp t' = 0) \<and>
         (\<forall>h \<in> set (drop k' (handles t')). h = 0) \<and> (2 \<le> k' \<longrightarrow> rd_cm_id t' \<noteq> 0))"
  shows "acts k f k'"
  unfolding acts_def
proof (intro allI impI)
  fix L ok t' e' t e
  assume "f (t, e) = Some (ok, t', e')" and h: "holds L t e" and z: "\<forall>h \<in> set (drop k (handles t)). h = 0" "2 \<le> k \<longrightarrow> rd_cm_id t \<noteq> 0"
  from assms [OF this(1) z] show "holds L t' e' \<and> (ok \<longrightarrow> (\<forall>h \<in> set (drop k' (handles t')). h = 0) \<and> (2 \<le> k' \<longrightarrow> rd_cm_id t' \<noteq> 0))"
  proof
    assume same: "\<not> ok \<and> live e' = live e \<and> handles t' = handles t"
    hence "rdma_owned t' = rdma_owned t" "rd_cm_id t' = rd_cm_id t" "rd_qp t' = rd_qp t" by (simp_all add: rdma_owned_def handles_def)
    thus ?thesis using h same by (simp add: holds_def)
  qed (use h in \<open>auto simp: holds_def\<close>)
qed

lemma acts_into:
  fixes store :: "nat \<Rightarrow> 'z TransportRDMA_scheme \<Rightarrow> 'z TransportRDMA_scheme"
  assumes "\<And>t h. \<forall>h \<in> set (drop k (handles t)). h = 0 \<Longrightarrow> 2 \<le> k \<longrightarrow> rd_cm_id t \<noteq> 0 \<Longrightarrow> h \<noteq> 0 \<Longrightarrow>
      rdma_owned (store h t) = insert (made (rq t) h) (rdma_owned t) \<and> (rd_cm_id (store h t) = 0 \<longrightarrow> rd_qp (store h t) = 0) \<and>
      (\<forall>h \<in> set (drop k' (handles (store h t))). h = 0) \<and> (2 \<le> k' \<longrightarrow> rd_cm_id (store h t) \<noteq> 0)"
    and "\<And>t. \<forall>h \<in> set (drop k (handles t)). h = 0 \<Longrightarrow> handles (store 0 t) = handles t"
  shows "acts k (acquire_into cm rq store) k'"
proof (rule acts_acquire)
  fix t e ok t' e'
  assume run: "acquire_into cm rq store (t, e) = Some (ok, t', e')" and z: "\<forall>h \<in> set (drop k (handles t)). h = 0" "2 \<le> k \<longrightarrow> rd_cm_id t \<noteq> 0"
  obtain h where a: "cm_acquire cm (rq t) e = (h, e')" and ok: "ok \<longleftrightarrow> h \<noteq> 0" "t' = store h t"
    using run by (auto simp: acquire_into_def split: prod.splits)
  show "\<not> ok \<and> live e' = live e \<and> handles t' = handles t \<or>
      (\<exists>x. x \<notin> live e \<and> live e' = insert x (live e) \<and> rdma_owned t' = insert x (rdma_owned t) \<and> (rd_cm_id t' = 0 \<longrightarrow> rd_qp t' = 0) \<and>
         (\<forall>h \<in> set (drop k' (handles t')). h = 0) \<and> (2 \<le> k' \<longrightarrow> rd_cm_id t' \<noteq> 0))"
  proof (cases "h = 0")
    case True
    thus ?thesis using acquire_law [OF a] ok assms(2) [OF z(1)] by simp
  next
    case False
    thus ?thesis using acquire_law [OF a] ok assms(1) [OF z False] by (intro disjI2 exI [of _ "made (rq t) h"]) simp
  qed
qed

lemma acts_OpenChannel: "acts 0 (OpenChannel cm) 1"
proof -
  have "acts 0 (acquire_into cm (\<lambda>t. NewEventChannel) (\<lambda>h. rd_cm_channel_update (\<lambda>_. h))) 1"
    by (rule acts_into) (auto simp: handles_def rdma_owned_insert)
  moreover have "OpenChannel cm (t, e) = acquire_into cm (\<lambda>t. NewEventChannel) (\<lambda>h. rd_cm_channel_update (\<lambda>_. h)) (t, e)"
    if "\<forall>h \<in> set (drop 0 (handles t)). h = 0" for t :: "'b TransportRDMA_scheme" and e
    using that by (simp add: OpenChannel_def handles_def)
  ultimately show ?thesis unfolding acts_def by metis
qed

lemma acts_create_id: "acts 1 (create_id cm) 2"
  unfolding create_id_def by (rule acts_into) (auto simp: handles_def rdma_owned_insert)

lemma acts_pd: "acts 2 (acquire_into cm (\<lambda>t. NewPd (rd_cm_id t)) (\<lambda>h. rd_pd_update (\<lambda>_. h))) 3"
  by (rule acts_into) (auto simp: handles_def rdma_owned_insert)

lemma acts_buffer: "acts 3 (acquire_into cm (\<lambda>t. NewBuffer n) (\<lambda>h. rd_buffer_update (\<lambda>_. h))) 4"
  by (rule acts_into) (auto simp: handles_def rdma_owned_insert)

lemma acts_mr: "acts 4 (acquire_into cm (\<lambda>t. NewMr (rd_pd t) (rd_buffer t) n b) (\<lambda>h. rd_mr_update (\<lambda>_. h))) 5"
  by (rule acts_into) (auto simp: handles_def rdma_owned_insert)

lemma acts_comp_channel: "acts 5 (acquire_into cm (\<lambda>t. NewCompletionChannel (rd_cm_id t)) (\<lambda>h. rd_comp_channel_update (\<lambda>_. h))) 6"
  by (rule acts_into) (auto simp: handles_def rdma_owned_insert)

lemma acts_cq: "acts 6 (acquire_into cm (\<lambda>t. NewCq (rd_cm_id t) n (rd_comp_channel t)) (\<lambda>h. rd_cq_update (\<lambda>_. h))) 7"
  by (rule acts_into) (auto simp: handles_def rdma_owned_insert)

lemma acts_qp: "acts 7 (create_queue_pair cm) 8"
proof (rule acts_acquire)
  fix t :: "'b TransportRDMA_scheme" and e ok t' e'
  assume run: "create_queue_pair cm (t, e) = Some (ok, t', e')" and z: "\<forall>h \<in> set (drop 7 (handles t)). h = 0" "2 \<le> (7::nat) \<longrightarrow> rd_cm_id t \<noteq> 0"
  obtain q n e1 where 1: "cm_create_qp cm (rd_cm_id t) (rd_pd t) (rd_cq t) kRdmaQueueDepth kRdmaInlineThreshold e = ((q, n), e1)"
    by (metis surj_pair)
  obtain q' n' e2 where 2: "cm_create_qp cm (rd_cm_id t) (rd_pd t) (rd_cq t) kRdmaQueueDepth 0 e1 = ((q', n'), e2)"
    by (metis surj_pair)
  have qp: "rd_qp t = 0" "rd_cm_id t \<noteq> 0" using z by (simp_all add: handles_def)
  show "\<not> ok \<and> live e' = live e \<and> handles t' = handles t \<or>
      (\<exists>x. x \<notin> live e \<and> live e' = insert x (live e) \<and> rdma_owned t' = insert x (rdma_owned t) \<and> (rd_cm_id t' = 0 \<longrightarrow> rd_qp t' = 0) \<and>
         (\<forall>h \<in> set (drop 8 (handles t')). h = 0) \<and> (2 \<le> (8::nat) \<longrightarrow> rd_cm_id t' \<noteq> 0))"
    using run qp_law [OF 1] qp_law [OF 2] rdma_owned_insert(8) [of q t n] rdma_owned_insert(8) [of q' t n'] qp
    by (auto simp: create_queue_pair_def 1 2 handles_def split: if_splits)
qed

lemma acts_same:
  fixes f :: "('z TransportRDMA_scheme, 'e) action"
  assumes "\<And>t e ok t' e'. f (t, e) = Some (ok, t', e') \<Longrightarrow> live e' = live e \<and> handles t' = handles t"
  shows "acts k f k"
  unfolding acts_def
proof (intro allI impI)
  fix L ok t' e' t e
  assume "f (t, e) = Some (ok, t', e')" and h: "holds L t e" "\<forall>h \<in> set (drop k (handles t)). h = 0" "2 \<le> k \<longrightarrow> rd_cm_id t \<noteq> 0"
  hence eq: "live e' = live e" "handles t' = handles t" using assms by blast+
  hence "rdma_owned t' = rdma_owned t" "rd_cm_id t' = rd_cm_id t" "rd_qp t' = rd_qp t" by (simp_all add: rdma_owned_def handles_def)
  thus "holds L t' e' \<and> (ok \<longrightarrow> (\<forall>h \<in> set (drop k (handles t')). h = 0) \<and> (2 \<le> k \<longrightarrow> rd_cm_id t' \<noteq> 0))"
    using h eq by (simp add: holds_def)
qed

lemma acts_command: "acts k (command cm c) k"
  by (rule acts_same) (auto simp: command_def split: prod.splits dest: arg_cong [of _ _ "\<lambda>x. live (snd x)"] simp: do_law)

lemma acts_guard: "acts k (guard c) k"
  by (rule acts_same) (auto simp: guard_def)

lemma acts_zero_buffer: "acts k (zero_buffer vb) k"
  by (rule acts_same) (auto simp: zero_buffer_def verbs_law)

lemma acts_arm: "acts k (arm_queue vb) k"
  by (rule acts_same) (auto simp: arm_queue_def split: prod.splits dest: arg_cong [of _ _ "\<lambda>x. live (snd x)"] simp: verbs_law)

lemma acts_post: "acts k (post_pool vb i) k"
  by (rule acts_same)
    (auto simp: post_pool_def PostPoolRecv_def split: prod.splits dest: arg_cong [of _ _ "\<lambda>x. live (snd x)"] simp: verbs_law)

lemma acts_posts: "acts k (run_steps (map (post_pool vb) is)) k"
proof (induction "is")
  case (Cons i ns)
  show ?case unfolding list.map by (rule acts_Cons [OF acts_post Cons])
qed (simp only: list.map acts_Nil)

lemma acts_setup: "acts 2 (Rdma_SetupResources cm vb) 8"
  unfolding Rdma_SetupResources_def append_Cons append_Nil
  by (rule acts_Cons, rule acts_pd, rule acts_Cons, rule acts_buffer, rule acts_Cons, rule acts_zero_buffer, rule acts_Cons, rule acts_mr,
      rule acts_Cons, rule acts_comp_channel, rule acts_Cons, rule acts_cq, rule acts_Cons, rule acts_arm, rule acts_Cons, rule acts_qp,
      rule acts_Cons, rule acts_guard, rule acts_posts)

lemma AwaitEvent_live:
  assumes "AwaitEvent cm vb ch ty e = Some r"
  shows "live e \<subseteq> live (snd r)" and "fst r = Some ev \<Longrightarrow> ev_type ev = ty \<and> (ty = ConnectRequest \<longrightarrow> CmId (ev_id ev) \<in> live (snd r))"
    and "(\<And>ch e ev e'. cm_get_event cm ch e = (CmEvent ev, e') \<Longrightarrow> ev_type ev \<noteq> ConnectRequest) \<Longrightarrow> live (snd r) = live e"
proof -
  define NR where "NR \<longleftrightarrow> (\<forall>ch e ev e'. cm_get_event cm ch e = (CmEvent ev, e') \<longrightarrow> ev_type ev \<noteq> ConnectRequest)"
  let ?P = "\<lambda>e r. live e \<subseteq> live (snd r) \<and> (fst r = Some ev \<longrightarrow> ev_type ev = ty \<and> (ty = ConnectRequest \<longrightarrow> CmId (ev_id ev) \<in> live (snd r))) \<and>
      (NR \<longrightarrow> live (snd r) = live e)"
  have "cm' = cm \<longrightarrow> vb' = vb \<longrightarrow> ty' = ty \<longrightarrow> ?P e r" if "AwaitEvent cm' vb' ch' ty' e = Some r" for cm' vb' ch' ty' e r
    using that
  proof (induction rule: AwaitEvent.raw_induct [rotated, consumes 1])
    case (1 f cm' vb' ch' ty' e r)
    show ?case
    proof (intro impI)
      assume eqs: "cm' = cm" "vb' = vb" "ty' = ty"
      obtain x e1 where x: "cm_get_event cm ch' e = (x, e1)" by fastforce
      obtain ready e2 where w: "vb_readable vb (int ch') kEstablishTimeoutMs e1 = (ready, e2)" by fastforce
      have e2: "live e2 = live e1" using verbs_law(3) [of "int ch'" kEstablishTimeoutMs e1] w by simp
      note law = event_law [OF x]
      show "?P e r"
      proof (cases x)
        case (CmEvent v)
        have live: "live e1 = live e \<union> (if ev_type v = ConnectRequest then {CmId (ev_id v)} else {})" using law CmEvent by simp
        have quiet: "NR \<longrightarrow> ev_type v \<noteq> ConnectRequest" using x CmEvent unfolding NR_def by blast
        consider (wanted) "ev_type v = ty" | (fatal) "ev_type v \<noteq> ty" "ev_type v = Rejected \<or> ev_type v = DeviceRemoval"
          | (other) "ev_type v \<noteq> ty" "\<not> (ev_type v = Rejected \<or> ev_type v = DeviceRemoval)" by blast
        thus ?thesis
        proof cases
          case wanted
          hence "r = (Some v, e1)" using 1(2) eqs x CmEvent by simp
          thus ?thesis using live quiet wanted by auto
        next
          case fatal
          hence "r = (None, cm_ack cm v e1)" using 1(2) eqs x CmEvent by (auto simp: Let_def)
          thus ?thesis using live quiet by (simp add: ack_law)
        next
          case other
          hence "?P (cm_ack cm v e1) r"
            using 1(1) [of cm vb ch' ty "cm_ack cm v e1" r] 1(2) eqs x CmEvent by (simp add: Let_def)
          thus ?thesis using live quiet by (simp add: ack_law)
        qed
      next
        case CmAgain
        have same: "live e2 = live e" using law CmAgain e2 by simp
        show ?thesis
        proof (cases ready)
          case True
          hence "?P e2 r" using 1(1) [of cm vb ch' ty e2 r] 1(2) eqs x CmAgain w by simp
          thus ?thesis unfolding same .
        next
          case False
          hence "r = (None, e2)" using 1(2) eqs x CmAgain w by simp
          thus ?thesis using same by simp
        qed
      next
        case CmFailed
        hence "r = (None, e1)" "live e1 = live e" using 1(2) eqs x law by simp_all
        thus ?thesis by simp
      qed
    qed
  qed
  from this [OF assms]
  show "live e \<subseteq> live (snd r)" "fst r = Some ev \<Longrightarrow> ev_type ev = ty \<and> (ty = ConnectRequest \<longrightarrow> CmId (ev_id ev) \<in> live (snd r))"
    and "(\<And>ch e ev e'. cm_get_event cm ch e = (CmEvent ev, e') \<Longrightarrow> ev_type ev \<noteq> ConnectRequest) \<Longrightarrow> live (snd r) = live e"
    unfolding NR_def by blast+
qed

end

context rdma_client
begin

lemma acts_await: "(\<And>ev t. handles (absorb ev t) = handles t) \<Longrightarrow> acts k (await cm vb ty absorb) k"
proof (rule acts_same)
  fix t :: "'b TransportRDMA_scheme" and e ok t' e'
  assume keep: "\<And>ev t. handles (absorb ev t) = handles t" and run: "await cm vb ty absorb (t, e) = Some (ok, t', e')"
  then obtain x e1 where a: "AwaitEvent cm vb (rd_cm_channel t) ty e = Some (x, e1)" by (auto simp: await_def split: option.splits)
  have "live e1 = live e" using AwaitEvent_live(3) [OF a no_requests] by simp
  thus "live e' = live e \<and> handles t' = handles t"
    using run a keep by (cases x) (auto simp: await_def ack_law)
qed

lemma acts_update: "(\<And>t e. handles (f t e) = handles t) \<Longrightarrow> acts k (update f) k"
  by (rule acts_same) (auto simp: update_def)

lemma acts_Connect:
  fixes prepare :: "'z TransportRDMA_scheme \<Rightarrow> Wire \<Rightarrow> Wire"
  shows "acts 0 (Rdma_Connect cm vb (Rdma_SetupResources cm vb) prepare Rdma_FinalizeConnection addr port) 8"
  unfolding Rdma_Connect_def
  by (rule acts_Cons, rule acts_OpenChannel, rule acts_Cons, rule acts_create_id, rule acts_Cons, rule acts_guard,
      rule acts_Cons, rule acts_command, rule acts_Cons, rule acts_await, simp, rule acts_Cons, rule acts_command,
      rule acts_Cons, rule acts_await, simp, rule acts_Cons, rule acts_setup, rule acts_Cons, rule acts_command,
      rule acts_Cons, rule acts_update, simp add: handles_def, rule acts_Cons, rule acts_await, simp add: handles_def,
      rule acts_Cons, rule acts_same, simp add: Rdma_FinalizeConnection_def, rule acts_Nil)

end

context rdma_library
begin

text \<open>A step of closing gives up one field and its object.\<close>

lemma holds_release:
  fixes t :: "'z TransportRDMA_scheme"
  assumes "holds L t e" and "release_field cm field con clear (t, e) = (t', e')"
    and "rdma_owned (clear t) = rdma_owned t - handle_set con (field t)" and "handle_set con (field t) \<subseteq> rdma_owned t" and "field t = 0 \<Longrightarrow> clear t = t"
    and "rd_cm_id (clear t) = 0 \<longrightarrow> rd_qp (clear t) = 0"
  shows "holds L t' e' \<and> t' = clear t"
proof (cases "field t = 0")
  case True
  thus ?thesis using assms(1,2,5) by (simp add: release_field_def)
next
  case False
  hence "t' = clear t" "e' = cm_release cm (con (field t)) e" using assms(2) by (simp_all add: release_field_def)
  moreover have "con (field t) \<notin> L" using assms(1,4) False by (auto simp: holds_def)
  ultimately show ?thesis using assms(1,3,4,6) False by (auto simp: holds_def release_law)
qed

lemma drain_live: "DrainCompletionEvents vb b t e = Some (ok, e') \<Longrightarrow> live e' = live e"
proof -
  assume run: "DrainCompletionEvents vb b t e = Some (ok, e')"
  show ?thesis
  proof (cases "rd_comp_channel t = 0")
    case False
    hence "drain_events vb (int (rd_comp_channel t)) b e = Some (ok, e')" using run by (simp add: DrainCompletionEvents_def)
    from drain_events_preserves [of vb _ b e ok e' "\<lambda>x. live x = live e", OF this] show ?thesis by (simp add: verbs_law)
  qed (use run in \<open>simp add: DrainCompletionEvents_def\<close>)
qed

lemma rdma_owned_clear:
  "rdma_owned (t\<lparr>rd_cm_channel := 0\<rparr>) = rdma_owned t - handle_set EventChannel (rd_cm_channel t)"
  "rdma_owned (t\<lparr>rd_cm_id := 0\<rparr>) = rdma_owned t - handle_set CmId (rd_cm_id t)"
  "rdma_owned (t\<lparr>rd_pd := 0\<rparr>) = rdma_owned t - handle_set ProtectionDomain (rd_pd t)"
  "rdma_owned (t\<lparr>rd_buffer := 0\<rparr>) = rdma_owned t - handle_set RegisteredBuffer (rd_buffer t)"
  "rdma_owned (t\<lparr>rd_mr := 0\<rparr>) = rdma_owned t - handle_set MemoryRegion (rd_mr t)"
  "rdma_owned (t\<lparr>rd_comp_channel := 0\<rparr>) = rdma_owned t - handle_set CompletionChannel (rd_comp_channel t)"
  "rdma_owned (t\<lparr>rd_cq := 0\<rparr>) = rdma_owned t - handle_set CompletionQueue (rd_cq t)"
  "rdma_owned (t\<lparr>rd_qp := 0\<rparr>) = rdma_owned t - handle_set QueuePair (rd_qp t)"
  by (auto simp: rdma_owned_def handle_set_def)
lemma rdma_owned_part:
  "handle_set EventChannel (rd_cm_channel t) \<subseteq> rdma_owned t"
  "handle_set CmId (rd_cm_id t) \<subseteq> rdma_owned t"
  "handle_set ProtectionDomain (rd_pd t) \<subseteq> rdma_owned t"
  "handle_set RegisteredBuffer (rd_buffer t) \<subseteq> rdma_owned t"
  "handle_set MemoryRegion (rd_mr t) \<subseteq> rdma_owned t"
  "handle_set CompletionChannel (rd_comp_channel t) \<subseteq> rdma_owned t"
  "handle_set CompletionQueue (rd_cq t) \<subseteq> rdma_owned t"
  "handle_set QueuePair (rd_qp t) \<subseteq> rdma_owned t"
  by (auto simp: rdma_owned_def)

lemma clear_same:
  "rd_cm_channel t = 0 \<Longrightarrow> t\<lparr>rd_cm_channel := 0\<rparr> = t"
  "rd_cm_id t = 0 \<Longrightarrow> t\<lparr>rd_cm_id := 0\<rparr> = t"
  "rd_pd t = 0 \<Longrightarrow> t\<lparr>rd_pd := 0\<rparr> = t"
  "rd_buffer t = 0 \<Longrightarrow> t\<lparr>rd_buffer := 0\<rparr> = t"
  "rd_mr t = 0 \<Longrightarrow> t\<lparr>rd_mr := 0\<rparr> = t"
  "rd_comp_channel t = 0 \<Longrightarrow> t\<lparr>rd_comp_channel := 0\<rparr> = t"
  "rd_cq t = 0 \<Longrightarrow> t\<lparr>rd_cq := 0\<rparr> = t"
  "rd_qp t = 0 \<Longrightarrow> t\<lparr>rd_qp := 0\<rparr> = t"
  by (cases t, simp)+

lemma close_releases:
  fixes t :: "'z TransportRDMA_scheme"
  assumes "holds L t e" and "Rdma_CloseResources cm vb (t, e) = Some (t', e')"
  shows "live e' = L" and "\<forall>h \<in> set (handles t'). h = 0"
proof -
  obtain t1 e1 where 1: "release_field cm rd_qp QueuePair (rd_qp_update (\<lambda>_. 0)) (t, e) = (t1, e1)" by fastforce
  have "(if rd_cm_id t \<noteq> 0 then release_field cm rd_qp QueuePair (rd_qp_update (\<lambda>_. 0)) (t, e) else (t, e)) = (t1, e1)"
    using assms(1) 1 by (auto simp: holds_def release_field_def)
  then obtain ok e2 where d: "DrainCompletionEvents vb False t1 e1 = Some (ok, e2)"
    using assms(2) by (auto simp: Rdma_CloseResources_def split: option.splits)
  obtain t3 e3 where 3: "release_field cm rd_mr MemoryRegion (rd_mr_update (\<lambda>_. 0)) (t1, e2) = (t3, e3)" by fastforce
  obtain t4 e4 where 4: "release_field cm rd_cq CompletionQueue (rd_cq_update (\<lambda>_. 0)) (t3, e3) = (t4, e4)" by fastforce
  obtain t5 e5 where 5: "release_field cm rd_comp_channel CompletionChannel (rd_comp_channel_update (\<lambda>_. 0)) (t4, e4) = (t5, e5)" by fastforce
  obtain t6 e6 where 6: "release_field cm rd_pd ProtectionDomain (rd_pd_update (\<lambda>_. 0)) (t5, e5) = (t6, e6)" by fastforce
  obtain t7 e7 where 7: "release_field cm rd_cm_id CmId (rd_cm_id_update (\<lambda>_. 0)) (t6, e6) = (t7, e7)" by fastforce
  obtain t8 e8 where 8: "release_field cm rd_cm_channel EventChannel (rd_cm_channel_update (\<lambda>_. 0)) (t7, e7) = (t8, e8)" by fastforce
  have 9: "release_field cm rd_buffer RegisteredBuffer (rd_buffer_update (\<lambda>_. 0)) (t8, e8) = (t', e')"
    using assms(2) \<open>(if rd_cm_id t \<noteq> 0 then _ else _) = (t1, e1)\<close> d 3 4 5 6 7 8
    by (simp add: Rdma_CloseResources_def CloseCm_def)
  have h1: "holds L t1 e1 \<and> t1 = t\<lparr>rd_qp := 0\<rparr>"
    by (rule holds_release [OF assms(1) 1 rdma_owned_clear(8) rdma_owned_part(8) clear_same(8)]) (auto simp: holds_def)
  have "holds L t1 e2" using h1 drain_live [OF d] by (auto simp: holds_def)
  hence h3: "holds L t3 e3 \<and> t3 = t1\<lparr>rd_mr := 0\<rparr>"
    by (rule holds_release [OF _ 3 rdma_owned_clear(5) rdma_owned_part(5) clear_same(5)]) (use h1 in \<open>auto simp: holds_def\<close>)
  hence h4: "holds L t4 e4 \<and> t4 = t3\<lparr>rd_cq := 0\<rparr>"
    by (intro holds_release [OF _ 4 rdma_owned_clear(7) rdma_owned_part(7) clear_same(7)]) (use h1 in \<open>auto simp: holds_def\<close>)
  hence h5: "holds L t5 e5 \<and> t5 = t4\<lparr>rd_comp_channel := 0\<rparr>"
    by (intro holds_release [OF _ 5 rdma_owned_clear(6) rdma_owned_part(6) clear_same(6)]) (use h1 h3 in \<open>auto simp: holds_def\<close>)
  hence h6: "holds L t6 e6 \<and> t6 = t5\<lparr>rd_pd := 0\<rparr>"
    by (intro holds_release [OF _ 6 rdma_owned_clear(3) rdma_owned_part(3) clear_same(3)]) (use h1 h3 h4 in \<open>auto simp: holds_def\<close>)
  hence h7: "holds L t7 e7 \<and> t7 = t6\<lparr>rd_cm_id := 0\<rparr>"
    by (intro holds_release [OF _ 7 rdma_owned_clear(2) rdma_owned_part(2) clear_same(2)]) (use h1 h3 h4 h5 in \<open>auto simp: holds_def\<close>)
  hence h8: "holds L t8 e8 \<and> t8 = t7\<lparr>rd_cm_channel := 0\<rparr>"
    by (intro holds_release [OF _ 8 rdma_owned_clear(1) rdma_owned_part(1) clear_same(1)]) (use h1 h3 h4 h5 h6 in \<open>auto simp: holds_def\<close>)
  hence h9: "holds L t' e' \<and> t' = t8\<lparr>rd_buffer := 0\<rparr>"
    by (intro holds_release [OF _ 9 rdma_owned_clear(4) rdma_owned_part(4) clear_same(4)]) (use h1 h3 h4 h5 h6 h7 in \<open>auto simp: holds_def\<close>)
  show zero: "\<forall>h \<in> set (handles t'). h = 0" using h1 h3 h4 h5 h6 h7 h8 h9 by (simp add: handles_def)
  hence "rdma_owned t' = {}" by (simp add: handles_def rdma_owned_def)
  thus "live e' = L" using h9 by (simp add: holds_def)
qed

lemma Accept_leaks:
  assumes "rd_cm_id t \<noteq> 0" and "AwaitEvent cm vb (rd_cm_channel t) ConnectRequest e = Some (Some ev, e1)"
    and "cm_acquire cm NewEventChannel (cm_ack cm ev e1) = (0, e2)"
  shows "Rdma_Accept cm vb setup prepare finalize (Rdma_CloseResources cm vb) TransportRDMA_default t e = Some (None, e2) \<and>
    CmId (ev_id ev) \<in> live e2"
proof -
  have "OpenChannel cm (TransportRDMA_default, cm_ack cm ev e1) = Some (False, TransportRDMA_default, e2)"
    using assms(3) by (simp add: OpenChannel_def acquire_into_def TransportRDMA_default_def)
  moreover have "Rdma_Close (Rdma_CloseResources cm vb) (TransportRDMA_default, e2) = Some (TransportRDMA_default, e2)"
    by (simp add: Rdma_Close_def Rdma_CloseResources_def CloseCm_def release_field_def DrainCompletionEvents_def TransportRDMA_default_def)
  ultimately have "Rdma_Accept cm vb setup prepare finalize (Rdma_CloseResources cm vb) TransportRDMA_default t e = Some (None, e2)"
    using assms(1,2) by (simp add: Rdma_Accept_def Rdma_Adopt_def)
  moreover have "CmId (ev_id ev) \<in> live e1" using AwaitEvent_live(2) [OF assms(2), of ev] by simp
  hence "CmId (ev_id ev) \<in> live e2" using acquire_law [OF assms(3)] by (simp add: ack_law)
  ultimately show ?thesis by blast
qed

end

context rdma_client
begin

lemma Connect_Close:
  fixes prepare :: "TransportRDMA \<Rightarrow> Wire \<Rightarrow> Wire"
  assumes "Rdma_Connect cm vb (Rdma_SetupResources cm vb) prepare Rdma_FinalizeConnection addr port (TransportRDMA_default, e) = Some (ok, t, e1)"
    and "Rdma_Close (Rdma_CloseResources cm vb) (t, e1) = Some (t', e2)"
  shows "live e2 = live e \<and> Rdma_GetFd t' = -1 \<and> \<not> rd_connected t'"
proof -
  have "holds (live e) TransportRDMA_default e" by (simp add: holds_def rdma_owned_def TransportRDMA_default_def)
  hence h: "holds (live e) t e1" using acts_Connect [unfolded acts_def, rule_format, OF assms(1)]
    by (simp add: handles_def TransportRDMA_default_def)
  obtain t2 where c: "Rdma_CloseResources cm vb (t, e1) = Some (t2, e2)" and t': "rd_comp_channel t' = rd_comp_channel t2"
      "rd_cm_channel t' = rd_cm_channel t2" "\<not> rd_connected t'"
    using assms(2) by (auto simp: Rdma_Close_def split: option.splits)
  show ?thesis using close_releases [OF h c] t' by (simp add: handles_def Rdma_GetFd_def)
qed

end

subsection \<open>A library\<close>

text \<open>A library with a budget of objects and a list of events; without \<open>requests\<close> its channels have no listener.\<close>

record rlib =
  rl_live :: "rdma_resource list"
  rl_next :: nat
  rl_budget :: nat
  rl_events :: "cm_event list"

definition rl_make :: "(nat \<Rightarrow> rdma_resource) \<Rightarrow> rlib \<Rightarrow> nat \<times> rlib" where
  "rl_make con e =
     (if rl_budget e = 0 \<or> con (rl_next e) \<in> set (rl_live e) then (0, e)
      else (rl_next e, if rl_next e = 0 then e else e\<lparr>rl_live := con (rl_next e) # rl_live e, rl_next := rl_next e + 1, rl_budget := rl_budget e - 1\<rparr>))"

definition rl_event :: "bool \<Rightarrow> rlib \<Rightarrow> cm_read \<times> rlib" where
  "rl_event requests e =
     (case rl_events e of
        [] \<Rightarrow> (CmFailed, e)
      | ev # evs \<Rightarrow>
          if ev_type ev \<noteq> ConnectRequest then (CmEvent ev, e\<lparr>rl_events := evs\<rparr>)
          else if requests then (CmEvent ev, e\<lparr>rl_events := evs, rl_live := CmId (ev_id ev) # rl_live e\<rparr>)
          else (CmFailed, e))"

definition rl_cm :: "bool \<Rightarrow> rlib rdma_cm" where
  "rl_cm requests = \<lparr>cm_acquire = (\<lambda>rq. rl_make (made rq)),
     cm_create_qp = (\<lambda>i p c d n e. case rl_make QueuePair e of (q, e') \<Rightarrow> ((q, n), e')),
     cm_release = (\<lambda>x e. e\<lparr>rl_live := removeAll x (rl_live e)\<rparr>), cm_do = (\<lambda>cmd e. (True, e)),
     cm_get_event = (\<lambda>ch. rl_event requests), cm_ack = (\<lambda>ev e. e), cm_pton = (\<lambda>addr. Some 0x0A000001),
     cm_local = (\<lambda>i e. (0x0A000001, 7471)), cm_peer = (\<lambda>i e. (0x0A000002, 7471)), cm_rkey = (\<lambda>mr. word_of_nat mr)\<rparr>"

definition rl_verbs :: "rlib verbs" where
  "rl_verbs = \<lparr>vb_load = (\<lambda>a n e. replicate n 0), vb_store = (\<lambda>a bs e. e), vb_qp_num = (\<lambda>q. q), vb_post_recv = (\<lambda>q ws e. (True, e)),
     vb_post_send = (\<lambda>q ws e. (True, e)), vb_poll_cq = (\<lambda>k e. (Some [], e)), vb_readable = (\<lambda>fd ms e. (False, e)),
     vb_get_event = (\<lambda>e. (True, e)), vb_req_notify = (\<lambda>e. (True, e))\<rparr>"

interpretation rl_server: rdma_library "rl_cm True" rl_verbs "\<lambda>e. set (rl_live e)"
  by unfold_locales (auto simp: rl_cm_def rl_verbs_def rl_make_def rl_event_def split: if_splits prod.splits list.splits)

interpretation rl_client: rdma_client "rl_cm False" rl_verbs "\<lambda>e. set (rl_live e)"
  by unfold_locales (auto simp: rl_cm_def rl_verbs_def rl_make_def rl_event_def split: if_splits prod.splits list.splits)

text \<open>
  The accepting side: when the event channel of the peer cannot be created, \<open>Adopt\<close> fails before it has stored the
  connection, and the accepted connection stays alive with no owner.
\<close>

lemma Accept_leaks_connection:
  assumes "rdma_library cm vb live" and "rd_cm_id t \<noteq> 0" and "AwaitEvent cm vb (rd_cm_channel t) ConnectRequest e = Some (Some ev, e1)"
    and "cm_acquire cm NewEventChannel (cm_ack cm ev e1) = (0, e2)"
  shows "Rdma_Accept cm vb setup prepare finalize (Rdma_CloseResources cm vb) TransportRDMA_default t e = Some (None, e2) \<and>
    CmId (ev_id ev) \<in> live e2"
  by (rule rdma_library.Accept_leaks [OF assms])

text \<open>
  C11. A connection leaves nothing behind. Whatever fails in \<open>Connect\<close> (the address, an event, the creation of any object of
  \<open>SetupResources\<close>, the receives of the pool) or if nothing does, after \<open>Close\<close> exactly the objects are alive that were
  before: each one that was created is destroyed, and nothing that belongs to others is.
\<close>

theorem rdma_no_leak:
  assumes "rdma_client cm vb live"
    and "Rdma_Connect cm vb (Rdma_SetupResources cm vb) (\<lambda>t. Rdma_PrepareWire) Rdma_FinalizeConnection addr port (TransportRDMA_default, e) =
      Some (ok, t, e1)"
    and "Rdma_Close (Rdma_CloseResources cm vb) (t, e1) = Some (t', e2)"
  shows "live e2 = live e \<and> Rdma_GetFd t' = -1 \<and> \<not> rd_connected t'"
  by (rule rdma_client.Connect_Close [OF assms])

definition rdma_demo_events :: "cm_event list" where
  "rdma_demo_events = map (\<lambda>ty. \<lparr>ev_type = ty, ev_id = 9, ev_data = \<lparr>wi_base_addr = 0, wi_rkey = 0, wi_tail = replicate 24 0\<rparr>\<rparr>)
     [AddrResolved, RouteResolved, Established]"

definition demo_lib :: rlib where
  "demo_lib = \<lparr>rl_live = [CmId 100], rl_next = 1, rl_budget = 4, rl_events = rdma_demo_events\<rparr>"

lemma demo_connect_fails:
  "\<exists>t e1 t' e2. Rdma_Connect (rl_cm False) rl_verbs (Rdma_SetupResources (rl_cm False) rl_verbs) (\<lambda>t. Rdma_PrepareWire) Rdma_FinalizeConnection [] 1
     (TransportRDMA_default, demo_lib) = Some (False, t, e1) \<and> length (rl_live e1) = 5 \<and>
     Rdma_Close (Rdma_CloseResources (rl_cm False) rl_verbs) (t, e1) = Some (t', e2)"
  by (simp add: Rdma_Connect_def Rdma_SetupResources_def OpenChannel_def create_id_def acquire_into_def guard_def command_def await_def update_def
      zero_buffer_def AwaitEvent.simps rl_cm_def rl_verbs_def rl_make_def rl_event_def demo_lib_def rdma_demo_events_def TransportRDMA_default_def
      Rdma_Close_def Rdma_CloseResources_def CloseCm_def release_field_def DrainCompletionEvents_def Let_def)

lemma rdma_no_leak_witness:
  "\<exists>t e1 t' e2. Rdma_Connect (rl_cm False) rl_verbs (Rdma_SetupResources (rl_cm False) rl_verbs) (\<lambda>t. Rdma_PrepareWire) Rdma_FinalizeConnection [] 1
     (TransportRDMA_default, demo_lib) = Some (False, t, e1) \<and> length (rl_live e1) = 5 \<and>
     Rdma_Close (Rdma_CloseResources (rl_cm False) rl_verbs) (t, e1) = Some (t', e2) \<and> set (rl_live e2) = {CmId 100}"
proof -
  have "set (rl_live demo_lib) = {CmId 100}" by (simp add: demo_lib_def)
  thus ?thesis using demo_connect_fails rdma_no_leak [OF rl_client.rdma_client_axioms] by metis
qed

end
