(* ===== verification/Occl_Rdma_Zc_Correct.thy ===== *)
theory Occl_Rdma_Zc_Correct
  imports Occl_Rdma_Zc Occl_Rdma_Resources
begin

section \<open>The zero-copy transport: chunks and windows\<close>

text \<open>
  The chunks of a message tile its buffer, and a sequence of calls of \<open>TrySend\<close> posts each of them once, in order, with
  at most eight that are not completed. Closing does not destroy the queue pair of the second connection.
\<close>

subsection \<open>Chunks\<close>

definition wr_addresses :: "send_wr \<Rightarrow> nat list" where
  "wr_addresses w = (case sw_data w of UserRange a n \<Rightarrow> [a..<a + n] | _ \<Rightarrow> [])"

lemma zc_chunks_cover: "0 < c \<Longrightarrow> n \<le> zc_chunks n c * c"
  unfolding zc_chunks_def using dividend_less_div_times [of c "n + c - 1"] by linarith

lemma zc_chunks_tight:
  assumes "0 < c" and "k < zc_chunks n c"
  shows "k * c < n"
proof -
  have "(k + 1) * c \<le> ((n + c - 1) div c) * c" using assms(2) by (intro mult_le_mono1) (simp add: zc_chunks_def)
  also have "\<dots> \<le> n + c - 1" by (rule div_times_less_eq_dividend)
  finally show ?thesis using assms(1) by simp
qed

lemma zc_chunks_bound:
  assumes "0 < c"
  shows "zc_chunks n c \<le> n"
proof (cases "zc_chunks n c")
  case (Suc k)
  hence "k * c < n" using zc_chunks_tight [OF assms, of k n] by simp
  moreover have "k \<le> k * c" using assms by simp
  ultimately show ?thesis using Suc by linarith
qed simp

lemma tiles:
  assumes "0 < c" and "k \<le> zc_chunks n c"
  shows "concat (map (\<lambda>i. [a + i * c..<a + i * c + min c (n - i * c)]) [0..<k]) = [a..<a + min n (k * c)]"
  using assms(2)
proof (induction k)
  case (Suc k)
  have less: "k * c < n" using zc_chunks_tight [OF assms(1)] Suc.prems by simp
  hence "concat (map (\<lambda>i. [a + i * c..<a + i * c + min c (n - i * c)]) [0..<k]) = [a..<a + k * c]"
    using Suc by (simp add: min.absorb2)
  moreover have "a + k * c + min c (n - k * c) = a + min n (Suc k * c)" using less by (cases "c \<le> n - k * c") (auto simp: min_def not_le)
  moreover have "[a..<a + k * c] @ [a + k * c..<a + k * c + min c (n - k * c)] = [a..<a + k * c + min c (n - k * c)]"
    by (rule upt_add_eq_append [symmetric]) simp
  ultimately have "[a..<a + k * c] @ [a + k * c..<a + k * c + min c (n - k * c)] = [a..<a + min n (Suc k * c)]"
    and "concat (map (\<lambda>i. [a + i * c..<a + i * c + min c (n - i * c)]) [0..<k]) = [a..<a + k * c]" by metis+
  thus ?case by (simp only: upt_Suc_append [OF le0] map_append concat_append list.map concat.simps append_Nil2)
qed simp

lemma zc_count_le:
  assumes "completed \<le> posted" and "posted \<le> whole" and "posted \<le> completed + kRdmaZcWindow" and "whole < 2 ^ 64"
  shows "zc_count whole posted completed = min (kRdmaZcWindow - (posted - completed)) (whole - posted)"
proof -
  have "size_diff posted completed = posted - completed" "size_diff whole posted = whole - posted"
    using assms by (simp_all add: size_diff_le)
  moreover have "size_diff kRdmaZcWindow (posted - completed) = kRdmaZcWindow - (posted - completed)"
    using assms(3) by (intro size_diff_le) (simp_all add: kRdmaZcWindow_def)
  ultimately show ?thesis by (simp add: zc_count_def)
qed

subsection \<open>Posting\<close>

text \<open>What the proofs use of the library: a successful post appends to the requests of the queue pair, nothing else does.\<close>

locale zc_posting =
  fixes cm :: "'e rdma_cm" and vb :: "'e verbs" and posted :: "'e \<Rightarrow> send_wr list" and qp :: nat
  assumes post_law: "vb_post_send vb qp ws e = (True, e') \<Longrightarrow> posted e' = posted e @ ws"
    and quiet_law: "posted (snd (vb_post_recv vb q rs e)) = posted e" "posted (snd (vb_poll_cq vb k e)) = posted e"
      "posted (snd (vb_readable vb fd ms e)) = posted e" "posted (snd (vb_get_event vb e)) = posted e" "posted (snd (vb_req_notify vb e)) = posted e"
      "posted (snd (cm_acquire cm rq e)) = posted e" "posted (cm_release cm x e) = posted e"

inductive zc_calls :: "'e rdma_cm \<Rightarrow> 'e verbs \<Rightarrow> nat \<Rightarrow> byte list \<Rightarrow> TransportRDMAZc \<Rightarrow> 'e \<Rightarrow> TransportRDMAZc \<Rightarrow> 'e \<Rightarrow> bool" for cm vb addr data where
  none: "zc_calls cm vb addr data z e z e"
| call: "zc_calls cm vb addr data z e z1 e1 \<Longrightarrow> Zc_TrySend cm vb addr data p z1 e1 = Some (Some (p', False, z2, e2)) \<Longrightarrow>
    zc_calls cm vb addr data z e z2 e2"

definition zc_idle :: "TransportRDMAZc \<Rightarrow> bool" where
  "zc_idle z \<longleftrightarrow> \<not> zc_send_active z \<and> zc_send_posted z = 0 \<and> zc_send_completed z = 0"

context zc_posting
begin

definition zc_progress :: "nat \<Rightarrow> nat \<Rightarrow> nat \<Rightarrow> send_wr list \<Rightarrow> TransportRDMAZc \<Rightarrow> send_wr list \<Rightarrow> bool" where
  "zc_progress addr n c before z ps \<longleftrightarrow>
     zc_send_data z = addr \<and> zc_size z = n \<and> zc_total z = zc_chunks n c \<and>
     zc_send_completed z \<le> zc_send_posted z \<and> zc_send_posted z \<le> zc_total z \<and> zc_send_posted z \<le> zc_send_completed z + kRdmaZcWindow \<and>
     (\<exists>new. ps = before @ new \<and>
        map (\<lambda>w. (sw_id w, sw_data w)) new = map (\<lambda>i. (i + 1, UserRange (addr + i * c) (min c (n - i * c)))) [0..<zc_send_posted z])"

definition zc_sending :: "nat \<Rightarrow> nat \<Rightarrow> nat \<Rightarrow> send_wr list \<Rightarrow> TransportRDMAZc \<Rightarrow> 'e \<Rightarrow> bool" where
  "zc_sending addr n c before z e \<longleftrightarrow> zc_qp z = qp \<and> zc_chunk z = c \<and> zc_threshold z \<le> n \<and>
     (if zc_send_active z then zc_progress addr n c before z (posted e)
      else zc_send_posted z = 0 \<and> zc_send_completed z = 0 \<and> posted e = before)"

lemma zc_sending_env: "posted e' = posted e \<Longrightarrow> zc_sending addr n c before z e \<Longrightarrow> zc_sending addr n c before z e'"
  by (simp add: zc_sending_def)

lemma zc_sending_more:
  assumes "TransportRDMA.more z' = TransportRDMA.more z" and "posted e' = posted e" and "zc_sending addr n c before z e"
  shows "zc_sending addr n c before z' e'"
proof -
  have eqs: "zc_threshold z' = zc_threshold z" "zc_qp z' = zc_qp z" "zc_chunk z' = zc_chunk z" "zc_send_active z' = zc_send_active z" "zc_send_data z' = zc_send_data z"
    "zc_size z' = zc_size z" "zc_total z' = zc_total z" "zc_send_completed z' = zc_send_completed z" "zc_send_posted z' = zc_send_posted z"
    using assms(1) by (cases z, cases z', simp)+
  hence "zc_progress addr n c before z' ps = zc_progress addr n c before z ps" for ps by (simp add: zc_progress_def)
  thus ?thesis using zc_sending_env [OF assms(2,3)] eqs by (simp add: zc_sending_def)
qed

lemma zc_sending_poll: "vb_poll_cq vb k e = (Some wcs, e') \<Longrightarrow> zc_sending addr n c before z e \<Longrightarrow> zc_sending addr n c before z e'"
  using quiet_law(2) [of k e] by (intro zc_sending_env [of e' e]) simp_all

lemma base_handle_more:
  assumes "HandleCompletion vb wc z e = Some (z', e')"
  shows "TransportRDMA.more z' = TransportRDMA.more z \<and> posted e' = posted e"
proof -
  have post: "posted e2 = posted e" if "PostPoolRecv vb t i e = (b, e2)" for t :: "'z TransportRDMA_scheme" and i b e2
    using that quiet_law(1) [of "rd_qp t" "[\<lparr>rw_id = i, rw_data = Staged (ScratchData i) kRdmaControlSize\<rparr>]" e] by (simp add: PostPoolRecv_def)
  show ?thesis
    using assms
    by (auto simp: HandleCompletion_def Let_def post split: if_splits wc_opcode.splits prod.splits bool.splits)
qed

lemma zc_sending_handle:
  assumes "Zc_HandleCompletion vb wc z e = Some (z', e')" and "zc_sending addr n c before z e"
  shows "zc_sending addr n c before z' e'"
proof -
  have base: "zc_sending addr n c before z' e'" if "HandleCompletion vb wc z e = Some (z', e')"
    using base_handle_more [OF that] assms(2) zc_sending_more by blast
  show ?thesis
  proof (cases "wc_success wc \<and> zc_qp z \<noteq> 0 \<and> wc_qp_num wc = vb_qp_num vb (zc_qp z)")
    case True
    show ?thesis
    proof (cases "wc_opcode wc = WcSend \<and> zc_send_active z \<and> 1 \<le> wc_id wc \<and> wc_id wc \<le> zc_send_posted z")
      case sent: True
      hence z': "z' = z\<lparr>zc_send_completed := max (zc_send_completed z) (wc_id wc)\<rparr>" "e' = e"
        using assms(1) True by (simp_all add: Zc_HandleCompletion_def)
      have "zc_progress addr n c before z (posted e)" "zc_qp z = qp" "zc_chunk z = c" using assms(2) sent by (simp_all add: zc_sending_def)
      hence "zc_progress addr n c before z' (posted e)" using sent z' by (auto simp: zc_progress_def)
      thus ?thesis using assms(2) z' sent by (simp add: zc_sending_def)
    next
      case other: False
      show ?thesis
      proof (cases "wc_opcode wc = WcRecv")
        case True
        hence z': "z' = z\<lparr>zc_recv_completed := zc_recv_completed z + 1\<rparr>" "e' = e"
          using assms(1) \<open>wc_success wc \<and> _\<close> by (simp_all add: Zc_HandleCompletion_def)
        have "zc_progress addr n c before z' ps = zc_progress addr n c before z ps" for ps using z' by (simp add: zc_progress_def)
        thus ?thesis using assms(2) z' by (simp add: zc_sending_def)
      next
        case False
        have "HandleCompletion vb wc z e = Some (z', e')"
          using assms(1) True False other unfolding Zc_HandleCompletion_def by (simp only: if_True if_False if_cancel simp_thms)
        thus ?thesis by (rule base)
      qed
    qed
  next
    case False
    have "HandleCompletion vb wc z e = Some (z', e')"
      using assms(1) False unfolding Zc_HandleCompletion_def by (simp only: if_False)
    thus ?thesis by (rule base)
  qed
qed

lemma zc_sending_process:
  assumes "ProcessCompletions vb (Zc_HandleCompletion vb) z e = Some (Some (z', e'))" and "zc_sending addr n c before z e"
  shows "zc_sending addr n c before z' e'"
proof (rule ProcessCompletions_preserves [of vb _ z e z' e' "\<lambda>z e wcs. zc_sending addr n c before z e", OF assms])
  show "zc_sending addr n c before t e'" if "vb_poll_cq vb 16 e = (Some wcs, e')" "zc_sending addr n c before t e" for t e wcs e'
    using that by (rule zc_sending_poll)
  show "zc_sending addr n c before t' e'" if "Zc_HandleCompletion vb wc t e = Some (t', e')" "zc_sending addr n c before t e" for wc t e rest t' e'
    using that by (rule zc_sending_handle)
qed (simp_all add: zc_sending_def quiet_law)

lemma zc_sending_begin:
  assumes "begin_send cm addr n (z, e) = Some (True, z', e')" and "zc_sending addr n c before z e"
  shows "zc_sending addr n c before z' e' \<and> zc_send_active z'"
proof (cases "zc_send_active z")
  case True
  thus ?thesis using assms by (simp add: begin_send_def)
next
  case False
  then obtain z1 where a: "AcquireZcMr cm addr n True (z, e) = Some (True, z1, e')"
    and z': "z' = z1\<lparr>zc_send_data := addr, zc_size := n, zc_total := zc_chunks n (zc_chunk z1), zc_send_active := True\<rparr>"
    using assms(1) by (auto simp: begin_send_def BeginZcSend_def split: option.splits if_splits)
  have fields: "zc_threshold z1 = zc_threshold z \<and> zc_qp z1 = zc_qp z \<and> zc_chunk z1 = zc_chunk z \<and> zc_send_posted z1 = zc_send_posted z \<and> zc_send_completed z1 = zc_send_completed z"
    using a by (auto simp: AcquireZcMr_def DropZcMr_def release_field_def split: if_splits prod.splits)
  have same: "posted e' = posted e"
  proof -
    have "posted (snd (DropZcMr cm (z, e))) = posted e" by (simp add: DropZcMr_def release_field_def quiet_law)
    moreover have "e' = e \<or> (\<exists>rq. e' = snd (cm_acquire cm rq (snd (DropZcMr cm (z, e)))))"
      using a by (auto simp: AcquireZcMr_def split: if_splits prod.splits) (metis snd_conv)+
    ultimately show ?thesis using quiet_law(6) by metis
  qed
  have "zc_progress addr n c before z' (posted e')" using assms(2) False fields same by (simp add: zc_sending_def zc_progress_def z')
  thus ?thesis using assms(2) False fields same by (simp add: zc_sending_def z')
qed

lemma zc_sending_post:
  assumes "post_sends vb z e = Some (z', e')" and s: "zc_sending addr n c before z e" and a: "zc_send_active z" and c: "0 < c" and n: "n < 2 ^ 64"
  shows "zc_sending addr n c before z' e' \<and> zc_send_active z' \<and> zc_send_completed z' = zc_send_completed z"
proof -
  let ?p = "zc_send_posted z" and ?req = "\<lambda>i. (i + 1, UserRange (addr + i * c) (min c (n - i * c)))"
  let ?k = "zc_count (zc_total z) ?p (zc_send_completed z)"
  have pr: "zc_progress addr n c before z (posted e)" and qp: "zc_qp z = qp" "zc_chunk z = c" using s a by (simp_all add: zc_sending_def)
  have whole: "zc_total z = zc_chunks n c" "zc_total z \<le> n" using pr zc_chunks_bound [OF c, of n] by (simp_all add: zc_progress_def)
  have k: "?k = min (kRdmaZcWindow - (?p - zc_send_completed z)) (zc_total z - ?p)"
    using pr whole n by (intro zc_count_le) (simp_all add: zc_progress_def)
  show ?thesis
  proof (cases "?k = 0")
    case True
    thus ?thesis using assms(1) s a by (simp add: post_sends_def Let_def)
  next
    case False
    let ?ws = "map (\<lambda>i. zc_send_request z (?p + i) (i + 1 = ?k)) [0..<?k]"
    have post: "vb_post_send vb qp ?ws e = (True, e')" and z': "z' = z\<lparr>zc_send_posted := ?p + ?k\<rparr>"
      using assms(1) False qp by (auto simp: post_sends_def PostZcSends_def Let_def split: prod.splits if_splits)
    obtain new where new: "posted e = before @ new" "map (\<lambda>w. (sw_id w, sw_data w)) new = map ?req [0..<?p]"
      using pr by (auto simp: zc_progress_def)
    have len: "ZcChunkLength z i = min c (n - i * c)" if "i < zc_total z" for i
    proof -
      have "i * c < n" using zc_chunks_tight [OF c] that whole by simp
      thus ?thesis using pr qp n by (simp add: ZcChunkLength_def size_diff_le zc_progress_def)
    qed
    have "?p + i < zc_total z" if "i < ?k" for i using that unfolding k by simp linarith
    hence "map (\<lambda>w. (sw_id w, sw_data w)) ?ws = map (\<lambda>i. ?req (?p + i)) [0..<?k]"
      using len pr qp by (auto simp: zc_send_request_def zc_progress_def)
    also have "\<dots> = map ?req [?p..<?p + ?k]"
      by (rule nth_equalityI) simp_all
    finally have "map (\<lambda>w. (sw_id w, sw_data w)) (new @ ?ws) = map ?req [0..<?p + ?k]"
      using new(2) by (simp only: map_append upt_add_eq_append [OF le0])
    moreover have "posted e' = before @ (new @ ?ws)" using post_law [OF post] new(1) by simp
    moreover have "?p + ?k \<le> zc_total z" "?p + ?k \<le> zc_send_completed z + kRdmaZcWindow"
      using k pr by (auto simp: zc_progress_def)
    ultimately have "zc_progress addr n c before z' (posted e')"
      unfolding zc_progress_def z' using pr by (auto simp: zc_progress_def simp del: map_append intro!: exI [of _ "new @ ?ws"])
    thus ?thesis using s a qp by (simp add: zc_sending_def z')
  qed
qed

lemma zc_sending_call:
  assumes run: "Zc_TrySend cm vb addr data p z e = Some (Some (p', fin, z', e'))" and s: "zc_sending addr (length data) c before z e" and "0 < c"
  shows "\<not> fin \<Longrightarrow> zc_sending addr (length data) c before z' e'"
    and "fin \<Longrightarrow> p' = length data \<and> zc_idle z' \<and>
      (\<exists>new. posted e' = before @ new \<and> map (\<lambda>w. (sw_id w, sw_data w)) new =
         map (\<lambda>i. (i + 1, UserRange (addr + i * c) (min c (length data - i * c)))) [0..<zc_chunks (length data) c])"
proof -
  let ?n = "length data"
  have big: "\<not> ?n < zc_threshold z" using s by (simp add: zc_sending_def)
  hence small: "?n < 2 ^ 64" using run by (auto simp: Zc_TrySend_def IsTransferSizeSupported_def kRdmaZcMaxTransferSize_def split: if_splits)
  obtain z1 e1 z2 e2 z3 where proc: "ProcessCompletions vb (Zc_HandleCompletion vb) z e = Some (Some (z1, e1))"
    and begun: "begin_send cm addr ?n (z1, e1) = Some (True, z2, e2)" and post: "post_sends vb z2 e2 = Some (z3, e')"
    and res: "fin \<longleftrightarrow> zc_send_completed z3 = zc_total z3" "z' = (if fin then ReleaseZc z3 else z3)" "p' = (if fin then ?n else 0)"
    using run big by (auto simp: Zc_TrySend_def Let_def split: if_splits option.splits prod.splits)
  have s3: "zc_sending addr ?n c before z3 e' \<and> zc_send_active z3"
    using zc_sending_post [OF post] zc_sending_begin [OF begun zc_sending_process [OF proc s]] assms(3) small by blast
  show "zc_sending addr ?n c before z' e'" if "\<not> fin" using that s3 res by simp
  show "p' = ?n \<and> zc_idle z' \<and> (\<exists>new. posted e' = before @ new \<and> map (\<lambda>w. (sw_id w, sw_data w)) new =
      map (\<lambda>i. (i + 1, UserRange (addr + i * c) (min c (?n - i * c)))) [0..<zc_chunks ?n c])" if fin
  proof -
    have "zc_progress addr ?n c before z3 (posted e')" using s3 by (simp add: zc_sending_def)
    moreover from this have "zc_send_posted z3 = zc_chunks ?n c" using res(1) that by (auto simp: zc_progress_def)
    ultimately show ?thesis using res that by (auto simp: zc_progress_def zc_idle_def ReleaseZc_def)
  qed
qed

lemma calls_zc_sending:
  "zc_calls cm vb addr data z e z' e' \<Longrightarrow> zc_sending addr (length data) c before z e \<Longrightarrow> 0 < c \<Longrightarrow> zc_sending addr (length data) c before z' e'"
proof (induction rule: zc_calls.induct)
  case (call z e z1 e1 p p' z2 e2)
  thus ?case using zc_sending_call(1) by blast
qed

lemma addresses_of:
  assumes "map (\<lambda>w. (sw_id w, sw_data w)) new = map (\<lambda>i. (i + 1, UserRange (addr + i * c) (min c (n - i * c)))) [0..<k]"
    and "0 < c" and "k \<le> zc_chunks n c"
  shows "concat (map wr_addresses new) = [addr..<addr + min n (k * c)]"
proof -
  have "map wr_addresses new = map (\<lambda>(i, d). case d of UserRange a m \<Rightarrow> [a..<a + m] | _ \<Rightarrow> []) (map (\<lambda>w. (sw_id w, sw_data w)) new)"
    by (simp add: wr_addresses_def)
  also have "\<dots> = map (\<lambda>i. [addr + i * c..<addr + i * c + min c (n - i * c)]) [0..<k]" unfolding assms(1) by simp
  finally show ?thesis using tiles [OF assms(2,3), of addr] by simp
qed

end

text \<open>
  C12. A zero-copy send covers the buffer. Over any number of calls of \<open>TrySend\<close> with one buffer, the requests posted on the
  second queue pair are the chunks of the buffer in order, each once: their address ranges joined are an initial part of
  the buffer, and all of it when a call reports that the message is done; in between at most eight chunks are posted
  and not completed.
\<close>

theorem zc_send_covers:
  assumes "zc_posting cm vb posted qp" and "zc_idle z0" and "zc_qp z0 = qp" and "0 < zc_chunk z0" and "zc_threshold z0 \<le> length data"
    and "zc_calls cm vb addr data z0 e0 z e" and "Zc_TrySend cm vb addr data p z e = Some (Some (p', fin, z', e'))"
  shows "\<exists>new k. posted e' = posted e0 @ new \<and> concat (map wr_addresses new) = [addr..<addr + k] \<and>
    (if fin then k = length data \<and> p' = length data \<and> zc_idle z'
     else k \<le> length data \<and> zc_send_posted z' \<le> zc_send_completed z' + kRdmaZcWindow)"
proof -
  let ?n = "length data" and ?c = "zc_chunk z0"
  have s: "zc_posting.zc_sending posted qp addr ?n ?c (posted e0) z0 e0"
    using assms(2-5) by (simp add: zc_posting.zc_sending_def [OF assms(1)] zc_idle_def)
  note s1 = zc_posting.calls_zc_sending [OF assms(1,6) s assms(4)]
  show ?thesis
  proof (cases fin)
    case True
    with zc_posting.zc_sending_call(2) [OF assms(1,7) s1 assms(4)] obtain new where new: "p' = ?n" "zc_idle z'" "posted e' = posted e0 @ new"
        "map (\<lambda>w. (sw_id w, sw_data w)) new = map (\<lambda>i. (i + 1, UserRange (addr + i * ?c) (min ?c (?n - i * ?c)))) [0..<zc_chunks ?n ?c]" by blast
    moreover have "min ?n (zc_chunks ?n ?c * ?c) = ?n" using zc_chunks_cover [OF assms(4)] by simp
    ultimately show ?thesis using zc_posting.addresses_of [OF assms(1) new(4) assms(4) order_refl] True by auto
  next
    case False
    hence s2: "zc_posting.zc_sending posted qp addr ?n ?c (posted e0) z' e'"
      using zc_posting.zc_sending_call(1) [OF assms(1,7) s1 assms(4)] by blast
    show ?thesis
    proof (cases "zc_send_active z'")
      case True
      hence pr: "zc_posting.zc_progress addr ?n ?c (posted e0) z' (posted e')" using s2 by (simp add: zc_posting.zc_sending_def [OF assms(1)])
      then obtain new where "posted e' = posted e0 @ new"
          "map (\<lambda>w. (sw_id w, sw_data w)) new = map (\<lambda>i. (i + 1, UserRange (addr + i * ?c) (min ?c (?n - i * ?c)))) [0..<zc_send_posted z']"
          "zc_send_posted z' \<le> zc_chunks ?n ?c" "zc_send_posted z' \<le> zc_send_completed z' + kRdmaZcWindow"
        by (auto simp: zc_posting.zc_progress_def [OF assms(1)])
      thus ?thesis using zc_posting.addresses_of [OF assms(1) _ assms(4)] \<open>\<not> fin\<close> by (intro exI [of _ new] exI [of _ "min ?n (zc_send_posted z' * ?c)"]) simp
    next
      case False
      thus ?thesis using s2 \<open>\<not> fin\<close> by (intro exI [of _ "[]"] exI [of _ 0]) (simp add: zc_posting.zc_sending_def [OF assms(1)])
    qed
  qed
qed

subsection \<open>A transfer\<close>

text \<open>A queue pair that completes every post at once.\<close>

record zc_log =
  zl_posted :: "send_wr list"
  zl_cq :: "ibv_wc list"

definition zl_verbs :: "zc_log verbs" where
  "zl_verbs = \<lparr>vb_load = (\<lambda>a n e. replicate n 0), vb_store = (\<lambda>a bs e. e), vb_qp_num = (\<lambda>q. q), vb_post_recv = (\<lambda>q ws e. (True, e)),
     vb_post_send = (\<lambda>q ws e. (True, e\<lparr>zl_posted := zl_posted e @ ws, zl_cq := zl_cq e @
        [\<lparr>wc_success = True, wc_opcode = WcSend, wc_id = sw_id (last ws), wc_byte_len = 0, wc_imm = 0, wc_qp_num = q\<rparr>]\<rparr>)),
     vb_poll_cq = (\<lambda>k e. (Some (take k (zl_cq e)), e\<lparr>zl_cq := drop k (zl_cq e)\<rparr>)), vb_readable = (\<lambda>fd ms e. (False, e)),
     vb_get_event = (\<lambda>e. (True, e)), vb_req_notify = (\<lambda>e. (True, e))\<rparr>"

definition zl_cm :: "zc_log rdma_cm" where
  "zl_cm = \<lparr>cm_acquire = (\<lambda>rq e. (1, e)), cm_create_qp = (\<lambda>i p c d n e. ((1, n), e)), cm_release = (\<lambda>x e. e), cm_do = (\<lambda>cmd e. (True, e)),
     cm_get_event = (\<lambda>ch e. (CmFailed, e)), cm_ack = (\<lambda>ev e. e), cm_pton = (\<lambda>addr. None), cm_local = (\<lambda>i e. (0, 0)),
     cm_peer = (\<lambda>i e. (0, 0)), cm_rkey = (\<lambda>mr. 0)\<rparr>"

interpretation zl: zc_posting zl_cm zl_verbs zl_posted 1
  by unfold_locales (auto simp: zl_cm_def zl_verbs_def)

definition demo_zc :: TransportRDMAZc where
  "demo_zc = (TransportRDMAZc_new 0)\<lparr>rd_direction := DirSend, rd_connected := True, rd_wait_mode := Polling, zc_qp := 1, zc_chunk := 4\<rparr>"

definition demo_zc_active :: TransportRDMAZc where
  "demo_zc_active = demo_zc\<lparr>zc_mr := 1, zc_mr_buffer := 1000, zc_mr_size := 6, zc_mr_send := True, zc_send_data := 1000, zc_size := 6, zc_total := 2,
     zc_send_active := True, zc_send_posted := 2\<rparr>"

definition demo_chunks :: "send_wr list" where
  "demo_chunks = [zc_send_request demo_zc_active 0 False, zc_send_request demo_zc_active 1 True]"

definition demo_log :: "send_wr list \<Rightarrow> ibv_wc list \<Rightarrow> zc_log" where
  "demo_log ws cq = \<lparr>zl_posted = ws, zl_cq = cq\<rparr>"

definition demo_sent_wc :: ibv_wc where
  "demo_sent_wc = \<lparr>wc_success = True, wc_opcode = WcSend, wc_id = 2, wc_byte_len = 0, wc_imm = 0, wc_qp_num = 1\<rparr>"

lemmas demo_zc_defs = demo_zc_def demo_zc_active_def TransportRDMAZc_new_def TransportRDMA_default_def TransportRDMA.defs

lemma demo_zc_poll: "ProcessCompletions zl_verbs (Zc_HandleCompletion zl_verbs) demo_zc (demo_log [] []) = Some (Some (demo_zc, demo_log [] []))"
  by (subst ProcessCompletions_def, subst PollCompletionQueue.simps) (simp add: demo_zc_defs zl_verbs_def demo_log_def)

definition demo_data :: "byte list" where
  "demo_data = [1, 2, 3, 4, 5, 6]"

lemma demo_len: "length demo_data = 6"
  by (simp add: demo_data_def)

lemma demo_zc_first:
  "Zc_TrySend zl_cm zl_verbs 1000 demo_data 0 demo_zc (demo_log [] []) =
     Some (Some (0, False, demo_zc_active, demo_log demo_chunks [demo_sent_wc]))"
proof -
  let ?z = "demo_zc_active\<lparr>zc_send_posted := 0\<rparr>"
  have "begin_send zl_cm 1000 6 (demo_zc, demo_log [] []) = Some (True, ?z, demo_log [] [])"
    by (simp add: begin_send_def BeginZcSend_def AcquireZcMr_def DropZcMr_def release_field_def zl_cm_def zc_chunks_def demo_zc_defs)
  moreover have "zc_count 2 0 0 = 2" by (simp add: zc_count_le kRdmaZcWindow_def)
  hence "post_sends zl_verbs ?z (demo_log [] []) = Some (demo_zc_active, demo_log demo_chunks [demo_sent_wc])"
    by (simp add: post_sends_def PostZcSends_def zl_verbs_def demo_chunks_def demo_log_def demo_sent_wc_def zc_send_request_def ZcChunkLength_def
        Let_def upt_rec demo_zc_defs)
  ultimately show ?thesis
    by (simp add: Zc_TrySend_def demo_zc_poll IsTransferSizeSupported_def kRdmaZcMaxTransferSize_def Rdma_IsProducer_def Let_def demo_len)
      (simp add: demo_zc_defs)
qed

lemma demo_zc_second:
  "\<exists>z e. Zc_TrySend zl_cm zl_verbs 1000 demo_data 0 demo_zc_active (demo_log demo_chunks [demo_sent_wc]) = Some (Some (6, True, z, e)) \<and>
     zl_posted e = demo_chunks"
proof -
  let ?z = "demo_zc_active\<lparr>zc_send_completed := 2\<rparr>"
  have "PollCompletionQueue zl_verbs h ?z (demo_log demo_chunks []) = Some (Some (?z, demo_log demo_chunks []))" for h
    by (subst PollCompletionQueue.simps) (simp add: zl_verbs_def demo_log_def)
  moreover have "Zc_HandleCompletion zl_verbs demo_sent_wc demo_zc_active e = Some (?z, e)" for e
    by (simp add: Zc_HandleCompletion_def demo_sent_wc_def zl_verbs_def demo_zc_defs)
  ultimately have "PollCompletionQueue zl_verbs (Zc_HandleCompletion zl_verbs) demo_zc_active (demo_log demo_chunks [demo_sent_wc]) =
      Some (Some (?z, demo_log demo_chunks []))"
    by (subst PollCompletionQueue.simps) (simp add: zl_verbs_def demo_log_def)
  hence "ProcessCompletions zl_verbs (Zc_HandleCompletion zl_verbs) demo_zc_active (demo_log demo_chunks [demo_sent_wc]) =
      Some (Some (?z, demo_log demo_chunks []))"
    by (simp add: ProcessCompletions_def) (simp add: demo_zc_defs)
  moreover have "zc_count 2 2 2 = 0" by (simp add: zc_count_le kRdmaZcWindow_def)
  hence "post_sends zl_verbs ?z (demo_log demo_chunks []) = Some (?z, demo_log demo_chunks [])"
    by (simp add: post_sends_def Let_def demo_zc_active_def)
  ultimately show ?thesis
    by (simp add: Zc_TrySend_def begin_send_def IsTransferSizeSupported_def kRdmaZcMaxTransferSize_def Rdma_IsProducer_def Let_def demo_len demo_log_def)
      (simp add: demo_zc_defs)
qed

lemma zc_send_covers_witness:
  "concat (map wr_addresses demo_chunks) = [1000..<1006]"
proof -
  obtain z e where last: "Zc_TrySend zl_cm zl_verbs 1000 demo_data 0 demo_zc_active (demo_log demo_chunks [demo_sent_wc]) = Some (Some (6, True, z, e))"
    and e: "zl_posted e = demo_chunks" using demo_zc_second by blast
  have start: "zc_idle demo_zc" "zc_qp demo_zc = 1" "0 < zc_chunk demo_zc" "zc_threshold demo_zc \<le> length demo_data"
    by (simp_all add: zc_idle_def demo_zc_defs)
  have calls: "zc_calls zl_cm zl_verbs 1000 demo_data demo_zc (demo_log [] []) demo_zc_active (demo_log demo_chunks [demo_sent_wc])"
    by (rule zc_calls.call [OF zc_calls.none demo_zc_first])
  from zc_send_covers [OF zl.zc_posting_axioms start calls last] e show ?thesis by (auto simp: demo_log_def)
qed

subsection \<open>Closing\<close>

context rdma_library
begin

lemma release_live: "con (field (fst s)) \<noteq> x \<Longrightarrow> x \<in> live (snd (release_field cm field con clear s)) \<longleftrightarrow> x \<in> live (snd s)"
  by (cases s) (auto simp: release_field_def release_law)

lemma release_qp: "(\<And>z. zc_qp (clear z) = zc_qp z) \<Longrightarrow> zc_qp (fst (release_field cm field con clear s)) = zc_qp (fst s)"
  by (cases s) (simp add: release_field_def)

lemma base_close_live:
  assumes "Rdma_CloseResources cm vb (z, e) = Some (z', e')" and "QueuePair q \<in> live e" and "rd_qp z \<noteq> q"
  shows "QueuePair q \<in> live e' \<and> zc_qp z' = zc_qp z"
proof -
  let ?s = "if rd_cm_id z \<noteq> 0 then release_field cm rd_qp QueuePair (rd_qp_update (\<lambda>_. 0)) (z, e) else (z, e)"
  have q: "QueuePair q \<in> live (snd ?s)" "zc_qp (fst ?s) = zc_qp z" using assms(2,3) by (simp_all add: release_live release_qp)
  obtain t1 e1 where s: "?s = (t1, e1)" by fastforce
  then obtain ok e2 where d: "DrainCompletionEvents vb False t1 e1 = Some (ok, e2)" and
    r: "(z', e') = (release_field cm rd_buffer RegisteredBuffer (rd_buffer_update (\<lambda>_. 0)) \<circ> CloseCm cm \<circ>
      release_field cm rd_cm_id CmId (rd_cm_id_update (\<lambda>_. 0)) \<circ> release_field cm rd_pd ProtectionDomain (rd_pd_update (\<lambda>_. 0)) \<circ>
      release_field cm rd_comp_channel CompletionChannel (rd_comp_channel_update (\<lambda>_. 0)) \<circ>
      release_field cm rd_cq CompletionQueue (rd_cq_update (\<lambda>_. 0)) \<circ> release_field cm rd_mr MemoryRegion (rd_mr_update (\<lambda>_. 0))) (t1, e2)"
    using assms(1) by (auto simp: Rdma_CloseResources_def split: option.splits)
  have "QueuePair q \<in> live e2" "zc_qp t1 = zc_qp z" using q [unfolded s] drain_live [OF d] by simp_all
  moreover have "e' = snd (z', e')" "z' = fst (z', e')" by simp_all
  ultimately show ?thesis unfolding r by (simp add: release_live release_qp CloseCm_def)
qed

end

text \<open>
  \<open>CloseResources\<close> of the zero-copy transport leaves the queue pair of the second connection alive and forgets it:
  \<open>rdma_destroy_id\<close> does not destroy the queue pair of its identifier, and no call of \<open>rdma_destroy_qp\<close> names it.
\<close>

lemma zc_close_leaks_queue_pair:
  assumes "rdma_library cm vb live" and "QueuePair (zc_qp z) \<in> live e" and "zc_id z \<noteq> 0" and "rd_qp z \<noteq> zc_qp z"
    and "Zc_CloseResources cm vb (z, e) = Some (z', e')"
  shows "QueuePair (zc_qp z) \<in> live e' \<and> zc_qp z' = 0"
proof -
  obtain z1 e1 where c: "CloseZc cm (DropZcMr cm (ReleaseZc z, e)) = (z1, e1)" by fastforce
  have base: "Rdma_CloseResources cm vb (z1, e1) = Some (z', e')" using assms(5) by (simp add: Zc_CloseResources_def c)
  note laws = rdma_library.release_live [OF assms(1)]
  obtain z2 e2 where d: "DropZcMr cm (ReleaseZc z, e) = (z2, e2)" by fastforce
  have z2: "zc_id z2 \<noteq> 0" "rd_qp z2 = rd_qp z" and e2: "QueuePair (zc_qp z) \<in> live e2"
    using d assms(2,3) laws [of MemoryRegion zc_mr "(ReleaseZc z, e)" "QueuePair (zc_qp z)" "zc_mr_update (\<lambda>_. 0)"]
    by (auto simp: DropZcMr_def ReleaseZc_def release_field_def split: if_splits)
  let ?f = "release_field cm zc_id CmId (\<lambda>z. z\<lparr>zc_id := 0, zc_qp := 0\<rparr>)"
  have "z1 = fst (CloseZc cm (z2, e2))" "e1 = snd (CloseZc cm (z2, e2))" using c d by simp_all
  hence "QueuePair (zc_qp z) \<in> live e1" "zc_qp z1 = 0" "rd_qp z1 = rd_qp z"
    using z2 e2 by (simp_all add: CloseZc_def laws) (simp_all add: release_field_def)
  thus ?thesis using rdma_library.base_close_live [OF assms(1) base] assms(4) by metis
qed

end
