(* ===== verification/Spec2Isabelle.thy ===== *)
theory Spec2Isabelle
  imports Occl_Communicator_Correct Occl_Ring_Correct Occl_Shm_Setup Occl_Tcp_Correct Occl_Executor_Correct
    Occl_Pool_Correct Occl_Dynamic_Correct Occl_Epoll_Correct Occl_Reactor_Correct Occl_Typed
    Occl_Rdma_Correct Occl_Rdma_Zc_Correct
begin
text \<open>
  OriginCCL is a collective communication library: the ranks of a group of processes exchange buffers by Send, Recv,
  Broadcast, Reduce, AllReduce, ReduceScatter and AllGather. This development models its C++ code under \<open>src/\<close>
  and \<open>include/\<close> and proves what the parts promise one another.

  How the program works. \<open>Communicator::Init\<close> lets rank 0 collect and distribute a table of all processes
  (\<open>Bootstrap\<close>), groups them by machine, computes a ring and a double binary tree per channel, and connects the
  neighbours by shared memory, TCP or RDMA; the first message on a connection names the connector it is for. The public
  operations submit a \<open>CollTask\<close>; outside of a group, or at the end of the outermost group, the pending tasks go to
  the \<open>Planner\<close>, which validates and sorts them, cuts each collective into slices for the channels and orders the
  point-to-point tasks by rounds, connecting peers on demand. An executor runs the plan: the multi-threaded one, or the
  epoll one on a machine with fewer cores than ranks; the dynamic one for the plans that \<open>Flush\<close> gives it; the polling
  and the reactor executor have the same interface and are not created by the communicator. Each drives a task by
  \<open>CollectiveInit\<close> and then \<open>CollectiveStep\<close> of the task's topology, a state machine that calls \<open>TrySend\<close> and
  \<open>TryRecv\<close> of its transports and the reduction kernels until the task is done.

  Theories and sources, in the order of the imports.

  \<^item> \<open>Occl_Prelude\<close>: bytes, sizes, flat memory, C++ division, \<open>std::stable_sort\<close>. \<open>Occl_Types\<close>:
    \<open>types.h\<close>, \<open>channel.h\<close>, \<open>occl_config.h\<close>. \<open>Occl_Bytes\<close>: integers as bytes.
  \<^item> \<open>Occl_Reduce\<close> and \<open>Occl_Codec\<close>: the kernels and the wire codec of \<open>utils.cpp\<close>. \<open>Occl_Bootstrap\<close>:
    \<open>bootstrap.cpp\<close> and the framing of \<open>utils.cpp\<close>.
  \<^item> \<open>Occl_Topology\<close>: the edges of rings and trees. \<open>Occl_Planner\<close>, \<open>Occl_P2p_Plan\<close>, \<open>Occl_P2p_Correct\<close>:
    \<open>planner.cpp\<close>.
  \<^item> \<open>Occl_Machine\<close>: a task under execution with its memory and its transports. \<open>Occl_Ring\<close>:
    \<open>topology_ring.cpp\<close>. \<open>Occl_Tree\<close>: \<open>topology_tree.cpp\<close> and \<open>topology_p2p.cpp\<close>. \<open>Occl_Exchange\<close>,
    \<open>Occl_Allreduce\<close>, \<open>Occl_Script\<close>, \<open>Occl_Ring_Correct\<close>: what the ring AllReduce computes.
  \<^item> \<open>Occl_Shm\<close>, \<open>Occl_Shm_Fifo\<close>, \<open>Occl_Shm_Correct\<close>, \<open>Occl_Shm_Setup\<close>: \<open>transport_shm.cpp\<close>, the ring
    in shared memory and its rendezvous. \<open>Occl_Tcp\<close>, \<open>Occl_Tcp_Correct\<close>: \<open>transport_tcp.cpp\<close>.
  \<^item> \<open>Occl_Rdma\<close> (data plane), \<open>Occl_Rdma_Link\<close> (two endpoints and their cards), \<open>Occl_Rdma_Fifo\<close>,
    \<open>Occl_Rdma_Correct\<close> (the ring between them), \<open>Occl_Rdma_Setup\<close>, \<open>Occl_Rdma_Resources\<close> (connections and
    what they own): \<open>transport_rdma.cpp\<close>. \<open>Occl_Rdma_Zc\<close>, \<open>Occl_Rdma_Zc_Correct\<close>: \<open>transport_rdma_zc.cpp\<close>.
  \<^item> \<open>Occl_Executor\<close>, \<open>Occl_Executor_Correct\<close>, \<open>Occl_Typed\<close>: the dispatch of \<open>topology.h\<close> and \<open>ExecuteTask\<close>.
    \<open>Occl_Pool\<close>, \<open>Occl_Pool_Correct\<close>: \<open>multi_thread_executor.cpp\<close>. \<open>Occl_Dynamic\<close>,
    \<open>Occl_Dynamic_Correct\<close>: \<open>dynamic_multi_thread_executor.cpp\<close>. \<open>Occl_Polling\<close>,
    \<open>Occl_Polling_Correct\<close>, \<open>Occl_Epoll_Correct\<close>: \<open>polling_executor.cpp\<close> and \<open>epoll_executor.cpp\<close>.
    \<open>Occl_Reactor\<close>, \<open>Occl_Reactor_Jobs\<close>, \<open>Occl_Reactor_Slots\<close>, \<open>Occl_Reactor_Invariant\<close>,
    \<open>Occl_Reactor_Correct\<close>: \<open>reactor_executor.cpp\<close>.
  \<^item> \<open>Occl_Connect\<close>, \<open>Occl_Connect_Correct\<close>, \<open>Occl_Communicator\<close>, \<open>Occl_Communicator_Correct\<close>:
    \<open>communicator.cpp\<close>.

  How state and operations correspond. A class or struct is a record with the members of the source, an enumeration a
  datatype, a method a definition of the same name that takes the object and returns it updated. A method that returns
  \<open>bool\<close> is a function to an option, \<^term>\<open>None\<close> being \<open>return false\<close>: where the caller drops the object after a
  failure the model drops its state, where the caller goes on (cleaning up, closing) the result is a pair of the flag
  and the state, under an option (\<^term>\<open>None\<close>: does not return) where the method may wait forever. Threads that share memory (the shared-memory ring, the connection threads, the worker pools, the
  reactor) are step relations or step functions whose steps are the critical sections, so that the theorems hold for
  every interleaving. The operating system, the verbs library and the virtual transports are records of functions over
  an environment: the code that uses them is a definition with that record as an argument.

  Interfaces. Each is a locale whose assumptions are what the client relies on, interpreted on definitions of the model.

  \<^item> \<open>strict_weak_order\<close>, \<open>keyed_order\<close>: a comparator that may be given to \<open>std::stable_sort\<close>; the two
    comparators of \<open>Planner::SortTasks\<close>.
  \<^item> \<open>codec\<close>: a decoder inverts an encoder at any offset; the three codecs of the program.
  \<^item> \<open>stream_sockets\<close>, \<open>logged_net\<close>, \<open>descriptors\<close>, \<open>stream_kernel\<close>, \<open>responsive_kernel\<close>, \<open>epoll_kernel\<close>,
    \<open>reactor_kernel\<close>: documented behaviour of the system calls, for the bootstrap, the connection setup, the
    descriptors of the shared-memory rendezvous, TCP, and the epoll and reactor executors.
  \<^item> \<open>transport\<close>, \<open>responsive_transport\<close>: the contract of \<open>TrySend\<close> and \<open>TryRecv\<close>; the models of the
    shared-memory and of the TCP transport satisfy the first, that of TCP the second.
  \<^item> \<open>exchange\<close>, \<open>exchange_loop\<close>, \<open>ar_rank\<close>, \<open>allreduce_rank\<close>: a rank as a sequence of message exchanges; one
    rank of the ring AllReduce is one.
  \<^item> \<open>rdma_link\<close>, \<open>rdma_library\<close>, \<open>rdma_client\<close>, \<open>zc_posting\<close>: a reliable connection between two network
    cards, and which objects and requests the calls of the verbs library create.

  What is proved.

  \<^item> Results. A ring AllReduce leaves on every rank the reduction in ring order, for any splitting of the transfers and
    any order of events, and does not deadlock. The slices of a collective tile it and are the same on all ranks.
  \<^item> Transports. The shared-memory ring and the RDMA ring refine a FIFO queue of bytes, with bounds on what is
    outstanding and without lost wakeups (shared memory); a call moves exactly the bytes between the old and the new
    progress; setting up a connection and closing it leaks nothing, except on the two paths that
    \<open>Accept_leaks_connection\<close> and \<open>zc_close_leaks_queue_pair\<close> exhibit.
  \<^item> Connections. The edges that different ranks compute match, and so do the handshakes; \<open>Init\<close> binds exactly the
    connectors of these edges.
  \<^item> Executors. A run that succeeds has executed every task of the plan, exactly once where the plan is shared; no
    completion or wakeup is lost; the event-driven executors leave nothing registered.
  \<^item> Communicator. A group is one flush of the accepted tasks in their order; \<open>Finalize\<close> closes everything once.

  Bounds. A \<open>size_t\<close> is a natural number, and a product or difference that could leave 64 bits is reduced modulo
  \<open>2 ^ 64\<close> (\<open>size_mul\<close>, \<open>size_diff\<close>); the cursors of the shared-memory ring are 64-bit words that wrap; an
  \<open>int\<close> that could overflow when incremented is a failure (\<open>int_inc\<close>). A loop that need not end is a
  \<open>partial_function\<close> whose value \<^term>\<open>None\<close> is that it does not return, so no fuel is chosen anywhere; that such loops
  return is a theorem where the environment makes progress. Bounded retries have the bounds of the source.

  Not modelled: the logger; CPU affinity, yielding and pausing; socket options and the enumeration of the host's
  addresses; the texts of errors. The checks a network card makes of memory keys are the card's. Functions the standard
  library provides (sorting, containers, mutexes and condition variables) are modelled by their documented behaviour.
\<close>
end
